(* ===== verification/Prelude.thy ===== *)
theory Prelude
  imports Main "HOL-Library.AList" "HOL-Library.Sublist" "HOL-Library.List_Lexorder"
    "HOL-Library.Char_ord" "HOL-Library.Word" "HOL-Library.Signed_Division"
    "HOL-Library.Code_Target_Nat"
begin

text \<open>
  The vocabulary every component shares.

  A Go map is an association list with distinct keys (\<open>alist_ok\<close>): it is executable, its
  length is Go's \<open>len\<close>, and its order stands for the iteration order, which Go leaves open.
  A Go error result is a value of a sum, \<open>Inl\<close> the error.  Loops that stop at the first
  error are \<open>map_result\<close> and \<open>fold_result\<close>.
\<close>

named_theorems inv_intro \<open>preservation lemmas of the components' invariants\<close>
named_theorems alist_simps \<open>rewriting of association lists\<close>
named_theorems frame_simps \<open>fields an operation leaves alone\<close>

type_synonym ('k, 'v) alist = "('k \<times> 'v) list"
type_synonym u8 = "8 word"
type_synonym u16 = "16 word"
type_synonym u32 = "32 word"
type_synonym u64 = "64 word"

abbreviation alist_ok :: "('k, 'v) alist \<Rightarrow> bool" where
  "alist_ok m \<equiv> distinct (map fst m)"

abbreviation keys :: "('k, 'v) alist \<Rightarrow> 'k set" where
  "keys m \<equiv> fst ` set m"

section \<open>Association lists\<close>

lemma map_of_update_if [alist_simps, simp]:
  "map_of (AList.update k v m) k' = (if k' = k then Some v else map_of m k')"
  by (simp add: update_conv')

lemma map_of_delete_if [alist_simps, simp]:
  "map_of (AList.delete k m) k' = (if k' = k then None else map_of m k')"
  by (simp add: delete_conv')

lemma keys_update [alist_simps, simp]: "keys (AList.update k v m) = insert k (keys m)"
  by (simp add: dom_update)

lemma keys_delete [alist_simps, simp]: "keys (AList.delete k m) = keys m - {k}"
  using delete_keys [of k m] by (metis set_map set_removeAll)

lemma alist_ok_update [inv_intro, simp]: "alist_ok m \<Longrightarrow> alist_ok (AList.update k v m)"
  by (rule distinct_update)

lemma alist_ok_delete [inv_intro, simp]: "alist_ok m \<Longrightarrow> alist_ok (AList.delete k m)"
  by (rule distinct_delete)

lemma alist_ok_filter [inv_intro, simp]: "alist_ok m \<Longrightarrow> alist_ok (filter P m)"
  by (rule distinct_map_filter)

lemma length_update [alist_simps, simp]:
  "length (AList.update k v m) = (if k \<in> keys m then length m else Suc (length m))"
  by (induction m) auto

lemma length_delete [alist_simps]:
  "alist_ok m \<Longrightarrow> k \<in> keys m \<Longrightarrow> Suc (length (AList.delete k m)) = length m"
proof (induction m)
  case (Cons a m)
  show ?case
  proof (cases "fst a = k")
    case True
    with Cons.prems show ?thesis by (cases a) auto
  next
    case False
    with Cons show ?thesis by (cases a) (auto simp: image_iff)
  qed
qed simp

lemma update_new: "k \<notin> keys m \<Longrightarrow> AList.update k v m = m @ [(k, v)]"
  by (induction m) auto

lemma snd_set_update: "snd ` set (AList.update k v m) \<subseteq> insert v (snd ` set m)"
  by (induction m) auto

lemma in_set_update: "(a, b) \<in> set (AList.update k v m) \<Longrightarrow> a = k \<and> b = v \<or> (a, b) \<in> set m"
  by (induction m) (auto split: if_split_asm)

lemma map_of_filter_key:
  "map_of (filter (\<lambda>(k, v). P k) m) k = (if P k then map_of m k else None)"
  by (induction m) auto

lemma map_of_ok_iff: "alist_ok m \<Longrightarrow> map_of m k = Some v \<longleftrightarrow> (k, v) \<in> set m"
  by (rule map_of_eq_Some_iff)

lemma map_of_subset:
  "map_of m' k = Some v \<Longrightarrow> set m' \<subseteq> set m \<Longrightarrow> alist_ok m \<Longrightarrow> map_of m k = Some v"
  by (meson map_of_SomeD map_of_is_SomeI subsetD)

lemma keys_iff_map_of: "k \<in> keys m \<longleftrightarrow> map_of m k \<noteq> None"
  by (simp add: map_of_eq_None_iff)

lemma length_alist_card: "alist_ok m \<Longrightarrow> length m = card (keys m)"
  by (metis distinct_card image_set length_map)

section \<open>Loops that stop at the first error\<close>

fun map_result :: "('a \<Rightarrow> 'e + 'b) \<Rightarrow> 'a list \<Rightarrow> 'e + 'b list" where
  "map_result f [] = Inr []"
| "map_result f (x # xs) =
     (case f x of Inl e \<Rightarrow> Inl e
      | Inr y \<Rightarrow> (case map_result f xs of Inl e \<Rightarrow> Inl e | Inr ys \<Rightarrow> Inr (y # ys)))"

fun fold_result :: "('a \<Rightarrow> 's \<Rightarrow> 'e + 's) \<Rightarrow> 'a list \<Rightarrow> 's \<Rightarrow> 'e + 's" where
  "fold_result f [] s = Inr s"
| "fold_result f (x # xs) s = (case f x s of Inl e \<Rightarrow> Inl e | Inr s' \<Rightarrow> fold_result f xs s')"

lemma map_result_Inr:
  "map_result f xs = Inr ys \<Longrightarrow> list_all2 (\<lambda>x y. f x = Inr y) xs ys"
  by (induction xs arbitrary: ys) (auto split: sum.splits)

lemma map_result_Inl: "map_result f xs = Inl e \<Longrightarrow> \<exists>x \<in> set xs. f x = Inl e"
  by (induction xs) (auto split: sum.splits)

lemma fold_result_append:
  "fold_result f (xs @ ys) s =
     (case fold_result f xs s of Inl e \<Rightarrow> Inl e | Inr s' \<Rightarrow> fold_result f ys s')"
  by (induction xs arbitrary: s) (auto split: sum.splits)

lemma fold_result_inv:
  assumes "\<And>x s s'. x \<in> set xs \<Longrightarrow> P s \<Longrightarrow> f x s = Inr s' \<Longrightarrow> P s'"
    and "fold_result f xs s = Inr s'" and "P s"
  shows "P s'"
  using assms
proof (induction xs arbitrary: s)
  case (Cons x xs)
  from Cons.prems(2) obtain t where "f x s = Inr t" and rest: "fold_result f xs t = Inr s'"
    by (auto split: sum.splits)
  then have "P t" using Cons.prems(1) [of x s t] Cons.prems(3) by simp
  with rest show ?case using Cons.IH Cons.prems(1) by (meson list.set_intros(2))
qed simp

text \<open>A sequence of steps that may fail to return.\<close>

fun opt_fold :: "('a \<Rightarrow> 's \<Rightarrow> 's option) \<Rightarrow> 'a list \<Rightarrow> 's \<Rightarrow> 's option" where
  "opt_fold f [] s = Some s"
| "opt_fold f (x # xs) s = (case f x s of None \<Rightarrow> None | Some s' \<Rightarrow> opt_fold f xs s')"

section \<open>Lists\<close>

lemma find_map_of: "map_option snd (find (\<lambda>p. fst p = k) m) = map_of m k"
  by (induction m) auto

lemma suffix_rev_prefix: "suffix xs ys \<longleftrightarrow> prefix (rev xs) (rev ys)"
  by (rule suffix_to_prefix)

lemma list_all2_rightD: "list_all2 P xs ys \<Longrightarrow> y \<in> set ys \<Longrightarrow> \<exists>x \<in> set xs. P x y"
  by (induction rule: list_all2_induct) auto

definition take_last :: "nat \<Rightarrow> 'a list \<Rightarrow> 'a list" where
  "take_last n xs = drop (length xs - n) xs"

lemma length_take_last [simp]: "length (take_last n xs) = min n (length xs)"
  by (auto simp: take_last_def)

lemma take_last_all [simp]: "length xs \<le> n \<Longrightarrow> take_last n xs = xs"
  by (simp add: take_last_def)

lemma take_last_0 [simp]: "take_last 0 xs = []"
  by (simp add: take_last_def)

lemma take_last_snoc: "0 < n \<Longrightarrow> take_last n (xs @ [x]) = take_last (n - 1) xs @ [x]"
  by (cases n) (auto simp: take_last_def Suc_diff_le)

end
