(* ===== verification/Go_Time.thy ===== *)
theory Go_Time
  imports Prelude
begin

text \<open>
  Go's \<open>time\<close> package as far as the program uses it.

  An instant is an \<open>int\<close>: nanoseconds since the zero \<open>time.Time\<close>, 1 January of year 1, 00:00
  UTC, so \<open>IsZero\<close> is equality with 0.  A \<open>time.Duration\<close> is an \<open>int\<close> of nanoseconds;
  \<open>Time.Sub\<close> saturates at the ends of the 64-bit range and products are reduced to it
  (\<open>wrap64\<close>).  A \<open>*time.Location\<close> is the lookup the runtime does in its zone table: for a
  second since the zero time it gives the offset from UTC in seconds and the bounds of the
  period in which that offset holds.
\<close>

type_synonym gotime = int
type_synonym duration = int

definition second :: duration where "second = 1000000000"
definition millisecond :: duration where "millisecond = 1000000"
definition microsecond :: duration where "microsecond = 1000"
definition minute :: duration where "minute = 60 * second"
definition hour :: duration where "hour = 60 * minute"

lemmas duration_units = second_def millisecond_def microsecond_def minute_def hour_def

definition max_int64 :: int where "max_int64 = 9223372036854775807"
definition min_int64 :: int where "min_int64 = - 9223372036854775808"

definition sat64 :: "int \<Rightarrow> int" where
  "sat64 d = (if d < min_int64 then min_int64 else if max_int64 < d then max_int64 else d)"

definition wrap64 :: "int \<Rightarrow> int" where
  "wrap64 d = (d + 2 ^ 63) mod 2 ^ 64 - 2 ^ 63"

definition time_sub :: "gotime \<Rightarrow> gotime \<Rightarrow> duration" where
  "time_sub t u = sat64 (t - u)"

definition time_is_zero :: "gotime \<Rightarrow> bool" where
  "time_is_zero t \<longleftrightarrow> t = 0"

lemma sat64_id [simp]: "min_int64 \<le> d \<Longrightarrow> d \<le> max_int64 \<Longrightarrow> sat64 d = d"
  by (simp add: sat64_def)

lemma sat64_nonneg [simp]: "0 \<le> sat64 d \<longleftrightarrow> 0 \<le> d"
  by (simp add: sat64_def min_int64_def max_int64_def)

lemma sat64_pos [simp]: "0 < sat64 d \<longleftrightarrow> 0 < d"
  by (simp add: sat64_def min_int64_def max_int64_def)

lemma sat64_le: "0 \<le> d \<Longrightarrow> sat64 d \<le> d"
  by (simp add: sat64_def min_int64_def max_int64_def)

lemma sat64_less_iff: "c \<le> max_int64 \<Longrightarrow> min_int64 < c \<Longrightarrow> sat64 d < c \<longleftrightarrow> d < c"
  by (simp add: sat64_def)

lemma sat64_range: "min_int64 \<le> sat64 d" "sat64 d \<le> max_int64"
  by (simp_all add: sat64_def min_int64_def max_int64_def)

lemma wrap64_id: "min_int64 \<le> d \<Longrightarrow> d \<le> max_int64 \<Longrightarrow> wrap64 d = d"
  by (simp add: wrap64_def min_int64_def max_int64_def)

lemma time_sub_self [simp]: "time_sub t t = 0"
  by (simp add: time_sub_def sat64_def min_int64_def max_int64_def)

section \<open>Wall clock in a location\<close>

type_synonym location = "int \<Rightarrow> int \<times> int \<times> int"

text \<open>\<open>In(loc)\<close>: the wall clock of an instant, in seconds since 1 January of year 1.\<close>

definition wall_seconds :: "location \<Rightarrow> gotime \<Rightarrow> int" where
  "wall_seconds loc t = (let s = t div second in s + fst (loc s))"

definition day_number :: "int \<Rightarrow> int" where
  "day_number wall = wall div 86400"

definition minute_of_day :: "int \<Rightarrow> int" where
  "minute_of_day wall = (wall mod 86400) div 60"

text \<open>\<open>Hour() * 60 + Minute()\<close> is \<open>minute_of_day\<close>.\<close>

definition clock_hour :: "int \<Rightarrow> int" where
  "clock_hour wall = (wall mod 86400) div 3600"

definition clock_minute :: "int \<Rightarrow> int" where
  "clock_minute wall = (wall mod 3600) div 60"

lemma hour_minute: "clock_hour wall * 60 + clock_minute wall = minute_of_day wall"
proof -
  define m where "m = wall mod 86400"
  have "wall mod 3600 = m mod 3600" unfolding m_def by (rule mod_mod_cancel [symmetric]) simp
  moreover have "m = m mod 3600 + (m div 3600 * 60) * 60"
    by simp
  then have "m div 60 = (m mod 3600 + (m div 3600 * 60) * 60) div 60"
    by (rule arg_cong)
  then have "m div 60 = m div 3600 * 60 + m mod 3600 div 60"
    by (simp only: div_mult_self1)
  ultimately show ?thesis
    by (simp add: clock_hour_def clock_minute_def minute_of_day_def m_def)
qed

lemma minute_of_day_range: "0 \<le> minute_of_day wall" "minute_of_day wall < 1440"
proof -
  have "0 \<le> wall mod 86400" "wall mod 86400 < 86400" by simp_all
  then show "0 \<le> minute_of_day wall" "minute_of_day wall < 1440"
    unfolding minute_of_day_def by (simp_all add: div_less_iff_less_mult pos_imp_zdiv_nonneg_iff)
qed

text \<open>\<open>Weekday()\<close>: Sunday is 0; 1 January of year 1 is a Monday.\<close>

definition weekday :: "int \<Rightarrow> int" where
  "weekday wall = (day_number wall + 1) mod 7"

text \<open>
  \<open>AddDate(0, 0, days)\<close>: the same clock reading \<open>days\<close> later, looked up in the location the
  way \<open>time.Date\<close> does: guess the offset at the wall clock read as UTC, and look again when
  the corrected instant falls outside the period of the first guess.
\<close>

definition date_seconds :: "location \<Rightarrow> int \<Rightarrow> int" where
  "date_seconds loc wall =
     (case loc wall of (off, start, stop) \<Rightarrow>
        if off \<noteq> 0 then
          let utc = wall - off in
          (if utc < start \<or> stop \<le> utc then wall - fst (loc utc) else wall - off)
        else wall)"

definition add_date :: "location \<Rightarrow> gotime \<Rightarrow> int \<Rightarrow> gotime" where
  "add_date loc t days =
     date_seconds loc (wall_seconds loc t + 86400 * days) * second + t mod second"

definition fixed_zone :: "int \<Rightarrow> location" where
  "fixed_zone off = (\<lambda>_. (off, min_int64, max_int64))"

text \<open>A location whose offset does not depend on the instant.\<close>

definition constant_offset :: "location \<Rightarrow> int \<Rightarrow> bool" where
  "constant_offset loc off \<longleftrightarrow> (\<forall>s. fst (loc s) = off)"

lemma constant_offset_fixed_zone [simp]: "constant_offset (fixed_zone off) off"
  by (simp add: constant_offset_def fixed_zone_def)

lemma wall_seconds_constant:
  "constant_offset loc off \<Longrightarrow> wall_seconds loc t = t div second + off"
  by (simp add: wall_seconds_def constant_offset_def Let_def)

lemma date_seconds_constant: "constant_offset loc off \<Longrightarrow> date_seconds loc wall = wall - off"
  by (auto simp: date_seconds_def constant_offset_def Let_def split: prod.splits)
    (metis fst_conv)+

lemma wall_add_date_constant:
  assumes "constant_offset loc off"
  shows "wall_seconds loc (add_date loc t n) = wall_seconds loc t + 86400 * n"
proof -
  have "(s * second + t mod second) div second = s" for s :: int
    by (simp add: second_def)
  then show ?thesis
    using assms by (simp add: wall_seconds_constant add_date_def date_seconds_constant)
qed

lemma weekday_add_days: "weekday (wall + 86400 * n) = (weekday wall + n) mod 7"
  by (simp add: weekday_def day_number_def ac_simps mod_simps)

end
