(* ===== verification/Go_Strings.thy ===== *)
theory Go_Strings
  imports Go_Time
begin

text \<open>
  Go strings are byte sequences, here \<open>string\<close> (a \<open>char\<close> is one byte).  The theory defines
  the functions of \<open>strings\<close>, \<open>unicode/utf8\<close> and \<open>strconv\<close> the program calls.

  A byte sequence denotes a white-space rune exactly when it is one of the UTF-8 encodings
  \<open>space_len\<close> knows: no encoding's first byte is a continuation byte, so the forward decoding
  of \<open>Fields\<close> and \<open>ContainsFunc\<close> and the backward decoding of \<open>TrimSpace\<close> agree with
  matching these encodings, on invalid UTF-8 too.

  \<open>golib\<close> collects what the program takes from outside: the third-party IDNA tables, the
  case tables of Unicode for strings that are not ASCII, the zone database and the clock
  formats.
\<close>

record golib =
  g_idna :: "string \<Rightarrow> string option"          \<comment> \<open>\<open>idna.Lookup.ToASCII\<close>\<close>
  g_lower :: "string \<Rightarrow> string"                \<comment> \<open>\<open>strings.ToLower\<close> beyond ASCII\<close>
  g_local :: location                          \<comment> \<open>\<open>time.Local\<close>\<close>
  g_load_location :: "string \<Rightarrow> location option"
  g_fmt_time :: "gotime \<Rightarrow> string"             \<comment> \<open>\<open>Format(time.RFC3339Nano)\<close>\<close>
  g_parse_time :: "string \<Rightarrow> gotime option"    \<comment> \<open>\<open>time.Parse(time.RFC3339Nano, _)\<close>\<close>

definition byte :: "char \<Rightarrow> nat" where
  "byte c = of_char c"

definition is_ascii :: "char \<Rightarrow> bool" where
  "is_ascii c \<longleftrightarrow> byte c < 128"

definition is_digit :: "char \<Rightarrow> bool" where
  "is_digit c \<longleftrightarrow> 48 \<le> byte c \<and> byte c \<le> 57"

definition is_lower_letter :: "char \<Rightarrow> bool" where
  "is_lower_letter c \<longleftrightarrow> 97 \<le> byte c \<and> byte c \<le> 122"

definition is_upper_letter :: "char \<Rightarrow> bool" where
  "is_upper_letter c \<longleftrightarrow> 65 \<le> byte c \<and> byte c \<le> 90"

lemmas char_class_defs = byte_def is_ascii_def is_digit_def is_lower_letter_def is_upper_letter_def

definition lower_char :: "char \<Rightarrow> char" where
  "lower_char c = (if is_upper_letter c then char_of (byte c + 32) else c)"

text \<open>\<open>strings.ToLower\<close>: bytewise on ASCII, the Unicode tables otherwise.\<close>

definition to_lower :: "golib \<Rightarrow> string \<Rightarrow> string" where
  "to_lower G s = (if list_all is_ascii s then map lower_char s else g_lower G s)"

section \<open>Prefixes, suffixes, substrings\<close>

definition trim_prefix :: "string \<Rightarrow> string \<Rightarrow> string" where
  "trim_prefix p s = (if prefix p s then drop (length p) s else s)"

definition trim_suffix :: "string \<Rightarrow> string \<Rightarrow> string" where
  "trim_suffix p s = (if suffix p s then take (length s - length p) s else s)"

fun contains_str :: "string \<Rightarrow> string \<Rightarrow> bool" where
  "contains_str [] p \<longleftrightarrow> p = []"
| "contains_str (c # s) p \<longleftrightarrow> prefix p (c # s) \<or> contains_str s p"

lemma contains_str_sublist: "contains_str s p \<longleftrightarrow> sublist p s"
  by (induction s) (auto simp: sublist_Cons_right)

text \<open>\<open>strings.Cut\<close> at a separator byte: what precedes it, what follows it, whether it occurs.\<close>

definition cut :: "char \<Rightarrow> string \<Rightarrow> string \<times> string \<times> bool" where
  "cut c s =
     (if c \<in> set s then (takeWhile (\<lambda>x. x \<noteq> c) s, tl (dropWhile (\<lambda>x. x \<noteq> c) s), True)
      else (s, [], False))"

lemma cut_append: "c \<notin> set a \<Longrightarrow> cut c (a @ c # b) = (a, b, True)"
proof -
  assume "c \<notin> set a"
  then have "\<forall>x \<in> set a. x \<noteq> c" by auto
  then show ?thesis
    by (simp add: cut_def takeWhile_append2 dropWhile_append2)
qed

section \<open>White space\<close>

fun space_len :: "string \<Rightarrow> nat" where
  "space_len (a # s) =
     (if byte a \<in> {9, 10, 11, 12, 13, 32} then 1
      else if byte a = 0xC2 then
        (case s of b # _ \<Rightarrow> if byte b = 0x85 \<or> byte b = 0xA0 then 2 else 0 | [] \<Rightarrow> 0)
      else if byte a = 0xE1 then
        (case s of b # c # _ \<Rightarrow> if byte b = 0x9A \<and> byte c = 0x80 then 3 else 0 | _ \<Rightarrow> 0)
      else if byte a = 0xE2 then
        (case s of b # c # _ \<Rightarrow>
             if byte b = 0x80 \<and> (0x80 \<le> byte c \<and> byte c \<le> 0x8A \<or> byte c \<in> {0xA8, 0xA9, 0xAF})
                \<or> byte b = 0x81 \<and> byte c = 0x9F then 3 else 0
         | _ \<Rightarrow> 0)
      else if byte a = 0xE3 then
        (case s of b # c # _ \<Rightarrow> if byte b = 0x80 \<and> byte c = 0x80 then 3 else 0 | _ \<Rightarrow> 0)
      else 0)"
| "space_len [] = 0"

definition space_len_end :: "string \<Rightarrow> nat" where
  "space_len_end s =
     (if space_len (take_last 1 s) = 1 then 1
      else if space_len (take_last 2 s) = 2 then 2
      else if space_len (take_last 3 s) = 3 then 3 else 0)"

lemma space_len_le: "space_len s \<le> length s"
  by (cases s) (auto split: list.splits)

function trim_left :: "string \<Rightarrow> string" where
  "trim_left s = (if space_len s = 0 then s else trim_left (drop (space_len s) s))"
  by pat_completeness auto
termination
proof (relation "measure length")
  fix s :: string
  assume "space_len s \<noteq> 0"
  with space_len_le [of s] show "(drop (space_len s) s, s) \<in> measure length" by simp
qed simp

function trim_right :: "string \<Rightarrow> string" where
  "trim_right s =
     (if space_len_end s = 0 then s else trim_right (take (length s - space_len_end s) s))"
  by pat_completeness auto
termination
proof (relation "measure length")
  fix s :: string
  assume ne: "space_len_end s \<noteq> 0"
  have "s \<noteq> []" using ne by (auto simp: space_len_end_def take_last_def)
  with ne show "(take (length s - space_len_end s) s, s) \<in> measure length" by simp
qed simp

declare trim_left.simps [simp del] trim_right.simps [simp del]

definition trim_space :: "string \<Rightarrow> string" where
  "trim_space s = trim_right (trim_left s)"

fun contains_space :: "string \<Rightarrow> bool" where
  "contains_space [] \<longleftrightarrow> False"
| "contains_space (c # s) \<longleftrightarrow> 0 < space_len (c # s) \<or> contains_space s"

text \<open>\<open>strings.Fields\<close>; the first argument is the field being read, reversed.\<close>

function str_fields_from :: "string \<Rightarrow> string \<Rightarrow> string list" where
  "str_fields_from acc [] = (if acc = [] then [] else [rev acc])"
| "str_fields_from acc (c # s) =
     (let n = space_len (c # s) in
      if n = 0 then str_fields_from (c # acc) s
      else (if acc = [] then [] else [rev acc]) @ str_fields_from [] (drop (n - 1) s))"
  by pat_completeness auto
termination by (relation "measure (\<lambda>(acc, s). length s)") auto

definition str_fields :: "string \<Rightarrow> string list" where
  "str_fields s = str_fields_from [] s"

section \<open>Splitting and joining\<close>

fun split_on :: "char \<Rightarrow> string \<Rightarrow> string list" where
  "split_on c [] = [[]]"
| "split_on c (x # s) =
     (if x = c then [] # split_on c s
      else (case split_on c s of [] \<Rightarrow> [[x]] | p # ps \<Rightarrow> (x # p) # ps))"

fun join :: "string \<Rightarrow> string list \<Rightarrow> string" where
  "join sep [] = []"
| "join sep [p] = p"
| "join sep (p # q # ps) = p @ sep @ join sep (q # ps)"

lemma split_on_nonempty [simp]: "split_on c s \<noteq> []"
  by (induction s) (auto split: list.splits)

lemma split_on_no_sep: "p \<in> set (split_on c s) \<Longrightarrow> c \<notin> set p"
  by (induction s arbitrary: p) (auto split: list.splits if_splits)

lemma join_split_on [simp]: "join [c] (split_on c s) = s"
proof (induction s)
  case (Cons x s)
  then show ?case by (cases "split_on c s"; cases "tl (split_on c s)") auto
qed simp

lemma split_on_no_occurrence: "c \<notin> set p \<Longrightarrow> split_on c p = [p]"
  by (induction p) auto

lemma split_on_append_sep: "c \<notin> set p \<Longrightarrow> split_on c (p @ c # s) = p # split_on c s"
  by (induction p) auto

lemma split_on_join:
  "ps \<noteq> [] \<Longrightarrow> \<forall>p \<in> set ps. c \<notin> set p \<Longrightarrow> split_on c (join [c] ps) = ps"
proof (induction ps)
  case (Cons p ps)
  then show ?case
    by (cases ps) (auto simp: split_on_no_occurrence split_on_append_sep)
qed simp

lemma set_join: "set (join sep ps) \<subseteq> set sep \<union> \<Union> (set ` set ps)"
  by (induction sep ps rule: join.induct) auto

lemma join_eq_Nil: "ps \<noteq> [] \<Longrightarrow> [] \<notin> set ps \<Longrightarrow> join sep ps \<noteq> []"
  by (induction sep ps rule: join.induct) auto

lemma last_join: "ps \<noteq> [] \<Longrightarrow> [] \<notin> set ps \<Longrightarrow> last (join sep ps) = last (last ps)"
  by (induction sep ps rule: join.induct) (auto simp: join_eq_Nil)

text \<open>
  \<open>bufio.Scanner\<close> with a buffer of \<open>limit\<close> bytes: the lines it yields, and whether it then stops at a line the buffer cannot hold.  A
  last line without a newline counts when it is not empty; a trailing carriage return is
  dropped.
\<close>

definition scan_lines :: "int \<Rightarrow> string \<Rightarrow> string list \<times> bool" where
  "scan_lines limit s =
     (let raw = split_on (char_of (10::nat)) s;
          raw = (if last raw = [] then butlast raw else raw);
          short = takeWhile (\<lambda>l. int (length l) < limit) raw
      in (map (trim_suffix [char_of (13::nat)]) short, length short < length raw))"

section \<open>UTF-8\<close>

definition is_cont :: "char \<Rightarrow> bool" where
  "is_cont c \<longleftrightarrow> 0x80 \<le> byte c \<and> byte c \<le> 0xBF"

text \<open>The range of the second byte for each first byte of a multi-byte sequence.\<close>

definition second_range :: "nat \<Rightarrow> nat \<times> nat" where
  "second_range a =
     (if a = 0xE0 then (0xA0, 0xBF) else if a = 0xED then (0x80, 0x9F)
      else if a = 0xF0 then (0x90, 0xBF) else if a = 0xF4 then (0x80, 0x8F) else (0x80, 0xBF))"

definition second_ok :: "char \<Rightarrow> char \<Rightarrow> bool" where
  "second_ok a b \<longleftrightarrow> fst (second_range (byte a)) \<le> byte b \<and> byte b \<le> snd (second_range (byte a))"

fun valid_utf8 :: "string \<Rightarrow> bool" where
  "valid_utf8 [] \<longleftrightarrow> True"
| "valid_utf8 (a # s) \<longleftrightarrow>
     (if byte a < 0x80 then valid_utf8 s
      else if 0xC2 \<le> byte a \<and> byte a \<le> 0xDF then
        (case s of b # t \<Rightarrow> is_cont b \<and> valid_utf8 t | _ \<Rightarrow> False)
      else if 0xE0 \<le> byte a \<and> byte a \<le> 0xEF then
        (case s of b # c # t \<Rightarrow> second_ok a b \<and> is_cont c \<and> valid_utf8 t | _ \<Rightarrow> False)
      else if 0xF0 \<le> byte a \<and> byte a \<le> 0xF4 then
        (case s of b # c # d # t \<Rightarrow> second_ok a b \<and> is_cont c \<and> is_cont d \<and> valid_utf8 t
         | _ \<Rightarrow> False)
      else False)"

lemma valid_utf8_ascii: "list_all is_ascii s \<Longrightarrow> valid_utf8 s"
  by (induction s) (auto simp: is_ascii_def)

text \<open>The bytes of the next rune; a byte that starts no valid encoding is a rune of its own.\<close>

definition rune_len :: "string \<Rightarrow> nat" where
  "rune_len s =
     (case s of
        [] \<Rightarrow> 0
      | a # t \<Rightarrow>
          if 0xC2 \<le> byte a \<and> byte a \<le> 0xDF then
            (case t of b # _ \<Rightarrow> if is_cont b then 2 else 1 | _ \<Rightarrow> 1)
          else if 0xE0 \<le> byte a \<and> byte a \<le> 0xEF then
            (case t of b # c # _ \<Rightarrow> if second_ok a b \<and> is_cont c then 3 else 1 | _ \<Rightarrow> 1)
          else if 0xF0 \<le> byte a \<and> byte a \<le> 0xF4 then
            (case t of b # c # d # _ \<Rightarrow>
               if second_ok a b \<and> is_cont c \<and> is_cont d then 4 else 1 | _ \<Rightarrow> 1)
          else 1)"

lemma rune_len_pos: "0 < rune_len (a # t)"
  by (simp add: rune_len_def split: list.splits)

section \<open>Numbers\<close>

definition digit_char :: "nat \<Rightarrow> char" where
  "digit_char d = char_of (48 + d)"

fun show_nat :: "nat \<Rightarrow> string" where
  "show_nat n = (if n < 10 then [digit_char n] else show_nat (n div 10) @ [digit_char (n mod 10)])"

declare show_nat.simps [simp del]

definition show_int :: "int \<Rightarrow> string" where
  "show_int i = (if i < 0 then ''-'' @ show_nat (nat (- i)) else show_nat (nat i))"

definition digits_value :: "string \<Rightarrow> nat" where
  "digits_value s = foldl (\<lambda>v c. v * 10 + (byte c - 48)) 0 s"

text \<open>\<open>strconv.Atoi\<close> and \<open>strconv.ParseInt(s, 10, 64)\<close>: \<open>None\<close> on a syntax or range error.\<close>

definition atoi :: "string \<Rightarrow> int option" where
  "atoi s =
     (let (neg, ds) = (case s of c # t \<Rightarrow> if c = CHR ''-'' then (True, t)
                                  else if c = CHR ''+'' then (False, t) else (False, s)
                        | [] \<Rightarrow> (False, []));
          v = (if neg then - int (digits_value ds) else int (digits_value ds))
      in if ds \<noteq> [] \<and> list_all is_digit ds \<and> min_int64 \<le> v \<and> v \<le> max_int64 then Some v else None)"

lemma byte_digit_char: "d < 10 \<Longrightarrow> byte (digit_char d) = 48 + d"
  by (simp add: byte_def digit_char_def)

lemma is_digit_digit_char [simp]: "d < 10 \<Longrightarrow> is_digit (digit_char d)"
  by (simp add: is_digit_def byte_digit_char)

lemma show_nat_digits: "list_all is_digit (show_nat n)"
  by (induction n rule: show_nat.induct) (subst show_nat.simps, simp)

lemma show_nat_nonempty [simp]: "show_nat n \<noteq> []"
  by (subst show_nat.simps) simp

lemma digits_value_show_nat [simp]: "digits_value (show_nat n) = n"
proof (induction n rule: show_nat.induct)
  case (1 n)
  show ?case
  proof (cases "n < 10")
    case True
    then show ?thesis by (simp add: show_nat.simps [of n] digits_value_def byte_digit_char)
  next
    case False
    then have "digits_value (show_nat n) = digits_value (show_nat (n div 10)) * 10 + n mod 10"
      by (simp add: show_nat.simps [of n] digits_value_def byte_digit_char)
    with False 1 show ?thesis by simp
  qed
qed

lemma not_sign_digit: "is_digit c \<Longrightarrow> c \<noteq> CHR ''-'' \<and> c \<noteq> CHR ''+''"
  by (auto simp: char_class_defs)

lemma atoi_digits:
  assumes "ds \<noteq> []" "list_all is_digit ds" "int (digits_value ds) \<le> max_int64"
  shows "atoi ds = Some (int (digits_value ds))"
  using assms not_sign_digit
  by (cases ds) (auto simp: atoi_def Let_def min_int64_def)

lemma atoi_show_int:
  assumes "min_int64 \<le> i" "i \<le> max_int64"
  shows "atoi (show_int i) = Some i"
proof (cases "i < 0")
  case True
  with assms show ?thesis
    by (simp add: show_int_def atoi_def Let_def show_nat_digits max_int64_def)
next
  case False
  with assms show ?thesis by (simp add: show_int_def atoi_digits show_nat_digits)
qed

definition parse_bool :: "string \<Rightarrow> bool option" where
  "parse_bool s =
     (if s \<in> {''1'', ''t'', ''T'', ''TRUE'', ''true'', ''True''} then Some True
      else if s \<in> {''0'', ''f'', ''F'', ''FALSE'', ''false'', ''False''} then Some False
      else None)"

text \<open>A concrete library for evaluation: IDNA and case tables that know ASCII only, in UTC.\<close>

definition ascii_lib :: golib where
  "ascii_lib = \<lparr>g_idna = (\<lambda>s. if list_all is_ascii s then Some s else None),
     g_lower = (\<lambda>s. s), g_local = fixed_zone 0, g_load_location = (\<lambda>_. None),
     g_fmt_time = show_int, g_parse_time = atoi\<rparr>"

end
