(* ===== verification/Domains.thy ===== *)
theory Domains
  imports Go_Strings
begin

text \<open>
  \<open>internal/policy/domains.go\<close>: the suffix-matching domain trie and the normalisation of
  domain patterns.  Children of a trie node are an association list from label to node.  A
  domain is stored under its labels in reverse order, so a stored suffix is a prefix of the
  path of every name below it.  The abstraction of a trie is the set of stored paths
  (\<open>stored\<close>); \<open>suffix_set\<close> is the interface the policy engine and the blocklist parser rely
  on, interpreted on the trie at the end.
\<close>

datatype node = Node (terminal: bool) (children: "(string \<times> node) list")

record domains =
  d_root :: node
  d_size :: int

section \<open>Normalisation of domain patterns\<close>

definition label_char :: "char \<Rightarrow> bool" where
  "label_char c \<longleftrightarrow> is_lower_letter c \<or> is_digit c \<or> c = CHR ''-''"

definition valid_label :: "string \<Rightarrow> bool" where
  "valid_label l \<longleftrightarrow>
     l \<noteq> [] \<and> length l \<le> 63 \<and> hd l \<noteq> CHR ''-'' \<and> last l \<noteq> CHR ''-'' \<and> list_all label_char l"

definition normalize_domain_pattern :: "golib \<Rightarrow> string \<Rightarrow> string option" where
  "normalize_domain_pattern G domain =
     (let domain = trim_suffix ''.'' (trim_space domain);
          wild = prefix ''*.'' domain;
          domain = (if wild then drop 2 domain else domain) in
      if \<not> valid_utf8 domain \<or> trim_space domain \<noteq> domain \<or> suffix ''.'' domain \<or> domain = []
         \<or> contains_space domain then None
      else
        (case g_idna G domain of
           None \<Rightarrow> None
         | Some a \<Rightarrow>
             let ascii = to_lower G (trim_suffix ''.'' a) in
             if ascii = [] \<or> 253 < length ascii \<or> contains_space ascii then None
             else
               (case g_idna G ascii of
                  None \<Rightarrow> None
                | Some again \<Rightarrow>
                    if to_lower G (trim_suffix ''.'' again) \<noteq> ascii then None
                    else if \<not> list_all valid_label (split_on (CHR ''.'') ascii) then None
                    else Some (if wild then ''*.'' @ ascii else ascii))))"

definition labels_for :: "golib \<Rightarrow> string \<Rightarrow> string list option" where
  "labels_for G domain =
     (case normalize_domain_pattern G domain of
        None \<Rightarrow> None
      | Some n \<Rightarrow> Some (rev (split_on (CHR ''.'') (trim_prefix ''*.'' n))))"

text \<open>What a normal form looks like, and that normalising it again changes nothing.\<close>

lemma label_char_facts:
  assumes "label_char c"
  shows "is_ascii c" "c \<noteq> CHR ''.''" "c \<noteq> CHR ''*''" "byte c \<notin> {9, 10, 11, 12, 13, 32}"
  using assms by (auto simp: label_char_def char_class_defs)

definition host_char :: "char \<Rightarrow> bool" where
  "host_char c \<longleftrightarrow> label_char c \<or> c = CHR ''.'' \<or> c = CHR ''*''"

lemma host_char_facts:
  assumes "host_char c"
  shows "is_ascii c" "byte c \<notin> {9, 10, 11, 12, 13, 32}"
  using assms label_char_facts [of c] by (auto simp: host_char_def is_ascii_def byte_def)

lemma space_len_host: "list_all host_char s \<Longrightarrow> space_len s = 0"
proof (cases s)
  case (Cons c t)
  assume "list_all host_char s"
  with Cons host_char_facts [of c] have "byte c < 128" "byte c \<notin> {9, 10, 11, 12, 13, 32}"
    by (simp_all add: is_ascii_def)
  with Cons show ?thesis by simp
qed simp

lemma space_len_end_host:
  assumes "list_all host_char s"
  shows "space_len_end s = 0"
proof -
  have "list_all host_char (take_last n s)" for n
    using assms by (auto simp: take_last_def list_all_iff dest: in_set_dropD)
  then have "space_len (take_last n s) = 0" for n by (rule space_len_host)
  then show ?thesis by (simp add: space_len_end_def)
qed

lemma trim_space_host: "list_all host_char s \<Longrightarrow> trim_space s = s"
  by (simp add: trim_space_def trim_left.simps [of s] trim_right.simps [of s] space_len_host
      space_len_end_host)

lemma contains_space_host: "list_all host_char s \<Longrightarrow> \<not> contains_space s"
proof (induction s)
  case (Cons c s)
  then show ?case using space_len_host [of "c # s"] by simp
qed simp

lemma valid_labels_chars:
  assumes "list_all valid_label (split_on (CHR ''.'') s)"
  shows "list_all host_char s" "CHR ''*'' \<notin> set s" "s \<noteq> []" "\<not> suffix ''.'' s"
proof -
  let ?ps = "split_on (CHR ''.'') s"
  have all: "valid_label p" if "p \<in> set ?ps" for p
    using assms that by (simp add: list_all_iff)
  have s: "s = join ''.'' ?ps" by simp
  have "c = CHR ''.'' \<or> label_char c" if "c \<in> set s" for c
    using that set_join [of "''.''" ?ps] all by (auto simp: valid_label_def list_all_iff)
  then show "list_all host_char s" "CHR ''*'' \<notin> set s"
    using label_char_facts by (auto simp: list_all_iff host_char_def)
  have ne: "[] \<notin> set ?ps" using all by (auto simp: valid_label_def)
  then show "s \<noteq> []" using s join_eq_Nil by (metis split_on_nonempty)
  have "label_char (last s)"
    using last_join [of ?ps "''.''"] ne all [of "last ?ps"]
    by (simp add: valid_label_def list_all_iff)
  then show "\<not> suffix ''.'' s" using label_char_facts(2) [of "CHR ''.''"] by (auto simp: suffix_def)
qed

text \<open>A normal form is \<open>ascii\<close> or \<open>*.ascii\<close>, where \<open>ascii\<close> is stable under the tables.\<close>

definition canonical_name :: "golib \<Rightarrow> string \<Rightarrow> bool" where
  "canonical_name G a \<longleftrightarrow>
     length a \<le> 253 \<and> list_all valid_label (split_on (CHR ''.'') a)
     \<and> (\<exists>r. g_idna G a = Some r \<and> to_lower G (trim_suffix ''.'' r) = a)"

lemma normalize_SomeD:
  assumes "normalize_domain_pattern G d = Some n"
  obtains a where "canonical_name G a" "n = a \<or> n = ''*.'' @ a"
  using assms
  by (force simp: normalize_domain_pattern_def canonical_name_def Let_def
      split: if_split_asm option.splits)

lemma trim_suffix_not: "\<not> suffix p s \<Longrightarrow> trim_suffix p s = s"
  by (simp add: trim_suffix_def)

lemma normalize_canonical:
  assumes "canonical_name G a"
  shows "normalize_domain_pattern G a = Some a"
    and "normalize_domain_pattern G (''*.'' @ a) = Some (''*.'' @ a)"
proof -
  note v = valid_labels_chars [of a]
  have a: "list_all valid_label (split_on (CHR ''.'') a)" "length a \<le> 253"
    using assms by (auto simp: canonical_name_def)
  obtain r where r: "g_idna G a = Some r" "to_lower G (trim_suffix ''.'' r) = a"
    using assms by (auto simp: canonical_name_def)
  have host: "list_all host_char a" "list_all host_char (''*.'' @ a)"
    using v(1) [OF a(1)] by (simp_all add: host_char_def)
  have utf: "valid_utf8 a"
    using host(1) host_char_facts by (intro valid_utf8_ascii) (auto simp: list_all_iff)
  have wild: "\<not> prefix ''*.'' a" "\<not> suffix ''.'' (''*.'' @ a)"
    using v(2-4) [OF a(1)] by (auto simp: prefix_def suffix_Cons)
  have sp: "\<not> contains_space a" "trim_space a = a" "trim_space (''*.'' @ a) = ''*.'' @ a"
    using host contains_space_host trim_space_host by auto
  show "normalize_domain_pattern G a = Some a"
    using a r wild sp utf v(3,4) [OF a(1)]
    by (simp add: normalize_domain_pattern_def Let_def trim_suffix_not)
  show "normalize_domain_pattern G (''*.'' @ a) = Some (''*.'' @ a)"
    using a r wild sp utf v(3,4) [OF a(1)]
    unfolding normalize_domain_pattern_def Let_def sp(3) trim_suffix_not [OF wild(2)]
    by (simp add: trim_suffix_not)
qed

lemma normalize_idem:
  assumes "normalize_domain_pattern G d = Some n"
  shows "normalize_domain_pattern G n = Some n"
  using assms by (metis normalize_SomeD normalize_canonical)

lemma labels_for_canonical:
  assumes "canonical_name G a"
  shows "labels_for G a = Some (rev (split_on (CHR ''.'') a))"
    and "labels_for G (''*.'' @ a) = Some (rev (split_on (CHR ''.'') a))"
proof -
  have "\<not> prefix ''*.'' a"
    using assms valid_labels_chars(2) [of a] by (auto simp: canonical_name_def prefix_def)
  then show "labels_for G a = Some (rev (split_on (CHR ''.'') a))"
    "labels_for G (''*.'' @ a) = Some (rev (split_on (CHR ''.'') a))"
    using normalize_canonical [OF assms] by (simp_all add: labels_for_def trim_prefix_def)
qed

section \<open>The trie\<close>

definition empty_domains :: domains where
  "empty_domains = \<lparr>d_root = Node False [], d_size = 0\<rparr>"

fun node_clone :: "node \<Rightarrow> node" where
  "node_clone (Node t cs) = Node t (map (\<lambda>(l, c). (l, node_clone c)) cs)"

definition domains_clone :: "domains option \<Rightarrow> domains" where
  "domains_clone d =
     (case d of None \<Rightarrow> empty_domains
      | Some d \<Rightarrow> \<lparr>d_root = node_clone (d_root d), d_size = d_size d\<rparr>)"

definition child_or_new :: "node \<Rightarrow> string \<Rightarrow> node" where
  "child_or_new n l = (case map_of (children n) l of None \<Rightarrow> Node False [] | Some c \<Rightarrow> c)"

fun node_add :: "string list \<Rightarrow> node \<Rightarrow> node \<times> bool" where
  "node_add [] n = (Node True (children n), \<not> terminal n)"
| "node_add (l # ls) n =
     (let (c, added) = node_add ls (child_or_new n l)
      in (Node (terminal n) (AList.update l c (children n)), added))"

definition domains_add :: "golib \<Rightarrow> string \<Rightarrow> domains \<Rightarrow> domains \<times> bool" where
  "domains_add G domain d =
     (case labels_for G domain of
        None \<Rightarrow> (d, False)
      | Some ls \<Rightarrow>
          let (root, added) = node_add ls (d_root d)
          in (d\<lparr>d_root := root, d_size := d_size d + (if added then 1 else 0)\<rparr>, added))"

fun node_match :: "string list \<Rightarrow> node \<Rightarrow> bool" where
  "node_match [] n = terminal n"
| "node_match (l # ls) n =
     (if terminal n then True
      else (case map_of (children n) l of None \<Rightarrow> False | Some c \<Rightarrow> node_match ls c))"

definition domains_match :: "golib \<Rightarrow> string \<Rightarrow> domains \<Rightarrow> bool" where
  "domains_match G domain d =
     (case labels_for G domain of None \<Rightarrow> False | Some ls \<Rightarrow> node_match ls (d_root d))"

fun node_delete :: "string list \<Rightarrow> node \<Rightarrow> node \<times> bool" where
  "node_delete [] n = (Node False (children n), terminal n)"
| "node_delete (l # ls) n =
     (case map_of (children n) l of
        None \<Rightarrow> (n, False)
      | Some c \<Rightarrow> let (c', deleted) = node_delete ls c
                  in (Node (terminal n) (AList.update l c' (children n)), deleted))"

definition domains_delete :: "golib \<Rightarrow> string \<Rightarrow> domains \<Rightarrow> domains \<times> bool" where
  "domains_delete G domain d =
     (case labels_for G domain of
        None \<Rightarrow> (d, False)
      | Some ls \<Rightarrow>
          let (root, deleted) = node_delete ls (d_root d)
          in if deleted then (d\<lparr>d_root := root, d_size := d_size d - 1\<rparr>, True) else (d, False))"

definition domains_len :: "domains option \<Rightarrow> int" where
  "domains_len d = (case d of None \<Rightarrow> 0 | Some d \<Rightarrow> d_size d)"

definition domain_from_labels :: "string list \<Rightarrow> string" where
  "domain_from_labels ls = join ''.'' (rev ls)"

text \<open>
  The depth-first search of \<open>entries\<close>: the output slice is threaded through, and the search
  stops once it holds \<open>limit\<close> domains.
\<close>

function node_entries :: "node \<Rightarrow> string list \<Rightarrow> string \<Rightarrow> nat \<Rightarrow> string list \<Rightarrow> string list" where
  "node_entries (Node t cs) path query limit out =
     (if limit \<le> length out then out
      else
        let domain = domain_from_labels path;
            out = (if t \<and> (query = [] \<or> contains_str domain query) then out @ [domain] else out) in
        if limit \<le> length out then out
        else fold (\<lambda>(l, c) out. if limit \<le> length out then out
                                else node_entries c (path @ [l]) query limit out)
               (sort_key fst cs) out)"
  by pat_completeness auto
termination
proof (relation "measure (\<lambda>(n, path, query, limit, out). size n)")
  fix t :: bool and cs :: "(string \<times> node) list" and x :: "string \<times> node"
  fix l c
  fix path path' :: "string list" and query query' :: string and limit limit' :: nat
  fix out out' :: "string list"
  assume "x \<in> set (sort_key fst cs)" "(l, c) = x"
  then have "(l, c) \<in> set cs" by simp
  then have "size c < size (Node t cs)"
    by (induction cs) auto
  then show "((c, path @ [l], query, limit, out'), Node t cs, path, query, limit, out)
      \<in> measure (\<lambda>(n, path, query, limit, out). size n)" by simp
qed simp

declare node_entries.simps [simp del]

definition domains_entries :: "golib \<Rightarrow> string \<Rightarrow> int \<Rightarrow> domains option \<Rightarrow> string list" where
  "domains_entries G query limit d =
     (case d of
        None \<Rightarrow> []
      | Some d \<Rightarrow>
          let limit = (if limit \<le> 0 \<or> 1000 < limit then 1000 else nat limit);
              query = to_lower G (trim_space (trim_suffix ''.'' query))
          in node_entries (d_root d) [] query limit [])"

section \<open>Abstraction: the set of stored paths\<close>

fun has_path :: "string list \<Rightarrow> node \<Rightarrow> bool" where
  "has_path [] n \<longleftrightarrow> terminal n"
| "has_path (l # ls) n \<longleftrightarrow>
     (case map_of (children n) l of None \<Rightarrow> False | Some c \<Rightarrow> has_path ls c)"

definition node_paths :: "node \<Rightarrow> string list set" where
  "node_paths n = {ls. has_path ls n}"

definition stored :: "domains \<Rightarrow> string list set" where
  "stored d = node_paths (d_root d)"

text \<open>Distinct labels at every node, and the size field counts the stored paths.\<close>

fun node_ok :: "node \<Rightarrow> bool" where
  "node_ok (Node t cs) \<longleftrightarrow> alist_ok cs \<and> (\<forall>(l, c) \<in> set cs. node_ok c)"

definition domains_ok :: "domains \<Rightarrow> bool" where
  "domains_ok d \<longleftrightarrow>
     node_ok (d_root d) \<and> finite (stored d) \<and> d_size d = int (card (stored d))"

lemma has_path_new [simp]: "\<not> has_path ls (Node False [])"
  by (cases ls) auto

lemma node_clone_id [simp]: "node_clone n = n"
proof (induction n)
  case (Node t cs)
  then have "map (\<lambda>(l, c). (l, node_clone c)) cs = cs"
    by (intro map_idI) (auto simp: snds.simps)
  then show ?case by simp
qed

lemma has_path_child_or_new:
  "has_path (l # ls) n \<longleftrightarrow> has_path ls (child_or_new n l)"
  by (simp add: child_or_new_def split: option.splits)

lemma has_path_add: "has_path p (fst (node_add ls n)) \<longleftrightarrow> p = ls \<or> has_path p n"
proof (induction ls n arbitrary: p rule: node_add.induct)
  case (1 n)
  then show ?case by (cases p) auto
next
  case (2 l ls n)
  show ?case
  proof (cases p)
    case Nil
    then show ?thesis by (simp add: case_prod_beta Let_def)
  next
    case (Cons k q)
    have "has_path q (fst (node_add ls (child_or_new n l))) \<longleftrightarrow> q = ls \<or> has_path (l # q) n"
      using 2 by (simp only: has_path_child_or_new)
    with Cons show ?thesis by (auto simp: case_prod_beta Let_def)
  qed
qed

lemma added_iff: "snd (node_add ls n) \<longleftrightarrow> \<not> has_path ls n"
  by (induction ls n rule: node_add.induct)
    (simp_all add: case_prod_beta Let_def has_path_child_or_new del: has_path.simps(2))

lemma has_path_delete: "has_path p (fst (node_delete ls n)) \<longleftrightarrow> has_path p n \<and> p \<noteq> ls"
proof (induction ls n arbitrary: p rule: node_delete.induct)
  case (1 n)
  then show ?case by (cases p) auto
next
  case (2 l ls n)
  then show ?case
    by (cases p) (auto simp: case_prod_beta Let_def split: option.splits)
qed

lemma deleted_iff: "snd (node_delete ls n) \<longleftrightarrow> has_path ls n"
  by (induction ls n rule: node_delete.induct)
    (auto simp: case_prod_beta Let_def split: option.splits)

lemma node_paths_add: "node_paths (fst (node_add ls n)) = insert ls (node_paths n)"
  by (auto simp: node_paths_def has_path_add)

lemma node_paths_delete: "node_paths (fst (node_delete ls n)) = node_paths n - {ls}"
  by (auto simp: node_paths_def has_path_delete)

text \<open>The descent of \<open>Match\<close>, which stops at the first terminal node, finds a stored prefix.\<close>

lemma node_match_iff: "node_match ls n \<longleftrightarrow> (\<exists>p \<in> node_paths n. prefix p ls)"
proof (induction ls n rule: node_match.induct)
  case (1 n)
  then show ?case by (auto simp: node_paths_def)
next
  case (2 l ls n)
  have "(\<exists>p \<in> node_paths n. prefix p (l # ls)) \<longleftrightarrow>
      terminal n \<or> (\<exists>c. map_of (children n) l = Some c \<and> (\<exists>q \<in> node_paths c. prefix q ls))"
    by (auto simp: node_paths_def prefix_Cons split: option.splits)
      (metis has_path.simps(1) has_path.simps(2) option.simps(5))+
  with 2 show ?case by (auto split: option.splits)
qed

lemma node_ok_iff:
  "node_ok (Node t cs) \<longleftrightarrow> alist_ok cs \<and> (\<forall>c \<in> snd ` set cs. node_ok c)"
  by force

lemma node_ok_children: "node_ok n \<Longrightarrow> alist_ok (children n)"
  by (cases n) simp

lemma node_ok_child: "node_ok n \<Longrightarrow> map_of (children n) l = Some c \<Longrightarrow> node_ok c"
  by (cases n) (auto dest!: map_of_SomeD)

lemma node_ok_child_or_new: "node_ok n \<Longrightarrow> node_ok (child_or_new n l)"
  by (auto simp: child_or_new_def split: option.splits intro: node_ok_child)

lemma node_ok_update:
  assumes "node_ok n" "node_ok c"
  shows "node_ok (Node t (AList.update l c (children n)))"
proof -
  obtain t' cs where n: "n = Node t' cs" by (cases n)
  have "\<forall>x \<in> snd ` set cs. node_ok x" "alist_ok cs" using assms(1) unfolding n node_ok_iff by auto
  then show ?thesis
    using assms(2) snd_set_update [of l c cs] unfolding n node_ok_iff
    by (metis alist_ok_update insert_iff node.sel(2) subsetD)
qed

lemma node_ok_terminal: "node_ok (Node t (children n)) \<longleftrightarrow> node_ok n"
  by (cases n) simp

lemma node_ok_add: "node_ok n \<Longrightarrow> node_ok (fst (node_add ls n))"
proof (induction ls n rule: node_add.induct)
  case (1 n)
  then show ?case by (simp add: node_ok_terminal del: node_ok.simps)
next
  case (2 l ls n)
  then show ?case
    by (simp add: case_prod_beta Let_def node_ok_child_or_new node_ok_update del: node_ok.simps)
qed

lemma node_ok_delete: "node_ok n \<Longrightarrow> node_ok (fst (node_delete ls n))"
proof (induction ls n rule: node_delete.induct)
  case (1 n)
  then show ?case by (simp add: node_ok_terminal del: node_ok.simps)
next
  case (2 l ls n)
  then show ?case
    by (auto simp: case_prod_beta Let_def simp del: node_ok.simps split: option.splits
        intro: node_ok_update node_ok_child)
qed

section \<open>The listing of \<open>entries\<close>\<close>

text \<open>All stored paths in the order of the search.\<close>

function node_listing :: "node \<Rightarrow> string list \<Rightarrow> string list list" where
  "node_listing (Node t cs) path =
     (if t then [path] else []) @
     concat (map (\<lambda>(l, c). node_listing c (path @ [l])) (sort_key fst cs))"
  by pat_completeness auto
termination
proof (relation "measure (size \<circ> fst)")
  fix t :: bool and cs :: "(string \<times> node) list" and x :: "string \<times> node" and l c
  fix path :: "string list"
  assume "x \<in> set (sort_key fst cs)" "(l, c) = x"
  then have "(l, c) \<in> set cs" by simp
  then have "size c < size (Node t cs)" by (induction cs) auto
  then show "((c, path @ [l]), Node t cs, path) \<in> measure (size \<circ> fst)" by simp
qed simp

declare node_listing.simps [simp del]

definition query_hit :: "string \<Rightarrow> string list \<Rightarrow> bool" where
  "query_hit query path \<longleftrightarrow> query = [] \<or> contains_str (domain_from_labels path) query"

definition hits :: "string \<Rightarrow> string list list \<Rightarrow> string list" where
  "hits query paths = map domain_from_labels (filter (query_hit query) paths)"

lemma hits_append [simp]: "hits q (xs @ ys) = hits q xs @ hits q ys"
  by (simp add: hits_def)

lemma fold_take_limit:
  fixes f :: "'a \<Rightarrow> 'b list \<Rightarrow> 'b list"
  assumes "\<And>x out. x \<in> set xs \<Longrightarrow> length out \<le> n \<Longrightarrow> f x out = take n (out @ g x)"
    and "length out \<le> n"
  shows "fold f xs out = take n (out @ concat (map g xs))"
  using assms
proof (induction xs arbitrary: out)
  case (Cons x xs)
  have "fold f (x # xs) out = fold f xs (take n (out @ g x))"
    using Cons.prems by simp
  also have "\<dots> = take n (take n (out @ g x) @ concat (map g xs))"
    using Cons.prems by (intro Cons.IH) auto
  also have "\<dots> = take n (out @ concat (map g (x # xs)))"
    using Cons.prems(2) by (cases "length (out @ g x) \<le> n") auto
  finally show ?case .
qed simp

lemma node_entries_listing:
  "length out \<le> limit \<Longrightarrow>
     node_entries n path q limit out = take limit (out @ hits q (node_listing n path))"
proof (induction n path q limit out rule: node_entries.induct)
  case (1 t cs path q limit out)
  show ?case
  proof (cases "limit \<le> length out")
    case True
    with "1.prems" show ?thesis by (simp add: node_entries.simps)
  next
    case False
    define out1 where
      "out1 = (if t \<and> (q = [] \<or> contains_str (domain_from_labels path) q)
               then out @ [domain_from_labels path] else out)"
    have out1: "out1 = out @ hits q (if t then [path] else [])" "length out1 \<le> limit"
      using False by (auto simp: out1_def hits_def query_hit_def)
    have step: "node_entries (Node t cs) path q limit out =
        (if limit \<le> length out1 then out1
         else fold (\<lambda>(l, c) out. if limit \<le> length out then out
                                 else node_entries c (path @ [l]) q limit out)
                (sort_key fst cs) out1)"
      using False by (simp only: node_entries.simps Let_def out1_def if_False)
    have hits_concat: "hits q (concat xss) = concat (map (hits q) xss)" for xss
      by (induction xss) (auto simp: hits_def)
    show ?thesis
    proof (cases "limit \<le> length out1")
      case True
      then show ?thesis
        using step out1 by (simp add: node_listing.simps)
    next
      case False2: False
      have "fold (\<lambda>(l, c) out. if limit \<le> length out then out
                  else node_entries c (path @ [l]) q limit out) (sort_key fst cs) out1 =
          take limit (out1 @ concat (map (\<lambda>x. hits q (node_listing (snd x) (path @ [fst x])))
            (sort_key fst cs)))"
      proof (rule fold_take_limit [OF _ out1(2)])
        fix x :: "string \<times> node" and o' :: "string list"
        assume x: "x \<in> set (sort_key fst cs)" and o': "length o' \<le> limit"
        have "node_entries (snd x) (path @ [fst x]) q limit o' =
            take limit (o' @ hits q (node_listing (snd x) (path @ [fst x])))"
          if "\<not> limit \<le> length o'"
          using "1.IH" [OF False _ _ _ x, of _ out1 "fst x" "snd x" o'] False2 that o'
          by (simp add: out1_def Let_def)
        with o' show "(case x of (l, c) \<Rightarrow> \<lambda>out. if limit \<le> length out then out
              else node_entries c (path @ [l]) q limit out) o' =
            take limit (o' @ hits q (node_listing (snd x) (path @ [fst x])))"
          by (auto simp: case_prod_beta)
      qed
      then show ?thesis
        using step out1(1) False2
        by (simp add: node_listing.simps hits_concat case_prod_beta o_def)
    qed
  qed
qed

lemma node_paths_Node:
  assumes "alist_ok cs"
  shows "node_paths (Node t cs) =
    (if t then {[]} else {}) \<union> (\<Union>x \<in> set cs. (#) (fst x) ` node_paths (snd x))"
proof -
  have "has_path p (Node t cs) \<longleftrightarrow>
      t \<and> p = [] \<or> (\<exists>x \<in> set cs. \<exists>q. p = fst x # q \<and> has_path q (snd x))" for p
  proof (cases p)
    case (Cons l q)
    have "(case map_of cs l of None \<Rightarrow> False | Some c \<Rightarrow> has_path q c) \<longleftrightarrow>
        (\<exists>c. (l, c) \<in> set cs \<and> has_path q c)"
      unfolding map_of_ok_iff [OF assms, symmetric] by (cases "map_of cs l") auto
    with Cons show ?thesis by force
  qed simp
  then show ?thesis by (auto simp: node_paths_def)
qed

lemma set_node_listing: "node_ok n \<Longrightarrow> set (node_listing n path) = (@) path ` node_paths n"
proof (induction n path rule: node_listing.induct)
  case (1 t cs path)
  then have ok: "alist_ok cs" "\<And>x. x \<in> set cs \<Longrightarrow> node_ok (snd x)" by auto
  have "set (node_listing (snd x) (path @ [fst x])) = (@) (path @ [fst x]) ` node_paths (snd x)"
    if "x \<in> set cs" for x
    using "1.IH" [of x "fst x" "snd x"] ok(2) that by simp
  then have "set (node_listing (Node t cs) path) =
      (if t then {path} else {}) \<union> (\<Union>x \<in> set cs. (@) (path @ [fst x]) ` node_paths (snd x))"
    by (simp add: node_listing.simps case_prod_beta)
  also have "\<dots> = (@) path ` node_paths (Node t cs)"
    unfolding node_paths_Node [OF ok(1)] by (auto simp: image_iff)
  finally show ?case .
qed

lemma distinct_concat_keyed:
  assumes "alist_ok xs" "\<And>x. x \<in> set xs \<Longrightarrow> distinct (f x)"
    and "\<And>x y. x \<in> set xs \<Longrightarrow> y \<in> set (f x) \<Longrightarrow> key y = fst x"
  shows "distinct (concat (map f xs))"
  using assms
proof (induction xs)
  case (Cons x xs)
  have "set (f x) \<inter> (\<Union>y \<in> set xs. set (f y)) = {}"
  proof (rule equals0I)
    fix z assume "z \<in> set (f x) \<inter> (\<Union>y \<in> set xs. set (f y))"
    then obtain y where y: "y \<in> set xs" "z \<in> set (f y)" "z \<in> set (f x)" by blast
    then have "fst x = fst y" using Cons.prems(3) [of x z] Cons.prems(3) [of y z] by simp
    with y(1) Cons.prems(1) show False by auto
  qed
  with Cons show ?case by simp
qed simp

lemma distinct_node_listing: "node_ok n \<Longrightarrow> distinct (node_listing n path)"
proof (induction n path rule: node_listing.induct)
  case (1 t cs path)
  then have ok: "alist_ok (sort_key fst cs)" "\<And>x. x \<in> set cs \<Longrightarrow> node_ok (snd x)"
    by (auto simp: distinct_map)
  have below: "p \<in> set (node_listing (snd x) (path @ [fst x])) \<Longrightarrow> \<exists>q. p = path @ fst x # q"
    if "x \<in> set cs" for x p
    using set_node_listing [OF ok(2) [OF that]] by auto
  have "distinct (concat (map (\<lambda>x. node_listing (snd x) (path @ [fst x])) (sort_key fst cs)))"
    by (rule distinct_concat_keyed [OF ok(1), of _ "\<lambda>p. p ! length path"])
      (use "1.IH" ok(2) below in force)+
  moreover have "path \<notin> set (concat (map (\<lambda>x. node_listing (snd x) (path @ [fst x])) (sort_key fst cs)))"
    using below by fastforce
  ultimately show ?case by (simp add: node_listing.simps case_prod_unfold)
qed

lemma stored_nonempty_labels: "labels_for G x = Some p \<Longrightarrow> p \<noteq> []"
  by (auto simp: labels_for_def split: option.splits)

section \<open>The operations on the abstraction\<close>

lemma stored_empty [simp]: "stored empty_domains = {}"
  by (simp add: stored_def empty_domains_def node_paths_def)

lemma stored_add:
  "stored (fst (domains_add G x d)) =
     (case labels_for G x of None \<Rightarrow> stored d | Some p \<Rightarrow> insert p (stored d))"
  by (simp add: domains_add_def stored_def case_prod_beta Let_def node_paths_add split: option.splits)

lemma domains_added_iff:
  "snd (domains_add G x d) \<longleftrightarrow> (\<exists>p. labels_for G x = Some p \<and> p \<notin> stored d)"
  by (simp add: domains_add_def stored_def node_paths_def case_prod_beta Let_def added_iff
      split: option.splits)

lemma stored_delete:
  "stored (fst (domains_delete G x d)) =
     (case labels_for G x of None \<Rightarrow> stored d | Some p \<Rightarrow> stored d - {p})"
  by (auto simp: domains_delete_def stored_def case_prod_beta Let_def node_paths_delete deleted_iff
      split: option.splits) (auto simp: node_paths_def)

lemma domains_deleted_iff:
  "snd (domains_delete G x d) \<longleftrightarrow> (\<exists>p. labels_for G x = Some p \<and> p \<in> stored d)"
  by (simp add: domains_delete_def stored_def node_paths_def case_prod_beta Let_def deleted_iff
      split: option.splits)

lemma domains_match_iff:
  "domains_match G x d \<longleftrightarrow> (\<exists>q. labels_for G x = Some q \<and> (\<exists>p \<in> stored d. prefix p q))"
  by (simp add: domains_match_def stored_def node_match_iff split: option.splits)

lemma domains_ok_empty [inv_intro, simp]: "domains_ok empty_domains"
  by (simp add: domains_ok_def) (simp add: empty_domains_def)

lemma domains_ok_add [inv_intro]: "domains_ok d \<Longrightarrow> domains_ok (fst (domains_add G x d))"
proof -
  assume d: "domains_ok d"
  have root: "node_ok (d_root (fst (domains_add G x d)))"
    using d by (auto simp: domains_ok_def domains_add_def case_prod_beta Let_def node_ok_add
        split: option.splits)
  have size: "d_size (fst (domains_add G x d)) = d_size d + (if snd (domains_add G x d) then 1 else 0)"
    by (simp add: domains_add_def case_prod_beta Let_def split: option.splits)
  from d root size show ?thesis
    using domains_added_iff [of G x d]
    by (auto simp: domains_ok_def stored_add insert_absorb split: option.splits)
qed

lemma domains_ok_delete [inv_intro]: "domains_ok d \<Longrightarrow> domains_ok (fst (domains_delete G x d))"
proof -
  assume d: "domains_ok d"
  have root: "node_ok (d_root (fst (domains_delete G x d)))"
    using d by (auto simp: domains_ok_def domains_delete_def case_prod_beta Let_def node_ok_delete
        split: option.splits)
  have size: "d_size (fst (domains_delete G x d)) = d_size d - (if snd (domains_delete G x d) then 1 else 0)"
    by (simp add: domains_delete_def case_prod_beta Let_def split: option.splits)
  have card: "int (card (S - {p})) = int (card S) - 1" if "finite S" "p \<in> S" for S :: "string list set" and p
    using card.remove [OF that] by simp
  show ?thesis
  proof (cases "snd (domains_delete G x d)")
    case True
    then obtain p where p: "labels_for G x = Some p" "p \<in> stored d"
      by (auto simp: domains_deleted_iff)
    from d root size True p card [of "stored d" p] show ?thesis
      by (simp add: domains_ok_def stored_delete)
  next
    case False
    then have "stored (fst (domains_delete G x d)) = stored d"
      by (auto simp: domains_deleted_iff stored_delete split: option.splits)
    with d root size False show ?thesis by (simp add: domains_ok_def)
  qed
qed

section \<open>The interface of a suffix set\<close>

text \<open>\<open>covers\<close>: the pattern's labels are a prefix of the name's, read from the top level.\<close>

definition covers :: "(string \<Rightarrow> string list option) \<Rightarrow> string \<Rightarrow> string \<Rightarrow> bool" where
  "covers labels pat name \<longleftrightarrow>
     (\<exists>p q. labels pat = Some p \<and> labels name = Some q \<and> prefix p q)"

locale suffix_set =
  fixes empty :: "'d"
    and add :: "string \<Rightarrow> 'd \<Rightarrow> 'd \<times> bool"
    and del :: "string \<Rightarrow> 'd \<Rightarrow> 'd \<times> bool"
    and matches :: "string \<Rightarrow> 'd \<Rightarrow> bool"
    and labels :: "string \<Rightarrow> string list option"
    and paths :: "'d \<Rightarrow> string list set"
    and ok :: "'d \<Rightarrow> bool"
  assumes ok_empty: "ok empty"
    and paths_empty: "paths empty = {}"
    and ok_add: "ok d \<Longrightarrow> ok (fst (add x d))"
    and paths_add: "ok d \<Longrightarrow>
      paths (fst (add x d)) = (case labels x of None \<Rightarrow> paths d | Some p \<Rightarrow> insert p (paths d))"
    and added: "ok d \<Longrightarrow> snd (add x d) \<longleftrightarrow> (\<exists>p. labels x = Some p \<and> p \<notin> paths d)"
    and ok_del: "ok d \<Longrightarrow> ok (fst (del x d))"
    and paths_del: "ok d \<Longrightarrow>
      paths (fst (del x d)) = (case labels x of None \<Rightarrow> paths d | Some p \<Rightarrow> paths d - {p})"
    and matches_iff: "ok d \<Longrightarrow>
      matches x d \<longleftrightarrow> (\<exists>q. labels x = Some q \<and> (\<exists>p \<in> paths d. prefix p q))"
begin

lemma no_match_empty: "\<not> matches x empty"
  by (simp add: matches_iff ok_empty paths_empty)

lemma matches_add: "ok d \<Longrightarrow> matches y (fst (add x d)) \<longleftrightarrow> matches y d \<or> covers labels x y"
  by (auto simp: matches_iff ok_add paths_add covers_def split: option.splits)

lemma ok_fold_add: "ok d \<Longrightarrow> ok (fold (\<lambda>x d. fst (add x d)) xs d)"
  by (induction xs arbitrary: d) (auto intro: ok_add)

lemma matches_fold_add:
  "ok d \<Longrightarrow> matches y (fold (\<lambda>x d. fst (add x d)) xs d) \<longleftrightarrow>
     matches y d \<or> (\<exists>x \<in> set xs. covers labels x y)"
  by (induction xs arbitrary: d) (auto simp: ok_add matches_add)

lemma matches_del:
  assumes "ok d" "matches y (fst (del x d))"
  shows "matches y d"
  using assms by (auto simp: matches_iff ok_del paths_del split: option.splits)

lemma match_mono_subdomain:
  assumes "ok d" "matches x d" "covers labels x y"
  shows "matches y d"
  using assms by (auto simp: matches_iff covers_def) (meson prefix_order.trans)

end

interpretation dom: suffix_set empty_domains "domains_add G" "domains_delete G" "domains_match G"
    "labels_for G" stored domains_ok for G
  by unfold_locales
    (simp_all add: domains_ok_add domains_ok_delete stored_add domains_added_iff stored_delete
      domains_match_iff)

section \<open>Properties\<close>

text \<open>Additions and deletions as a history; the paths it leaves stored.\<close>

datatype domains_op = Add_Domain string | Delete_Domain string

fun run_op :: "golib \<Rightarrow> domains_op \<Rightarrow> domains \<Rightarrow> domains" where
  "run_op G (Add_Domain x) d = fst (domains_add G x d)"
| "run_op G (Delete_Domain x) d = fst (domains_delete G x d)"

fun op_paths :: "golib \<Rightarrow> domains_op \<Rightarrow> string list set \<Rightarrow> string list set" where
  "op_paths G (Add_Domain x) S = S \<union> set_option (labels_for G x)"
| "op_paths G (Delete_Domain x) S = S - set_option (labels_for G x)"

lemma run_op_ok: "domains_ok d \<Longrightarrow> domains_ok (run_op G op d)"
  by (cases op) (auto intro: inv_intro)

lemma run_op_stored: "stored (run_op G op d) = op_paths G op (stored d)"
  by (cases op) (auto simp: stored_add stored_delete split: option.splits)

lemma run_ops:
  assumes "domains_ok d"
  shows "domains_ok (fold (run_op G) ops d)"
    and "stored (fold (run_op G) ops d) = fold (op_paths G) ops (stored d)"
  using assms by (induction ops arbitrary: d) (simp_all add: run_op_ok run_op_stored)

text \<open>C24: After any sequence of Add and Delete calls on a fresh set, Match answers exactly whether
  some stored suffix is a label-wise suffix of the queried name, and Len is the number of
  stored suffixes.\<close>

theorem domains_history_correct:
  "domains_match G q (fold (run_op G) ops empty_domains) =
     (\<exists>ls. labels_for G q = Some ls \<and> (\<exists>p. p \<in> fold (op_paths G) ops {} \<and> prefix p ls))
   \<and> domains_len (Some (fold (run_op G) ops empty_domains)) =
     int (card (fold (op_paths G) ops {}))"
  using run_ops [OF domains_ok_empty, of G ops]
  by (auto simp: domains_match_iff domains_ok_def domains_len_def)

text \<open>A normalised pattern is at most 255 bytes long, consists of valid labels after an
  optional wildcard prefix, is its own normal form, and the wildcard and the plain spelling
  have the same labels.\<close>

theorem normalize_canonical_form:
  assumes "normalize_domain_pattern G d = Some n"
  shows "normalize_domain_pattern G n = Some n
    \<and> list_all valid_label (split_on (CHR ''.'') (trim_prefix ''*.'' n))
    \<and> length (trim_prefix ''*.'' n) \<le> 253
    \<and> labels_for G n = labels_for G (''*.'' @ trim_prefix ''*.'' n)"
proof -
  obtain a where a: "canonical_name G a" and n: "n = a \<or> n = ''*.'' @ a"
    using assms by (rule normalize_SomeD)
  have "\<not> prefix ''*.'' a"
    using a valid_labels_chars(2) [of a] by (auto simp: canonical_name_def prefix_def)
  then have "trim_prefix ''*.'' n = a" using n by (auto simp: trim_prefix_def)
  with n normalize_canonical [OF a] labels_for_canonical [OF a] a show ?thesis
    by (auto simp: canonical_name_def)
qed

theorem normalize_canonical_form_witness:
  "normalize_domain_pattern ascii_lib ''*.ads.example.com'' = Some ''*.ads.example.com''
   \<and> list_all valid_label (split_on (CHR ''.'') (trim_prefix ''*.'' ''*.ads.example.com''))
   \<and> length (trim_prefix ''*.'' ''*.ads.example.com'') \<le> 253
   \<and> labels_for ascii_lib ''*.ads.example.com'' =
       labels_for ascii_lib (''*.'' @ trim_prefix ''*.'' ''*.ads.example.com'')"
  by (rule normalize_canonical_form [of ascii_lib "''*.Ads.EXAMPLE.com.''"]) code_simp

text \<open>Entries returns, in search order, the stored domains that contain the query, cut off at
  the limit; the search order lists every stored path once and no other.\<close>

theorem domains_entries_correct:
  assumes "domains_ok d"
  shows "domains_entries G query limit (Some d) =
      take (if limit \<le> 0 \<or> 1000 < limit then 1000 else nat limit)
        (hits (to_lower G (trim_space (trim_suffix ''.'' query))) (node_listing (d_root d) []))
    \<and> set (node_listing (d_root d) []) = stored d
    \<and> distinct (node_listing (d_root d) [])"
  using assms set_node_listing [of "d_root d" "[]"] distinct_node_listing [of "d_root d" "[]"]
  by (simp add: domains_entries_def Let_def node_entries_listing domains_ok_def stored_def)

theorem domains_entries_correct_witness:
  "let d = fst (domains_add ascii_lib ''b.com'' (fst (domains_add ascii_lib ''a.com'' empty_domains)))
   in domains_entries ascii_lib ''A'' 10 (Some d) = [''a.com''] \<and> distinct (node_listing (d_root d) [])"
proof -
  let ?d = "fst (domains_add ascii_lib ''b.com'' (fst (domains_add ascii_lib ''a.com'' empty_domains)))"
  have "domains_ok ?d" by (intro inv_intro)
  note e = domains_entries_correct [OF this, of ascii_lib "''A''" 10]
  have "domains_entries ascii_lib ''A'' 10 (Some ?d) = [''a.com'']" by code_simp
  with e show ?thesis unfolding Let_def by blast
qed

end
