(* ===== verification/Go_Net.thy ===== *)
theory Go_Net
  imports Go_Strings
begin

text \<open>
  IP and hardware addresses of Go's \<open>net\<close> package.  A \<open>net.IP\<close> is a byte slice; the nil
  address is the empty list.  \<open>parse_ip\<close> follows \<open>netip.ParseAddr\<close> (which \<open>net.ParseIP\<close>
  calls) and returns the 16-byte form; \<open>ip_string\<close> is \<open>IP.String\<close>.
\<close>

type_synonym ip = "u8 list"

section \<open>IPv4\<close>

definition parse_octet :: "string \<Rightarrow> u8 option" where
  "parse_octet s =
     (if s \<noteq> [] \<and> list_all is_digit s \<and> (hd s = CHR ''0'' \<longrightarrow> s = ''0'') \<and> digits_value s \<le> 255
      then Some (word_of_nat (digits_value s)) else None)"

fun opt_list :: "('a \<Rightarrow> 'b option) \<Rightarrow> 'a list \<Rightarrow> 'b list option" where
  "opt_list f [] = Some []"
| "opt_list f (x # xs) =
     (case f x of None \<Rightarrow> None | Some y \<Rightarrow> map_option ((#) y) (opt_list f xs))"

lemma length_opt_list: "opt_list f xs = Some ys \<Longrightarrow> length ys = length xs"
  by (induction xs arbitrary: ys) (auto split: option.splits)

definition parse_ipv4 :: "string \<Rightarrow> u8 list option" where
  "parse_ipv4 s =
     (let ps = split_on (CHR ''.'') s in if length ps = 4 then opt_list parse_octet ps else None)"

definition v4_prefix :: "u8 list" where
  "v4_prefix = replicate 10 0 @ [0xFF, 0xFF]"

definition to4 :: "ip \<Rightarrow> ip" where
  "to4 a = (if length a = 4 then a
            else if length a = 16 \<and> take 12 a = v4_prefix then drop 12 a else [])"

definition to16 :: "ip \<Rightarrow> ip" where
  "to16 a = (if length a = 4 then v4_prefix @ a else if length a = 16 then a else [])"

section \<open>IPv6\<close>

definition hex_value :: "char \<Rightarrow> nat option" where
  "hex_value c =
     (let b = byte c in
      if 48 \<le> b \<and> b \<le> 57 then Some (b - 48)
      else if 97 \<le> b \<and> b \<le> 102 then Some (b - 87)
      else if 65 \<le> b \<and> b \<le> 70 then Some (b - 55) else None)"

definition is_hex :: "char \<Rightarrow> bool" where
  "is_hex c \<longleftrightarrow> hex_value c \<noteq> None"

definition hex_number :: "string \<Rightarrow> nat" where
  "hex_number s = foldl (\<lambda>v c. v * 16 + (case hex_value c of None \<Rightarrow> 0 | Some d \<Rightarrow> d)) 0 s"

text \<open>
  The loop over the groups: the bytes read so far, the position of the \<open>::\<close> if one was met,
  and the rest of the text.  One round reads a group (\<open>Inl\<close>: go on from there) or ends the
  loop (\<open>Inr\<close>); there are at most eight.
\<close>

type_synonym v6_state = "u8 list \<times> nat option \<times> string"

definition v6_round :: "v6_state \<Rightarrow> (v6_state + v6_state) option" where
  "v6_round st =
     (case st of (acc, ell, s) \<Rightarrow>
        let h = takeWhile is_hex s; rest = dropWhile is_hex s in
        if 4 < length h \<or> h = [] then None
        else if rest \<noteq> [] \<and> hd rest = CHR ''.'' then
          (if ell = None \<and> length acc \<noteq> 12 then None
           else if 16 < length acc + 4 then None
           else map_option (\<lambda>v4. Inr (acc @ v4, ell, [])) (parse_ipv4 s))
        else
          let acc' = acc @ [word_of_nat (hex_number h div 256), word_of_nat (hex_number h mod 256)] in
          (case rest of
             [] \<Rightarrow> Some (Inr (acc', ell, []))
           | c # t \<Rightarrow>
               if c \<noteq> CHR '':'' \<or> t = [] then None
               else if hd t = CHR '':'' then
                 (if ell \<noteq> None then None
                  else if tl t = [] then Some (Inr (acc', Some (length acc'), []))
                  else Some (Inl (acc', Some (length acc'), tl t)))
               else Some (Inl (acc', ell, t))))"

lemma v6_round_Inl:
  "v6_round (acc, ell, s) = Some (Inl (acc', st)) \<Longrightarrow> length acc' = length acc + 2"
  by (auto simp: v6_round_def Let_def split: if_split_asm list.split_asm)

lemma v6_round_Inr:
  assumes "v6_round (acc, ell, s) = Some (Inr (acc', st))"
  shows "length acc' \<le> max 16 (length acc + 2)"
proof -
  have "length v4 = 4" if "parse_ipv4 s = Some v4" for v4
    using that by (auto simp: parse_ipv4_def Let_def length_opt_list split: if_split_asm)
  with assms show ?thesis
    by (auto simp: v6_round_def Let_def split: if_split_asm list.split_asm)
qed

function v6_groups :: "v6_state \<Rightarrow> v6_state option" where
  "v6_groups (acc, ell, s) =
     (if 16 \<le> length acc then Some (acc, ell, s)
      else (case v6_round (acc, ell, s) of
              None \<Rightarrow> None
            | Some (Inr st) \<Rightarrow> Some st
            | Some (Inl st) \<Rightarrow> v6_groups st))"
  by pat_completeness auto
termination
  by (relation "measure (\<lambda>(acc, ell, s). 16 - length acc)") (auto dest: v6_round_Inl)

declare v6_groups.simps [simp del]

definition parse_ipv6 :: "string \<Rightarrow> u8 list option" where
  "parse_ipv6 s =
     (if CHR ''%'' \<in> set s then None
      else if s = ''::'' then Some (replicate 16 0)
      else
        let (ell, t) = (if prefix ''::'' s then (Some 0, drop 2 s) else (None, s)) in
        (case v6_groups ([], ell, t) of
           None \<Rightarrow> None
         | Some (bs, ell', rest) \<Rightarrow>
             if rest \<noteq> [] then None
             else if length bs < 16 then
               (case ell' of
                  None \<Rightarrow> None
                | Some e \<Rightarrow> Some (take e bs @ replicate (16 - length bs) 0 @ drop e bs))
             else if ell' \<noteq> None then None else Some bs))"

text \<open>\<open>net.ParseIP\<close>: the first of \<open>.\<close>, \<open>:\<close>, \<open>%\<close> decides the family; a zone is refused.\<close>

definition parse_ip :: "string \<Rightarrow> ip option" where
  "parse_ip s =
     (case find (\<lambda>c. c \<in> {CHR ''.'', CHR '':'', CHR ''%''}) s of
        None \<Rightarrow> None
      | Some c \<Rightarrow>
          if c = CHR ''.'' then map_option ((@) v4_prefix) (parse_ipv4 s)
          else if c = CHR '':'' then parse_ipv6 s else None)"

definition hex_digit :: "nat \<Rightarrow> char" where
  "hex_digit d = (if d < 10 then char_of (48 + d) else char_of (87 + d))"

fun show_hex :: "nat \<Rightarrow> string" where
  "show_hex n = (if n < 16 then [hex_digit n] else show_hex (n div 16) @ [hex_digit (n mod 16)])"

declare show_hex.simps [simp del]

definition show_hex2 :: "u8 \<Rightarrow> string" where
  "show_hex2 b = [hex_digit (unat b div 16), hex_digit (unat b mod 16)]"

fun groups16 :: "u8 list \<Rightarrow> nat list" where
  "groups16 (hi # lo # bs) = (unat hi * 256 + unat lo) # groups16 bs"
| "groups16 _ = []"

text \<open>The first longest run of two or more zero groups, as start and end.\<close>

definition zero_run_at :: "nat list \<Rightarrow> nat \<Rightarrow> nat" where
  "zero_run_at gs i = length (takeWhile (\<lambda>g. g = 0) (drop i gs))"

definition longest_zero_run :: "nat list \<Rightarrow> (nat \<times> nat) option" where
  "longest_zero_run gs =
     foldl (\<lambda>best i. let l = zero_run_at gs i in
              if 2 \<le> l \<and> (case best of None \<Rightarrow> True | Some (s, e) \<Rightarrow> e - s < l)
              then Some (i, i + l) else best)
       None [0..<length gs]"

definition join_groups :: "nat list \<Rightarrow> string" where
  "join_groups gs = join '':'' (map show_hex gs)"

definition show_ipv6 :: "u8 list \<Rightarrow> string" where
  "show_ipv6 bs =
     (let gs = groups16 bs in
      case longest_zero_run gs of
        None \<Rightarrow> join_groups gs
      | Some (s, e) \<Rightarrow> join_groups (take s gs) @ ''::'' @ join_groups (drop e gs))"

definition show_ipv4 :: "u8 list \<Rightarrow> string" where
  "show_ipv4 bs = join ''.'' (map (\<lambda>b. show_nat (unat b)) bs)"

definition ip_string :: "ip \<Rightarrow> string" where
  "ip_string a =
     (if a = [] then ''<nil>''
      else if length a \<noteq> 4 \<and> length a \<noteq> 16 then ''?'' @ concat (map show_hex2 a)
      else if to4 a \<noteq> [] then show_ipv4 (to4 a) else show_ipv6 a)"

section \<open>Hardware addresses\<close>

definition hex_pair :: "string \<Rightarrow> u8 option" where
  "hex_pair s =
     (if length s = 2 \<and> list_all is_hex s then Some (word_of_nat (hex_number s)) else None)"

fun chunks :: "nat \<Rightarrow> string \<Rightarrow> string list" where
  "chunks n s = (if n = 0 \<or> length s \<le> n then [s] else take n s # chunks n (drop n s))"

declare chunks.simps [simp del]

definition parse_mac :: "string \<Rightarrow> u8 list option" where
  "parse_mac s =
     (if length s < 14 then None
      else if s ! 2 = CHR '':'' \<or> s ! 2 = CHR ''-'' then
        (let ps = split_on (s ! 2) s in
         if length ps \<in> {6, 8, 20} then opt_list hex_pair ps else None)
      else if s ! 4 = CHR ''.'' then
        (let ps = split_on (CHR ''.'') s in
         if 2 * length ps \<in> {6, 8, 20} \<and> list_all (\<lambda>p. length p = 4) ps
         then opt_list hex_pair (concat (map (chunks 2) ps)) else None)
      else None)"

definition mac_string :: "u8 list \<Rightarrow> string" where
  "mac_string bs = join '':'' (map show_hex2 bs)"

section \<open>Facts about the text forms\<close>

lemma opt_list_map: "(\<And>x. x \<in> set xs \<Longrightarrow> f (g x) = Some x) \<Longrightarrow> opt_list f (map g xs) = Some xs"
  by (induction xs) auto

lemma show_nat_head: "0 < n \<Longrightarrow> hd (show_nat n) \<noteq> CHR ''0''"
proof (induction n rule: show_nat.induct)
  case (1 n)
  show ?case
  proof (cases "n < 10")
    case True
    then have "byte (hd (show_nat n)) \<noteq> byte (CHR ''0'')"
      using "1.prems" by (simp add: show_nat.simps [of n] byte_digit_char) (simp add: byte_def)
    then show ?thesis by metis
  next
    case False
    with 1 have "hd (show_nat (n div 10)) \<noteq> CHR ''0''" by simp
    with False show ?thesis by (simp add: show_nat.simps [of n])
  qed
qed

lemma parse_octet_show [simp]: "parse_octet (show_nat (unat b)) = Some (b :: u8)"
proof -
  have "unat b \<le> 255" using unsigned_less [of b, where 'a = nat] by simp
  moreover have "hd (show_nat (unat b)) = CHR ''0'' \<longrightarrow> show_nat (unat b) = ''0''"
    using show_nat_head [of "unat b"] by (cases "unat b = 0") (auto simp: show_nat.simps digit_char_def)
  ultimately show ?thesis by (simp add: parse_octet_def show_nat_digits)
qed

lemma digits_no_dot: "list_all is_digit s \<Longrightarrow> CHR ''.'' \<notin> set s"
  by (induction s) (auto simp: char_class_defs)

lemma parse_show_ipv4:
  assumes "length bs = 4"
  shows "parse_ipv4 (show_ipv4 bs) = Some bs"
proof -
  have "split_on (CHR ''.'') (show_ipv4 bs) = map (\<lambda>b. show_nat (unat b)) bs"
    unfolding show_ipv4_def
    by (rule split_on_join) (use assms in \<open>auto simp: digits_no_dot [OF show_nat_digits]\<close>)
  with assms show ?thesis by (simp add: parse_ipv4_def opt_list_map)
qed

lemma parse_ipv4_length: "parse_ipv4 s = Some bs \<Longrightarrow> length bs = 4"
  by (auto simp: parse_ipv4_def Let_def split: if_splits dest: length_opt_list)

lemma v6_groups_length:
  "v6_groups st = Some (bs, st') \<Longrightarrow> even (length (fst st)) \<Longrightarrow> length (fst st) \<le> 16 \<Longrightarrow>
    length bs \<le> 16"
proof (induction st rule: v6_groups.induct)
  case (1 acc ell s)
  show ?case
  proof (cases "16 \<le> length acc")
    case False
    with "1.prems"(2) have "length acc \<le> 14" by simp presburger
    with False 1 show ?thesis
      by (auto simp: v6_groups.simps [of acc] split: option.splits sum.splits
          dest!: v6_round_Inl v6_round_Inr)
  qed (use 1 in \<open>simp add: v6_groups.simps [of acc]\<close>)
qed

lemma parse_ip_length: "parse_ip s = Some a \<Longrightarrow> length a = 16"
proof -
  have v6: "length bs = 16" if "parse_ipv6 t = Some bs" for t bs
    using that v6_groups_length
    by (auto simp: parse_ipv6_def Let_def split: if_splits option.splits prod.splits) force+
  show "parse_ip s = Some a \<Longrightarrow> length a = 16"
    by (auto simp: parse_ip_def v4_prefix_def split: option.splits if_splits
        dest: v6 parse_ipv4_length)
qed

end
