(* ===== verification/Blocklist_Parser.thy ===== *)
theory Blocklist_Parser
  imports Domains Go_Net
begin

text \<open>
  \<open>internal/policy/parser.go\<close>: parsing of hosts-style and domain-only blocklists.  The reader is
  the bytes it delivers and the error, if any, with which it then ends.  \<open>max_token\<close> is the size of the
  buffer the parser gives the scanner.
\<close>

record parse_stats =
  ps_lines :: int
  ps_accepted :: int
  ps_skipped :: int
  ps_malformed :: int

definition no_stats :: parse_stats where
  "no_stats = \<lparr>ps_lines = 0, ps_accepted = 0, ps_skipped = 0, ps_malformed = 0\<rparr>"

definition strip_comment :: "string \<Rightarrow> string" where
  "strip_comment line = trim_space (takeWhile (\<lambda>c. c \<noteq> CHR ''#'') line)"

text \<open>The loop over the fields after the address.\<close>

fun first_domain :: "golib \<Rightarrow> string list \<Rightarrow> string option" where
  "first_domain G [] = None"
| "first_domain G (f # fs) =
     (if parse_ip f \<noteq> None then first_domain G fs
      else if labels_for G f \<noteq> None then Some f
      else first_domain G fs)"

definition domain_from_line :: "golib \<Rightarrow> string \<Rightarrow> string option" where
  "domain_from_line G line =
     (case str_fields line of
        [] \<Rightarrow> None
      | [f] \<Rightarrow> if parse_ip f \<noteq> None then None
               else if labels_for G f = None then None else Some f
      | f # rest \<Rightarrow> if parse_ip f = None then None else first_domain G rest)"

definition parse_line :: "golib \<Rightarrow> string \<Rightarrow> domains \<times> parse_stats \<Rightarrow> domains \<times> parse_stats" where
  "parse_line G text st =
     (case st of (domains, stats) \<Rightarrow>
        let stats = stats\<lparr>ps_lines := ps_lines stats + 1\<rparr>;
            line = strip_comment text in
        if line = [] then (domains, stats\<lparr>ps_skipped := ps_skipped stats + 1\<rparr>)
        else (case domain_from_line G line of
                None \<Rightarrow> (domains, stats\<lparr>ps_malformed := ps_malformed stats + 1\<rparr>)
              | Some domain \<Rightarrow>
                  let (domains, added) = domains_add G domain domains in
                  if added then (domains, stats\<lparr>ps_accepted := ps_accepted stats + 1\<rparr>)
                  else (domains, stats\<lparr>ps_skipped := ps_skipped stats + 1\<rparr>)))"

definition max_token :: int where
  "max_token = 16 * 1024 * 1024"

definition parse_blocklist ::
  "golib \<Rightarrow> string \<Rightarrow> string option \<Rightarrow> (string \<times> parse_stats) + (domains \<times> parse_stats)" where
  "parse_blocklist G data read_err =
     (case scan_lines max_token data of (lines, too_long) \<Rightarrow>
        (case fold (parse_line G) lines (empty_domains, no_stats) of (domains, stats) \<Rightarrow>
           if too_long then Inl (''bufio.Scanner: token too long'', stats)
           else (case read_err of Some e \<Rightarrow> Inl (e, stats) | None \<Rightarrow> Inr (domains, stats))))"

section \<open>What a line contributes\<close>

definition line_domain :: "golib \<Rightarrow> string \<Rightarrow> string option" where
  "line_domain G text =
     (let line = strip_comment text in if line = [] then None else domain_from_line G line)"

lemma first_domain_Some:
  "first_domain G fs = Some f \<Longrightarrow> f \<in> set fs \<and> parse_ip f = None \<and> labels_for G f \<noteq> None"
  by (induction G fs rule: first_domain.induct) (auto split: if_split_asm)

lemma domain_from_line_labels: "domain_from_line G line = Some f \<Longrightarrow> labels_for G f \<noteq> None"
  by (auto simp: domain_from_line_def dest: first_domain_Some
      split: list.split_asm if_split_asm)

lemma domain_from_line_no_ip: "domain_from_line G line = Some f \<Longrightarrow> parse_ip f = None"
  by (auto simp: domain_from_line_def dest: first_domain_Some
      split: list.split_asm if_split_asm)

lemma parse_line_domains:
  "fst (parse_line G text st) =
     (case line_domain G text of None \<Rightarrow> fst st | Some f \<Rightarrow> fst (domains_add G f (fst st)))"
  by (cases st) (simp add: parse_line_def line_domain_def Let_def case_prod_beta split: option.splits)

lemma parse_line_ok: "domains_ok (fst st) \<Longrightarrow> domains_ok (fst (parse_line G text st))"
  by (simp add: parse_line_domains domains_ok_add split: option.splits)

lemma fold_parse_domains:
  "fst (fold (parse_line G) ls st) =
     fold (\<lambda>f d. fst (domains_add G f d)) (List.map_filter (line_domain G) ls) (fst st)"
  by (induction ls arbitrary: st) (auto simp: parse_line_domains map_filter_simps split: option.splits)

text \<open>Every line is counted once, and the accepted ones are the trie's size.\<close>

definition stats_ok :: "int \<Rightarrow> domains \<times> parse_stats \<Rightarrow> bool" where
  "stats_ok n st \<longleftrightarrow>
     (case st of (d, s) \<Rightarrow>
        ps_lines s = n \<and> ps_accepted s + ps_skipped s + ps_malformed s = n
        \<and> 0 \<le> ps_accepted s \<and> 0 \<le> ps_skipped s \<and> 0 \<le> ps_malformed s
        \<and> d_size d = ps_accepted s)"

lemma domains_add_size:
  "d_size (fst (domains_add G x d)) = d_size d + (if snd (domains_add G x d) then 1 else 0)"
  by (simp add: domains_add_def case_prod_beta Let_def split: option.splits)

lemma stats_ok_parse_line:
  assumes "stats_ok n st"
  shows "stats_ok (n + 1) (parse_line G text st)"
proof -
  obtain d s where st: "st = (d, s)" by (cases st)
  have size: "d_size d' = d_size d + (if added then 1 else 0)" if "domains_add G f d = (d', added)"
    for f d' added
    using domains_add_size [of G f d] that by simp
  show ?thesis
    using assms size unfolding st
    by (auto simp: parse_line_def stats_ok_def Let_def split: option.splits prod.splits if_splits)
qed

lemma stats_ok_fold: "stats_ok n st \<Longrightarrow> stats_ok (n + int (length ls)) (fold (parse_line G) ls st)"
proof (induction ls arbitrary: n st)
  case (Cons l ls)
  have "stats_ok (n + 1 + int (length ls)) (fold (parse_line G) ls (parse_line G l st))"
    using Cons by (blast intro: stats_ok_parse_line)
  then show ?case by (simp add: ac_simps)
qed simp

lemma stats_ok_init: "stats_ok 0 (empty_domains, no_stats)"
  by (simp add: stats_ok_def no_stats_def empty_domains_def)

lemma set_map_filter: "x \<in> set (List.map_filter f xs) \<longleftrightarrow> (\<exists>y \<in> set xs. f y = Some x)"
  by (induction xs) (auto simp: map_filter_simps split: option.splits)

lemma parse_blocklist_Inr:
  assumes "parse_blocklist G data err = Inr (d, s)"
  shows "fold (parse_line G) (fst (scan_lines max_token data)) (empty_domains, no_stats) = (d, s)"
    and "d = fold (\<lambda>f d. fst (domains_add G f d))
               (List.map_filter (line_domain G) (fst (scan_lines max_token data))) empty_domains"
    and "err = None"
proof -
  show "fold (parse_line G) (fst (scan_lines max_token data)) (empty_domains, no_stats) = (d, s)" "err = None"
    using assms by (auto simp: parse_blocklist_def split: prod.splits if_split_asm option.splits)
  then show "d = fold (\<lambda>f d. fst (domains_add G f d))
      (List.map_filter (line_domain G) (fst (scan_lines max_token data))) empty_domains"
    using fold_parse_domains [of G "fst (scan_lines max_token data)" "(empty_domains, no_stats)"] by simp
qed

lemma parse_blocklist_ok:
  assumes "parse_blocklist G data err = Inr (d, s)"
  shows "domains_ok d"
  unfolding parse_blocklist_Inr(2) [OF assms] by (rule dom.ok_fold_add) simp

lemma parse_blocklist_matches:
  assumes "parse_blocklist G data err = Inr (d, s)"
  shows "domains_match G q d \<longleftrightarrow>
    (\<exists>l \<in> set (fst (scan_lines max_token data)). \<exists>f. line_domain G l = Some f \<and> covers (labels_for G) f q)"
  unfolding parse_blocklist_Inr(2) [OF assms]
  by (subst dom.matches_fold_add) (simp_all add: dom.no_match_empty Bex_def set_map_filter, blast)

section \<open>Properties\<close>

text \<open>C26: When a blocklist parses, the resulting set matches exactly the names below a domain some
  line contributes, every line is counted once as accepted, skipped or malformed, and the set
  holds as many suffixes as lines were accepted.\<close>

theorem parse_blocklist_correct:
  assumes "parse_blocklist G data err = Inr (d, s)"
  shows "domains_match G q d =
      (\<exists>l f. l \<in> set (fst (scan_lines max_token data)) \<and> line_domain G l = Some f \<and> covers (labels_for G) f q)
    \<and> ps_lines s = int (length (fst (scan_lines max_token data)))
    \<and> ps_accepted s + ps_skipped s + ps_malformed s = ps_lines s
    \<and> ps_accepted s = int (card (stored d))"
proof -
  have "stats_ok (int (length (fst (scan_lines max_token data)))) (d, s)"
    using stats_ok_fold [OF stats_ok_init, of "fst (scan_lines max_token data)" G] parse_blocklist_Inr(1) [OF assms]
    by simp
  with parse_blocklist_ok [OF assms] show ?thesis
    unfolding parse_blocklist_matches [OF assms] by (auto simp: stats_ok_def domains_ok_def)
qed

definition sample_list :: string where
  "sample_list = ''# header'' @ [char_of (10::nat)] @ ''0.0.0.0 Ads.example.com # ad'' @ [char_of (10::nat)]
     @ ''*.track.net'' @ [char_of (10::nat)] @ ''10.0.0.1''"

definition sample_parsed :: "domains \<times> parse_stats" where
  "sample_parsed = (case parse_blocklist ascii_lib sample_list None of
     Inr r \<Rightarrow> r | Inl _ \<Rightarrow> (empty_domains, no_stats))"

theorem parse_blocklist_correct_witness:
  "ps_lines (snd sample_parsed) = 4 \<and> ps_accepted (snd sample_parsed) = 2
   \<and> card (stored (fst sample_parsed)) = 2
   \<and> domains_match ascii_lib ''x.ads.example.com'' (fst sample_parsed)"
proof -
  have "case parse_blocklist ascii_lib sample_list None of Inr r \<Rightarrow> True | Inl _ \<Rightarrow> False"
    by code_simp
  then obtain r where "parse_blocklist ascii_lib sample_list None = Inr r"
    by (cases "parse_blocklist ascii_lib sample_list None") auto
  then have p: "parse_blocklist ascii_lib sample_list None = Inr (fst sample_parsed, snd sample_parsed)"
    by (simp add: sample_parsed_def)
  have v: "ps_accepted (snd sample_parsed) = 2"
    "domains_match ascii_lib ''x.ads.example.com'' (fst sample_parsed)"
    "length (fst (scan_lines max_token sample_list)) = 4"
    by code_simp+
  from parse_blocklist_correct [OF p] v show ?thesis by simp
qed

end
