(* ===== verification/Blocklist_Fetcher.thy ===== *)
theory Blocklist_Fetcher
  imports Blocklist_Parser
begin

text \<open>
  \<open>internal/policy/fetcher.go\<close>: downloading a blocklist, with an on-disk copy of the last good
  content.  The outside is a record of answers (\<open>fetch_io\<close>): what the URL parser, the server
  and the file system reply.  The cache directory is the state: the content files, and the
  metadata files as the values they decode to.
\<close>

record cache_meta =
  cm_etag :: string
  cm_last_modified :: string
  cm_fetched_at :: gotime

definition no_meta :: cache_meta where
  "no_meta = \<lparr>cm_etag = [], cm_last_modified = [], cm_fetched_at = 0\<rparr>"

record fetch_result =
  fr_id :: string
  fr_domains :: domains
  fr_stats :: parse_stats
  fr_from_cache :: bool
  fr_not_modified :: bool
  fr_fetched_at :: gotime

text \<open>A reader: its bytes and the error it ends with.\<close>

type_synonym reader = "string \<times> string option"

record parsed_url =
  pu_scheme :: string
  pu_path :: string
  pu_opaque :: string

record http_response =
  hr_status :: int
  hr_etag :: string
  hr_last_modified :: string
  hr_body :: reader

record fetch_io =
  fi_url :: "string \<Rightarrow> string + parsed_url"
  fi_do :: "string \<Rightarrow> string \<Rightarrow> string \<Rightarrow> string + http_response"
    \<comment> \<open>URL, \<open>If-None-Match\<close>, \<open>If-Modified-Since\<close> (empty: header not set)\<close>
  fi_open :: "string \<Rightarrow> string + reader"
  fi_mkdir :: "string option"
  fi_write :: "string \<Rightarrow> string option"  \<comment> \<open>the failure of the atomic write of a file\<close>
  fi_now :: gotime

record cache_dir =
  cd_dir :: string
  cd_files :: "(string, string) alist"
  cd_metas :: "(string, cache_meta) alist"

definition max_blocklist_bytes :: int where
  "max_blocklist_bytes = 32 * 2 ^ 20"

definition default_fetcher_timeout :: duration where
  "default_fetcher_timeout = 30 * second"

definition new_fetcher :: "string \<Rightarrow> duration \<Rightarrow> duration \<times> string" where
  "new_fetcher dir timeout = ((if timeout \<le> 0 then default_fetcher_timeout else timeout), dir)"

section \<open>File names\<close>

definition safe_char :: "char \<Rightarrow> bool" where
  "safe_char c \<longleftrightarrow> is_lower_letter c \<or> is_upper_letter c \<or> is_digit c
     \<or> c = CHR ''-'' \<or> c = CHR ''_'' \<or> c = CHR ''.''"

function safe_map :: "string \<Rightarrow> string" where
  "safe_map [] = []"
| "safe_map (c # s) =
     (if safe_char c then c # safe_map s else CHR ''-'' # safe_map (drop (rune_len (c # s) - 1) s))"
  by pat_completeness auto
termination by (relation "measure length") auto

definition safe_id :: "string \<Rightarrow> string" where
  "safe_id i = (let i = safe_map i in if i = [] \<or> i = ''.'' \<or> i = ''..'' then ''list'' else i)"

definition cache_path :: "string \<Rightarrow> string" where
  "cache_path i = safe_id i @ ''.txt''"

definition meta_path :: "string \<Rightarrow> string" where
  "meta_path i = safe_id i @ ''.json''"

section \<open>The cache directory\<close>

definition read_limited :: "reader \<Rightarrow> int \<Rightarrow> string + string" where
  "read_limited r limit =
     (if limit < int (length (fst r)) then Inl (''blocklist exceeds '' @ show_int limit @ '' bytes'')
      else (case snd r of Some e \<Rightarrow> Inl e | None \<Rightarrow> Inr (fst r)))"

definition load_meta :: "string \<Rightarrow> cache_dir \<Rightarrow> cache_meta option" where
  "load_meta i d = map_of (cd_metas d) (meta_path i)"

definition load_cache :: "golib \<Rightarrow> string \<Rightarrow> cache_dir \<Rightarrow> string + fetch_result" where
  "load_cache G i d =
     (case map_of (cd_files d) (cache_path i) of
        None \<Rightarrow> Inl ''no such file''
      | Some raw \<Rightarrow>
          (case parse_blocklist G raw None of
             Inl (e, _) \<Rightarrow> Inl e
           | Inr (doms, stats) \<Rightarrow>
               let meta = (case load_meta i d of None \<Rightarrow> no_meta | Some m \<Rightarrow> m) in
               Inr \<lparr>fr_id = i, fr_domains = doms, fr_stats = stats, fr_from_cache = True,
                    fr_not_modified = False, fr_fetched_at = cm_fetched_at meta\<rparr>))"

definition write_file :: "fetch_io \<Rightarrow> string \<Rightarrow> string \<Rightarrow> cache_dir \<Rightarrow> cache_dir \<times> string option" where
  "write_file io path raw d =
     (case fi_write io path of
        Some e \<Rightarrow> (d, Some e)
      | None \<Rightarrow> (d\<lparr>cd_files := AList.update path raw (cd_files d)\<rparr>, None))"

definition write_meta :: "fetch_io \<Rightarrow> string \<Rightarrow> cache_meta \<Rightarrow> cache_dir \<Rightarrow> cache_dir \<times> string option" where
  "write_meta io path m d =
     (case fi_write io path of
        Some e \<Rightarrow> (d, Some e)
      | None \<Rightarrow> (d\<lparr>cd_metas := AList.update path m (cd_metas d)\<rparr>, None))"

definition parse_and_cache ::
  "golib \<Rightarrow> fetch_io \<Rightarrow> string \<Rightarrow> string \<Rightarrow> cache_meta \<Rightarrow> cache_dir
     \<Rightarrow> cache_dir \<times> (string + fetch_result)" where
  "parse_and_cache G io i raw meta d =
     (case fi_mkdir io of
        Some e \<Rightarrow> (d, Inl e)
      | None \<Rightarrow>
          (case parse_blocklist G raw None of
             Inl (e, _) \<Rightarrow> (d, Inl e)
           | Inr (doms, stats) \<Rightarrow>
               (case write_file io (cache_path i) raw d of
                  (d, Some e) \<Rightarrow> (d, Inl e)
                | (d, None) \<Rightarrow>
                    (case write_meta io (meta_path i) meta d of
                       (d, Some e) \<Rightarrow> (d, Inl e)
                     | (d, None) \<Rightarrow>
                         (d, Inr \<lparr>fr_id = i, fr_domains = doms, fr_stats = stats,
                                  fr_from_cache = False, fr_not_modified = False,
                                  fr_fetched_at = cm_fetched_at meta\<rparr>)))))"

section \<open>Fetching\<close>

definition or_cached ::
  "golib \<Rightarrow> string \<Rightarrow> string \<Rightarrow> cache_dir \<Rightarrow> cache_dir \<times> (string + fetch_result)" where
  "or_cached G i err d =
     (case load_cache G i d of Inr cached \<Rightarrow> (d, Inr cached) | Inl _ \<Rightarrow> (d, Inl err))"

definition fetch_file ::
  "golib \<Rightarrow> fetch_io \<Rightarrow> string \<Rightarrow> parsed_url \<Rightarrow> cache_dir \<Rightarrow> cache_dir \<times> (string + fetch_result)" where
  "fetch_file G io i u d =
     (let path = (if pu_path u = [] then trim_prefix ''file://'' (pu_opaque u) else pu_path u) in
      case fi_open io path of
        Inl e \<Rightarrow> or_cached G i e d
      | Inr file \<Rightarrow>
          (case read_limited file max_blocklist_bytes of
             Inl e \<Rightarrow> or_cached G i e d
           | Inr raw \<Rightarrow> parse_and_cache G io i raw (no_meta\<lparr>cm_fetched_at := fi_now io\<rparr>) d))"

definition fetch_http ::
  "golib \<Rightarrow> fetch_io \<Rightarrow> string \<Rightarrow> string \<Rightarrow> cache_dir \<Rightarrow> cache_dir \<times> (string + fetch_result)" where
  "fetch_http G io i raw_url d =
     (let meta = (case load_meta i d of None \<Rightarrow> no_meta | Some m \<Rightarrow> m) in
      case fi_do io raw_url (cm_etag meta) (cm_last_modified meta) of
        Inl e \<Rightarrow> (d, Inl e)
      | Inr resp \<Rightarrow>
          if hr_status resp = 304 then
            (case load_cache G i d of
               Inl e \<Rightarrow> (d, Inl e)
             | Inr cached \<Rightarrow> (d, Inr (cached\<lparr>fr_not_modified := True\<rparr>)))
          else if hr_status resp < 200 \<or> 300 \<le> hr_status resp then
            (d, Inl (''fetch '' @ raw_url @ '': HTTP '' @ show_int (hr_status resp)))
          else
            (case read_limited (hr_body resp) max_blocklist_bytes of
               Inl e \<Rightarrow> (d, Inl e)
             | Inr raw \<Rightarrow>
                 parse_and_cache G io i raw
                   \<lparr>cm_etag = hr_etag resp, cm_last_modified = hr_last_modified resp,
                    cm_fetched_at = fi_now io\<rparr> d))"

definition fetch ::
  "golib \<Rightarrow> fetch_io \<Rightarrow> string \<Rightarrow> string \<Rightarrow> cache_dir \<Rightarrow> cache_dir \<times> (string + fetch_result)" where
  "fetch G io i raw_url d =
     (if i = [] then (d, Inl ''blocklist id is required'')
      else
        let d = (if cd_dir d = [] then d\<lparr>cd_dir := ''.''\<rparr> else d) in
        (case fi_url io raw_url of
           Inl e \<Rightarrow> or_cached G i e d
         | Inr u \<Rightarrow>
             if pu_scheme u = ''file'' then fetch_file G io i u d
             else (case fetch_http G io i raw_url d of
                     (d, Inr r) \<Rightarrow> (d, Inr r)
                   | (d, Inl e) \<Rightarrow> or_cached G i e d)))"

section \<open>Cached content\<close>

lemma safe_map_safe: "c \<in> set (safe_map s) \<Longrightarrow> safe_char c"
  by (induction s rule: safe_map.induct) (auto simp: safe_char_def split: if_split_asm)

text \<open>No list id names a file outside the cache directory.\<close>

lemma list_is_safe: "list_all safe_char ''list''"
  by (simp add: safe_char_def char_class_defs)

lemma safe_id_safe:
  "safe_id i \<noteq> []" "safe_id i \<noteq> ''.''" "safe_id i \<noteq> ''..''" "list_all safe_char (safe_id i)"
proof -
  show "safe_id i \<noteq> []" "safe_id i \<noteq> ''.''" "safe_id i \<noteq> ''..''"
    by (simp_all add: safe_id_def Let_def)
  show "list_all safe_char (safe_id i)"
  proof (cases "safe_id i = safe_map i")
    case True
    then show ?thesis using safe_map_safe by (simp add: list_all_iff)
  next
    case False
    then have "safe_id i = ''list''" by (auto simp: safe_id_def Let_def split: if_split_asm)
    then show ?thesis using list_is_safe by simp
  qed
qed

lemma safe_char_no_slash: "safe_char c \<Longrightarrow> c \<noteq> CHR ''/''"
  by (auto simp: safe_char_def char_class_defs)

lemma parse_and_cache_Inr:
  assumes "parse_and_cache G io i raw meta d = (d', Inr r)"
  shows "parse_blocklist G raw None = Inr (fr_domains r, fr_stats r)"
    and "map_of (cd_files d') (cache_path i) = Some raw"
    and "map_of (cd_metas d') (meta_path i) = Some meta"
    and "fr_fetched_at r = cm_fetched_at meta" "\<not> fr_from_cache r"
  using assms
  by (auto simp: parse_and_cache_def write_file_def write_meta_def
      split: option.splits sum.splits prod.splits)

text \<open>What a failed refresh leaves: the content file is the old one or the new valid one.\<close>

definition cached_valid :: "golib \<Rightarrow> string \<Rightarrow> cache_dir \<Rightarrow> bool" where
  "cached_valid G i d \<longleftrightarrow> (\<exists>r. load_cache G i d = Inr r)"

lemma cached_valid_iff:
  "cached_valid G i d \<longleftrightarrow>
     (\<exists>raw r. map_of (cd_files d) (cache_path i) = Some raw \<and> parse_blocklist G raw None = Inr r)"
  by (auto simp: cached_valid_def load_cache_def Let_def split: option.splits sum.splits)

lemma parse_and_cache_valid:
  assumes "cached_valid G i d"
  shows "cached_valid G i (fst (parse_and_cache G io i raw meta d))"
  using assms
  by (auto simp: parse_and_cache_def write_file_def write_meta_def cached_valid_iff
      split: option.splits sum.splits prod.splits)

lemma or_cached_valid: "cached_valid G i d \<Longrightarrow> \<exists>r. or_cached G i e d = (d, Inr r)"
  by (auto simp: or_cached_def cached_valid_def)

lemma cached_valid_dir [simp]: "cached_valid G i (d\<lparr>cd_dir := x\<rparr>) \<longleftrightarrow> cached_valid G i d"
  by (simp add: cached_valid_iff)

lemma fetch_http_valid:
  assumes "cached_valid G i d"
  shows "cached_valid G i (fst (fetch_http G io i u d))"
  using assms parse_and_cache_valid [OF assms]
  by (auto simp: fetch_http_def Let_def split: sum.splits)

lemma load_cache_domains:
  assumes "load_cache G i d = Inr r"
  shows "domains_ok (fr_domains r)" "fr_from_cache r"
  using assms by (auto simp: load_cache_def Let_def parse_blocklist_ok
      split: option.splits sum.splits prod.splits)

lemma fetch_domains_ok:
  assumes "fetch G io i u d = (d', Inr r)"
  shows "domains_ok (fr_domains r)"
proof -
  have cached: "domains_ok (fr_domains r)" if "or_cached G i e x = (y, Inr r)" for e x y
    using that load_cache_domains by (auto simp: or_cached_def split: sum.splits)
  have fresh: "domains_ok (fr_domains r)" if "parse_and_cache G io i raw meta x = (y, Inr r)"
    for raw meta x y
    using parse_and_cache_Inr(1) [OF that] by (rule parse_blocklist_ok)
  have http: "domains_ok (fr_domains r)" if "fetch_http G io i u x = (y, Inr r)" for x y
    using that fresh load_cache_domains
    by (auto simp: fetch_http_def Let_def split: sum.splits if_split_asm)
  have from_file: "domains_ok (fr_domains r)" if "fetch_file G io i v x = (y, Inr r)" for v x y
    using that fresh cached by (auto simp: fetch_file_def Let_def split: sum.splits)
  show ?thesis
    using assms cached http from_file
    by (auto simp: fetch_def Let_def split: if_split_asm sum.splits prod.splits)
qed

section \<open>Properties\<close>

text \<open>A refresh never loses a good copy: when the cache directory holds parsable content for the
  list, then after a fetch that fails in the network, in the server's status, in the body or in
  the parser the directory still holds parsable content for it, and the fetch from an HTTP
  source returns a result, fresh or cached.\<close>

theorem fetch_falls_back:
  assumes "cached_valid G i d" "i \<noteq> []" "fi_url io u = Inr pu" "pu_scheme pu \<noteq> ''file''"
  shows "cached_valid G i (fst (fetch G io i u d)) \<and> (\<exists>r. snd (fetch G io i u d) = Inr r)"
proof -
  define d' where "d' = (if cd_dir d = [] then d\<lparr>cd_dir := ''.''\<rparr> else d)"
  have "cached_valid G i d'" using assms(1) by (simp add: d'_def)
  then have "cached_valid G i (fst (fetch_http G io i u d'))" by (rule fetch_http_valid)
  moreover have "fetch G io i u d = (case fetch_http G io i u d' of
      (x, Inr r) \<Rightarrow> (x, Inr r) | (x, Inl e) \<Rightarrow> or_cached G i e x)"
    using assms(2-4) by (simp add: fetch_def d'_def Let_def)
  ultimately show ?thesis
    using or_cached_valid by (auto split: prod.splits sum.splits) (metis snd_conv fst_conv)+
qed

definition offline :: fetch_io where
  "offline = \<lparr>fi_url = (\<lambda>_. Inr \<lparr>pu_scheme = ''https'', pu_path = [], pu_opaque = []\<rparr>),
     fi_do = (\<lambda>_ _ _. Inl ''no route''), fi_open = (\<lambda>_. Inl ''no such file''), fi_mkdir = None,
     fi_write = (\<lambda>_. None), fi_now = 5\<rparr>"

definition warm_cache :: cache_dir where
  "warm_cache = \<lparr>cd_dir = ''/var/cache'', cd_files = [(''ads.txt'', ''ads.com'')], cd_metas = []\<rparr>"

theorem fetch_falls_back_witness:
  "\<exists>r. snd (fetch ascii_lib offline ''ads'' ''https://x'' warm_cache) = Inr r"
proof -
  have "case load_cache ascii_lib ''ads'' warm_cache of Inr r \<Rightarrow> True | Inl _ \<Rightarrow> False" by code_simp
  then have "cached_valid ascii_lib ''ads'' warm_cache"
    by (cases "load_cache ascii_lib ''ads'' warm_cache") (auto simp: cached_valid_def)
  from fetch_falls_back [OF this, of offline "''https://x''"] show ?thesis
    by (simp add: offline_def)
qed

text \<open>The names of the cache and metadata files of any list id consist of letters, digits, dashes,
  underscores and dots, are neither of the two directory names, and contain no separator.\<close>

theorem cache_paths_stay_inside:
  "list_all safe_char (cache_path i) \<and> list_all safe_char (meta_path i)
   \<and> cache_path i \<notin> {[], ''.'', ''..''} \<and> meta_path i \<notin> {[], ''.'', ''..''}
   \<and> CHR ''/'' \<notin> set (cache_path i) \<and> CHR ''/'' \<notin> set (meta_path i)"
proof -
  have "list_all safe_char ''.txt''" "list_all safe_char ''.json''"
    by (simp_all add: safe_char_def char_class_defs)
  then have all: "list_all safe_char (cache_path i)" "list_all safe_char (meta_path i)"
    using safe_id_safe(4) [of i] by (simp_all add: cache_path_def meta_path_def)
  moreover have "4 \<le> length (cache_path i)" "4 \<le> length (meta_path i)"
    by (simp_all add: cache_path_def meta_path_def)
  ultimately show ?thesis using safe_char_no_slash by (auto simp: list_all_iff)
qed

end
