(* ===== verification/Config_Types.thy ===== *)
theory Config_Types
  imports Go_Time
begin

text \<open>
  The configuration tree of \<open>internal/config/types.go\<close>, one record per struct with the fields
  in the order of the source.  A \<open>Duration\<close> is its number of nanoseconds, a Go \<open>int\<close> an
  \<open>int\<close>.
\<close>

record dns_server =
  ds_listen :: "string list"
  ds_udp_workers :: int
  ds_tcp_workers :: int
  ds_udp_size :: int
  ds_rate_limit_qps :: int
  ds_rate_limit_burst :: int
  ds_rate_limit_max_buckets :: int
  ds_tcp_read_deadline :: duration

record http_server =
  hs_listen :: string
  hs_tls :: bool
  hs_cert_file :: string
  hs_key_file :: string
  hs_rate_limit_per_minute :: int

record server =
  sv_dns :: dns_server
  sv_http :: http_server
  sv_go_max_procs :: int
  sv_data_dir :: string
  sv_store_backend :: string
  sv_tz :: string

record cache_config =
  cc_max_entries :: int
  cc_min_ttl :: duration
  cc_max_ttl :: duration
  cc_negative_ttl :: duration

record privacy =
  pv_strip_ecs :: bool
  pv_block_local_ptr :: bool
  pv_log_mode :: string
  pv_log_salt :: string

record logging =
  lg_query_log :: bool
  lg_audit_log :: bool
  lg_rotate_size_mb :: int
  lg_retention_days :: int
  lg_gzip :: bool

record block_config =
  bc_response_a :: string
  bc_response_aaaa :: string
  bc_response_ttl :: duration
  bc_use_nxdomain :: bool

record upstream =
  up_id :: string
  up_name :: string
  up_url :: string
  up_bootstrap :: "string list"
  up_timeout :: duration
  up_circuit_breaker_threshold :: int
  up_health_probe_timeout :: duration
  up_health_probe_interval :: duration

record blocklist =
  bl_id :: string
  bl_name :: string
  bl_url :: string
  bl_enabled :: bool
  bl_refresh_interval :: duration

record allowlist =
  al_domains :: "string list"

record schedule =
  sc_name :: string
  sc_days :: "string list"
  sc_from :: string
  sc_to :: string
  sc_block :: "string list"

record group_config =
  gc_name :: string
  gc_blocklists :: "string list"
  gc_allowlist :: "string list"
  gc_schedules :: "schedule list"

record client_config =
  kc_key :: string
  kc_type :: string
  kc_name :: string
  kc_group :: string
  kc_hidden :: bool

record user =
  us_username :: string
  us_password_hash :: string

record auth =
  au_users :: "user list"
  au_first_run :: bool
  au_session_ttl :: duration
  au_cookie_name :: string
  au_secure_cookie :: bool

record config =
  c_server :: server
  c_cache :: cache_config
  c_privacy :: privacy
  c_logging :: logging
  c_block :: block_config
  c_upstreams :: "upstream list"
  c_blocklists :: "blocklist list"
  c_allowlist :: allowlist
  c_groups :: "group_config list"
  c_clients :: "client_config list"
  c_auth :: auth

section \<open>Zero values\<close>

text \<open>The zero value Go gives a struct: what \<open>config.Config{}\<close> and \<open>new(T)\<close> hold.\<close>

definition zero_dns_server :: dns_server where
  "zero_dns_server = \<lparr>ds_listen = [], ds_udp_workers = 0, ds_tcp_workers = 0, ds_udp_size = 0,
     ds_rate_limit_qps = 0, ds_rate_limit_burst = 0, ds_rate_limit_max_buckets = 0,
     ds_tcp_read_deadline = 0\<rparr>"

definition zero_config :: config where
  "zero_config =
    \<lparr>c_server = \<lparr>sv_dns = zero_dns_server,
       sv_http = \<lparr>hs_listen = [], hs_tls = False, hs_cert_file = [], hs_key_file = [],
                  hs_rate_limit_per_minute = 0\<rparr>,
       sv_go_max_procs = 0, sv_data_dir = [], sv_store_backend = [], sv_tz = []\<rparr>,
     c_cache = \<lparr>cc_max_entries = 0, cc_min_ttl = 0, cc_max_ttl = 0, cc_negative_ttl = 0\<rparr>,
     c_privacy = \<lparr>pv_strip_ecs = False, pv_block_local_ptr = False, pv_log_mode = [],
                  pv_log_salt = []\<rparr>,
     c_logging = \<lparr>lg_query_log = False, lg_audit_log = False, lg_rotate_size_mb = 0,
                  lg_retention_days = 0, lg_gzip = False\<rparr>,
     c_block = \<lparr>bc_response_a = [], bc_response_aaaa = [], bc_response_ttl = 0,
                bc_use_nxdomain = False\<rparr>,
     c_upstreams = [], c_blocklists = [], c_allowlist = \<lparr>al_domains = []\<rparr>, c_groups = [],
     c_clients = [],
     c_auth = \<lparr>au_users = [], au_first_run = False, au_session_ttl = 0, au_cookie_name = [],
               au_secure_cookie = False\<rparr>\<rparr>"

end
