(* ===== verification/Policy_Groups.thy ===== *)
theory Policy_Groups
  imports Domains Config_Types
begin

unbundle bit_operations_syntax

text \<open>
  \<open>internal/policy/group.go\<close>: compiled groups and schedules.  A day set is its byte, a clock
  reading the minutes since midnight.  An active schedule is characterised by the windows of
  wall-clock time it opens (\<open>in_window\<close>).
\<close>

datatype schedule_error =
    Unknown_Day string
  | Days_Required
  | Bad_From string
  | Bad_To string

datatype policy_error =
    Config_Required
  | Group_Name_Required
  | Bad_Group_Allow string string
  | Bad_Group_Schedule string string schedule_error
  | Default_Group_Required
  | Invalid_Domain string string
  | Unknown_Timezone string

type_synonym day_set = u8

definition day_sunday :: day_set where "day_sunday = push_bit 0 1"
definition day_monday :: day_set where "day_monday = push_bit 1 1"
definition day_tuesday :: day_set where "day_tuesday = push_bit 2 1"
definition day_wednesday :: day_set where "day_wednesday = push_bit 3 1"
definition day_thursday :: day_set where "day_thursday = push_bit 4 1"
definition day_friday :: day_set where "day_friday = push_bit 5 1"
definition day_saturday :: day_set where "day_saturday = push_bit 6 1"

lemmas day_bits = day_sunday_def day_monday_def day_tuesday_def day_wednesday_def
  day_thursday_def day_friday_def day_saturday_def

record compiled_schedule =
  cs_name :: string
  cs_days :: day_set
  cs_from :: int
  cs_to :: int
  cs_block :: "string list"

record policy_group =
  pg_name :: string
  pg_base_lists :: "string list"
  pg_allow :: domains
  pg_schedules :: "compiled_schedule list"

section \<open>Parsing of days and clock readings\<close>

definition day_token :: "string \<Rightarrow> day_set option" where
  "day_token t =
     (if t = ''all'' then
        Some (day_sunday OR day_monday OR day_tuesday OR day_wednesday OR day_thursday
              OR day_friday OR day_saturday)
      else if t = ''weekday'' then
        Some (day_monday OR day_tuesday OR day_wednesday OR day_thursday OR day_friday)
      else if t = ''weekend'' then Some (day_saturday OR day_sunday)
      else if t = ''sun'' then Some day_sunday
      else if t = ''mon'' then Some day_monday
      else if t = ''tue'' then Some day_tuesday
      else if t = ''wed'' then Some day_wednesday
      else if t = ''thu'' then Some day_thursday
      else if t = ''fri'' then Some day_friday
      else if t = ''sat'' then Some day_saturday
      else None)"

fun parse_days_from :: "golib \<Rightarrow> day_set \<Rightarrow> string list \<Rightarrow> schedule_error + day_set" where
  "parse_days_from G out [] = (if out = 0 then Inl Days_Required else Inr out)"
| "parse_days_from G out (day # days) =
     (case day_token (to_lower G day) of
        None \<Rightarrow> Inl (Unknown_Day day)
      | Some bits \<Rightarrow> parse_days_from G (out OR bits) days)"

definition parse_days :: "golib \<Rightarrow> string list \<Rightarrow> schedule_error + day_set" where
  "parse_days G raw = parse_days_from G 0 raw"

definition digit_val :: "char \<Rightarrow> int" where
  "digit_val c = int (byte c) - 48"

text \<open>
  \<open>time.Parse("15:04", raw)\<close>: one or two digits of the hour (two are taken when there are two),
  a colon, exactly two digits of the minute, nothing after.
\<close>

definition parse_clock_hour :: "string \<Rightarrow> (int \<times> string) option" where
  "parse_clock_hour s =
     (case s of
        a # b # t \<Rightarrow>
          if is_digit a \<and> is_digit b then Some (digit_val a * 10 + digit_val b, t)
          else if is_digit a then Some (digit_val a, b # t) else None
      | [a] \<Rightarrow> if is_digit a then Some (digit_val a, []) else None
      | [] \<Rightarrow> None)"

definition parse_clock :: "string \<Rightarrow> int option" where
  "parse_clock raw =
     (case parse_clock_hour raw of
        None \<Rightarrow> None
      | Some (h, rest) \<Rightarrow>
          if 24 \<le> h then None
          else (case rest of
                  [c, m1, m0] \<Rightarrow>
                    if c = CHR '':'' \<and> is_digit m1 \<and> is_digit m0
                       \<and> digit_val m1 * 10 + digit_val m0 < 60
                    then Some (h * 60 + (digit_val m1 * 10 + digit_val m0)) else None
                | _ \<Rightarrow> None))"

section \<open>Compilation\<close>

definition compile_schedule :: "golib \<Rightarrow> schedule \<Rightarrow> schedule_error + compiled_schedule" where
  "compile_schedule G raw =
     (case parse_days G (sc_days raw) of
        Inl e \<Rightarrow> Inl e
      | Inr days \<Rightarrow>
          (case parse_clock (sc_from raw) of
             None \<Rightarrow> Inl (Bad_From (sc_from raw))
           | Some from_minute \<Rightarrow>
               (case parse_clock (sc_to raw) of
                  None \<Rightarrow> Inl (Bad_To (sc_to raw))
                | Some to_minute \<Rightarrow>
                    Inr \<lparr>cs_name = sc_name raw, cs_days = days, cs_from = from_minute,
                         cs_to = to_minute, cs_block = sc_block raw\<rparr>)))"

definition add_group_allow :: "golib \<Rightarrow> string \<Rightarrow> string \<Rightarrow> domains \<Rightarrow> policy_error + domains" where
  "add_group_allow G name domain tree =
     (let (tree', added) = domains_add G domain tree in
      if \<not> added then Inl (Bad_Group_Allow name domain) else Inr tree')"

definition compile_group_schedule ::
  "golib \<Rightarrow> string \<Rightarrow> schedule \<Rightarrow> compiled_schedule list \<Rightarrow> policy_error + compiled_schedule list" where
  "compile_group_schedule G name raw acc =
     (case compile_schedule G raw of
        Inl e \<Rightarrow> Inl (Bad_Group_Schedule name (sc_name raw) e)
      | Inr compiled \<Rightarrow> Inr (acc @ [compiled]))"

definition compile_group ::
  "golib \<Rightarrow> group_config \<Rightarrow> (string, policy_group) alist \<Rightarrow> policy_error + (string, policy_group) alist"
where
  "compile_group G raw out =
     (if gc_name raw = [] then Inl Group_Name_Required
      else (case fold_result (add_group_allow G (gc_name raw)) (gc_allowlist raw) empty_domains of
              Inl e \<Rightarrow> Inl e
            | Inr tree \<Rightarrow>
                (case fold_result (compile_group_schedule G (gc_name raw)) (gc_schedules raw) [] of
                   Inl e \<Rightarrow> Inl e
                 | Inr scheds \<Rightarrow>
                     Inr (AList.update (gc_name raw)
                            \<lparr>pg_name = gc_name raw, pg_base_lists = gc_blocklists raw,
                             pg_allow = tree, pg_schedules = scheds\<rparr> out))))"

definition compile_groups :: "golib \<Rightarrow> group_config list \<Rightarrow> policy_error + (string, policy_group) alist" where
  "compile_groups G groups =
     (case fold_result (compile_group G) groups [] of
        Inl e \<Rightarrow> Inl e
      | Inr out \<Rightarrow> if map_of out ''default'' = None then Inl Default_Group_Required else Inr out)"

section \<open>Active schedules\<close>

definition day_for :: "int \<Rightarrow> day_set" where
  "day_for w =
     (if w = 0 then day_sunday else if w = 1 then day_monday else if w = 2 then day_tuesday
      else if w = 3 then day_wednesday else if w = 4 then day_thursday
      else if w = 5 then day_friday else day_saturday)"

definition day_has :: "day_set \<Rightarrow> day_set \<Rightarrow> bool" where
  "day_has d day \<longleftrightarrow> d AND day \<noteq> 0"

definition active_at :: "golib \<Rightarrow> compiled_schedule \<Rightarrow> gotime \<Rightarrow> location option \<Rightarrow> bool" where
  "active_at G s now tz =
     (let loc = (case tz of None \<Rightarrow> g_local G | Some loc \<Rightarrow> loc);
          wall = wall_seconds loc now;
          minute = clock_hour wall * 60 + clock_minute wall;
          today = day_for (weekday wall) in
      if cs_from s = cs_to s then day_has (cs_days s) today
      else if cs_from s < cs_to s then
        day_has (cs_days s) today \<and> cs_from s \<le> minute \<and> minute < cs_to s
      else if cs_from s \<le> minute then day_has (cs_days s) today
      else
        let yesterday = day_for (weekday (wall_seconds loc (add_date loc now (- 1))))
        in day_has (cs_days s) yesterday \<and> minute < cs_to s)"

section \<open>Clock readings and day sets\<close>

lemma digit_val_range: "is_digit c \<Longrightarrow> 0 \<le> digit_val c \<and> digit_val c \<le> 9"
  by (auto simp: is_digit_def digit_val_def)

lemma parse_clock_range:
  assumes "parse_clock s = Some m"
  shows "0 \<le> m" "m < 1440"
  using assms
  by (auto simp: parse_clock_def parse_clock_hour_def split: option.splits list.splits if_splits
      dest!: digit_val_range)

definition two_digits :: "int \<Rightarrow> string" where
  "two_digits n = [digit_char (nat (n div 10)), digit_char (nat (n mod 10))]"

definition show_clock :: "int \<Rightarrow> string" where
  "show_clock m = two_digits (m div 60) @ '':'' @ two_digits (m mod 60)"

lemma digit_val_digit_char: "0 \<le> n \<Longrightarrow> n < 10 \<Longrightarrow> digit_val (digit_char (nat n)) = n"
  by (simp add: digit_val_def byte_digit_char)

lemma two_digits_cases:
  assumes "0 \<le> n" "n < 100"
  obtains a b where "two_digits n = [a, b]" "is_digit a" "is_digit b"
    "digit_val a * 10 + digit_val b = n"
proof
  have d: "0 \<le> n div 10" "n div 10 < 10" "0 \<le> n mod 10" "n mod 10 < 10"
    using assms by auto
  show "two_digits n = [digit_char (nat (n div 10)), digit_char (nat (n mod 10))]"
    by (simp add: two_digits_def)
  show "is_digit (digit_char (nat (n div 10)))" "is_digit (digit_char (nat (n mod 10)))"
    using d by simp_all
  show "digit_val (digit_char (nat (n div 10))) * 10 + digit_val (digit_char (nat (n mod 10))) = n"
    unfolding digit_val_digit_char [OF d(1,2)] digit_val_digit_char [OF d(3,4)]
    by (rule div_mult_mod_eq)
qed

lemma parse_show_clock:
  assumes "0 \<le> m" "m < 1440"
  shows "parse_clock (show_clock m) = Some m"
proof -
  have h: "0 \<le> m div 60" "m div 60 < 24" "0 \<le> m mod 60" "m mod 60 < 60" using assms by auto
  obtain a b where hm: "two_digits (m div 60) = [a, b]" "is_digit a" "is_digit b"
      "digit_val a * 10 + digit_val b = m div 60"
    by (rule two_digits_cases [of "m div 60"]) (use h in auto)
  obtain c d where mm: "two_digits (m mod 60) = [c, d]" "is_digit c" "is_digit d"
      "digit_val c * 10 + digit_val d = m mod 60"
    by (rule two_digits_cases [of "m mod 60"]) (use h in auto)
  have "parse_clock (show_clock m) = Some (m div 60 * 60 + m mod 60)"
    using h unfolding show_clock_def hm(1) mm(1)
    by (simp add: parse_clock_def parse_clock_hour_def hm(2-) mm(2-))
  then show ?thesis by simp
qed

text \<open>The weekdays a token names; Sunday is 0.\<close>

definition token_days :: "string \<Rightarrow> int set option" where
  "token_days t =
     map_of [(''all'', {0..6}), (''weekday'', {1..5}), (''weekend'', {0, 6}), (''sun'', {0}),
       (''mon'', {1}), (''tue'', {2}), (''wed'', {3}), (''thu'', {4}), (''fri'', {5}), (''sat'', {6})] t"

definition in_days :: "day_set \<Rightarrow> int \<Rightarrow> bool" where
  "in_days d w \<longleftrightarrow> day_has d (day_for w)"

lemma week_cases: "w \<in> {0..6::int} \<Longrightarrow> w \<in> {0, 1, 2, 3, 4, 5, 6}"
  by auto

lemma day_for_bit: "w \<in> {0..6} \<Longrightarrow> day_for w = push_bit (nat w) 1"
  by (drule week_cases) (auto simp: day_for_def day_bits)

lemma in_days_bit: "w \<in> {0..6} \<Longrightarrow> in_days d w \<longleftrightarrow> bit d (nat w)"
  by (simp add: in_days_def day_has_def day_for_bit and_exp_eq_0_iff_not_bit push_bit_eq_mult)

lemma in_days_or: "w \<in> {0..6} \<Longrightarrow> in_days (a OR b) w \<longleftrightarrow> in_days a w \<or> in_days b w"
  by (simp add: in_days_bit bit_or_iff)

lemma in_days_0 [simp]: "\<not> in_days 0 w"
  by (simp add: in_days_def day_has_def)

lemma in_days_single: "v \<in> {0..6} \<Longrightarrow> w \<in> {0..6} \<Longrightarrow> in_days (day_for v) w \<longleftrightarrow> w = v"
  by (simp only: in_days_bit day_for_bit bit_push_bit_iff bit_1_iff) auto

lemmas day_names = day_for_def [of 0, simplified, symmetric] day_for_def [of 1, simplified, symmetric]
  day_for_def [of 2, simplified, symmetric] day_for_def [of 3, simplified, symmetric]
  day_for_def [of 4, simplified, symmetric] day_for_def [of 5, simplified, symmetric]
  day_for_def [of 6, simplified, symmetric]

lemma day_token_days:
  assumes "day_token t = Some d"
  shows "\<exists>S. token_days t = Some S \<and> (\<forall>w \<in> {0..6}. in_days d w \<longleftrightarrow> w \<in> S)"
  using assms
  by (auto simp: day_token_def token_days_def day_names in_days_or in_days_single
      split: if_split_asm)

lemma parse_days_from_Inr:
  assumes "parse_days_from G out raw = Inr d" "w \<in> {0..6}"
  shows "in_days d w \<longleftrightarrow>
    in_days out w \<or> (\<exists>t \<in> set raw. \<exists>S. token_days (to_lower G t) = Some S \<and> w \<in> S)"
  using assms
proof (induction raw arbitrary: out)
  case (Cons t raw)
  then obtain bits where bits: "day_token (to_lower G t) = Some bits"
      and rest: "parse_days_from G (out OR bits) raw = Inr d"
    by (auto split: option.splits)
  from day_token_days [OF bits] Cons.prems(2) obtain S where
    "token_days (to_lower G t) = Some S" "in_days bits w \<longleftrightarrow> w \<in> S" by blast
  with Cons.IH [OF rest Cons.prems(2)] Cons.prems(2) show ?case by (auto simp: in_days_or)
qed (simp split: if_split_asm)

lemma parse_days_Inr:
  assumes "parse_days G raw = Inr d" "w \<in> {0..6}"
  shows "in_days d w \<longleftrightarrow> (\<exists>t \<in> set raw. \<exists>S. token_days (to_lower G t) = Some S \<and> w \<in> S)"
  using parse_days_from_Inr [of G 0 raw d w] assms by (simp add: parse_days_def)

lemma parse_days_nonzero: "parse_days G raw = Inr d \<Longrightarrow> d \<noteq> 0"
proof -
  have "parse_days_from G out raw = Inr d \<Longrightarrow> d \<noteq> 0" for out
    by (induction raw arbitrary: out) (auto split: option.splits if_split_asm)
  then show "parse_days G raw = Inr d \<Longrightarrow> d \<noteq> 0" by (simp add: parse_days_def)
qed

section \<open>Windows\<close>

text \<open>The window a schedule opens on day \<open>k\<close> (days since 1 January of year 1), in wall seconds.\<close>

definition window :: "compiled_schedule \<Rightarrow> int \<Rightarrow> int \<times> int" where
  "window s k =
     (if cs_from s = cs_to s then (86400 * k, 86400 * k + 86400)
      else if cs_from s < cs_to s then (86400 * k + 60 * cs_from s, 86400 * k + 60 * cs_to s)
      else (86400 * k + 60 * cs_from s, 86400 * k + 86400 + 60 * cs_to s))"

definition in_window :: "compiled_schedule \<Rightarrow> int \<Rightarrow> bool" where
  "in_window s wall \<longleftrightarrow>
     (\<exists>k. in_days (cs_days s) ((k + 1) mod 7) \<and> fst (window s k) \<le> wall \<and> wall < snd (window s k))"

definition schedule_ok :: "compiled_schedule \<Rightarrow> bool" where
  "schedule_ok s \<longleftrightarrow> cs_days s \<noteq> 0 \<and> cs_from s \<in> {0..<1440} \<and> cs_to s \<in> {0..<1440}"

lemma compile_schedule_ok: "compile_schedule G raw = Inr s \<Longrightarrow> schedule_ok s"
  by (auto simp: compile_schedule_def schedule_ok_def parse_clock_range dest!: parse_days_nonzero
      split: sum.splits option.splits)

lemma div_60: "m \<le> x div 60 \<longleftrightarrow> 60 * m \<le> (x::int)" "x div 60 < m \<longleftrightarrow> x < 60 * (m::int)"
proof -
  have "x = 60 * (x div 60) + x mod 60" "0 \<le> x mod 60" "x mod 60 < 60" by simp_all
  then show "m \<le> x div 60 \<longleftrightarrow> 60 * m \<le> x" "x div 60 < m \<longleftrightarrow> x < 60 * m" by linarith+
qed

lemma minute_of_day_iff:
  "m \<le> minute_of_day wall \<longleftrightarrow> 60 * m \<le> wall mod 86400"
  "minute_of_day wall < m \<longleftrightarrow> wall mod 86400 < 60 * m"
  by (simp_all only: minute_of_day_def div_60)

lemma window_days:
  assumes "schedule_ok s" "fst (window s k) \<le> wall" "wall < snd (window s k)"
  shows "k = day_number wall \<or> cs_to s < cs_from s \<and> k = day_number wall - 1"
proof -
  define r where "r = wall mod 86400"
  define D where "D = wall div 86400"
  have "wall = 86400 * D + r" "0 \<le> r" "r < 86400" by (simp_all add: r_def D_def)
  with assms show ?thesis
    unfolding day_number_def D_def [symmetric]
    by (auto simp: window_def schedule_ok_def split: if_split_asm)
qed

lemma active_at_window:
  assumes "schedule_ok s" "constant_offset (case tz of None \<Rightarrow> g_local G | Some l \<Rightarrow> l) off"
  shows "active_at G s now tz \<longleftrightarrow> in_window s (now div second + off)"
proof -
  define loc where "loc = (case tz of None \<Rightarrow> g_local G | Some l \<Rightarrow> l)"
  define wall where "wall = now div second + off"
  define D where "D = day_number wall"
  define r where "r = wall mod 86400"
  have wr: "wall = 86400 * D + r" "0 \<le> r" "r < 86400"
    by (simp_all add: D_def r_def day_number_def)
  have loc: "wall_seconds loc now = wall" "wall_seconds loc (add_date loc now (- 1)) = wall - 86400"
    using assms(2) wall_add_date_constant [of loc off now "- 1"]
    unfolding loc_def [symmetric] by (simp_all add: wall_def wall_seconds_constant)
  have wd: "weekday wall = (D + 1) mod 7" "weekday (wall - 86400) = (D - 1 + 1) mod 7"
    using weekday_add_days [of wall "- 1"]
    by (simp_all add: weekday_def D_def mod_diff_left_eq)
  have "in_window s wall \<longleftrightarrow>
      (\<exists>k \<in> {D, D - 1}. in_days (cs_days s) ((k + 1) mod 7) \<and> fst (window s k) \<le> wall \<and> wall < snd (window s k))"
    using window_days [OF assms(1)] unfolding in_window_def D_def by blast
  also have "\<dots> \<longleftrightarrow> active_at G s now tz"
    using assms(1) wr(2,3)
    unfolding active_at_def loc_def [symmetric] Let_def loc hour_minute wd minute_of_day_iff
      r_def [symmetric] in_days_def [symmetric]
    by (auto simp: wr(1) window_def schedule_ok_def)
  finally show ?thesis by (simp add: wall_def)
qed

section \<open>Compiled groups\<close>

definition group_ok :: "policy_group \<Rightarrow> bool" where
  "group_ok g \<longleftrightarrow> pg_name g \<noteq> [] \<and> domains_ok (pg_allow g) \<and> (\<forall>s \<in> set (pg_schedules g). schedule_ok s)"

definition groups_ok :: "(string, policy_group) alist \<Rightarrow> bool" where
  "groups_ok gs \<longleftrightarrow>
     alist_ok gs \<and> (\<forall>n g. map_of gs n = Some g \<longrightarrow> pg_name g = n \<and> group_ok g)"

text \<open>Which group the configuration compiles to, whatever the others are.\<close>

definition compiled_from :: "golib \<Rightarrow> group_config \<Rightarrow> policy_group \<Rightarrow> bool" where
  "compiled_from G raw g \<longleftrightarrow>
     pg_name g = gc_name raw \<and> pg_base_lists g = gc_blocklists raw
     \<and> pg_allow g = fold (\<lambda>x d. fst (domains_add G x d)) (gc_allowlist raw) empty_domains
     \<and> list_all2 (\<lambda>r s. compile_schedule G r = Inr s) (gc_schedules raw) (pg_schedules g)"

lemma fold_add_group_allow:
  "fold_result (add_group_allow G name) xs t = Inr t' \<Longrightarrow> t' = fold (\<lambda>x d. fst (domains_add G x d)) xs t"
  by (induction xs arbitrary: t)
    (auto simp: add_group_allow_def case_prod_beta Let_def split: if_split_asm)

lemma fold_group_schedules:
  "fold_result (compile_group_schedule G name) xs acc = Inr out \<Longrightarrow>
     \<exists>ys. out = acc @ ys \<and> list_all2 (\<lambda>r s. compile_schedule G r = Inr s) xs ys"
proof (induction xs arbitrary: acc)
  case (Cons x xs)
  show ?case
  proof (cases "compile_schedule G x")
    case (Inr y)
    with Cons.prems have "fold_result (compile_group_schedule G name) xs (acc @ [y]) = Inr out"
      by (simp add: compile_group_schedule_def [of _ _ x])
    with Cons.IH [of "acc @ [y]"] Inr show ?thesis by fastforce
  qed (use Cons.prems in \<open>simp add: compile_group_schedule_def [of _ _ x]\<close>)
qed simp

lemma compile_group_Inr:
  assumes "compile_group G raw out = Inr out'"
  shows "\<exists>g. out' = AList.update (gc_name raw) g out \<and> compiled_from G raw g \<and> gc_name raw \<noteq> []"
  using assms fold_add_group_allow [of G "gc_name raw" "gc_allowlist raw" empty_domains]
    fold_group_schedules [of G "gc_name raw" "gc_schedules raw" "[]"]
  by (fastforce simp: compile_group_def compiled_from_def split: if_split_asm sum.splits)

lemma compiled_from_ok:
  assumes "compiled_from G raw g" "gc_name raw \<noteq> []"
  shows "group_ok g"
proof -
  have "schedule_ok s" if "s \<in> set (pg_schedules g)" for s
    using assms(1) that by (auto simp: compiled_from_def compile_schedule_ok dest!: list_all2_rightD)
  with assms show ?thesis by (simp add: compiled_from_def group_ok_def dom.ok_fold_add)
qed

lemma groups_ok_update [inv_intro]:
  "groups_ok gs \<Longrightarrow> group_ok g \<Longrightarrow> pg_name g = n \<Longrightarrow> groups_ok (AList.update n g gs)"
  by (auto simp: groups_ok_def)

lemma compile_group_step:
  assumes "compile_group G raw out = Inr out'" "groups_ok out"
  shows "groups_ok out'" "keys out' = insert (gc_name raw) (keys out)"
proof -
  from compile_group_Inr [OF assms(1)] obtain g where
    g: "out' = AList.update (gc_name raw) g out" "compiled_from G raw g" "gc_name raw \<noteq> []" by blast
  then show "groups_ok out'" "keys out' = insert (gc_name raw) (keys out)"
    using assms(2) compiled_from_ok [OF g(2,3)]
    by (auto simp: groups_ok_update compiled_from_def)
qed

lemma fold_compile_group:
  assumes "fold_result (compile_group G) raws out = Inr out'" "groups_ok out"
  shows "groups_ok out'" and "keys out' = gc_name ` set raws \<union> keys out"
    and "map_of out' n = Some g \<Longrightarrow>
      map_of out n = Some g \<or> (\<exists>raw \<in> set raws. gc_name raw = n \<and> compiled_from G raw g)"
  using assms
proof (induction raws arbitrary: out)
  case (Cons raw raws)
  case 1
  then obtain mid where "compile_group G raw out = Inr mid"
      "fold_result (compile_group G) raws mid = Inr out'" by (auto split: sum.splits)
  with Cons.IH(1) [of mid] 1 compile_group_step show ?case by blast
next
  case (Cons raw raws)
  case 2
  then obtain mid where mid: "compile_group G raw out = Inr mid"
      "fold_result (compile_group G) raws mid = Inr out'" by (auto split: sum.splits)
  with Cons.IH(2) [of mid] 2 compile_group_step [OF mid(1)] show ?case by auto
next
  case (Cons raw raws)
  case 3
  then obtain mid where mid: "compile_group G raw out = Inr mid"
      "fold_result (compile_group G) raws mid = Inr out'" by (auto split: sum.splits)
  from compile_group_Inr [OF mid(1)] obtain g0 where
    "mid = AList.update (gc_name raw) g0 out" "compiled_from G raw g0" by blast
  with Cons.IH(3) [of mid] 3 mid compile_group_step [OF mid(1)] show ?case
    by (auto split: if_split_asm)
qed simp_all

lemma groups_ok_Nil [simp]: "groups_ok []"
  by (simp add: groups_ok_def)

lemma compile_groups_Inr:
  assumes "compile_groups G raws = Inr gs"
  shows "groups_ok gs" and "keys gs = gc_name ` set raws" and "''default'' \<in> keys gs"
    and "map_of gs n = Some g \<Longrightarrow> \<exists>raw \<in> set raws. gc_name raw = n \<and> compiled_from G raw g"
  using assms fold_compile_group [of G raws "[]" gs]
  by (auto simp: compile_groups_def keys_iff_map_of split: sum.splits if_split_asm)

section \<open>Properties\<close>

text \<open>C25: In a location with a constant offset, a compiled schedule is active at an instant exactly
  when the wall clock lies in the window that some day, named by one of the schedule's day
  tokens, opens: the whole day, from From up to To, or from From over midnight up to To.\<close>

theorem schedule_active_window:
  assumes "compile_schedule G raw = Inr s" "constant_offset loc off"
  shows "active_at G s now (Some loc) =
    (\<exists>k t S. t \<in> set (sc_days raw) \<and> token_days (to_lower G t) = Some S \<and> (k + 1) mod 7 \<in> S
       \<and> fst (window s k) \<le> now div second + off \<and> now div second + off < snd (window s k))"
proof -
  have d: "parse_days G (sc_days raw) = Inr (cs_days s)"
    using assms(1) by (auto simp: compile_schedule_def split: sum.splits option.splits)
  have "in_days (cs_days s) ((k + 1) mod 7) \<longleftrightarrow>
      (\<exists>t \<in> set (sc_days raw). \<exists>S. token_days (to_lower G t) = Some S \<and> (k + 1) mod 7 \<in> S)" for k
    by (rule parse_days_Inr [OF d]) simp
  then show ?thesis
    using active_at_window [where s = s and tz = "Some loc" and off = off and now = now and G = G] compile_schedule_ok [OF assms(1)] assms(2)
    by (auto simp: in_window_def)
qed

definition night :: schedule where
  "night = \<lparr>sc_name = ''night'', sc_days = [''Fri''], sc_from = ''22:00'', sc_to = ''6:30'',
            sc_block = [''games'']\<rparr>"

text \<open>Friday 5 January of year 1, 23:00: inside the window that day opens.\<close>

theorem schedule_active_window_witness:
  "\<exists>s. compile_schedule ascii_lib night = Inr s
     \<and> active_at ascii_lib s ((4 * 86400 + 23 * 3600) * second) (Some (fixed_zone 0))"
proof -
  define s where "s = (case compile_schedule ascii_lib night of Inr s \<Rightarrow> s | Inl _ \<Rightarrow> undefined)"
  have "case compile_schedule ascii_lib night of
      Inr s \<Rightarrow> cs_from s = 1320 \<and> cs_to s = 390 | Inl _ \<Rightarrow> False" by code_simp
  then have s: "compile_schedule ascii_lib night = Inr s" "cs_from s = 1320" "cs_to s = 390"
    by (auto simp: s_def split: sum.splits)
  have "''Fri'' \<in> set (sc_days night)" "token_days (to_lower ascii_lib ''Fri'') = Some {5}"
    by (simp add: night_def) code_simp
  then have "active_at ascii_lib s ((4 * 86400 + 23 * 3600) * second) (Some (fixed_zone 0))"
    unfolding schedule_active_window [OF s(1) constant_offset_fixed_zone]
    by (intro exI [of _ 4] exI [of _ "''Fri''"] exI [of _ "{5}"])
      (simp add: window_def s second_def)
  with s show ?thesis by blast
qed

text \<open>When the groups compile, there is exactly one compiled group per configured name, the
  default group among them; each has the base lists, the allowlist set and the schedules of a
  configured group of that name, in order, and no schedule is empty or out of range.\<close>

theorem compile_groups_correct:
  assumes "compile_groups G raws = Inr gs"
  shows "alist_ok gs \<and> keys gs = gc_name ` set raws \<and> ''default'' \<in> keys gs
    \<and> (map_of gs n = Some g \<longrightarrow>
        group_ok g \<and> (\<exists>raw. raw \<in> set raws \<and> gc_name raw = n \<and> compiled_from G raw g))"
  using compile_groups_Inr(1-3) [OF assms] compile_groups_Inr(4) [OF assms, of n g]
  by (simp add: groups_ok_def) blast

definition sample_groups :: "group_config list" where
  "sample_groups = [\<lparr>gc_name = ''default'', gc_blocklists = [''ads''], gc_allowlist = [''ok.com''],
     gc_schedules = [night]\<rparr>]"

theorem compile_groups_correct_witness:
  "\<exists>gs g. compile_groups ascii_lib sample_groups = Inr gs \<and> map_of gs ''default'' = Some g \<and> group_ok g
     \<and> pg_base_lists g = [''ads'']"
proof -
  have "case compile_groups ascii_lib sample_groups of Inr gs \<Rightarrow> True | Inl _ \<Rightarrow> False"
    by code_simp
  then obtain gs where gs: "compile_groups ascii_lib sample_groups = Inr gs"
    by (auto split: sum.splits)
  have "map_of gs ''default'' \<noteq> None"
    using compile_groups_correct [OF gs] keys_iff_map_of by metis
  then obtain g where g: "map_of gs ''default'' = Some g" by blast
  with compile_groups_correct [OF gs, where n = "''default''" and g = g] show ?thesis
    using gs by (auto simp: sample_groups_def compiled_from_def)
qed

text \<open>Every clock reading of a day survives being written as HH:MM and parsed, and whatever
  parses is a minute of the day.\<close>

theorem clock_roundtrip:
  assumes "0 \<le> m" "m < 1440"
  shows "parse_clock (show_clock m) = Some m \<and> (parse_clock s = Some k \<longrightarrow> 0 \<le> k \<and> k < 1440)"
  using parse_show_clock [OF assms] parse_clock_range [of s k] by blast

theorem clock_roundtrip_witness:
  "parse_clock (show_clock 1439) = Some 1439 \<and> show_clock 1439 = ''23:59''"
  using clock_roundtrip [of 1439 "[]" 0] by (simp add: conjI) code_simp

end
