(* ===== verification/Policy_Engine.thy ===== *)
theory Policy_Engine
  imports Policy_Groups
begin

text \<open>
  \<open>internal/policy/engine.go\<close> and \<open>store_resolver.go\<close>: the policy engine, its snapshots and the
  evaluation of a query.  The methods run under the engine's lock, so each is one step on the
  engine's state.  A snapshot holds the values its engine had: the maps and tries an engine
  method changes are copies, and \<open>Clone\<close> is the identity on values.

  The resolver of client groups reads the client store and is an argument of \<open>engine_for\<close>.
\<close>

record policy_engine =
  pe_groups :: "(string, policy_group) alist"
  pe_lists :: "(string, domains) alist"
  pe_custom :: domains
  pe_allowlist :: domains
  pe_custom_allow :: domains
  pe_tz :: location

record decision =
  dc_blocked :: bool
  dc_reason :: string
  dc_list :: string

record policy =
  po_group :: "policy_group option"
  po_lists :: "(string, domains) alist"
  po_custom :: domains
  po_allowlist :: domains
  po_custom_allow :: domains
  po_tz :: location

record identity =
  id_key :: string
  id_type :: string
  id_ip :: string

section \<open>Client resolvers\<close>

definition static_group_of :: "(string, string) alist \<Rightarrow> string \<Rightarrow> string" where
  "static_group_of r key =
     (case map_of r key of None \<Rightarrow> ''default'' | Some g \<Rightarrow> if g \<noteq> [] then g else ''default'')"

text \<open>
  \<open>StoreClientResolver\<close>: the client store's \<open>Get\<close> gives the stored group, \<open>None\<close> when it
  reports an error; there may be no store.
\<close>

definition store_group_of :: "(string \<Rightarrow> string option) option \<Rightarrow> string \<Rightarrow> string" where
  "store_group_of clients key =
     (case clients of
        None \<Rightarrow> ''default''
      | Some get \<Rightarrow>
          if key = [] then ''default''
          else (case get key of None \<Rightarrow> ''default'' | Some g \<Rightarrow> if g = [] then ''default'' else g))"

section \<open>Construction and reload\<close>

definition add_allow :: "golib \<Rightarrow> string \<Rightarrow> domains \<Rightarrow> policy_error + domains" where
  "add_allow G domain tree =
     (let (tree', added) = domains_add G domain tree in
      if \<not> added then Inl (Invalid_Domain ''allowlist.domains'' domain) else Inr tree')"

definition config_location :: "golib \<Rightarrow> string \<Rightarrow> policy_error + location" where
  "config_location G tz =
     (if tz \<noteq> [] \<and> tz \<noteq> ''Local'' then
        (case g_load_location G tz of None \<Rightarrow> Inl (Unknown_Timezone tz) | Some loc \<Rightarrow> Inr loc)
      else Inr (g_local G))"

definition new_engine :: "golib \<Rightarrow> config option \<Rightarrow> policy_error + policy_engine" where
  "new_engine G c =
     (case c of
        None \<Rightarrow> Inl Config_Required
      | Some c \<Rightarrow>
          (case compile_groups G (c_groups c) of
             Inl e \<Rightarrow> Inl e
           | Inr groups \<Rightarrow>
               (case fold_result (add_allow G) (al_domains (c_allowlist c)) empty_domains of
                  Inl e \<Rightarrow> Inl e
                | Inr allow \<Rightarrow>
                    (case config_location G (sv_tz (c_server c)) of
                       Inl e \<Rightarrow> Inl e
                     | Inr tz \<Rightarrow>
                         Inr \<lparr>pe_groups = groups, pe_lists = [], pe_custom = empty_domains,
                              pe_allowlist = allow, pe_custom_allow = empty_domains, pe_tz = tz\<rparr>))))"

definition enabled_ids :: "config \<Rightarrow> string list" where
  "enabled_ids c = map bl_id (filter bl_enabled (c_blocklists c))"

definition remove_disabled_lists :: "config \<Rightarrow> policy_engine \<Rightarrow> policy_engine" where
  "remove_disabled_lists c e =
     e\<lparr>pe_lists := fold (\<lambda>i lists. if i \<notin> set (enabled_ids c) then AList.delete i lists else lists)
                     (map fst (pe_lists e)) (pe_lists e)\<rparr>"

text \<open>\<open>ReloadConfig\<close>: the engine after the call and the error, if any.\<close>

definition reload_config ::
  "golib \<Rightarrow> config option \<Rightarrow> policy_engine \<Rightarrow> policy_engine \<times> policy_error option" where
  "reload_config G c e =
     (case c of
        None \<Rightarrow> (e, Some Config_Required)
      | Some c \<Rightarrow>
          (case compile_groups G (c_groups c) of
             Inl err \<Rightarrow> (e, Some err)
           | Inr groups \<Rightarrow>
               (case fold_result (add_allow G) (al_domains (c_allowlist c)) empty_domains of
                  Inl err \<Rightarrow> (e, Some err)
                | Inr allow \<Rightarrow>
                    (case config_location G (sv_tz (c_server c)) of
                       Inl err \<Rightarrow> (e, Some err)
                     | Inr tz \<Rightarrow>
                         (remove_disabled_lists c
                            (e\<lparr>pe_groups := groups, pe_allowlist := allow, pe_tz := tz\<rparr>), None)))))"

section \<open>Runtime changes\<close>

definition replace_list :: "string \<Rightarrow> domains option \<Rightarrow> policy_engine \<Rightarrow> policy_engine" where
  "replace_list i domains e =
     (case domains of
        None \<Rightarrow> e\<lparr>pe_lists := AList.delete i (pe_lists e)\<rparr>
      | Some d \<Rightarrow> e\<lparr>pe_lists := AList.update i d (pe_lists e)\<rparr>)"

definition list_entries ::
  "golib \<Rightarrow> string \<Rightarrow> string \<Rightarrow> int \<Rightarrow> policy_engine option \<Rightarrow> string list option" where
  "list_entries G i query limit e =
     (case e of
        None \<Rightarrow> None
      | Some e \<Rightarrow>
          (case map_of (pe_lists e) i of
             None \<Rightarrow> None
           | Some d \<Rightarrow> Some (domains_entries G query limit (Some d))))"

definition add_custom_block :: "golib \<Rightarrow> string \<Rightarrow> policy_engine \<Rightarrow> policy_engine \<times> bool" where
  "add_custom_block G domain e =
     (let (custom, added) = domains_add G domain (domains_clone (Some (pe_custom e))) in
      if \<not> added then (e, False) else (e\<lparr>pe_custom := custom\<rparr>, True))"

definition remove_custom_block :: "golib \<Rightarrow> string \<Rightarrow> policy_engine \<Rightarrow> policy_engine" where
  "remove_custom_block G domain e =
     (let (custom, deleted) = domains_delete G domain (domains_clone (Some (pe_custom e))) in
      if deleted then e\<lparr>pe_custom := custom\<rparr> else e)"

definition add_custom_allow :: "golib \<Rightarrow> string \<Rightarrow> policy_engine \<Rightarrow> policy_engine \<times> bool" where
  "add_custom_allow G domain e =
     (let (allow, added) = domains_add G domain (domains_clone (Some (pe_custom_allow e))) in
      if \<not> added then (e, False) else (e\<lparr>pe_custom_allow := allow\<rparr>, True))"

definition remove_custom_allow :: "golib \<Rightarrow> string \<Rightarrow> policy_engine \<Rightarrow> policy_engine" where
  "remove_custom_allow G domain e =
     (let (allow, deleted) = domains_delete G domain (domains_clone (Some (pe_custom_allow e))) in
      if deleted then e\<lparr>pe_custom_allow := allow\<rparr> else e)"

section \<open>Evaluation\<close>

definition engine_for :: "(string \<Rightarrow> string) \<Rightarrow> identity \<Rightarrow> policy_engine \<Rightarrow> policy" where
  "engine_for group_of ident e =
     (let resolved = group_of (id_key ident);
          name = (if resolved \<noteq> [] then resolved else ''default'');
          grp = (case map_of (pe_groups e) name of
                   None \<Rightarrow> map_of (pe_groups e) ''default'' | Some g \<Rightarrow> Some g)
      in \<lparr>po_group = grp, po_lists = pe_lists e, po_custom = pe_custom e,
          po_allowlist = pe_allowlist e, po_custom_allow = pe_custom_allow e, po_tz = pe_tz e\<rparr>)"

definition no_decision :: decision where
  "no_decision = \<lparr>dc_blocked = False, dc_reason = [], dc_list = []\<rparr>"

definition match_list :: "golib \<Rightarrow> policy \<Rightarrow> string \<Rightarrow> string \<Rightarrow> bool" where
  "match_list G p i qname =
     (case map_of (po_lists p) i of None \<Rightarrow> False | Some d \<Rightarrow> domains_match G qname d)"

fun eval_base :: "golib \<Rightarrow> policy \<Rightarrow> string \<Rightarrow> string list \<Rightarrow> decision option" where
  "eval_base G p q [] = None"
| "eval_base G p q (i # is) =
     (if match_list G p i q
      then Some \<lparr>dc_blocked = True, dc_reason = ''blocklist:'' @ i, dc_list = i\<rparr>
      else eval_base G p q is)"

fun eval_schedule_lists :: "golib \<Rightarrow> policy \<Rightarrow> string \<Rightarrow> string \<Rightarrow> string list \<Rightarrow> decision option" where
  "eval_schedule_lists G p q name [] = None"
| "eval_schedule_lists G p q name (i # is) =
     (if match_list G p i q
      then Some \<lparr>dc_blocked = True, dc_reason = ''schedule:'' @ name, dc_list = i\<rparr>
      else eval_schedule_lists G p q name is)"

fun eval_schedules ::
  "golib \<Rightarrow> policy \<Rightarrow> string \<Rightarrow> gotime \<Rightarrow> compiled_schedule list \<Rightarrow> decision option" where
  "eval_schedules G p q now [] = None"
| "eval_schedules G p q now (s # ss) =
     (if \<not> active_at G s now (Some (po_tz p)) then eval_schedules G p q now ss
      else (case eval_schedule_lists G p q (cs_name s) (cs_block s) of
              Some d \<Rightarrow> Some d
            | None \<Rightarrow> eval_schedules G p q now ss))"

definition evaluate :: "golib \<Rightarrow> policy option \<Rightarrow> string \<Rightarrow> gotime \<Rightarrow> decision" where
  "evaluate G p qname now =
     (case p of
        None \<Rightarrow> no_decision
      | Some p \<Rightarrow>
          (case po_group p of
             None \<Rightarrow> no_decision
           | Some g \<Rightarrow>
               if domains_match G qname (po_allowlist p) \<or> domains_match G qname (po_custom_allow p)
                  \<or> domains_match G qname (pg_allow g) then no_decision
               else (case eval_base G p qname (pg_base_lists g) of
                       Some d \<Rightarrow> d
                     | None \<Rightarrow>
                         (case eval_schedules G p qname now (pg_schedules g) of
                            Some d \<Rightarrow> d
                          | None \<Rightarrow>
                              if domains_match G qname (po_custom p)
                              then \<lparr>dc_blocked = True, dc_reason = ''blocklist:custom'',
                                    dc_list = ''custom''\<rparr>
                              else no_decision))))"

section \<open>Specification: an ordered list of blocking sources\<close>

text \<open>Each source is the reason it gives, the list it names and the set it tests.\<close>

definition allowed :: "golib \<Rightarrow> policy \<Rightarrow> policy_group \<Rightarrow> string \<Rightarrow> bool" where
  "allowed G p g q \<longleftrightarrow>
     domains_match G q (po_allowlist p) \<or> domains_match G q (po_custom_allow p)
     \<or> domains_match G q (pg_allow g)"

definition sources :: "golib \<Rightarrow> policy \<Rightarrow> policy_group \<Rightarrow> gotime \<Rightarrow> (string \<times> string \<times> domains) list" where
  "sources G p g now =
     List.map_filter (\<lambda>i. map_option (\<lambda>d. (''blocklist:'' @ i, i, d)) (map_of (po_lists p) i))
       (pg_base_lists g)
     @ concat (map (\<lambda>s. List.map_filter
                 (\<lambda>i. map_option (\<lambda>d. (''schedule:'' @ cs_name s, i, d)) (map_of (po_lists p) i))
                 (cs_block s))
               (filter (\<lambda>s. active_at G s now (Some (po_tz p))) (pg_schedules g)))
     @ [(''blocklist:custom'', ''custom'', po_custom p)]"

definition block_by :: "string \<times> string \<times> domains \<Rightarrow> decision" where
  "block_by src = (case src of (reason, i, d) \<Rightarrow> \<lparr>dc_blocked = True, dc_reason = reason, dc_list = i\<rparr>)"

abbreviation hit :: "golib \<Rightarrow> string \<Rightarrow> string \<times> string \<times> domains \<Rightarrow> bool" where
  "hit G q src \<equiv> domains_match G q (snd (snd src))"

lemma find_append: "find P (xs @ ys) = (case find P xs of None \<Rightarrow> find P ys | Some x \<Rightarrow> Some x)"
  by (induction xs) auto

lemma eval_base_find:
  "eval_base G p q is = map_option block_by (find (hit G q)
     (List.map_filter (\<lambda>i. map_option (\<lambda>d. (''blocklist:'' @ i, i, d)) (map_of (po_lists p) i)) is))"
  by (induction "is") (auto simp: match_list_def map_filter_simps block_by_def split: option.splits)

lemma eval_schedule_lists_find:
  "eval_schedule_lists G p q n is = map_option block_by (find (hit G q)
     (List.map_filter (\<lambda>i. map_option (\<lambda>d. (''schedule:'' @ n, i, d)) (map_of (po_lists p) i)) is))"
  by (induction "is") (auto simp: match_list_def map_filter_simps block_by_def split: option.splits)

lemma eval_schedules_find:
  "eval_schedules G p q now ss = map_option block_by (find (hit G q)
     (concat (map (\<lambda>s. List.map_filter
         (\<lambda>i. map_option (\<lambda>d. (''schedule:'' @ cs_name s, i, d)) (map_of (po_lists p) i)) (cs_block s))
       (filter (\<lambda>s. active_at G s now (Some (po_tz p))) ss))))"
  by (induction ss) (auto simp: eval_schedule_lists_find find_append split: option.splits)

lemma evaluate_sources:
  assumes "po_group p = Some g"
  shows "evaluate G (Some p) q now =
    (if allowed G p g q then no_decision
     else (case find (hit G q) (sources G p g now) of None \<Rightarrow> no_decision | Some s \<Rightarrow> block_by s))"
  using assms
  by (simp add: evaluate_def allowed_def eval_base_find eval_schedules_find sources_def find_append
      block_by_def split: option.splits)

lemma evaluate_allowed: "po_group p = Some g \<Longrightarrow> allowed G p g q \<Longrightarrow> evaluate G (Some p) q now = no_decision"
  by (simp add: evaluate_sources)

lemma block_by_blocked [simp]: "dc_blocked (block_by s)" "\<not> dc_blocked no_decision"
  by (simp_all add: block_by_def no_decision_def split: prod.splits)

lemma evaluate_blocked_iff:
  assumes "po_group p = Some g"
  shows "dc_blocked (evaluate G (Some p) q now) \<longleftrightarrow>
    \<not> allowed G p g q \<and> (\<exists>s \<in> set (sources G p g now). hit G q s)"
  using assms
  by (auto simp: evaluate_sources find_None_iff split: option.splits)
    (metis find_None_iff option.distinct(1))+

section \<open>Invariant of the engine\<close>

definition engine_ok :: "policy_engine \<Rightarrow> bool" where
  "engine_ok e \<longleftrightarrow>
     groups_ok (pe_groups e) \<and> ''default'' \<in> keys (pe_groups e) \<and> alist_ok (pe_lists e)
     \<and> (\<forall>d \<in> snd ` set (pe_lists e). domains_ok d)
     \<and> domains_ok (pe_custom e) \<and> domains_ok (pe_allowlist e) \<and> domains_ok (pe_custom_allow e)"

lemma domains_clone_id [simp]: "domains_clone (Some d) = d"
  by (simp add: domains_clone_def)

lemma fold_add_allow:
  "fold_result (add_allow G) xs t = Inr t' \<Longrightarrow> t' = fold (\<lambda>x d. fst (domains_add G x d)) xs t"
  by (induction xs arbitrary: t)
    (auto simp: add_allow_def case_prod_beta Let_def split: if_split_asm)

lemma new_engine_ok: "new_engine G c = Inr e \<Longrightarrow> engine_ok e"
  by (auto simp: new_engine_def engine_ok_def compile_groups_Inr(1,3) dom.ok_fold_add
      dest!: fold_add_allow split: option.splits sum.splits)

lemma fold_delete_filter:
  "fold (\<lambda>i m. if P i then AList.delete i m else m) is m = filter (\<lambda>(k, v). \<not> (P k \<and> k \<in> set is)) m"
  by (induction "is" arbitrary: m) (auto simp: AList.delete_eq filter_filter intro!: filter_cong)

lemma remove_disabled_filter:
  "pe_lists (remove_disabled_lists c e) =
     filter (\<lambda>(i, d). i \<in> set (enabled_ids c)) (pe_lists e)"
  by (auto simp: remove_disabled_lists_def fold_delete_filter intro!: filter_cong) force

lemma remove_disabled_frame [frame_simps, simp]:
  "pe_groups (remove_disabled_lists c e) = pe_groups e"
  "pe_custom (remove_disabled_lists c e) = pe_custom e"
  "pe_allowlist (remove_disabled_lists c e) = pe_allowlist e"
  "pe_custom_allow (remove_disabled_lists c e) = pe_custom_allow e"
  "pe_tz (remove_disabled_lists c e) = pe_tz e"
  by (simp_all add: remove_disabled_lists_def)

lemma reload_config_ok [inv_intro]: "engine_ok e \<Longrightarrow> engine_ok (fst (reload_config G c e))"
  by (auto simp: reload_config_def engine_ok_def compile_groups_Inr(1,3) dom.ok_fold_add
      remove_disabled_filter dest!: fold_add_allow split: option.splits sum.splits)

lemma replace_list_ok [inv_intro]:
  assumes "engine_ok e" "\<And>d. od = Some d \<Longrightarrow> domains_ok d"
  shows "engine_ok (replace_list i od e)"
proof (cases od)
  case None
  have "set (AList.delete i (pe_lists e)) \<subseteq> set (pe_lists e)" by (auto simp: AList.delete_eq)
  with None assms show ?thesis by (auto simp: engine_ok_def replace_list_def)
next
  case (Some d)
  with assms show ?thesis
    by (fastforce simp: engine_ok_def replace_list_def dest: in_set_update)
qed

lemma custom_ok [inv_intro]:
  assumes "engine_ok e"
  shows "engine_ok (fst (add_custom_block G x e))" "engine_ok (remove_custom_block G x e)"
    "engine_ok (fst (add_custom_allow G x e))" "engine_ok (remove_custom_allow G x e)"
  using assms domains_ok_add [of "pe_custom e" G x] domains_ok_delete [of "pe_custom e" G x]
    domains_ok_add [of "pe_custom_allow e" G x] domains_ok_delete [of "pe_custom_allow e" G x]
  by (auto simp: engine_ok_def add_custom_block_def remove_custom_block_def add_custom_allow_def
      remove_custom_allow_def Let_def split: prod.splits)

lemma engine_for_group:
  assumes "engine_ok e"
  obtains g where "po_group (engine_for group_of ident e) = Some g"
proof -
  obtain d where "map_of (pe_groups e) ''default'' = Some d"
    using assms by (auto simp: engine_ok_def keys_iff_map_of simp del: not_None_eq)
  then have "po_group (engine_for group_of ident e) \<noteq> None"
    by (simp add: engine_for_def Let_def split: option.splits)
  then show thesis using that by blast
qed

section \<open>Reachable engines\<close>

text \<open>One method call on the engine.  Installed lists are the parser's output, which is well formed.\<close>

inductive engine_step :: "golib \<Rightarrow> policy_engine \<Rightarrow> policy_engine \<Rightarrow> bool" for G :: golib where
  step_replace: "(\<forall>d. od = Some d \<longrightarrow> domains_ok d) \<Longrightarrow> engine_step G e (replace_list i od e)"
| step_block: "engine_step G e (fst (add_custom_block G x e))"
| step_unblock: "engine_step G e (remove_custom_block G x e)"
| step_allow: "engine_step G e (fst (add_custom_allow G x e))"
| step_unallow: "engine_step G e (remove_custom_allow G x e)"
| step_reload: "engine_step G e (fst (reload_config G c e))"

inductive engine_reach :: "golib \<Rightarrow> policy_engine \<Rightarrow> bool" for G :: golib where
  reach_new: "new_engine G c = Inr e \<Longrightarrow> engine_reach G e"
| reach_step: "engine_reach G e \<Longrightarrow> engine_step G e e' \<Longrightarrow> engine_reach G e'"

inductive_cases engine_step_elim: "engine_step G e e'"

lemma engine_step_ok: "engine_step G e e' \<Longrightarrow> engine_ok e \<Longrightarrow> engine_ok e'"
  by (erule engine_step_elim) (auto intro: inv_intro)

lemma engine_reach_ok: "engine_reach G e \<Longrightarrow> engine_ok e"
  by (induction rule: engine_reach.induct) (auto intro: new_engine_ok engine_step_ok)

lemma custom_match:
  "domains_match G q (pe_custom (fst (add_custom_block G x e))) \<longleftrightarrow>
     domains_match G q (pe_custom e) \<or> covers (labels_for G) x q"
  "domains_match G q (pe_custom_allow (fst (add_custom_allow G x e))) \<longleftrightarrow>
     domains_match G q (pe_custom_allow e) \<or> covers (labels_for G) x q"
  if "engine_ok e"
proof -
  have ok: "domains_ok (pe_custom e)" "domains_ok (pe_custom_allow e)"
    using that by (simp_all add: engine_ok_def)
  have blk: "domains_match G q (if snd (domains_add G x d) then fst (domains_add G x d) else d) \<longleftrightarrow>
      domains_match G q (fst (domains_add G x d))" for d :: domains
  proof (cases "snd (domains_add G x d)")
    case False
    then have "stored (fst (domains_add G x d)) = stored d"
      by (auto simp: stored_add domains_added_iff split: option.splits)
    with False show ?thesis by (simp add: domains_match_iff)
  qed simp
  show "domains_match G q (pe_custom (fst (add_custom_block G x e))) \<longleftrightarrow>
     domains_match G q (pe_custom e) \<or> covers (labels_for G) x q"
    using blk [of "pe_custom e"] dom.matches_add [OF ok(1), of G q x]
    by (auto simp: add_custom_block_def case_prod_beta Let_def split: if_splits)
  show "domains_match G q (pe_custom_allow (fst (add_custom_allow G x e))) \<longleftrightarrow>
     domains_match G q (pe_custom_allow e) \<or> covers (labels_for G) x q"
    using blk [of "pe_custom_allow e"] dom.matches_add [OF ok(2), of G q x]
    by (auto simp: add_custom_allow_def case_prod_beta Let_def split: if_splits)
qed

lemma reload_success:
  assumes "reload_config G c e = (e', None)"
  obtains c' where "c = Some c'"
    "pe_lists e' = filter (\<lambda>(i, d). i \<in> set (enabled_ids c')) (pe_lists e)"
    "pe_custom e' = pe_custom e" "pe_custom_allow e' = pe_custom_allow e"
    "compile_groups G (c_groups c') = Inr (pe_groups e')"
    "pe_allowlist e' = fold (\<lambda>x d. fst (domains_add G x d)) (al_domains (c_allowlist c')) empty_domains"
  using assms
  by (auto simp: reload_config_def remove_disabled_filter dest!: fold_add_allow
      split: option.splits sum.splits)

lemma reload_error: "reload_config G c e = (e', Some err) \<Longrightarrow> e' = e"
  by (auto simp: reload_config_def split: option.splits sum.splits)

section \<open>Properties\<close>

text \<open>C1: On every engine reachable from a successful construction by any sequence of reloads, list
  swaps and runtime changes, a client always gets a group, and the verdict on a query is: not
  blocked when one of the three allowlists covers it, otherwise the verdict of the first source
  that covers it in the order base lists, lists of the active schedules, custom blocks.\<close>

theorem policy_verdict_spec:
  assumes "engine_reach G e"
  shows "\<exists>g. po_group (engine_for group_of ident e) = Some g \<and>
    evaluate G (Some (engine_for group_of ident e)) q now =
      (if allowed G (engine_for group_of ident e) g q then no_decision
       else (case find (hit G q) (sources G (engine_for group_of ident e) g now) of
               None \<Rightarrow> no_decision | Some s \<Rightarrow> block_by s))"
proof -
  obtain g where "po_group (engine_for group_of ident e) = Some g"
    using engine_for_group [OF engine_reach_ok [OF assms]] .
  then show ?thesis using evaluate_sources by blast
qed

definition sample_config :: config where
  "sample_config = zero_config\<lparr>c_groups := sample_groups,
     c_blocklists := [\<lparr>bl_id = ''ads'', bl_name = ''Ads'', bl_url = ''https://lists.example/ads'',
                      bl_enabled = True, bl_refresh_interval = 0\<rparr>]\<rparr>"

definition sample_engine :: policy_engine where
  "sample_engine = (case new_engine ascii_lib (Some sample_config) of
     Inr e \<Rightarrow> replace_list ''ads'' (Some (fst (domains_add ascii_lib ''ads.com'' empty_domains))) e
   | Inl _ \<Rightarrow> undefined)"

lemma sample_engine_reach: "engine_reach ascii_lib sample_engine"
proof -
  have "case new_engine ascii_lib (Some sample_config) of Inr e \<Rightarrow> True | Inl _ \<Rightarrow> False"
    by code_simp
  then obtain e where e: "new_engine ascii_lib (Some sample_config) = Inr e"
    by (cases "new_engine ascii_lib (Some sample_config)") auto
  then show ?thesis
    by (auto simp: sample_engine_def intro!: reach_step [OF reach_new [OF e]] step_replace inv_intro)
qed

definition anyone :: identity where
  "anyone = \<lparr>id_key = ''10.0.0.7'', id_type = ''ip'', id_ip = ''10.0.0.7''\<rparr>"

theorem policy_verdict_spec_witness:
  "dc_reason (evaluate ascii_lib (Some (engine_for (static_group_of []) anyone sample_engine))
     ''x.ads.com'' 0) = ''blocklist:ads''
   \<and> (\<exists>g. po_group (engine_for (static_group_of []) anyone sample_engine) = Some g)"
proof -
  have "dc_reason (evaluate ascii_lib (Some (engine_for (static_group_of []) anyone sample_engine))
     ''x.ads.com'' 0) = ''blocklist:ads''" by code_simp
  with policy_verdict_spec [OF sample_engine_reach] show ?thesis by blast
qed

text \<open>Adding a domain to the runtime allowlist makes the verdict on it and on every name below
  it "not blocked", for every client, at every time, whatever else blocks it.\<close>

theorem custom_allow_wins:
  assumes "engine_reach G e" "covers (labels_for G) x q"
  shows "evaluate G (Some (engine_for group_of ident (fst (add_custom_allow G x e)))) q now = no_decision"
proof -
  let ?e = "fst (add_custom_allow G x e)"
  have ok: "engine_ok e" "engine_ok ?e"
    using engine_reach_ok [OF assms(1)] by (auto intro: inv_intro)
  obtain g where g: "po_group (engine_for group_of ident ?e) = Some g" using engine_for_group [OF ok(2)] .
  have "domains_match G q (po_custom_allow (engine_for group_of ident ?e))"
    using custom_match(2) [OF ok(1), of G q x] assms(2) by (simp add: engine_for_def Let_def)
  then show ?thesis by (intro evaluate_allowed [OF g]) (simp add: allowed_def)
qed

theorem custom_allow_wins_witness:
  "evaluate ascii_lib (Some (engine_for (static_group_of []) anyone
     (fst (add_custom_allow ascii_lib ''*.ads.com'' sample_engine)))) ''x.ads.com'' 0 = no_decision"
proof (rule custom_allow_wins [OF sample_engine_reach])
  have "labels_for ascii_lib ''*.ads.com'' = Some [''com'', ''ads'']"
    "labels_for ascii_lib ''x.ads.com'' = Some [''com'', ''ads'', ''x'']" by code_simp+
  then show "covers (labels_for ascii_lib) ''*.ads.com'' ''x.ads.com''" by (simp add: covers_def)
qed

text \<open>A name the runtime blocklist covers is blocked unless an allowlist of the client covers it.\<close>

lemma custom_hit_verdict:
  assumes "domains_match G q (pe_custom e)" "po_group (engine_for group_of ident e) = Some g"
    and "\<not> allowed G (engine_for group_of ident e) g q"
  shows "dc_blocked (evaluate G (Some (engine_for group_of ident e)) q now)"
proof -
  have "domains_match G q (po_custom (engine_for group_of ident e))"
    using assms(1) by (simp add: engine_for_def Let_def)
  then have "\<exists>s \<in> set (sources G (engine_for group_of ident e) g now). hit G q s"
    by (auto simp: sources_def)
  with assms(3) show ?thesis by (simp add: evaluate_blocked_iff [OF assms(2)])
qed

lemma custom_block_verdict:
  assumes "engine_reach G e" "covers (labels_for G) x q"
    and "po_group (engine_for group_of ident e) = Some g"
    and "\<not> allowed G (engine_for group_of ident e) g q"
  shows "dc_blocked (evaluate G (Some (engine_for group_of ident (fst (add_custom_block G x e)))) q now)"
proof -
  let ?e = "fst (add_custom_block G x e)"
  have ok: "engine_ok e" using assms(1) by (rule engine_reach_ok)
  have same: "pe_groups ?e = pe_groups e" "pe_allowlist ?e = pe_allowlist e"
    "pe_custom_allow ?e = pe_custom_allow e"
    by (simp_all add: add_custom_block_def case_prod_beta Let_def)
  have g: "po_group (engine_for group_of ident ?e) = Some g"
    "\<not> allowed G (engine_for group_of ident ?e) g q"
    using assms(3,4) unfolding engine_for_def allowed_def Let_def same by simp_all
  have "domains_match G q (pe_custom ?e)" using custom_match(1) [OF ok, of G q x] assms(2) by simp
  then show ?thesis using g by (rule custom_hit_verdict)
qed

text \<open>After a domain is added to the runtime blocklist, a name it covers is blocked for a client
  unless one of the client's allowlists covers that name.\<close>

theorem custom_block_effective:
  assumes "engine_reach G e" "covers (labels_for G) x q"
    and "po_group (engine_for group_of ident e) = Some g"
    and "\<not> allowed G (engine_for group_of ident e) g q"
  shows "dc_blocked (evaluate G (Some (engine_for group_of ident (fst (add_custom_block G x e)))) q now)"
  using assms by (rule custom_block_verdict)

theorem custom_block_effective_witness:
  "dc_blocked (evaluate ascii_lib (Some (engine_for (static_group_of []) anyone
     (fst (add_custom_block ascii_lib ''b.org'' sample_engine)))) ''x.b.org'' 0)"
proof -
  obtain g where g: "po_group (engine_for (static_group_of []) anyone sample_engine) = Some g"
    using engine_for_group [OF engine_reach_ok [OF sample_engine_reach]] .
  have "case po_group (engine_for (static_group_of []) anyone sample_engine) of None \<Rightarrow> False
    | Some g \<Rightarrow> \<not> domains_match ascii_lib ''x.b.org'' (pg_allow g)" by code_simp
  moreover have "\<not> domains_match ascii_lib ''x.b.org'' (po_allowlist (engine_for (static_group_of []) anyone sample_engine))"
    "\<not> domains_match ascii_lib ''x.b.org'' (po_custom_allow (engine_for (static_group_of []) anyone sample_engine))"
    by code_simp+
  ultimately have na: "\<not> allowed ascii_lib (engine_for (static_group_of []) anyone sample_engine) g ''x.b.org''"
    by (simp add: allowed_def g)
  have "labels_for ascii_lib ''b.org'' = Some [''org'', ''b'']"
    "labels_for ascii_lib ''x.b.org'' = Some [''org'', ''b'', ''x'']" by code_simp+
  then have "covers (labels_for ascii_lib) ''b.org'' ''x.b.org''" by (simp add: covers_def)
  from custom_block_effective [OF sample_engine_reach this g na] show ?thesis .
qed


end
