(* ===== verification/Blocklist_Sync.thy ===== *)
theory Blocklist_Sync
  imports Blocklist_Fetcher Policy_Engine
begin

text \<open>
  \<open>internal/policy/sync.go\<close>: the worker that refreshes the enabled blocklists and swaps them into
  the policy engine.  The state is the engine, the cache directory, the times of the last
  successful runs and the audit events written.  The outside answers the n-th fetch with
  \<open>io n\<close>.  One tick of the worker is \<open>sync_due\<close>, with the time the tick reads.
\<close>

datatype sync_error =
    Not_Configured
  | Disabled_List string
  | Unknown_List string
  | Fetch_Failed string

record syncer =
  sy_engine :: policy_engine
  sy_cache :: cache_dir
  sy_last_run :: "(string, gotime) alist"
  sy_audit :: "(string \<times> string) list"
  sy_fetches :: nat

definition new_syncer :: "policy_engine \<Rightarrow> cache_dir \<Rightarrow> syncer" where
  "new_syncer e d = \<lparr>sy_engine = e, sy_cache = d, sy_last_run = [], sy_audit = [], sy_fetches = 0\<rparr>"

definition sync_one ::
  "golib \<Rightarrow> (nat \<Rightarrow> fetch_io) \<Rightarrow> blocklist \<Rightarrow> syncer \<Rightarrow> syncer \<times> (sync_error + fetch_result)" where
  "sync_one G io l s =
     (let n = sy_fetches s;
          (cache, result) = fetch G (io n) (bl_id l) (bl_url l) (sy_cache s);
          s = s\<lparr>sy_cache := cache, sy_fetches := n + 1\<rparr> in
      case result of
        Inl e \<Rightarrow>
          (s\<lparr>sy_audit := sy_audit s @ [(''blocklist.sync.failure'', bl_id l)]\<rparr>, Inl (Fetch_Failed e))
      | Inr r \<Rightarrow>
          (s\<lparr>sy_engine := replace_list (bl_id l) (Some (fr_domains r)) (sy_engine s),
             sy_last_run := AList.update (bl_id l) (fi_now (io n)) (sy_last_run s),
             sy_audit := sy_audit s @ [(''blocklist.sync.success'', bl_id l)]\<rparr>, Inr r))"

definition refresh_interval :: "blocklist \<Rightarrow> duration" where
  "refresh_interval l =
     (if bl_refresh_interval l \<le> 0 then 24 * hour else bl_refresh_interval l)"

definition list_due :: "bool \<Rightarrow> gotime \<Rightarrow> (string, gotime) alist \<Rightarrow> blocklist \<Rightarrow> bool" where
  "list_due initial now last_run l =
     (let last = (case map_of last_run (bl_id l) of None \<Rightarrow> 0 | Some t \<Rightarrow> t)
      in initial \<or> time_is_zero last \<or> refresh_interval l \<le> time_sub now last)"

definition sync_step ::
  "golib \<Rightarrow> (nat \<Rightarrow> fetch_io) \<Rightarrow> bool \<Rightarrow> gotime \<Rightarrow> blocklist \<Rightarrow> syncer \<Rightarrow> syncer" where
  "sync_step G io initial now l s =
     (if \<not> bl_enabled l then s
      else if \<not> list_due initial now (sy_last_run s) l then s
      else fst (sync_one G io l s))"

definition sync_due ::
  "golib \<Rightarrow> (nat \<Rightarrow> fetch_io) \<Rightarrow> config option \<Rightarrow> bool \<Rightarrow> gotime \<Rightarrow> syncer \<Rightarrow> syncer" where
  "sync_due G io cfg initial now s =
     (case cfg of None \<Rightarrow> s | Some c \<Rightarrow> fold (sync_step G io initial now) (c_blocklists c) s)"

definition force_sync ::
  "golib \<Rightarrow> (nat \<Rightarrow> fetch_io) \<Rightarrow> config option \<Rightarrow> string \<Rightarrow> syncer
     \<Rightarrow> syncer \<times> (sync_error + fetch_result)" where
  "force_sync G io cfg i s =
     (case cfg of
        None \<Rightarrow> (s, Inl Not_Configured)
      | Some c \<Rightarrow>
          (case find (\<lambda>l. bl_id l = i) (c_blocklists c) of
             None \<Rightarrow> (s, Inl (Unknown_List i))
           | Some l \<Rightarrow>
               if \<not> bl_enabled l then (s, Inl (Disabled_List i)) else sync_one G io l s))"

text \<open>\<open>Run\<close>: the initial pass, then one pass per tick, each with the configuration then active.\<close>

definition sync_run ::
  "golib \<Rightarrow> (nat \<Rightarrow> fetch_io) \<Rightarrow> config option \<times> gotime \<Rightarrow> (config option \<times> gotime) list \<Rightarrow> syncer \<Rightarrow> syncer"
where
  "sync_run G io start ticks s =
     fold (\<lambda>(c, now). sync_due G io c False now) ticks (sync_due G io (fst start) True (snd start) s)"

section \<open>Invariant and effect\<close>

definition syncer_ok :: "syncer \<Rightarrow> bool" where
  "syncer_ok s \<longleftrightarrow> engine_ok (sy_engine s)"

lemma sync_one_ok [inv_intro]: "syncer_ok s \<Longrightarrow> syncer_ok (fst (sync_one G io l s))"
  by (auto simp: sync_one_def syncer_ok_def Let_def intro!: replace_list_ok
      dest: fetch_domains_ok split: prod.splits sum.splits)

lemma sync_step_ok [inv_intro]: "syncer_ok s \<Longrightarrow> syncer_ok (sync_step G io initial now l s)"
  by (simp add: sync_step_def sync_one_ok)

lemma fold_sync_step_ok: "syncer_ok s \<Longrightarrow> syncer_ok (fold (sync_step G io initial now) ls s)"
  by (induction ls arbitrary: s) (simp_all add: sync_step_ok)

lemma sync_due_ok [inv_intro]: "syncer_ok s \<Longrightarrow> syncer_ok (sync_due G io c initial now s)"
  by (simp add: sync_due_def fold_sync_step_ok split: option.splits)

lemma sync_run_ok: "syncer_ok s \<Longrightarrow> syncer_ok (sync_run G io start ticks s)"
proof -
  have "syncer_ok s \<Longrightarrow> syncer_ok (fold (\<lambda>(c, now). sync_due G io c False now) ticks s)" for s
    by (induction ticks arbitrary: s) (auto intro: sync_due_ok)
  then show "syncer_ok s \<Longrightarrow> ?thesis" by (simp add: sync_run_def sync_due_ok)
qed

lemma sync_one_Inr:
  assumes "sync_one G io l s = (s', Inr r)"
  shows "map_of (pe_lists (sy_engine s')) (bl_id l) = Some (fr_domains r)"
    "map_of (sy_last_run s') (bl_id l) = Some (fi_now (io (sy_fetches s)))"
  using assms
  by (auto simp: sync_one_def Let_def replace_list_def split: prod.splits sum.splits)

lemma sync_one_Inl:
  assumes "sync_one G io l s = (s', Inl e)"
  shows "sy_engine s' = sy_engine s" "sy_last_run s' = sy_last_run s"
  using assms by (auto simp: sync_one_def Let_def split: prod.splits sum.splits)

text \<open>A list of the engine is never emptied by a pass: a failed refresh keeps what was there.\<close>

lemma sync_one_keeps:
  "map_of (pe_lists (sy_engine s)) i = Some d \<Longrightarrow>
     \<exists>d'. map_of (pe_lists (sy_engine (fst (sync_one G io l s)))) i = Some d'"
  by (auto simp: sync_one_def Let_def replace_list_def split: prod.splits sum.splits)

lemma fold_sync_keeps:
  "map_of (pe_lists (sy_engine s)) i = Some d \<Longrightarrow>
     \<exists>d'. map_of (pe_lists (sy_engine (fold (sync_step G io initial now) ls s))) i = Some d'"
proof (induction ls arbitrary: s d)
  case (Cons l ls)
  then show ?case using sync_one_keeps [of s i d G io l] by (auto simp: sync_step_def)
qed simp

lemma sync_step_other:
  "bl_id l \<noteq> i \<or> \<not> bl_enabled l \<Longrightarrow>
     map_of (pe_lists (sy_engine (sync_step G io initial now l s))) i = map_of (pe_lists (sy_engine s)) i"
  by (auto simp: sync_step_def sync_one_def Let_def replace_list_def split: prod.splits sum.splits)

section \<open>Properties\<close>

text \<open>Whatever the configurations, the clock and the answers of the network, the worker keeps the
  engine's invariant, and a pass neither drops a list the engine holds nor touches a list the
  configuration does not enable.\<close>

theorem sync_pass_safe:
  assumes "syncer_ok s" "map_of (pe_lists (sy_engine s)) i = Some d"
  shows "syncer_ok (sync_due G io (Some c) initial now s)
    \<and> (\<exists>d'. map_of (pe_lists (sy_engine (sync_due G io (Some c) initial now s))) i = Some d'
         \<and> (i \<notin> set (enabled_ids c) \<longrightarrow> d' = d))"
proof -
  let ?s = "sync_due G io (Some c) initial now s"
  have fold: "?s = fold (sync_step G io initial now) (c_blocklists c) s" by (simp add: sync_due_def)
  have other: "map_of (pe_lists (sy_engine (fold (sync_step G io initial now) ls t))) i
      = map_of (pe_lists (sy_engine t)) i"
    if "\<forall>l \<in> set ls. bl_id l \<noteq> i \<or> \<not> bl_enabled l" for ls t
    using that by (induction ls arbitrary: t) (simp_all add: sync_step_other)
  obtain d' where d': "map_of (pe_lists (sy_engine ?s)) i = Some d'"
    using fold_sync_keeps [OF assms(2)] fold by metis
  have "d' = d" if "i \<notin> set (enabled_ids c)"
  proof -
    have "\<forall>l \<in> set (c_blocklists c). bl_id l \<noteq> i \<or> \<not> bl_enabled l"
      using that by (auto simp: enabled_ids_def)
    then show ?thesis using other [of "c_blocklists c" s] d' assms(2) fold by simp
  qed
  then show ?thesis using sync_due_ok [OF assms(1)] d' by blast
qed

definition sample_syncer :: syncer where
  "sample_syncer = new_syncer sample_engine warm_cache"

theorem sync_pass_safe_witness:
  "\<exists>d. map_of (pe_lists (sy_engine (sync_due ascii_lib (\<lambda>_. offline) (Some zero_config) True 0 sample_syncer)))
     ''ads'' = Some d"
proof -
  have ok: "syncer_ok sample_syncer"
    using engine_reach_ok [OF sample_engine_reach] by (simp add: syncer_ok_def sample_syncer_def new_syncer_def)
  have "case map_of (pe_lists (sy_engine sample_syncer)) ''ads'' of Some d \<Rightarrow> True | None \<Rightarrow> False"
    by code_simp
  then obtain d where "map_of (pe_lists (sy_engine sample_syncer)) ''ads'' = Some d"
    by (cases "map_of (pe_lists (sy_engine sample_syncer)) ''ads''") auto
  from sync_pass_safe [OF ok this] show ?thesis by blast
qed

end
