(* ===== verification/Go_Float.thy ===== *)
theory Go_Float
  imports Complex_Main Go_Time
begin

text \<open>
  Go's \<open>float64\<close> for the values the program computes with: finite, and in the normal range
  of the format.  A float is the rational it denotes; each operation is the exact one
  followed by rounding to 53 significant bits, half to even (\<open>f64\<close>).  Subnormals, infinities
  and NaN are not modelled: the rate limiter and the cache compute with zero or with values
  between \<open>2 ^ -60\<close> and \<open>2 ^ 100\<close>.
\<close>

type_synonym float64 = rat

definition round_even :: "rat \<Rightarrow> int" where
  "round_even y =
     (let n = \<lfloor>y\<rfloor>; d = y - of_int n in
      if d < 1 / 2 then n else if 1 / 2 < d then n + 1 else if even n then n else n + 1)"

fun bit_length :: "nat \<Rightarrow> nat" where
  "bit_length n = (if n = 0 then 0 else Suc (bit_length (n div 2)))"

declare bit_length.simps [simp del]

text \<open>\<open>ilog2 x\<close> is the greatest \<open>k\<close> with \<open>2 ^ k \<le> x\<close>, for positive \<open>x\<close>.\<close>

definition ilog2 :: "rat \<Rightarrow> int" where
  "ilog2 x =
     (case quotient_of x of (a, b) \<Rightarrow>
        let k = int (bit_length (nat a)) - int (bit_length (nat b)) in
        if 2 powi k \<le> x then k else k - 1)"

definition f64 :: "rat \<Rightarrow> float64" where
  "f64 x =
     (if x = 0 then 0
      else let e = ilog2 \<bar>x\<bar> - 52 in of_int (round_even (x / 2 powi e)) * 2 powi e)"

definition f64_add :: "float64 \<Rightarrow> float64 \<Rightarrow> float64" where "f64_add x y = f64 (x + y)"
definition f64_sub :: "float64 \<Rightarrow> float64 \<Rightarrow> float64" where "f64_sub x y = f64 (x - y)"
definition f64_mul :: "float64 \<Rightarrow> float64 \<Rightarrow> float64" where "f64_mul x y = f64 (x * y)"
definition f64_div :: "float64 \<Rightarrow> float64 \<Rightarrow> float64" where "f64_div x y = f64 (x / y)"
definition f64_of_int :: "int \<Rightarrow> float64" where "f64_of_int n = f64 (of_int n)"

text \<open>\<open>time.Duration.Seconds\<close>: whole seconds plus nanoseconds over 1e9, both truncated.\<close>

definition duration_seconds :: "duration \<Rightarrow> float64" where
  "duration_seconds d =
     f64_add (f64_of_int (d sdiv second)) (f64_div (f64_of_int (d smod second)) (f64_of_int second))"

text \<open>Conversion of a float to \<open>uint32\<close>: truncation, reduced to 32 bits as on amd64.\<close>

definition u32_of_float :: "float64 \<Rightarrow> u32" where
  "u32_of_float x = word_of_int (if 0 \<le> x then \<lfloor>x\<rfloor> else \<lceil>x\<rceil>)"

section \<open>Rounding to the nearest integer\<close>

lemma round_even_error: "\<bar>of_int (round_even y) - y\<bar> \<le> 1 / 2"
proof -
  have "of_int \<lfloor>y\<rfloor> \<le> y" "y < of_int \<lfloor>y\<rfloor> + 1" by linarith+
  then show ?thesis by (auto simp: round_even_def Let_def abs_le_iff)
qed

lemma round_even_of_int [simp]: "round_even (of_int n) = n"
  by (simp add: round_even_def)

lemma round_even_ge: "of_int n \<le> y \<Longrightarrow> n \<le> round_even y"
proof -
  assume "of_int n \<le> y"
  then have "n \<le> \<lfloor>y\<rfloor>" by (simp add: le_floor_iff)
  then show ?thesis by (auto simp: round_even_def Let_def)
qed

lemma round_even_le:
  assumes "y \<le> of_int n"
  shows "round_even y \<le> n"
proof (cases "y = of_int n")
  case False
  with assms have "\<lfloor>y\<rfloor> < n" by (simp add: floor_less_iff)
  then show ?thesis by (auto simp: round_even_def Let_def)
qed simp

section \<open>The binary exponent\<close>

lemma bit_length_0 [simp]: "bit_length 0 = 0"
  by (simp add: bit_length.simps)

lemma bit_length_upper: "n < 2 ^ bit_length n"
proof (induction n rule: bit_length.induct)
  case (1 n)
  show ?case
  proof (cases "n = 0")
    case False
    with 1 have "n div 2 < 2 ^ bit_length (n div 2)" by simp
    then have "n < 2 * 2 ^ bit_length (n div 2)" by linarith
    with False show ?thesis by (simp add: bit_length.simps [of n])
  qed simp
qed

lemma bit_length_lower: "0 < n \<Longrightarrow> 2 ^ bit_length n \<le> 2 * n"
proof (induction n rule: bit_length.induct)
  case (1 n)
  show ?case
  proof (cases "n div 2 = 0")
    case True
    with 1 have "n = 1" by linarith
    then show ?thesis by (simp add: bit_length.simps)
  next
    case False
    with 1 have "2 ^ bit_length (n div 2) \<le> 2 * (n div 2)" by simp
    then have "2 * 2 ^ bit_length (n div 2) \<le> 2 * n" by linarith
    with 1 show ?thesis by (simp add: bit_length.simps [of n])
  qed
qed

lemma ilog2_lower:
  assumes "0 < x"
  shows "2 powi ilog2 x \<le> x"
proof -
  obtain a b where q: "quotient_of x = (a, b)" by fastforce
  then have b: "0 < b" and x: "x = of_int a / of_int b"
    using quotient_of_denom_pos quotient_of_div by blast+
  from assms b x have a: "0 < a" by (simp add: zero_less_divide_iff)
  define la lb where "la = bit_length (nat a)" and "lb = bit_length (nat b)"
  have "2 ^ la \<le> 2 * nat a" using a by (simp add: la_def bit_length_lower)
  then have la: "(2::rat) ^ la \<le> 2 * of_int a"
    using a by (metis (mono_tags) of_int_of_nat_eq of_nat_le_iff of_nat_mult of_nat_numeral
        of_nat_power nat_0_le order_less_imp_le)
  have "nat b < 2 ^ lb" by (simp add: lb_def bit_length_upper)
  then have lb: "of_int b < (2::rat) ^ lb"
    using b by (metis of_int_of_nat_eq of_nat_less_iff of_nat_numeral of_nat_power nat_0_le
        order_less_imp_le)
  have "2 powi (int la - int lb - 1) = (2::rat) ^ la / 2 ^ lb / 2"
    by (simp add: power_int_diff)
  also have "\<dots> \<le> (2 * of_int a) / 2 ^ lb / 2"
    using la by (intro divide_right_mono) simp_all
  also have "\<dots> = of_int a / 2 ^ lb"
    by simp
  also have "\<dots> \<le> of_int a / of_int b"
    using lb b a by (simp add: frac_le)
  also have "\<dots> = x" by (simp add: x)
  finally have "2 powi (int la - int lb - 1) \<le> x" .
  moreover have "ilog2 x = (if 2 powi (int la - int lb) \<le> x then int la - int lb else int la - int lb - 1)"
    by (simp add: ilog2_def q Let_def la_def lb_def)
  ultimately show ?thesis by simp
qed

section \<open>Rounding to 53 bits\<close>

definition ulp :: rat where "ulp = 1 / 2 ^ 53"

lemma f64_0 [simp]: "f64 0 = 0"
  by (simp add: f64_def)

lemma f64_error: "\<bar>f64 x - x\<bar> \<le> ulp * \<bar>x\<bar>"
proof (cases "x = 0")
  case False
  define e where "e = ilog2 \<bar>x\<bar> - 52"
  have s: "(0::rat) < 2 powi e" by simp
  have lower: "2 powi (e + 52) \<le> \<bar>x\<bar>" using False ilog2_lower [of "\<bar>x\<bar>"] by (simp add: e_def)
  have "f64 x - x = (of_int (round_even (x / 2 powi e)) - x / 2 powi e) * 2 powi e"
    using False s by (simp add: f64_def e_def [symmetric] Let_def left_diff_distrib)
  then have "\<bar>f64 x - x\<bar> = \<bar>of_int (round_even (x / 2 powi e)) - x / 2 powi e\<bar> * 2 powi e"
    using s by (simp add: abs_mult)
  also have "\<dots> \<le> 1 / 2 * 2 powi e"
    by (rule mult_right_mono [OF round_even_error]) (use s in simp)
  also have "\<dots> = ulp * 2 powi (e + 52)"
    by (simp add: ulp_def power_int_add)
  also have "\<dots> \<le> ulp * \<bar>x\<bar>"
    using lower by (simp add: ulp_def)
  finally show ?thesis .
qed simp

lemma f64_exponent: "0 < x \<Longrightarrow> x < 2 ^ 53 \<Longrightarrow> ilog2 x - 52 \<le> 0"
proof (rule ccontr)
  assume x: "0 < x" "x < 2 ^ 53" and "\<not> ilog2 x - 52 \<le> 0"
  then have "(2::rat) powi 53 \<le> 2 powi ilog2 x" by (intro power_int_increasing) auto
  with ilog2_lower [OF x(1)] have "2 powi 53 \<le> x" by linarith
  with x(2) show False by simp
qed

text \<open>Integers below \<open>2 ^ 53\<close> are on the grid, so rounding cannot cross one.\<close>

lemma of_int_on_grid:
  assumes "e \<le> 0"
  shows "of_int n / 2 powi e = (of_int (n * 2 ^ nat (- e)) :: rat)"
proof -
  have "(2::rat) powi (- e) = 2 ^ nat (- e)"
    using assms by (metis neg_0_le_iff_le nat_0_le power_int_of_nat)
  moreover have "of_int n / (2::rat) powi e = of_int n * 2 powi (- e)"
    by (simp add: power_int_minus divide_inverse)
  ultimately show ?thesis by simp
qed

lemma f64_ge_int:
  assumes "0 \<le> x" "x < 2 ^ 53" "of_int n \<le> x"
  shows "of_int n \<le> f64 x"
proof (cases "x = 0")
  case False
  define e where "e = ilog2 x - 52"
  have e: "e \<le> 0" using False assms f64_exponent [of x] by (simp add: e_def)
  have s: "(0::rat) < 2 powi e" by simp
  have "of_int n / 2 powi e \<le> x / 2 powi e" using assms(3) s by (simp add: divide_right_mono)
  then have "n * 2 ^ nat (- e) \<le> round_even (x / 2 powi e)"
    by (intro round_even_ge) (simp only: of_int_on_grid [OF e])
  then have "of_int n / 2 powi e \<le> (of_int (round_even (x / 2 powi e)) :: rat)"
    unfolding of_int_on_grid [OF e] by (simp only: of_int_le_iff)
  then have "of_int n \<le> of_int (round_even (x / 2 powi e)) * (2::rat) powi e"
    using s by (simp add: divide_le_eq)
  then show ?thesis
    using False assms(1) by (simp add: f64_def e_def [symmetric] Let_def)
qed (use assms in simp)

lemma f64_le_int:
  assumes "0 \<le> x" "x < 2 ^ 53" "x \<le> of_int n"
  shows "f64 x \<le> of_int n"
proof (cases "x = 0")
  case False
  define e where "e = ilog2 x - 52"
  have e: "e \<le> 0" using False assms f64_exponent [of x] by (simp add: e_def)
  have s: "(0::rat) < 2 powi e" by simp
  have "x / 2 powi e \<le> of_int n / 2 powi e" using assms(3) s by (simp add: divide_right_mono)
  then have "round_even (x / 2 powi e) \<le> n * 2 ^ nat (- e)"
    by (intro round_even_le) (simp only: of_int_on_grid [OF e])
  then have "of_int (round_even (x / 2 powi e)) \<le> (of_int n / 2 powi e :: rat)"
    unfolding of_int_on_grid [OF e] by (simp only: of_int_le_iff)
  then have "of_int (round_even (x / 2 powi e)) * (2::rat) powi e \<le> of_int n"
    using s by (simp add: le_divide_eq)
  then show ?thesis
    using False assms(1) by (simp add: f64_def e_def [symmetric] Let_def)
qed (use assms in simp)

lemma f64_of_small_int: "0 \<le> n \<Longrightarrow> n < 2 ^ 53 \<Longrightarrow> f64 (of_int n) = of_int n"
proof -
  assume "0 \<le> n" "n < 2 ^ 53"
  then have "0 \<le> (of_int n :: rat)" "of_int n < (2 ^ 53 :: rat)" by simp_all
  then show ?thesis using f64_ge_int [of "of_int n" n] f64_le_int [of "of_int n" n] by simp
qed

lemma ulp_pos [simp]: "0 < ulp" and ulp_less_1: "ulp < 1"
  by (simp_all add: ulp_def)

lemma f64_nonneg: "0 \<le> x \<Longrightarrow> 0 \<le> f64 x"
proof -
  assume x: "0 \<le> x"
  have "ulp * x \<le> 1 * x" using ulp_less_1 x by (intro mult_right_mono) simp_all
  with x have "ulp * \<bar>x\<bar> \<le> x" by simp
  then show ?thesis using f64_error [of x] by linarith
qed

lemma f64_upper: "0 \<le> x \<Longrightarrow> f64 x \<le> (1 + ulp) * x"
  using f64_error [of x] by (simp add: distrib_right)

lemma f64_lower: "0 \<le> x \<Longrightarrow> (1 - ulp) * x \<le> f64 x"
  using f64_error [of x] by (simp add: left_diff_distrib)

end
