(* ===== verification/Stats_Counters.thy ===== *)
theory Stats_Counters
  imports Go_Float Go_Strings
begin

text \<open>
  \<open>internal/stats/histogram.go\<close> and \<open>counters.go\<close>: the latency histogram, the counters of the
  gateway and of its upstreams, and the bounded tables of top domains and clients.  Every atomic
  counter is a 64-bit word and wraps; each method is one step.
\<close>

section \<open>Histogram\<close>

definition histogram_bounds :: "duration list" where
  "histogram_bounds =
     map (\<lambda>n. n * microsecond) [1, 2, 4, 8, 16, 32, 64, 128, 256, 512]
     @ map (\<lambda>n. n * millisecond) [1, 2, 4, 8, 16, 32, 64, 128, 256, 512]
     @ map (\<lambda>n. n * second) [1, 2, 4, 8, 10]"

record histogram =
  hg_buckets :: "u64 list"
  hg_total :: u64

record histogram_snapshot =
  hs_count :: u64
  hs_p50 :: duration
  hs_p95 :: duration
  hs_p99 :: duration

definition new_histogram :: histogram where
  "new_histogram = \<lparr>hg_buckets = replicate (length histogram_bounds + 1) 0, hg_total = 0\<rparr>"

definition bucket_index :: "duration \<Rightarrow> nat" where
  "bucket_index d = length (takeWhile (\<lambda>bound. \<not> d \<le> bound) histogram_bounds)"

definition observe :: "duration \<Rightarrow> histogram \<Rightarrow> histogram" where
  "observe d h =
     h\<lparr>hg_buckets := (hg_buckets h)[bucket_index d := hg_buckets h ! bucket_index d + 1],
       hg_total := hg_total h + 1\<rparr>"

definition quantile_target :: "u64 \<Rightarrow> float64 \<Rightarrow> u64" where
  "quantile_target count q =
     (let target = word_of_int \<lfloor>f64_mul (f64_of_int (uint count)) q\<rfloor> in
      if target = 0 then 1 else target)"

fun quantile_from :: "u64 \<Rightarrow> u64 \<Rightarrow> nat \<Rightarrow> u64 list \<Rightarrow> duration" where
  "quantile_from target seen i [] = last histogram_bounds"
| "quantile_from target seen i (b # bs) =
     (let seen = seen + b in
      if target \<le> seen then
        (if length histogram_bounds \<le> i then last histogram_bounds else histogram_bounds ! i)
      else quantile_from target seen (Suc i) bs)"

definition quantile :: "histogram \<Rightarrow> u64 \<Rightarrow> float64 \<Rightarrow> duration" where
  "quantile h count q =
     (if count = 0 then 0 else quantile_from (quantile_target count q) 0 0 (hg_buckets h))"

definition histogram_snapshot_of :: "histogram \<Rightarrow> histogram_snapshot" where
  "histogram_snapshot_of h =
     (let count = hg_total h in
      \<lparr>hs_count = count, hs_p50 = quantile h count (f64 (1 / 2)),
       hs_p95 = quantile h count (f64 (95 / 100)), hs_p99 = quantile h count (f64 (99 / 100))\<rparr>)"

section \<open>Bounded tables\<close>

definition max_tracked_top_items :: int where "max_tracked_top_items = 10000"
definition prune_top_items_to :: int where "prune_top_items_to = 8000"

record top_item =
  ti_key :: string
  ti_count :: u64

type_synonym top_table = "(string, u64) alist"

text \<open>Both sorts order distinct keys by count and then by key, one the reverse of the other; two stable
  sorts give the order of \<open>pruneTopCounters\<close>: rising counts, falling keys among equals.\<close>

definition rising :: "top_table \<Rightarrow> top_table" where
  "rising values = sort_key snd (rev (sort_key fst values))"

definition top_n :: "top_table \<Rightarrow> int \<Rightarrow> top_item list" where
  "top_n values n =
     (let n = (if n \<le> 0 \<or> 100 < n then 10 else n) in
      take (nat n) (map (\<lambda>(k, c). \<lparr>ti_key = k, ti_count = c\<rparr>) (rev (rising values))))"

definition prune_top_counters :: "int \<Rightarrow> top_table \<Rightarrow> top_table" where
  "prune_top_counters target values =
     (if int (length values) \<le> target then values
      else fold (\<lambda>(k, c) vs. AList.delete k vs) (take (length values - nat target) (rising values)) values)"

definition increment_top_counter :: "string \<Rightarrow> top_table \<Rightarrow> top_table" where
  "increment_top_counter key values =
     (let values = (if map_of values key = None \<and> max_tracked_top_items \<le> int (length values)
                    then prune_top_counters prune_top_items_to values else values)
      in AList.update key ((case map_of values key of None \<Rightarrow> 0 | Some c \<Rightarrow> c) + 1) values)"

section \<open>Counters\<close>

record upstream_counters =
  uc_requests :: u64
  uc_errors :: u64
  uc_consecutive :: u64
  uc_healthy :: bool
  uc_latency :: histogram

record counters =
  cn_queries :: u64
  cn_cache_hit :: u64
  cn_cache_miss :: u64
  cn_blocked :: u64
  cn_rate_limited :: u64
  cn_malformed :: u64
  cn_upstreams :: "(string, upstream_counters) alist"
  cn_latency :: histogram
  cn_domains :: top_table
  cn_blocked_domains :: top_table
  cn_clients :: top_table

definition new_counters :: counters where
  "new_counters = \<lparr>cn_queries = 0, cn_cache_hit = 0, cn_cache_miss = 0, cn_blocked = 0,
     cn_rate_limited = 0, cn_malformed = 0, cn_upstreams = [], cn_latency = new_histogram,
     cn_domains = [], cn_blocked_domains = [], cn_clients = []\<rparr>"

definition new_upstream_counters :: upstream_counters where
  "new_upstream_counters = \<lparr>uc_requests = 0, uc_errors = 0, uc_consecutive = 0, uc_healthy = True,
     uc_latency = new_histogram\<rparr>"

definition inc_query :: "counters \<Rightarrow> counters" where
  "inc_query c = c\<lparr>cn_queries := cn_queries c + 1\<rparr>"

definition inc_cache_hit :: "counters \<Rightarrow> counters" where
  "inc_cache_hit c = c\<lparr>cn_cache_hit := cn_cache_hit c + 1\<rparr>"

definition inc_cache_miss :: "counters \<Rightarrow> counters" where
  "inc_cache_miss c = c\<lparr>cn_cache_miss := cn_cache_miss c + 1\<rparr>"

definition inc_blocked :: "counters \<Rightarrow> counters" where
  "inc_blocked c = c\<lparr>cn_blocked := cn_blocked c + 1\<rparr>"

definition inc_rate_limited :: "counters \<Rightarrow> counters" where
  "inc_rate_limited c = c\<lparr>cn_rate_limited := cn_rate_limited c + 1\<rparr>"

definition inc_malformed :: "counters \<Rightarrow> counters" where
  "inc_malformed c = c\<lparr>cn_malformed := cn_malformed c + 1\<rparr>"

definition observe_latency :: "duration \<Rightarrow> counters \<Rightarrow> counters" where
  "observe_latency d c = c\<lparr>cn_latency := observe d (cn_latency c)\<rparr>"

definition add_domain :: "string \<Rightarrow> bool \<Rightarrow> counters \<Rightarrow> counters" where
  "add_domain domain blocked c =
     (if domain = [] then c
      else c\<lparr>cn_domains := increment_top_counter domain (cn_domains c),
             cn_blocked_domains := (if blocked then increment_top_counter domain (cn_blocked_domains c)
                                    else cn_blocked_domains c)\<rparr>)"

definition add_client :: "string \<Rightarrow> counters \<Rightarrow> counters" where
  "add_client client c =
     (if client = [] then c else c\<lparr>cn_clients := increment_top_counter client (cn_clients c)\<rparr>)"

definition top_domains :: "int \<Rightarrow> bool \<Rightarrow> counters \<Rightarrow> top_item list" where
  "top_domains n blocked c = top_n (if blocked then cn_blocked_domains c else cn_domains c) n"

definition top_clients :: "int \<Rightarrow> counters \<Rightarrow> top_item list" where
  "top_clients n c = top_n (cn_clients c) n"

text \<open>\<open>Upstream(id)\<close> hands out a pointer: an operation on it changes the entry in place, and is lost
  for the empty id.\<close>

definition on_upstream :: "string \<Rightarrow> (upstream_counters \<Rightarrow> upstream_counters) \<Rightarrow> counters \<Rightarrow> counters" where
  "on_upstream i f c =
     (if i = [] then c
      else let u = (case map_of (cn_upstreams c) i of None \<Rightarrow> new_upstream_counters | Some u \<Rightarrow> u)
           in c\<lparr>cn_upstreams := AList.update i (f u) (cn_upstreams c)\<rparr>)"

definition inc_request :: "upstream_counters \<Rightarrow> upstream_counters" where
  "inc_request u = u\<lparr>uc_requests := uc_requests u + 1\<rparr>"

definition inc_error :: "upstream_counters \<Rightarrow> upstream_counters" where
  "inc_error u = u\<lparr>uc_errors := uc_errors u + 1, uc_consecutive := uc_consecutive u + 1\<rparr>"

definition upstream_success :: "upstream_counters \<Rightarrow> upstream_counters" where
  "upstream_success u = u\<lparr>uc_consecutive := 0, uc_healthy := True\<rparr>"

definition upstream_unhealthy :: "upstream_counters \<Rightarrow> upstream_counters" where
  "upstream_unhealthy u = u\<lparr>uc_healthy := False\<rparr>"

definition upstream_latency :: "duration \<Rightarrow> upstream_counters \<Rightarrow> upstream_counters" where
  "upstream_latency d u = u\<lparr>uc_latency := observe d (uc_latency u)\<rparr>"

record upstream_snapshot =
  us_requests :: u64
  us_errors :: u64
  us_consecutive :: u64
  us_healthy :: bool
  us_latency :: histogram_snapshot

record stats_snapshot =
  ss_queries :: u64
  ss_cache_hit :: u64
  ss_cache_miss :: u64
  ss_blocked :: u64
  ss_rate_limited :: u64
  ss_malformed :: u64
  ss_latency :: histogram_snapshot
  ss_upstreams :: "(string, upstream_snapshot) alist"

definition upstream_snapshot_of :: "upstream_counters \<Rightarrow> upstream_snapshot" where
  "upstream_snapshot_of u = \<lparr>us_requests = uc_requests u, us_errors = uc_errors u,
     us_consecutive = uc_consecutive u, us_healthy = uc_healthy u,
     us_latency = histogram_snapshot_of (uc_latency u)\<rparr>"

definition stats_snapshot_of :: "counters \<Rightarrow> stats_snapshot" where
  "stats_snapshot_of c = \<lparr>ss_queries = cn_queries c, ss_cache_hit = cn_cache_hit c,
     ss_cache_miss = cn_cache_miss c, ss_blocked = cn_blocked c, ss_rate_limited = cn_rate_limited c,
     ss_malformed = cn_malformed c, ss_latency = histogram_snapshot_of (cn_latency c),
     ss_upstreams = map (\<lambda>(k, u). (k, upstream_snapshot_of u)) (cn_upstreams c)\<rparr>"

section \<open>What quantiles mean\<close>

definition histogram_of :: "duration list \<Rightarrow> histogram" where
  "histogram_of ds = fold observe ds new_histogram"

definition up_to :: "duration \<Rightarrow> duration list \<Rightarrow> nat" where
  "up_to b ds = length (filter (\<lambda>d. d \<le> b) ds)"

lemma length_bounds [simp]: "length histogram_bounds = 25"
  by (simp add: histogram_bounds_def)

lemma sorted_bounds: "sorted histogram_bounds"
  by (simp add: histogram_bounds_def duration_units)

lemma bucket_index_le: "bucket_index d \<le> 25"
  using length_takeWhile_le [of "\<lambda>bound. \<not> d \<le> bound" histogram_bounds] by (simp add: bucket_index_def)

lemma takeWhile_sorted:
  fixes bs :: "int list"
  shows "sorted bs \<Longrightarrow> i < length bs \<Longrightarrow> length (takeWhile (\<lambda>b. \<not> d \<le> b) bs) \<le> i \<longleftrightarrow> d \<le> bs ! i"
proof (induction bs arbitrary: i)
  case (Cons b bs)
  show ?case
  proof (cases i)
    case 0
    then show ?thesis by simp
  next
    case (Suc j)
    with Cons.prems have "b \<le> bs ! j" "j < length bs" "sorted bs" by simp_all
    with Cons.IH [of j] Suc show ?thesis by auto
  qed
qed simp

lemma bucket_index_iff: "i < 25 \<Longrightarrow> bucket_index d \<le> i \<longleftrightarrow> d \<le> histogram_bounds ! i"
  unfolding bucket_index_def by (intro takeWhile_sorted sorted_bounds) simp

lemma histogram_of_snoc: "histogram_of (ds @ [d]) = observe d (histogram_of ds)"
  by (simp add: histogram_of_def)

lemma histogram_of_eq:
  "hg_buckets (histogram_of ds) = map (\<lambda>i. of_nat (length (filter (\<lambda>d. bucket_index d = i) ds))) [0..<26]"
  "hg_total (histogram_of ds) = of_nat (length ds)"
proof -
  have "hg_buckets (histogram_of ds) = map (\<lambda>i. of_nat (length (filter (\<lambda>d. bucket_index d = i) ds))) [0..<26]
    \<and> hg_total (histogram_of ds) = of_nat (length ds)"
  proof (induction ds rule: rev_induct)
    case Nil
    show ?case by (simp add: histogram_of_def new_histogram_def map_replicate_const)
  next
    case (snoc d ds)
    have "bucket_index d < 26" using bucket_index_le [of d] by linarith
    with snoc show ?case
      by (auto simp: histogram_of_snoc observe_def list_eq_iff_nth_eq nth_list_update simp del: upt_rec_numeral)
  qed
  then show "hg_buckets (histogram_of ds) = map (\<lambda>i. of_nat (length (filter (\<lambda>d. bucket_index d = i) ds))) [0..<26]"
    "hg_total (histogram_of ds) = of_nat (length ds)" by blast+
qed

lemma quantile_from_eq:
  fixes ds :: "duration list"
  assumes "i \<le> 26"
  shows "quantile_from target (of_nat (length (filter (\<lambda>d. bucket_index d < i) ds))) i
      (map (\<lambda>i. of_nat (length (filter (\<lambda>d. bucket_index d = i) ds))) [i..<26]) =
    (case find (\<lambda>b. target \<le> of_nat (up_to b ds)) (drop i histogram_bounds) of
       Some b \<Rightarrow> b | None \<Rightarrow> last histogram_bounds)"
  using assms
proof (induction "26 - i" arbitrary: i)
  case (Suc n)
  then have i: "i < 26" and l: "[i..<26] = i # [Suc i..<26]" by (simp_all add: upt_rec)
  have seen: "of_nat (length (filter (\<lambda>d. bucket_index d < i) ds))
      + of_nat (length (filter (\<lambda>d. bucket_index d = i) ds))
    = (of_nat (length (filter (\<lambda>d. bucket_index d < Suc i) ds)) :: u64)"
  proof -
    have "length (filter (\<lambda>d. bucket_index d < Suc i) ds)
      = length (filter (\<lambda>d. bucket_index d < i) ds) + length (filter (\<lambda>d. bucket_index d = i) ds)"
      by (induction ds) auto
    then show ?thesis by simp
  qed
  have IH: "quantile_from target (of_nat (length (filter (\<lambda>d. bucket_index d < Suc i) ds))) (Suc i)
      (map (\<lambda>i. of_nat (length (filter (\<lambda>d. bucket_index d = i) ds))) [Suc i..<26]) =
    (case find (\<lambda>b. target \<le> of_nat (up_to b ds)) (drop (Suc i) histogram_bounds) of
       Some b \<Rightarrow> b | None \<Rightarrow> last histogram_bounds)"
    using Suc i by simp
  show ?case
  proof (cases "i < 25")
    case True
    have "length (filter (\<lambda>d. bucket_index d < Suc i) ds) = up_to (histogram_bounds ! i) ds"
      unfolding up_to_def using bucket_index_iff [OF True] by (simp add: less_Suc_eq_le)
    moreover have "drop i histogram_bounds = histogram_bounds ! i # drop (Suc i) histogram_bounds"
      using True by (intro Cons_nth_drop_Suc [symmetric]) simp
    ultimately show ?thesis
      using True IH unfolding l by (simp add: seen Let_def del: upt_Suc)
  next
    case False
    with i have "i = 25" by simp
    with IH show ?thesis unfolding l by (simp add: seen Let_def del: upt_Suc)
  qed
qed simp

lemma unat_small: "n < 2 ^ 64 \<Longrightarrow> unat (of_nat n :: u64) = n"
  by (simp add: unat_of_nat)

lemma unat_le_of_nat: "n < 2 ^ 64 \<Longrightarrow> (t :: u64) \<le> of_nat n \<longleftrightarrow> unat t \<le> n"
  by (simp add: word_le_nat_alt unat_small del: unat_of_nat)

lemma quantile_target_bounds:
  assumes "0 < n" "n < 2 ^ 53" "0 \<le> q" "q \<le> 1"
  shows "1 \<le> unat (quantile_target (of_nat n) q) \<and> unat (quantile_target (of_nat n) q) \<le> n"
proof -
  have u: "uint (of_nat n :: u64) = int n"
    using assms(2) by (simp add: uint_nat unat_small)
  have c: "f64_of_int (int n) = of_int (int n)"
    unfolding f64_of_int_def using assms(2) by (intro f64_of_small_int) simp_all
  have p: "0 \<le> of_int (int n) * q" "of_int (int n) * q \<le> of_int (int n)"
    using assms(3,4) by (simp_all add: mult_left_le)
  have "(of_int (int n) :: rat) < 2 ^ 53"
    using assms(2) by (metis of_int_of_nat_eq of_nat_less_iff of_nat_numeral of_nat_power)
  with p have "of_int (int n) * q < 2 ^ 53" by linarith
  from f64_nonneg [OF p(1)] f64_le_int [OF p(1) this p(2)]
  have f: "0 \<le> \<lfloor>f64_mul (f64_of_int (int n)) q\<rfloor>" "\<lfloor>f64_mul (f64_of_int (int n)) q\<rfloor> \<le> int n"
    unfolding f64_mul_def c by (simp_all add: floor_le_iff)
  define t where "t = nat \<lfloor>f64_mul (f64_of_int (int n)) q\<rfloor>"
  have i: "\<lfloor>f64_mul (f64_of_int (int n)) q\<rfloor> = int t" using f(1) by (simp add: t_def)
  have "t \<le> n" using f(2) by (simp add: i)
  moreover from this have "unat (of_nat t :: u64) = t" using assms(2) by (intro unat_small) simp
  moreover have "quantile_target (of_nat n) q = (if (of_nat t :: u64) = 0 then 1 else of_nat t)"
    unfolding quantile_target_def u i Let_def by (simp only: of_int_of_nat_eq)
  ultimately show ?thesis
    using assms(1) by (cases "t = 0") (auto simp: Suc_le_eq unat_gt_0 simp del: unat_of_nat)
qed

text \<open>A latency quantile is the smallest bucket bound within which the required share of the
  observed latencies fell - at least one and at most all of them - and the greatest bound, ten
  seconds, when no bound holds that many.\<close>

theorem latency_quantile_spec:
  assumes "0 < length ds" "length ds < 2 ^ 53" "0 \<le> q" "q \<le> 1"
  shows "let h = histogram_of ds; t = unat (quantile_target (hg_total h) q) in
    quantile h (hg_total h) q = (case find (\<lambda>b. t \<le> up_to b ds) histogram_bounds of
      Some b \<Rightarrow> b | None \<Rightarrow> 10 * second) \<and> 1 \<le> t \<and> t \<le> length ds"
proof -
  have small: "up_to b ds < 2 ^ 64" for b
    using order_le_less_trans [OF length_filter_le [of "\<lambda>d. d \<le> b" ds] assms(2)]
    by (simp add: up_to_def)
  have "hg_total (histogram_of ds) \<noteq> 0"
    using assms(1,2) by (simp add: histogram_of_eq word_of_nat_eq_0_iff nat_dvd_not_less)
  moreover have l: "last histogram_bounds = 10 * second" by (simp add: histogram_bounds_def)
  ultimately have "quantile (histogram_of ds) (hg_total (histogram_of ds)) q =
    (case find (\<lambda>b. unat (quantile_target (hg_total (histogram_of ds)) q) \<le> up_to b ds) histogram_bounds of
      Some b \<Rightarrow> b | None \<Rightarrow> 10 * second)"
    unfolding l [symmetric]
    using quantile_from_eq [of 0 "quantile_target (hg_total (histogram_of ds)) q" ds]
    by (simp add: quantile_def histogram_of_eq(1) unat_le_of_nat [OF small] del: upt_rec_numeral)
  with quantile_target_bounds [of "length ds" q] assms show ?thesis
    by (simp add: Let_def histogram_of_eq(2))
qed

theorem latency_quantile_spec_witness:
  "quantile (histogram_of [3 * millisecond, 900 * microsecond, 20 * second]) 3 (1 / 2) = millisecond
   \<and> quantile (histogram_of [3 * millisecond, 900 * microsecond, 20 * second]) 3 1 = 10 * second"
proof -
  let ?ds = "[3 * millisecond, 900 * microsecond, 20 * second]"
  have t: "unat (quantile_target 3 (1 / 2)) = 1" "unat (quantile_target 3 1) = 3" by code_simp+
  have f: "find (\<lambda>b. Suc 0 \<le> up_to b ?ds) histogram_bounds = Some millisecond"
    "find (\<lambda>b. 3 \<le> up_to b ?ds) histogram_bounds = None" by code_simp+
  show ?thesis
    using latency_quantile_spec [of ?ds "1 / 2"] latency_quantile_spec [of ?ds 1]
    by (simp only: histogram_of_eq(2) Let_def) (simp add: t f)
qed

section \<open>The bounded tables\<close>

lemma set_rising [simp]: "set (rising values) = set values"
  by (simp add: rising_def)

lemma length_rising [simp]: "length (rising values) = length values"
  by (simp add: rising_def)

lemma alist_ok_rising [simp]: "alist_ok (rising values) \<longleftrightarrow> alist_ok values"
  by (simp add: rising_def distinct_map)

lemma sorted_rising: "sorted (map snd (rising values))"
  by (simp add: rising_def)

lemma fold_delete:
  "fold (\<lambda>(k, c) vs. AList.delete k vs) xs vs = filter (\<lambda>(k, c). k \<notin> keys xs) vs"
proof (induction xs arbitrary: vs)
  case (Cons x xs)
  have "AList.delete (fst x) vs = filter (\<lambda>(k, c). k \<noteq> fst x) vs"
    unfolding AList.delete_eq by (rule filter_cong) auto
  with Cons show ?case
    by (simp add: case_prod_unfold conj_commute)
qed (simp add: case_prod_unfold)

text \<open>Pruning drops the rarest entries: what stays is counted at least as often as what goes.\<close>

lemma prune_top_counters_spec:
  assumes "alist_ok values" "0 \<le> target" "target < int (length values)"
  defines "kept \<equiv> prune_top_counters target values"
  shows "int (length kept) = target" "set kept \<subseteq> set values" "alist_ok kept"
    and "x \<in> set kept \<Longrightarrow> y \<in> set values - set kept \<Longrightarrow> snd y \<le> snd x"
proof -
  define n where "n = length values - nat target"
  define gone where "gone = take n (rising values)"
  define stay where "stay = drop n (rising values)"
  have n: "n \<le> length values" by (simp add: n_def)
  have r: "rising values = gone @ stay" by (simp add: gone_def stay_def)
  have d: "alist_ok (gone @ stay)" using assms(1) r by (metis alist_ok_rising)
  have kept: "kept = filter (\<lambda>(k, c). k \<notin> keys gone) values"
    using assms(3) by (simp add: kept_def prune_top_counters_def fold_delete gone_def n_def)
  have vals: "set values = set gone \<union> set stay" using r by (metis set_append set_rising)
  have eq: "set kept = set stay"
  proof -
    have "keys gone \<inter> keys stay = {}" using d by auto
    then show ?thesis by (auto simp: kept vals case_prod_unfold)
  qed
  show ok: "alist_ok kept" unfolding kept using assms(1) by (rule alist_ok_filter)
  have "length kept = length stay"
    using eq ok d by (metis distinct_append distinct_card distinct_map map_append)
  then show "int (length kept) = target"
    using assms(2,3) by (simp add: stay_def n_def)
  show "set kept \<subseteq> set values" using eq vals by blast
  show "snd y \<le> snd x" if "x \<in> set kept" "y \<in> set values - set kept"
  proof -
    have "y \<in> set gone" "x \<in> set stay" using that eq vals by auto
    with sorted_rising [of "values"] show ?thesis by (auto simp: r sorted_append)
  qed
qed

definition table_of :: "string list \<Rightarrow> top_table" where
  "table_of ks = fold increment_top_counter ks []"

definition table_fits :: "top_table \<Rightarrow> bool" where
  "table_fits t \<longleftrightarrow> alist_ok t \<and> int (length t) \<le> max_tracked_top_items"

lemma increment_fits:
  assumes "table_fits t"
  shows "table_fits (increment_top_counter k t)" "k \<in> keys (increment_top_counter k t)"
proof -
  let ?t = "if map_of t k = None \<and> max_tracked_top_items \<le> int (length t)
      then prune_top_counters prune_top_items_to t else t"
  have "alist_ok ?t \<and> (k \<in> keys ?t \<and> int (length ?t) \<le> max_tracked_top_items \<or> int (length ?t) < max_tracked_top_items)"
  proof (cases "map_of t k = None \<and> max_tracked_top_items \<le> int (length t)")
    case True
    with prune_top_counters_spec [of t prune_top_items_to] assms show ?thesis
      by (simp add: table_fits_def max_tracked_top_items_def prune_top_items_to_def)
  next
    case False
    with assms show ?thesis by (auto simp: table_fits_def keys_iff_map_of)
  qed
  then show "table_fits (increment_top_counter k t)"
    unfolding increment_top_counter_def Let_def table_fits_def by auto
  show "k \<in> keys (increment_top_counter k t)"
    unfolding increment_top_counter_def Let_def by simp
qed

lemma table_of_snoc: "table_of (ks @ [k]) = increment_top_counter k (table_of ks)"
  by (simp add: table_of_def)

lemma table_of_fits: "table_fits (table_of ks)"
  by (induction ks rule: rev_induct)
    (simp_all add: table_of_snoc increment_fits, simp add: table_of_def table_fits_def max_tracked_top_items_def)

lemma table_of_exact:
  "int (card (set ks)) \<le> max_tracked_top_items \<Longrightarrow>
     map_of (table_of ks) = (\<lambda>k. if k \<in> set ks then Some (of_nat (count_list ks k)) else None)"
proof (induction ks rule: rev_induct)
  case Nil
  show ?case by (simp add: table_of_def)
next
  case (snoc k ks)
  have "card (set ks) \<le> card (set (ks @ [k]))" by (intro card_mono) auto
  with snoc have IH: "map_of (table_of ks) = (\<lambda>k. if k \<in> set ks then Some (of_nat (count_list ks k)) else None)"
    by simp
  have "\<not> (map_of (table_of ks) k = None \<and> max_tracked_top_items \<le> int (length (table_of ks)))"
  proof
    assume a: "map_of (table_of ks) k = None \<and> max_tracked_top_items \<le> int (length (table_of ks))"
    then have k: "k \<notin> set ks" by (simp add: IH split: if_split_asm)
    have "keys (table_of ks) = set ks"
      by (rule set_eqI) (simp add: keys_iff_map_of IH)
    with table_of_fits [of ks] have "length (table_of ks) = card (set ks)"
      by (simp add: table_fits_def length_alist_card)
    with a k snoc.prems show False by simp
  qed
  then show ?case
    unfolding table_of_snoc increment_top_counter_def Let_def
    by (auto simp: IH fun_eq_iff)
qed

text \<open>The tables behind the top lists stay bounded - at most 10000 entries, distinct, with the key
  counted last among them - and as long as no more than 10000 different keys were seen they are
  exact: every key's count is the number of its occurrences, modulo 64 bits.\<close>

theorem top_table_spec:
  "alist_ok (table_of ks) \<and> int (length (table_of ks)) \<le> 10000 \<and> k \<in> keys (table_of (ks @ [k])) \<and>
   (10000 < int (card (set ks)) \<or>
    map_of (table_of ks) = (\<lambda>k. if k \<in> set ks then Some (of_nat (count_list ks k)) else None))"
  using table_of_fits [of ks] table_of_exact [of ks] increment_fits(2) [of "table_of ks" k]
  by (auto simp: table_fits_def table_of_snoc max_tracked_top_items_def not_less)

end
