(* ===== verification/Go_Json.thy ===== *)
theory Go_Json
  imports Go_Strings
begin

text \<open>
  \<open>encoding/json\<close> on the level of value trees.  A number is an integer, the only kind the stored
  records have.  Encoding replaces each byte of invalid UTF-8 by U+FFFD (\<open>json_string\<close>);
  decoding into a struct looks a field up without regard to ASCII case, the last occurrence
  winning, and treats \<open>null\<close> and an absent field as the zero value.
\<close>

datatype json =
    JNull
  | JBool bool
  | JNum int
  | JStr string
  | JArr "json list"
  | JObj "(string \<times> json) list"

function json_string :: "string \<Rightarrow> string" where
  "json_string [] = []"
| "json_string (c # s) =
     (if is_ascii c then c # json_string s
      else let n = rune_len (c # s) in
        if n = 1 then [char_of (0xEF :: nat), char_of (0xBF :: nat), char_of (0xBD :: nat)] @ json_string s
        else take n (c # s) @ json_string (drop (n - 1) s))"
  by pat_completeness auto
termination by (relation "measure length") auto

definition json_field :: "(string \<times> json) list \<Rightarrow> string \<Rightarrow> json" where
  "json_field fs name =
     (case map_of (map (\<lambda>(k, v). (map lower_char k, v)) (rev fs)) name of
        None \<Rightarrow> JNull | Some v \<Rightarrow> v)"

fun json_to_string :: "json \<Rightarrow> string option" where
  "json_to_string JNull = Some []"
| "json_to_string (JStr s) = Some s"
| "json_to_string _ = None"

fun json_to_bool :: "json \<Rightarrow> bool option" where
  "json_to_bool JNull = Some False"
| "json_to_bool (JBool b) = Some b"
| "json_to_bool _ = None"

fun json_to_int :: "json \<Rightarrow> int option" where
  "json_to_int JNull = Some 0"
| "json_to_int (JNum n) = (if min_int64 \<le> n \<and> n \<le> max_int64 then Some n else None)"
| "json_to_int _ = None"

fun json_to_u64 :: "json \<Rightarrow> u64 option" where
  "json_to_u64 JNull = Some 0"
| "json_to_u64 (JNum n) = (if 0 \<le> n \<and> n < 2 ^ 64 then Some (word_of_int n) else None)"
| "json_to_u64 _ = None"

definition json_of_time :: "golib \<Rightarrow> gotime \<Rightarrow> json" where
  "json_of_time G t = JStr (g_fmt_time G t)"

fun json_to_time :: "golib \<Rightarrow> json \<Rightarrow> gotime option" where
  "json_to_time G JNull = Some 0"
| "json_to_time G (JStr s) = g_parse_time G s"
| "json_to_time G _ = None"

text \<open>A time that the RFC 3339 format carries: reading back gives what was written.\<close>

definition time_fits :: "golib \<Rightarrow> gotime \<Rightarrow> bool" where
  "time_fits G t \<longleftrightarrow> g_parse_time G (g_fmt_time G t) = Some t"

lemma json_to_of_time: "time_fits G t \<Longrightarrow> json_to_time G (json_of_time G t) = Some t"
  by (simp add: json_of_time_def time_fits_def)

lemma ascii_lib_times: "min_int64 \<le> t \<Longrightarrow> t \<le> max_int64 \<Longrightarrow> time_fits ascii_lib t"
  by (simp add: time_fits_def ascii_lib_def atoi_show_int)

lemma rune_len_valid:
  "valid_utf8 (c # s) \<Longrightarrow> \<not> is_ascii c \<Longrightarrow>
     rune_len (c # s) \<noteq> 1 \<and> rune_len (c # s) \<le> length (c # s) \<and> valid_utf8 (drop (rune_len (c # s)) (c # s))"
  by (auto simp: rune_len_def is_ascii_def split: if_split_asm list.split_asm)

lemma json_string_valid: "valid_utf8 s \<Longrightarrow> json_string s = s"
proof (induction s rule: json_string.induct)
  case (2 c s)
  show ?case
  proof (cases "is_ascii c")
    case True
    with 2 show ?thesis by (auto simp: is_ascii_def)
  next
    case False
    note r = rune_len_valid [OF "2.prems" False]
    obtain n where n: "rune_len (c # s) = Suc n" using rune_len_pos [of c s] by (cases "rune_len (c # s)") auto
    with r have "valid_utf8 (drop n s)" "n \<noteq> 0" by auto
    with "2.IH"(3) [OF False refl] n have "json_string (drop n s) = drop n s" by simp
    with False n \<open>n \<noteq> 0\<close> show ?thesis by (simp add: Let_def)
  qed
qed simp

end
