(* ===== verification/Kv_Store.thy ===== *)
theory Kv_Store
  imports Go_Json
begin

text \<open>
  \<open>internal/store/file.go\<close>, \<open>models.go\<close> and the interfaces of \<open>store.go\<close>: the key-value store in
  a JSON file and the typed stores on top of it.  The typed stores only use the four operations
  of \<open>jsonKVStore\<close> (the record \<open>kvops\<close>), and their lemmas are proved once in the locale
  \<open>kv_store\<close>, interpreted on the file store.

  The file system answers the n-th save through \<open>io n\<close>: saved, failed before the rename (the old
  file stays), or failed after it (the directory could not be synced).
\<close>

datatype store_error =
    Not_Found
  | Store_Closed
  | Missing_Field string
  | Bad_Json
  | Io_Error string

section \<open>Records\<close>

record client =
  cl_key :: string
  cl_type :: string
  cl_name :: string
  cl_group :: string
  cl_first_seen :: gotime
  cl_last_seen :: gotime
  cl_last_ip :: string
  cl_hidden :: bool

record session =
  se_token :: string
  se_username :: string
  se_expires_at :: gotime

record stats_row =
  sr_bucket :: string
  sr_counters :: "(string, u64) alist"

record config_snapshot =
  sn_ts :: gotime
  sn_yaml :: string

definition client_to_json :: "golib \<Rightarrow> client \<Rightarrow> json" where
  "client_to_json G c = JObj
     [(''key'', JStr (json_string (cl_key c))), (''type'', JStr (json_string (cl_type c))),
      (''name'', JStr (json_string (cl_name c))), (''group'', JStr (json_string (cl_group c))),
      (''first_seen'', json_of_time G (cl_first_seen c)), (''last_seen'', json_of_time G (cl_last_seen c)),
      (''last_ip'', JStr (json_string (cl_last_ip c))), (''hidden'', JBool (cl_hidden c))]"

fun client_of_json :: "golib \<Rightarrow> json \<Rightarrow> client option" where
  "client_of_json G (JObj fs) =
     (case (json_to_string (json_field fs ''key''), json_to_string (json_field fs ''type''),
            json_to_string (json_field fs ''name''), json_to_string (json_field fs ''group''),
            json_to_time G (json_field fs ''first_seen''), json_to_time G (json_field fs ''last_seen''),
            json_to_string (json_field fs ''last_ip''), json_to_bool (json_field fs ''hidden'')) of
        (Some k, Some t, Some n, Some g, Some f, Some l, Some i, Some h) \<Rightarrow>
          Some \<lparr>cl_key = k, cl_type = t, cl_name = n, cl_group = g, cl_first_seen = f,
                cl_last_seen = l, cl_last_ip = i, cl_hidden = h\<rparr>
      | _ \<Rightarrow> None)"
| "client_of_json G JNull = Some \<lparr>cl_key = [], cl_type = [], cl_name = [], cl_group = [],
     cl_first_seen = 0, cl_last_seen = 0, cl_last_ip = [], cl_hidden = False\<rparr>"
| "client_of_json G _ = None"

definition session_to_json :: "golib \<Rightarrow> session \<Rightarrow> json" where
  "session_to_json G s = JObj
     [(''token'', JStr (json_string (se_token s))), (''username'', JStr (json_string (se_username s))),
      (''expires_at'', json_of_time G (se_expires_at s))]"

fun session_of_json :: "golib \<Rightarrow> json \<Rightarrow> session option" where
  "session_of_json G (JObj fs) =
     (case (json_to_string (json_field fs ''token''), json_to_string (json_field fs ''username''),
            json_to_time G (json_field fs ''expires_at'')) of
        (Some t, Some u, Some e) \<Rightarrow> Some \<lparr>se_token = t, se_username = u, se_expires_at = e\<rparr>
      | _ \<Rightarrow> None)"
| "session_of_json G JNull = Some \<lparr>se_token = [], se_username = [], se_expires_at = 0\<rparr>"
| "session_of_json G _ = None"

definition stats_row_to_json :: "stats_row \<Rightarrow> json" where
  "stats_row_to_json r = JObj
     [(''bucket'', JStr (json_string (sr_bucket r))),
      (''counters'', JObj (map (\<lambda>(k, v). (json_string k, JNum (uint v))) (sort_key fst (sr_counters r))))]"

fun json_to_counters :: "json \<Rightarrow> (string, u64) alist option" where
  "json_to_counters JNull = Some []"
| "json_to_counters (JObj fs) =
     fold (\<lambda>(k, j) acc. case (acc, json_to_u64 j) of
             (Some m, Some v) \<Rightarrow> Some (AList.update k v m) | _ \<Rightarrow> None) fs (Some [])"
| "json_to_counters _ = None"

fun stats_row_of_json :: "json \<Rightarrow> stats_row option" where
  "stats_row_of_json (JObj fs) =
     (case (json_to_string (json_field fs ''bucket''), json_to_counters (json_field fs ''counters'')) of
        (Some b, Some m) \<Rightarrow> Some \<lparr>sr_bucket = b, sr_counters = m\<rparr>
      | _ \<Rightarrow> None)"
| "stats_row_of_json JNull = Some \<lparr>sr_bucket = [], sr_counters = []\<rparr>"
| "stats_row_of_json _ = None"

definition snapshot_to_json :: "golib \<Rightarrow> config_snapshot \<Rightarrow> json" where
  "snapshot_to_json G s = JObj [(''ts'', json_of_time G (sn_ts s)), (''yaml'', JStr (json_string (sn_yaml s)))]"

fun snapshot_of_json :: "golib \<Rightarrow> json \<Rightarrow> config_snapshot option" where
  "snapshot_of_json G (JObj fs) =
     (case (json_to_time G (json_field fs ''ts''), json_to_string (json_field fs ''yaml'')) of
        (Some t, Some y) \<Rightarrow> Some \<lparr>sn_ts = t, sn_yaml = y\<rparr> | _ \<Rightarrow> None)"
| "snapshot_of_json G JNull = Some \<lparr>sn_ts = 0, sn_yaml = []\<rparr>"
| "snapshot_of_json G _ = None"

section \<open>The file store\<close>

datatype save_result = Saved | Save_Failed string | Sync_Failed string

record file_store =
  fs_data :: "(string, json) alist"
  fs_closed :: bool
  fs_disk :: "(string, json) alist option"
  fs_saves :: nat

text \<open>\<open>saveLocked\<close>: keys are written as JSON strings.\<close>

definition save_locked :: "(nat \<Rightarrow> save_result) \<Rightarrow> file_store \<Rightarrow> file_store \<times> store_error option" where
  "save_locked io s =
     (let disk = Some (map (\<lambda>(k, v). (json_string k, v)) (fs_data s));
          s' = s\<lparr>fs_saves := fs_saves s + 1\<rparr> in
      case io (fs_saves s) of
        Saved \<Rightarrow> (s'\<lparr>fs_disk := disk\<rparr>, None)
      | Save_Failed e \<Rightarrow> (s', Some (Io_Error e))
      | Sync_Failed e \<Rightarrow> (s'\<lparr>fs_disk := disk\<rparr>, Some (Io_Error e)))"

definition file_get :: "string \<Rightarrow> file_store \<Rightarrow> store_error + json" where
  "file_get key s = (case map_of (fs_data s) key of None \<Rightarrow> Inl Not_Found | Some raw \<Rightarrow> Inr raw)"

definition file_put ::
  "(nat \<Rightarrow> save_result) \<Rightarrow> string \<Rightarrow> json \<Rightarrow> file_store \<Rightarrow> file_store \<times> store_error option" where
  "file_put io key raw s =
     (if fs_closed s then (s, Some Store_Closed)
      else save_locked io (s\<lparr>fs_data := AList.update key raw (fs_data s)\<rparr>))"

definition file_delete ::
  "(nat \<Rightarrow> save_result) \<Rightarrow> string \<Rightarrow> file_store \<Rightarrow> file_store \<times> store_error option" where
  "file_delete io key s =
     (if fs_closed s then (s, Some Store_Closed)
      else if map_of (fs_data s) key = None then (s, Some Not_Found)
      else save_locked io (s\<lparr>fs_data := AList.delete key (fs_data s)\<rparr>))"

definition file_scan :: "string \<Rightarrow> file_store \<Rightarrow> (string, json) alist" where
  "file_scan p s = filter (\<lambda>(k, v). prefix p k) (fs_data s)"

definition file_close :: "(nat \<Rightarrow> save_result) \<Rightarrow> file_store \<Rightarrow> file_store \<times> store_error option" where
  "file_close io s =
     (if fs_closed s then (s, None)
      else (case save_locked io s of
              (s, Some e) \<Rightarrow> (s, Some e)
            | (s, None) \<Rightarrow> (s\<lparr>fs_closed := True\<rparr>, None)))"

record 's kvops =
  kv_get :: "string \<Rightarrow> 's \<Rightarrow> store_error + json"
  kv_put :: "string \<Rightarrow> json \<Rightarrow> 's \<Rightarrow> 's \<times> store_error option"
  kv_delete :: "string \<Rightarrow> 's \<Rightarrow> 's \<times> store_error option"
  kv_scan :: "string \<Rightarrow> 's \<Rightarrow> (string, json) alist"

definition file_ops :: "(nat \<Rightarrow> save_result) \<Rightarrow> file_store kvops" where
  "file_ops io = \<lparr>kv_get = file_get, kv_put = file_put io, kv_delete = file_delete io,
                  kv_scan = file_scan\<rparr>"

definition schema_version :: int where "schema_version = 7"

text \<open>
  \<open>runMigrations\<close> on the file store: the migrations 1 to 7 change nothing there, each records its
  number; an unreadable version counts as 0.
\<close>

definition stored_version :: "file_store \<Rightarrow> int" where
  "stored_version s =
     (case file_get ''store_meta:schema_version'' s of
        Inl _ \<Rightarrow> 0
      | Inr j \<Rightarrow> (case json_to_int j of None \<Rightarrow> 0 | Some n \<Rightarrow> n))"

fun apply_migrations ::
  "(nat \<Rightarrow> save_result) \<Rightarrow> int \<Rightarrow> int list \<Rightarrow> file_store \<Rightarrow> file_store \<times> store_error option" where
  "apply_migrations io current [] s = (s, None)"
| "apply_migrations io current (v # vs) s =
     (if v \<le> current then apply_migrations io current vs s
      else (case file_put io ''store_meta:schema_version'' (JNum v) s of
              (s, Some e) \<Rightarrow> (s, Some e)
            | (s, None) \<Rightarrow> apply_migrations io current vs s))"

definition run_migrations :: "(nat \<Rightarrow> save_result) \<Rightarrow> file_store \<Rightarrow> file_store \<times> store_error option" where
  "run_migrations io s =
     (let current = stored_version s in
      if schema_version \<le> current then (s, None)
      else apply_migrations io current [1, 2, 3, 4, 5, 6, 7] s)"

text \<open>\<open>Open\<close>: the file's content as the reader delivers it; \<open>None\<close> when it does not parse.\<close>

definition open_file_store ::
  "(nat \<Rightarrow> save_result) \<Rightarrow> (string, json) alist option option \<Rightarrow> store_error + file_store" where
  "open_file_store io file_content =
     (let data = (case file_content of
                    None \<Rightarrow> Some [] | Some None \<Rightarrow> None
                  | Some (Some kvs) \<Rightarrow> Some (fold (\<lambda>(k, v). AList.update k v) kvs [])) in
      case data of
        None \<Rightarrow> Inl Bad_Json
      | Some d \<Rightarrow>
          (case run_migrations io \<lparr>fs_data = d, fs_closed = False,
                  fs_disk = (case file_content of Some (Some kvs) \<Rightarrow> Some kvs | _ \<Rightarrow> None), fs_saves = 0\<rparr> of
             (s, Some e) \<Rightarrow> Inl e
           | (s, None) \<Rightarrow> Inr s))"

section \<open>The typed stores\<close>

definition decode :: "(json \<Rightarrow> 'a option) \<Rightarrow> store_error + json \<Rightarrow> store_error + 'a" where
  "decode f r = (case r of Inl e \<Rightarrow> Inl e
                 | Inr j \<Rightarrow> (case f j of None \<Rightarrow> Inl Bad_Json | Some v \<Rightarrow> Inr v))"

definition decode_rows :: "(json \<Rightarrow> 'a option) \<Rightarrow> (string, json) alist \<Rightarrow> store_error + 'a list" where
  "decode_rows f rows = map_result (\<lambda>(k, j). decode f (Inr j)) rows"

definition client_get :: "'s kvops \<Rightarrow> golib \<Rightarrow> string \<Rightarrow> 's \<Rightarrow> store_error + client" where
  "client_get K G key s = decode (client_of_json G) (kv_get K (''clients:'' @ key) s)"

definition client_list :: "'s kvops \<Rightarrow> golib \<Rightarrow> 's \<Rightarrow> store_error + client list" where
  "client_list K G s =
     (case decode_rows (client_of_json G) (kv_scan K ''clients:'' s) of
        Inl e \<Rightarrow> Inl e | Inr cs \<Rightarrow> Inr (sort_key cl_key cs))"

definition client_upsert ::
  "'s kvops \<Rightarrow> golib \<Rightarrow> client option \<Rightarrow> 's \<Rightarrow> 's \<times> store_error option" where
  "client_upsert K G c s =
     (case c of
        None \<Rightarrow> (s, Some (Missing_Field ''clients.key''))
      | Some c \<Rightarrow>
          if cl_key c = [] then (s, Some (Missing_Field ''clients.key''))
          else kv_put K (''clients:'' @ cl_key c) (client_to_json G c) s)"

definition client_delete :: "'s kvops \<Rightarrow> string \<Rightarrow> 's \<Rightarrow> 's \<times> store_error option" where
  "client_delete K key s = kv_delete K (''clients:'' @ key) s"

definition custom_add :: "'s kvops \<Rightarrow> string \<Rightarrow> string \<Rightarrow> 's \<Rightarrow> 's \<times> store_error option" where
  "custom_add K list_id domain s =
     (if list_id = [] \<or> domain = [] then (s, Some (Missing_Field ''customlist''))
      else kv_put K (''customlist:'' @ list_id @ '':'' @ domain) (JBool True) s)"

definition custom_remove :: "'s kvops \<Rightarrow> string \<Rightarrow> string \<Rightarrow> 's \<Rightarrow> 's \<times> store_error option" where
  "custom_remove K list_id domain s = kv_delete K (''customlist:'' @ list_id @ '':'' @ domain) s"

definition custom_list :: "'s kvops \<Rightarrow> string \<Rightarrow> 's \<Rightarrow> string list" where
  "custom_list K list_id s =
     (let p = ''customlist:'' @ list_id @ '':'' in
      sort (map (\<lambda>(k, v). trim_prefix p k) (kv_scan K p s)))"

definition session_get :: "'s kvops \<Rightarrow> golib \<Rightarrow> string \<Rightarrow> 's \<Rightarrow> store_error + session" where
  "session_get K G token s = decode (session_of_json G) (kv_get K (''session:'' @ token) s)"

definition session_upsert ::
  "'s kvops \<Rightarrow> golib \<Rightarrow> session option \<Rightarrow> 's \<Rightarrow> 's \<times> store_error option" where
  "session_upsert K G v s =
     (case v of
        None \<Rightarrow> (s, Some (Missing_Field ''session.token''))
      | Some v \<Rightarrow>
          if se_token v = [] then (s, Some (Missing_Field ''session.token''))
          else kv_put K (''session:'' @ se_token v) (session_to_json G v) s)"

definition session_delete :: "'s kvops \<Rightarrow> string \<Rightarrow> 's \<Rightarrow> 's \<times> store_error option" where
  "session_delete K token s = kv_delete K (''session:'' @ token) s"

fun delete_expired_rows ::
  "'s kvops \<Rightarrow> golib \<Rightarrow> gotime \<Rightarrow> (string, json) alist \<Rightarrow> 's \<Rightarrow> 's \<times> store_error option" where
  "delete_expired_rows K G now [] s = (s, None)"
| "delete_expired_rows K G now ((key, raw) # rows) s =
     (case session_of_json G raw of
        None \<Rightarrow> (s, Some Bad_Json)
      | Some v \<Rightarrow>
          if \<not> time_is_zero (se_expires_at v) \<and> se_expires_at v < now then
            (case kv_delete K key s of
               (s, Some e) \<Rightarrow>
                 if e \<noteq> Not_Found then (s, Some e) else delete_expired_rows K G now rows s
             | (s, None) \<Rightarrow> delete_expired_rows K G now rows s)
          else delete_expired_rows K G now rows s)"

definition delete_expired :: "'s kvops \<Rightarrow> golib \<Rightarrow> gotime \<Rightarrow> 's \<Rightarrow> 's \<times> store_error option" where
  "delete_expired K G now s = delete_expired_rows K G now (kv_scan K ''session:'' s) s"

definition stats_put ::
  "'s kvops \<Rightarrow> string \<Rightarrow> string \<Rightarrow> stats_row option \<Rightarrow> 's \<Rightarrow> 's \<times> store_error option" where
  "stats_put K granularity bucket row s =
     (case row of
        None \<Rightarrow> (s, Some (Missing_Field ''stats''))
      | Some r \<Rightarrow>
          if granularity = [] \<or> bucket = [] then (s, Some (Missing_Field ''stats''))
          else kv_put K (''stats:'' @ granularity @ '':'' @ bucket)
                 (stats_row_to_json (r\<lparr>sr_bucket := bucket\<rparr>)) s)"

definition stats_get :: "'s kvops \<Rightarrow> string \<Rightarrow> string \<Rightarrow> 's \<Rightarrow> store_error + stats_row" where
  "stats_get K granularity bucket s =
     decode stats_row_of_json (kv_get K (''stats:'' @ granularity @ '':'' @ bucket) s)"

text \<open>The order of \<open>List\<close>: numeric when both buckets are numbers.  Insertion sort stands for \<open>sort.Slice\<close>.\<close>

definition bucket_less :: "string \<Rightarrow> string \<Rightarrow> bool" where
  "bucket_less a b =
     (case (atoi a, atoi b) of (Some x, Some y) \<Rightarrow> x < y | _ \<Rightarrow> a < b)"

fun insert_row :: "stats_row \<Rightarrow> stats_row list \<Rightarrow> stats_row list" where
  "insert_row r [] = [r]"
| "insert_row r (x # xs) =
     (if bucket_less (sr_bucket r) (sr_bucket x) then r # x # xs else x # insert_row r xs)"

definition stats_list :: "'s kvops \<Rightarrow> string \<Rightarrow> 's \<Rightarrow> store_error + stats_row list" where
  "stats_list K granularity s =
     (case decode_rows stats_row_of_json (kv_scan K (''stats:'' @ granularity @ '':'') s) of
        Inl e \<Rightarrow> Inl e | Inr rs \<Rightarrow> Inr (fold insert_row rs []))"

definition history_append ::
  "'s kvops \<Rightarrow> golib \<Rightarrow> gotime \<Rightarrow> config_snapshot option \<Rightarrow> 's \<Rightarrow> 's \<times> store_error option" where
  "history_append K G now snapshot s =
     (case snapshot of
        None \<Rightarrow> (s, Some (Missing_Field ''confhist''))
      | Some v \<Rightarrow>
          let stored = (if time_is_zero (sn_ts v) then v\<lparr>sn_ts := now\<rparr> else v)
          in kv_put K (''confhist:'' @ g_fmt_time G (sn_ts stored)) (snapshot_to_json G stored) s)"

definition history_list :: "'s kvops \<Rightarrow> golib \<Rightarrow> int \<Rightarrow> 's \<Rightarrow> store_error + config_snapshot list" where
  "history_list K G limit s =
     (case decode_rows (snapshot_of_json G) (kv_scan K ''confhist:'' s) of
        Inl e \<Rightarrow> Inl e
      | Inr vs \<Rightarrow>
          let out = sort_key (\<lambda>v. - sn_ts v) vs
          in Inr (if 0 < limit \<and> limit < int (length out) then take (nat limit) out else out))"

section \<open>Round trips of the records\<close>

definition client_fits :: "golib \<Rightarrow> client \<Rightarrow> bool" where
  "client_fits G c \<longleftrightarrow> valid_utf8 (cl_key c) \<and> valid_utf8 (cl_type c) \<and> valid_utf8 (cl_name c)
     \<and> valid_utf8 (cl_group c) \<and> valid_utf8 (cl_last_ip c)
     \<and> time_fits G (cl_first_seen c) \<and> time_fits G (cl_last_seen c)"

definition session_fits :: "golib \<Rightarrow> session \<Rightarrow> bool" where
  "session_fits G s \<longleftrightarrow> valid_utf8 (se_token s) \<and> valid_utf8 (se_username s) \<and> time_fits G (se_expires_at s)"

lemma json_field_lower:
  assumes "list_all (\<lambda>k. map lower_char k = k) (map fst fs)"
  shows "json_field fs name = (case map_of (rev fs) name of None \<Rightarrow> JNull | Some v \<Rightarrow> v)"
proof -
  have "map (\<lambda>(k, v). (map lower_char k, v)) (rev fs) = rev fs"
    using assms by (intro map_idI) (auto simp: list_all_iff)
  then show ?thesis by (simp add: json_field_def)
qed

lemma client_names_lower: "list_all (\<lambda>k. map lower_char k = k)
    [''key'', ''type'', ''name'', ''group'', ''first_seen'', ''last_seen'', ''last_ip'', ''hidden'']"
  by code_simp

lemma session_names_lower: "list_all (\<lambda>k. map lower_char k = k) [''token'', ''username'', ''expires_at'']"
  by code_simp

lemma client_field:
  "json_field [(''key'', a), (''type'', b), (''name'', c), (''group'', d), (''first_seen'', e),
     (''last_seen'', f), (''last_ip'', g), (''hidden'', h)] n =
   (case map_of [(''hidden'', h), (''last_ip'', g), (''last_seen'', f), (''first_seen'', e), (''group'', d),
       (''name'', c), (''type'', b), (''key'', a)] n of None \<Rightarrow> JNull | Some v \<Rightarrow> v)"
  by (subst json_field_lower) (simp_all only: list.map fst_conv client_names_lower rev.simps append.simps)

lemma session_field:
  "json_field [(''token'', a), (''username'', b), (''expires_at'', c)] n =
   (case map_of [(''expires_at'', c), (''username'', b), (''token'', a)] n of None \<Rightarrow> JNull | Some v \<Rightarrow> v)"
  by (subst json_field_lower) (simp_all only: list.map fst_conv session_names_lower rev.simps append.simps)

lemma client_roundtrip: "client_fits G c \<Longrightarrow> client_of_json G (client_to_json G c) = Some c"
  by (simp add: client_to_json_def client_field client_fits_def json_string_valid json_to_of_time)

lemma session_roundtrip: "session_fits G s \<Longrightarrow> session_of_json G (session_to_json G s) = Some s"
  by (simp add: session_to_json_def session_field session_fits_def json_string_valid json_to_of_time)

definition expired_row :: "golib \<Rightarrow> gotime \<Rightarrow> json \<Rightarrow> bool" where
  "expired_row G now raw \<longleftrightarrow>
     (case session_of_json G raw of None \<Rightarrow> False
      | Some v \<Rightarrow> \<not> time_is_zero (se_expires_at v) \<and> se_expires_at v < now)"

section \<open>The interface of the key-value store\<close>

locale kv_store =
  fixes K :: "'s kvops"
    and view :: "'s \<Rightarrow> string \<Rightarrow> json option"
    and ok :: "'s \<Rightarrow> bool"
  assumes get_law: "ok s \<Longrightarrow> kv_get K k s = (case view s k of None \<Rightarrow> Inl Not_Found | Some v \<Rightarrow> Inr v)"
    and scan_law: "ok s \<Longrightarrow> alist_ok (kv_scan K p s) \<and>
      map_of (kv_scan K p s) k = (if prefix p k then view s k else None)"
    and put_ok: "ok s \<Longrightarrow> ok (fst (kv_put K k v s))"
    and put_done: "ok s \<Longrightarrow> kv_put K k v s = (s', None) \<Longrightarrow> view s' = (view s)(k \<mapsto> v)"
    and put_fail: "ok s \<Longrightarrow> kv_put K k v s = (s', Some e) \<Longrightarrow> view s' = view s \<or> view s' = (view s)(k \<mapsto> v)"
    and del_ok: "ok s \<Longrightarrow> ok (fst (kv_delete K k s))"
    and del_done: "ok s \<Longrightarrow> kv_delete K k s = (s', None) \<Longrightarrow> view s' = (view s)(k := None)"
    and del_fail: "ok s \<Longrightarrow> kv_delete K k s = (s', Some e) \<Longrightarrow> view s' = view s \<or> view s' = (view s)(k := None)"
    and del_missing: "ok s \<Longrightarrow> kv_delete K k s = (s', Some Not_Found) \<Longrightarrow> view s' = view s \<and> view s k = None"
begin

lemma get_view: "ok s \<Longrightarrow> ok t \<Longrightarrow> view s k = view t k \<Longrightarrow> kv_get K k s = kv_get K k t"
  by (simp add: get_law)

lemma client_upsert_view:
  assumes "ok s" "client_upsert K G (Some c) s = (s', None)"
  shows "ok s'" and "\<not> prefix ''clients:'' k \<Longrightarrow> view s' k = view s k"
proof -
  have put: "kv_put K (''clients:'' @ cl_key c) (client_to_json G c) s = (s', None)"
    using assms(2) by (auto simp: client_upsert_def split: if_split_asm)
  show "ok s'" using put_ok [OF assms(1), of "''clients:'' @ cl_key c" "client_to_json G c"] put by simp
  show "\<not> prefix ''clients:'' k \<Longrightarrow> view s' k = view s k" using put_done [OF assms(1) put] by auto
qed

lemma custom_list_view:
  assumes "ok s"
  shows "d \<in> set (custom_list K l s) \<longleftrightarrow> view s (''customlist:'' @ l @ '':'' @ d) \<noteq> None"
proof -
  let ?p = "''customlist:'' @ l @ '':''"
  have trim: "trim_prefix ?p (?p @ x) = x" for x by (simp add: trim_prefix_def)
  have key: "k \<in> fst ` set (kv_scan K ?p s) \<longleftrightarrow> prefix ?p k \<and> view s k \<noteq> None" for k
  proof -
    have "k \<in> fst ` set (kv_scan K ?p s) \<longleftrightarrow> map_of (kv_scan K ?p s) k \<noteq> None"
      by (simp add: map_of_eq_None_iff)
    also have "\<dots> \<longleftrightarrow> prefix ?p k \<and> view s k \<noteq> None" using scan_law [OF assms, of ?p k] by simp
    finally show ?thesis .
  qed
  have "d \<in> set (custom_list K l s) \<longleftrightarrow> d \<in> trim_prefix ?p ` (fst ` set (kv_scan K ?p s))"
    unfolding custom_list_def Let_def by (simp add: image_image case_prod_unfold)
  also have "\<dots> \<longleftrightarrow> view s (?p @ d) \<noteq> None"
  proof
    assume "d \<in> trim_prefix ?p ` (fst ` set (kv_scan K ?p s))"
    then obtain k where k: "d = trim_prefix ?p k" "k \<in> fst ` set (kv_scan K ?p s)" by blast
    then obtain x where "k = ?p @ x" "view s k \<noteq> None" using key [of k] by (auto simp: prefix_def)
    moreover from this k(1) trim [of x] have "d = x" by (simp only:)
    ultimately show "view s (?p @ d) \<noteq> None" by (simp only: not_False_eq_True)
  next
    assume "view s (?p @ d) \<noteq> None"
    then have "?p @ d \<in> fst ` set (kv_scan K ?p s)" using key [of "?p @ d"] by (simp only: prefixI) simp
    then show "d \<in> trim_prefix ?p ` (fst ` set (kv_scan K ?p s))" using trim [of d] by (metis image_eqI)
  qed
  finally show ?thesis by simp
qed

lemma client_upsert_done:
  assumes "ok s" "client_fits G c" "client_upsert K G (Some c) s = (s', None)"
  shows "ok s'" and "client_get K G (cl_key c) s' = Inr c"
    and "k \<noteq> cl_key c \<Longrightarrow> client_get K G k s' = client_get K G k s"
    and "session_get K G t s' = session_get K G t s"
proof -
  have put: "kv_put K (''clients:'' @ cl_key c) (client_to_json G c) s = (s', None)"
    using assms(3) by (auto simp: client_upsert_def split: if_split_asm)
  have v: "view s' = (view s)(''clients:'' @ cl_key c \<mapsto> client_to_json G c)"
    using put_done [OF assms(1) put] .
  show ok': "ok s'" using put_ok [OF assms(1), of "''clients:'' @ cl_key c" "client_to_json G c"] put by simp
  show "client_get K G (cl_key c) s' = Inr c"
    using client_roundtrip [OF assms(2)] by (simp add: client_get_def get_law [OF ok'] v decode_def)
  show "k \<noteq> cl_key c \<Longrightarrow> client_get K G k s' = client_get K G k s"
    using get_view [OF ok' assms(1)] v by (simp add: client_get_def)
  show "session_get K G t s' = session_get K G t s"
    using get_view [OF ok' assms(1)] v by (simp add: session_get_def)
qed

lemma session_upsert_done:
  assumes "ok s" "session_fits G v" "session_upsert K G (Some v) s = (s', None)"
  shows "ok s'" and "session_get K G (se_token v) s' = Inr v"
    and "t \<noteq> se_token v \<Longrightarrow> session_get K G t s' = session_get K G t s"
    and "client_get K G k s' = client_get K G k s"
proof -
  have put: "kv_put K (''session:'' @ se_token v) (session_to_json G v) s = (s', None)"
    using assms(3) by (auto simp: session_upsert_def split: if_split_asm)
  have w: "view s' = (view s)(''session:'' @ se_token v \<mapsto> session_to_json G v)"
    using put_done [OF assms(1) put] .
  show ok': "ok s'" using put_ok [OF assms(1), of "''session:'' @ se_token v" "session_to_json G v"] put by simp
  show "session_get K G (se_token v) s' = Inr v"
    using session_roundtrip [OF assms(2)] by (simp add: session_get_def get_law [OF ok'] w decode_def)
  show "t \<noteq> se_token v \<Longrightarrow> session_get K G t s' = session_get K G t s"
    using get_view [OF ok' assms(1)] w by (simp add: session_get_def)
  show "client_get K G k s' = client_get K G k s"
    using get_view [OF ok' assms(1)] w by (simp add: client_get_def)
qed

lemma session_delete_done:
  assumes "ok s" "session_delete K token s = (s', None)"
  shows "ok s'" and "session_get K G t s' = (if t = token then Inl Not_Found else session_get K G t s)"
proof -
  have del: "kv_delete K (''session:'' @ token) s = (s', None)" using assms(2) by (simp add: session_delete_def)
  show ok': "ok s'" using del_ok [OF assms(1), of "''session:'' @ token"] del by simp
  show "session_get K G t s' = (if t = token then Inl Not_Found else session_get K G t s)"
    using del_done [OF assms(1) del] by (simp add: session_get_def get_law [OF ok'] get_law [OF assms(1)] decode_def)
qed

lemma delete_expired_rows_done:
  assumes "delete_expired_rows K G now rows s = (s', None)" "ok s"
  shows "ok s' \<and> (\<forall>(k, raw) \<in> set rows. session_of_json G raw \<noteq> None)
    \<and> (\<forall>k. view s' k = (if \<exists>raw. (k, raw) \<in> set rows \<and> expired_row G now raw then None else view s k))"
  using assms
proof (induction rows arbitrary: s)
  case (Cons row rows)
  obtain key raw where row: "row = (key, raw)" by (cases row)
  from Cons.prems(1) obtain v where v: "session_of_json G raw = Some v" by (auto simp: row split: option.splits)
  show ?case
  proof (cases "expired_row G now raw")
    case False
    with Cons.prems v have "delete_expired_rows K G now rows s = (s', None)"
      by (auto simp: row expired_row_def split: if_split_asm)
    from Cons.IH [OF this Cons.prems(2)] False v show ?thesis by (auto simp: row)
  next
    case True
    obtain t r where t: "kv_delete K key s = (t, r)" by (cases "kv_delete K key s")
    have okt: "ok t" using del_ok [OF Cons.prems(2), of key] t by simp
    have "delete_expired_rows K G now rows t = (s', None)" "r = None \<or> r = Some Not_Found"
      using Cons.prems(1) True v t by (auto simp: row expired_row_def split: option.splits if_split_asm)
    moreover from this(2) have "view t = (view s)(key := None)"
      using del_done [OF Cons.prems(2), of key t] del_missing [OF Cons.prems(2), of key t] t by auto
    ultimately show ?thesis using Cons.IH [OF _ okt] True v by (auto simp: row)
  qed
qed simp

lemma delete_expired_done:
  assumes "ok s" "delete_expired K G now s = (s', None)"
  shows "ok s'" and "session_get K G t s' =
      (case session_get K G t s of
         Inr v \<Rightarrow> if \<not> time_is_zero (se_expires_at v) \<and> se_expires_at v < now then Inl Not_Found else Inr v
       | Inl e \<Rightarrow> Inl e)"
    and "client_get K G k s' = client_get K G k s"
proof -
  let ?rows = "kv_scan K ''session:'' s"
  note d = delete_expired_rows_done [OF assms(2) [unfolded delete_expired_def] assms(1)]
  have rows: "(k, raw) \<in> set ?rows \<longleftrightarrow> prefix ''session:'' k \<and> view s k = Some raw" for k raw
    using scan_law [OF assms(1), of "''session:''" k] map_of_ok_iff [of ?rows k raw]
    by (auto split: if_split_asm)
  then have view: "view s' k = (case view s k of None \<Rightarrow> None
      | Some raw \<Rightarrow> if prefix ''session:'' k \<and> expired_row G now raw then None else Some raw)" for k
    using d by (auto split: option.splits)
  have dec: "session_of_json G raw \<noteq> None" if "prefix ''session:'' k" "view s k = Some raw" for k raw
    using d rows that by blast
  show ok': "ok s'" using d by blast
  show "session_get K G t s' =
      (case session_get K G t s of
         Inr v \<Rightarrow> if \<not> time_is_zero (se_expires_at v) \<and> se_expires_at v < now then Inl Not_Found else Inr v
       | Inl e \<Rightarrow> Inl e)"
    using dec [of "''session:'' @ t"]
    by (auto simp: session_get_def get_law [OF ok'] get_law [OF assms(1)] view decode_def expired_row_def
        split: option.splits)
  show "client_get K G k s' = client_get K G k s"
    by (auto simp: client_get_def get_law [OF ok'] get_law [OF assms(1)] view decode_def split: option.splits)
qed

end

definition file_ok :: "file_store \<Rightarrow> bool" where
  "file_ok s \<longleftrightarrow> alist_ok (fs_data s)"

lemma save_locked_data [simp]:
  "fs_data (fst (save_locked io s)) = fs_data s" "fs_closed (fst (save_locked io s)) = fs_closed s"
  by (simp_all add: save_locked_def Let_def split: save_result.split)

lemma save_locked_error: "save_locked io s = (s', Some e) \<Longrightarrow> \<exists>m. e = Io_Error m"
  by (auto simp: save_locked_def Let_def split: save_result.splits)

interpretation fkv: kv_store "file_ops io" "\<lambda>s. map_of (fs_data s)" file_ok for io
proof unfold_locales
  fix s s' :: file_store and k p :: string and v :: json and e
  assume ok: "file_ok s"
  have data: "fs_data s'' = fs_data t" if "save_locked io t = (s'', r)" for s'' t r
    using save_locked_data(1) [of io t] that by simp
  show "kv_get (file_ops io) k s = (case map_of (fs_data s) k of None \<Rightarrow> Inl Not_Found | Some v \<Rightarrow> Inr v)"
    by (simp add: file_ops_def file_get_def)
  show "alist_ok (kv_scan (file_ops io) p s)
      \<and> map_of (kv_scan (file_ops io) p s) k = (if prefix p k then map_of (fs_data s) k else None)"
    using ok by (simp add: file_ops_def file_scan_def file_ok_def map_of_filter_key distinct_map_filter)
  show "file_ok (fst (kv_put (file_ops io) k v s))" "file_ok (fst (kv_delete (file_ops io) k s))"
    using ok by (simp_all add: file_ops_def file_put_def file_delete_def file_ok_def)
  show "map_of (fs_data s') = (map_of (fs_data s))(k \<mapsto> v)" if "kv_put (file_ops io) k v s = (s', None)"
    using that by (auto simp: file_ops_def file_put_def fun_eq_iff dest: data split: if_split_asm)
  show "map_of (fs_data s') = map_of (fs_data s) \<or> map_of (fs_data s') = (map_of (fs_data s))(k \<mapsto> v)"
    if "kv_put (file_ops io) k v s = (s', Some e)"
    using that by (auto simp: file_ops_def file_put_def fun_eq_iff dest: data split: if_split_asm)
  show "map_of (fs_data s') = (map_of (fs_data s))(k := None)" if "kv_delete (file_ops io) k s = (s', None)"
    using that by (auto simp: file_ops_def file_delete_def fun_eq_iff dest: data split: if_split_asm)
  show "map_of (fs_data s') = map_of (fs_data s) \<or> map_of (fs_data s') = (map_of (fs_data s))(k := None)"
    if "kv_delete (file_ops io) k s = (s', Some e)"
    using that by (auto simp: file_ops_def file_delete_def fun_eq_iff dest: data split: if_split_asm)
  show "map_of (fs_data s') = map_of (fs_data s) \<and> map_of (fs_data s) k = None"
    if "kv_delete (file_ops io) k s = (s', Some Not_Found)"
    using that by (auto simp: file_ops_def file_delete_def dest: save_locked_error split: if_split_asm)
qed

section \<open>Opening again\<close>

lemma apply_migrations_keeps:
  assumes "file_ok s" "apply_migrations io v vs s = (s', None)"
  shows "file_ok s'" and "k \<noteq> ''store_meta:schema_version'' \<Longrightarrow> map_of (fs_data s') k = map_of (fs_data s) k"
proof -
  have "file_ok s' \<and> (k \<noteq> ''store_meta:schema_version'' \<longrightarrow> map_of (fs_data s') k = map_of (fs_data s) k)"
    using assms
  proof (induction vs arbitrary: s)
    case (Cons m vs)
    show ?case
    proof (cases "m \<le> v")
      case False
      then obtain t where t: "file_put io ''store_meta:schema_version'' (JNum m) s = (t, None)"
        "apply_migrations io v vs t = (s', None)" using Cons.prems(2) by (auto split: prod.splits option.splits)
      have put: "kv_put (file_ops io) ''store_meta:schema_version'' (JNum m) s = (t, None)" using t(1) by (simp add: file_ops_def)
      have "file_ok t" using fkv.put_ok [OF Cons.prems(1), of io "''store_meta:schema_version''" "JNum m"] put by simp
      with Cons.IH [OF _ t(2)] fkv.put_done [OF Cons.prems(1) put] show ?thesis by simp
    qed (use Cons in simp)
  qed simp
  then show "file_ok s'" "k \<noteq> ''store_meta:schema_version'' \<Longrightarrow> map_of (fs_data s') k = map_of (fs_data s) k" by simp_all
qed

text \<open>A file that is opened has every key of the file.\<close>

lemma open_file_keeps:
  assumes "open_file_store io (Some (Some kvs)) = Inr s" "k \<in> fst ` set kvs" "k \<noteq> ''store_meta:schema_version''"
  shows "file_ok s" and "map_of (fs_data s) k \<noteq> None"
proof -
  let ?d = "fold (\<lambda>(k, v). AList.update k v) kvs []"
  have d: "alist_ok (fold (\<lambda>(k, v). AList.update k v) xs m) \<and>
      fst ` set (fold (\<lambda>(k, v). AList.update k v) xs m) = fst ` set m \<union> fst ` set xs"
    if "alist_ok m" for xs m :: "(string \<times> json) list"
    using that
  proof (induction xs arbitrary: m)
    case (Cons x xs)
    obtain a b where x: "x = (a, b)" by (cases x)
    have "alist_ok (AList.update a b m)" using Cons.prems by simp
    from Cons.IH [OF this] show ?case by (simp add: x)
  qed simp
  have keys: "alist_ok ?d" "k \<in> fst ` set ?d" using d [of "[]" kvs] assms(2) by simp_all
  let ?s = "\<lparr>fs_data = ?d, fs_closed = False, fs_disk = Some kvs, fs_saves = 0\<rparr>"
  have run: "run_migrations io ?s = (s, None)"
    using assms(1) by (simp add: open_file_store_def Let_def split: prod.splits option.splits)
  have ok: "file_ok ?s" using keys(1) by (simp add: file_ok_def)
  have "file_ok s \<and> map_of (fs_data s) k = map_of (fs_data ?s) k"
  proof (cases "schema_version \<le> stored_version ?s")
    case True
    with run ok show ?thesis by (simp add: run_migrations_def)
  next
    case False
    with run have "apply_migrations io (stored_version ?s) [1, 2, 3, 4, 5, 6, 7] ?s = (s, None)"
      by (simp add: run_migrations_def Let_def)
    from apply_migrations_keeps [OF ok this] assms(3) show ?thesis by blast
  qed
  with keys(2) show "file_ok s" "map_of (fs_data s) k \<noteq> None" by (simp_all add: map_of_eq_None_iff)
qed

section \<open>Durability\<close>

text \<open>\<open>synced\<close>: the file holds what memory holds.\<close>

definition synced :: "file_store \<Rightarrow> bool" where
  "synced s \<longleftrightarrow> fs_disk s = Some (map (\<lambda>(k, v). (json_string k, v)) (fs_data s))"

lemma file_put_synced: "file_put io k v s = (s', None) \<Longrightarrow> synced s' \<and> \<not> fs_closed s'"
  by (auto simp: file_put_def save_locked_def Let_def synced_def split: if_split_asm save_result.splits)

lemma file_delete_synced: "file_delete io k s = (s', None) \<Longrightarrow> synced s' \<and> \<not> fs_closed s'"
  by (auto simp: file_delete_def save_locked_def Let_def synced_def split: if_split_asm save_result.splits)

lemma file_close_synced: "file_close io s = (s', None) \<Longrightarrow> fs_closed s' \<and> (fs_closed s \<or> synced s')"
  by (auto simp: file_close_def save_locked_def Let_def synced_def split: if_split_asm save_result.splits prod.splits option.splits)

lemma closed_frozen:
  assumes "fs_closed s"
  shows "file_put io k v s = (s, Some Store_Closed)" "file_delete io k s = (s, Some Store_Closed)"
    "file_close io s = (s, None)"
  using assms by (simp_all add: file_put_def file_delete_def file_close_def)

section \<open>Properties\<close>

text \<open>A client record whose strings are valid UTF-8 and whose times the format carries reads back
  exactly as it was stored; the upsert leaves every other client and every session as it was,
  and when it reports success the file holds what memory holds.\<close>

theorem client_store_roundtrip:
  assumes "file_ok s" "client_fits G c" "client_upsert (file_ops io) G (Some c) s = (s', None)"
  shows "client_get (file_ops io) G (cl_key c) s' = Inr c \<and> synced s'
    \<and> (k \<noteq> cl_key c \<longrightarrow> client_get (file_ops io) G k s' = client_get (file_ops io) G k s)
    \<and> session_get (file_ops io) G t s' = session_get (file_ops io) G t s"
proof -
  have "file_put io (''clients:'' @ cl_key c) (client_to_json G c) s = (s', None)"
    using assms(3) by (auto simp: client_upsert_def file_ops_def split: if_split_asm)
  then show ?thesis
    using file_put_synced fkv.client_upsert_done [OF assms] by blast
qed

definition empty_store :: file_store where
  "empty_store = \<lparr>fs_data = [], fs_closed = False, fs_disk = None, fs_saves = 0\<rparr>"

definition laptop :: client where
  "laptop = \<lparr>cl_key = ''aa:bb:cc:dd:ee:ff'', cl_type = ''mac'', cl_name = ''laptop'', cl_group = ''kids'',
     cl_first_seen = 5, cl_last_seen = 9, cl_last_ip = ''10.0.0.7'', cl_hidden = False\<rparr>"

lemma laptop_fits: "client_fits ascii_lib laptop"
proof -
  have "valid_utf8 (cl_key laptop) \<and> valid_utf8 (cl_type laptop) \<and> valid_utf8 (cl_name laptop)
      \<and> valid_utf8 (cl_group laptop) \<and> valid_utf8 (cl_last_ip laptop)" by code_simp
  moreover have "time_fits ascii_lib 5" "time_fits ascii_lib 9"
    by (simp_all add: ascii_lib_times min_int64_def max_int64_def)
  ultimately show ?thesis by (simp add: client_fits_def laptop_def)
qed

theorem client_store_roundtrip_witness:
  "\<exists>s. client_upsert (file_ops (\<lambda>_. Saved)) ascii_lib (Some laptop) empty_store = (s, None)
     \<and> client_get (file_ops (\<lambda>_. Saved)) ascii_lib ''aa:bb:cc:dd:ee:ff'' s = Inr laptop"
proof -
  have "snd (client_upsert (file_ops (\<lambda>_. Saved)) ascii_lib (Some laptop) empty_store) = None"
    by (simp add: client_upsert_def laptop_def file_ops_def file_put_def save_locked_def empty_store_def Let_def)
  then obtain s where s: "client_upsert (file_ops (\<lambda>_. Saved)) ascii_lib (Some laptop) empty_store = (s, None)"
    by (metis prod.collapse)
  have "file_ok empty_store" by (simp add: file_ok_def empty_store_def)
  from client_store_roundtrip [OF this laptop_fits s] s show ?thesis by (auto simp: laptop_def)
qed

text \<open>When the purge of expired sessions succeeds, exactly the sessions with a set expiry before
  now are gone; every other session and every client reads as before.\<close>

theorem session_purge_exact:
  assumes "file_ok s" "delete_expired (file_ops io) G now s = (s', None)"
  shows "session_get (file_ops io) G t s' =
      (case session_get (file_ops io) G t s of
         Inr v \<Rightarrow> if se_expires_at v \<noteq> 0 \<and> se_expires_at v < now then Inl Not_Found else Inr v
       | Inl e \<Rightarrow> Inl e)
    \<and> client_get (file_ops io) G k s' = client_get (file_ops io) G k s"
  using fkv.delete_expired_done(2,3) [OF assms] by (auto simp: time_is_zero_def split: sum.split)

definition one_session :: file_store where
  "one_session = empty_store\<lparr>fs_data :=
     [(''session:t'', session_to_json ascii_lib \<lparr>se_token = ''t'', se_username = ''root'', se_expires_at = 5\<rparr>)]\<rparr>"

theorem session_purge_exact_witness:
  "\<exists>s. delete_expired (file_ops (\<lambda>_. Saved)) ascii_lib 9 one_session = (s, None)
     \<and> session_get (file_ops (\<lambda>_. Saved)) ascii_lib ''t'' s = Inl Not_Found"
proof -
  let ?v = "\<lparr>se_token = ''t'', se_username = ''root'', se_expires_at = 5\<rparr>"
  have "session_fits ascii_lib ?v"
    by (simp add: session_fits_def ascii_lib_times min_int64_def max_int64_def) code_simp
  then have dec: "session_of_json ascii_lib (session_to_json ascii_lib ?v) = Some ?v" by (rule session_roundtrip)
  have "snd (delete_expired (file_ops (\<lambda>_. Saved)) ascii_lib 9 one_session) = None"
    by (simp add: delete_expired_def file_ops_def file_scan_def one_session_def empty_store_def dec
        time_is_zero_def file_delete_def save_locked_def Let_def)
  then obtain s where s: "delete_expired (file_ops (\<lambda>_. Saved)) ascii_lib 9 one_session = (s, None)"
    by (metis prod.collapse)
  have ok: "file_ok one_session" by (simp add: file_ok_def one_session_def empty_store_def)
  have "session_get (file_ops (\<lambda>_. Saved)) ascii_lib ''t'' one_session = Inr ?v"
    by (simp add: session_get_def file_ops_def file_get_def one_session_def empty_store_def decode_def dec)
  with session_purge_exact [OF ok s, of "''t''"] s show ?thesis by auto
qed

end
