(* ===== verification/Stats_Aggregator.thy ===== *)
theory Stats_Aggregator
  imports Stats_Counters Kv_Store
begin

text \<open>
  \<open>internal/stats/aggregator.go\<close>: the deltas of the live counters written once a minute into minute
  rows and added to hourly and daily rows.  The timer of \<open>Run\<close> is not modelled: each tick is one
  \<open>flush\<close> at the time read then.
\<close>

record aggregator =
  ag_last :: "stats_snapshot option"      \<comment> \<open>\<open>hasLast\<close> and \<open>last\<close>\<close>

definition delta_counter :: "u64 \<Rightarrow> u64 \<Rightarrow> u64" where
  "delta_counter current previous = (if current < previous then current else current - previous)"

definition truncate_time :: "duration \<Rightarrow> gotime \<Rightarrow> gotime" where
  "truncate_time d t = t - t mod d"

definition unix_seconds :: "gotime \<Rightarrow> int" where
  "unix_seconds t = t div second - 62135596800"

definition bucket_key :: "duration \<Rightarrow> gotime \<Rightarrow> string" where
  "bucket_key d now = show_int (unix_seconds (truncate_time d now))"

definition since_last :: "stats_snapshot option \<Rightarrow> (stats_snapshot \<Rightarrow> u64) \<Rightarrow> stats_snapshot \<Rightarrow> u64" where
  "since_last prev field snap =
     (case prev of None \<Rightarrow> field snap | Some l \<Rightarrow> delta_counter (field snap) (field l))"

definition deltas :: "stats_snapshot option \<Rightarrow> stats_snapshot \<Rightarrow> (string, u64) alist" where
  "deltas prev snap =
     [(''queries'', since_last prev ss_queries snap), (''cache_hit'', since_last prev ss_cache_hit snap),
      (''cache_miss'', since_last prev ss_cache_miss snap), (''blocked'', since_last prev ss_blocked snap),
      (''rate_limited'', since_last prev ss_rate_limited snap), (''malformed'', since_last prev ss_malformed snap)]"

definition count_of :: "(string, u64) alist \<Rightarrow> string \<Rightarrow> u64" where
  "count_of m name = (case map_of m name of None \<Rightarrow> 0 | Some c \<Rightarrow> c)"

definition add_counts :: "(string, u64) alist \<Rightarrow> (string, u64) alist \<Rightarrow> (string, u64) alist" where
  "add_counts delta m = fold (\<lambda>(name, v) m. AList.update name (count_of m name + v) m) delta m"

definition add_rollup ::
  "'s kvops \<Rightarrow> string \<Rightarrow> string \<Rightarrow> (string, u64) alist \<Rightarrow> 's \<Rightarrow> 's \<times> store_error option" where
  "add_rollup K granularity key delta s =
     (let store = (\<lambda>row. stats_put K granularity key
                     (Some (row\<lparr>sr_counters := add_counts delta (sr_counters row)\<rparr>)) s) in
      case stats_get K granularity key s of
        Inr row \<Rightarrow> store row
      | Inl e \<Rightarrow>
          if e \<noteq> Not_Found then (s, Some e) else store \<lparr>sr_bucket = [], sr_counters = []\<rparr>)"

definition flush ::
  "'s kvops \<Rightarrow> gotime \<Rightarrow> counters \<Rightarrow> aggregator \<Rightarrow> 's \<Rightarrow> aggregator \<times> 's \<times> store_error option" where
  "flush K now c a s =
     (let snap = stats_snapshot_of c;
          delta = deltas (ag_last a) snap in
      case stats_put K ''1m'' (bucket_key minute now) (Some \<lparr>sr_bucket = [], sr_counters = delta\<rparr>) s of
        (s, Some e) \<Rightarrow> (a, s, Some e)
      | (s, None) \<Rightarrow>
          (case add_rollup K ''1h'' (bucket_key hour now) delta s of
             (s, Some e) \<Rightarrow> (a, s, Some e)
           | (s, None) \<Rightarrow>
               (case add_rollup K ''1d'' (bucket_key (24 * hour) now) delta s of
                  (s, Some e) \<Rightarrow> (a, s, Some e)
                | (s, None) \<Rightarrow> (a\<lparr>ag_last := Some snap\<rparr>, s, None))))"

section \<open>Rows survive storing\<close>

definition row_fits :: "stats_row \<Rightarrow> bool" where
  "row_fits r \<longleftrightarrow> alist_ok (sr_counters r) \<and> (\<forall>k \<in> keys (sr_counters r). valid_utf8 k)"

lemma stats_names_lower: "list_all (\<lambda>k. map lower_char k = k) [''bucket'', ''counters'']"
  by code_simp

lemma stats_field:
  "json_field [(''bucket'', a), (''counters'', b)] n =
   (case map_of [(''counters'', b), (''bucket'', a)] n of None \<Rightarrow> JNull | Some v \<Rightarrow> v)"
  by (subst json_field_lower) (simp_all only: list.map fst_conv stats_names_lower rev.simps append.simps)

lemma json_u64 [simp]: "json_to_u64 (JNum (uint (v :: u64))) = Some v"
  using uint_bounded [of v] by simp

lemma counters_roundtrip:
  assumes "alist_ok (m :: (string, u64) alist)" "\<forall>k \<in> keys m. valid_utf8 k"
  obtains m' where "json_to_counters (JObj (map (\<lambda>(k, v). (json_string k, JNum (uint v))) m)) = Some m'"
    "map_of m' = map_of m" "alist_ok m'"
proof -
  have "fold (\<lambda>(k, j) acc. case (acc, json_to_u64 j) of
             (Some m, Some v) \<Rightarrow> Some (AList.update k v m) | _ \<Rightarrow> None)
      (map (\<lambda>(k, v). (json_string k, JNum (uint v))) m) (Some a) = Some (fold (\<lambda>(k, v). AList.update k v) m a)"
    if "\<forall>k \<in> keys m. valid_utf8 k" for a and m :: "(string, u64) alist"
    using that by (induction m arbitrary: a) (auto simp: json_string_valid simp del: json_to_u64.simps)
  from this [OF assms(2), of "[]"]
  have dec: "json_to_counters (JObj (map (\<lambda>(k, v). (json_string k, JNum (uint v))) m))
      = Some (fold (\<lambda>(k, v). AList.update k v) m [])" by simp
  have "map_of (fold (\<lambda>(k, v). AList.update k v) m a) k = (case map_of m k of Some v \<Rightarrow> Some v | None \<Rightarrow> map_of a k)
      \<and> (alist_ok a \<longrightarrow> alist_ok (fold (\<lambda>(k, v). AList.update k v) m a))"
    if "alist_ok m" for a k and m :: "(string, u64) alist"
    using that
  proof (induction m arbitrary: a)
    case (Cons x m)
    then have "map_of m (fst x) = None" by (simp add: map_of_eq_None_iff)
    with Cons show ?case by (auto simp: case_prod_unfold split: option.split)
  qed simp
  from this [OF assms(1), of "[]"] that [OF dec] show thesis
    by (simp add: fun_eq_iff split: option.split)
qed

lemma row_roundtrip:
  assumes "row_fits r" "valid_utf8 (sr_bucket r)"
  obtains r' where "stats_row_of_json (stats_row_to_json r) = Some r'" "sr_bucket r' = sr_bucket r"
    "map_of (sr_counters r') = map_of (sr_counters r)" "row_fits r'"
proof -
  let ?m = "sort_key fst (sr_counters r)"
  have ok: "alist_ok ?m" "\<forall>k \<in> keys ?m. valid_utf8 k"
    using assms(1) by (auto simp: row_fits_def distinct_map)
  then obtain m' where m': "json_to_counters (JObj (map (\<lambda>(k, v). (json_string k, JNum (uint v))) ?m)) = Some m'"
    "map_of m' = map_of ?m" "alist_ok m'" by (rule counters_roundtrip)
  have "map_of ?m = map_of (sr_counters r)"
    using ok(1) assms(1) by (intro map_of_eqI) (auto simp: row_fits_def map_of_ok_iff)
  moreover have "keys m' = keys ?m"
    by (rule set_eqI) (simp only: keys_iff_map_of m'(2))
  ultimately show thesis
    using that [of "\<lparr>sr_bucket = sr_bucket r, sr_counters = m'\<rparr>"] m' ok assms
    by (simp add: stats_row_to_json_def stats_field json_string_valid row_fits_def)
qed

section \<open>What a flush writes\<close>

definition stored_count :: "'s kvops \<Rightarrow> string \<Rightarrow> string \<Rightarrow> string \<Rightarrow> 's \<Rightarrow> u64" where
  "stored_count K granularity key name s =
     (case stats_get K granularity key s of Inr r \<Rightarrow> count_of (sr_counters r) name | Inl _ \<Rightarrow> 0)"

definition row_readable :: "'s kvops \<Rightarrow> string \<Rightarrow> string \<Rightarrow> 's \<Rightarrow> bool" where
  "row_readable K granularity key s \<longleftrightarrow> (\<forall>r. stats_get K granularity key s = Inr r \<longrightarrow> row_fits r)"

lemma count_of_update [simp]: "count_of (AList.update n v m) n' = (if n' = n then v else count_of m n')"
  by (simp add: count_of_def)

lemma count_of_add:
  "alist_ok delta \<Longrightarrow> count_of (add_counts delta m) n = count_of m n + count_of delta n"
proof (induction delta arbitrary: m)
  case (Cons x delta)
  then have "fst x \<notin> keys delta" "alist_ok delta" by simp_all
  then have "count_of delta (fst x) = 0" by (simp add: count_of_def map_of_eq_None_iff [THEN iffD2])
  with Cons.IH [OF \<open>alist_ok delta\<close>, of "AList.update (fst x) (count_of m (fst x) + snd x) m"]
  show ?case by (auto simp: add_counts_def case_prod_unfold) (simp_all add: count_of_def)
qed (simp add: add_counts_def count_of_def)

lemma add_counts_fits:
  assumes "row_fits r" "\<forall>k \<in> keys delta. valid_utf8 k"
  shows "row_fits (r\<lparr>sr_counters := add_counts delta (sr_counters r)\<rparr>)"
proof -
  define P where "P m \<longleftrightarrow> alist_ok m \<and> (\<forall>k \<in> keys m. valid_utf8 k)" for m :: "(string, u64) alist"
  have step: "P (AList.update k v m)" if "P m" "valid_utf8 k" for k v m
    using that by (auto simp: P_def dest!: in_set_update)
  have "P (add_counts delta m)" if "P m" for m
    using that assms(2) unfolding add_counts_def
    by (induction delta arbitrary: m) (simp_all add: case_prod_unfold step)
  with assms(1) show ?thesis by (simp add: row_fits_def P_def)
qed

lemma stats_key_eq:
  assumes "length g = length g'"
  shows "''stats:'' @ g @ '':'' @ b = ''stats:'' @ g' @ '':'' @ b' \<longleftrightarrow> g = g' \<and> b = b'"
  using assms by simp

context kv_store
begin

lemma stats_put_done:
  assumes "ok s" "row_fits r" "valid_utf8 b" "stats_put K g b (Some r) s = (s', None)"
  shows "ok s'" "stored_count K g b n s' = count_of (sr_counters r) n" "row_readable K g b s'"
    and "length g' = length g \<Longrightarrow> g' \<noteq> g \<or> b' \<noteq> b \<Longrightarrow> stats_get K g' b' s' = stats_get K g' b' s"
proof -
  have put: "kv_put K (''stats:'' @ g @ '':'' @ b) (stats_row_to_json (r\<lparr>sr_bucket := b\<rparr>)) s = (s', None)"
    using assms(4) by (auto simp: stats_put_def split: if_split_asm)
  have v: "view s' = (view s)(''stats:'' @ g @ '':'' @ b \<mapsto> stats_row_to_json (r\<lparr>sr_bucket := b\<rparr>))"
    using put_done [OF assms(1) put] .
  show ok': "ok s'" using put_ok [OF assms(1)] put by (metis fst_conv)
  obtain r' where r': "stats_row_of_json (stats_row_to_json (r\<lparr>sr_bucket := b\<rparr>)) = Some r'"
    "map_of (sr_counters r') = map_of (sr_counters r)" "row_fits r'"
    using row_roundtrip [of "r\<lparr>sr_bucket := b\<rparr>"] assms(2,3) by (auto simp: row_fits_def)
  then have get: "stats_get K g b s' = Inr r'"
    by (simp add: stats_get_def get_law [OF ok'] v decode_def)
  from get r' show "stored_count K g b n s' = count_of (sr_counters r) n" "row_readable K g b s'"
    by (simp_all add: stored_count_def row_readable_def count_of_def)
  show "length g' = length g \<Longrightarrow> g' \<noteq> g \<or> b' \<noteq> b \<Longrightarrow> stats_get K g' b' s' = stats_get K g' b' s"
    unfolding stats_get_def get_law [OF ok'] get_law [OF assms(1)] v fun_upd_apply
    using stats_key_eq [of g' g b' b] by (simp only: if_False if_split) auto
qed

lemma add_rollup_done:
  assumes "ok s" "row_readable K g b s" "valid_utf8 b" "alist_ok delta" "\<forall>k \<in> keys delta. valid_utf8 k"
    and "add_rollup K g b delta s = (s', None)"
  shows "ok s'" "stored_count K g b n s' = stored_count K g b n s + count_of delta n" "row_readable K g b s'"
    and "length g' = length g \<Longrightarrow> g' \<noteq> g \<or> b' \<noteq> b \<Longrightarrow> stats_get K g' b' s' = stats_get K g' b' s"
proof -
  obtain row where row: "row_fits row" "stored_count K g b n s = count_of (sr_counters row) n"
    "stats_put K g b (Some (row\<lparr>sr_counters := add_counts delta (sr_counters row)\<rparr>)) s = (s', None)"
  proof (cases "stats_get K g b s")
    case (Inl e)
    with assms(6) that [of "\<lparr>sr_bucket = [], sr_counters = []\<rparr>"] show thesis
      by (auto simp: add_rollup_def row_fits_def stored_count_def count_of_def split: if_split_asm)
  next
    case (Inr r)
    with assms(2,6) that [of r] show thesis
      by (simp add: add_rollup_def row_readable_def stored_count_def)
  qed
  note stored = stats_put_done [OF assms(1) add_counts_fits [OF row(1) assms(5)] assms(3) row(3)]
  show "ok s'" by (rule stored(1))
  show "stored_count K g b n s' = stored_count K g b n s + count_of delta n"
    using stored(2) [of n] by (simp add: row(2) count_of_add [OF assms(4)])
  show "row_readable K g b s'" by (rule stored(3))
  show "length g' = length g \<Longrightarrow> g' \<noteq> g \<or> b' \<noteq> b \<Longrightarrow> stats_get K g' b' s' = stats_get K g' b' s"
    by (rule stored(4))
qed

end

lemma deltas_ok: "alist_ok (deltas prev snap)" "\<forall>k \<in> keys (deltas prev snap). valid_utf8 k"
proof -
  have "\<forall>k \<in> set [''queries'', ''cache_hit'', ''cache_miss'', ''blocked'', ''rate_limited'', ''malformed'']. valid_utf8 k"
    by code_simp
  then show "alist_ok (deltas prev snap)" "\<forall>k \<in> keys (deltas prev snap). valid_utf8 k"
    by (simp_all add: deltas_def)
qed

lemma show_nat_ascii: "list_all is_ascii (show_nat n)"
  using show_nat_digits [of n] by (auto simp: list_all_iff is_digit_def is_ascii_def)

lemma bucket_key_valid: "valid_utf8 (bucket_key d now)"
  by (rule valid_utf8_ascii) (simp add: bucket_key_def show_int_def show_nat_ascii is_ascii_def byte_def)

text \<open>The part of a flush that both theorems below share.\<close>

lemma add_rollup_frame:
  assumes "file_ok s" "row_readable (file_ops io) g b s" "valid_utf8 b"
    and "add_rollup (file_ops io) g b (deltas prev snap) s = (s', None)"
  shows "file_ok s'" "row_readable (file_ops io) g b s'"
    and "stored_count (file_ops io) g b n s' = stored_count (file_ops io) g b n s + count_of (deltas prev snap) n"
    and "length g' = length g \<Longrightarrow> g' \<noteq> g \<or> b' \<noteq> b \<Longrightarrow>
      stats_get (file_ops io) g' b' s' = stats_get (file_ops io) g' b' s"
  using fkv.add_rollup_done [OF assms(1,2,3) deltas_ok assms(4)] by blast+

lemma flush_step:
  fixes now :: gotime and prev :: "stats_snapshot option" and c :: counters
  defines "d \<equiv> deltas prev (stats_snapshot_of c)"
  assumes "file_ok s" "row_readable (file_ops io) ''1h'' (bucket_key hour now) s"
    and "row_readable (file_ops io) ''1d'' (bucket_key (24 * hour) now) s"
    and "flush (file_ops io) now c \<lparr>ag_last = prev\<rparr> s = (a', s', None)"
  shows "ag_last a' = Some (stats_snapshot_of c) \<and>
    stored_count (file_ops io) ''1m'' (bucket_key minute now) n s' = count_of d n \<and>
    stored_count (file_ops io) ''1h'' (bucket_key hour now) n s' =
      stored_count (file_ops io) ''1h'' (bucket_key hour now) n s + count_of d n \<and>
    stored_count (file_ops io) ''1d'' (bucket_key (24 * hour) now) n s' =
      stored_count (file_ops io) ''1d'' (bucket_key (24 * hour) now) n s + count_of d n \<and>
    (length g \<noteq> 2 \<or> (g, b) \<in> {(''1m'', bucket_key minute now), (''1h'', bucket_key hour now),
        (''1d'', bucket_key (24 * hour) now)} \<or>
     stats_get (file_ops io) g b s' = stats_get (file_ops io) g b s)"
proof -
  let ?K = "file_ops io"
  let ?m = "bucket_key minute now" and ?h = "bucket_key hour now" and ?d = "bucket_key (24 * hour) now"
  obtain s1 s2 where put: "stats_put ?K ''1m'' ?m (Some \<lparr>sr_bucket = [], sr_counters = d\<rparr>) s = (s1, None)"
    and hour: "add_rollup ?K ''1h'' ?h d s1 = (s2, None)"
    and day: "add_rollup ?K ''1d'' ?d d s2 = (s', None)" and a': "ag_last a' = Some (stats_snapshot_of c)"
    using assms(5) by (auto simp: flush_def d_def Let_def split: prod.splits option.splits)
  have "row_fits \<lparr>sr_bucket = [], sr_counters = d\<rparr>"
    unfolding d_def row_fits_def using deltas_ok by simp
  note m = fkv.stats_put_done [OF assms(2) this bucket_key_valid put]
  have "row_readable ?K ''1h'' ?h s1" using assms(3) m(4) [of "''1h''" ?h] by (simp add: row_readable_def)
  note h = add_rollup_frame [OF m(1) this bucket_key_valid hour [unfolded d_def]]
  have "row_readable ?K ''1d'' ?d s2"
    using assms(4) m(4) [of "''1d''" ?d] h(4) [of "''1d''" ?d] by (simp add: row_readable_def)
  note dd = add_rollup_frame [OF h(1) this bucket_key_valid day [unfolded d_def]]
  have frame: "stats_get ?K g b s' = stats_get ?K g b s"
    if "length g = 2" "(g, b) \<notin> {(''1m'', ?m), (''1h'', ?h), (''1d'', ?d)}" for g b
    using that m(4) [of g b] h(4) [of g b] dd(4) [of g b] by auto
  have "stored_count ?K ''1m'' ?m n s' = count_of d n"
    using m(2) [of n] h(4) [of "''1m''" ?m] dd(4) [of "''1m''" ?m] by (simp add: stored_count_def)
  moreover have "stored_count ?K ''1h'' ?h n s' = stored_count ?K ''1h'' ?h n s + count_of d n"
    using h(3) [of n] m(4) [of "''1h''" ?h] dd(4) [of "''1h''" ?h] by (simp add: stored_count_def d_def)
  moreover have "stored_count ?K ''1d'' ?d n s' = stored_count ?K ''1d'' ?d n s + count_of d n"
    using dd(3) [of n] m(4) [of "''1d''" ?d] h(4) [of "''1d''" ?d] by (simp add: stored_count_def d_def)
  ultimately show ?thesis using a' frame [of g b] by blast
qed

text \<open>A flush that succeeds writes what was counted since the last successful flush as the row of the
  minute, adds exactly the same amounts to the rows of the hour and of the day, changes no other
  row, and remembers the counters it saw.\<close>

theorem flush_accounts:
  fixes now :: gotime and prev :: "stats_snapshot option" and c :: counters
  defines "d \<equiv> deltas prev (stats_snapshot_of c)"
  assumes "file_ok s" "row_readable (file_ops io) ''1h'' (bucket_key hour now) s"
    and "row_readable (file_ops io) ''1d'' (bucket_key (24 * hour) now) s"
    and "flush (file_ops io) now c \<lparr>ag_last = prev\<rparr> s = (a', s', None)"
  shows "ag_last a' = Some (stats_snapshot_of c) \<and>
    stored_count (file_ops io) ''1m'' (bucket_key minute now) n s' = count_of d n \<and>
    stored_count (file_ops io) ''1h'' (bucket_key hour now) n s' =
      stored_count (file_ops io) ''1h'' (bucket_key hour now) n s + count_of d n \<and>
    stored_count (file_ops io) ''1d'' (bucket_key (24 * hour) now) n s' =
      stored_count (file_ops io) ''1d'' (bucket_key (24 * hour) now) n s + count_of d n \<and>
    (length g \<noteq> 2 \<or> (g, b) \<in> {(''1m'', bucket_key minute now), (''1h'', bucket_key hour now),
        (''1d'', bucket_key (24 * hour) now)} \<or>
     stats_get (file_ops io) g b s' = stats_get (file_ops io) g b s)"
  unfolding d_def by (rule flush_step [OF assms(2-5)])

definition noon :: gotime where
  "noon = 63000000000 * second"

definition one_query :: counters where
  "one_query = inc_query new_counters"

lemma empty_store_unreadable: "row_readable (file_ops io) g b empty_store"
  by (simp add: row_readable_def stats_get_def file_ops_def file_get_def empty_store_def decode_def)

theorem flush_accounts_witness:
  "stored_count (file_ops (\<lambda>_. Saved)) ''1h'' (bucket_key hour noon) ''queries''
     (fst (snd (flush (file_ops (\<lambda>_. Saved)) noon one_query \<lparr>ag_last = None\<rparr> empty_store))) = 1"
proof -
  let ?K = "file_ops (\<lambda>_. Saved)"
  let ?f = "flush ?K noon one_query \<lparr>ag_last = None\<rparr> empty_store"
  have "snd (snd ?f) = None"
    by (simp add: flush_def Let_def stats_put_def add_rollup_def stats_get_def file_ops_def file_put_def
        file_get_def save_locked_def empty_store_def decode_def bucket_key_def show_int_def split: sum.split)
  then have f: "?f = (fst ?f, fst (snd ?f), None)" by (metis prod.collapse)
  have "file_ok empty_store" by (simp add: file_ok_def empty_store_def)
  from flush_accounts [OF this empty_store_unreadable empty_store_unreadable f, of "''queries''" "[]" "[]"]
  show ?thesis
    by (simp add: stored_count_def stats_get_def file_ops_def file_get_def empty_store_def decode_def
        deltas_def since_last_def count_of_def stats_snapshot_of_def one_query_def inc_query_def new_counters_def)
qed

section \<open>A flush that fails half way\<close>

context kv_store
begin

lemma add_rollup_failed:
  assumes "ok s" "add_rollup K g b delta s = (s', Some e)"
  shows "ok s'" "length g' = length g \<Longrightarrow> g' \<noteq> g \<Longrightarrow> stats_get K g' b' s' = stats_get K g' b' s"
proof -
  consider "s' = s" | j where "kv_put K (''stats:'' @ g @ '':'' @ b) j s = (s', Some e)"
    using assms(2) by (auto simp: add_rollup_def stats_put_def Let_def split: sum.splits if_split_asm)
  then have "ok s' \<and> (length g' = length g \<longrightarrow> g' \<noteq> g \<longrightarrow> stats_get K g' b' s' = stats_get K g' b' s)"
  proof cases
    case (2 j)
    have ok': "ok s'" using put_ok [OF assms(1)] 2 by (metis fst_conv)
    have "view s' (''stats:'' @ g' @ '':'' @ b') = view s (''stats:'' @ g' @ '':'' @ b')"
      if "length g' = length g" "g' \<noteq> g"
      using put_fail [OF assms(1) 2] stats_key_eq [OF that(1), of b' b] that(2) by (auto simp del: append.simps append_Cons)
    with ok' show ?thesis by (simp add: stats_get_def get_law [OF ok'] get_law [OF assms(1)])
  qed (use assms(1) in simp)
  then show "ok s'" "length g' = length g \<Longrightarrow> g' \<noteq> g \<Longrightarrow> stats_get K g' b' s' = stats_get K g' b' s"
    by blast+
qed

end

text \<open>When the daily row cannot be written after the hourly one was, the remembered counters stay as
  they were, and the next flush counts the same queries into the hourly row once more.\<close>

lemma flush_retry_double_counts:
  fixes now :: gotime and prev :: "stats_snapshot option" and c :: counters
  defines "d \<equiv> deltas prev (stats_snapshot_of c)"
  assumes "file_ok s" "row_readable (file_ops io) ''1h'' (bucket_key hour now) s"
    and put: "stats_put (file_ops io) ''1m'' (bucket_key minute now) (Some \<lparr>sr_bucket = [], sr_counters = d\<rparr>) s = (s1, None)"
    and hour: "add_rollup (file_ops io) ''1h'' (bucket_key hour now) d s1 = (s2, None)"
    and day: "add_rollup (file_ops io) ''1d'' (bucket_key (24 * hour) now) d s2 = (s3, Some e)"
    and again: "flush (file_ops io) now c \<lparr>ag_last = prev\<rparr> s3 = (a', s', None)"
    and "row_readable (file_ops io) ''1d'' (bucket_key (24 * hour) now) s3"
  shows "flush (file_ops io) now c \<lparr>ag_last = prev\<rparr> s = (\<lparr>ag_last = prev\<rparr>, s3, Some e)"
    and "stored_count (file_ops io) ''1h'' (bucket_key hour now) n s' =
      stored_count (file_ops io) ''1h'' (bucket_key hour now) n s + 2 * count_of d n"
proof -
  let ?K = "file_ops io" and ?h = "bucket_key hour now"
  show "flush (file_ops io) now c \<lparr>ag_last = prev\<rparr> s = (\<lparr>ag_last = prev\<rparr>, s3, Some e)"
    using put hour day by (simp add: flush_def Let_def d_def)
  have "row_fits \<lparr>sr_bucket = [], sr_counters = d\<rparr>"
    unfolding d_def row_fits_def using deltas_ok by simp
  note m = fkv.stats_put_done [OF assms(2) this bucket_key_valid put]
  have "row_readable ?K ''1h'' ?h s1" using assms(3) m(4) [of "''1h''" ?h] by (simp add: row_readable_def)
  note h = add_rollup_frame [OF m(1) this bucket_key_valid hour [unfolded d_def]]
  note f = fkv.add_rollup_failed [OF h(1) day]
  have "stats_get ?K ''1h'' ?h s3 = stats_get ?K ''1h'' ?h s2" using f(2) [of "''1h''" ?h] by simp
  moreover from this h(2) have "row_readable ?K ''1h'' ?h s3" by (simp add: row_readable_def)
  from flush_step [OF f(1) this assms(8) again]
  have "stored_count ?K ''1h'' ?h n s' = stored_count ?K ''1h'' ?h n s3 + count_of d n" by (simp add: d_def)
  ultimately show "stored_count ?K ''1h'' ?h n s' = stored_count ?K ''1h'' ?h n s + 2 * count_of d n"
    using h(3) [of n] m(4) [of "''1h''" ?h] by (simp add: stored_count_def d_def)
qed

end
