(* ===== verification/Dns_Msg.thy ===== *)
theory Dns_Msg
  imports Go_Net Go_Float
begin

text \<open>
  DNS messages.  The message type and the codec are the third-party package
  \<open>miekg/dns\<close>: the messages are records with that package's fields, its functions are the
  fields of \<open>dnslib\<close>, and what the program relies on of them is \<open>dnslib_ok\<close>, the documented
  behaviour of \<open>SetReply\<close>, \<open>Fqdn\<close> and \<open>CanonicalName\<close>.
\<close>

record question =
  q_name :: string
  q_type :: u16
  q_class :: u16

record soa =
  soa_ns :: string
  soa_mbox :: string
  soa_serial :: u32
  soa_refresh :: u32
  soa_retry :: u32
  soa_expire :: u32
  soa_minttl :: u32

record edns_option =
  eo_code :: u16
  eo_data :: string

text \<open>The dynamic type of a resource record, with its data; other types are kept opaque.\<close>

datatype rdata =
    RA ip
  | RAAAA ip
  | RCNAME string
  | RMX string
  | RNS string
  | RPTR string
  | RTXT "string list"
  | RSOA soa
  | ROPT "edns_option list"
  | ROther string

record rr =
  rr_name :: string
  rr_type :: u16
  rr_class :: u16
  rr_ttl :: u32
  rr_data :: rdata

record msg =
  m_id :: u16
  m_response :: bool
  m_opcode :: int
  m_authoritative :: bool
  m_truncated :: bool
  m_recursion_desired :: bool
  m_recursion_available :: bool
  m_zero :: bool
  m_authenticated_data :: bool
  m_checking_disabled :: bool
  m_rcode :: int
  m_question :: "question list"
  m_answer :: "rr list"
  m_ns :: "rr list"
  m_extra :: "rr list"

definition new_msg :: msg where
  "new_msg = \<lparr>m_id = 0, m_response = False, m_opcode = 0, m_authoritative = False,
     m_truncated = False, m_recursion_desired = False, m_recursion_available = False,
     m_zero = False, m_authenticated_data = False, m_checking_disabled = False, m_rcode = 0,
     m_question = [], m_answer = [], m_ns = [], m_extra = []\<rparr>"

record dnslib =
  dl_pack :: "msg \<Rightarrow> string option"
  dl_unpack :: "string \<Rightarrow> msg option"
  dl_set_reply :: "msg \<Rightarrow> msg"             \<comment> \<open>\<open>new(Msg).SetReply(req)\<close>\<close>
  dl_fqdn :: "string \<Rightarrow> string"
  dl_canonical :: "string \<Rightarrow> string"
  dl_rr_string :: "rr \<Rightarrow> string"
  dl_type_name :: "u16 \<Rightarrow> string"
  dl_class_name :: "u16 \<Rightarrow> string"
  dl_rcode_name :: "int \<Rightarrow> string"

definition set_reply_ok :: "dnslib \<Rightarrow> bool" where
  "set_reply_ok D \<longleftrightarrow>
     (\<forall>req. m_id (dl_set_reply D req) = m_id req \<and> m_response (dl_set_reply D req)
        \<and> m_opcode (dl_set_reply D req) = m_opcode req
        \<and> m_question (dl_set_reply D req) = take 1 (m_question req)
        \<and> m_answer (dl_set_reply D req) = [] \<and> m_ns (dl_set_reply D req) = []
        \<and> m_extra (dl_set_reply D req) = [])"

definition type_a :: u16 where "type_a = 1"
definition type_ptr :: u16 where "type_ptr = 12"
definition type_soa :: u16 where "type_soa = 6"
definition type_aaaa :: u16 where "type_aaaa = 28"
definition type_opt :: u16 where "type_opt = 41"
definition type_svcb :: u16 where "type_svcb = 64"
definition type_https :: u16 where "type_https = 65"
definition class_inet :: u16 where "class_inet = 1"
definition edns0_subnet :: u16 where "edns0_subnet = 8"

definition opcode_query :: int where "opcode_query = 0"
definition rcode_success :: int where "rcode_success = 0"
definition rcode_format_error :: int where "rcode_format_error = 1"
definition rcode_server_failure :: int where "rcode_server_failure = 2"
definition rcode_name_error :: int where "rcode_name_error = 3"
definition rcode_not_implemented :: int where "rcode_not_implemented = 4"
definition rcode_refused :: int where "rcode_refused = 5"

lemmas dns_codes = type_a_def type_ptr_def type_soa_def type_aaaa_def type_opt_def type_svcb_def
  type_https_def class_inet_def edns0_subnet_def opcode_query_def rcode_success_def
  rcode_format_error_def rcode_server_failure_def rcode_name_error_def rcode_not_implemented_def
  rcode_refused_def

text \<open>A concrete library for evaluation: the wire format is left out (every message packs to its
  id and names), replies and names follow the documentation.\<close>

definition plain_dns :: dnslib where
  "plain_dns =
    \<lparr>dl_pack = (\<lambda>m. Some (concat (map q_name (m_question m)))),
     dl_unpack = (\<lambda>w. Some (new_msg\<lparr>m_question := [\<lparr>q_name = w, q_type = 1, q_class = 1\<rparr>]\<rparr>)),
     dl_set_reply = (\<lambda>req. new_msg\<lparr>m_id := m_id req, m_response := True, m_opcode := m_opcode req,
        m_recursion_desired := m_recursion_desired req,
        m_checking_disabled := m_checking_disabled req, m_question := take 1 (m_question req)\<rparr>),
     dl_fqdn = (\<lambda>s. if suffix ''.'' s then s else s @ ''.''),
     dl_canonical = (\<lambda>s. let t = map lower_char s in if suffix ''.'' t then t else t @ ''.''),
     dl_rr_string = (\<lambda>r. rr_name r), dl_type_name = (\<lambda>t. if t = 1 then ''A'' else []),
     dl_class_name = (\<lambda>c. if c = 1 then ''IN'' else []), dl_rcode_name = show_int\<rparr>"

lemma plain_dns_ok: "set_reply_ok plain_dns"
  by (simp add: set_reply_ok_def plain_dns_def new_msg_def)

end
