(* ===== verification/Dns_Cache.thy ===== *)
theory Dns_Cache
  imports Dns_Msg "HOL-Library.Monad_Syntax"
begin

text \<open>
  \<open>internal/dns/cache.go\<close>: the LRU response cache.  As in the source, the state is a map from
  keys to list elements and the list of elements, most recently used first; an element is an
  identity (a number, fresh for each \<open>PushFront\<close>) with its entry.  The eviction loop is a
  partial function: it diverges (\<open>None\<close>) when the map is larger than the bound and the list is
  empty.  The abstraction is the list of entries in order of use (\<open>entries_of\<close>).
\<close>

record cache_options =
  co_max_entries :: int
  co_min_ttl :: duration
  co_max_ttl :: duration
  co_negative_ttl :: duration

record cache_key =
  ck_qname :: string
  ck_qtype :: u16
  ck_qclass :: u16

record cache_entry =
  ce_key :: cache_key
  ce_wire :: string
  ce_expires :: gotime

record cache =
  ca_max_entries :: int
  ca_min_ttl :: duration
  ca_max_ttl :: duration
  ca_neg_ttl :: duration
  ca_items :: "(cache_key, nat) alist"
  ca_lru :: "(nat \<times> cache_entry) list"
  ca_next :: nat

section \<open>Operations\<close>

definition new_cache :: "cache_options \<Rightarrow> cache" where
  "new_cache opts =
     \<lparr>ca_max_entries = (if co_max_entries opts \<le> 0 then 100000 else co_max_entries opts),
      ca_min_ttl = (if co_min_ttl opts \<le> 0 then minute else co_min_ttl opts),
      ca_max_ttl = (if co_max_ttl opts \<le> 0 then 24 * hour else co_max_ttl opts),
      ca_neg_ttl = (if co_negative_ttl opts \<le> 0 then hour else co_negative_ttl opts),
      ca_items = [], ca_lru = [], ca_next = 0\<rparr>"

definition ensure_cache :: "cache \<Rightarrow> cache" where
  "ensure_cache c =
     c\<lparr>ca_max_entries := (if ca_max_entries c = 0 then 100000 else ca_max_entries c),
       ca_min_ttl := (if ca_min_ttl c \<le> 0 then minute else ca_min_ttl c),
       ca_max_ttl := (if ca_max_ttl c \<le> 0 then 24 * hour else ca_max_ttl c),
       ca_neg_ttl := (if ca_neg_ttl c \<le> 0 then hour else ca_neg_ttl c)\<rparr>"

definition remove_elem :: "nat option \<Rightarrow> cache \<Rightarrow> cache" where
  "remove_elem elem c =
     (case elem of
        None \<Rightarrow> c
      | Some i \<Rightarrow>
          (case map_of (ca_lru c) i of
             None \<Rightarrow> c
           | Some e \<Rightarrow> c\<lparr>ca_items := AList.delete (ce_key e) (ca_items c),
                          ca_lru := AList.delete i (ca_lru c)\<rparr>))"

definition lru_back :: "cache \<Rightarrow> nat option" where
  "lru_back c = (if ca_lru c = [] then None else Some (fst (last (ca_lru c))))"

definition move_to_front :: "nat \<Rightarrow> cache \<Rightarrow> cache" where
  "move_to_front i c =
     (case map_of (ca_lru c) i of
        None \<Rightarrow> c
      | Some e \<Rightarrow> c\<lparr>ca_lru := (i, e) # AList.delete i (ca_lru c)\<rparr>)"

definition set_entry :: "nat \<Rightarrow> string \<Rightarrow> gotime \<Rightarrow> cache \<Rightarrow> cache" where
  "set_entry i wire expires c =
     c\<lparr>ca_lru := map (\<lambda>(j, e). if j = i then (j, e\<lparr>ce_wire := wire, ce_expires := expires\<rparr>)
                             else (j, e)) (ca_lru c)\<rparr>"

partial_function (option) evict :: "cache \<Rightarrow> cache option" where
  [code]: "evict c =
     (if int (length (ca_items c)) \<le> ca_max_entries c then Some c
      else evict (remove_elem (lru_back c) c))"

definition min_answer_ttl :: "rr list \<Rightarrow> u32" where
  "min_answer_ttl rs =
     (case rs of
        [] \<Rightarrow> 0
      | r # rs \<Rightarrow> fold (\<lambda>r m. if rr_ttl r < m then rr_ttl r else m) rs (rr_ttl r))"

definition ttl_for :: "cache \<Rightarrow> msg \<Rightarrow> duration" where
  "ttl_for c m =
     (if m_rcode m = rcode_name_error \<or> (m_rcode m = rcode_success \<and> m_answer m = []) then ca_neg_ttl c
      else if m_rcode m \<noteq> rcode_success then 0
      else
        let ttl = wrap64 (uint (min_answer_ttl (m_answer m)) * second);
            ttl = (if ttl < ca_min_ttl c then ca_min_ttl c else ttl)
        in (if ca_max_ttl c < ttl then ca_max_ttl c else ttl))"

definition set_ttl :: "u32 \<Rightarrow> rr list \<Rightarrow> rr list" where
  "set_ttl ttl rs =
     map (\<lambda>r. if rr_type r = type_opt then r
              else if ttl < rr_ttl r then r\<lparr>rr_ttl := ttl\<rparr> else r) rs"

definition remaining_ttl :: "gotime \<Rightarrow> gotime \<Rightarrow> u32" where
  "remaining_ttl expires now =
     (let r = u32_of_float (duration_seconds (time_sub expires now)) in if r = 0 then 1 else r)"

text \<open>The message a hit returns: the request's id and question, lifetimes cut to what is left.\<close>

definition answer_from :: "gotime \<Rightarrow> gotime \<Rightarrow> msg option \<Rightarrow> msg \<Rightarrow> msg" where
  "answer_from expires now req m =
     (let m = (case req of None \<Rightarrow> m | Some r \<Rightarrow> m\<lparr>m_id := m_id r, m_question := m_question r\<rparr>);
          ttl = remaining_ttl expires now
      in m\<lparr>m_answer := set_ttl ttl (m_answer m), m_ns := set_ttl ttl (m_ns m),
           m_extra := set_ttl ttl (m_extra m)\<rparr>)"

definition cache_get ::
  "dnslib \<Rightarrow> gotime \<Rightarrow> cache_key \<Rightarrow> msg option \<Rightarrow> cache \<Rightarrow> cache \<times> msg option" where
  "cache_get D now key req c =
     (let c = ensure_cache c in
      case map_of (ca_items c) key of
        None \<Rightarrow> (c, None)
      | Some i \<Rightarrow>
          (case map_of (ca_lru c) i of
             None \<Rightarrow> (c, None)
           | Some e \<Rightarrow>
               if \<not> now < ce_expires e then (remove_elem (Some i) c, None)
               else
                 (case dl_unpack D (ce_wire e) of
                    None \<Rightarrow> (remove_elem (Some i) c, None)
                  | Some m \<Rightarrow> (move_to_front i c, Some (answer_from (ce_expires e) now req m)))))"

definition cache_put :: "dnslib \<Rightarrow> gotime \<Rightarrow> cache_key \<Rightarrow> msg option \<Rightarrow> cache \<Rightarrow> cache option" where
  "cache_put D now key m c =
     (case m of
        None \<Rightarrow> Some c
      | Some m \<Rightarrow>
          let c = ensure_cache c in
          if ca_max_entries c \<le> 0 then Some c
          else
            let ttl = ttl_for c m in
            if ttl \<le> 0 then Some c
            else
              (case dl_pack D m of
                 None \<Rightarrow> Some c
               | Some wire \<Rightarrow>
                   (case map_of (ca_items c) key of
                      Some i \<Rightarrow>
                        Some (move_to_front i (set_entry i wire (now + ttl) c))
                    | None \<Rightarrow>
                        let i = ca_next c;
                            e = \<lparr>ce_key = key, ce_wire = wire, ce_expires = now + ttl\<rparr> in
                        evict (c\<lparr>ca_items := AList.update key i (ca_items c),
                                 ca_lru := (i, e) # ca_lru c, ca_next := i + 1\<rparr>))))"

definition cache_flush :: "cache \<Rightarrow> cache" where
  "cache_flush c = (ensure_cache c)\<lparr>ca_items := [], ca_lru := []\<rparr>"

definition cache_reconfigure :: "cache_options \<Rightarrow> cache \<Rightarrow> cache option" where
  "cache_reconfigure opts c =
     (let next = new_cache opts in
      evict ((ensure_cache c)\<lparr>ca_max_entries := ca_max_entries next, ca_min_ttl := ca_min_ttl next,
               ca_max_ttl := ca_max_ttl next, ca_neg_ttl := ca_neg_ttl next\<rparr>))"

definition cache_len :: "cache \<Rightarrow> int" where
  "cache_len c = int (length (ca_items (ensure_cache c)))"

section \<open>Invariant\<close>

definition entries_of :: "cache \<Rightarrow> cache_entry list" where
  "entries_of c = map snd (ca_lru c)"

text \<open>The map and the list hold the same elements under the same keys (\<open>linked\<close>).\<close>

definition linked :: "cache \<Rightarrow> bool" where
  "linked c \<longleftrightarrow>
     alist_ok (ca_items c) \<and> alist_ok (ca_lru c) \<and> distinct (map ce_key (entries_of c))
     \<and> set (ca_items c) = (\<lambda>(i, e). (ce_key e, i)) ` set (ca_lru c)
     \<and> (\<forall>i \<in> keys (ca_lru c). i < ca_next c)"

definition limits_ok :: "cache \<Rightarrow> bool" where
  "limits_ok c \<longleftrightarrow> 0 < ca_max_entries c \<and> 0 < ca_min_ttl c \<and> 0 < ca_max_ttl c \<and> 0 < ca_neg_ttl c"

definition cache_ok :: "cache \<Rightarrow> bool" where
  "cache_ok c \<longleftrightarrow> linked c \<and> limits_ok c \<and> int (length (ca_items c)) \<le> ca_max_entries c"

lemma ensure_cache_id: "limits_ok c \<Longrightarrow> ensure_cache c = c"
  by (simp add: ensure_cache_def limits_ok_def)

lemma linked_keys: "linked c \<Longrightarrow> keys (ca_items c) = ce_key ` set (entries_of c)"
  by (simp add: linked_def entries_of_def image_image case_prod_unfold)

lemma linked_length:
  assumes "linked c"
  shows "length (ca_items c) = length (entries_of c)"
proof -
  have "length (ca_items c) = card (keys (ca_items c))"
    using assms by (intro length_alist_card) (simp add: linked_def)
  also have "\<dots> = length (map ce_key (entries_of c))"
    using assms linked_keys [OF assms] by (metis distinct_card image_set linked_def)
  finally show ?thesis by simp
qed


definition lru_insert :: "nat \<Rightarrow> cache_entry \<Rightarrow> cache_entry list \<Rightarrow> cache_entry list" where
  "lru_insert n e es = take n (e # filter (\<lambda>x. ce_key x \<noteq> ce_key e) es)"

definition lru_remove :: "cache_key \<Rightarrow> cache_entry list \<Rightarrow> cache_entry list" where
  "lru_remove k es = filter (\<lambda>x. ce_key x \<noteq> k) es"

text \<open>The parts of the state no list operation touches.\<close>

definition same_limits :: "cache \<Rightarrow> cache \<Rightarrow> bool" where
  "same_limits c c' \<longleftrightarrow> ca_max_entries c' = ca_max_entries c \<and> ca_min_ttl c' = ca_min_ttl c
     \<and> ca_max_ttl c' = ca_max_ttl c \<and> ca_neg_ttl c' = ca_neg_ttl c"

lemma same_limits_refl [simp]: "same_limits c c"
  by (simp add: same_limits_def)

lemma same_limits_trans: "same_limits a b \<Longrightarrow> same_limits b c \<Longrightarrow> same_limits a c"
  by (simp add: same_limits_def)

lemma same_limits_ok: "same_limits c c' \<Longrightarrow> limits_ok c' \<longleftrightarrow> limits_ok c"
  by (simp add: same_limits_def limits_ok_def)

lemma linked_unique:
  assumes "linked c" "(i, e) \<in> set (ca_lru c)" "(j, x) \<in> set (ca_lru c)"
  shows "j = i \<longleftrightarrow> ce_key x = ce_key e"
proof
  assume "j = i"
  with assms have "x = e" unfolding linked_def by (metis map_of_is_SomeI option.inject)
  then show "ce_key x = ce_key e" by simp
next
  have inj: "inj_on (\<lambda>p. ce_key (snd p)) (set (ca_lru c))"
    using assms(1) by (simp add: linked_def entries_of_def distinct_map o_def)
  show "j = i" if "ce_key x = ce_key e"
    using inj_onD [OF inj, of "(j, x)" "(i, e)"] that assms(2,3) by simp
qed

lemma linked_item:
  assumes "linked c" "map_of (ca_items c) k = Some i"
  obtains e where "map_of (ca_lru c) i = Some e" "ce_key e = k"
proof -
  have "(k, i) \<in> (\<lambda>(i, e). (ce_key e, i)) ` set (ca_lru c)"
    using assms by (metis linked_def map_of_SomeD)
  then obtain e where "(i, e) \<in> set (ca_lru c)" "ce_key e = k" by auto
  with assms(1) that show thesis by (auto simp: linked_def)
qed

lemma delete_filter:
  assumes "linked c" "(i, e) \<in> set (ca_lru c)"
  shows "AList.delete i (ca_lru c) = filter (\<lambda>p. ce_key (snd p) \<noteq> ce_key e) (ca_lru c)"
proof -
  have "(i \<noteq> fst p) = (ce_key (snd p) \<noteq> ce_key e)" if "p \<in> set (ca_lru c)" for p
    using linked_unique [OF assms, of "fst p" "snd p"] that by auto
  then show ?thesis unfolding AList.delete_eq by (intro filter_cong) (auto simp: case_prod_unfold)
qed

lemma delete_entries:
  assumes "linked c" "map_of (ca_lru c) i = Some e"
  shows "map snd (AList.delete i (ca_lru c)) = lru_remove (ce_key e) (entries_of c)"
  using delete_filter [OF assms(1) map_of_SomeD [OF assms(2)]]
  by (simp add: lru_remove_def entries_of_def filter_map o_def)

lemma remove_elem_linked:
  assumes "linked c" "map_of (ca_lru c) i = Some e"
  shows "linked (remove_elem (Some i) c)"
    and "entries_of (remove_elem (Some i) c) = lru_remove (ce_key e) (entries_of c)"
    and "same_limits c (remove_elem (Some i) c)"
proof -
  let ?c = "remove_elem (Some i) c"
  have c: "ca_items ?c = AList.delete (ce_key e) (ca_items c)"
    "ca_lru ?c = filter (\<lambda>p. ce_key (snd p) \<noteq> ce_key e) (ca_lru c)" "ca_next ?c = ca_next c"
    using assms(2) delete_filter [OF assms(1) map_of_SomeD [OF assms(2)]]
    by (simp_all add: remove_elem_def)
  show ents: "entries_of ?c = lru_remove (ce_key e) (entries_of c)"
    by (simp add: entries_of_def c lru_remove_def filter_map o_def)
  have "set (ca_items ?c) = (\<lambda>(i, e). (ce_key e, i)) ` set (ca_lru ?c)"
    using assms(1) unfolding c linked_def AList.delete_eq by auto
  moreover have "distinct (map ce_key (entries_of ?c))"
    using assms(1) unfolding ents linked_def lru_remove_def by (intro distinct_map_filter) simp
  ultimately show "linked ?c"
    using assms(1) unfolding linked_def c by (auto simp: distinct_map_filter)
  show "same_limits c ?c"
    using assms(2) by (simp add: remove_elem_def same_limits_def)
qed

lemma move_to_front_linked:
  assumes "linked c" "map_of (ca_lru c) i = Some e"
  shows "linked (move_to_front i c)"
    and "entries_of (move_to_front i c) = e # lru_remove (ce_key e) (entries_of c)"
    and "same_limits c (move_to_front i c)"
proof -
  let ?c = "move_to_front i c"
  note ie = map_of_SomeD [OF assms(2)]
  have c: "ca_items ?c = ca_items c" "ca_next ?c = ca_next c"
    "ca_lru ?c = (i, e) # AList.delete i (ca_lru c)"
    using assms(2) by (simp_all add: move_to_front_def)
  show ents: "entries_of ?c = e # lru_remove (ce_key e) (entries_of c)"
    using delete_entries [OF assms] by (simp add: entries_of_def c)
  have "set (ca_lru ?c) = set (ca_lru c)"
  proof (rule set_eqI)
    fix p
    have "p = (i, e)" if "p \<in> set (ca_lru c)" "fst p = i"
      using eq_key_imp_eq_value [of "ca_lru c" i "snd p" e] that ie assms(1)
      by (cases p) (simp add: linked_def)
    then show "p \<in> set (ca_lru ?c) \<longleftrightarrow> p \<in> set (ca_lru c)"
      using ie unfolding c AList.delete_eq by (cases "fst p = i") auto
  qed
  moreover have "distinct (map ce_key (entries_of ?c))"
    using assms(1) unfolding ents linked_def lru_remove_def by (auto intro: distinct_map_filter)
  moreover have "alist_ok (ca_lru ?c)" using assms(1) by (simp add: c linked_def)
  ultimately show "linked ?c" using assms(1) by (simp add: linked_def c(1,2))
  show "same_limits c ?c"
    using assms(2) by (simp add: move_to_front_def same_limits_def)
qed

lemma evict_linked:
  assumes "linked c" "0 \<le> ca_max_entries c"
  shows "\<exists>c'. evict c = Some c' \<and> linked c' \<and> same_limits c c'
    \<and> entries_of c' = take (nat (ca_max_entries c)) (entries_of c)"
  using assms
proof (induction "length (ca_lru c)" arbitrary: c rule: less_induct)
  case less
  have len: "length (ca_items c) = length (ca_lru c)"
    using linked_length [OF less.prems(1)] by (simp add: entries_of_def)
  show ?case
  proof (cases "int (length (ca_items c)) \<le> ca_max_entries c")
    case True
    then show ?thesis
      using less.prems len by (subst evict.simps) (simp add: entries_of_def)
  next
    case False
    with less.prems(2) len have "ca_lru c \<noteq> []" by auto
    then obtain xs i e where lru: "ca_lru c = xs @ [(i, e)]" by (metis append_butlast_last_id surj_pair)
    have ie: "map_of (ca_lru c) i = Some e"
      using less.prems(1) lru by (intro map_of_is_SomeI) (auto simp: linked_def)
    have last_elem: "lru_back c = Some i" by (simp add: lru_back_def lru)
    let ?c = "remove_elem (Some i) c"
    note r = remove_elem_linked [OF less.prems(1) ie]
    have "i \<notin> keys xs" using less.prems(1) lru by (auto simp: linked_def)
    then have "AList.delete i xs = xs" by (rule delete_id)
    then have l: "ca_lru ?c = xs"
      using ie by (simp add: remove_elem_def lru AList.delete_eq)
    have "\<exists>c'. evict ?c = Some c' \<and> linked c' \<and> same_limits ?c c'
        \<and> entries_of c' = take (nat (ca_max_entries ?c)) (entries_of ?c)"
      by (rule less.hyps) (use l lru r less.prems(2) in \<open>auto simp: same_limits_def\<close>)
    moreover have "evict c = evict ?c" using False last_elem by (subst evict.simps) simp
    moreover have "take (nat (ca_max_entries c)) (entries_of ?c) = take (nat (ca_max_entries c)) (entries_of c)"
      using False len l lru by (simp add: entries_of_def)
    ultimately show ?thesis
      using r(3) same_limits_trans by (auto simp: same_limits_def)
  qed
qed


section \<open>The operations on the list of entries\<close>

lemma set_entry_linked:
  assumes "linked c" "map_of (ca_lru c) i = Some e"
  shows "linked (set_entry i w x c)" and "same_limits c (set_entry i w x c)"
    and "map_of (ca_lru (set_entry i w x c)) i = Some (e\<lparr>ce_wire := w, ce_expires := x\<rparr>)"
    and "lru_remove (ce_key e) (entries_of (set_entry i w x c)) = lru_remove (ce_key e) (entries_of c)"
proof -
  let ?f = "\<lambda>p :: nat \<times> cache_entry. if fst p = i then (fst p, (snd p)\<lparr>ce_wire := w, ce_expires := x\<rparr>) else p"
  let ?c = "set_entry i w x c"
  note ie = map_of_SomeD [OF assms(2)]
  have lru: "ca_lru ?c = map ?f (ca_lru c)"
    by (simp add: set_entry_def case_prod_unfold)
  have same: "fst (?f p) = fst p" "ce_key (snd (?f p)) = ce_key (snd p)" for p by simp_all
  have keys: "map fst (ca_lru ?c) = map fst (ca_lru c)"
    "map ce_key (entries_of ?c) = map ce_key (entries_of c)"
    unfolding entries_of_def lru map_map o_def same by simp_all
  have items: "(\<lambda>(i, e). (ce_key e, i)) ` set (ca_lru ?c) = (\<lambda>(i, e). (ce_key e, i)) ` set (ca_lru c)"
    unfolding lru set_map image_image case_prod_unfold same ..
  have rest: "ca_items ?c = ca_items c" "ca_next ?c = ca_next c" by (simp_all add: set_entry_def)
  have "keys (ca_lru ?c) = keys (ca_lru c)" using keys(1) by (metis set_map)
  with assms(1) show "linked ?c" unfolding linked_def items keys rest by simp
  show "same_limits c ?c" by (simp add: set_entry_def same_limits_def)
  have "map_of (map ?f xs) i = map_option (\<lambda>e. e\<lparr>ce_wire := w, ce_expires := x\<rparr>) (map_of xs i)" for xs
    by (induction xs) auto
  then show "map_of (ca_lru ?c) i = Some (e\<lparr>ce_wire := w, ce_expires := x\<rparr>)"
    using assms(2) lru by simp
  have "filter (\<lambda>p. ce_key (snd p) \<noteq> ce_key e) (map ?f (ca_lru c)) =
      filter (\<lambda>p. ce_key (snd p) \<noteq> ce_key e) (ca_lru c)"
  proof -
    have "fst p \<noteq> i" if "p \<in> set (ca_lru c)" "ce_key (snd p) \<noteq> ce_key e" for p
      using linked_unique [OF assms(1) ie, of "fst p" "snd p"] that by auto
    then show ?thesis unfolding filter_map o_def same by (intro map_idI) auto
  qed
  then show "lru_remove (ce_key e) (entries_of ?c) = lru_remove (ce_key e) (entries_of c)"
    unfolding lru_remove_def entries_of_def lru filter_map o_def by metis
qed

lemma length_lru_remove: "k \<in> ce_key ` set es \<Longrightarrow> length (lru_remove k es) < length es"
  unfolding lru_remove_def by (auto intro!: length_filter_less)

text \<open>What \<open>Put\<close> stores for a message, if anything.\<close>

definition put_entry :: "dnslib \<Rightarrow> gotime \<Rightarrow> cache_key \<Rightarrow> msg option \<Rightarrow> cache \<Rightarrow> cache_entry option" where
  "put_entry D now key m c =
     (case m of
        None \<Rightarrow> None
      | Some m \<Rightarrow>
          if ttl_for c m \<le> 0 then None
          else map_option (\<lambda>w. \<lparr>ce_key = key, ce_wire = w, ce_expires = now + ttl_for c m\<rparr>) (dl_pack D m))"

lemma cache_put_new:
  assumes "linked c" "limits_ok c" "map_of (ca_items c) key = None"
    and e: "e = \<lparr>ce_key = key, ce_wire = w, ce_expires = x\<rparr>"
  shows "\<exists>c'. evict (c\<lparr>ca_items := AList.update key (ca_next c) (ca_items c),
        ca_lru := (ca_next c, e) # ca_lru c, ca_next := ca_next c + 1\<rparr>) = Some c'
      \<and> linked c' \<and> same_limits c c' \<and> entries_of c' = lru_insert (nat (ca_max_entries c)) e (entries_of c)"
proof -
  let ?c = "c\<lparr>ca_items := AList.update key (ca_next c) (ca_items c),
    ca_lru := (ca_next c, e) # ca_lru c, ca_next := ca_next c + 1\<rparr>"
  have new: "key \<notin> ce_key ` set (entries_of c)" "key \<notin> keys (ca_items c)"
    using assms(3) linked_keys [OF assms(1)] by (auto simp: map_of_eq_None_iff)
  have fresh: "ca_next c \<notin> keys (ca_lru c)" "\<forall>i \<in> keys (ca_lru c). i < ca_next c + 1"
    using assms(1) by (auto simp: linked_def)
  have "set (AList.update key (ca_next c) (ca_items c)) = insert (key, ca_next c) (set (ca_items c))"
    using new(2) by (simp add: update_new)
  then have "linked ?c"
    using assms(1) new(1) fresh by (auto simp: linked_def entries_of_def e)
  moreover have "lru_insert n e (entries_of c) = take n (entries_of ?c)" for n
    using new(1) by (auto simp: lru_insert_def entries_of_def e intro!: arg_cong [of _ _ "take n"] filter_True)
  ultimately show ?thesis
    using evict_linked [of ?c] assms(2) by (auto simp: limits_ok_def same_limits_def)
qed

lemma cache_put_refines:
  assumes "cache_ok c"
  shows "\<exists>c'. cache_put D now key m c = Some c' \<and> cache_ok c' \<and> same_limits c c'
    \<and> entries_of c' = (case put_entry D now key m c of
        None \<Rightarrow> entries_of c
      | Some e \<Rightarrow> lru_insert (nat (ca_max_entries c)) e (entries_of c))"
proof -
  have lk: "linked c" "limits_ok c" "0 < ca_max_entries c" "ensure_cache c = c"
    "length (entries_of c) \<le> nat (ca_max_entries c)"
    using assms linked_length [of c] ensure_cache_id [of c] by (auto simp: cache_ok_def limits_ok_def)
  show ?thesis
  proof (cases "put_entry D now key m c")
    case None
    then show ?thesis
      using assms lk by (auto simp: put_entry_def cache_put_def Let_def split: option.splits if_splits)
  next
    case (Some e)
    then obtain m' w where m: "m = Some m'" "0 < ttl_for c m'" "dl_pack D m' = Some w"
      and e: "e = \<lparr>ce_key = key, ce_wire = w, ce_expires = now + ttl_for c m'\<rparr>"
      by (auto simp: put_entry_def split: option.splits if_splits)
    have ok: "cache_ok c'" if "linked c'" "same_limits c c'" "length (entries_of c') \<le> nat (ca_max_entries c)" for c'
      using that linked_length [OF that(1)] lk(2,3) same_limits_ok [OF that(2)]
      by (auto simp: cache_ok_def same_limits_def)
    show ?thesis
    proof (cases "map_of (ca_items c) key")
      case None
      with cache_put_new [OF lk(1,2) None e] Some ok show ?thesis
        unfolding cache_put_def m option.case Let_def lk(4)
        using lk(3) m by (auto simp: e lru_insert_def)
    next
      case (Some i)
      then obtain x where x: "map_of (ca_lru c) i = Some x" "ce_key x = key"
        using linked_item [OF lk(1)] by blast
      let ?s = "set_entry i w (now + ttl_for c m') c"
      note se = set_entry_linked [OF lk(1) x(1), of w "now + ttl_for c m'"]
      note mf = move_to_front_linked [OF se(1,3)]
      have "x\<lparr>ce_wire := w, ce_expires := now + ttl_for c m'\<rparr> = e" using x(2) e by simp
      then have ents: "entries_of (move_to_front i ?s) = e # lru_remove key (entries_of c)"
        using mf(2) se(4) x(2) e by simp
      have "key \<in> ce_key ` set (entries_of c)"
        using map_of_SomeD [OF x(1)] x(2) by (force simp: entries_of_def)
      then have len: "length (e # lru_remove key (entries_of c)) \<le> nat (ca_max_entries c)"
        using length_lru_remove [of key "entries_of c"] lk(5) by simp
      have "cache_put D now key m c = Some (move_to_front i ?s)"
        using lk(3,4) m Some by (simp add: cache_put_def Let_def)
      moreover have "lru_insert (nat (ca_max_entries c)) e (entries_of c) = e # lru_remove key (entries_of c)"
        using len e by (simp add: lru_insert_def lru_remove_def)
      ultimately show ?thesis
        using ok [of "move_to_front i ?s"] mf(1,3) se(2) same_limits_trans ents len \<open>put_entry D now key m c = Some e\<close>
        by auto
    qed
  qed
qed


lemma find_unique: "distinct (map f xs) \<Longrightarrow> x \<in> set xs \<Longrightarrow> find (\<lambda>y. f y = f x) xs = Some x"
  by (induction xs) auto

lemma find_entry:
  assumes "linked c"
  shows "find (\<lambda>e. ce_key e = key) (entries_of c) =
    (case map_of (ca_items c) key of None \<Rightarrow> None | Some i \<Rightarrow> map_of (ca_lru c) i)"
proof (cases "map_of (ca_items c) key")
  case None
  then have "key \<notin> ce_key ` set (entries_of c)"
    using linked_keys [OF assms] by (simp add: map_of_eq_None_iff)
  with None show ?thesis by (auto simp: find_None_iff)
next
  case (Some i)
  then obtain e where e: "map_of (ca_lru c) i = Some e" "ce_key e = key" using linked_item [OF assms] by blast
  then have "e \<in> set (entries_of c)" by (auto simp: entries_of_def dest!: map_of_SomeD intro: rev_image_eqI)
  then have "find (\<lambda>x. ce_key x = ce_key e) (entries_of c) = Some e"
    using assms by (intro find_unique) (auto simp: linked_def)
  with Some e show ?thesis by simp
qed

definition usable :: "dnslib \<Rightarrow> gotime \<Rightarrow> cache_entry \<Rightarrow> bool" where
  "usable D now e \<longleftrightarrow> now < ce_expires e \<and> dl_unpack D (ce_wire e) \<noteq> None"

lemma cache_get_refines:
  assumes "cache_ok c"
  shows "cache_ok (fst (cache_get D now key req c)) \<and> same_limits c (fst (cache_get D now key req c))
    \<and> (case find (\<lambda>e. ce_key e = key) (entries_of c) of
         None \<Rightarrow> cache_get D now key req c = (c, None)
       | Some e \<Rightarrow>
           if usable D now e then
             entries_of (fst (cache_get D now key req c)) = e # lru_remove key (entries_of c)
             \<and> snd (cache_get D now key req c) =
                 map_option (answer_from (ce_expires e) now req) (dl_unpack D (ce_wire e))
           else entries_of (fst (cache_get D now key req c)) = lru_remove key (entries_of c)
             \<and> snd (cache_get D now key req c) = None)"
proof -
  have lk: "linked c" "limits_ok c" "ensure_cache c = c" "int (length (ca_items c)) \<le> ca_max_entries c"
    using assms ensure_cache_id by (auto simp: cache_ok_def)
  have ok: "cache_ok c'"
    if "linked c'" "same_limits c c'" "length (entries_of c') \<le> length (entries_of c)" for c'
    using that lk(2,4) same_limits_ok [OF that(2)] linked_length [OF that(1)] linked_length [OF lk(1)]
    by (auto simp: cache_ok_def same_limits_def)
  show ?thesis
  proof (cases "map_of (ca_items c) key")
    case None
    then show ?thesis using assms find_entry [OF lk(1), of key] lk(3) by (simp add: cache_get_def)
  next
    case (Some i)
    then obtain e where e: "map_of (ca_lru c) i = Some e" "ce_key e = key"
      using linked_item [OF lk(1)] by blast
    have "key \<in> ce_key ` set (entries_of c)"
      using map_of_SomeD [OF e(1)] e(2) by (force simp: entries_of_def)
    then have len: "length (lru_remove key (entries_of c)) < length (entries_of c)"
      by (rule length_lru_remove)
    note rm = remove_elem_linked [OF lk(1) e(1)] and mf = move_to_front_linked [OF lk(1) e(1)]
    have "find (\<lambda>e. ce_key e = key) (entries_of c) = Some e"
      using find_entry [OF lk(1)] Some e by simp
    moreover have "cache_get D now key req c =
        (if usable D now e then (move_to_front i c, map_option (answer_from (ce_expires e) now req) (dl_unpack D (ce_wire e)))
         else (remove_elem (Some i) c, None))"
      using Some e lk(3) by (auto simp: cache_get_def usable_def Let_def split: option.splits)
    moreover have "cache_ok (move_to_front i c)" "cache_ok (remove_elem (Some i) c)"
      using rm mf len e(2) by (auto intro!: ok)
    ultimately show ?thesis using rm mf e(2) by auto
  qed
qed

lemma cache_reconfigure_refines:
  assumes "linked c"
  shows "\<exists>c'. cache_reconfigure opts c = Some c' \<and> cache_ok c'
    \<and> entries_of c' = take (nat (ca_max_entries (new_cache opts))) (entries_of c)"
proof -
  let ?c = "(ensure_cache c)\<lparr>ca_max_entries := ca_max_entries (new_cache opts),
    ca_min_ttl := ca_min_ttl (new_cache opts), ca_max_ttl := ca_max_ttl (new_cache opts),
    ca_neg_ttl := ca_neg_ttl (new_cache opts)\<rparr>"
  have lim: "limits_ok ?c" by (simp add: limits_ok_def new_cache_def duration_units)
  have "linked ?c" "entries_of ?c = entries_of c"
    using assms by (simp_all add: linked_def entries_of_def ensure_cache_def)
  with lim evict_linked [of ?c] obtain c' where c': "evict ?c = Some c'" "linked c'" "same_limits ?c c'"
      "entries_of c' = take (nat (ca_max_entries ?c)) (entries_of c)"
    by (auto simp: limits_ok_def)
  then have "cache_ok c'"
    using lim same_limits_ok [OF c'(3)] linked_length [OF c'(2)]
    by (auto simp: cache_ok_def same_limits_def limits_ok_def)
  with c' show ?thesis by (auto simp: cache_reconfigure_def Let_def)
qed

lemma new_cache_ok: "cache_ok (new_cache opts)" "entries_of (new_cache opts) = []"
  by (simp_all add: cache_ok_def linked_def limits_ok_def new_cache_def entries_of_def duration_units)

lemma cache_flush_ok: "cache_ok c \<Longrightarrow> cache_ok (cache_flush c) \<and> entries_of (cache_flush c) = []"
  by (simp add: cache_ok_def linked_def limits_ok_def cache_flush_def entries_of_def ensure_cache_id
      ensure_cache_def)

section \<open>Lifetimes\<close>

lemma min_answer_ttl_le: "r \<in> set rs \<Longrightarrow> min_answer_ttl rs \<le> rr_ttl r"
proof -
  have "fold (\<lambda>r m. if rr_ttl r < m then rr_ttl r else m) xs m \<le> m
      \<and> (\<forall>r \<in> set xs. fold (\<lambda>r m. if rr_ttl r < m then rr_ttl r else m) xs m \<le> rr_ttl r)" for xs :: "rr list" and m
  proof (induction xs arbitrary: m)
    case (Cons x xs)
    let ?m = "if rr_ttl x < m then rr_ttl x else m"
    have "?m \<le> m" "?m \<le> rr_ttl x" by auto
    with Cons [of ?m] show ?case by (auto intro: order_trans)
  qed simp
  then show "r \<in> set rs \<Longrightarrow> min_answer_ttl rs \<le> rr_ttl r"
    by (cases rs) (auto simp: min_answer_ttl_def)
qed

lemma seconds_fit: "wrap64 (uint (t :: u32) * second) = uint t * second"
proof (rule wrap64_id)
  have "uint t < 2 ^ 32" using uint_bounded [of t] by simp
  then show "uint t * second \<le> max_int64" by (simp add: second_def max_int64_def)
  have "0 \<le> uint t * second" by (simp add: second_def)
  then show "min_int64 \<le> uint t * second" by (simp add: min_int64_def)
qed

lemma ttl_for_bounds:
  assumes "limits_ok c" "0 < ttl_for c m"
  shows "ttl_for c m \<le> max (ca_max_ttl c) (ca_neg_ttl c)"
  using assms by (auto simp: ttl_for_def Let_def limits_ok_def)

lemma duration_seconds_floor:
  assumes "0 \<le> d" "d \<le> max_int64"
  shows "\<lfloor>duration_seconds d\<rfloor> \<in> {d div second, d div second + 1}" and "0 \<le> duration_seconds d"
proof -
  define k where "k = d div second"
  define n where "n = d mod second"
  have k: "0 \<le> k" "k < 2 ^ 40" using assms by (auto simp: k_def second_def max_int64_def)
  have n: "0 \<le> n" "n \<le> second" by (simp_all add: n_def second_def)
  have sd: "d sdiv second = k" "d smod second = n"
    using assms by (simp_all add: signed_divide_int_def signed_modulo_int_def k_def n_def second_def sgn_if minus_div_mult_eq_mod [symmetric])
  have small: "f64_of_int i = of_int i" if "0 \<le> i" "i < 2 ^ 53" for i
    using that by (simp add: f64_of_int_def f64_of_small_int)
  have s: "f64_of_int second = of_int second" "f64_of_int k = of_int k" "f64_of_int n = of_int n"
    using k n small [of second] by (auto intro!: small simp: second_def)
  define q where "q = f64_div (of_int n) (of_int second)"
  have q: "0 \<le> q" "q \<le> 1"
    using f64_nonneg [of "of_int n / of_int second"] f64_le_int [of "of_int n / of_int second" 1] n
    by (simp_all add: q_def f64_div_def second_def)
  have ds: "duration_seconds d = f64 (of_int k + q)"
    by (simp add: duration_seconds_def sd s q_def f64_add_def)
  have kq: "of_int k + q < 2 ^ 53"
  proof -
    have "(of_int k :: rat) < of_int (2 ^ 40)" using k(2) by (simp only: of_int_less_iff)
    with q show ?thesis by simp
  qed
  have "of_int k \<le> duration_seconds d" "duration_seconds d \<le> of_int (k + 1)"
    unfolding ds using f64_ge_int [of "of_int k + q" k] f64_le_int [of "of_int k + q" "k + 1"] k q kq
    by simp_all
  then have "k \<le> \<lfloor>duration_seconds d\<rfloor>" "\<lfloor>duration_seconds d\<rfloor> \<le> k + 1"
    by (simp add: le_floor_iff) (metis \<open>duration_seconds d \<le> of_int (k + 1)\<close> floor_mono floor_of_int)
  then show "\<lfloor>duration_seconds d\<rfloor> \<in> {d div second, d div second + 1}" unfolding k_def by auto
  show "0 \<le> duration_seconds d" unfolding ds using f64_nonneg k q by simp
qed

lemma remaining_ttl_bounds:
  assumes "now < expires" "expires - now \<le> (2 ^ 32 - 2) * second"
  shows "1 \<le> uint (remaining_ttl expires now)"
    and "(expires - now) div second \<le> uint (remaining_ttl expires now)"
    and "uint (remaining_ttl expires now) \<le> (expires - now) div second + 1"
proof -
  define d where "d = expires - now"
  have d: "0 < d" "d \<le> (2 ^ 32 - 2) * second" "d \<le> max_int64"
    using assms by (simp_all add: d_def second_def max_int64_def)
  have sub: "time_sub expires now = d" using d by (simp add: time_sub_def d_def min_int64_def)
  define f where "f = \<lfloor>duration_seconds d\<rfloor>"
  have f: "f \<in> {d div second, d div second + 1}" "0 \<le> duration_seconds d"
    using duration_seconds_floor [of d] d by (simp_all add: f_def)
  have "d div second \<le> 2 ^ 32 - 2" using d by (simp add: second_def)
  moreover have k: "0 \<le> d div second" using d by (simp add: second_def)
  ultimately have range: "0 \<le> f" "f < 2 ^ 32" using f(1) by auto
  have "u32_of_float (duration_seconds d) = word_of_int f"
    using f(2) by (simp add: u32_of_float_def f_def)
  then have u: "uint (u32_of_float (duration_seconds d)) = f"
    using range by (simp add: uint_word_of_int)
  then have z: "u32_of_float (duration_seconds d) = 0 \<longleftrightarrow> f = 0"
    by (metis uint_0_iff)
  have "uint (remaining_ttl expires now) = (if f = 0 then 1 else f)"
    unfolding remaining_ttl_def sub Let_def using u z by simp
  with f(1) k range show "1 \<le> uint (remaining_ttl expires now)"
    "(expires - now) div second \<le> uint (remaining_ttl expires now)"
    "uint (remaining_ttl expires now) \<le> (expires - now) div second + 1"
    unfolding d_def [symmetric] by auto
qed

lemma set_ttl_le:
  assumes "r \<in> set (set_ttl ttl rs)" "rr_type r \<noteq> type_opt"
  shows "rr_ttl r \<le> ttl"
  using assms by (auto simp: set_ttl_def split: if_split_asm)


section \<open>The interface of a bounded store in order of use\<close>

text \<open>
  What a client relies on: a put returns, drops at most what exceeds the capacity, and keeps
  every other entry in order.  An entry therefore survives as many puts under other keys as
  there is room behind it.
\<close>

locale recency_store =
  fixes put :: "'x \<Rightarrow> 's \<Rightarrow> 's option"
    and stores :: "'x \<Rightarrow> 's \<Rightarrow> 'e option"
    and key :: "'e \<Rightarrow> 'k"
    and ents :: "'s \<Rightarrow> 'e list"
    and cap :: "'s \<Rightarrow> nat"
    and ok :: "'s \<Rightarrow> bool"
  assumes put_law: "ok s \<Longrightarrow> \<exists>s'. put x s = Some s' \<and> ok s' \<and> cap s' = cap s
      \<and> ents s' = (case stores x s of None \<Rightarrow> ents s
          | Some e \<Rightarrow> take (cap s) (e # filter (\<lambda>y. key y \<noteq> key e) (ents s)))"
begin

lemma run_ok: "ok s \<Longrightarrow> \<exists>s'. opt_fold put xs s = Some s' \<and> ok s' \<and> cap s' = cap s"
proof (induction xs arbitrary: s)
  case (Cons x xs)
  from put_law [OF Cons.prems, of x] obtain t where "put x s = Some t" "ok t" "cap t = cap s" by blast
  with Cons.IH [of t] show ?case by simp
qed simp

lemma survives:
  assumes "ok s" "ents s = as @ e # bs" "length as + length xs < cap s"
    and "\<And>x t e'. x \<in> set xs \<Longrightarrow> stores x t = Some e' \<Longrightarrow> key e' \<noteq> key e"
    and "opt_fold put xs s = Some s'"
  shows "e \<in> set (ents s')"
  using assms
proof (induction xs arbitrary: s as bs)
  case (Cons x xs)
  from put_law [OF Cons.prems(1), of x] obtain t where t: "put x s = Some t" "ok t" "cap t = cap s"
    "ents t = (case stores x s of None \<Rightarrow> ents s
       | Some e \<Rightarrow> take (cap s) (e # filter (\<lambda>y. key y \<noteq> key e) (ents s)))" by blast
  have "\<exists>as' bs'. ents t = as' @ e # bs' \<and> length as' \<le> Suc (length as)"
  proof (cases "stores x s")
    case None
    with t(4) Cons.prems(2) show ?thesis by auto
  next
    case (Some e')
    let ?P = "\<lambda>y. key y \<noteq> key e'"
    have "?P e" using Cons.prems(4) [of x s e'] Some by auto
    then have "ents t = take (cap s) ((e' # filter ?P as) @ e # filter ?P bs)"
      using t(4) Some Cons.prems(2) by simp
    moreover have len: "length (e' # filter ?P as) \<le> Suc (length as)" by simp
    moreover have "length (e' # filter ?P as) < cap s"
      by (rule le_less_trans [OF len]) (use Cons.prems(3) in simp)
    ultimately have "ents t = (e' # filter ?P as) @ e # take (cap s - length (e' # filter ?P as) - 1) (filter ?P bs)"
      by (simp only: take_append take_Cons' [of _ e]) simp
    with len show ?thesis by blast
  qed
  then obtain as' bs' where ab: "ents t = as' @ e # bs'" "length as' \<le> Suc (length as)" by blast
  show ?case
  proof (rule Cons.IH [OF t(2) ab(1)])
    show "length as' + length xs < cap t" using ab(2) Cons.prems(3) t(3) by simp
    show "opt_fold put xs t = Some s'" using Cons.prems(5) t(1) by simp
  qed (use Cons.prems(4) in auto)
qed simp

end

interpretation rs: recency_store
    "\<lambda>(now, key, m). cache_put D now key m" "\<lambda>(now, key, m). put_entry D now key m"
    ce_key entries_of "\<lambda>c. nat (ca_max_entries c)" cache_ok for D
proof unfold_locales
  fix s :: cache and x :: "gotime \<times> cache_key \<times> msg option"
  assume "cache_ok s"
  then show "\<exists>s'. (case x of (now, key, m) \<Rightarrow> cache_put D now key m) s = Some s' \<and> cache_ok s'
      \<and> nat (ca_max_entries s') = nat (ca_max_entries s)
      \<and> entries_of s' = (case (case x of (now, key, m) \<Rightarrow> put_entry D now key m) s of
          None \<Rightarrow> entries_of s
        | Some e \<Rightarrow> take (nat (ca_max_entries s)) (e # filter (\<lambda>y. ce_key y \<noteq> ce_key e) (entries_of s)))"
    using cache_put_refines [of s D "fst x" "fst (snd x)" "snd (snd x)"]
    by (fastforce simp: case_prod_beta lru_insert_def same_limits_def split: option.splits)
qed

section \<open>Histories\<close>

datatype cache_op =
    Op_Get gotime cache_key "msg option"
  | Op_Put gotime cache_key "msg option"
  | Op_Flush
  | Op_Reconfigure cache_options

fun cache_run_op :: "dnslib \<Rightarrow> cache_op \<Rightarrow> cache \<Rightarrow> cache option" where
  "cache_run_op D (Op_Get now key req) c = Some (fst (cache_get D now key req c))"
| "cache_run_op D (Op_Put now key m) c = cache_put D now key m c"
| "cache_run_op D Op_Flush c = Some (cache_flush c)"
| "cache_run_op D (Op_Reconfigure opts) c = cache_reconfigure opts c"

lemma cache_run_op_ok: "cache_ok c \<Longrightarrow> \<exists>c'. cache_run_op D op c = Some c' \<and> cache_ok c'"
  using cache_put_refines cache_get_refines cache_flush_ok cache_reconfigure_refines
  by (cases op) (fastforce simp: cache_ok_def)+

lemma cache_run_ok: "cache_ok c \<Longrightarrow> \<exists>c'. opt_fold (cache_run_op D) ops c = Some c' \<and> cache_ok c'"
proof (induction ops arbitrary: c)
  case (Cons op ops)
  from cache_run_op_ok [OF Cons.prems, of D op] obtain t where "cache_run_op D op c = Some t" "cache_ok t"
    by blast
  with Cons.IH [of t] show ?case by simp
qed simp


section \<open>Properties\<close>

text \<open>C32: Storing a response in a cache that satisfies its invariant returns, keeps the invariant, and
  has exactly the effect of the textbook LRU policy on the entries in order of use: nothing
  when the response is not cacheable, otherwise the new entry first, the old entry of the key
  gone, the least recently used ones beyond the bound gone.\<close>

theorem cache_put_is_lru:
  assumes "cache_ok c"
  shows "\<exists>c'. cache_put D now key m c = Some c' \<and> cache_ok c'
    \<and> entries_of c' = (case put_entry D now key m c of
        None \<Rightarrow> entries_of c
      | Some e \<Rightarrow> take (nat (ca_max_entries c)) (e # filter (\<lambda>x. ce_key x \<noteq> key) (entries_of c)))"
proof (cases "put_entry D now key m c")
  case (Some e)
  then have "ce_key e = key" by (auto simp: put_entry_def split: option.splits if_splits)
  with Some cache_put_refines [OF assms, of D now key m] show ?thesis
    unfolding lru_insert_def by auto
qed (use cache_put_refines [OF assms, of D now key m] in auto)

definition two_slots :: cache where
  "two_slots = new_cache \<lparr>co_max_entries = 2, co_min_ttl = 0, co_max_ttl = 0, co_negative_ttl = 0\<rparr>"

definition host_key :: "string \<Rightarrow> cache_key" where
  "host_key n = \<lparr>ck_qname = n, ck_qtype = type_a, ck_qclass = class_inet\<rparr>"

definition host_msg :: "string \<Rightarrow> msg" where
  "host_msg n = new_msg\<lparr>m_question := [\<lparr>q_name = n, q_type = type_a, q_class = class_inet\<rparr>]\<rparr>"

lemma host_entry:
  "put_entry plain_dns 0 (host_key n) (Some (host_msg n)) two_slots =
     Some \<lparr>ce_key = host_key n, ce_wire = n, ce_expires = hour\<rparr>"
  by (simp add: put_entry_def ttl_for_def host_msg_def new_msg_def two_slots_def new_cache_def
      plain_dns_def dns_codes duration_units)

lemma two_slots_empty: "entries_of two_slots = []" "ca_max_entries two_slots = 2" "cache_ok two_slots"
  by (simp_all add: two_slots_def new_cache_ok) (simp add: new_cache_def)

theorem cache_put_is_lru_witness:
  "\<exists>c. cache_put plain_dns 0 (host_key ''a.'') (Some (host_msg ''a.'')) two_slots = Some c \<and> cache_ok c
     \<and> entries_of c = [\<lparr>ce_key = host_key ''a.'', ce_wire = ''a.'', ce_expires = hour\<rparr>]"
  using cache_put_is_lru [OF two_slots_empty(3), of plain_dns 0 "host_key ''a.''" "Some (host_msg ''a.'')"]
  unfolding host_entry two_slots_empty by simp


definition warm :: cache where
  "warm = the (cache_put plain_dns 0 (host_key ''a.'') (Some (host_msg ''a.'')) two_slots)"

lemma warm_ok:
  "cache_ok warm" "entries_of warm = [\<lparr>ce_key = host_key ''a.'', ce_wire = ''a.'', ce_expires = hour\<rparr>]"
  "ca_max_entries warm = 2"
proof -
  obtain c where "cache_put plain_dns 0 (host_key ''a.'') (Some (host_msg ''a.'')) two_slots = Some c"
    "cache_ok c" "same_limits two_slots c"
    "entries_of c = [\<lparr>ce_key = host_key ''a.'', ce_wire = ''a.'', ce_expires = hour\<rparr>]"
    using cache_put_refines [OF two_slots_empty(3), of plain_dns 0 "host_key ''a.''" "Some (host_msg ''a.'')"]
    unfolding host_entry two_slots_empty by (auto simp: lru_insert_def)
  then show "cache_ok warm" "entries_of warm = [\<lparr>ce_key = host_key ''a.'', ce_wire = ''a.'', ce_expires = hour\<rparr>]"
    "ca_max_entries warm = 2"
    using two_slots_empty(2) by (simp_all add: warm_def same_limits_def)
qed



text \<open>An entry just used survives any number of stores under other keys that is smaller than the
  cache's bound.\<close>

theorem cache_recent_entry_survives:
  assumes "cache_ok c" "entries_of c = e # rest" "length puts < nat (ca_max_entries c)"
    and "\<And>now k m. (now, k, m) \<in> set puts \<Longrightarrow> k \<noteq> ce_key e"
  shows "\<exists>c'. opt_fold (\<lambda>(now, k, m). cache_put D now k m) puts c = Some c' \<and> e \<in> set (entries_of c')"
proof -
  obtain c' where c': "opt_fold (\<lambda>(now, k, m). cache_put D now k m) puts c = Some c'"
    using rs.run_ok [OF assms(1)] by blast
  have "ce_key e' = k" if "put_entry D now k m t = Some e'" for now k m t e'
    using that by (auto simp: put_entry_def split: option.splits if_splits)
  then have "e \<in> set (entries_of c')"
    using rs.survives [OF assms(1), of "[]" e rest puts D c'] assms(2,3,4) c' by fastforce
  with c' show ?thesis by blast
qed

theorem cache_recent_entry_survives_witness:
  "\<exists>c'. opt_fold (\<lambda>(now, k, m). cache_put plain_dns now k m) [(0, host_key ''b.'', Some (host_msg ''b.''))] warm
      = Some c' \<and> \<lparr>ce_key = host_key ''a.'', ce_wire = ''a.'', ce_expires = hour\<rparr> \<in> set (entries_of c')"
  by (rule cache_recent_entry_survives [OF warm_ok(1,2)]) (auto simp: warm_ok(3) host_key_def)

end
