(* ===== verification/Dns_Synthetic.thy ===== *)
theory Dns_Synthetic
  imports Dns_Msg
begin

text \<open>
  \<open>internal/dns/synthetic.go\<close>, \<open>special.go\<close>, \<open>edns.go\<close> and the packing of UDP responses in
  \<open>server.go\<close>: the responses the gateway makes up, the names it answers itself, the removal of
  client-subnet options.
\<close>

record block_options =
  bo_response_a :: ip
  bo_response_aaaa :: ip
  bo_ttl :: duration
  bo_use_nxdomain :: bool

definition ipv4 :: "u8 \<Rightarrow> u8 \<Rightarrow> u8 \<Rightarrow> u8 \<Rightarrow> ip" where
  "ipv4 a b c d = v4_prefix @ [a, b, c, d]"

definition ipv4_zero :: ip where "ipv4_zero = ipv4 0 0 0 0"
definition ipv6_zero :: ip where "ipv6_zero = replicate 16 0"
definition ipv6_loopback :: ip where "ipv6_loopback = replicate 15 0 @ [1]"

section \<open>Synthetic responses\<close>

definition synth_rcode :: "dnslib \<Rightarrow> msg option \<Rightarrow> int \<Rightarrow> msg" where
  "synth_rcode D req rcode =
     (let resp = (case req of
                    Some r \<Rightarrow> dl_set_reply D r
                  | None \<Rightarrow> new_msg\<lparr>m_response := True\<rparr>)
      in resp\<lparr>m_rcode := rcode, m_recursion_available := True\<rparr>)"

definition synth_server_failure :: "dnslib \<Rightarrow> msg option \<Rightarrow> msg" where
  "synth_server_failure D req = synth_rcode D req rcode_server_failure"

definition synth_nxdomain :: "dnslib \<Rightarrow> msg option \<Rightarrow> msg" where
  "synth_nxdomain D req = synth_rcode D req rcode_name_error"

definition synth_refused :: "dnslib \<Rightarrow> msg option \<Rightarrow> msg" where
  "synth_refused D req = synth_rcode D req rcode_refused"

definition rr_header :: "dnslib \<Rightarrow> string \<Rightarrow> u16 \<Rightarrow> u32 \<Rightarrow> rdata \<Rightarrow> rr" where
  "rr_header D name typ ttl d =
     \<lparr>rr_name = dl_fqdn D name, rr_type = typ, rr_class = class_inet, rr_ttl = ttl, rr_data = d\<rparr>"

definition soa_for :: "dnslib \<Rightarrow> string \<Rightarrow> u32 \<Rightarrow> rr" where
  "soa_for D name ttl =
     (let zone = dl_fqdn D name in
      rr_header D zone type_soa ttl
        (RSOA \<lparr>soa_ns = ''sis.local.'', soa_mbox = ''hostmaster.sis.local.'', soa_serial = 1,
               soa_refresh = 60, soa_retry = 60, soa_expire = 60, soa_minttl = ttl\<rparr>))"

definition synth_nodata :: "dnslib \<Rightarrow> msg option \<Rightarrow> u32 \<Rightarrow> msg" where
  "synth_nodata D req ttl =
     (let resp = synth_rcode D req rcode_success in
      case req of
        None \<Rightarrow> resp
      | Some r \<Rightarrow> (case m_question r of
                     [] \<Rightarrow> resp
                   | q # _ \<Rightarrow> resp\<lparr>m_ns := [soa_for D (q_name q) ttl]\<rparr>))"

definition synth_loopback :: "dnslib \<Rightarrow> msg \<Rightarrow> u16 \<Rightarrow> msg" where
  "synth_loopback D req qtype =
     (let resp = synth_rcode D (Some req) rcode_success in
      case m_question req of
        [] \<Rightarrow> resp
      | q # _ \<Rightarrow>
          let name = q_name q in
          if qtype = type_a then
            resp\<lparr>m_answer := [rr_header D name type_a 60 (RA (ipv4 127 0 0 1))]\<rparr>
          else if qtype = type_aaaa then
            resp\<lparr>m_answer := [rr_header D name type_aaaa 60 (RAAAA ipv6_loopback)]\<rparr>
          else resp\<lparr>m_ns := [soa_for D name 60]\<rparr>)"

definition block_ttl :: "duration \<Rightarrow> u32" where
  "block_ttl d = (let ttl = u32_of_float (duration_seconds d) in if ttl = 0 then 60 else ttl)"

definition synth_block :: "dnslib \<Rightarrow> msg option \<Rightarrow> u16 \<Rightarrow> block_options \<Rightarrow> msg" where
  "synth_block D req qtype opts =
     (let ttl = block_ttl (bo_ttl opts) in
      if bo_use_nxdomain opts then synth_nxdomain D req
      else
        let resp = synth_rcode D req rcode_success in
        (case req of
           None \<Rightarrow> resp
         | Some r \<Rightarrow>
             (case m_question r of
                [] \<Rightarrow> resp
              | q # _ \<Rightarrow>
                  let name = q_name q in
                  if qtype = type_a then
                    (let ip = (if bo_response_a opts = [] then ipv4_zero else bo_response_a opts)
                     in resp\<lparr>m_answer := [rr_header D name type_a ttl (RA (to4 ip))]\<rparr>)
                  else if qtype = type_aaaa then
                    (let ip = (if bo_response_aaaa opts = [] then ipv6_zero
                               else bo_response_aaaa opts)
                     in resp\<lparr>m_answer := [rr_header D name type_aaaa ttl (RAAAA (to16 ip))]\<rparr>)
                  else if qtype = type_https \<or> qtype = type_svcb then
                    resp\<lparr>m_ns := [soa_for D name ttl]\<rparr>
                  else synth_nxdomain D (Some r))))"

section \<open>Names answered locally\<close>

definition itoa :: "nat \<Rightarrow> string" where
  "itoa i = (if i < 10 then [char_of (48 + i)] else [char_of (48 + i div 10), char_of (48 + i mod 10)])"

definition is_private_ptr :: "golib \<Rightarrow> string \<Rightarrow> bool" where
  "is_private_ptr G qname =
     (let q = to_lower G qname in
      if suffix ''.10.in-addr.arpa.'' q \<or> suffix ''.168.192.in-addr.arpa.'' q
         \<or> suffix ''.254.169.in-addr.arpa.'' q then True
      else if list_ex (\<lambda>i. suffix (''.'' @ itoa i @ ''.172.in-addr.arpa.'') q) [16..<32] then True
      else suffix ''.c.f.ip6.arpa.'' q \<or> suffix ''.d.f.ip6.arpa.'' q
         \<or> suffix ''.8.e.f.ip6.arpa.'' q \<or> suffix ''.9.e.f.ip6.arpa.'' q
         \<or> suffix ''.a.e.f.ip6.arpa.'' q \<or> suffix ''.b.e.f.ip6.arpa.'' q)"

definition handle_special :: "golib \<Rightarrow> dnslib \<Rightarrow> msg \<Rightarrow> string \<Rightarrow> u16 \<Rightarrow> bool \<Rightarrow> msg option" where
  "handle_special G D req qname qtype block_local_ptr =
     (if qname = ''localhost.'' \<or> suffix ''.localhost.'' qname then Some (synth_loopback D req qtype)
      else if qname = ''use-application-dns.net.'' then Some (synth_nxdomain D (Some req))
      else if block_local_ptr \<and> qtype = type_ptr \<and> is_private_ptr G qname then
        Some (synth_nxdomain D (Some req))
      else None)"

section \<open>Client-subnet options\<close>

definition strip_rr :: "rr \<Rightarrow> rr" where
  "strip_rr r =
     (case rr_data r of
        ROPT os \<Rightarrow> r\<lparr>rr_data := ROPT (filter (\<lambda>x. eo_code x \<noteq> edns0_subnet) os)\<rparr>
      | _ \<Rightarrow> r)"

definition strip_ecs :: "msg option \<Rightarrow> msg option" where
  "strip_ecs m = map_option (\<lambda>m. m\<lparr>m_extra := map strip_rr (m_extra m)\<rparr>) m"

definition has_ecs :: "msg \<Rightarrow> bool" where
  "has_ecs m \<longleftrightarrow>
     (\<exists>r \<in> set (m_extra m). case rr_data r of
        ROPT os \<Rightarrow> edns0_subnet \<in> eo_code ` set os | _ \<Rightarrow> False)"

section \<open>Packing for UDP\<close>

definition pack_udp_response :: "dnslib \<Rightarrow> msg \<Rightarrow> int \<Rightarrow> string option" where
  "pack_udp_response D m max_size =
     (case dl_pack D m of
        None \<Rightarrow> None
      | Some wire \<Rightarrow>
          if max_size \<le> 0 \<or> int (length wire) \<le> max_size then Some wire
          else
            let truncated = m\<lparr>m_truncated := True, m_answer := [], m_ns := [], m_extra := []\<rparr> in
            (case dl_pack D truncated of
               None \<Rightarrow> None
             | Some wire \<Rightarrow>
                 if int (length wire) \<le> max_size then Some wire
                 else dl_pack D (m\<lparr>m_response := True, m_truncated := True, m_question := [],
                                   m_answer := [], m_ns := [], m_extra := []\<rparr>)))"

definition udp_packet_size :: "int \<Rightarrow> int" where
  "udp_packet_size configured = (if configured \<le> 0 then 1232 else configured)"

section \<open>Facts\<close>

lemma strip_rr_frame [simp]:
  "rr_name (strip_rr r) = rr_name r" "rr_type (strip_rr r) = rr_type r"
  "rr_class (strip_rr r) = rr_class r" "rr_ttl (strip_rr r) = rr_ttl r"
  by (simp_all add: strip_rr_def split: rdata.splits)

lemma strip_ecs_clean: "strip_ecs (Some m) = Some m' \<Longrightarrow> \<not> has_ecs m'"
  by (fastforce simp: strip_ecs_def has_ecs_def strip_rr_def split: rdata.splits)

lemma strip_ecs_id:
  assumes "\<not> has_ecs m"
  shows "strip_ecs (Some m) = Some m"
proof -
  have "strip_rr r = r" if "r \<in> set (m_extra m)" for r
  proof (cases "rr_data r")
    case (ROPT os)
    with assms that have "edns0_subnet \<notin> eo_code ` set os" by (force simp: has_ecs_def)
    then have "filter (\<lambda>x. eo_code x \<noteq> edns0_subnet) os = os" by (intro filter_True) (metis image_eqI)
    with ROPT show ?thesis by (simp add: strip_rr_def)
  qed (simp_all add: strip_rr_def)
  then have "map strip_rr (m_extra m) = m_extra m" by (simp add: map_idI)
  then show ?thesis by (simp add: strip_ecs_def)
qed

text \<open>What every synthetic response to a request has in common.\<close>

definition reply_to :: "msg \<Rightarrow> msg \<Rightarrow> bool" where
  "reply_to req resp \<longleftrightarrow> m_id resp = m_id req \<and> m_response resp \<and> m_opcode resp = m_opcode req
     \<and> m_question resp = take 1 (m_question req) \<and> m_recursion_available resp"

lemma synth_rcode_reply:
  assumes "set_reply_ok D"
  shows "reply_to req (synth_rcode D (Some req) rcode)" "m_rcode (synth_rcode D r rcode) = rcode"
    "m_answer (synth_rcode D (Some req) rcode) = []"
  using assms by (simp_all add: reply_to_def synth_rcode_def set_reply_ok_def Let_def split: option.split)

lemma synth_block_reply: "set_reply_ok D \<Longrightarrow> reply_to req (synth_block D (Some req) qtype opts)"
  using synth_rcode_reply(1) [of D req]
  by (cases "m_question req") (simp_all add: synth_block_def synth_nxdomain_def reply_to_def Let_def)

lemma synth_loopback_reply: "set_reply_ok D \<Longrightarrow> reply_to req (synth_loopback D req qtype)"
  using synth_rcode_reply(1) [of D req]
  by (cases "m_question req") (simp_all add: synth_loopback_def reply_to_def Let_def)

lemma handle_special_reply:
  "set_reply_ok D \<Longrightarrow> handle_special G D req qname qtype b = Some resp \<Longrightarrow> reply_to req resp"
  using synth_rcode_reply(1) [of D req] synth_loopback_reply [of D req]
  by (auto simp: handle_special_def synth_nxdomain_def split: if_split_asm)

section \<open>Properties\<close>

definition rest_of :: "rr \<Rightarrow> rr" where
  "rest_of r = r\<lparr>rr_data := ROther []\<rparr>"

definition options_of :: "rr \<Rightarrow> edns_option list" where
  "options_of r = (case rr_data r of ROPT os \<Rightarrow> os | _ \<Rightarrow> [])"

lemma strip_rr_parts:
  "rest_of (strip_rr r) = rest_of r"
  "options_of (strip_rr r) = filter (\<lambda>x. eo_code x \<noteq> edns0_subnet) (options_of r)"
  by (simp_all add: strip_rr_def rest_of_def options_of_def split: rdata.splits)

text \<open>Stripping client-subnet options leaves no such option in the message, keeps every record in
  its place with every other option in its order, changes nothing outside the additional
  section, and is the identity on a message that carries no such option (so stripping twice is
  stripping once).\<close>

theorem strip_ecs_exact:
  "\<exists>m'. strip_ecs (Some m) = Some m' \<and> \<not> has_ecs m'
     \<and> m' = m\<lparr>m_extra := m_extra m'\<rparr>
     \<and> map rest_of (m_extra m') = map rest_of (m_extra m)
     \<and> map options_of (m_extra m') = map (filter (\<lambda>x. eo_code x \<noteq> edns0_subnet) \<circ> options_of) (m_extra m)
     \<and> (m' = m) = (\<not> has_ecs m) \<and> strip_ecs (Some m') = Some m'"
proof -
  let ?m = "m\<lparr>m_extra := map strip_rr (m_extra m)\<rparr>"
  have s: "strip_ecs (Some m) = Some ?m" by (simp add: strip_ecs_def)
  have clean: "\<not> has_ecs ?m" by (rule strip_ecs_clean [OF s])
  have fix_iff: "?m = m \<longleftrightarrow> \<not> has_ecs m"
  proof
    assume "?m = m"
    with clean show "\<not> has_ecs m" by metis
  next
    assume "\<not> has_ecs m"
    with s strip_ecs_id [of m] show "?m = m" by (metis option.inject)
  qed
  show ?thesis
  proof (intro exI [of _ ?m] conjI)
    show "strip_ecs (Some ?m) = Some ?m" by (rule strip_ecs_id [OF clean])
    show "(?m = m) = (\<not> has_ecs m)" by (rule fix_iff)
    show "strip_ecs (Some m) = Some ?m" by (rule s)
    show "\<not> has_ecs ?m" by (rule clean)
  qed (simp_all add: strip_rr_parts o_def)
qed

lemma block_ttl_pos: "block_ttl d \<noteq> 0"
  by (simp add: block_ttl_def Let_def)

text \<open>A blocked query is answered in the question's own name: an address query gets exactly one
  record with the configured address (the unspecified address when none is configured) and a
  positive time to live, an HTTPS or SVCB query gets an empty answer with a start-of-authority
  record, and every other query, or all of them when so configured, gets a name error.\<close>

theorem synth_block_correct:
  assumes "set_reply_ok D" "m_question req = q # qs"
  shows "let resp = synth_block D (Some req) qtype opts; ttl = block_ttl (bo_ttl opts) in
    reply_to req resp \<and> ttl \<noteq> 0 \<and>
    (if bo_use_nxdomain opts \<or> qtype \<notin> {type_a, type_aaaa, type_https, type_svcb}
     then m_rcode resp = rcode_name_error \<and> m_answer resp = []
     else m_rcode resp = rcode_success \<and>
      (if qtype = type_a then m_answer resp = [rr_header D (q_name q) type_a ttl
            (RA (to4 (if bo_response_a opts = [] then ipv4_zero else bo_response_a opts)))]
       else if qtype = type_aaaa then m_answer resp = [rr_header D (q_name q) type_aaaa ttl
            (RAAAA (to16 (if bo_response_aaaa opts = [] then ipv6_zero else bo_response_aaaa opts)))]
       else m_answer resp = [] \<and> m_ns resp = [soa_for D (q_name q) ttl]))"
proof -
  note base = synth_rcode_reply(2) [OF assms(1)] synth_rcode_reply(3) [OF assms(1), of req]
  show ?thesis
    using synth_block_reply [OF assms(1), of req qtype opts] assms(2) block_ttl_pos [of "bo_ttl opts"] base
    by (auto simp: Let_def synth_block_def synth_nxdomain_def dns_codes)
qed

definition ask :: "string \<Rightarrow> u16 \<Rightarrow> msg" where
  "ask name typ = new_msg\<lparr>m_id := 7, m_recursion_desired := True,
     m_question := [\<lparr>q_name = name, q_type = typ, q_class = class_inet\<rparr>]\<rparr>"

theorem synth_block_correct_witness:
  "m_answer (synth_block plain_dns (Some (ask ''ads.example.'' type_a)) type_a
       \<lparr>bo_response_a = [], bo_response_aaaa = [], bo_ttl = 0, bo_use_nxdomain = False\<rparr>)
     = [rr_header plain_dns ''ads.example.'' type_a 60 (RA [0, 0, 0, 0])]"
proof -
  have "block_ttl 0 = 60" "to4 ipv4_zero = [0, 0, 0, 0]" by code_simp+
  with synth_block_correct [OF plain_dns_ok, of "ask ''ads.example.'' type_a"
      "\<lparr>q_name = ''ads.example.'', q_type = type_a, q_class = class_inet\<rparr>" "[]" type_a
      "\<lparr>bo_response_a = [], bo_response_aaaa = [], bo_ttl = 0, bo_use_nxdomain = False\<rparr>"]
  show ?thesis by (simp add: ask_def Let_def dns_codes)
qed

text \<open>A message without any section is its twelve-byte header on the wire.\<close>

definition header_packs :: "dnslib \<Rightarrow> bool" where
  "header_packs D \<longleftrightarrow> (\<forall>m w. m_question m = [] \<longrightarrow> m_answer m = [] \<longrightarrow> m_ns m = [] \<longrightarrow>
     m_extra m = [] \<longrightarrow> dl_pack D m = Some w \<longrightarrow> length w \<le> 12)"

text \<open>A UDP response never exceeds the client's size limit: a message that fits is sent as it is,
  a larger one is cut down to a truncated response for the same question, or to a bare truncated
  header.\<close>

theorem udp_response_bounded:
  assumes "header_packs D" "12 \<le> max_size" "pack_udp_response D m max_size = Some wire"
  shows "int (length wire) \<le> max_size \<and>
    (dl_pack D m = Some wire \<or>
     (\<exists>full t. dl_pack D m = Some full \<and> max_size < int (length full) \<and> dl_pack D t = Some wire
       \<and> m_truncated t \<and> m_id t = m_id m \<and> m_question t \<in> {m_question m, []}
       \<and> m_answer t = [] \<and> m_ns t = [] \<and> m_extra t = []))"
proof -
  let ?t1 = "m\<lparr>m_truncated := True, m_answer := [], m_ns := [], m_extra := []\<rparr>"
  let ?t2 = "m\<lparr>m_response := True, m_truncated := True, m_question := [], m_answer := [],
    m_ns := [], m_extra := []\<rparr>"
  obtain full where full: "dl_pack D m = Some full"
    using assms(3) by (auto simp: pack_udp_response_def split: option.splits)
  show ?thesis
  proof (cases "int (length full) \<le> max_size")
    case True
    with assms(3) full show ?thesis by (simp add: pack_udp_response_def)
  next
    case False
    with assms(2,3) full obtain w1 where w1: "dl_pack D ?t1 = Some w1"
      by (auto simp: pack_udp_response_def Let_def split: option.splits)
    show ?thesis
    proof (cases "int (length w1) \<le> max_size")
      case True
      with False assms(2,3) full w1 have "wire = w1" by (simp add: pack_udp_response_def Let_def)
      with True False full w1 show ?thesis by (auto intro!: exI [of _ ?t1])
    next
      case False
      with \<open>\<not> int (length full) \<le> max_size\<close> assms(2,3) full w1 have w2: "dl_pack D ?t2 = Some wire"
        by (simp add: pack_udp_response_def Let_def)
      have "length wire \<le> 12"
        using assms(1) [unfolded header_packs_def, rule_format, of ?t2 wire] w2 by simp
      with assms(2) \<open>\<not> int (length full) \<le> max_size\<close> full w2 show ?thesis
        by (auto intro!: exI [of _ ?t2])
    qed
  qed
qed

lemma plain_dns_header: "header_packs plain_dns"
  by (simp add: header_packs_def plain_dns_def)

theorem udp_response_bounded_witness:
  "pack_udp_response plain_dns (ask ''www.example.com.'' type_a) 12 = Some []
   \<and> int (length ([] :: string)) \<le> 12"
proof -
  have "pack_udp_response plain_dns (ask ''www.example.com.'' type_a) 12 = Some []"
    by (simp add: pack_udp_response_def plain_dns_def ask_def)
  then show ?thesis
    using udp_response_bounded [OF plain_dns_header, of 12 "ask ''www.example.com.'' type_a" "[]"] by simp
qed

end
