(* ===== verification/Rate_Limiter.thy ===== *)
theory Rate_Limiter
  imports Go_Net Go_Float
begin

text \<open>
  \<open>internal/dns/ratelimit.go\<close>: the per-client token buckets of the DNS listener, on
  double-precision numbers (\<open>Go_Float\<close>).  \<open>Allow\<close> runs under the limiter's lock and is one step;
  the clock reading is its argument.  The keys of equal age are trimmed in the order of the
  bucket list, which stands for Go's map order.
\<close>

record rate_bucket =
  rb_tokens :: float64
  rb_seen :: gotime

record rate_limiter =
  rl_qps :: float64
  rl_burst :: float64
  rl_max_buckets :: int
  rl_buckets :: "(string, rate_bucket) alist"
  rl_next_prune :: gotime

definition default_max_buckets :: int where "default_max_buckets = 10000"

definition new_rate_limiter_max :: "int \<Rightarrow> int \<Rightarrow> int \<Rightarrow> rate_limiter option" where
  "new_rate_limiter_max qps burst max_buckets =
     (if qps \<le> 0 \<or> burst \<le> 0 then None
      else Some \<lparr>rl_qps = f64_of_int qps, rl_burst = f64_of_int burst,
                 rl_max_buckets = (if max_buckets \<le> 0 then default_max_buckets else max_buckets),
                 rl_buckets = [], rl_next_prune = 0\<rparr>)"

definition new_rate_limiter :: "int \<Rightarrow> int \<Rightarrow> rate_limiter option" where
  "new_rate_limiter qps burst = new_rate_limiter_max qps burst 0"

definition trim_buckets :: "string \<Rightarrow> rate_limiter \<Rightarrow> rate_limiter" where
  "trim_buckets exempt l =
     (if rl_max_buckets l \<le> 0 \<or> int (length (rl_buckets l)) \<le> rl_max_buckets l then l
      else
        let victims = map fst (sort_key (\<lambda>(k, b). rb_seen b)
                        (filter (\<lambda>(k, b). k \<noteq> exempt) (rl_buckets l)))
        in l\<lparr>rl_buckets := fold (\<lambda>k bs. if int (length bs) \<le> rl_max_buckets l then bs
                                          else AList.delete k bs) victims (rl_buckets l)\<rparr>)"

definition prune_buckets :: "gotime \<Rightarrow> rate_limiter \<Rightarrow> rate_limiter" where
  "prune_buckets now l =
     trim_buckets []
       (l\<lparr>rl_buckets := filter (\<lambda>(k, b). \<not> 5 * minute < time_sub now (rb_seen b)) (rl_buckets l)\<rparr>)"

definition refill :: "gotime \<Rightarrow> rate_limiter \<Rightarrow> rate_bucket \<Rightarrow> float64" where
  "refill now l b =
     (let elapsed = duration_seconds (time_sub now (rb_seen b));
          tokens = f64_add (rb_tokens b) (f64_mul elapsed (rl_qps l))
      in if rl_burst l < tokens then rl_burst l else tokens)"

definition allow_ip :: "ip \<Rightarrow> gotime \<Rightarrow> rate_limiter \<Rightarrow> rate_limiter \<times> bool" where
  "allow_ip addr now l =
     (if rl_qps l \<le> 0 \<or> rl_burst l \<le> 0 then (l, True)
      else
        let key = (if addr = [] then ''unknown'' else ip_string addr);
            l = (if time_is_zero (rl_next_prune l) \<or> rl_next_prune l < now
                 then (prune_buckets now l)\<lparr>rl_next_prune := now + minute\<rparr> else l);
            l = (if map_of (rl_buckets l) key = None
                 then trim_buckets key (l\<lparr>rl_buckets := AList.update key
                        \<lparr>rb_tokens = rl_burst l, rb_seen = now\<rparr> (rl_buckets l)\<rparr>)
                 else l) in
        (case map_of (rl_buckets l) key of
           None \<Rightarrow> (l, False)
         | Some b \<Rightarrow>
             let tokens = refill now l b; ok = \<not> tokens < 1 in
             (l\<lparr>rl_buckets := AList.update key
                  \<lparr>rb_tokens = (if ok then f64_sub tokens 1 else tokens), rb_seen = now\<rparr>
                  (rl_buckets l)\<rparr>, ok)))"

text \<open>A limiter that is not configured lets everything pass.\<close>

definition allow_opt :: "ip \<Rightarrow> gotime \<Rightarrow> rate_limiter option \<Rightarrow> rate_limiter option \<times> bool" where
  "allow_opt addr now l =
     (case l of None \<Rightarrow> (None, True) | Some l \<Rightarrow> apfst Some (allow_ip addr now l))"

section \<open>Trimming\<close>

lemma fold_delete_bound:
  assumes "alist_ok bs" "set ks \<subseteq> keys bs" "distinct ks" "int (length bs) - int (length ks) \<le> n"
  shows "int (length (fold (\<lambda>k bs. if int (length bs) \<le> n then bs else AList.delete k bs) ks bs)) \<le> n"
  using assms
proof (induction ks arbitrary: bs)
  case (Cons k ks)
  show ?case
  proof (cases "int (length bs) \<le> n")
    case True
    have "fold (\<lambda>k bs. if int (length bs) \<le> n then bs else AList.delete k bs) xs bs = bs" for xs
      using True by (induction xs) auto
    with True show ?thesis by simp
  next
    case False
    have "Suc (length (AList.delete k bs)) = length bs"
      using Cons.prems by (intro length_delete) auto
    then show ?thesis
      using Cons.IH [of "AList.delete k bs"] Cons.prems False by auto
  qed
qed simp

lemma fold_delete_keeps:
  "k \<notin> set ks \<Longrightarrow> map_of (fold (\<lambda>k bs. if int (length bs) \<le> n then bs else AList.delete k bs) ks bs) k = map_of bs k"
  by (induction ks arbitrary: bs) auto

lemma fold_delete_sub:
  "alist_ok bs \<Longrightarrow> alist_ok (fold (\<lambda>k bs. if int (length bs) \<le> n then bs else AList.delete k bs) ks bs)"
  "set (fold (\<lambda>k bs. if int (length bs) \<le> n then bs else AList.delete k bs) ks bs) \<subseteq> set bs"
proof -
  have sub: "set (AList.delete k m) \<subseteq> set m" for k and m :: "('a \<times> 'b) list"
    by (auto simp: AList.delete_eq)
  show "alist_ok bs \<Longrightarrow> alist_ok (fold (\<lambda>k bs. if int (length bs) \<le> n then bs else AList.delete k bs) ks bs)"
    by (induction ks arbitrary: bs) auto
  show "set (fold (\<lambda>k bs. if int (length bs) \<le> n then bs else AList.delete k bs) ks bs) \<subseteq> set bs"
  proof (induction ks arbitrary: bs)
    case (Cons k ks)
    from Cons [of "if int (length bs) \<le> n then bs else AList.delete k bs"] sub [of k bs] show ?case
      by (auto split: if_split_asm)
  qed simp
qed

lemma trim_buckets_fields [simp]:
  "rl_qps (trim_buckets k l) = rl_qps l" "rl_burst (trim_buckets k l) = rl_burst l"
  "rl_max_buckets (trim_buckets k l) = rl_max_buckets l"
  by (simp_all add: trim_buckets_def Let_def)

lemma trim_buckets_sub:
  "alist_ok (rl_buckets l) \<Longrightarrow> alist_ok (rl_buckets (trim_buckets k l))"
  "set (rl_buckets (trim_buckets k l)) \<subseteq> set (rl_buckets l)"
  by (simp_all add: trim_buckets_def Let_def fold_delete_sub)

lemma trim_buckets_keeps: "map_of (rl_buckets (trim_buckets k l)) k = map_of (rl_buckets l) k"
  by (auto simp: trim_buckets_def Let_def intro!: fold_delete_keeps)

lemma trim_buckets_bound:
  assumes "alist_ok (rl_buckets l)" "1 \<le> rl_max_buckets l"
  shows "int (length (rl_buckets (trim_buckets k l))) \<le> rl_max_buckets l"
proof (cases "int (length (rl_buckets l)) \<le> rl_max_buckets l")
  case False
  let ?vs = "map fst (sort_key (\<lambda>(k, b). rb_seen b) (filter (\<lambda>(j, b). j \<noteq> k) (rl_buckets l)))"
  have vs: "set ?vs = keys (rl_buckets l) - {k}" by (auto simp: image_iff)
  have d: "distinct ?vs" using assms(1) by (auto simp: distinct_map inj_on_def)
  have "length ?vs = card (keys (rl_buckets l) - {k})" using distinct_card [OF d] vs by simp
  moreover have "card (keys (rl_buckets l)) \<le> Suc (card (keys (rl_buckets l) - {k}))"
    by (metis card_Diff_singleton_if card_Suc_Diff1 finite_imageI finite_set le_Suc_eq order_refl)
  ultimately have "int (length (rl_buckets l)) - int (length ?vs) \<le> rl_max_buckets l"
    using length_alist_card [OF assms(1)] assms(2) by linarith
  then show ?thesis
    using fold_delete_bound [OF assms(1), of ?vs "rl_max_buckets l"] vs d False assms(2)
    by (simp add: trim_buckets_def Let_def)
qed (simp add: trim_buckets_def)


section \<open>Invariant\<close>

text \<open>\<open>limiter_ok t l\<close>: what holds between calls, \<open>t\<close> being the time of the last one.\<close>

definition limiter_ok :: "gotime \<Rightarrow> rate_limiter \<Rightarrow> bool" where
  "limiter_ok t l \<longleftrightarrow>
     alist_ok (rl_buckets l) \<and> 1 \<le> rl_max_buckets l \<and> int (length (rl_buckets l)) \<le> rl_max_buckets l
     \<and> 0 < rl_qps l \<and> rl_burst l \<in> of_int ` {1..<2 ^ 53}
     \<and> (\<forall>k b. map_of (rl_buckets l) k = Some b \<longrightarrow>
          0 \<le> rb_tokens b \<and> rb_tokens b \<le> rl_burst l \<and> rb_seen b \<le> t)"

text \<open>A smaller bucket map, or a later time, keeps the invariant.\<close>

lemma limiter_ok_sub:
  assumes "limiter_ok t l" "t \<le> u" "alist_ok bs" "set bs \<subseteq> set (rl_buckets l)"
  shows "limiter_ok u (l\<lparr>rl_buckets := bs, rl_next_prune := n\<rparr>)"
proof -
  have "length bs \<le> length (rl_buckets l)"
    using assms by (metis card_mono distinct_card finite_set length_map limiter_ok_def distinct_map)
  moreover have "map_of (rl_buckets l) k = Some b" if "map_of bs k = Some b" for k b
    using map_of_subset [OF that assms(4)] assms(1) by (simp add: limiter_ok_def)
  ultimately show ?thesis using assms by (fastforce simp: limiter_ok_def)
qed

lemma limiter_ok_prune:
  assumes "limiter_ok t l" "t \<le> now"
  shows "limiter_ok now ((prune_buckets now l)\<lparr>rl_next_prune := n\<rparr>)"
proof -
  let ?bs = "filter (\<lambda>(k, b). \<not> 5 * minute < time_sub now (rb_seen b)) (rl_buckets l)"
  let ?l = "l\<lparr>rl_buckets := ?bs\<rparr>"
  have "alist_ok ?bs" using assms(1) by (simp add: limiter_ok_def distinct_map_filter)
  then have "limiter_ok now ((trim_buckets [] ?l)\<lparr>rl_next_prune := n\<rparr>)"
    using limiter_ok_sub [OF assms, of "rl_buckets (trim_buckets [] ?l)" n]
      trim_buckets_sub(1) [of ?l "[]"] trim_buckets_sub(2) [of "[]" ?l]
    by (auto simp: trim_buckets_def Let_def split: if_split_asm)
  then show ?thesis by (simp add: prune_buckets_def)
qed

lemma limiter_ok_new_bucket:
  assumes "limiter_ok t l"
  shows "limiter_ok t (trim_buckets k (l\<lparr>rl_buckets := AList.update k \<lparr>rb_tokens = rl_burst l, rb_seen = t\<rparr> (rl_buckets l)\<rparr>))"
proof -
  let ?l = "l\<lparr>rl_buckets := AList.update k \<lparr>rb_tokens = rl_burst l, rb_seen = t\<rparr> (rl_buckets l)\<rparr>"
  have ok: "alist_ok (rl_buckets ?l)" using assms by (simp add: limiter_ok_def)
  note sub = trim_buckets_sub(1) [OF ok, of k] trim_buckets_sub(2) [of k ?l]
  have burst: "0 \<le> rl_burst l" using assms by (auto simp: limiter_ok_def)
  have each: "0 \<le> rb_tokens b \<and> rb_tokens b \<le> rl_burst l \<and> rb_seen b \<le> t"
    if "map_of (rl_buckets (trim_buckets k ?l)) j = Some b" for j b
    using map_of_subset [OF that sub(2) ok] burst assms by (auto simp: limiter_ok_def split: if_split_asm)
  have "int (length (rl_buckets (trim_buckets k ?l))) \<le> rl_max_buckets l"
    using trim_buckets_bound [OF ok, of k] assms by (simp add: limiter_ok_def)
  then show ?thesis
    using assms sub(1) each by (simp add: limiter_ok_def)
qed

lemma refill_range:
  assumes "0 \<le> rb_tokens b" "rb_seen b \<le> now" "0 < rl_qps l" "0 \<le> rl_burst l"
  shows "0 \<le> refill now l b" "refill now l b \<le> rl_burst l"
proof -
  define d where "d = time_sub now (rb_seen b)"
  have d: "0 \<le> d" "d \<le> max_int64" using assms(2) sat64_range by (simp_all add: d_def time_sub_def)
  have nn: "0 \<le> d sdiv second" "0 \<le> d smod second"
    using d by (simp_all add: signed_divide_int_def signed_modulo_int_def second_def sgn_if minus_div_mult_eq_mod [symmetric])
  have "0 \<le> f64_of_int i" if "0 \<le> i" for i using that by (simp add: f64_of_int_def f64_nonneg)
  with nn have "0 \<le> duration_seconds d"
    by (simp add: duration_seconds_def f64_add_def f64_div_def f64_nonneg second_def)
  with assms have "0 \<le> f64_add (rb_tokens b) (f64_mul (duration_seconds d) (rl_qps l))"
    by (simp add: f64_add_def f64_mul_def f64_nonneg)
  then show "0 \<le> refill now l b" "refill now l b \<le> rl_burst l"
    using assms(4) by (simp_all add: refill_def d_def Let_def)
qed

lemma take_token:
  assumes "1 \<le> x" "x \<le> of_int B" "B < 2 ^ 53"
  shows "0 \<le> f64_sub x 1" "f64_sub x 1 \<le> of_int B"
proof -
  have "(of_int B :: rat) < of_int (2 ^ 53)" using assms(3) by (simp only: of_int_less_iff)
  then have "x - 1 < 2 ^ 53" using assms(2) by simp
  then show "0 \<le> f64_sub x 1" "f64_sub x 1 \<le> of_int B"
    using assms f64_nonneg [of "x - 1"] f64_le_int [of "x - 1" B] by (simp_all add: f64_sub_def)
qed

text \<open>The three stages of a call on a configured limiter.\<close>

definition at_prune :: "gotime \<Rightarrow> rate_limiter \<Rightarrow> rate_limiter" where
  "at_prune now l =
     (if time_is_zero (rl_next_prune l) \<or> rl_next_prune l < now
      then (prune_buckets now l)\<lparr>rl_next_prune := now + minute\<rparr> else l)"

definition at_key :: "string \<Rightarrow> gotime \<Rightarrow> rate_limiter \<Rightarrow> rate_limiter" where
  "at_key k now l =
     (if map_of (rl_buckets l) k = None
      then trim_buckets k (l\<lparr>rl_buckets := AList.update k \<lparr>rb_tokens = rl_burst l, rb_seen = now\<rparr> (rl_buckets l)\<rparr>)
      else l)"

definition client_key_of :: "ip \<Rightarrow> string" where
  "client_key_of addr = (if addr = [] then ''unknown'' else ip_string addr)"

lemma at_prune_ok: "limiter_ok t l \<Longrightarrow> t \<le> now \<Longrightarrow> limiter_ok now (at_prune now l)"
  using limiter_ok_prune [of t l now] limiter_ok_sub [of t l now "rl_buckets l" "rl_next_prune l"]
  by (auto simp: at_prune_def limiter_ok_def)

lemma at_key_ok: "limiter_ok now l \<Longrightarrow> limiter_ok now (at_key k now l)"
  by (simp add: at_key_def limiter_ok_new_bucket)

lemma at_key_bucket:
  obtains b where "map_of (rl_buckets (at_key k now l)) k = Some b"
proof (cases "map_of (rl_buckets l) k")
  case None
  then show thesis using that by (simp add: at_key_def trim_buckets_keeps)
qed (use that in \<open>simp add: at_key_def\<close>)

lemma allow_ip_stages:
  assumes "0 < rl_qps l" "0 < rl_burst l"
  shows "allow_ip addr now l =
    (let k = client_key_of addr; l = at_key k now (at_prune now l) in
     case map_of (rl_buckets l) k of
       None \<Rightarrow> (l, False)
     | Some b \<Rightarrow>
         let tokens = refill now l b; ok = \<not> tokens < 1 in
         (l\<lparr>rl_buckets := AList.update k
              \<lparr>rb_tokens = (if ok then f64_sub tokens 1 else tokens), rb_seen = now\<rparr> (rl_buckets l)\<rparr>, ok))"
  using assms unfolding allow_ip_def at_key_def at_prune_def client_key_of_def Let_def by simp

lemma limiter_positive: "limiter_ok t l \<Longrightarrow> 0 < rl_qps l \<and> 0 < rl_burst l"
  by (auto simp: limiter_ok_def)

lemma allow_ip_ok:
  assumes "limiter_ok t l" "t \<le> now"
  shows "limiter_ok now (fst (allow_ip addr now l))"
proof -
  let ?k = "client_key_of addr"
  let ?l = "at_key ?k now (at_prune now l)"
  have ok: "limiter_ok now ?l" using assms by (simp add: at_key_ok at_prune_ok)
  obtain b where b: "map_of (rl_buckets ?l) ?k = Some b" by (rule at_key_bucket)
  obtain B where B: "rl_burst ?l = of_int B" "1 \<le> B" "B < 2 ^ 53" using ok by (auto simp: limiter_ok_def)
  have bb: "0 \<le> rb_tokens b" "rb_seen b \<le> now" "0 < rl_qps ?l" using ok b by (auto simp: limiter_ok_def)
  note r = refill_range [OF bb, unfolded B(1)]
  let ?x = "refill now ?l b"
  let ?nb = "\<lparr>rb_tokens = (if \<not> ?x < 1 then f64_sub ?x 1 else ?x), rb_seen = now\<rparr>"
  have nb: "0 \<le> rb_tokens ?nb" "rb_tokens ?nb \<le> rl_burst ?l"
    using r B take_token [of ?x B] by auto
  have "fst (allow_ip addr now l) = ?l\<lparr>rl_buckets := AList.update ?k ?nb (rl_buckets ?l)\<rparr>"
    using limiter_positive [OF assms(1)] b by (simp add: allow_ip_stages Let_def)
  moreover have "length (AList.update ?k ?nb (rl_buckets ?l)) = length (rl_buckets ?l)"
    using b by (auto dest!: map_of_SomeD intro: rev_image_eqI)
  ultimately show ?thesis using ok nb by (auto simp: limiter_ok_def)
qed

lemma new_rate_limiter_ok:
  assumes "new_rate_limiter_max qps burst m = Some l" "burst < 2 ^ 53" "qps < 2 ^ 53"
  shows "limiter_ok t l"
  using assms f64_of_small_int [of burst] f64_of_small_int [of qps]
  by (auto simp: new_rate_limiter_max_def limiter_ok_def f64_of_int_def default_max_buckets_def split: if_split_asm)

section \<open>Bursts and isolation\<close>

fun allow_run :: "(ip \<times> gotime) list \<Rightarrow> rate_limiter \<Rightarrow> rate_limiter \<times> bool list" where
  "allow_run [] l = (l, [])"
| "allow_run ((addr, now) # cs) l =
     (let (l, ok) = allow_ip addr now l; (l, oks) = allow_run cs l in (l, ok # oks))"

lemma allow_run_ok:
  assumes "limiter_ok t l" "sorted (t # map snd cs)"
  shows "\<exists>u. limiter_ok u (fst (allow_run cs l))"
  using assms
proof (induction cs arbitrary: t l)
  case (Cons c cs)
  obtain addr now where c: "c = (addr, now)" by (cases c)
  have "limiter_ok now (fst (allow_ip addr now l))"
    using Cons.prems c by (intro allow_ip_ok) auto
  with Cons.IH [of now "fst (allow_ip addr now l)"] Cons.prems(2) c show ?case
    by (auto simp: case_prod_beta Let_def)
qed auto

text \<open>A bucket with \<open>n\<close> whole tokens that was filled at the instant \<open>now\<close>.\<close>

definition holds :: "string \<Rightarrow> gotime \<Rightarrow> nat \<Rightarrow> rate_limiter \<Rightarrow> bool" where
  "holds k now n l \<longleftrightarrow>
     0 < rl_qps l \<and> (\<exists>B. rl_burst l = of_int B \<and> int n \<le> B \<and> 0 < B \<and> B < 2 ^ 53) \<and> rl_next_prune l = now + minute \<and> now + minute \<noteq> 0
     \<and> map_of (rl_buckets l) k = Some \<lparr>rb_tokens = of_nat n, rb_seen = now\<rparr>"

lemma duration_seconds_0 [simp]: "duration_seconds 0 = 0"
  by (simp add: duration_seconds_def f64_of_int_def f64_add_def f64_div_def)

lemma refill_same_instant:
  assumes "holds k now n l" "rb_tokens b = of_nat n" "rb_seen b = now"
  shows "refill now l b = of_nat n"
proof -
  obtain B where B: "rl_burst l = of_int B" "int n \<le> B" "B < 2 ^ 53" using assms(1) by (auto simp: holds_def)
  have "f64 (of_int (int n)) = of_int (int n)" using B by (intro f64_of_small_int) auto
  moreover have "(of_nat n :: rat) \<le> of_int B" using B(2) by (metis of_int_le_iff of_int_of_nat_eq)
  ultimately show ?thesis
    using assms B(1) by (simp add: refill_def f64_mul_def f64_add_def)
qed

lemma holds_allow:
  assumes "holds (client_key_of addr) now n l"
  shows "snd (allow_ip addr now l) \<longleftrightarrow> 0 < n"
    and "holds (client_key_of addr) now (n - 1) (fst (allow_ip addr now l))"
proof -
  let ?k = "client_key_of addr"
  let ?b = "\<lparr>rb_tokens = of_nat n, rb_seen = now\<rparr> :: rate_bucket"
  obtain B where B: "rl_burst l = of_int B" "int n \<le> B" "B < 2 ^ 53" "0 < B"
    using assms by (auto simp: holds_def)
  have pos: "0 < rl_qps l" "0 < rl_burst l" using assms B by (auto simp: holds_def)
  have stages: "at_key ?k now (at_prune now l) = l" "map_of (rl_buckets l) ?k = Some ?b"
    using assms by (simp_all add: holds_def at_prune_def at_key_def time_is_zero_def duration_units)
  have rf: "refill now l ?b = of_nat n" using assms by (rule refill_same_instant) simp_all
  have lt: "(of_nat n :: rat) < 1 \<longleftrightarrow> n = 0" by simp
  have dec: "f64_sub (of_nat n) 1 = of_nat (n - 1)" if "0 < n"
  proof -
    from that obtain k where k: "n = Suc k" by (cases n) auto
    have "f64 (of_int (int k)) = of_int (int k)"
      using B k by (intro f64_of_small_int) auto
    then show ?thesis by (simp add: f64_sub_def k)
  qed
  have run: "allow_ip addr now l =
      (l\<lparr>rl_buckets := AList.update ?k \<lparr>rb_tokens = of_nat (n - 1), rb_seen = now\<rparr> (rl_buckets l)\<rparr>, 0 < n)"
  proof (cases "n = 0")
    case True
    then show ?thesis
      unfolding allow_ip_stages [OF pos] stages Let_def option.case rf lt by simp
  next
    case False
    with dec have d: "f64_sub (of_nat n) 1 = of_nat (n - 1)" by simp
    from False show ?thesis
      unfolding allow_ip_stages [OF pos] stages Let_def option.case rf lt d by simp
  qed
  then show "snd (allow_ip addr now l) \<longleftrightarrow> 0 < n" by simp
  show "holds ?k now (n - 1) (fst (allow_ip addr now l))"
    using assms B pos unfolding run holds_def
    by (intro conjI exI [of _ B]) (simp_all del: of_nat_diff)
qed

lemma holds_run:
  "holds (client_key_of addr) now n l \<Longrightarrow>
     snd (allow_run (replicate j (addr, now)) l) = replicate (min n j) True @ replicate (j - n) False"
proof (induction j arbitrary: n l)
  case (Suc j)
  note h = holds_allow [OF Suc.prems]
  show ?case
    using Suc.IH [OF h(2)] h(1) by (cases n) (simp_all add: case_prod_beta Let_def)
qed simp

text \<open>The other clients' buckets: unchanged, or dropped by pruning or trimming.\<close>

lemma trim_other: "alist_ok (rl_buckets l) \<Longrightarrow>
  map_of (rl_buckets (trim_buckets k l)) j \<in> {None, map_of (rl_buckets l) j}"
  using map_of_subset [of "rl_buckets (trim_buckets k l)" j _ "rl_buckets l"] trim_buckets_sub(2) [of k l]
  by (cases "map_of (rl_buckets (trim_buckets k l)) j") auto

lemma map_of_filter_ok: "alist_ok m \<Longrightarrow> map_of (filter P m) j \<in> {None, map_of m j}"
  using map_of_subset [of "filter P m" j _ m] by (cases "map_of (filter P m) j") auto

lemma prune_other:
  assumes "alist_ok (rl_buckets l)"
  shows "map_of (rl_buckets (at_prune now l)) j \<in> {None, map_of (rl_buckets l) j}"
proof -
  let ?bs = "filter (\<lambda>(k, b). \<not> 5 * minute < time_sub now (rb_seen b)) (rl_buckets l)"
  have "alist_ok ?bs" using assms by (simp add: distinct_map_filter)
  then show ?thesis
    using trim_other [of "l\<lparr>rl_buckets := ?bs\<rparr>" "[]" j] map_of_filter_ok [OF assms, of "\<lambda>(k, b). \<not> 5 * minute < time_sub now (rb_seen b)" j]
    by (auto simp: at_prune_def prune_buckets_def)
qed

lemma allow_ip_other:
  assumes "limiter_ok t l" "j \<noteq> client_key_of addr" "t \<le> now"
  shows "map_of (rl_buckets (fst (allow_ip addr now l))) j \<in> {None, map_of (rl_buckets l) j}"
proof -
  let ?k = "client_key_of addr"
  have ok: "alist_ok (rl_buckets l)" "alist_ok (rl_buckets (at_prune now l))"
    using assms at_prune_ok [OF assms(1,3)] by (auto simp: limiter_ok_def)
  have "map_of (rl_buckets (at_key ?k now (at_prune now l))) j \<in> {None, map_of (rl_buckets (at_prune now l)) j}"
    using trim_other [of "(at_prune now l)\<lparr>rl_buckets := AList.update ?k
        \<lparr>rb_tokens = rl_burst (at_prune now l), rb_seen = now\<rparr> (rl_buckets (at_prune now l))\<rparr>" ?k j] ok(2) assms(2)
    by (simp add: at_key_def)
  with prune_other [OF ok(1), of now j] have
    "map_of (rl_buckets (at_key ?k now (at_prune now l))) j \<in> {None, map_of (rl_buckets l) j}" by auto
  then show ?thesis
    using limiter_positive [OF assms(1)] assms(2)
    by (auto simp: allow_ip_stages Let_def split: option.splits)
qed

section \<open>Properties\<close>

text \<open>From a limiter as constructed, any sequence of requests at non-decreasing times keeps every
  client's tokens between zero and the burst, and never keeps more buckets than configured.\<close>

theorem rate_limiter_invariant:
  assumes "new_rate_limiter_max qps burst m = Some l" "burst < 2 ^ 53" "qps < 2 ^ 53"
    and "sorted (map snd cs)"
  shows "\<exists>u. limiter_ok u (fst (allow_run cs l))"
proof (cases cs)
  case Nil
  with new_rate_limiter_ok [OF assms(1-3)] show ?thesis by auto
next
  case (Cons c cs')
  have "limiter_ok (snd c) l" using new_rate_limiter_ok [OF assms(1-3)] .
  moreover have "sorted (snd c # map snd cs)" using assms(4) Cons by auto
  ultimately show ?thesis by (rule allow_run_ok)
qed

theorem rate_limiter_invariant_witness:
  "\<exists>l u. new_rate_limiter_max 10 20 0 = Some l
     \<and> limiter_ok u (fst (allow_run [([1, 2, 3, 4], 5), ([], 7)] l))"
proof -
  obtain l where l: "new_rate_limiter_max 10 20 0 = Some l" by (simp add: new_rate_limiter_max_def)
  from rate_limiter_invariant [OF l, of "[([1, 2, 3, 4], 5), ([], 7)]"] l show ?thesis by auto
qed

text \<open>Of any number of requests one new client makes at the same instant, exactly the first burst
  many pass.\<close>

theorem rate_limiter_burst:
  assumes "new_rate_limiter_max qps burst m = Some l" "burst < 2 ^ 53" "qps < 2 ^ 53" "0 \<le> now"
  shows "snd (allow_run (replicate j (addr, now)) l) =
    replicate (min (nat burst) j) True @ replicate (j - nat burst) False"
proof (cases j)
  case (Suc j')
  let ?k = "client_key_of addr"
  have b: "0 < burst" "0 < qps" using assms(1) by (auto simp: new_rate_limiter_max_def split: if_split_asm)
  have l: "rl_burst l = of_int burst" "rl_qps l = of_int qps" "rl_buckets l = []" "rl_next_prune l = 0"
      "1 \<le> rl_max_buckets l"
    using assms b f64_of_small_int [of burst] f64_of_small_int [of qps]
    by (auto simp: new_rate_limiter_max_def f64_of_int_def default_max_buckets_def split: if_split_asm)
  define l1 where "l1 = l\<lparr>rl_buckets := [(?k, \<lparr>rb_tokens = of_nat (nat burst), rb_seen = now\<rparr>)],
    rl_next_prune := now + minute\<rparr>"
  have h: "holds ?k now (nat burst) l1"
    using b assms l by (auto simp: l1_def holds_def duration_units)
  have "at_prune now l = l\<lparr>rl_next_prune := now + minute\<rparr>"
    using l by (simp add: at_prune_def time_is_zero_def prune_buckets_def trim_buckets_def)
  then have "at_key ?k now (at_prune now l) = l1"
    using l b by (simp add: at_key_def l1_def trim_buckets_def)
  moreover have "at_key ?k now (at_prune now l1) = l1"
    using assms(4) by (simp add: at_key_def at_prune_def l1_def time_is_zero_def duration_units)
  ultimately have "allow_ip addr now l = allow_ip addr now l1"
    using b l by (simp add: allow_ip_stages l1_def)
  with Suc have "snd (allow_run (replicate j (addr, now)) l) = snd (allow_run (replicate j (addr, now)) l1)"
    by (simp add: case_prod_beta Let_def)
  with holds_run [OF h] show ?thesis by simp
qed simp

theorem rate_limiter_burst_witness:
  "\<exists>l. new_rate_limiter_max 1 2 0 = Some l
     \<and> snd (allow_run (replicate 3 ([10, 0, 0, 1], 100)) l) = [True, True, False]"
proof -
  obtain l where l: "new_rate_limiter_max 1 2 0 = Some l" by (simp add: new_rate_limiter_max_def)
  from rate_limiter_burst [OF l, of 100 3 "[10, 0, 0, 1]"] l show ?thesis
    by (simp add: numeral_eq_Suc)
qed

text \<open>A request of one client never takes tokens from another: the other client's bucket is as
  before or has been dropped, and a dropped bucket starts full again.\<close>

theorem rate_limiter_isolates:
  assumes "limiter_ok t l" "t \<le> now" "client_key_of other \<noteq> client_key_of addr"
    and "map_of (rl_buckets (fst (allow_ip addr now l))) (client_key_of other) = Some b"
  shows "map_of (rl_buckets l) (client_key_of other) = Some b"
  using allow_ip_other [OF assms(1,3,2)] assms(4) by simp

theorem rate_limiter_isolates_witness:
  "\<exists>l b. limiter_ok 100 l \<and> map_of (rl_buckets l) (client_key_of [10, 0, 0, 2]) = Some b \<and> rb_tokens b = 2"
proof -
  define b :: rate_bucket where "b = \<lparr>rb_tokens = 2, rb_seen = 100\<rparr>"
  define l :: rate_limiter where "l = \<lparr>rl_qps = 1, rl_burst = of_int 2, rl_max_buckets = 5,
    rl_buckets = [(client_key_of [10, 0, 0, 2], b)], rl_next_prune = 100 + minute\<rparr>"
  have ok: "limiter_ok 100 l"
    unfolding limiter_ok_def by (auto simp: l_def b_def)
  have key: "client_key_of [10, 0, 0, 2] \<noteq> client_key_of [10, 0, 0, 1]" by code_simp
  have "map_of (rl_buckets (fst (allow_ip [10, 0, 0, 1] 100 l))) (client_key_of [10, 0, 0, 2]) = Some b"
  proof -
    have p: "at_prune 100 l = l" by (simp add: at_prune_def l_def time_is_zero_def duration_units)
    have "map_of (rl_buckets (at_key (client_key_of [10, 0, 0, 1]) 100 l)) (client_key_of [10, 0, 0, 2]) = Some b"
      using key by (simp add: at_key_def l_def trim_buckets_def)
    then show ?thesis
      using limiter_positive [OF ok] key by (auto simp: allow_ip_stages p Let_def split: option.splits)
  qed
  from rate_limiter_isolates [OF ok _ key this] ok show ?thesis by (auto simp: b_def)
qed

end
