(* ===== verification/Client_Id.thy ===== *)
theory Client_Id
  imports Kv_Store Go_Net
begin

text \<open>
  \<open>internal/dns/arp.go\<close> and \<open>client_id.go\<close>: the table of hardware addresses read from the
  operating system, and the identity of a client, with its first-seen and last-seen record in
  the client store (any store that offers \<open>kvops\<close>).
\<close>

type_synonym arp_table = "(string, string) alist"

record dns_identity =
  di_key :: string
  di_type :: string
  di_ip :: ip

section \<open>The neighbour tables\<close>

definition is_zero_mac :: "u8 list \<Rightarrow> bool" where
  "is_zero_mac mac \<longleftrightarrow> mac = [] \<or> list_all (\<lambda>b. b = 0) mac"

definition arp_row :: "golib \<Rightarrow> string \<Rightarrow> arp_table \<Rightarrow> arp_table" where
  "arp_row G line out =
     (let fs = str_fields (trim_space line) in
      if length fs < 4 then out
      else (case (parse_ip (fs ! 0), parse_mac (fs ! 3)) of
              (Some addr, Some mac) \<Rightarrow>
                if is_zero_mac mac then out
                else AList.update (ip_string addr) (to_lower G (mac_string mac)) out
            | _ \<Rightarrow> out))"

text \<open>The table of \<open>/proc/net/arp\<close>; the first line is the heading.\<close>

definition parse_linux_arp :: "golib \<Rightarrow> string \<times> string option \<Rightarrow> arp_table \<times> string option" where
  "parse_linux_arp G r =
     (case scan_lines (64 * 1024) (fst r) of (lines, too_long) \<Rightarrow>
        (fold (arp_row G) (tl lines) [],
         if too_long then Some ''bufio.Scanner: token too long'' else snd r))"

definition ndp_row :: "golib \<Rightarrow> string \<times> string option \<Rightarrow> arp_table \<Rightarrow> arp_table" where
  "ndp_row G e out =
     (case e of (name, lladdr) \<Rightarrow>
        (case (parse_ip name, lladdr) of
           (Some addr, Some raw) \<Rightarrow>
             (case parse_mac (trim_space raw) of
                None \<Rightarrow> out
              | Some mac \<Rightarrow>
                  if is_zero_mac mac then out
                  else AList.update (ip_string addr) (to_lower G (mac_string mac)) out)
         | _ \<Rightarrow> out))"

text \<open>The neighbour directories: one per interface, each readable or not, with the address files.\<close>

definition read_linux_ndp ::
  "golib \<Rightarrow> (string \<times> string option) list option list option \<Rightarrow> arp_table option" where
  "read_linux_ndp G ifaces =
     (case ifaces of
        None \<Rightarrow> None
      | Some is \<Rightarrow> Some (fold (\<lambda>entries out. case entries of None \<Rightarrow> out | Some es \<Rightarrow> fold (ndp_row G) es out)
                           is []))"

definition merge_table :: "arp_table \<Rightarrow> arp_table \<Rightarrow> arp_table" where
  "merge_table new out = fold (\<lambda>(k, v). AList.update k v) new out"

definition arp_refresh ::
  "golib \<Rightarrow> string + (string \<times> string option) \<Rightarrow> (string \<times> string option) list option list option
     \<Rightarrow> arp_table \<times> string option" where
  "arp_refresh G arp_file ifaces =
     (let (ipv4, err) = (case arp_file of Inl e \<Rightarrow> ([], Some e) | Inr r \<Rightarrow> parse_linux_arp G r);
          entries = (if err = None then merge_table ipv4 [] else []);
          ipv6 = read_linux_ndp G ifaces;
          entries = (case ipv6 of None \<Rightarrow> entries | Some t \<Rightarrow> merge_table t entries)
      in (entries, if err \<noteq> None \<and> ipv6 = None then err else None))"

definition arp_lookup :: "arp_table \<Rightarrow> ip \<Rightarrow> string option" where
  "arp_lookup t addr = (if addr = [] then None else map_of t (ip_string addr))"

section \<open>Identities\<close>

record client_id =
  ci_arp :: arp_table
  ci_touched :: "(string, gotime) alist"
  ci_debounce :: duration

definition new_client_id :: "arp_table \<Rightarrow> client_id" where
  "new_client_id arp = \<lparr>ci_arp = arp, ci_touched = [], ci_debounce = minute\<rparr>"

definition no_identity :: dns_identity where
  "no_identity = \<lparr>di_key = [], di_type = [], di_ip = []\<rparr>"

definition resolve :: "client_id \<Rightarrow> ip \<Rightarrow> dns_identity" where
  "resolve c addr =
     (if addr = [] then no_identity
      else (case arp_lookup (ci_arp c) addr of
              Some mac \<Rightarrow> \<lparr>di_key = mac, di_type = ''mac'', di_ip = addr\<rparr>
            | None \<Rightarrow> \<lparr>di_key = ip_string addr, di_type = ''ip'', di_ip = addr\<rparr>))"

definition touched_client :: "dns_identity \<Rightarrow> gotime \<Rightarrow> client option \<Rightarrow> client" where
  "touched_client ident now old =
     (case old of
        None \<Rightarrow> \<lparr>cl_key = di_key ident, cl_type = di_type ident, cl_name = [], cl_group = ''default'',
                 cl_first_seen = now, cl_last_seen = now, cl_last_ip = ip_string (di_ip ident),
                 cl_hidden = False\<rparr>
      | Some c \<Rightarrow>
          c\<lparr>cl_last_seen := now, cl_last_ip := ip_string (di_ip ident),
            cl_group := (if cl_group c = [] then ''default'' else cl_group c),
            cl_type := (if cl_type c = [] then di_type ident else cl_type c)\<rparr>)"

definition touch ::
  "'s kvops \<Rightarrow> golib \<Rightarrow> dns_identity \<Rightarrow> gotime \<Rightarrow> client_id \<times> 's \<Rightarrow> (client_id \<times> 's) \<times> store_error option"
where
  "touch K G ident now st =
     (case st of (c, s) \<Rightarrow>
        if di_key ident = [] then ((c, s), None)
        else
          let last = (case map_of (ci_touched c) (di_key ident) of None \<Rightarrow> 0 | Some t \<Rightarrow> t) in
          if \<not> time_is_zero last \<and> time_sub now last < ci_debounce c then ((c, s), None)
          else
            let c = c\<lparr>ci_touched := AList.update (di_key ident) now (ci_touched c)\<rparr> in
            (case client_get K G (di_key ident) s of
               Inl e \<Rightarrow>
                 if e \<noteq> Not_Found then ((c, s), Some e)
                 else (case client_upsert K G (Some (touched_client ident now None)) s of
                         (s, r) \<Rightarrow> ((c, s), r))
             | Inr old \<Rightarrow>
                 (case client_upsert K G (Some (touched_client ident now (Some old))) s of
                    (s, r) \<Rightarrow> ((c, s), r))))"

definition metadata :: "'s kvops \<Rightarrow> golib \<Rightarrow> string \<Rightarrow> 's \<Rightarrow> string \<times> string" where
  "metadata K G key s =
     (if key = [] then ([], [])
      else (case client_get K G key s of Inl _ \<Rightarrow> ([], []) | Inr c \<Rightarrow> (cl_name c, cl_group c)))"

section \<open>Facts\<close>

lemma resolve_key:
  assumes "addr \<noteq> []"
  shows "di_ip (resolve c addr) = addr"
    and "di_type (resolve c addr) = ''ip'' \<Longrightarrow> di_key (resolve c addr) = ip_string addr"
  using assms by (auto simp: resolve_def split: option.splits)

text \<open>Every table entry is the lower-case form of a parsed address that is not all zero.\<close>

definition mac_entry :: "golib \<Rightarrow> string \<times> string \<Rightarrow> bool" where
  "mac_entry G e \<longleftrightarrow>
     (\<exists>addr mac. fst e = ip_string addr \<and> snd e = to_lower G (mac_string mac) \<and> \<not> is_zero_mac mac
        \<and> (\<exists>s. parse_ip s = Some addr) \<and> (\<exists>s. parse_mac s = Some mac))"

lemma arp_row_cases:
  obtains "arp_row G line t = t"
  | x where "arp_row G line t = AList.update (fst x) (snd x) t" "mac_entry G x"
proof (cases "length (str_fields (trim_space line)) < 4")
  case False
  let ?fs = "str_fields (trim_space line)"
  show thesis
  proof (cases "parse_ip (?fs ! 0)")
    case (Some addr)
    note ip = this
    show thesis
    proof (cases "parse_mac (?fs ! 3)")
      case (Some mac)
      have row: "arp_row G line t = (if is_zero_mac mac then t
          else AList.update (ip_string addr) (to_lower G (mac_string mac)) t)"
        unfolding arp_row_def Let_def using False by (simp only: ip Some option.case prod.case if_False)
      show thesis
      proof (cases "is_zero_mac mac")
        case False
        with ip Some have "mac_entry G (ip_string addr, to_lower G (mac_string mac))"
          unfolding mac_entry_def by auto
        with row False that(2) show thesis by force
      qed (use row that(1) in simp)
    qed (use that(1) False ip in \<open>simp only: arp_row_def Let_def option.case prod.case if_False\<close>)
  qed (use that(1) False in \<open>simp only: arp_row_def Let_def option.case prod.case if_False\<close>)
qed (use that(1) in \<open>simp only: arp_row_def Let_def if_True\<close>)

lemma ndp_row_cases:
  obtains "ndp_row G e t = t"
  | x where "ndp_row G e t = AList.update (fst x) (snd x) t" "mac_entry G x"
proof -
  obtain name lladdr where e: "e = (name, lladdr)" by (cases e)
  show thesis
  proof (cases "parse_ip name")
    case (Some addr)
    note ip = this
    show thesis
    proof (cases lladdr)
      case (Some raw)
      note raw = this
      show thesis
      proof (cases "parse_mac (trim_space raw)")
        case (Some mac)
        show thesis
        proof (cases "is_zero_mac mac")
          case False
          with ip Some have "mac_entry G (ip_string addr, to_lower G (mac_string mac))"
            unfolding mac_entry_def by auto
          moreover have "ndp_row G e t = AList.update (ip_string addr) (to_lower G (mac_string mac)) t"
            by (simp add: ndp_row_def e ip raw Some False)
          ultimately show thesis using that(2) by force
        qed (use that(1) in \<open>simp add: ndp_row_def e ip raw Some\<close>)
      qed (use that(1) in \<open>simp add: ndp_row_def e ip raw\<close>)
    qed (use that(1) in \<open>simp add: ndp_row_def e ip\<close>)
  qed (use that(1) in \<open>simp add: ndp_row_def e\<close>)
qed

definition table_ok :: "golib \<Rightarrow> arp_table \<Rightarrow> bool" where
  "table_ok G t \<longleftrightarrow> (\<forall>e \<in> set t. mac_entry G e)"

lemma table_ok_update: "table_ok G t \<Longrightarrow> mac_entry G x \<Longrightarrow> table_ok G (AList.update (fst x) (snd x) t)"
  by (auto simp: table_ok_def dest!: in_set_update)

lemma arp_row_entries: "table_ok G t \<Longrightarrow> table_ok G (arp_row G line t)"
  by (rule arp_row_cases [of G line t]) (simp_all add: table_ok_update)

lemma ndp_row_entries: "table_ok G t \<Longrightarrow> table_ok G (ndp_row G e t)"
  by (rule ndp_row_cases [of G e t]) (simp_all add: table_ok_update)

lemma fold_keeps:
  assumes "\<And>x s. P s \<Longrightarrow> P (f x s)" "P s"
  shows "P (fold f xs s)"
  using assms(2) by (induction xs arbitrary: s) (simp_all add: assms(1))

lemma merge_entries: "table_ok G a \<Longrightarrow> table_ok G b \<Longrightarrow> table_ok G (merge_table a b)"
  unfolding merge_table_def
proof (induction a arbitrary: b)
  case (Cons x a)
  then have "table_ok G (AList.update (fst x) (snd x) b)"
    by (intro table_ok_update) (auto simp: table_ok_def)
  with Cons show ?case by (simp add: case_prod_unfold table_ok_def)
qed simp

lemma table_ok_Nil: "table_ok G []"
  by (simp add: table_ok_def)

lemma parse_linux_arp_entries: "table_ok G (fst (parse_linux_arp G x))"
  unfolding parse_linux_arp_def case_prod_beta fst_conv
  by (rule fold_keeps [where P = "table_ok G"]) (simp_all add: arp_row_entries table_ok_Nil)

lemma read_linux_ndp_entries: "read_linux_ndp G ifaces = Some t \<Longrightarrow> table_ok G t"
proof -
  have "table_ok G (fold (\<lambda>entries out. case entries of None \<Rightarrow> out | Some es \<Rightarrow> fold (ndp_row G) es out) is [])" for "is"
    by (rule fold_keeps [where P = "table_ok G"])
      (auto simp: table_ok_Nil intro: fold_keeps [where P = "table_ok G"] ndp_row_entries split: option.split)
  then show "read_linux_ndp G ifaces = Some t \<Longrightarrow> table_ok G t"
    by (auto simp: read_linux_ndp_def split: option.splits)
qed

lemma refresh_entries: "table_ok G (fst (arp_refresh G arp_file ifaces))"
proof -
  have "table_ok G (merge_table (fst (parse_linux_arp G x)) [])" for x
    by (intro merge_entries parse_linux_arp_entries table_ok_Nil)
  then show ?thesis
    using read_linux_ndp_entries [of G ifaces] merge_entries table_ok_Nil
    by (auto simp: arp_refresh_def Let_def case_prod_beta split: sum.split option.split)
qed

section \<open>Properties\<close>

text \<open>C39: Whatever the operating system's tables contain, after a refresh every identity resolved to a
  hardware address carries the lower-case form of a parsed, non-zero address; every other
  identity carries the textual form of its IP address.\<close>

theorem resolved_identity_valid:
  assumes "addr \<noteq> []"
  shows "let t = fst (arp_refresh G arp_file ifaces); i = resolve (new_client_id t) addr in
    di_ip i = addr \<and>
    (di_type i = ''ip'' \<and> di_key i = ip_string addr \<or>
     di_type i = ''mac'' \<and> (\<exists>mac. di_key i = to_lower G (mac_string mac) \<and> \<not> is_zero_mac mac))"
proof -
  let ?t = "fst (arp_refresh G arp_file ifaces)"
  have "\<exists>mac. m = to_lower G (mac_string mac) \<and> \<not> is_zero_mac mac" if "map_of ?t k = Some m" for k m
    using bspec [OF refresh_entries [of G arp_file ifaces, unfolded table_ok_def] map_of_SomeD [OF that]]
    by (auto simp: mac_entry_def)
  with assms show ?thesis
    by (auto simp: Let_def resolve_def arp_lookup_def new_client_id_def split: option.splits)
qed

definition proc_net_arp :: string where
  "proc_net_arp = ''IP address HW type Flags HW address'' @ [char_of (10 :: nat)]
     @ ''10.0.0.7 0x1 0x2 AA:BB:CC:DD:EE:0F * eth0'' @ [char_of (10 :: nat)]"

theorem resolved_identity_valid_witness:
  "di_key (resolve (new_client_id (fst (arp_refresh ascii_lib (Inr (proc_net_arp, None)) None))) [10, 0, 0, 7])
     = ''aa:bb:cc:dd:ee:0f''
   \<and> di_ip (resolve (new_client_id (fst (arp_refresh ascii_lib (Inr (proc_net_arp, None)) None))) [10, 0, 0, 7])
     = [10, 0, 0, 7]"
proof -
  have "di_key (resolve (new_client_id (fst (arp_refresh ascii_lib (Inr (proc_net_arp, None)) None))) [10, 0, 0, 7])
     = ''aa:bb:cc:dd:ee:0f''" by code_simp
  with resolved_identity_valid [of "[10, 0, 0, 7]" ascii_lib "Inr (proc_net_arp, None)" None] show ?thesis
    by (simp add: Let_def)
qed

text \<open>A touch that reports success leaves the client's record with the new last-seen time and
  address and otherwise what was stored - name, first-seen time, hidden flag, a non-empty group
  and type - or a fresh record in the default group; a client touched less than the debounce
  period ago causes no store access.\<close>

theorem touch_updates_record:
  assumes "file_ok s" "di_key ident \<noteq> []" "\<not> time_sub now (case map_of (ci_touched c) (di_key ident) of
      None \<Rightarrow> now - ci_debounce c | Some t \<Rightarrow> t) < ci_debounce c"
    and "touch (file_ops io) G ident now (c, s) = ((c', s'), None)"
    and "client_get (file_ops io) G (di_key ident) s = (case old of None \<Rightarrow> Inl Not_Found | Some o1 \<Rightarrow> Inr o1)"
    and "old \<noteq> None \<longrightarrow> cl_key (the old) = di_key ident"
    and "client_fits G (touched_client ident now old)"
  shows "client_get (file_ops io) G (di_key ident) s' = Inr (touched_client ident now old)
    \<and> map_of (ci_touched c') (di_key ident) = Some now
    \<and> (\<forall>k. k \<noteq> di_key ident \<longrightarrow> client_get (file_ops io) G k s' = client_get (file_ops io) G k s)"
proof -
  let ?n = "touched_client ident now old"
  have key: "cl_key ?n = di_key ident" using assms(6) by (auto simp: touched_client_def split: option.split)
  have nd: "\<not> (\<not> time_is_zero (case map_of (ci_touched c) (di_key ident) of None \<Rightarrow> 0 | Some t \<Rightarrow> t)
      \<and> time_sub now (case map_of (ci_touched c) (di_key ident) of None \<Rightarrow> 0 | Some t \<Rightarrow> t) < ci_debounce c)"
    using assms(3) by (auto simp: time_is_zero_def split: option.splits)
  have "client_upsert (file_ops io) G (Some ?n) s = (s', None)"
    "c' = c\<lparr>ci_touched := AList.update (di_key ident) now (ci_touched c)\<rparr>"
    using assms(4) unfolding touch_def prod.case Let_def if_not_P [OF assms(2)] if_not_P [OF nd] assms(5)
    by (auto split: option.splits prod.splits)
  then show ?thesis
    using fkv.client_upsert_done(2,3) [OF assms(1,7)] key by auto
qed

definition phone :: dns_identity where
  "phone = \<lparr>di_key = ''10.0.0.9'', di_type = ''ip'', di_ip = [10, 0, 0, 9]\<rparr>"

theorem touch_updates_record_witness:
  "\<exists>c s. touch (file_ops (\<lambda>_. Saved)) ascii_lib phone 100 (new_client_id [], empty_store) = ((c, s), None)
     \<and> client_get (file_ops (\<lambda>_. Saved)) ascii_lib ''10.0.0.9'' s = Inr (touched_client phone 100 None)"
proof -
  let ?K = "file_ops (\<lambda>_. Saved)"
  have get: "client_get ?K ascii_lib (di_key phone) empty_store = (case None of None \<Rightarrow> Inl Not_Found | Some o1 \<Rightarrow> Inr o1)"
    by (simp add: client_get_def file_ops_def file_get_def empty_store_def decode_def)
  then have "snd (touch ?K ascii_lib phone 100 (new_client_id [], empty_store)) = None"
    by (simp add: touch_def phone_def new_client_id_def time_is_zero_def client_upsert_def touched_client_def
        file_ops_def file_put_def save_locked_def empty_store_def Let_def)
  then obtain c s where t: "touch ?K ascii_lib phone 100 (new_client_id [], empty_store) = ((c, s), None)"
    by (metis prod.collapse)
  have str: "valid_utf8 (cl_key (touched_client phone 100 None)) \<and> valid_utf8 (cl_type (touched_client phone 100 None))
      \<and> valid_utf8 (cl_name (touched_client phone 100 None)) \<and> valid_utf8 (cl_group (touched_client phone 100 None))
      \<and> valid_utf8 (cl_last_ip (touched_client phone 100 None))" by code_simp
  have fits: "client_fits ascii_lib (touched_client phone 100 None)"
    using str ascii_lib_times [of 100]
    by (simp add: client_fits_def min_int64_def max_int64_def) (simp add: touched_client_def)
  have "file_ok empty_store" by (simp add: file_ok_def empty_store_def)
  from touch_updates_record [OF this _ _ t get _ fits] t show ?thesis
    by (auto simp: phone_def new_client_id_def time_sub_def min_int64_def max_int64_def duration_units)
qed

end
