(* ===== verification/Doh_Client.thy ===== *)
theory Doh_Client
  imports Dns_Msg Config_Types
begin

text \<open>
  \<open>internal/upstream/doh.go\<close>: one DNS-over-HTTPS upstream.

  The network is a parameter: an exchange is what the HTTP client makes of one POST of a wire
  message to a URL under a timeout - a failure to build or send the request, or a status, the
  value of the \<open>Content-Type\<close> header, and the bytes the body delivers with the error it ends
  in.  The URL parser and the splitting of a dial address are parameters too.
\<close>

record doh_client =
  dh_id :: string
  dh_url :: string
  dh_timeout :: duration
  dh_bootstrap :: "string list"

datatype doh_error =
    Doh_Not_Configured
  | Message_Required
  | Pack_Failed
  | Exchange_Error string
  | Http_Status string int
  | Bad_Content_Type string string
  | Body_Error string
  | Response_Too_Large string
  | Unpack_Failed
  | Mismatched_Id string
  | Context_Done
  | No_Healthy_Upstreams
  | Upstream_Not_Found string

datatype http_exchange =
    Exchange_Failed string
  | Exchange int string "string \<times> string option"

type_synonym doh_net = "duration \<Rightarrow> string \<Rightarrow> string \<Rightarrow> http_exchange"

definition max_dns_message_size :: int where
  "max_dns_message_size = 65535"

definition new_doh_client :: "upstream \<Rightarrow> doh_client" where
  "new_doh_client c =
     \<lparr>dh_id = up_id c, dh_url = up_url c,
      dh_timeout = (if up_timeout c \<le> 0 then 3 * second else up_timeout c),
      dh_bootstrap = up_bootstrap c\<rparr>"

definition is_dns_message_content :: "golib \<Rightarrow> string \<Rightarrow> bool" where
  "is_dns_message_content G content_type =
     (let ct = to_lower G (trim_space content_type) in
      ct = ''application/dns-message'' \<or> prefix ''application/dns-message;'' ct)"

definition read_response :: "string \<times> string option \<Rightarrow> string + string" where
  "read_response body =
     (case body of (bytes, err) \<Rightarrow>
        let limit = max_dns_message_size + 1 in
        if limit \<le> int (length bytes) then Inr (take (nat limit) bytes)
        else case err of Some e \<Rightarrow> Inl e | None \<Rightarrow> Inr bytes)"

definition check_response :: "golib \<Rightarrow> dnslib \<Rightarrow> doh_client \<Rightarrow> msg \<Rightarrow> http_exchange \<Rightarrow> doh_error + msg" where
  "check_response G D c msg reply =
     (case reply of
        Exchange_Failed e \<Rightarrow> Inl (Exchange_Error e)
      | Exchange status content_type raw \<Rightarrow>
          if status < 200 \<or> 300 \<le> status then Inl (Http_Status (dh_id c) status)
          else if content_type \<noteq> [] \<and> \<not> is_dns_message_content G content_type then
            Inl (Bad_Content_Type (dh_id c) content_type)
          else
            (case read_response raw of
               Inl e \<Rightarrow> Inl (Body_Error e)
             | Inr body \<Rightarrow>
                 if max_dns_message_size < int (length body) then Inl (Response_Too_Large (dh_id c))
                 else
                   (case dl_unpack D body of
                      None \<Rightarrow> Inl Unpack_Failed
                    | Some out \<Rightarrow>
                        if m_id out \<noteq> m_id msg then Inl (Mismatched_Id (dh_id c))
                        else Inr out)))"

definition doh_forward :: "golib \<Rightarrow> dnslib \<Rightarrow> doh_net \<Rightarrow> doh_client option \<Rightarrow> msg option \<Rightarrow> doh_error + msg" where
  "doh_forward G D net c msg =
     (case c of
        None \<Rightarrow> Inl Doh_Not_Configured
      | Some c \<Rightarrow>
          (case msg of
             None \<Rightarrow> Inl Message_Required
           | Some msg \<Rightarrow>
               (case dl_pack D msg of
                  None \<Rightarrow> Inl Pack_Failed
                | Some wire \<Rightarrow> check_response G D c msg (net (dh_timeout c) (dh_url c) wire))))"

section \<open>Dialling through bootstrap addresses\<close>

datatype dial_error = Dial_Failed string | Dial_Cancelled | No_Bootstrap string

definition join_host_port :: "string \<Rightarrow> string \<Rightarrow> string" where
  "join_host_port host port =
     (if CHR '':'' \<in> set host then ''['' @ host @ '']:'' @ port else host @ '':'' @ port)"

definition doh_host :: "(string \<Rightarrow> string option) \<Rightarrow> string \<Rightarrow> string" where
  "doh_host parse_url raw = (case parse_url raw of None \<Rightarrow> [] | Some host \<Rightarrow> host)"

text \<open>\<open>dial i address\<close> is the outcome of the \<open>i\<close>-th connection tried; \<open>cancelled i\<close> says whether the
  context ends during the pause after it.\<close>

fun bootstrap_dial ::
  "(nat \<Rightarrow> string \<Rightarrow> string + 'c) \<Rightarrow> (nat \<Rightarrow> bool) \<Rightarrow> string \<Rightarrow> string \<Rightarrow> nat \<Rightarrow> string list
   \<Rightarrow> dial_error option \<Rightarrow> dial_error + 'c" where
  "bootstrap_dial dial cancelled host port i [] last_err =
     Inl (case last_err of Some e \<Rightarrow> e | None \<Rightarrow> No_Bootstrap host)"
| "bootstrap_dial dial cancelled host port i (ip # ips) last_err =
     (case dial i (join_host_port ip port) of
        Inr conn \<Rightarrow> Inr conn
      | Inl e \<Rightarrow>
          if ips \<noteq> [] \<and> cancelled i then Inl Dial_Cancelled
          else bootstrap_dial dial cancelled host port (Suc i) ips (Some (Dial_Failed e)))"

definition transport_dial ::
  "(string \<Rightarrow> string option) \<Rightarrow> (string \<Rightarrow> (string \<times> string) option) \<Rightarrow> (string \<Rightarrow> string \<Rightarrow> bool)
   \<Rightarrow> (nat \<Rightarrow> string \<Rightarrow> string + 'c) \<Rightarrow> (nat \<Rightarrow> bool) \<Rightarrow> doh_client \<Rightarrow> string \<Rightarrow> dial_error + 'c" where
  "transport_dial parse_url split_host_port equal_fold dial cancelled c address =
     (let host = doh_host parse_url (dh_url c);
          direct = (case dial 0 address of Inl e \<Rightarrow> Inl (Dial_Failed e) | Inr conn \<Rightarrow> Inr conn)
      in if host = [] \<or> dh_bootstrap c = [] then direct
         else
           (case split_host_port address of
              None \<Rightarrow> direct
            | Some (target, port) \<Rightarrow>
                if \<not> equal_fold target host then direct
                else bootstrap_dial dial cancelled host port 0 (dh_bootstrap c) None))"

section \<open>Properties\<close>

lemma read_response_small:
  "read_response raw = Inr body \<and> int (length body) \<le> max_dns_message_size
   \<longleftrightarrow> raw = (body, None) \<and> int (length body) \<le> max_dns_message_size"
  by (cases raw) (auto simp: read_response_def Let_def max_dns_message_size_def split: option.splits)

text \<open>A DNS-over-HTTPS query succeeds exactly when the message could be packed, the server answered
  with a success status and, if it named one, the DNS content type, the whole body arrived within
  65535 bytes, decoded, and carried the query's own id; the result is then the decoded body.\<close>

theorem doh_forward_success_iff:
  "doh_forward G D net (Some c) (Some q) = Inr resp \<longleftrightarrow>
     (\<exists>wire status ct body. dl_pack D q = Some wire
       \<and> net (dh_timeout c) (dh_url c) wire = Exchange status ct (body, None)
       \<and> 200 \<le> status \<and> status < 300 \<and> (ct = [] \<or> is_dns_message_content G ct)
       \<and> int (length body) \<le> max_dns_message_size
       \<and> dl_unpack D body = Some resp \<and> m_id resp = m_id q)"
proof (cases "dl_pack D q")
  case (Some wire)
  show ?thesis
  proof (cases "net (dh_timeout c) (dh_url c) wire")
    case (Exchange status ct raw)
    let ?b = "\<lambda>body. read_response raw = Inr body \<and> int (length body) \<le> max_dns_message_size"
    have "doh_forward G D net (Some c) (Some q) = Inr resp \<longleftrightarrow>
        200 \<le> status \<and> status < 300 \<and> (ct = [] \<or> is_dns_message_content G ct)
        \<and> (\<exists>body. ?b body \<and> dl_unpack D body = Some resp \<and> m_id resp = m_id q)"
      using Some Exchange
      by (auto simp: doh_forward_def check_response_def not_less not_le split: sum.split option.split)
    with Some Exchange show ?thesis by (auto simp: read_response_small)
  qed (simp add: doh_forward_def check_response_def Some)
qed (simp add: doh_forward_def)

lemma bootstrap_dial_success:
  "bootstrap_dial dial cancelled host port i ips e = Inr conn \<longleftrightarrow>
     (\<exists>k < length ips. dial (i + k) (join_host_port (ips ! k) port) = Inr conn
        \<and> (\<forall>j < k. isl (dial (i + j) (join_host_port (ips ! j) port)) \<and> \<not> cancelled (i + j)))"
proof (induction ips arbitrary: i e)
  case (Cons ip ips)
  show ?case
  proof (cases "dial i (join_host_port ip port)")
    case (Inl x)
    have "bootstrap_dial dial cancelled host port i (ip # ips) e = Inr conn \<longleftrightarrow>
        \<not> (ips \<noteq> [] \<and> cancelled i) \<and> bootstrap_dial dial cancelled host port (Suc i) ips (Some (Dial_Failed x)) = Inr conn"
      using Inl by simp
    also have "\<dots> \<longleftrightarrow> (\<exists>k < length ips. dial (Suc i + k) (join_host_port (ips ! k) port) = Inr conn
        \<and> (\<forall>j < k. isl (dial (Suc i + j) (join_host_port (ips ! j) port)) \<and> \<not> cancelled (Suc i + j)) \<and> \<not> cancelled i)"
      unfolding Cons.IH by (cases ips) auto
    also have "\<dots> \<longleftrightarrow> (\<exists>k < length (ip # ips). dial (i + k) (join_host_port ((ip # ips) ! k) port) = Inr conn
        \<and> (\<forall>j < k. isl (dial (i + j) (join_host_port ((ip # ips) ! j) port)) \<and> \<not> cancelled (i + j)))"
      using Inl by (simp add: Ex_less_Suc2 All_less_Suc2) blast
    finally show ?thesis .
  next
    case (Inr b)
    have "k = 0" if "\<forall>j < k. isl (dial (i + j) (join_host_port ((ip # ips) ! j) port)) \<and> \<not> cancelled (i + j)" for k
      using that Inr by (cases k) (auto dest: spec [of _ 0])
    then have "(\<exists>k < length (ip # ips). dial (i + k) (join_host_port ((ip # ips) ! k) port) = Inr conn
        \<and> (\<forall>j < k. isl (dial (i + j) (join_host_port ((ip # ips) ! j) port)) \<and> \<not> cancelled (i + j)))
      \<longleftrightarrow> dial i (join_host_port ip port) = Inr conn" (is "?L \<longleftrightarrow> ?R")
      by (metis add.right_neutral length_greater_0_conv list.distinct(1) not_less_zero nth_Cons_0)
    with Inr show ?thesis by simp
  qed
qed simp

text \<open>A connection to an upstream with bootstrap addresses goes to one of them, never to an address
  a resolver would give for its name: it is the first in the configured order that accepts one,
  unless the context ends in a pause before it.\<close>

theorem dial_uses_bootstrap:
  assumes "doh_host parse_url (dh_url c) = host" "host \<noteq> []" "dh_bootstrap c \<noteq> []"
    and "split_host_port address = Some (target, port)" "equal_fold target host"
  shows "transport_dial parse_url split_host_port equal_fold dial cancelled c address = Inr conn \<longleftrightarrow>
     (\<exists>k < length (dh_bootstrap c). dial k (join_host_port (dh_bootstrap c ! k) port) = Inr conn
        \<and> (\<forall>j < k. isl (dial j (join_host_port (dh_bootstrap c ! j) port)) \<and> \<not> cancelled j))"
  using assms by (simp add: transport_dial_def Let_def bootstrap_dial_success)

definition quad9 :: doh_client where
  "quad9 = \<lparr>dh_id = ''quad9'', dh_url = ''https://dns.quad9.net/dns-query'', dh_timeout = 3 * second,
     dh_bootstrap = [''9.9.9.9'', ''2620:fe::fe'']\<rparr>"

theorem dial_uses_bootstrap_witness:
  "transport_dial (\<lambda>_. Some ''dns.quad9.net'') (\<lambda>_. Some (''dns.quad9.net'', ''443'')) (=)
     (\<lambda>i a. if a = ''[2620:fe::fe]:443'' then Inr a else Inl ''refused'') (\<lambda>_. False) quad9 ''dns.quad9.net:443''
   = Inr ''[2620:fe::fe]:443''"
  by (subst dial_uses_bootstrap [where host = "''dns.quad9.net''" and target = "''dns.quad9.net''"
        and port = "''443''"])
    (auto simp: doh_host_def quad9_def join_host_port_def intro!: exI [of _ 1])

end
