(* ===== verification/Upstream_Pool.thy ===== *)
theory Upstream_Pool
  imports Doh_Client
begin

text \<open>
  \<open>internal/upstream/pool.go\<close>: the pool of upstreams, its circuit breakers and the forwarding
  of a query.

  Each method of the pool that changes state holds the lock for one \<open>pool_apply\<close> of an event;
  concurrent calls interleave such events, so what holds of every history of events holds of
  every schedule.  The \<open>k\<close>-th exchange of a call is answered by \<open>net k\<close>; \<open>cancelled k d\<close> says
  whether the context ends in the pause of length \<open>d\<close> after round \<open>k\<close>.
\<close>

record pooled_client =
  pc_client :: doh_client
  pc_healthy :: bool
  pc_errors :: int
  pc_threshold :: int
  pc_probe_timeout :: duration

record pool =
  pl_clients :: "pooled_client list"
  pl_probe_interval :: duration

record attempt =
  at_id :: string
  at_ok :: bool
  at_healthy :: bool

section \<open>Configuration\<close>

definition add_upstream :: "upstream \<Rightarrow> pool \<Rightarrow> pool" where
  "add_upstream u p =
     (let threshold = (if 0 < up_circuit_breaker_threshold u then up_circuit_breaker_threshold u else 3);
          probe_timeout = (if 0 < up_health_probe_timeout u then up_health_probe_timeout u else 10 * second);
          interval = (if 0 < up_health_probe_interval u \<and> pl_probe_interval p \<le> 0
                      then up_health_probe_interval u else pl_probe_interval p)
      in \<lparr>pl_clients = pl_clients p @ [\<lparr>pc_client = new_doh_client u, pc_healthy = True, pc_errors = 0,
            pc_threshold = threshold, pc_probe_timeout = probe_timeout\<rparr>],
          pl_probe_interval = interval\<rparr>)"

definition pool_replace :: "upstream list \<Rightarrow> pool \<Rightarrow> pool" where
  "pool_replace upstreams p =
     fold add_upstream upstreams (p\<lparr>pl_clients := [], pl_probe_interval := minute\<rparr>)"

definition new_pool :: "upstream list \<Rightarrow> pool" where
  "new_pool upstreams = pool_replace upstreams \<lparr>pl_clients = [], pl_probe_interval = 0\<rparr>"

section \<open>Health\<close>

abbreviation pc_id :: "pooled_client \<Rightarrow> string" where
  "pc_id pc \<equiv> dh_id (pc_client pc)"

text \<open>The loops change the first client with the id and stop.\<close>

fun on_first :: "string \<Rightarrow> (pooled_client \<Rightarrow> pooled_client) \<Rightarrow> pooled_client list \<Rightarrow> pooled_client list" where
  "on_first i f [] = []"
| "on_first i f (pc # pcs) = (if pc_id pc = i then f pc # pcs else pc # on_first i f pcs)"

definition succeed :: "pooled_client \<Rightarrow> pooled_client" where
  "succeed pc = pc\<lparr>pc_errors := 0, pc_healthy := True\<rparr>"

definition fail :: "pooled_client \<Rightarrow> pooled_client" where
  "fail pc =
     (let errors = pc_errors pc + 1 in
      pc\<lparr>pc_errors := errors, pc_healthy := (if pc_threshold pc \<le> errors then False else pc_healthy pc)\<rparr>)"

definition mark_success :: "string \<Rightarrow> pool \<Rightarrow> pool" where
  "mark_success i p = p\<lparr>pl_clients := on_first i succeed (pl_clients p)\<rparr>"

definition mark_failure :: "string \<Rightarrow> pool \<Rightarrow> pool" where
  "mark_failure i p = p\<lparr>pl_clients := on_first i fail (pl_clients p)\<rparr>"

definition healthy_ids :: "pool \<Rightarrow> string list" where
  "healthy_ids p = map pc_id (filter pc_healthy (pl_clients p))"

definition all_ids :: "pool \<Rightarrow> string list" where
  "all_ids p = map pc_id (pl_clients p)"

definition is_healthy :: "string \<Rightarrow> pool \<Rightarrow> bool" where
  "is_healthy i p =
     (case find (\<lambda>pc. pc_id pc = i) (pl_clients p) of Some pc \<Rightarrow> pc_healthy pc | None \<Rightarrow> False)"

definition probe_interval :: "pool \<Rightarrow> duration" where
  "probe_interval p = (if pl_probe_interval p \<le> 0 then minute else pl_probe_interval p)"

section \<open>Forwarding\<close>

definition max_retries :: nat where "max_retries = 2"
definition base_delay :: duration where "base_delay = 50 * millisecond"

definition candidates :: "pool \<Rightarrow> doh_client list" where
  "candidates p = map pc_client (filter pc_healthy (pl_clients p))"

text \<open>One round: every candidate in order until one answers.  The state of the loop is the pool,
  the number of exchanges so far, the attempts recorded and the last error.\<close>

record tries =
  tr_pool :: pool
  tr_count :: nat
  tr_attempts :: "attempt list"
  tr_error :: "doh_error option"

fun try_candidates ::
  "golib \<Rightarrow> dnslib \<Rightarrow> (nat \<Rightarrow> doh_net) \<Rightarrow> msg \<Rightarrow> doh_client list \<Rightarrow> tries \<Rightarrow> tries \<times> (msg \<times> string) option" where
  "try_candidates G D net q [] s = (s, None)"
| "try_candidates G D net q (c # cs) s =
     (case doh_forward G D (net (tr_count s)) (Some c) (Some q) of
        Inr resp \<Rightarrow>
          (s\<lparr>tr_pool := mark_success (dh_id c) (tr_pool s), tr_count := Suc (tr_count s),
             tr_attempts := tr_attempts s @ [\<lparr>at_id = dh_id c, at_ok = True, at_healthy = True\<rparr>]\<rparr>,
           Some (resp, dh_id c))
      | Inl e \<Rightarrow>
          let p = mark_failure (dh_id c) (tr_pool s) in
          try_candidates G D net q cs
            (s\<lparr>tr_pool := p, tr_count := Suc (tr_count s), tr_error := Some e,
               tr_attempts := tr_attempts s @ [\<lparr>at_id = dh_id c, at_ok = False,
                  at_healthy = is_healthy (dh_id c) p\<rparr>]\<rparr>))"

fun forward_rounds ::
  "golib \<Rightarrow> dnslib \<Rightarrow> (nat \<Rightarrow> doh_net) \<Rightarrow> (nat \<Rightarrow> duration \<Rightarrow> bool) \<Rightarrow> msg \<Rightarrow> doh_client list
   \<Rightarrow> nat list \<Rightarrow> tries \<Rightarrow> tries \<times> (doh_error + msg \<times> string)" where
  "forward_rounds G D net cancelled q cs [] s =
     (s, Inl (case tr_error s of None \<Rightarrow> No_Healthy_Upstreams | Some e \<Rightarrow> e))"
| "forward_rounds G D net cancelled q cs (k # ks) s =
     (case try_candidates G D net q cs s of
        (s', Some r) \<Rightarrow> (s', Inr r)
      | (s', None) \<Rightarrow>
          if k < max_retries \<and> cancelled k (base_delay * 2 ^ k) then (s', Inl Context_Done)
          else forward_rounds G D net cancelled q cs ks s')"

definition pool_forward ::
  "golib \<Rightarrow> dnslib \<Rightarrow> (nat \<Rightarrow> doh_net) \<Rightarrow> (nat \<Rightarrow> duration \<Rightarrow> bool) \<Rightarrow> msg option \<Rightarrow> pool
   \<Rightarrow> pool \<times> attempt list \<times> (doh_error + msg \<times> string)" where
  "pool_forward G D net cancelled q p =
     (case q of
        None \<Rightarrow> (p, [], Inl Message_Required)
      | Some q \<Rightarrow>
          (case forward_rounds G D net cancelled q (candidates p) [0..<Suc max_retries]
                  \<lparr>tr_pool = p, tr_count = 0, tr_attempts = [], tr_error = None\<rparr> of
             (s, r) \<Rightarrow> (tr_pool s, tr_attempts s, r)))"

section \<open>Probing\<close>

text \<open>\<open>SetQuestion\<close> draws a random id, a parameter.\<close>

definition probe_query :: "u16 \<Rightarrow> msg" where
  "probe_query i = new_msg\<lparr>m_id := i, m_recursion_desired := True,
     m_question := [\<lparr>q_name = ''example.com.'', q_type = type_a, q_class = class_inet\<rparr>]\<rparr>"

definition probe_client :: "golib \<Rightarrow> dnslib \<Rightarrow> doh_net \<Rightarrow> u16 \<Rightarrow> doh_client \<Rightarrow> doh_error + msg" where
  "probe_client G D net i c = doh_forward G D net (Some c) (Some (probe_query i))"

definition pool_test ::
  "golib \<Rightarrow> dnslib \<Rightarrow> doh_net \<Rightarrow> u16 \<Rightarrow> string \<Rightarrow> pool \<Rightarrow> pool \<times> (doh_error + msg)" where
  "pool_test G D net rnd i p =
     (case find (\<lambda>pc. pc_id pc = i) (pl_clients p) of
        None \<Rightarrow> (p, Inl (Upstream_Not_Found i))
      | Some pc \<Rightarrow>
          (case probe_client G D net rnd (pc_client pc) of
             Inl e \<Rightarrow> (mark_failure i p, Inl e)
           | Inr resp \<Rightarrow> (mark_success i p, Inr resp)))"

text \<open>The unhealthy clients are collected first; \<open>net k d\<close> answers the \<open>k\<close>-th probe within its
  probe timeout \<open>d\<close>.\<close>

fun probe_all ::
  "golib \<Rightarrow> dnslib \<Rightarrow> (nat \<Rightarrow> duration \<Rightarrow> doh_net) \<Rightarrow> (nat \<Rightarrow> u16) \<Rightarrow> nat \<Rightarrow> pooled_client list
   \<Rightarrow> pool \<Rightarrow> pool" where
  "probe_all G D net rnd k [] p = p"
| "probe_all G D net rnd k (pc # pcs) p =
     (case probe_client G D (net k (pc_probe_timeout pc)) (rnd k) (pc_client pc) of
        Inr _ \<Rightarrow> probe_all G D net rnd (Suc k) pcs (mark_success (pc_id pc) p)
      | Inl _ \<Rightarrow> probe_all G D net rnd (Suc k) pcs p)"

definition probe_unhealthy ::
  "golib \<Rightarrow> dnslib \<Rightarrow> (nat \<Rightarrow> duration \<Rightarrow> doh_net) \<Rightarrow> (nat \<Rightarrow> u16) \<Rightarrow> pool \<Rightarrow> pool" where
  "probe_unhealthy G D net rnd p = probe_all G D net rnd 0 (filter (\<lambda>pc. \<not> pc_healthy pc) (pl_clients p)) p"

section \<open>Histories\<close>

datatype pool_event = Succeeded string | Failed string | Replaced "upstream list"

fun pool_apply :: "pool_event \<Rightarrow> pool \<Rightarrow> pool" where
  "pool_apply (Succeeded i) p = mark_success i p"
| "pool_apply (Failed i) p = mark_failure i p"
| "pool_apply (Replaced us) p = pool_replace us p"

definition pool_run :: "upstream list \<Rightarrow> pool_event list \<Rightarrow> pool" where
  "pool_run us evs = fold pool_apply evs (new_pool us)"

text \<open>What a history amounts to: the upstreams configured last, and for every id the failures since
  its last success or the last replacement.\<close>

fun configured :: "upstream list \<Rightarrow> pool_event list \<Rightarrow> upstream list" where
  "configured us [] = us"
| "configured us (Replaced us' # evs) = configured us' evs"
| "configured us (Succeeded i # evs) = configured us evs"
| "configured us (Failed i # evs) = configured us evs"

fun next_streak :: "string \<Rightarrow> pool_event \<Rightarrow> int \<Rightarrow> int" where
  "next_streak i (Succeeded j) n = (if i = j then 0 else n)"
| "next_streak i (Failed j) n = (if i = j then n + 1 else n)"
| "next_streak i (Replaced us) n = 0"

definition streak :: "string \<Rightarrow> pool_event list \<Rightarrow> int" where
  "streak i evs = fold (next_streak i) evs 0"

definition breaker :: "upstream \<Rightarrow> int" where
  "breaker u = (if 0 < up_circuit_breaker_threshold u then up_circuit_breaker_threshold u else 3)"

text \<open>The clients agree with a configuration and with error counts.\<close>

definition client_ok :: "upstream \<Rightarrow> pooled_client \<Rightarrow> bool" where
  "client_ok u pc \<longleftrightarrow> pc_id pc = up_id u \<and> pc_threshold pc = breaker u
     \<and> (pc_healthy pc \<longleftrightarrow> pc_errors pc < pc_threshold pc)"

definition pool_ok :: "upstream list \<Rightarrow> (string \<Rightarrow> int) \<Rightarrow> pool \<Rightarrow> bool" where
  "pool_ok us n p \<longleftrightarrow> list_all2 client_ok us (pl_clients p)
     \<and> (\<forall>i pc. find (\<lambda>pc. pc_id pc = i) (pl_clients p) = Some pc \<longrightarrow> pc_errors pc = n i)"

section \<open>The health of upstreams over a history\<close>

definition fresh_client :: "upstream \<Rightarrow> pooled_client" where
  "fresh_client u = \<lparr>pc_client = new_doh_client u, pc_healthy = True, pc_errors = 0, pc_threshold = breaker u,
     pc_probe_timeout = (if 0 < up_health_probe_timeout u then up_health_probe_timeout u else 10 * second)\<rparr>"

lemma fold_add_upstream:
  "0 < pl_probe_interval p \<Longrightarrow> fold add_upstream us p = p\<lparr>pl_clients := pl_clients p @ map fresh_client us\<rparr>"
proof (induction us arbitrary: p)
  case (Cons u us)
  have "add_upstream u p = p\<lparr>pl_clients := pl_clients p @ [fresh_client u]\<rparr>"
    using Cons.prems by (simp add: add_upstream_def fresh_client_def breaker_def Let_def)
  with Cons show ?case by simp
qed simp

lemma pool_replace_eq:
  "pool_replace us p = p\<lparr>pl_clients := map fresh_client us, pl_probe_interval := minute\<rparr>"
  by (simp add: pool_replace_def fold_add_upstream duration_units)

lemma fresh_client_ok: "client_ok u (fresh_client u)"
  by (simp add: client_ok_def fresh_client_def new_doh_client_def breaker_def)

lemma mark_keeps_client [simp]: "pc_client (succeed pc) = pc_client pc" "pc_client (fail pc) = pc_client pc"
  by (simp_all add: succeed_def fail_def Let_def)

lemma mark_errors [simp]: "pc_errors (succeed pc) = 0" "pc_errors (fail pc) = pc_errors pc + 1"
  by (simp_all add: succeed_def fail_def Let_def)

lemma mark_client_ok: "client_ok u pc \<Longrightarrow> client_ok u (succeed pc)" "client_ok u pc \<Longrightarrow> client_ok u (fail pc)"
  by (auto simp: client_ok_def succeed_def fail_def breaker_def Let_def split: if_split_asm)

lemma on_first_all2:
  assumes "list_all2 client_ok us pcs" "\<And>u pc. client_ok u pc \<Longrightarrow> client_ok u (f pc)"
  shows "list_all2 client_ok us (on_first i f pcs)"
  using assms(1) by (induction rule: list_all2_induct) (auto intro: assms(2))

lemma find_on_first:
  assumes "\<And>pc. pc_client (f pc) = pc_client pc"
  shows "find (\<lambda>pc. pc_id pc = j) (on_first i f pcs) =
    (if j = i then map_option f (find (\<lambda>pc. pc_id pc = j) pcs) else find (\<lambda>pc. pc_id pc = j) pcs)"
  by (induction pcs) (auto simp: assms)

lemma pool_ok_replace: "pool_ok us (\<lambda>_. 0) (pool_replace us p)"
proof -
  have "pc_errors pc = 0" if "find (\<lambda>pc. pc_id pc = i) (map fresh_client us) = Some pc" for i pc
    using that by (auto simp: find_Some_iff fresh_client_def)
  moreover have "list_all2 client_ok us (map fresh_client us)"
    by (simp add: list_all2_conv_all_nth fresh_client_ok)
  ultimately show ?thesis by (simp add: pool_ok_def pool_replace_eq)
qed

lemma pool_ok_apply:
  assumes "pool_ok us n p"
  shows "pool_ok (configured us [e]) (\<lambda>i. next_streak i e (n i)) (pool_apply e p)"
proof (cases e)
  case (Succeeded i)
  with assms show ?thesis
    by (auto simp: pool_ok_def mark_success_def find_on_first mark_client_ok intro!: on_first_all2 split: if_splits)
next
  case (Failed i)
  with assms show ?thesis
    by (auto simp: pool_ok_def mark_failure_def find_on_first mark_client_ok intro!: on_first_all2 split: if_splits)
qed (simp add: pool_ok_replace)

lemma configured_snoc: "configured us (evs @ [e]) = configured (configured us evs) [e]"
  by (induction us evs rule: configured.induct) simp_all

lemma pool_ok_run: "pool_ok (configured us evs) (\<lambda>i. streak i evs) (pool_run us evs)"
proof (induction evs rule: rev_induct)
  case Nil
  show ?case by (simp add: pool_run_def new_pool_def streak_def pool_ok_replace)
next
  case (snoc e evs)
  from pool_ok_apply [OF this, of e] show ?case
    by (simp add: configured_snoc pool_run_def streak_def)
qed

lemma find_all2:
  assumes "list_all2 client_ok us pcs"
  shows "rel_option client_ok (find (\<lambda>u. up_id u = i) us) (find (\<lambda>pc. pc_id pc = i) pcs)"
  using assms by (induction rule: list_all2_induct) (auto simp: client_ok_def)

lemma pool_ok_healthy:
  assumes "pool_ok us n p"
  shows "is_healthy i p \<longleftrightarrow> (case find (\<lambda>u. up_id u = i) us of Some u \<Rightarrow> n i < breaker u | None \<Rightarrow> False)"
    "all_ids p = map up_id us"
proof -
  have "rel_option client_ok (find (\<lambda>u. up_id u = i) us) (find (\<lambda>pc. pc_id pc = i) (pl_clients p))"
    using assms by (intro find_all2) (simp add: pool_ok_def)
  then show "is_healthy i p \<longleftrightarrow> (case find (\<lambda>u. up_id u = i) us of Some u \<Rightarrow> n i < breaker u | None \<Rightarrow> False)"
    using assms by (cases rule: option.rel_cases) (auto simp: is_healthy_def pool_ok_def client_ok_def)
  have "list_all2 client_ok us (pl_clients p)" using assms by (simp add: pool_ok_def)
  then show "all_ids p = map up_id us"
    unfolding all_ids_def by (induction rule: list_all2_induct) (auto simp: client_ok_def)
qed

text \<open>After any history of successes, failures and replacements, however calls interleaved to
  produce it, the pool offers the upstreams configured last, in their order, and an upstream is
  healthy exactly when its failures since its last success are fewer than its threshold.\<close>

theorem pool_health_spec:
  "all_ids (pool_run us evs) = map up_id (configured us evs) \<and>
   (is_healthy i (pool_run us evs) \<longleftrightarrow>
      (case find (\<lambda>u. up_id u = i) (configured us evs) of
         Some u \<Rightarrow> streak i evs < breaker u | None \<Rightarrow> False))"
  using pool_ok_healthy [OF pool_ok_run [of us evs]] by blast

section \<open>What forwarding does\<close>

abbreviation exchange :: "golib \<Rightarrow> dnslib \<Rightarrow> (nat \<Rightarrow> doh_net) \<Rightarrow> msg \<Rightarrow> nat \<Rightarrow> doh_client \<Rightarrow> doh_error + msg" where
  "exchange G D net q k c \<equiv> doh_forward G D (net k) (Some c) (Some q)"

definition event_of :: "attempt \<Rightarrow> pool_event" where
  "event_of a = (if at_ok a then Succeeded (at_id a) else Failed (at_id a))"

lemma event_of_simps [simp]:
  "event_of \<lparr>at_id = i, at_ok = False, at_healthy = h\<rparr> = Failed i"
  "event_of \<lparr>at_id = i, at_ok = True, at_healthy = h\<rparr> = Succeeded i"
  by (simp_all add: event_of_def)

lemma try_append:
  "try_candidates G D net q (xs @ ys) s =
     (case try_candidates G D net q xs s of
        (s', Some r) \<Rightarrow> (s', Some r) | (s', None) \<Rightarrow> try_candidates G D net q ys s')"
  by (induction xs arbitrary: s) (simp_all add: Let_def split: sum.split)

lemma try_success:
  assumes "try_candidates G D net q cs s = (s', Some (m, i))"
  shows "\<exists>k < length cs. exchange G D net q (tr_count s + k) (cs ! k) = Inr m \<and> i = dh_id (cs ! k)
    \<and> (\<forall>j < k. isl (exchange G D net q (tr_count s + j) (cs ! j)))
    \<and> map at_id (tr_attempts s') = map at_id (tr_attempts s) @ map dh_id (take (Suc k) cs)
    \<and> map at_ok (tr_attempts s') = map at_ok (tr_attempts s) @ replicate k False @ [True]"
  using assms
proof (induction cs arbitrary: s)
  case (Cons c cs)
  show ?case
  proof (cases "exchange G D net q (tr_count s) c")
    case (Inl e)
    define t where "t = s\<lparr>tr_pool := mark_failure (dh_id c) (tr_pool s), tr_count := Suc (tr_count s),
      tr_error := Some e, tr_attempts := tr_attempts s @ [\<lparr>at_id = dh_id c, at_ok = False,
        at_healthy = is_healthy (dh_id c) (mark_failure (dh_id c) (tr_pool s))\<rparr>]\<rparr>"
    have "try_candidates G D net q cs t = (s', Some (m, i))"
      using Cons.prems Inl by (simp add: t_def Let_def)
    from Cons.IH [OF this] obtain k where k: "k < length cs"
      "exchange G D net q (Suc (tr_count s) + k) (cs ! k) = Inr m" "i = dh_id (cs ! k)"
      "\<forall>j < k. isl (exchange G D net q (Suc (tr_count s) + j) (cs ! j))"
      "map at_id (tr_attempts s') = map at_id (tr_attempts t) @ map dh_id (take (Suc k) cs)"
      "map at_ok (tr_attempts s') = map at_ok (tr_attempts t) @ replicate k False @ [True]"
      by (auto simp: t_def)
    with Inl show ?thesis
      by (intro exI [of _ "Suc k"]) (auto simp: t_def less_Suc_eq_0_disj)
  next
    case (Inr m')
    with Cons.prems show ?thesis by (intro exI [of _ 0]) auto
  qed
qed simp

lemma try_failure:
  assumes "try_candidates G D net q cs s = (s', None)"
  shows "(\<forall>k < length cs. isl (exchange G D net q (tr_count s + k) (cs ! k)))
    \<and> map at_id (tr_attempts s') = map at_id (tr_attempts s) @ map dh_id cs
    \<and> map at_ok (tr_attempts s') = map at_ok (tr_attempts s) @ replicate (length cs) False
    \<and> tr_error s' = (if cs = [] then tr_error s
           else Some (projl (exchange G D net q (tr_count s + length cs - 1) (last cs))))"
  using assms
proof (induction cs arbitrary: s)
  case (Cons c cs)
  then obtain e where e: "exchange G D net q (tr_count s) c = Inl e" by (auto split: sum.splits)
  define t where "t = s\<lparr>tr_pool := mark_failure (dh_id c) (tr_pool s), tr_count := Suc (tr_count s),
      tr_error := Some e, tr_attempts := tr_attempts s @ [\<lparr>at_id = dh_id c, at_ok = False,
        at_healthy = is_healthy (dh_id c) (mark_failure (dh_id c) (tr_pool s))\<rparr>]\<rparr>"
  have "try_candidates G D net q cs t = (s', None)"
    using Cons.prems e by (simp add: t_def Let_def)
  from Cons.IH [OF this]
  have IH: "\<forall>k < length cs. isl (exchange G D net q (Suc (tr_count s) + k) (cs ! k))"
    "map at_id (tr_attempts s') = map at_id (tr_attempts s) @ dh_id c # map dh_id cs"
    "map at_ok (tr_attempts s') = map at_ok (tr_attempts s) @ False # replicate (length cs) False"
    "tr_error s' = (if cs = [] then Some e
           else Some (projl (exchange G D net q (Suc (tr_count s) + length cs - 1) (last cs))))"
    by (simp_all add: t_def)
  have "isl (exchange G D net q (tr_count s + k) ((c # cs) ! k))" if "k < length (c # cs)" for k
    using that IH(1) e by (cases k) simp_all
  with IH(2,3,4) e show ?case by simp
qed simp

lemma try_pool:
  "try_candidates G D net q cs s = (s', r) \<Longrightarrow>
     \<exists>ats. tr_attempts s' = tr_attempts s @ ats \<and> tr_pool s' = fold pool_apply (map event_of ats) (tr_pool s)"
proof (induction cs arbitrary: s)
  case (Cons c cs)
  show ?case
  proof (cases "exchange G D net q (tr_count s) c")
    case (Inl e)
    define a where "a = \<lparr>at_id = dh_id c, at_ok = False,
        at_healthy = is_healthy (dh_id c) (mark_failure (dh_id c) (tr_pool s))\<rparr>"
    define t where "t = s\<lparr>tr_pool := mark_failure (dh_id c) (tr_pool s), tr_count := Suc (tr_count s),
      tr_error := Some e, tr_attempts := tr_attempts s @ [a]\<rparr>"
    have "try_candidates G D net q cs t = (s', r)"
      using Cons.prems Inl by (simp add: t_def a_def Let_def)
    from Cons.IH [OF this] obtain ats where "tr_attempts s' = tr_attempts t @ ats"
      "tr_pool s' = fold pool_apply (map event_of ats) (tr_pool t)" by blast
    then show ?thesis
      by (intro exI [of _ "a # ats"]) (simp add: t_def a_def)
  next
    case (Inr m)
    with Cons.prems show ?thesis
      by (intro exI [of _ "[\<lparr>at_id = dh_id c, at_ok = True, at_healthy = True\<rparr>]"]) auto
  qed
qed simp

text \<open>The rounds that take place, and the clients they try.\<close>

definition rounds :: "(nat \<Rightarrow> duration \<Rightarrow> bool) \<Rightarrow> nat" where
  "rounds cancelled = (if cancelled 0 (50 * millisecond) then 1 else if cancelled 1 (100 * millisecond) then 2 else 3)"

definition tried :: "(nat \<Rightarrow> duration \<Rightarrow> bool) \<Rightarrow> pool \<Rightarrow> doh_client list" where
  "tried cancelled p = concat (replicate (rounds cancelled) (candidates p))"

lemma last_tried:
  "tried cancelled p = [] \<longleftrightarrow> candidates p = []"
  "candidates p \<noteq> [] \<Longrightarrow> last (tried cancelled p) = last (candidates p)"
  by (simp_all add: tried_def rounds_def numeral_3_eq_3 numeral_2_eq_2)

lemma forward_rounds_eq:
  "forward_rounds G D net cancelled q cs [0..<Suc max_retries] s =
     (case try_candidates G D net q (concat (replicate (rounds cancelled) cs)) s of
        (s', Some r) \<Rightarrow> (s', Inr r)
      | (s', None) \<Rightarrow> (s', Inl (if rounds cancelled < 3 then Context_Done
           else case tr_error s' of None \<Rightarrow> No_Healthy_Upstreams | Some e \<Rightarrow> e)))"
proof -
  have l: "[0..<Suc max_retries] = [0, 1, 2]" by (simp add: max_retries_def upt_rec)
  have d: "base_delay * 2 ^ 0 = 50 * millisecond" "base_delay * 2 ^ 1 = 100 * millisecond"
    by (simp_all add: base_delay_def)
  show ?thesis
    unfolding l rounds_def
    by (simp add: max_retries_def d [simplified] try_append numeral_3_eq_3 numeral_2_eq_2
        split: prod.split option.split)
qed

lemma pool_forward_eq:
  "pool_forward G D net cancelled (Some q) p =
     (case try_candidates G D net q (tried cancelled p)
             \<lparr>tr_pool = p, tr_count = 0, tr_attempts = [], tr_error = None\<rparr> of
        (s', r) \<Rightarrow> (tr_pool s', tr_attempts s',
           (case r of Some x \<Rightarrow> Inr x
            | None \<Rightarrow> Inl (if rounds cancelled < 3 then Context_Done
                else case tr_error s' of None \<Rightarrow> No_Healthy_Upstreams | Some e \<Rightarrow> e))))"
  unfolding pool_forward_def option.case forward_rounds_eq tried_def
  by (simp split: prod.split option.split)

lemma forward_rounds_spec:
  "case pool_forward G D net cancelled (Some q) p of (p', ats, r) \<Rightarrow>
     p' = fold pool_apply (map event_of ats) p \<and>
     (case r of
        Inr (m, i) \<Rightarrow> \<exists>k < length (tried cancelled p).
          exchange G D net q k (tried cancelled p ! k) = Inr m \<and> i = dh_id (tried cancelled p ! k)
          \<and> (\<forall>j < k. isl (exchange G D net q j (tried cancelled p ! j)))
          \<and> map at_id ats = map dh_id (take (Suc k) (tried cancelled p))
          \<and> map at_ok ats = replicate k False @ [True]
      | Inl e \<Rightarrow>
          (\<forall>k < length (tried cancelled p). isl (exchange G D net q k (tried cancelled p ! k)))
          \<and> map at_id ats = map dh_id (tried cancelled p) \<and> True \<notin> set (map at_ok ats)
          \<and> e = (if rounds cancelled < 3 then Context_Done
                 else if candidates p = [] then No_Healthy_Upstreams
                 else projl (exchange G D net q (length (tried cancelled p) - 1) (last (candidates p)))))"
proof -
  let ?s = "\<lparr>tr_pool = p, tr_count = 0, tr_attempts = [], tr_error = None\<rparr>"
  obtain s' r where t: "try_candidates G D net q (tried cancelled p) ?s = (s', r)" by force
  have pool: "tr_pool s' = fold pool_apply (map event_of (tr_attempts s')) p"
    using try_pool [OF t] by auto
  show ?thesis
  proof (cases r)
    case None
    have "tr_error s' = (if candidates p = [] then None else Some (projl (exchange G D net q
        (length (tried cancelled p) - 1) (last (candidates p)))))"
      using try_failure [OF t [unfolded None]] last_tried(1) [of cancelled p] last_tried(2) [of p cancelled] by simp
    with try_failure [OF t [unfolded None]] pool t None last_tried(1) [of cancelled p] show ?thesis
      by (simp add: pool_forward_eq split: if_split_asm)
  next
    case (Some mi)
    obtain m i where mi: "mi = (m, i)" by (cases mi)
    show ?thesis
      using try_success [OF t [unfolded Some mi]] pool t Some mi
      by (auto simp: pool_forward_eq)
  qed
qed

text \<open>C36: Forwarding tries the upstreams healthy at its start, in order, for up to three rounds (the
  context may end it in the pause of 50 or 100 milliseconds between two), and returns the first
  answer together with the upstream that gave it; it fails only if none of them answered, with the
  last error.  The attempts reported are exactly the exchanges made, and the pool records each
  of them.\<close>

theorem forward_spec:
  "case pool_forward G D net cancelled (Some q) p of (p', ats, r) \<Rightarrow>
     p' = fold pool_apply (map event_of ats) p \<and>
     (case r of
        Inr (m, i) \<Rightarrow> \<exists>k < length (tried cancelled p).
          exchange G D net q k (tried cancelled p ! k) = Inr m \<and> i = dh_id (tried cancelled p ! k)
          \<and> (\<forall>j < k. isl (exchange G D net q j (tried cancelled p ! j)))
          \<and> map at_id ats = map dh_id (take (Suc k) (tried cancelled p))
          \<and> map at_ok ats = replicate k False @ [True]
      | Inl e \<Rightarrow>
          (\<forall>k < length (tried cancelled p). isl (exchange G D net q k (tried cancelled p ! k)))
          \<and> map at_id ats = map dh_id (tried cancelled p) \<and> True \<notin> set (map at_ok ats)
          \<and> e = (if rounds cancelled < 3 then Context_Done
                 else if candidates p = [] then No_Healthy_Upstreams
                 else projl (exchange G D net q (length (tried cancelled p) - 1) (last (candidates p)))))"
  by (rule forward_rounds_spec)

definition one_up :: upstream where
  "one_up = \<lparr>up_id = ''one'', up_name = [], up_url = ''https://one.example/dns-query'', up_bootstrap = [],
     up_timeout = 0, up_circuit_breaker_threshold = 0, up_health_probe_timeout = 0, up_health_probe_interval = 0\<rparr>"

definition two_up :: upstream where
  "two_up = one_up\<lparr>up_id := ''two'', up_url := ''https://two.example/dns-query''\<rparr>"

definition probe_net :: "nat \<Rightarrow> doh_net" where
  "probe_net k timeout url wire =
     (if url = ''https://two.example/dns-query'' then Exchange 200 ''application/dns-message'' (wire, None)
      else Exchange 503 [] ([], None))"

theorem forward_spec_witness:
  "\<exists>m. snd (snd (pool_forward ascii_lib plain_dns probe_net (\<lambda>_ _. False) (Some (probe_query 0))
     (new_pool [one_up, two_up]))) = Inr (m, ''two'')
   \<and> (\<exists>k < length (tried (\<lambda>_ _. False) (new_pool [one_up, two_up])). ''two'' = dh_id (tried (\<lambda>_ _. False) (new_pool [one_up, two_up]) ! k))"
proof -
  have "(case snd (snd (pool_forward ascii_lib plain_dns probe_net (\<lambda>_ _. False) (Some (probe_query 0))
     (new_pool [one_up, two_up]))) of Inr (m, i) \<Rightarrow> i = ''two'' | Inl _ \<Rightarrow> False)"
    by code_simp
  then obtain m where m: "snd (snd (pool_forward ascii_lib plain_dns probe_net (\<lambda>_ _. False) (Some (probe_query 0))
     (new_pool [one_up, two_up]))) = Inr (m, ''two'')" by (auto split: sum.splits)
  then show ?thesis
    using forward_spec [where G = ascii_lib and D = plain_dns and net = probe_net and cancelled = "\<lambda>_ _. False"
        and q = "probe_query 0" and p = "new_pool [one_up, two_up]"]
    by (auto split: prod.splits)
qed

lemma streak_failures:
  "fold (next_streak i) (map Failed xs) n = n + int (count_list xs i)"
  by (induction xs arbitrary: n) auto

lemma configured_failures: "configured us (evs @ map Failed xs) = configured us evs"
proof (induction xs rule: rev_induct)
  case (snoc x xs)
  then show ?case
    by (simp add: configured_snoc [of us "evs @ map Failed xs", simplified])
qed simp

lemma count_list_distinct: "distinct xs \<Longrightarrow> x \<in> set xs \<Longrightarrow> count_list xs x = 1"
  by (induction xs) auto

lemma count_list_candidates:
  assumes "distinct (all_ids p)" "is_healthy i p"
  shows "count_list (map dh_id (candidates p)) i = 1"
proof -
  from assms(2) obtain pc where pc: "pc \<in> set (pl_clients p)" "pc_id pc = i" "pc_healthy pc"
    by (auto simp: is_healthy_def find_Some_iff split: option.splits) (metis nth_mem)
  have "map dh_id (candidates p) = map pc_id (filter pc_healthy (pl_clients p))"
    by (simp add: candidates_def)
  moreover have "distinct (map pc_id (filter pc_healthy (pl_clients p)))"
    using assms(1) by (simp add: all_ids_def distinct_map_filter)
  moreover have "i \<in> set (map pc_id (filter pc_healthy (pl_clients p)))" using pc by auto
  ultimately show ?thesis by (simp add: count_list_distinct)
qed

lemma count_list_concat_replicate: "count_list (concat (replicate n xs)) i = n * count_list xs i"
  by (induction n) simp_all

text \<open>When nothing answers, one call alone counts three failures against every upstream it tries,
  so it takes every upstream with the default threshold of three, or a lower one, out of
  service at once.\<close>

theorem outage_opens_circuit:
  assumes "distinct (map up_id (configured us evs))" "rounds cancelled = 3"
    and "pool_forward G D net cancelled (Some q) (pool_run us evs) = (p', ats, Inl e)"
    and "u \<in> set (configured us evs)" "is_healthy (up_id u) (pool_run us evs)"
  shows "is_healthy (up_id u) p' \<longleftrightarrow> streak (up_id u) evs + 3 < breaker u"
proof -
  let ?p = "pool_run us evs"
  have spec: "p' = fold pool_apply (map event_of ats) ?p" "map at_id ats = map dh_id (tried cancelled ?p)"
    "True \<notin> set (map at_ok ats)"
    using forward_rounds_spec [where G = G and D = D and net = net and cancelled = cancelled and q = q and p = ?p]
      assms(3) by auto
  have "map event_of ats = map Failed (map at_id ats)"
    using spec(3) by (auto simp: event_of_def)
  with spec(2) have evs: "map event_of ats = map Failed (map dh_id (tried cancelled ?p))" by simp
  have p': "p' = pool_run us (evs @ map Failed (map dh_id (tried cancelled ?p)))"
    unfolding spec(1) evs by (simp add: pool_run_def)
  have ids: "all_ids ?p = map up_id (configured us evs)" by (rule pool_ok_healthy(2) [OF pool_ok_run])
  have "map dh_id (tried cancelled ?p) = concat (replicate 3 (map dh_id (candidates ?p)))"
    using assms(2) by (simp add: tried_def map_concat)
  then have "count_list (map dh_id (tried cancelled ?p)) (up_id u) = 3"
    using count_list_candidates [of ?p "up_id u"] ids assms(1,5) by (simp only: count_list_concat_replicate)
  then have str: "streak (up_id u) (evs @ map Failed (map dh_id (tried cancelled ?p))) = streak (up_id u) evs + 3"
    by (simp only: streak_def fold_append o_apply streak_failures)
  have "find (\<lambda>v. up_id v = up_id u) (configured us evs) = Some u"
    using assms(1,4) by (auto simp: find_Some_iff in_set_conv_nth distinct_conv_nth)
  then show ?thesis
    unfolding p' pool_ok_healthy(1) [OF pool_ok_run] configured_failures str by simp
qed

theorem outage_opens_circuit_witness:
  "\<not> is_healthy ''one'' (fst (pool_forward ascii_lib plain_dns (\<lambda>_ _ _ _. Exchange_Failed ''timeout'')
      (\<lambda>_ _. False) (Some (probe_query 0)) (pool_run [one_up, two_up] [])))"
proof -
  let ?r = "pool_forward ascii_lib plain_dns (\<lambda>_ _ _ _. Exchange_Failed ''timeout'')
      (\<lambda>_ _. False) (Some (probe_query 0)) (pool_run [one_up, two_up] [])"
  have "isl (snd (snd ?r))" by code_simp
  then obtain e where "?r = (fst ?r, fst (snd ?r), Inl e)" by (metis isl_def prod.collapse)
  moreover have "is_healthy (up_id one_up) (pool_run [one_up, two_up] [])" by code_simp
  moreover have "distinct (map up_id (configured [one_up, two_up] []))" "one_up \<in> set (configured [one_up, two_up] [])"
    by (simp_all add: two_up_def one_up_def)
  moreover have "rounds (\<lambda>_ _. False) = 3" by (simp add: rounds_def)
  ultimately have "is_healthy (up_id one_up) (fst ?r) \<longleftrightarrow> streak (up_id one_up) [] + 3 < breaker one_up"
    by (intro outage_opens_circuit) assumption+
  then show ?thesis by (simp add: streak_def breaker_def one_up_def)
qed

section \<open>Probing\<close>

lemma on_first_ids [simp]: "(\<And>pc. pc_client (f pc) = pc_client pc) \<Longrightarrow> map pc_id (on_first i f pcs) = map pc_id pcs"
  by (induction pcs) auto

lemma is_healthy_mark_success:
  "is_healthy j (mark_success i p) \<longleftrightarrow> is_healthy j p \<or> j = i \<and> i \<in> set (all_ids p)"
proof -
  have "find (\<lambda>pc. pc_id pc = i) (pl_clients p) = None \<longleftrightarrow> i \<notin> set (all_ids p)"
    by (auto simp: find_None_iff all_ids_def)
  then show ?thesis
    by (cases "find (\<lambda>pc. pc_id pc = i) (pl_clients p)")
      (auto simp: is_healthy_def mark_success_def find_on_first succeed_def)
qed

lemma all_ids_mark_success [simp]: "all_ids (mark_success i p) = all_ids p"
  by (simp add: all_ids_def mark_success_def)

lemma probe_all_healthy:
  assumes "set (map pc_id pcs) \<subseteq> set (all_ids p)"
  shows "is_healthy j (probe_all G D net rnd k pcs p) \<longleftrightarrow> is_healthy j p \<or>
    (\<exists>n < length pcs. pc_id (pcs ! n) = j \<and>
       \<not> isl (probe_client G D (net (k + n) (pc_probe_timeout (pcs ! n))) (rnd (k + n)) (pc_client (pcs ! n))))"
  using assms
proof (induction pcs arbitrary: k p)
  case (Cons pc pcs)
  then show ?case
    by (cases "probe_client G D (net k (pc_probe_timeout pc)) (rnd k) (pc_client pc)")
      (auto simp: Ex_less_Suc2 is_healthy_mark_success)
qed simp

text \<open>C40: A round of probes brings back exactly the unhealthy upstreams that answer their probe, and
  disturbs no other: healthy upstreams stay healthy, silent ones stay out of service.\<close>

theorem probe_recovers:
  "let down = filter (\<lambda>pc. \<not> pc_healthy pc) (pl_clients p) in
   is_healthy i (probe_unhealthy G D net rnd p) \<longleftrightarrow> is_healthy i p \<or>
     (\<exists>k < length down. pc_id (down ! k) = i \<and>
        \<not> isl (probe_client G D (net k (pc_probe_timeout (down ! k))) (rnd k) (pc_client (down ! k))))"
proof -
  have "set (map pc_id (filter (\<lambda>pc. \<not> pc_healthy pc) (pl_clients p))) \<subseteq> set (all_ids p)"
    by (auto simp: all_ids_def)
  from probe_all_healthy [OF this, of i G D net rnd 0] show ?thesis
    by (simp add: Let_def probe_unhealthy_def)
qed

text \<open>Whatever health probe intervals the upstreams configure, the pool reports the default of one
  minute: the default is stored before the loop that would take the first configured interval.\<close>

theorem probe_interval_fixed: "probe_interval (pool_run us evs) = minute"
proof -
  have "probe_interval (pool_apply e p) = minute" if "probe_interval p = minute" for e p
    using that by (cases e) (simp_all add: probe_interval_def pool_replace_eq mark_success_def mark_failure_def split: if_splits)
  moreover have "probe_interval (new_pool us) = minute"
    by (simp add: probe_interval_def new_pool_def pool_replace_eq)
  ultimately show ?thesis
    unfolding pool_run_def by (induction evs rule: rev_induct) simp_all
qed

end
