(* ===== verification/Log_Rotator.thy ===== *)
theory Log_Rotator
  imports Go_Strings
begin

text \<open>
  \<open>internal/log/rotate.go\<close>: the log file with its rotation by size and the removal of old files.

  The directory maps paths to contents and modification times.  Each operation gets the outcome
  of its system calls as an argument (\<open>log_io\<close>).  The goroutines \<open>go gzipFile\<close> and
  \<open>go r.EvictOld\<close> are operations of their own that run some time after the rotation.
\<close>

type_synonym log_dir = "(string, string \<times> gotime) alist"

record log_io =
  li_now :: gotime
  li_stamp :: string                          \<comment> \<open>\<open>now\<close> as \<open>20060102-150405.000000000\<close>\<close>
  li_mkdir :: "string option"
  li_open :: "string option"
  li_stat :: "string option"
  li_close :: "string option"
  li_rename :: "string option"
  li_write :: "nat option \<times> string option"   \<comment> \<open>bytes written, \<open>None\<close> for all; the error\<close>

record rotator =
  ro_path :: string
  ro_max_bytes :: int
  ro_retain_days :: int
  ro_gzip :: bool
  ro_open :: bool                             \<comment> \<open>\<open>cur\<close> is not nil\<close>
  ro_size :: int

definition log_content :: "string \<Rightarrow> log_dir \<Rightarrow> string" where
  "log_content path d = (case map_of d path of None \<Rightarrow> [] | Some (s, _) \<Rightarrow> s)"

text \<open>\<open>O_CREATE|O_APPEND\<close>: an existing file keeps its content.\<close>

definition create_file :: "gotime \<Rightarrow> string \<Rightarrow> log_dir \<Rightarrow> log_dir" where
  "create_file now path d = (if map_of d path = None then AList.update path ([], now) d else d)"

definition new_rotator ::
  "log_io \<Rightarrow> string \<Rightarrow> int \<Rightarrow> int \<Rightarrow> bool \<Rightarrow> log_dir \<Rightarrow> log_dir \<times> (string + rotator)" where
  "new_rotator io path max_bytes retain_days gzip d =
     (let max_bytes = (if max_bytes \<le> 0 then 100 * 1024 * 1024 else max_bytes);
          retain_days = (if retain_days \<le> 0 then 7 else retain_days) in
      case li_mkdir io of
        Some e \<Rightarrow> (d, Inl e)
      | None \<Rightarrow>
          (case li_open io of
             Some e \<Rightarrow> (d, Inl e)
           | None \<Rightarrow>
               let d = create_file (li_now io) path d in
               (case li_stat io of
                  Some e \<Rightarrow> (d, Inl e)
                | None \<Rightarrow>
                    (d, Inr \<lparr>ro_path = path, ro_max_bytes = max_bytes, ro_retain_days = retain_days,
                             ro_gzip = gzip, ro_open = True, ro_size = int (length (log_content path d))\<rparr>))))"

definition rotated_path :: "log_io \<Rightarrow> rotator \<Rightarrow> string" where
  "rotated_path io r = ro_path r @ ''.'' @ li_stamp io"

text \<open>\<open>os.Rename\<close> replaces its target and keeps the modification time; a missing file is no error.\<close>

definition rename_file :: "string \<Rightarrow> string \<Rightarrow> log_dir \<Rightarrow> log_dir" where
  "rename_file old new d =
     (case map_of d old of None \<Rightarrow> d | Some f \<Rightarrow> AList.update new f (AList.delete old d))"

definition rotate_log :: "log_io \<Rightarrow> rotator \<Rightarrow> log_dir \<Rightarrow> rotator \<times> log_dir \<times> string option" where
  "rotate_log io r d =
     (if \<not> ro_open r then (r, d, None)
      else case li_close io of
        Some e \<Rightarrow> (r, d, Some e)
      | None \<Rightarrow>
          let r = r\<lparr>ro_open := False\<rparr> in
          (case li_rename io of
             Some e \<Rightarrow> (r, d, Some e)
           | None \<Rightarrow>
               let d = rename_file (ro_path r) (rotated_path io r) d in
               (case li_open io of
                  Some e \<Rightarrow> (r, d, Some e)
                | None \<Rightarrow>
                    (r\<lparr>ro_open := True, ro_size := 0\<rparr>, create_file (li_now io) (ro_path r) d, None))))"

definition append_log :: "log_io \<Rightarrow> string \<Rightarrow> rotator \<Rightarrow> log_dir \<Rightarrow> rotator \<times> log_dir \<times> string option" where
  "append_log io p r d =
     (case li_write io of (n, err) \<Rightarrow>
        let written = (case n of None \<Rightarrow> p | Some k \<Rightarrow> take k p) in
        (r\<lparr>ro_size := ro_size r + int (length written)\<rparr>,
         AList.update (ro_path r) (log_content (ro_path r) d @ written, li_now io) d, err))"

definition rotator_write :: "log_io \<Rightarrow> string \<Rightarrow> rotator \<Rightarrow> log_dir \<Rightarrow> rotator \<times> log_dir \<times> string option" where
  "rotator_write io p r d =
     (if \<not> ro_open r then (r, d, Some ''file already closed'')
      else if 0 < ro_size r \<and> ro_max_bytes r < ro_size r + int (length p) then
        (case rotate_log io r d of
           (r, d, Some e) \<Rightarrow> (r, d, Some e)
         | (r, d, None) \<Rightarrow> append_log io p r d)
      else append_log io p r d)"

definition evict_old :: "gotime \<Rightarrow> rotator \<Rightarrow> log_dir \<Rightarrow> log_dir" where
  "evict_old now r d =
     (let cutoff = now + wrap64 (- ro_retain_days r * 24 * hour); base = ro_path r @ ''.'' in
      filter (\<lambda>(path, content, mtime).
        \<not> (prefix base path \<and> CHR ''/'' \<notin> set (drop (length base) path) \<and> mtime < cutoff)) d)"

definition rotator_close :: "log_io \<Rightarrow> rotator \<Rightarrow> rotator \<times> string option" where
  "rotator_close io r = (if \<not> ro_open r then (r, None) else (r\<lparr>ro_open := False\<rparr>, li_close io))"

text \<open>\<open>gzipFile\<close> when every call succeeds; otherwise the original stays.\<close>

definition gzip_file :: "(string \<Rightarrow> string) \<Rightarrow> gotime \<Rightarrow> bool \<Rightarrow> string \<Rightarrow> log_dir \<Rightarrow> log_dir" where
  "gzip_file compress now ok path d =
     (case map_of d path of
        None \<Rightarrow> d
      | Some (content, _) \<Rightarrow>
          if ok then AList.delete path (AList.update (path @ ''.gz'') (compress content, now) d) else d)"

section \<open>A run without failures\<close>

definition works :: "log_io \<Rightarrow> bool" where
  "works io \<longleftrightarrow> li_open io = None \<and> li_close io = None \<and> li_rename io = None \<and> li_write io = (None, None)"

text \<open>The writes of a run; each comes with the outcome of its calls.\<close>

fun write_all :: "(log_io \<times> string) list \<Rightarrow> rotator \<times> log_dir \<Rightarrow> rotator \<times> log_dir" where
  "write_all [] s = s"
| "write_all ((io, p) # ws) (r, d) =
     (case rotator_write io p r d of (r, d, _) \<Rightarrow> write_all ws (r, d))"

text \<open>The abstract log: the finished files in order, each under its path, and the current one.\<close>

record log_view =
  lv_done :: "(string \<times> string) list"
  lv_current :: string

fun log_step :: "int \<Rightarrow> string \<Rightarrow> log_io \<times> string \<Rightarrow> log_view \<Rightarrow> log_view" where
  "log_step limit path (io, p) v =
     (if lv_current v \<noteq> [] \<and> limit < int (length (lv_current v) + length p)
      then v\<lparr>lv_done := lv_done v @ [(path @ ''.'' @ li_stamp io, lv_current v)], lv_current := p\<rparr>
      else v\<lparr>lv_current := lv_current v @ p\<rparr>)"

definition log_ok :: "log_view \<Rightarrow> rotator \<times> log_dir \<Rightarrow> bool" where
  "log_ok v s \<longleftrightarrow> (case s of (r, d) \<Rightarrow>
     ro_open r \<and> ro_size r = int (length (lv_current v)) \<and> log_content (ro_path r) d = lv_current v
     \<and> (\<forall>f \<in> set (lv_done v). fst f \<noteq> ro_path r \<and> log_content (fst f) d = snd f))"

lemma log_content_update [simp]:
  "log_content p (AList.update q (s, t) d) = (if p = q then s else log_content p d)"
  by (simp add: log_content_def)

lemma log_content_delete [simp]: "log_content p (AList.delete q d) = (if p = q then [] else log_content p d)"
  by (simp add: log_content_def)

lemma log_content_create [simp]: "log_content p (create_file t q d) = log_content p d"
  by (simp add: create_file_def log_content_def)

lemma log_content_rename:
  "old \<noteq> new \<Longrightarrow> log_content old d \<noteq> [] \<Longrightarrow> log_content p (rename_file old new d) =
     (if p = new then log_content old d else if p = old then [] else log_content p d)"
  by (auto simp: rename_file_def log_content_def split: option.splits)

lemma write_step:
  assumes "log_ok v (r, d)" "works io" "rotated_path io r \<notin> fst ` set (lv_done v)"
  shows "\<exists>r' d'. rotator_write io p r d = (r', d', None)
    \<and> log_ok (log_step (ro_max_bytes r) (ro_path r) (io, p) v) (r', d')
    \<and> ro_path r' = ro_path r \<and> ro_max_bytes r' = ro_max_bytes r"
proof (cases "lv_current v \<noteq> [] \<and> ro_max_bytes r < int (length (lv_current v) + length p)")
  case True
  have "ro_path r \<noteq> rotated_path io r" by (simp add: rotated_path_def)
  moreover have "fst f \<noteq> rotated_path io r" if "f \<in> set (lv_done v)" for f
    using that assms(3) by (metis imageI)
  ultimately show ?thesis
    using True assms(1,2)
    by (auto simp: rotator_write_def rotate_log_def append_log_def works_def log_ok_def Let_def
        log_content_rename rotated_path_def)
next
  case False
  with assms show ?thesis
    by (auto simp: rotator_write_def append_log_def works_def log_ok_def Let_def)
qed


text \<open>The stamps of the rotations are different.\<close>

definition fresh_stamps :: "(log_io \<times> string) list \<Rightarrow> bool" where
  "fresh_stamps ws \<longleftrightarrow> distinct (map (\<lambda>w. li_stamp (fst w)) ws)"

abbreviation log_run :: "int \<Rightarrow> string \<Rightarrow> (log_io \<times> string) list \<Rightarrow> log_view \<Rightarrow> log_view" where
  "log_run limit path ws v \<equiv> fold (log_step limit path) ws v"

lemma log_step_done: "lv_done (log_step limit path w v) = lv_done v \<or>
    lv_done (log_step limit path w v) = lv_done v @ [(path @ ''.'' @ li_stamp (fst w), lv_current v)]"
  by (cases w) auto

lemma write_all_ok:
  assumes "log_ok v (r, d)" "\<forall>w \<in> set ws. works (fst w)" "fresh_stamps ws"
    and "\<forall>w \<in> set ws. ro_path r @ ''.'' @ li_stamp (fst w) \<notin> fst ` set (lv_done v)"
  shows "log_ok (log_run (ro_max_bytes r) (ro_path r) ws v) (write_all ws (r, d))
    \<and> ro_path (fst (write_all ws (r, d))) = ro_path r"
  using assms
proof (induction ws arbitrary: v r d)
  case (Cons w ws)
  obtain io p where w: "w = (io, p)" by (cases w)
  have "rotated_path io r \<notin> fst ` set (lv_done v)" using Cons.prems(4) by (simp add: w rotated_path_def)
  with write_step [of v r d io p] Cons.prems(1,2) obtain r' d' where s:
    "rotator_write io p r d = (r', d', None)" "log_ok (log_step (ro_max_bytes r) (ro_path r) w v) (r', d')"
    "ro_path r' = ro_path r" "ro_max_bytes r' = ro_max_bytes r" by (auto simp: w)
  have "ro_path r @ ''.'' @ li_stamp (fst x) \<notin> fst ` set (lv_done (log_step (ro_max_bytes r) (ro_path r) w v))"
    if "x \<in> set ws" for x
  proof -
    have "ro_path r @ ''.'' @ li_stamp (fst x) \<notin> fst ` set (lv_done v)" using Cons.prems(4) that by simp
    moreover have "li_stamp (fst x) \<noteq> li_stamp (fst w)" using Cons.prems(3) that
      unfolding fresh_stamps_def by (metis (mono_tags, lifting) distinct.simps(2) image_eqI list.set_map list.simps(9))
    ultimately show ?thesis
      using log_step_done [of "ro_max_bytes r" "ro_path r" w v] by (elim disjE) (simp_all only:, simp_all)
  qed
  with Cons.IH [OF s(2)] Cons.prems(2,3) s(3,4) show ?case
    by (simp add: w s(1) fresh_stamps_def)
qed simp

lemma log_run_data:
  "concat (map snd (lv_done (log_run limit path ws v))) @ lv_current (log_run limit path ws v)
     = concat (map snd (lv_done v)) @ lv_current v @ concat (map snd ws)"
proof (induction ws arbitrary: v)
  case (Cons w ws)
  have "concat (map snd (lv_done (log_step limit path w v))) @ lv_current (log_step limit path w v)
      = concat (map snd (lv_done v)) @ lv_current v @ snd w"
    by (cases w) simp
  with Cons show ?case by simp
qed simp

lemma log_run_bound:
  assumes "\<forall>w \<in> set ws. int (length (snd w)) \<le> limit" "int (length (lv_current v)) \<le> limit"
    "\<forall>f \<in> set (lv_done v). int (length (snd f)) \<le> limit"
  shows "(\<forall>f \<in> set (lv_done (log_run limit path ws v)). int (length (snd f)) \<le> limit)
    \<and> int (length (lv_current (log_run limit path ws v))) \<le> limit"
  using assms
proof (induction ws arbitrary: v)
  case (Cons w ws)
  have "int (length (lv_current (log_step limit path w v))) \<le> limit"
    "\<forall>f \<in> set (lv_done (log_step limit path w v)). int (length (snd f)) \<le> limit"
    using Cons.prems by (cases w; auto)+
  with Cons.IH [of "log_step limit path w v"] Cons.prems(1) show ?case by simp
qed simp

text \<open>While no system call fails and rotations get different time stamps, nothing written to a log is
  lost: the rotated files in the order of rotation followed by the current file are exactly the
  records written, none of these files exceeds the size limit (records being shorter than it), and
  the log stays open.\<close>

theorem rotation_conserves:
  assumes "\<forall>w \<in> set ws. works (fst w)" "fresh_stamps ws"
    and "\<forall>w \<in> set ws. int (length (snd w)) \<le> limit" "0 \<le> limit"
    and "ro_open r" "ro_size r = 0" "log_content (ro_path r) d = []" "ro_max_bytes r = limit"
  shows "\<exists>files r' d'. write_all ws (r, d) = (r', d') \<and> ro_open r'
    \<and> concat (map (\<lambda>f. log_content f d') files) @ log_content (ro_path r) d' = concat (map snd ws)
    \<and> (\<forall>f \<in> set (ro_path r # files). int (length (log_content f d')) \<le> limit)"
proof -
  let ?v = "log_run limit (ro_path r) ws \<lparr>lv_done = [], lv_current = []\<rparr>"
  obtain r' d' where w: "write_all ws (r, d) = (r', d')" by force
  have "log_ok \<lparr>lv_done = [], lv_current = []\<rparr> (r, d)" using assms by (simp add: log_ok_def)
  from write_all_ok [OF this assms(1,2)] w assms(8)
  have ok: "ro_open r'" "log_content (ro_path r) d' = lv_current ?v"
    "\<And>f. f \<in> set (lv_done ?v) \<Longrightarrow> log_content (fst f) d' = snd f"
    by (auto simp: log_ok_def)
  have c: "map (\<lambda>f. log_content f d') (map fst (lv_done ?v)) = map snd (lv_done ?v)"
    using ok(3) by simp
  show ?thesis
    using log_run_data [of limit "ro_path r" ws "\<lparr>lv_done = [], lv_current = []\<rparr>"]
      log_run_bound [of ws limit "\<lparr>lv_done = [], lv_current = []\<rparr>" "ro_path r"] assms(3,4) w ok
    by (intro exI [of _ "map fst (lv_done ?v)"] exI [of _ r'] exI [of _ d']) (auto simp: c simp del: map_map)
qed

definition log_ok_io :: "string \<Rightarrow> log_io" where
  "log_ok_io stamp = \<lparr>li_now = 0, li_stamp = stamp, li_mkdir = None, li_open = None, li_stat = None,
     li_close = None, li_rename = None, li_write = (None, None)\<rparr>"

definition small_log :: rotator where
  "small_log = \<lparr>ro_path = ''q.log'', ro_max_bytes = 5, ro_retain_days = 7, ro_gzip = False, ro_open = True, ro_size = 0\<rparr>"

theorem rotation_conserves_witness:
  "\<exists>files r' d'. write_all [(log_ok_io ''1'', ''abcd''), (log_ok_io ''2'', ''ef'')] (small_log, []) = (r', d')
     \<and> concat (map (\<lambda>f. log_content f d') files) @ log_content ''q.log'' d' = ''abcdef''"
proof -
  have "\<exists>files r' d'. write_all [(log_ok_io ''1'', ''abcd''), (log_ok_io ''2'', ''ef'')] (small_log, []) = (r', d')
     \<and> ro_open r' \<and> concat (map (\<lambda>f. log_content f d') files) @ log_content (ro_path small_log) d'
        = concat (map snd [(log_ok_io ''1'', ''abcd''), (log_ok_io ''2'', ''ef'')])
     \<and> (\<forall>f \<in> set (ro_path small_log # files). int (length (log_content f d')) \<le> 5)"
    by (rule rotation_conserves) (simp_all add: small_log_def log_ok_io_def works_def fresh_stamps_def log_content_def)
  then show ?thesis by (auto simp: small_log_def)
qed

text \<open>A rename that fails leaves the log closed for good: every later write is an error and changes
  nothing, and a further rotation does not reopen it.\<close>

lemma failed_rotation_stops_log:
  assumes "ro_open r" "li_close io = None" "li_rename io = Some e"
  shows "\<exists>r'. rotate_log io r d = (r', d, Some e)
    \<and> (\<forall>io p. \<exists>e. rotator_write io p r' d = (r', d, Some e)) \<and> (\<forall>io. rotate_log io r' d = (r', d, None))"
  using assms by (simp add: rotate_log_def rotator_write_def)

end
