(* ===== verification/Query_Log.thy ===== *)
theory Query_Log
  imports Log_Rotator Go_Json Config_Types
begin

text \<open>
  \<open>internal/log/entry.go\<close>, \<open>fanout.go\<close> and \<open>query.go\<close>: the entries of the query log, the ring of
  recent entries with its live subscribers, and the logger with its privacy modes.

  A subscription is a buffered channel named by a number.  Each method that holds the fanout's
  lock is one step; \<open>subscribe\<close> sends the backlog after it has released the lock, so its two
  halves are steps of their own.  The keyed hash, the random salt and the rendering of a JSON
  value as a line are parameters.
\<close>

record log_entry =
  le_ts :: gotime
  le_request_id :: string
  le_client_key :: string
  le_client_name :: string
  le_client_group :: string
  le_client_ip :: string
  le_qname :: string
  le_qtype :: string
  le_qclass :: string
  le_rcode :: string
  le_answers :: "string list"
  le_blocked :: bool
  le_block_reason :: string
  le_block_list :: string
  le_upstream :: string
  le_cache_hit :: bool
  le_latency_us :: int
  le_proto :: string

definition json_str :: "string \<Rightarrow> json" where
  "json_str s = JStr (json_string s)"

definition omit_empty :: "string \<Rightarrow> string \<Rightarrow> (string \<times> json) list" where
  "omit_empty name v = (if v = [] then [] else [(name, json_str v)])"

definition entry_to_json :: "golib \<Rightarrow> log_entry \<Rightarrow> json" where
  "entry_to_json G e = JObj (
     [(''ts'', json_of_time G (le_ts e))]
     @ omit_empty ''request_id'' (le_request_id e) @ omit_empty ''client_key'' (le_client_key e)
     @ omit_empty ''client_name'' (le_client_name e) @ omit_empty ''client_group'' (le_client_group e)
     @ omit_empty ''client_ip'' (le_client_ip e)
     @ [(''qname'', json_str (le_qname e)), (''qtype'', json_str (le_qtype e)),
        (''qclass'', json_str (le_qclass e)), (''rcode'', json_str (le_rcode e))]
     @ (if le_answers e = [] then [] else [(''answers'', JArr (map json_str (le_answers e)))])
     @ [(''blocked'', JBool (le_blocked e))]
     @ omit_empty ''block_reason'' (le_block_reason e) @ omit_empty ''block_list'' (le_block_list e)
     @ omit_empty ''upstream'' (le_upstream e)
     @ [(''cache_hit'', JBool (le_cache_hit e)), (''latency_us'', JNum (le_latency_us e)),
        (''proto'', json_str (le_proto e))])"

section \<open>Ring and subscribers\<close>

record subscription =
  sb_size :: nat
  sb_queue :: "log_entry list"

record fanout =
  fo_subs :: "(nat, subscription) alist"
  fo_fresh :: nat
  fo_ring :: "log_entry option list"
  fo_next :: nat
  fo_filled :: bool

definition new_fanout :: "int \<Rightarrow> fanout" where
  "new_fanout ring_size =
     \<lparr>fo_subs = [], fo_fresh = 0, fo_ring = replicate (nat (if ring_size < 0 then 0 else ring_size)) None,
      fo_next = 0, fo_filled = False\<rparr>"

text \<open>A channel with room takes the entry; a full one first loses its oldest.\<close>

definition drop_oldest_send :: "log_entry \<Rightarrow> subscription \<Rightarrow> subscription" where
  "drop_oldest_send e ch =
     (if length (sb_queue ch) < sb_size ch then ch\<lparr>sb_queue := sb_queue ch @ [e]\<rparr>
      else let ch = ch\<lparr>sb_queue := tl (sb_queue ch)\<rparr> in
        if length (sb_queue ch) < sb_size ch then ch\<lparr>sb_queue := sb_queue ch @ [e]\<rparr> else ch)"

definition fanout_snapshot :: "fanout \<Rightarrow> log_entry list" where
  "fanout_snapshot f =
     (if fo_ring f = [] \<or> (\<not> fo_filled f \<and> fo_next f = 0) then []
      else map the (if \<not> fo_filled f then take (fo_next f) (fo_ring f)
                    else drop (fo_next f) (fo_ring f) @ take (fo_next f) (fo_ring f)))"

definition subscribe_register :: "int \<Rightarrow> bool \<Rightarrow> fanout \<Rightarrow> fanout \<times> nat \<times> log_entry list" where
  "subscribe_register cap replay f =
     (let cap = (if cap \<le> 0 then 1 else cap); i = fo_fresh f in
      (f\<lparr>fo_subs := AList.update i \<lparr>sb_size = nat cap, sb_queue = []\<rparr> (fo_subs f), fo_fresh := Suc i\<rparr>,
       i, if replay then fanout_snapshot f else []))"

definition on_sub :: "nat \<Rightarrow> (subscription \<Rightarrow> subscription) \<Rightarrow> fanout \<Rightarrow> fanout" where
  "on_sub i g f =
     (case map_of (fo_subs f) i of None \<Rightarrow> f | Some ch \<Rightarrow> f\<lparr>fo_subs := AList.update i (g ch) (fo_subs f)\<rparr>)"

definition send_backlog :: "nat \<Rightarrow> log_entry list \<Rightarrow> fanout \<Rightarrow> fanout" where
  "send_backlog i backlog f = fold (\<lambda>e. on_sub i (drop_oldest_send e)) backlog f"

definition subscribe :: "int \<Rightarrow> bool \<Rightarrow> fanout \<Rightarrow> fanout \<times> nat" where
  "subscribe cap replay f =
     (case subscribe_register cap replay f of (f, i, backlog) \<Rightarrow> (send_backlog i backlog f, i))"

definition unsubscribe :: "nat \<Rightarrow> fanout \<Rightarrow> fanout" where
  "unsubscribe i f = f\<lparr>fo_subs := AList.delete i (fo_subs f)\<rparr>"

definition receive :: "nat \<Rightarrow> fanout \<Rightarrow> fanout" where
  "receive i f = on_sub i (\<lambda>ch. ch\<lparr>sb_queue := tl (sb_queue ch)\<rparr>) f"

definition publish :: "log_entry \<Rightarrow> fanout \<Rightarrow> fanout" where
  "publish e f =
     (let f = (if fo_ring f = [] then f
               else let next = (fo_next f + 1) mod length (fo_ring f) in
                 f\<lparr>fo_ring := (fo_ring f)[fo_next f := Some e], fo_next := next,
                   fo_filled := (if next = 0 then True else fo_filled f)\<rparr>)
      in f\<lparr>fo_subs := map (\<lambda>(i, ch). (i, drop_oldest_send e ch)) (fo_subs f)\<rparr>)"

section \<open>The logger\<close>

record log_filter =
  lf_client :: string
  lf_qname :: string
  lf_blocked :: "bool option"
  lf_limit :: int

record query_log =
  ql_rotator :: "rotator option"              \<comment> \<open>with its encoder\<close>
  ql_enabled :: bool
  ql_mode :: string
  ql_salt :: string
  ql_fanout :: fanout

definition log_path :: "config \<Rightarrow> string \<Rightarrow> string" where
  "log_path c name = sv_data_dir (c_server c) @ ''/logs/'' @ name"

text \<open>\<open>Reconfigure\<close>: \<open>rnd\<close> is what the random source yields; \<open>close_io\<close> what closing the old file does.\<close>

definition query_reconfigure ::
  "log_io \<Rightarrow> log_io \<Rightarrow> string option \<Rightarrow> config option \<Rightarrow> query_log \<times> log_dir \<Rightarrow> (query_log \<times> log_dir) \<times> string option" where
  "query_reconfigure io close_io rnd c s =
     (case (c, s) of
        (None, _) \<Rightarrow> (s, None)
      | (Some c, q, d) \<Rightarrow>
          let mode = (if pv_log_mode (c_privacy c) = [] then ''full'' else pv_log_mode (c_privacy c));
              salt = pv_log_salt (c_privacy c) in
          if mode = ''hashed'' \<and> salt = [] \<and> rnd = None then (s, Some ''random source failed'')
          else
            let salt = (if mode = ''hashed'' \<and> salt = [] then the rnd else salt);
                next = (if lg_query_log (c_logging c)
                        then map_prod id (map_sum id Some)
                          (new_rotator io (log_path c ''sis-query.log'')
                             (wrap64 (lg_rotate_size_mb (c_logging c) * (1024 * 1024)))
                             (lg_retention_days (c_logging c)) (lg_gzip (c_logging c)) d)
                        else (d, Inr None)) in
            (case next of
               (d, Inl e) \<Rightarrow> ((q, d), Some e)
             | (d, Inr r) \<Rightarrow>
                 ((q\<lparr>ql_enabled := lg_query_log (c_logging c), ql_mode := mode, ql_salt := salt,
                     ql_rotator := r\<rparr>, d), None)))"

definition open_query ::
  "log_io \<Rightarrow> string option \<Rightarrow> config option \<Rightarrow> log_dir \<Rightarrow> log_dir \<times> (string + query_log)" where
  "open_query io rnd c d =
     (case query_reconfigure io io rnd c
             (\<lparr>ql_rotator = None, ql_enabled = False, ql_mode = [], ql_salt = [], ql_fanout = new_fanout 256\<rparr>, d) of
        ((q, d), Some e) \<Rightarrow> (d, Inl e)
      | ((q, d), None) \<Rightarrow> (d, Inr q))"

definition hash_value :: "(string \<Rightarrow> string \<Rightarrow> string) \<Rightarrow> string \<Rightarrow> string \<Rightarrow> string" where
  "hash_value hmac salt v = (if v = [] then [] else hmac salt v)"

definition apply_privacy :: "(string \<Rightarrow> string \<Rightarrow> string) \<Rightarrow> query_log \<Rightarrow> log_entry \<Rightarrow> log_entry" where
  "apply_privacy hmac q e =
     (if ql_mode q = ''hashed'' then
        e\<lparr>le_client_key := hash_value hmac (ql_salt q) (le_client_key e),
          le_client_ip := hash_value hmac (ql_salt q) (le_client_ip e)\<rparr>
      else if ql_mode q = ''anonymous'' then
        e\<lparr>le_client_key := [], le_client_name := [], le_client_group := [], le_client_ip := []\<rparr>
      else e)"

definition query_write ::
  "(string \<Rightarrow> string \<Rightarrow> string) \<Rightarrow> (json \<Rightarrow> string) \<Rightarrow> golib \<Rightarrow> log_io \<Rightarrow> log_entry option
   \<Rightarrow> query_log \<times> log_dir \<Rightarrow> (query_log \<times> log_dir) \<times> string option" where
  "query_write hmac render G io e s =
     (case (e, s) of
        (None, _) \<Rightarrow> (s, None)
      | (Some e, q, d) \<Rightarrow>
          let entry = (if time_is_zero (le_ts e) then e\<lparr>le_ts := li_now io\<rparr> else e);
              entry = apply_privacy hmac q entry;
              q = q\<lparr>ql_fanout := publish entry (ql_fanout q)\<rparr> in
          (case ql_rotator q of
             None \<Rightarrow> ((q, d), None)
           | Some r \<Rightarrow>
               if \<not> ql_enabled q then ((q, d), None)
               else (case rotator_write io (render (entry_to_json G entry)) r d of
                       (r, d, err) \<Rightarrow> ((q\<lparr>ql_rotator := Some r\<rparr>, d), err))))"

definition contains_fold :: "golib \<Rightarrow> string \<Rightarrow> string \<Rightarrow> bool" where
  "contains_fold G s substr = (if substr = [] then True else contains_str (to_lower G s) (to_lower G substr))"

definition entry_matches :: "golib \<Rightarrow> log_filter \<Rightarrow> log_entry \<Rightarrow> bool" where
  "entry_matches G f e =
     (if lf_client f \<noteq> [] \<and> le_client_key e \<noteq> lf_client f \<and> le_client_ip e \<noteq> lf_client f
         \<and> le_client_name e \<noteq> lf_client f then False
      else if lf_qname f \<noteq> [] \<and> \<not> contains_fold G (le_qname e) (lf_qname f) then False
      else (case lf_blocked f of Some b \<Rightarrow> le_blocked e = b | None \<Rightarrow> True))"

text \<open>\<open>Recent\<close> walks the entries from the newest, stops at the limit and reverses what it took.\<close>

fun collect_recent :: "golib \<Rightarrow> log_filter \<Rightarrow> int \<Rightarrow> log_entry list \<Rightarrow> log_entry list \<Rightarrow> log_entry list" where
  "collect_recent G f limit [] out = out"
| "collect_recent G f limit (e # es) out =
     (if limit \<le> int (length out) then out
      else collect_recent G f limit es (if entry_matches G f e then out @ [e] else out))"

definition query_recent :: "golib \<Rightarrow> log_filter \<Rightarrow> query_log \<Rightarrow> log_entry list" where
  "query_recent G f q =
     (let limit = (if lf_limit f \<le> 0 \<or> 1000 < lf_limit f then 100 else lf_limit f)
      in rev (collect_recent G f limit (rev (fanout_snapshot (ql_fanout q))) []))"

definition query_rotate :: "log_io \<Rightarrow> query_log \<times> log_dir \<Rightarrow> (query_log \<times> log_dir) \<times> string option" where
  "query_rotate io s =
     (case s of (q, d) \<Rightarrow>
        (case ql_rotator q of
           None \<Rightarrow> (s, None)
         | Some r \<Rightarrow> (case rotate_log io r d of (r, d, err) \<Rightarrow> ((q\<lparr>ql_rotator := Some r\<rparr>, d), err))))"

definition query_close :: "log_io \<Rightarrow> query_log \<Rightarrow> query_log \<times> string option" where
  "query_close io q =
     (case ql_rotator q of
        None \<Rightarrow> (q, None)
      | Some r \<Rightarrow> (q\<lparr>ql_rotator := None, ql_enabled := False\<rparr>, snd (rotator_close io r)))"

section \<open>The ring holds the latest entries\<close>

definition ring_holds :: "log_entry list \<Rightarrow> fanout \<Rightarrow> bool" where
  "ring_holds es f \<longleftrightarrow> (let n = length (fo_ring f) in
     n = 0 \<or> (fo_next f = length es mod n \<and> (fo_filled f \<longleftrightarrow> n \<le> length es)
       \<and> (\<forall>k < length es. length es \<le> k + n \<longrightarrow> fo_ring f ! (k mod n) = Some (es ! k))))"

lemma mod_apart:
  assumes "k < m" "m < k + n"
  shows "k mod n \<noteq> m mod (n :: nat)"
proof
  assume "k mod n = m mod n"
  then have "n dvd m - k" using assms(1) mod_eq_dvd_iff_nat [of k m n] by simp
  with assms(1) have "n \<le> m - k" by (intro dvd_imp_le) simp_all
  with assms show False by linarith
qed

lemma ring_holds_publish:
  assumes "ring_holds es f"
  shows "ring_holds (es @ [e]) (publish e f)" "length (fo_ring (publish e f)) = length (fo_ring f)"
proof -
  let ?n = "length (fo_ring f)"
  show len: "length (fo_ring (publish e f)) = ?n" by (simp add: publish_def Let_def)
  show "ring_holds (es @ [e]) (publish e f)"
  proof (cases "?n = 0")
    case False
    with assms have nx: "fo_next f = length es mod ?n" and fl: "fo_filled f \<longleftrightarrow> ?n \<le> length es"
      and ents: "\<And>k. k < length es \<Longrightarrow> length es \<le> k + ?n \<Longrightarrow> fo_ring f ! (k mod ?n) = Some (es ! k)"
      by (auto simp: ring_holds_def Let_def)
    have ring: "fo_ring (publish e f) = (fo_ring f)[length es mod ?n := Some e]"
      "fo_next (publish e f) = Suc (length es) mod ?n"
      "fo_filled (publish e f) \<longleftrightarrow> Suc (length es) mod ?n = 0 \<or> fo_filled f"
      using False by (auto simp: publish_def Let_def nx mod_Suc_eq)
    have "Suc (length es) mod ?n = 0 \<or> ?n \<le> length es \<longleftrightarrow> ?n \<le> Suc (length es)"
      using False by (auto simp: le_Suc_eq mod_less dest: dvd_imp_le)
    moreover have "(fo_ring f)[length es mod ?n := Some e] ! (k mod ?n) = Some ((es @ [e]) ! k)"
      if "k < Suc (length es)" "Suc (length es) \<le> k + ?n" for k
    proof (cases "k = length es")
      case True
      with False show ?thesis by simp
    next
      case neq: False
      with that False have "k mod ?n \<noteq> length es mod ?n" by (intro mod_apart) auto
      with that neq show ?thesis by (simp add: ents nth_append)
    qed
    ultimately show ?thesis
      unfolding ring_holds_def Let_def len ring fl by simp
  qed (simp add: ring_holds_def len)
qed

lemma ring_snapshot:
  assumes "ring_holds es f"
  shows "fanout_snapshot f = take_last (length (fo_ring f)) es"
proof (cases "fo_ring f = []")
  case False
  let ?n = "length (fo_ring f)"
  have n: "0 < ?n" using False by simp
  with assms have nx: "fo_next f = length es mod ?n" and fl: "fo_filled f \<longleftrightarrow> ?n \<le> length es"
    and ents: "\<And>k. k < length es \<Longrightarrow> length es \<le> k + ?n \<Longrightarrow> fo_ring f ! (k mod ?n) = Some (es ! k)"
    by (auto simp: ring_holds_def Let_def)
  show ?thesis
  proof (cases "?n \<le> length es")
    case True
    have le: "fo_next f \<le> ?n" using n by (simp add: nx)
    have "drop (fo_next f) (fo_ring f) @ take (fo_next f) (fo_ring f) = rotate (fo_next f) (fo_ring f)"
      using n by (simp add: rotate_drop_take nx)
    moreover have "map the (rotate (fo_next f) (fo_ring f)) = take_last ?n es"
    proof (rule nth_equalityI)
      show "length (map the (rotate (fo_next f) (fo_ring f))) = length (take_last ?n es)"
        using True by simp
      fix i assume "i < length (map the (rotate (fo_next f) (fo_ring f)))"
      then have i: "i < ?n" by simp
      have "(fo_next f + i) mod ?n = (length es - ?n + i) mod ?n"
        using True by (metis nx mod_add_left_eq le_mod_geq)
      then have "rotate (fo_next f) (fo_ring f) ! i = fo_ring f ! ((length es - ?n + i) mod ?n)"
        using i by (simp add: nth_rotate)
      also have "\<dots> = Some (es ! (length es - ?n + i))" using i True by (intro ents) auto
      finally show "map the (rotate (fo_next f) (fo_ring f)) ! i = take_last ?n es ! i"
        using i True by (simp add: take_last_def)
    qed
    ultimately show ?thesis using False True fl by (simp add: fanout_snapshot_def)
  next
    case short: False
    then have nx': "fo_next f = length es" by (simp add: nx)
    have "map the (take (length es) (fo_ring f)) = es"
    proof (rule nth_equalityI)
      show "length (map the (take (length es) (fo_ring f))) = length es" using short by simp
      fix i assume i: "i < length (map the (take (length es) (fo_ring f)))"
      then have "i < length es" "i < ?n" by simp_all
      with ents [of i] short show "map the (take (length es) (fo_ring f)) ! i = es ! i" by simp
    qed
    with short fl False show ?thesis by (simp add: fanout_snapshot_def nx')
  qed
qed (simp add: fanout_snapshot_def)

datatype fanout_op =
    Publish log_entry
  | Register int bool
  | Send nat "log_entry list"
  | Unsubscribe nat
  | Receive nat

fun fanout_apply :: "fanout_op \<Rightarrow> fanout \<Rightarrow> fanout" where
  "fanout_apply (Publish e) f = publish e f"
| "fanout_apply (Register cap replay) f = fst (subscribe_register cap replay f)"
| "fanout_apply (Send i backlog) f = send_backlog i backlog f"
| "fanout_apply (Unsubscribe i) f = unsubscribe i f"
| "fanout_apply (Receive i) f = receive i f"

fun published :: "fanout_op list \<Rightarrow> log_entry list" where
  "published [] = []"
| "published (Publish e # ops) = e # published ops"
| "published (_ # ops) = published ops"

lemma on_sub_ring [simp]:
  "fo_ring (on_sub i g f) = fo_ring f" "fo_next (on_sub i g f) = fo_next f" "fo_filled (on_sub i g f) = fo_filled f"
  by (simp_all add: on_sub_def split: option.split)

lemma send_backlog_ring [simp]:
  "fo_ring (send_backlog i es f) = fo_ring f" "fo_next (send_backlog i es f) = fo_next f"
  "fo_filled (send_backlog i es f) = fo_filled f"
  by (induction es arbitrary: f) (simp_all add: send_backlog_def)

lemma ring_holds_apply:
  assumes "ring_holds es f"
  shows "ring_holds (es @ published [op]) (fanout_apply op f)
    \<and> length (fo_ring (fanout_apply op f)) = length (fo_ring f)"
proof (cases op)
  case (Publish e)
  with ring_holds_publish [OF assms] show ?thesis by simp
qed (use assms in \<open>simp_all add: ring_holds_def subscribe_register_def unsubscribe_def receive_def Let_def\<close>)

lemma published_snoc: "published (ops @ [op]) = published ops @ published [op]"
  by (induction ops rule: published.induct) (cases op; simp)+

lemma ring_latest:
  "fanout_snapshot (fold fanout_apply ops (new_fanout n)) = take_last (nat n) (published ops)"
proof -
  have "ring_holds (published ops) (fold fanout_apply ops (new_fanout n))
    \<and> length (fo_ring (fold fanout_apply ops (new_fanout n))) = nat n"
  proof (induction ops rule: rev_induct)
    case Nil
    show ?case by (auto simp: ring_holds_def new_fanout_def Let_def)
  next
    case (snoc op ops)
    with ring_holds_apply [of "published ops" "fold fanout_apply ops (new_fanout n)" op]
    show ?case by (simp add: published_snoc)
  qed
  with ring_snapshot show ?thesis by metis
qed

text \<open>Whatever subscribers come, read and go, the ring of recent entries holds exactly the last
  entries published, in order, as many as its size.\<close>

theorem ring_is_latest:
  "fanout_snapshot (fold fanout_apply ops (new_fanout n)) = take_last (nat n) (published ops)"
  by (rule ring_latest)

section \<open>Subscribers see the latest entries\<close>

lemma drop_oldest_send_eq:
  assumes "0 < sb_size ch" "length (sb_queue ch) \<le> sb_size ch"
  shows "drop_oldest_send e ch = ch\<lparr>sb_queue := take_last (sb_size ch) (sb_queue ch @ [e])\<rparr>"
proof (cases "length (sb_queue ch) < sb_size ch")
  case True
  then show ?thesis by (simp add: drop_oldest_send_def)
next
  case False
  with assms have "length (sb_queue ch) = sb_size ch" by simp
  moreover from this have "tl (sb_queue ch) = take_last (sb_size ch - 1) (sb_queue ch)"
    using assms(1) by (simp add: take_last_def drop_Suc)
  ultimately show ?thesis
    using assms(1) by (simp add: drop_oldest_send_def Let_def take_last_snoc)
qed

lemma take_last_take_last: "take_last n (take_last n xs @ ys) = take_last n (xs @ ys)"
  by (cases "n \<le> length xs"; cases "n \<le> length ys") (auto simp: take_last_def add.commute)

lemma sends_eq:
  assumes "0 < n"
  shows "fold drop_oldest_send es \<lparr>sb_size = n, sb_queue = []\<rparr> = \<lparr>sb_size = n, sb_queue = take_last n es\<rparr>"
proof (induction es rule: rev_induct)
  case (snoc e es)
  with assms drop_oldest_send_eq [of "\<lparr>sb_size = n, sb_queue = take_last n es\<rparr>" e] show ?case
    by (simp add: take_last_take_last)
qed simp

lemma publish_sub: "map_of (fo_subs (publish e f)) i = map_option (drop_oldest_send e) (map_of (fo_subs f) i)"
proof -
  have "fo_subs (publish e f) = map (\<lambda>(i, ch). (i, drop_oldest_send e ch)) (fo_subs f)"
    by (simp add: publish_def Let_def)
  then show ?thesis by (simp add: map_of_map)
qed

lemma publish_all_sub:
  "map_of (fo_subs (fold publish es f)) i = map_option (fold drop_oldest_send es) (map_of (fo_subs f) i)"
  by (induction es arbitrary: f)
    (simp_all add: publish_sub option.map_comp o_def option.map_ident id_def)

lemma send_backlog_sub:
  "map_of (fo_subs f) i = Some ch \<Longrightarrow>
     map_of (fo_subs (send_backlog i es f)) i = Some (fold drop_oldest_send es ch)"
  by (induction es arbitrary: f ch) (simp_all add: send_backlog_def on_sub_def)

text \<open>A subscriber who does not keep up loses the oldest entries, never the newest, and blocks nobody:
  what waits in its channel is the end of the recent entries replayed to it followed by everything
  published since, as long as the channel is.\<close>

theorem subscriber_sees_latest:
  "let (f', i) = subscribe cap replay f; n = nat (if cap \<le> 0 then 1 else cap) in
   map_of (fo_subs (fold publish es f')) i =
     Some \<lparr>sb_size = n, sb_queue = take_last n ((if replay then fanout_snapshot f else []) @ es)\<rparr>"
proof -
  define n where "n = nat (if cap \<le> 0 then 1 else cap)"
  have n: "0 < n" by (simp add: n_def)
  let ?b = "if replay then fanout_snapshot f else []"
  let ?f = "f\<lparr>fo_subs := AList.update (fo_fresh f) \<lparr>sb_size = n, sb_queue = []\<rparr> (fo_subs f), fo_fresh := Suc (fo_fresh f)\<rparr>"
  have s: "subscribe cap replay f = (send_backlog (fo_fresh f) ?b ?f, fo_fresh f)"
    by (simp add: subscribe_def subscribe_register_def Let_def n_def)
  have "map_of (fo_subs ?f) (fo_fresh f) = Some \<lparr>sb_size = n, sb_queue = []\<rparr>" by simp
  from send_backlog_sub [OF this, of ?b] show ?thesis
    unfolding s Let_def prod.case n_def [symmetric] publish_all_sub
    using sends_eq [OF n, of "?b @ es"] by simp
qed

text \<open>The backlog is sent after the lock is released: an entry published in between overtakes it.\<close>

lemma backlog_can_be_overtaken:
  assumes "fanout_snapshot f = [old]" "subscribe_register 8 True f = (f', i, backlog)"
  shows "map_option sb_queue (map_of (fo_subs (send_backlog i backlog (publish new f'))) i) = Some [new, old]"
proof -
  have i: "map_of (fo_subs f') i = Some \<lparr>sb_size = 8, sb_queue = []\<rparr>" "backlog = [old]"
    using assms by (auto simp: subscribe_register_def Let_def)
  have "map_of (fo_subs (publish new f')) i = Some \<lparr>sb_size = 8, sb_queue = [new]\<rparr>"
    by (simp add: publish_sub i drop_oldest_send_def)
  from send_backlog_sub [OF this, of backlog] show ?thesis by (simp add: i drop_oldest_send_def)
qed

section \<open>Recent entries\<close>

lemma collect_recent_eq:
  "int (length out) \<le> limit \<Longrightarrow> collect_recent G f limit es out =
     out @ take (nat limit - length out) (filter (entry_matches G f) es)"
proof (induction es arbitrary: out)
  case (Cons e es)
  show ?case
  proof (cases "limit \<le> int (length out)")
    case False
    then have "nat limit - length out = Suc (nat limit - Suc (length out))" by linarith
    with False Cons show ?thesis by simp
  qed (use Cons.prems in simp)
qed simp

fun write_entries ::
  "(string \<Rightarrow> string \<Rightarrow> string) \<Rightarrow> (json \<Rightarrow> string) \<Rightarrow> golib \<Rightarrow> (log_io \<times> log_entry) list
   \<Rightarrow> query_log \<times> log_dir \<Rightarrow> query_log \<times> log_dir" where
  "write_entries hmac render G [] s = s"
| "write_entries hmac render G ((io, e) # ws) s =
     write_entries hmac render G ws (fst (query_write hmac render G io (Some e) s))"

definition logged :: "(string \<Rightarrow> string \<Rightarrow> string) \<Rightarrow> query_log \<Rightarrow> log_io \<times> log_entry \<Rightarrow> log_entry" where
  "logged hmac q w = apply_privacy hmac q
     (if time_is_zero (le_ts (snd w)) then (snd w)\<lparr>le_ts := li_now (fst w)\<rparr> else snd w)"

lemma query_write_logged:
  "query_write hmac render G io (Some e) (q, d) =
     (let entry = logged hmac q (io, e); q = q\<lparr>ql_fanout := publish entry (ql_fanout q)\<rparr> in
      case ql_rotator q of
        None \<Rightarrow> ((q, d), None)
      | Some r \<Rightarrow>
          if \<not> ql_enabled q then ((q, d), None)
          else (case rotator_write io (render (entry_to_json G entry)) r d of
                  (r, d, err) \<Rightarrow> ((q\<lparr>ql_rotator := Some r\<rparr>, d), err)))"
  unfolding query_write_def logged_def option.case prod.case fst_conv snd_conv Let_def ..

lemma query_write_keeps:
  assumes "query_write hmac render G io (Some e) (q, d) = ((q', d'), err)"
  shows "ql_fanout q' = publish (logged hmac q (io, e)) (ql_fanout q)" "ql_mode q' = ql_mode q" "ql_salt q' = ql_salt q"
  using assms by (auto simp: query_write_def logged_def Let_def split: option.splits if_splits prod.splits)

lemma write_entries_fanout:
  "ql_fanout (fst (write_entries hmac render G ws (q, d))) = fold publish (map (logged hmac q) ws) (ql_fanout q)"
proof (induction ws arbitrary: q d)
  case (Cons w ws)
  obtain io e where w: "w = (io, e)" by (cases w)
  obtain q' d' err where q': "query_write hmac render G io (Some e) (q, d) = ((q', d'), err)"
    by (metis prod.exhaust)
  note k = query_write_keeps [OF q']
  have "logged hmac q' = logged hmac q"
    by (simp add: logged_def apply_privacy_def k(2,3) fun_eq_iff)
  with Cons.IH [of q' d'] k(1) show ?case by (simp add: w q')
qed simp

lemma fold_publish: "fold publish es f = fold fanout_apply (map Publish es) f"
  by (induction es arbitrary: f) simp_all

lemma published_map: "published (map Publish es) = es"
  by (induction es) simp_all

text \<open>A query for recent entries returns the newest of the last 256 logged entries that match the
  filter, oldest first, as many as the limit allows (100 for a limit that is not between 1 and
  1000); what is logged is the entry after the privacy mode was applied, and a failing log file
  changes nothing of this.\<close>

theorem query_recent_spec:
  "query_recent G f (fst (write_entries hmac render G ws (q\<lparr>ql_fanout := new_fanout 256\<rparr>, d))) =
     take_last (nat (if lf_limit f \<le> 0 \<or> 1000 < lf_limit f then 100 else lf_limit f))
       (filter (entry_matches G f) (take_last 256 (map (logged hmac q) ws)))"
proof -
  let ?q = "q\<lparr>ql_fanout := new_fanout 256\<rparr>"
  define lim where "lim = (if lf_limit f \<le> 0 \<or> 1000 < lf_limit f then 100 else lf_limit f)"
  have "logged hmac ?q = logged hmac q" by (simp add: logged_def apply_privacy_def fun_eq_iff)
  then have snap: "fanout_snapshot (ql_fanout (fst (write_entries hmac render G ws (?q, d))))
      = take_last 256 (map (logged hmac q) ws)"
    unfolding write_entries_fanout fold_publish
    using ring_latest [of "map Publish (map (logged hmac q) ws)" 256] by (simp add: published_map del: map_map)
  have "0 \<le> lim" by (simp add: lim_def)
  then show ?thesis
    unfolding query_recent_def lim_def [symmetric] Let_def snap
    by (simp add: collect_recent_eq rev_filter [symmetric] take_rev take_last_def)
qed

section \<open>Privacy\<close>

definition without_client :: "log_entry \<Rightarrow> log_entry" where
  "without_client e = e\<lparr>le_client_key := [], le_client_name := [], le_client_group := [], le_client_ip := []\<rparr>"

text \<open>In anonymous mode a log entry tells nothing about the client: two queries that differ only in
  the client's key, address, name and group leave the same ring, the same subscribers' channels
  and the same log file behind.\<close>

theorem anonymous_hides_client:
  assumes "ql_mode q = ''anonymous''" "without_client e = without_client e'"
  shows "query_write hmac render G io (Some e) (q, d) = query_write hmac render G io (Some e') (q, d)"
proof -
  have "le_ts e = le_ts (without_client e)" for e by (simp add: without_client_def)
  then have ts: "le_ts e = le_ts e'" using assms(2) by metis
  have priv: "apply_privacy hmac q (if time_is_zero (le_ts e) then e\<lparr>le_ts := li_now io\<rparr> else e)
      = (if time_is_zero (le_ts e) then (without_client e)\<lparr>le_ts := li_now io\<rparr> else without_client e)" for e
    using assms(1) by (simp add: apply_privacy_def without_client_def)
  have "logged hmac q (io, e) = logged hmac q (io, e')"
    unfolding logged_def fst_conv snd_conv priv by (simp only: ts assms(2))
  then show ?thesis
    unfolding query_write_logged by (simp only:)
qed

text \<open>In hashed mode the client's name and group stay readable.\<close>

lemma hashed_keeps_name:
  "ql_mode q = ''hashed'' \<Longrightarrow> le_client_name (apply_privacy hmac q e) = le_client_name e
     \<and> le_client_group (apply_privacy hmac q e) = le_client_group e"
  by (simp add: apply_privacy_def)


definition lookup_entry :: "string \<Rightarrow> log_entry" where
  "lookup_entry addr = \<lparr>le_ts = 1, le_request_id = [], le_client_key = addr, le_client_name = ''phone'',
     le_client_group = ''kids'', le_client_ip = addr, le_qname = ''example.com.'', le_qtype = ''A'',
     le_qclass = ''IN'', le_rcode = ''NOERROR'', le_answers = [], le_blocked = False, le_block_reason = [],
     le_block_list = [], le_upstream = [], le_cache_hit = False, le_latency_us = 1, le_proto = ''udp''\<rparr>"

definition anonymous_log :: query_log where
  "anonymous_log = \<lparr>ql_rotator = None, ql_enabled = False, ql_mode = ''anonymous'', ql_salt = [],
     ql_fanout = new_fanout 256\<rparr>"

theorem anonymous_hides_client_witness:
  "query_write (\<lambda>_ v. v) (\<lambda>_. []) ascii_lib (log_ok_io []) (Some (lookup_entry ''10.0.0.7'')) (anonymous_log, [])
   = query_write (\<lambda>_ v. v) (\<lambda>_. []) ascii_lib (log_ok_io []) (Some (lookup_entry ''10.0.0.8'')) (anonymous_log, [])
   \<and> lookup_entry ''10.0.0.7'' \<noteq> lookup_entry ''10.0.0.8''"
  using anonymous_hides_client [of anonymous_log "lookup_entry ''10.0.0.7''" "lookup_entry ''10.0.0.8''"]
  by (simp add: anonymous_log_def lookup_entry_def without_client_def)

end
