(* ===== verification/Pipeline.thy ===== *)
theory Pipeline
  imports Policy_Engine Dns_Cache Dns_Synthetic Rate_Limiter Client_Id Upstream_Pool Stats_Counters Query_Log
begin

text \<open>
  \<open>internal/dns/pipeline.go\<close>: what happens to a query, composed of the models of the components.

  The environment of a request holds what the world contributes to it: the clock at each reading,
  the network, the end of the context, the outcome of the log's system calls, the id the context
  carries.  The client store is a key-value store behind \<open>kvops\<close>; the policy engine finds a
  client's group through \<open>en_group_of\<close>.  The counters are never nil (\<open>NewPipelineWithDeps\<close>).
\<close>

record request =
  rq_msg :: "msg option"
  rq_src :: ip
  rq_proto :: string
  rq_started :: gotime
  rq_id :: string

record response =
  rs_msg :: "msg option"
  rs_source :: string
  rs_latency :: duration

record 's pipe_env =
  en_go :: golib
  en_dns :: dnslib
  en_kv :: "'s kvops"
  en_group_of :: "'s \<Rightarrow> string \<Rightarrow> string"
  en_hmac :: "string \<Rightarrow> string \<Rightarrow> string"
  en_render :: "json \<Rightarrow> string"
  en_context_id :: string
  en_start :: gotime
  en_limit :: gotime
  en_touch :: gotime
  en_policy :: gotime
  en_get :: gotime
  en_attempt :: "nat \<Rightarrow> gotime"
  en_put :: gotime
  en_finish :: gotime
  en_logged :: gotime
  en_net :: "nat \<Rightarrow> doh_net"
  en_cancelled :: "nat \<Rightarrow> duration \<Rightarrow> bool"
  en_log_io :: log_io

record 's pipeline =
  pp_config :: "config option"
  pp_cache :: cache
  pp_policy :: "policy_engine option"
  pp_upstream :: "pool option"
  pp_log :: "(query_log \<times> log_dir) option"
  pp_stats :: counters
  pp_client_id :: "client_id option"
  pp_limiter :: "rate_limiter option"
  pp_store :: 's

definition pipeline_reconfigure :: "config option \<Rightarrow> 's pipeline \<Rightarrow> 's pipeline" where
  "pipeline_reconfigure c p =
     (case c of
        None \<Rightarrow> p
      | Some c \<Rightarrow>
          let d = sv_dns (c_server c) in
          p\<lparr>pp_limiter := new_rate_limiter_max (ds_rate_limit_qps d) (ds_rate_limit_burst d)
              (ds_rate_limit_max_buckets d)\<rparr>)"

text \<open>\<open>NewPipelineWithDeps\<close>; the store is the one the client identity writes to.\<close>

definition new_pipeline ::
  "config option \<Rightarrow> cache option \<Rightarrow> policy_engine option \<Rightarrow> pool option \<Rightarrow> (query_log \<times> log_dir) option
   \<Rightarrow> counters option \<Rightarrow> client_id option \<Rightarrow> rate_limiter option \<Rightarrow> 's \<Rightarrow> 's pipeline" where
  "new_pipeline c ca pe up ql st ci rl s =
     (let ca = (case ca of
            None \<Rightarrow> new_cache \<lparr>co_max_entries = 0, co_min_ttl = 0, co_max_ttl = 0, co_negative_ttl = 0\<rparr>
          | Some ca \<Rightarrow> ca);
          st = (case st of None \<Rightarrow> new_counters | Some st \<Rightarrow> st)
      in \<lparr>pp_config = c, pp_cache = ca, pp_policy = pe, pp_upstream = up, pp_log = ql, pp_stats = st,
          pp_client_id = ci, pp_limiter = rl, pp_store = s\<rparr>)"

section \<open>Settings\<close>

definition canonical_qname :: "dnslib \<Rightarrow> string \<Rightarrow> string" where
  "canonical_qname D name = dl_fqdn D (dl_canonical D name)"

definition block_local_ptr :: "config option \<Rightarrow> bool" where
  "block_local_ptr c = (case c of None \<Rightarrow> True | Some c \<Rightarrow> pv_block_local_ptr (c_privacy c))"

definition pipe_strip_ecs :: "config option \<Rightarrow> bool" where
  "pipe_strip_ecs c = (case c of None \<Rightarrow> True | Some c \<Rightarrow> pv_strip_ecs (c_privacy c))"

definition block_options_of :: "config option \<Rightarrow> block_options" where
  "block_options_of c =
     (let opts = \<lparr>bo_response_a = ipv4_zero, bo_response_aaaa = ipv6_zero, bo_ttl = minute,
                  bo_use_nxdomain = False\<rparr> in
      case c of
        None \<Rightarrow> opts
      | Some c \<Rightarrow>
          let b = c_block c;
              opts = (case parse_ip (bc_response_a b) of
                        None \<Rightarrow> opts | Some addr \<Rightarrow> opts\<lparr>bo_response_a := addr\<rparr>);
              opts = (case parse_ip (bc_response_aaaa b) of
                        None \<Rightarrow> opts | Some addr \<Rightarrow> opts\<lparr>bo_response_aaaa := addr\<rparr>)
          in opts\<lparr>bo_ttl := bc_response_ttl b, bo_use_nxdomain := bc_use_nxdomain b\<rparr>)"

definition client_key :: "ip \<Rightarrow> string" where
  "client_key addr = (if addr = [] then [] else ip_string addr)"

definition identity_for :: "client_id option \<Rightarrow> ip \<Rightarrow> dns_identity" where
  "identity_for c addr =
     (case c of
        Some c \<Rightarrow> resolve c addr
      | None \<Rightarrow> \<lparr>di_key = client_key addr, di_type = ''ip'', di_ip = addr\<rparr>)"

section \<open>Strings of the log\<close>

definition qtype_string :: "dnslib \<Rightarrow> u16 \<Rightarrow> string" where
  "qtype_string D t = (let s = dl_type_name D t in if s \<noteq> [] then s else ''TYPE'' @ show_int (uint t))"

definition qclass_string :: "dnslib \<Rightarrow> u16 \<Rightarrow> string" where
  "qclass_string D c = (let s = dl_class_name D c in if s \<noteq> [] then s else ''CLASS'' @ show_int (uint c))"

definition upstream_source :: "string \<Rightarrow> string" where
  "upstream_source source =
     (let p = ''upstream:'' in
      if length p < length source \<and> take (length p) source = p then drop (length p) source else [])"

definition answer_string :: "dnslib \<Rightarrow> rr \<Rightarrow> string list" where
  "answer_string D r =
     (case rr_data r of
        RA addr \<Rightarrow> [ip_string addr]
      | RAAAA addr \<Rightarrow> [ip_string addr]
      | RCNAME target \<Rightarrow> [target]
      | RMX mx \<Rightarrow> [mx]
      | RNS ns \<Rightarrow> [ns]
      | RPTR ptr \<Rightarrow> [ptr]
      | RTXT txts \<Rightarrow> txts
      | _ \<Rightarrow> [dl_rr_string D r])"

definition answer_strings :: "dnslib \<Rightarrow> msg option \<Rightarrow> string list" where
  "answer_strings D m =
     (case m of None \<Rightarrow> [] | Some m \<Rightarrow> concat (map (answer_string D) (m_answer m)))"

section \<open>The stages\<close>

text \<open>\<open>recordUpstreamAttempts\<close>: the \<open>i\<close>-th attempt reads the clock once when it succeeded.\<close>

definition record_attempt :: "(nat \<Rightarrow> gotime) \<Rightarrow> gotime \<Rightarrow> nat \<times> attempt \<Rightarrow> counters \<Rightarrow> counters" where
  "record_attempt clock started ia c =
     (case ia of (i, a) \<Rightarrow>
        let c = on_upstream (at_id a) inc_request c in
        if at_ok a then
          on_upstream (at_id a) (upstream_latency (time_sub (clock i) started)) (on_upstream (at_id a) upstream_success c)
        else
          let c = on_upstream (at_id a) inc_error c in
          if \<not> at_healthy a then on_upstream (at_id a) upstream_unhealthy c else c)"

definition record_upstream_attempts :: "(nat \<Rightarrow> gotime) \<Rightarrow> gotime \<Rightarrow> attempt list \<Rightarrow> counters \<Rightarrow> counters" where
  "record_upstream_attempts clock started attempts c =
     fold (record_attempt clock started) (enumerate 0 attempts) c"

definition log_query ::
  "'s pipe_env \<Rightarrow> request \<Rightarrow> question \<Rightarrow> dns_identity \<Rightarrow> msg \<Rightarrow> string \<Rightarrow> bool \<Rightarrow> string \<Rightarrow> string
   \<Rightarrow> duration \<Rightarrow> 's pipeline \<Rightarrow> 's pipeline" where
  "log_query E r q ident m source blocked reason lst latency p =
     (case pp_log p of
        None \<Rightarrow> p
      | Some ql \<Rightarrow>
          let (name, grp) = (case pp_client_id p of
                None \<Rightarrow> ([], []) | Some c \<Rightarrow> metadata (en_kv E) (en_go E) (di_key ident) (pp_store p));
              entry = \<lparr>le_ts = en_logged E, le_request_id = rq_id r, le_client_key = di_key ident,
                le_client_name = name, le_client_group = grp, le_client_ip = ip_string (di_ip ident),
                le_qname = q_name q, le_qtype = qtype_string (en_dns E) (q_type q),
                le_qclass = qclass_string (en_dns E) (q_class q),
                le_rcode = dl_rcode_name (en_dns E) (m_rcode m),
                le_answers = answer_strings (en_dns E) (Some m), le_blocked = blocked,
                le_block_reason = reason, le_block_list = lst, le_upstream = upstream_source source,
                le_cache_hit = (source = ''cache''), le_latency_us = latency sdiv microsecond,
                le_proto = rq_proto r\<rparr>
          in p\<lparr>pp_log := Some (fst (query_write (en_hmac E) (en_render E) (en_go E) (en_log_io E) (Some entry) ql))\<rparr>)"

text \<open>\<open>finish\<close>: \<open>req\<close> is the request's message, which is not nil here.\<close>

definition finish ::
  "'s pipe_env \<Rightarrow> request \<Rightarrow> msg \<Rightarrow> dns_identity \<Rightarrow> msg \<Rightarrow> string \<Rightarrow> bool \<Rightarrow> string \<Rightarrow> string
   \<Rightarrow> 's pipeline \<Rightarrow> 's pipeline \<times> response" where
  "finish E r req ident m source blocked reason lst p =
     (let m = m\<lparr>m_recursion_available := True\<rparr>;
          latency = time_sub (en_finish E) (rq_started r);
          p = p\<lparr>pp_stats := observe_latency latency (pp_stats p)\<rparr>;
          p = (case m_question req of
                 [] \<Rightarrow> p
               | q # _ \<Rightarrow>
                   let p = p\<lparr>pp_stats := add_client (di_key ident)
                         (add_domain (canonical_qname (en_dns E) (q_name q)) blocked (pp_stats p))\<rparr>
                   in log_query E r q ident m source blocked reason lst latency p)
      in (p, \<lparr>rs_msg = Some m, rs_source = source, rs_latency = latency\<rparr>))"

text \<open>Nothing upstream answered.\<close>

definition fail_query ::
  "'s pipe_env \<Rightarrow> request \<Rightarrow> msg \<Rightarrow> dns_identity \<Rightarrow> cache_key \<Rightarrow> 's pipeline \<Rightarrow> ('s pipeline \<times> response) option" where
  "fail_query E r req ident key p =
     (let resp = synth_rcode (en_dns E) (Some req) rcode_server_failure in
      case cache_put (en_dns E) (en_put E) key (Some resp) (pp_cache p) of
        None \<Rightarrow> None
      | Some c \<Rightarrow>
          Some (finish E r req ident resp ''synthetic'' False ''upstream-error'' [] (p\<lparr>pp_cache := c\<rparr>)))"

definition forward_query ::
  "'s pipe_env \<Rightarrow> request \<Rightarrow> msg \<Rightarrow> dns_identity \<Rightarrow> cache_key \<Rightarrow> 's pipeline \<Rightarrow> ('s pipeline \<times> response) option" where
  "forward_query E r req ident key p =
     (case pp_upstream p of
        None \<Rightarrow> fail_query E r req ident key p
      | Some pool \<Rightarrow>
          let out = (if pipe_strip_ecs (pp_config p) then strip_ecs (Some req) else Some req) in
          (case pool_forward (en_go E) (en_dns E) (en_net E) (en_cancelled E) out pool of
             (pool, attempts, result) \<Rightarrow>
               let p = p\<lparr>pp_upstream := Some pool,
                     pp_stats := record_upstream_attempts (en_attempt E) (rq_started r) attempts (pp_stats p)\<rparr> in
               (case result of
                  Inl e \<Rightarrow> fail_query E r req ident key p
                | Inr (resp, src) \<Rightarrow>
                    (case cache_put (en_dns E) (en_put E) key (Some resp) (pp_cache p) of
                       None \<Rightarrow> None
                     | Some c \<Rightarrow>
                         Some (finish E r req ident resp (''upstream:'' @ src) False [] [] (p\<lparr>pp_cache := c\<rparr>))))))"

definition cached_query ::
  "'s pipe_env \<Rightarrow> request \<Rightarrow> msg \<Rightarrow> dns_identity \<Rightarrow> cache_key \<Rightarrow> 's pipeline \<Rightarrow> ('s pipeline \<times> response) option" where
  "cached_query E r req ident key p =
     (case cache_get (en_dns E) (en_get E) key (Some req) (pp_cache p) of
        (c, Some m) \<Rightarrow>
          Some (finish E r req ident m ''cache'' False [] []
            (p\<lparr>pp_cache := c, pp_stats := inc_cache_hit (pp_stats p)\<rparr>))
      | (c, None) \<Rightarrow>
          forward_query E r req ident key (p\<lparr>pp_cache := c, pp_stats := inc_cache_miss (pp_stats p)\<rparr>))"

definition verdict :: "'s pipe_env \<Rightarrow> dns_identity \<Rightarrow> string \<Rightarrow> 's pipeline \<Rightarrow> decision" where
  "verdict E ident qname p =
     (case pp_policy p of
        None \<Rightarrow> no_decision
      | Some e \<Rightarrow>
          evaluate (en_go E)
            (Some (engine_for (en_group_of E (pp_store p))
              \<lparr>id_key = di_key ident, id_type = di_type ident, id_ip = ip_string (di_ip ident)\<rparr> e))
            qname (en_policy E))"

definition touch_client :: "'s pipe_env \<Rightarrow> dns_identity \<Rightarrow> 's pipeline \<Rightarrow> 's pipeline" where
  "touch_client E ident p =
     (case pp_client_id p of
        None \<Rightarrow> p
      | Some c \<Rightarrow>
          (case touch (en_kv E) (en_go E) ident (en_touch E) (c, pp_store p) of
             ((c, s), _) \<Rightarrow> p\<lparr>pp_client_id := Some c, pp_store := s\<rparr>))"

definition answer_query ::
  "'s pipe_env \<Rightarrow> request \<Rightarrow> msg \<Rightarrow> question \<Rightarrow> dns_identity \<Rightarrow> 's pipeline \<Rightarrow> ('s pipeline \<times> response) option" where
  "answer_query E r req q ident p =
     (let D = en_dns E;
          qname = canonical_qname D (q_name q);
          p = touch_client E ident p in
      case handle_special (en_go E) D req qname (q_type q) (block_local_ptr (pp_config p)) of
        Some resp \<Rightarrow> Some (finish E r req ident resp ''local'' False [] [] p)
      | None \<Rightarrow>
          let key = \<lparr>ck_qname = qname, ck_qtype = q_type q, ck_qclass = q_class q\<rparr>;
              d = verdict E ident qname p in
          if dc_blocked d then
            Some (finish E r req ident (synth_block D (Some req) (q_type q) (block_options_of (pp_config p)))
              ''synthetic'' True (dc_reason d) (dc_list d) (p\<lparr>pp_stats := inc_blocked (pp_stats p)\<rparr>))
          else cached_query E r req ident key p)"

definition handle :: "'s pipe_env \<Rightarrow> request option \<Rightarrow> 's pipeline \<Rightarrow> ('s pipeline \<times> response) option" where
  "handle E r p =
     (case r of
        None \<Rightarrow> Some (p, \<lparr>rs_msg = Some (synth_server_failure (en_dns E) None), rs_source = ''synthetic'', rs_latency = 0\<rparr>)
      | Some r \<Rightarrow>
          (case rq_msg r of
             None \<Rightarrow> Some (p, \<lparr>rs_msg = Some (synth_server_failure (en_dns E) None), rs_source = ''synthetic'', rs_latency = 0\<rparr>)
           | Some req \<Rightarrow>
               let r = r\<lparr>rq_id := (if rq_id r = [] then en_context_id E else rq_id r),
                         rq_started := (if time_is_zero (rq_started r) then en_start E else rq_started r)\<rparr> in
               (case allow_opt (rq_src r) (en_limit E) (pp_limiter p) of
                  (l, False) \<Rightarrow>
                    Some (p\<lparr>pp_limiter := l, pp_stats := inc_rate_limited (pp_stats p)\<rparr>,
                      \<lparr>rs_msg = (if rq_proto r = ''tcp'' then Some (synth_refused (en_dns E) (Some req)) else None),
                       rs_source = ''rate-limit'', rs_latency = 0\<rparr>)
                | (l, True) \<Rightarrow>
                    let p = p\<lparr>pp_limiter := l, pp_stats := inc_query (pp_stats p)\<rparr>;
                        ident = identity_for (pp_client_id p) (rq_src r) in
                    if m_opcode req \<noteq> opcode_query then
                      Some (finish E r req ident (synth_rcode (en_dns E) (Some req) rcode_not_implemented)
                        ''synthetic'' False ''unsupported-opcode'' [] p)
                    else
                      (case m_question req of
                         [] \<Rightarrow> Some (finish E r req ident (synth_rcode (en_dns E) (Some req) rcode_format_error)
                           ''synthetic'' False [] [] p)
                       | q # _ \<Rightarrow>
                           if q_class q \<noteq> class_inet then
                             Some (finish E r req ident (synth_refused (en_dns E) (Some req))
                               ''synthetic'' False ''unsupported-class'' [] p)
                           else answer_query E r req q ident p))))"

section \<open>What a query comes to\<close>

text \<open>The specification: the outcome of a query as a function of the state before it, without the
  threading of counters, logs and caches.\<close>

datatype outcome =
    Limited
  | Synthetic msg
  | Local msg
  | Blocked msg
  | Cached msg
  | Answered string msg
  | Unanswered

definition identified :: "'s pipe_env \<Rightarrow> request \<Rightarrow> 's pipeline \<Rightarrow> dns_identity" where
  "identified E r p = identity_for (pp_client_id p) (rq_src r)"

definition forwarded :: "config option \<Rightarrow> msg \<Rightarrow> msg option" where
  "forwarded c req = (if pipe_strip_ecs c then strip_ecs (Some req) else Some req)"

definition upstream_outcome :: "'s pipe_env \<Rightarrow> msg \<Rightarrow> 's pipeline \<Rightarrow> outcome" where
  "upstream_outcome E req p =
     (case pp_upstream p of
        None \<Rightarrow> Unanswered
      | Some pool \<Rightarrow>
          (case snd (snd (pool_forward (en_go E) (en_dns E) (en_net E) (en_cancelled E)
                            (forwarded (pp_config p) req) pool)) of
             Inl _ \<Rightarrow> Unanswered | Inr (resp, src) \<Rightarrow> Answered src resp))"

definition key_of :: "'s pipe_env \<Rightarrow> question \<Rightarrow> cache_key" where
  "key_of E q = \<lparr>ck_qname = canonical_qname (en_dns E) (q_name q), ck_qtype = q_type q, ck_qclass = q_class q\<rparr>"

definition query_outcome :: "'s pipe_env \<Rightarrow> request \<Rightarrow> msg \<Rightarrow> question \<Rightarrow> 's pipeline \<Rightarrow> outcome" where
  "query_outcome E r req q p =
     (let qname = canonical_qname (en_dns E) (q_name q) in
      case handle_special (en_go E) (en_dns E) req qname (q_type q) (block_local_ptr (pp_config p)) of
        Some resp \<Rightarrow> Local resp
      | None \<Rightarrow>
          if dc_blocked (verdict E (identified E r p) qname (touch_client E (identified E r p) p))
          then Blocked (synth_block (en_dns E) (Some req) (q_type q) (block_options_of (pp_config p)))
          else (case snd (cache_get (en_dns E) (en_get E) (key_of E q) (Some req) (pp_cache p)) of
                  Some m \<Rightarrow> Cached m
                | None \<Rightarrow> upstream_outcome E req p))"

definition outcome_of :: "'s pipe_env \<Rightarrow> request \<Rightarrow> msg \<Rightarrow> 's pipeline \<Rightarrow> outcome" where
  "outcome_of E r req p =
     (if \<not> snd (allow_opt (rq_src r) (en_limit E) (pp_limiter p)) then Limited
      else if m_opcode req \<noteq> opcode_query then
        Synthetic (synth_rcode (en_dns E) (Some req) rcode_not_implemented)
      else (case m_question req of
              [] \<Rightarrow> Synthetic (synth_rcode (en_dns E) (Some req) rcode_format_error)
            | q # _ \<Rightarrow>
                if q_class q \<noteq> class_inet then Synthetic (synth_refused (en_dns E) (Some req))
                else query_outcome E r req q p))"

text \<open>The response an outcome stands for.\<close>

fun outcome_msg :: "dnslib \<Rightarrow> request \<Rightarrow> msg \<Rightarrow> outcome \<Rightarrow> msg option" where
  "outcome_msg D r req Limited = (if rq_proto r = ''tcp'' then Some (synth_refused D (Some req)) else None)"
| "outcome_msg D r req (Synthetic m) = Some (m\<lparr>m_recursion_available := True\<rparr>)"
| "outcome_msg D r req (Local m) = Some (m\<lparr>m_recursion_available := True\<rparr>)"
| "outcome_msg D r req (Blocked m) = Some (m\<lparr>m_recursion_available := True\<rparr>)"
| "outcome_msg D r req (Cached m) = Some (m\<lparr>m_recursion_available := True\<rparr>)"
| "outcome_msg D r req (Answered src m) = Some (m\<lparr>m_recursion_available := True\<rparr>)"
| "outcome_msg D r req Unanswered =
     Some ((synth_rcode D (Some req) rcode_server_failure)\<lparr>m_recursion_available := True\<rparr>)"

fun outcome_source :: "outcome \<Rightarrow> string" where
  "outcome_source Limited = ''rate-limit''"
| "outcome_source (Synthetic m) = ''synthetic''"
| "outcome_source (Local m) = ''local''"
| "outcome_source (Blocked m) = ''synthetic''"
| "outcome_source (Cached m) = ''cache''"
| "outcome_source (Answered src m) = ''upstream:'' @ src"
| "outcome_source Unanswered = ''synthetic''"

definition tally :: "outcome \<Rightarrow> u64 \<times> u64 \<times> u64 \<times> u64 \<times> u64 \<Rightarrow> u64 \<times> u64 \<times> u64 \<times> u64 \<times> u64" where
  "tally o' t = (case t of (nq, nl, nb, nh, nm) \<Rightarrow>
     (case o' of
        Limited \<Rightarrow> (nq, nl + 1, nb, nh, nm)
      | Blocked _ \<Rightarrow> (nq + 1, nl, nb + 1, nh, nm)
      | Cached _ \<Rightarrow> (nq + 1, nl, nb, nh + 1, nm)
      | Answered _ _ \<Rightarrow> (nq + 1, nl, nb, nh, nm + 1)
      | Unanswered \<Rightarrow> (nq + 1, nl, nb, nh, nm + 1)
      | _ \<Rightarrow> (nq + 1, nl, nb, nh, nm)))"

definition tallies :: "counters \<Rightarrow> u64 \<times> u64 \<times> u64 \<times> u64 \<times> u64" where
  "tallies c = (cn_queries c, cn_rate_limited c, cn_blocked c, cn_cache_hit c, cn_cache_miss c)"

lemma tallies_frame [simp]:
  "tallies (observe_latency d c) = tallies c" "tallies (add_client k c) = tallies c"
  "tallies (add_domain n b c) = tallies c" "tallies (on_upstream i f c) = tallies c"
  by (simp_all add: tallies_def observe_latency_def add_client_def add_domain_def on_upstream_def Let_def)

lemma tallies_attempts [simp]: "tallies (record_upstream_attempts clock started attempts c) = tallies c"
proof -
  have "tallies (record_attempt clock started ia c) = tallies c" for ia c
    by (simp add: record_attempt_def Let_def split: prod.split)
  then have "tallies (fold (record_attempt clock started) ias c) = tallies c" for ias
    by (induction ias arbitrary: c) simp_all
  then show ?thesis by (simp add: record_upstream_attempts_def)
qed

text \<open>What \<open>finish\<close> and its callers leave alone.\<close>

definition same_core :: "'s pipeline \<Rightarrow> 's pipeline \<Rightarrow> bool" where
  "same_core p p' \<longleftrightarrow> pp_config p' = pp_config p \<and> pp_policy p' = pp_policy p \<and> pp_upstream p' = pp_upstream p
     \<and> pp_limiter p' = pp_limiter p \<and> pp_cache p' = pp_cache p"

lemma finish_spec:
  "snd (finish E r req ident m source b reason l p) =
     \<lparr>rs_msg = Some (m\<lparr>m_recursion_available := True\<rparr>), rs_source = source,
      rs_latency = time_sub (en_finish E) (rq_started r)\<rparr>"
  "same_core p (fst (finish E r req ident m source b reason l p))"
  "tallies (pp_stats (fst (finish E r req ident m source b reason l p))) = tallies (pp_stats p)"
proof -
  have log: "same_core p (log_query E r q ident m source b reason l d p)
      \<and> pp_stats (log_query E r q ident m source b reason l d p) = pp_stats p" for q m d and p :: "'a pipeline"
    by (simp add: log_query_def same_core_def Let_def split: option.split prod.split)
  show "snd (finish E r req ident m source b reason l p) =
     \<lparr>rs_msg = Some (m\<lparr>m_recursion_available := True\<rparr>), rs_source = source,
      rs_latency = time_sub (en_finish E) (rq_started r)\<rparr>"
    by (simp add: finish_def Let_def)
  show "same_core p (fst (finish E r req ident m source b reason l p))"
    using log by (simp add: finish_def Let_def same_core_def split: list.split)
  show "tallies (pp_stats (fst (finish E r req ident m source b reason l p))) = tallies (pp_stats p)"
    using log by (simp add: finish_def Let_def split: list.split)
qed

lemma finish_cases:
  obtains p' where "finish E r req ident m source b reason l p =
      (p', \<lparr>rs_msg = Some (m\<lparr>m_recursion_available := True\<rparr>), rs_source = source,
        rs_latency = time_sub (en_finish E) (rq_started r)\<rparr>)"
    "same_core p p'" "tallies (pp_stats p') = tallies (pp_stats p)"
  using finish_spec [where E = E and r = r and req = req and ident = ident and m = m and source = source
      and b = b and reason = reason and l = l and p = p]
  by (metis prod.collapse)

fun forwards :: "outcome \<Rightarrow> bool" where
  "forwards (Answered src m) = True"
| "forwards Unanswered = True"
| "forwards o' = False"

definition realizes ::
  "'s pipe_env \<Rightarrow> string \<Rightarrow> msg \<Rightarrow> outcome \<Rightarrow> u64 \<times> u64 \<times> u64 \<times> u64 \<times> u64 \<Rightarrow> 's pipeline
   \<Rightarrow> ('s pipeline \<times> response) option \<Rightarrow> bool" where
  "realizes E proto req o' t p res \<longleftrightarrow> (\<exists>p' resp. res = Some (p', resp)
     \<and> rs_source resp = outcome_source o'
     \<and> (\<forall>r. rq_proto r = proto \<longrightarrow> rs_msg resp = outcome_msg (en_dns E) r req o')
     \<and> cache_ok (pp_cache p') \<and> tallies (pp_stats p') = t
     \<and> pp_config p' = pp_config p \<and> pp_policy p' = pp_policy p
     \<and> (forwards o' \<or> pp_upstream p' = pp_upstream p \<and> set (entries_of (pp_cache p')) \<subseteq> set (entries_of (pp_cache p))))"

lemma realizes_finish:
  assumes "\<And>r. rq_proto r = proto \<Longrightarrow> outcome_msg (en_dns E) r req o' = Some (m\<lparr>m_recursion_available := True\<rparr>)"
    and "outcome_source o' = source" "cache_ok (pp_cache p0)" "tallies (pp_stats p0) = t"
    and "pp_config p0 = pp_config p" "pp_policy p0 = pp_policy p"
    and "forwards o' \<or> pp_upstream p0 = pp_upstream p \<and> set (entries_of (pp_cache p0)) \<subseteq> set (entries_of (pp_cache p))"
  shows "realizes E proto req o' t p (Some (finish E r req ident m source b reason l p0))"
proof -
  obtain p' where f: "finish E r req ident m source b reason l p0 =
      (p', \<lparr>rs_msg = Some (m\<lparr>m_recursion_available := True\<rparr>), rs_source = source,
        rs_latency = time_sub (en_finish E) (rq_started r)\<rparr>)"
    "same_core p0 p'" "tallies (pp_stats p') = tallies (pp_stats p0)"
    by (rule finish_cases)
  show ?thesis
    unfolding realizes_def f(1)
    using f(2,3) assms by (auto simp: same_core_def)
qed

lemma fail_query_realizes:
  assumes "cache_ok (pp_cache p0)" "tallies (pp_stats p0) = t" "pp_config p0 = pp_config p" "pp_policy p0 = pp_policy p"
  shows "realizes E proto req Unanswered t p (fail_query E r req ident key p0)"
proof -
  obtain c where "cache_put (en_dns E) (en_put E) key
      (Some (synth_rcode (en_dns E) (Some req) rcode_server_failure)) (pp_cache p0) = Some c" "cache_ok c"
    using cache_put_refines [OF assms(1)] by blast
  then show ?thesis
    unfolding fail_query_def Let_def by (simp, intro realizes_finish) (simp_all add: assms)
qed

lemma forward_query_realizes:
  assumes "cache_ok (pp_cache p)"
  shows "realizes E proto req (upstream_outcome E req p) (tallies (pp_stats p)) p (forward_query E r req ident key p)"
proof (cases "pp_upstream p")
  case None
  with assms show ?thesis
    by (simp add: forward_query_def upstream_outcome_def fail_query_realizes)
next
  case (Some pool)
  obtain pool' ats res where f: "pool_forward (en_go E) (en_dns E) (en_net E) (en_cancelled E)
      (forwarded (pp_config p) req) pool = (pool', ats, res)"
    by (cases "pool_forward (en_go E) (en_dns E) (en_net E) (en_cancelled E) (forwarded (pp_config p) req) pool") auto
  show ?thesis
  proof (cases res)
    case (Inl e)
    with Some f assms show ?thesis
      by (simp add: forward_query_def upstream_outcome_def forwarded_def [symmetric] Let_def fail_query_realizes)
  next
    case (Inr x)
    obtain m src where x: "x = (m, src)" by (cases x)
    obtain c where c: "cache_put (en_dns E) (en_put E) key (Some m) (pp_cache p) = Some c" "cache_ok c"
      using cache_put_refines [OF assms] by blast
    have out: "upstream_outcome E req p = Answered src m"
      by (simp add: upstream_outcome_def Some f Inr x)
    have fwd: "forward_query E r req ident key p = Some (finish E r req ident m (''upstream:'' @ src) False [] []
        (p\<lparr>pp_upstream := Some pool', pp_stats := record_upstream_attempts (en_attempt E) (rq_started r) ats (pp_stats p),
           pp_cache := c\<rparr>))"
      by (simp add: forward_query_def Some Let_def f [unfolded forwarded_def] Inr x c)
    show ?thesis
      unfolding out fwd by (rule realizes_finish) (simp_all add: c)
  qed
qed

text \<open>The intermediate state differs from the one before the query only where no later decision looks.\<close>

lemma upstream_outcome_cong:
  "pp_upstream p' = pp_upstream p \<Longrightarrow> pp_config p' = pp_config p \<Longrightarrow>
     upstream_outcome E req p' = upstream_outcome E req p"
  by (simp add: upstream_outcome_def split: option.split)

fun count_lookup :: "bool \<Rightarrow> u64 \<times> u64 \<times> u64 \<times> u64 \<times> u64 \<Rightarrow> u64 \<times> u64 \<times> u64 \<times> u64 \<times> u64" where
  "count_lookup found (nq, nl, nb, nh, nm) = (if found then (nq, nl, nb, nh + 1, nm) else (nq, nl, nb, nh, nm + 1))"

lemma realizes_weaken:
  assumes "realizes E proto req o' t p1 res" "pp_config p1 = pp_config p" "pp_policy p1 = pp_policy p"
    and "pp_upstream p1 = pp_upstream p" "set (entries_of (pp_cache p1)) \<subseteq> set (entries_of (pp_cache p))"
  shows "realizes E proto req o' t p res"
  using assms unfolding realizes_def by auto (meson in_mono)

lemma cached_query_realizes:
  assumes "cache_ok (pp_cache p)"
  shows "case snd (cache_get (en_dns E) (en_get E) key (Some req) (pp_cache p)) of
      Some m \<Rightarrow> realizes E proto req (Cached m) (count_lookup True (tallies (pp_stats p))) p (cached_query E r req ident key p)
    | None \<Rightarrow> realizes E proto req (upstream_outcome E req p) (count_lookup False (tallies (pp_stats p))) p
        (cached_query E r req ident key p)"
proof -
  obtain c res where g: "cache_get (en_dns E) (en_get E) key (Some req) (pp_cache p) = (c, res)" by force
  have "cache_ok c" using cache_get_refines [OF assms] g by (metis fst_conv)
  moreover have "set (entries_of c) \<subseteq> set (entries_of (pp_cache p))"
    using cache_get_refines [OF assms, of "en_dns E" "en_get E" key "Some req"] g
    by (auto simp: lru_remove_def find_Some_iff split: option.splits if_splits)
  ultimately have c: "cache_ok c" "set (entries_of c) \<subseteq> set (entries_of (pp_cache p))" .
  show ?thesis
  proof (cases res)
    case (Some m)
    with c show ?thesis
      unfolding cached_query_def g
      by (simp, intro realizes_finish) (simp_all add: tallies_def inc_cache_hit_def)
  next
    case None
    let ?p = "p\<lparr>pp_cache := c, pp_stats := inc_cache_miss (pp_stats p)\<rparr>"
    have "realizes E proto req (upstream_outcome E req ?p) (tallies (pp_stats ?p)) ?p (forward_query E r req ident key ?p)"
      by (rule forward_query_realizes) (simp add: c)
    moreover have "upstream_outcome E req ?p = upstream_outcome E req p" by (rule upstream_outcome_cong) simp_all
    moreover have "tallies (pp_stats ?p) = count_lookup False (tallies (pp_stats p))"
      by (simp add: tallies_def inc_cache_miss_def)
    ultimately have "realizes E proto req (upstream_outcome E req p) (count_lookup False (tallies (pp_stats p))) ?p
        (forward_query E r req ident key ?p)" by simp
    from realizes_weaken [OF this, of p] c(2) None show ?thesis
      unfolding cached_query_def g by simp
  qed
qed

lemma touch_client_frame:
  "pp_config (touch_client E i p) = pp_config p" "pp_policy (touch_client E i p) = pp_policy p"
  "pp_upstream (touch_client E i p) = pp_upstream p" "pp_cache (touch_client E i p) = pp_cache p"
  "pp_stats (touch_client E i p) = pp_stats p" "pp_limiter (touch_client E i p) = pp_limiter p"
  by (simp_all add: touch_client_def split: option.split prod.split)

fun count_outcome :: "outcome \<Rightarrow> u64 \<times> u64 \<times> u64 \<times> u64 \<times> u64 \<Rightarrow> u64 \<times> u64 \<times> u64 \<times> u64 \<times> u64" where
  "count_outcome (Blocked m) (nq, nl, nb, nh, nm) = (nq, nl, nb + 1, nh, nm)"
| "count_outcome (Cached m) (nq, nl, nb, nh, nm) = (nq, nl, nb, nh + 1, nm)"
| "count_outcome (Answered src m) (nq, nl, nb, nh, nm) = (nq, nl, nb, nh, nm + 1)"
| "count_outcome Unanswered (nq, nl, nb, nh, nm) = (nq, nl, nb, nh, nm + 1)"
| "count_outcome o' t = t"

lemma upstream_outcome_cases:
  obtains "upstream_outcome E req p = Unanswered" | src m where "upstream_outcome E req p = Answered src m"
  by (cases "upstream_outcome E req p")
    (auto simp: upstream_outcome_def split: option.splits sum.splits)

lemma answer_query_realizes:
  assumes "cache_ok (pp_cache p)" "identified E r0 p = ident"
  shows "realizes E proto req (query_outcome E r0 req q p) (count_outcome (query_outcome E r0 req q p) (tallies (pp_stats p)))
    p (answer_query E r req q ident p)"
proof -
  let ?n = "canonical_qname (en_dns E) (q_name q)" and ?p = "touch_client E ident p"
  note frame = touch_client_frame [of E ident p]
  have weak: "realizes E proto req o' t p res" if "realizes E proto req o' t ?p res" for o' t res
    using realizes_weaken [OF that, of p] by (simp add: frame)
  show ?thesis
  proof (cases "handle_special (en_go E) (en_dns E) req ?n (q_type q) (block_local_ptr (pp_config p))")
    case (Some m)
    then have q: "query_outcome E r0 req q p = Local m" by (simp add: query_outcome_def)
    have "answer_query E r req q ident p = Some (finish E r req ident m ''local'' False [] [] ?p)"
      using Some by (simp add: answer_query_def frame Let_def)
    then show ?thesis
      unfolding q by (simp, intro realizes_finish) (simp_all add: frame assms)
  next
    case special: None
    show ?thesis
    proof (cases "dc_blocked (verdict E ident ?n ?p)")
      case True
      let ?m = "synth_block (en_dns E) (Some req) (q_type q) (block_options_of (pp_config p))"
      have q: "query_outcome E r0 req q p = Blocked ?m"
        using special True assms(2) by (simp add: query_outcome_def Let_def)
      have a: "answer_query E r req q ident p = Some (finish E r req ident ?m ''synthetic'' True
          (dc_reason (verdict E ident ?n ?p)) (dc_list (verdict E ident ?n ?p)) (?p\<lparr>pp_stats := inc_blocked (pp_stats p)\<rparr>))"
        using special True by (simp add: answer_query_def frame Let_def)
      show ?thesis
        unfolding q a
        by (intro realizes_finish) (simp_all add: frame assms tallies_def inc_blocked_def)
    next
      case False
      have a: "answer_query E r req q ident p = cached_query E r req ident (key_of E q) ?p"
        using special False by (simp add: answer_query_def frame Let_def key_of_def)
      have q: "query_outcome E r0 req q p =
        (case snd (cache_get (en_dns E) (en_get E) (key_of E q) (Some req) (pp_cache ?p)) of
           Some m \<Rightarrow> Cached m | None \<Rightarrow> upstream_outcome E req ?p)"
        using special False assms(2) upstream_outcome_cong [of ?p p E req]
        by (simp add: query_outcome_def Let_def frame cong: option.case_cong)
      have c: "count_lookup False t = count_outcome (upstream_outcome E req ?p) t"
        "count_lookup True t = count_outcome (Cached m) t" for t m
        by (rule upstream_outcome_cases [of E req ?p]; cases t; simp)+
      have "cache_ok (pp_cache ?p)" using assms(1) by (simp add: frame)
      note cq = cached_query_realizes [OF this, where E = E and key = "key_of E q" and req = req
          and proto = proto and r = r and ident = ident]
      show ?thesis
      proof (cases "snd (cache_get (en_dns E) (en_get E) (key_of E q) (Some req) (pp_cache ?p))")
        case None
        with cq weak show ?thesis by (simp add: a q c(1) frame(5))
      next
        case (Some m)
        have "realizes E proto req (Cached m) (count_outcome (Cached m) (tallies (pp_stats p))) ?p
            (cached_query E r req ident (key_of E q) ?p)"
          using cq Some c(2) [of _ m] by (simp only: option.case frame(5))
        from weak [OF this] Some show ?thesis by (simp only: a q option.case)
      qed
    qed
  qed
qed

lemma outcome_msg_cong: "rq_proto r = rq_proto r' \<Longrightarrow> outcome_msg D r req o' = outcome_msg D r' req o'"
  by (cases o') simp_all

lemma tally_count: "o' \<noteq> Limited \<Longrightarrow> tally o' (nq, nl, nb, nh, nm) = count_outcome o' (nq + 1, nl, nb, nh, nm)"
  by (cases o') (simp_all add: tally_def)

lemma query_outcome_not_limited: "query_outcome E r req q p \<noteq> Limited"
  by (rule upstream_outcome_cases [of E req p])
    (simp_all add: query_outcome_def Let_def split: option.split)

lemma handle_realizes:
  assumes "cache_ok (pp_cache p)" "rq_msg r = Some req"
  shows "realizes E (rq_proto r) req (outcome_of E r req p) (tally (outcome_of E r req p) (tallies (pp_stats p))) p
    (handle E (Some r) p)"
proof -
  let ?r = "r\<lparr>rq_id := (if rq_id r = [] then en_context_id E else rq_id r),
              rq_started := (if time_is_zero (rq_started r) then en_start E else rq_started r)\<rparr>"
  obtain l ok where l: "allow_opt (rq_src r) (en_limit E) (pp_limiter p) = (l, ok)" by force
  show ?thesis
  proof (cases ok)
    case False
    then have o': "outcome_of E r req p = Limited" by (simp add: outcome_of_def l)
    show ?thesis
      unfolding o' using assms l False
      by (simp add: handle_def Let_def realizes_def tallies_def tally_def inc_rate_limited_def)
  next
    case True
    let ?p = "p\<lparr>pp_limiter := l, pp_stats := inc_query (pp_stats p)\<rparr>"
    let ?i = "identity_for (pp_client_id p) (rq_src r)"
    have ident: "identified E r p = ?i" "identified E r ?p = ?i" by (simp_all add: identified_def)
    have plus: "tally o' (tallies (pp_stats p)) = count_outcome o' (tallies (pp_stats ?p))" if "o' \<noteq> Limited" for o'
      using that by (simp add: tallies_def tally_count inc_query_def)
    have weak: "realizes E pr req o' t p res" if "realizes E pr req o' t ?p res" for pr o' t res
      using realizes_weaken [OF that, of p] by simp
    have syn: "realizes E (rq_proto r) req (Synthetic m) (tally (Synthetic m) (tallies (pp_stats p))) p
        (Some (finish E ?r req ?i m ''synthetic'' False reason [] ?p))" for m reason
      by (rule weak, rule realizes_finish) (simp_all add: assms plus)
    show ?thesis
    proof (cases "m_opcode req = opcode_query")
      case False
      with True l assms syn show ?thesis
        by (simp add: handle_def outcome_of_def Let_def)
    next
      case op: True
      show ?thesis
      proof (cases "m_question req")
        case Nil
        with op True l assms syn show ?thesis by (simp add: handle_def outcome_of_def Let_def)
      next
        case (Cons q qs)
        show ?thesis
        proof (cases "q_class q = class_inet")
          case False
          with Cons op True l assms syn show ?thesis by (simp add: handle_def outcome_of_def Let_def)
        next
          case cls: True
          have h: "handle E (Some r) p = answer_query E ?r req q ?i ?p"
            using Cons op True cls l assms by (simp add: handle_def Let_def)
          have "upstream_outcome E req ?p = upstream_outcome E req p" by (rule upstream_outcome_cong) simp_all
          moreover have "verdict E ?i n (touch_client E ?i ?p) = verdict E ?i n (touch_client E ?i p)" for n
            by (simp add: verdict_def touch_client_def split: option.split prod.split)
          ultimately have q: "query_outcome E r req q ?p = query_outcome E r req q p"
            by (simp add: query_outcome_def ident Let_def cong: option.case_cong)
          have o': "outcome_of E r req p = query_outcome E r req q p"
            using Cons op True cls l by (simp add: outcome_of_def)
          have "realizes E (rq_proto r) req (query_outcome E r req q ?p)
              (count_outcome (query_outcome E r req q ?p) (tallies (pp_stats ?p))) ?p (answer_query E ?r req q ?i ?p)"
            by (rule answer_query_realizes) (simp_all add: assms ident)
          from weak [OF this] show ?thesis
            unfolding h o' q by (simp only: plus [OF query_outcome_not_limited])
        qed
      qed
    qed
  qed
qed

section \<open>Facts the properties share\<close>

text \<open>Forwarding looks at the network only through the packed query, and what it returns carries the
  query's id.\<close>

lemma try_candidates_cong:
  assumes "\<And>k d url w. dl_pack D q = Some w \<Longrightarrow> net k d url w = net' k d url w"
  shows "try_candidates G D net q cs s = try_candidates G D net' q cs s"
proof -
  have "doh_forward G D (net k) (Some c) (Some q) = doh_forward G D (net' k) (Some c) (Some q)" for k c
    using assms by (simp add: doh_forward_def split: option.split)
  then show ?thesis
    by (induction cs arbitrary: s) (simp_all add: Let_def split: sum.split)
qed

lemma pool_forward_cong:
  assumes "\<And>k d url w. dl_pack D q = Some w \<Longrightarrow> net k d url w = net' k d url w"
  shows "pool_forward G D net cancelled (Some q) p = pool_forward G D net' cancelled (Some q) p"
proof -
  have "forward_rounds G D net cancelled q cs ks s = forward_rounds G D net' cancelled q cs ks s" for cs ks s
    by (induction ks arbitrary: s) (auto simp: try_candidates_cong [OF assms] split: prod.split option.split)
  then show ?thesis by (simp add: pool_forward_def)
qed

lemma doh_forward_id: "doh_forward G D net c (Some q) = Inr resp \<Longrightarrow> m_id resp = m_id q"
  by (auto simp: doh_forward_def check_response_def split: option.splits http_exchange.splits if_splits sum.splits)

lemma try_candidates_id: "try_candidates G D net q cs s = (s', Some (resp, src)) \<Longrightarrow> m_id resp = m_id q"
  by (induction cs arbitrary: s) (auto simp: Let_def doh_forward_id split: sum.splits)

lemma forward_rounds_id: "forward_rounds G D net cancelled q cs ks s = (s', Inr (resp, src)) \<Longrightarrow> m_id resp = m_id q"
  by (induction ks arbitrary: s) (auto simp: try_candidates_id split: prod.splits option.splits if_splits)

lemma upstream_outcome_id:
  assumes "upstream_outcome E req p = Answered src m"
  shows "m_id m = m_id req"
proof -
  obtain q where q: "forwarded (pp_config p) req = Some q" "m_id q = m_id req"
    by (cases "pipe_strip_ecs (pp_config p)") (auto simp: forwarded_def strip_ecs_def)
  show ?thesis
    using assms forward_rounds_id
    by (auto simp: upstream_outcome_def pool_forward_def q split: option.splits sum.splits prod.splits)
qed

lemma cached_id: "snd (cache_get D now key (Some req) c) = Some m \<Longrightarrow> m_id m = m_id req"
  by (auto simp: cache_get_def answer_from_def Let_def split: option.splits if_splits)

lemma synth_rcode_id: "set_reply_ok D \<Longrightarrow> m_id (synth_rcode D (Some req) rc) = m_id req"
  using synth_rcode_reply(1) by (simp add: reply_to_def)

lemma outcome_msg_id:
  assumes "set_reply_ok (en_dns E)" "outcome_msg (en_dns E) r req (outcome_of E r req p) = Some m"
  shows "m_id m = m_id req"
proof -
  have special: "m_id m = m_id req"
    if "handle_special (en_go E) (en_dns E) req n t b = Some m" for n t b m
    using handle_special_reply [OF assms(1) that] by (simp add: reply_to_def)
  have block: "m_id (synth_block (en_dns E) (Some req) t opts) = m_id req" for t opts
    using synth_block_reply [OF assms(1)] by (simp add: reply_to_def)
  have unanswered: "m_id m = m_id req"
    if "outcome_msg (en_dns E) r req (upstream_outcome E req p) = Some m" for m
    using that by (rule_tac upstream_outcome_cases [of E req p])
      (auto simp: synth_rcode_id [OF assms(1)] dest: upstream_outcome_id)
  have query: "m_id m = m_id req" if "outcome_msg (en_dns E) r req (query_outcome E r req q p) = Some m" for q
    using that unanswered
    by (auto simp: query_outcome_def Let_def block dest: special cached_id split: option.splits if_splits)
  show ?thesis
    using assms(2) query
    by (auto simp: outcome_of_def synth_refused_def synth_rcode_id [OF assms(1)] split: if_splits list.splits)
qed

section \<open>Histories\<close>

datatype 's pipe_event = Asked "'s pipe_env" "request option" | Reconfigured "config option"

fun pipe_step :: "'s pipe_event \<Rightarrow> 's pipeline \<Rightarrow> 's pipeline option" where
  "pipe_step (Asked E r) p = map_option fst (handle E r p)"
| "pipe_step (Reconfigured c) p = Some (pipeline_reconfigure c p)"

text \<open>The outcomes of a history, in its order.\<close>

fun pipe_outcomes :: "'s pipe_event list \<Rightarrow> 's pipeline \<Rightarrow> outcome list" where
  "pipe_outcomes [] p = []"
| "pipe_outcomes (x # xs) p =
     (case x of
        Asked E (Some r) \<Rightarrow> (case rq_msg r of Some req \<Rightarrow> [outcome_of E r req p] | None \<Rightarrow> [])
      | _ \<Rightarrow> []) @
     (case pipe_step x p of None \<Rightarrow> [] | Some p' \<Rightarrow> pipe_outcomes xs p')"

lemma pipe_step_ok:
  assumes "cache_ok (pp_cache p)"
  shows "\<exists>p'. pipe_step x p = Some p' \<and> cache_ok (pp_cache p')
    \<and> (\<forall>xs. pipe_outcomes (x # xs) p = pipe_outcomes [x] p @ pipe_outcomes xs p')
    \<and> tallies (pp_stats p') = fold tally (pipe_outcomes [x] p) (tallies (pp_stats p))"
proof (cases x)
  case (Asked E r)
  show ?thesis
  proof (cases "\<exists>r' req. r = Some r' \<and> rq_msg r' = Some req")
    case True
    then obtain r' req where r: "r = Some r'" "rq_msg r' = Some req" by blast
    from handle_realizes [OF assms r(2), of E] Asked r show ?thesis by (auto simp: realizes_def)
  next
    case False
    then have "r = None \<or> (\<exists>r'. r = Some r' \<and> rq_msg r' = None)" by (cases r) auto
    with Asked assms show ?thesis by (auto simp: handle_def)
  qed
next
  case (Reconfigured c)
  with assms show ?thesis
    by (simp add: pipeline_reconfigure_def Let_def split: option.split)
qed

lemma pipe_run_ok:
  "cache_ok (pp_cache p) \<Longrightarrow> \<exists>p'. opt_fold pipe_step xs p = Some p' \<and> cache_ok (pp_cache p')
    \<and> tallies (pp_stats p') = fold tally (pipe_outcomes xs p) (tallies (pp_stats p))"
proof (induction xs arbitrary: p)
  case (Cons x xs)
  from pipe_step_ok [OF Cons.prems, of x] obtain p1 where
    p1: "pipe_step x p = Some p1" "cache_ok (pp_cache p1)"
      "pipe_outcomes (x # xs) p = pipe_outcomes [x] p @ pipe_outcomes xs p1"
      "tallies (pp_stats p1) = fold tally (pipe_outcomes [x] p) (tallies (pp_stats p))" by blast
  from Cons.IH [OF p1(2)] p1 show ?case by (simp del: pipe_outcomes.simps)
qed simp

definition how_many :: "(outcome \<Rightarrow> bool) \<Rightarrow> outcome list \<Rightarrow> u64" where
  "how_many P outs = of_nat (length (filter P outs))"

lemma fold_tally:
  "fold tally outs (nq, nl, nb, nh, nm) =
     (nq + how_many (\<lambda>x. x \<noteq> Limited) outs, nl + how_many (\<lambda>x. x = Limited) outs,
      nb + how_many (\<lambda>x. \<exists>m. x = Blocked m) outs, nh + how_many (\<lambda>x. \<exists>m. x = Cached m) outs,
      nm + how_many forwards outs)"
proof (induction outs arbitrary: nq nl nb nh nm)
  case (Cons x xs)
  have step: "tally x (nq, nl, nb, nh, nm) = (nq + how_many (\<lambda>x. x \<noteq> Limited) [x], nl + how_many (\<lambda>x. x = Limited) [x],
      nb + how_many (\<lambda>x. \<exists>m. x = Blocked m) [x], nh + how_many (\<lambda>x. \<exists>m. x = Cached m) [x],
      nm + how_many forwards [x])"
    by (cases x) (simp_all add: tally_def how_many_def)
  show ?case
    unfolding fold_simps o_apply step Cons.IH by (simp add: how_many_def algebra_simps)
qed (simp add: how_many_def)

section \<open>Properties\<close>


definition bare_env :: "file_store pipe_env" where
  "bare_env = \<lparr>en_go = ascii_lib, en_dns = plain_dns, en_kv = file_ops (\<lambda>_. Saved),
     en_group_of = (\<lambda>_ _. ''default''), en_hmac = (\<lambda>_ v. v), en_render = (\<lambda>_. []),
     en_context_id = [], en_start = 1, en_limit = 1, en_touch = 1, en_policy = 1, en_get = 1,
     en_attempt = (\<lambda>_. 1), en_put = 1, en_finish = 2, en_logged = 2,
     en_net = (\<lambda>_ _ _ _. Exchange_Failed ''unreachable''), en_cancelled = (\<lambda>_ _. False),
     en_log_io = \<lparr>li_now = 1, li_stamp = [], li_mkdir = None, li_open = None, li_stat = None,
       li_close = None, li_rename = None, li_write = (None, None)\<rparr>\<rparr>"

definition bare_pipeline :: "file_store pipeline" where
  "bare_pipeline = \<lparr>pp_config = None,
     pp_cache = new_cache \<lparr>co_max_entries = 2, co_min_ttl = 0, co_max_ttl = 0, co_negative_ttl = 0\<rparr>,
     pp_policy = None, pp_upstream = None, pp_log = None, pp_stats = new_counters, pp_client_id = None,
     pp_limiter = None, pp_store = empty_store\<rparr>"

definition from_lan :: "string \<Rightarrow> request" where
  "from_lan name = \<lparr>rq_msg = Some (ask name type_a), rq_src = [10, 0, 0, 9], rq_proto = ''udp'', rq_started = 1,
     rq_id = []\<rparr>"

lemma bare_cache_ok: "cache_ok (pp_cache bare_pipeline)"
  by (simp add: bare_pipeline_def new_cache_ok)

lemma bare_outcome: "outcome_of bare_env (from_lan ''a.org.'') (ask ''a.org.'' type_a) bare_pipeline = Unanswered"
  by code_simp


text \<open>Whatever stage answers, a response carries the id of the query it answers.\<close>

theorem response_id_matches:
  assumes "set_reply_ok (en_dns E)" "cache_ok (pp_cache p)" "rq_msg r = Some req"
    and "handle E (Some r) p = Some (p', resp)" "rs_msg resp = Some m"
  shows "m_id m = m_id req"
proof -
  have "rs_msg resp = outcome_msg (en_dns E) r req (outcome_of E r req p)"
    using handle_realizes [OF assms(2,3), of E] assms(4) by (auto simp: realizes_def)
  with assms(5) have "outcome_msg (en_dns E) r req (outcome_of E r req p) = Some m" by simp
  then show ?thesis by (rule outcome_msg_id [OF assms(1)])
qed

theorem response_id_matches_witness:
  "\<exists>p' resp m. handle bare_env (Some (from_lan ''a.org.'')) bare_pipeline = Some (p', resp)
     \<and> rs_msg resp = Some m \<and> m_id m = 7"
proof -
  have q: "rq_msg (from_lan ''a.org.'') = Some (ask ''a.org.'' type_a)" "m_id (ask ''a.org.'' type_a) = 7"
    by (simp_all add: from_lan_def ask_def)
  obtain p' resp where h: "handle bare_env (Some (from_lan ''a.org.'')) bare_pipeline = Some (p', resp)"
    "rs_msg resp = outcome_msg (en_dns bare_env) (from_lan ''a.org.'') (ask ''a.org.'' type_a)
       (outcome_of bare_env (from_lan ''a.org.'') (ask ''a.org.'' type_a) bare_pipeline)"
    using handle_realizes [OF bare_cache_ok q(1), of bare_env] by (auto simp: realizes_def)
  then obtain m where m: "rs_msg resp = Some m" by (simp add: bare_outcome)
  have "set_reply_ok (en_dns bare_env)" by (simp add: bare_env_def plain_dns_ok)
  from response_id_matches [OF this bare_cache_ok q(1) h(1) m] h(1) m q(2) show ?thesis by auto
qed

text \<open>C4: While the removal of client-subnet options is on, no upstream can learn one: two networks that
  answer alike every query without such an option - and differ as they like on queries that carry
  one - give the same response, the same log and the same state after every query.\<close>

theorem client_subnet_never_sent:
  assumes "pipe_strip_ecs (pp_config p)"
    and "\<And>q w k d url. dl_pack (en_dns E) q = Some w \<Longrightarrow> \<not> has_ecs q \<Longrightarrow> en_net E k d url w = net' k d url w"
  shows "handle (E\<lparr>en_net := net'\<rparr>) r p = handle E r p"
proof -
  let ?E = "E\<lparr>en_net := net'\<rparr>"
  have log: "log_query ?E = log_query E" by (intro ext) (simp add: log_query_def Let_def split: option.split prod.split)
  have fin: "finish ?E = finish E" by (intro ext) (simp add: finish_def log Let_def split: list.split)
  have fail: "fail_query ?E = fail_query E" by (intro ext) (simp add: fail_query_def fin Let_def split: option.split)
  have forward: "forward_query ?E r' req i k p' = forward_query E r' req i k p'"
    if "pp_config p' = pp_config p" for r' req i k p'
  proof (cases "pp_upstream p'")
    case None
    then show ?thesis by (simp only: forward_query_def fail option.case)
  next
    case (Some pool)
    obtain q where q: "strip_ecs (Some req) = Some q" by (simp add: strip_ecs_def)
    have same: "pool_forward (en_go E) (en_dns E) net' (en_cancelled E) (Some q) pool =
        pool_forward (en_go E) (en_dns E) (en_net E) (en_cancelled E) (Some q) pool"
      using assms(2) strip_ecs_clean [OF q] by (intro pool_forward_cong) simp
    obtain pool' ats res where f: "pool_forward (en_go E) (en_dns E) (en_net E) (en_cancelled E) (Some q) pool
        = (pool', ats, res)" by (rule prod_cases3)
    show ?thesis
      using assms(1) by (cases res) (simp_all add: forward_query_def Some that q same f fail fin Let_def split: prod.split option.split)
  qed
  have cached: "cached_query ?E r' req i k p' = cached_query E r' req i k p'"
    if "pp_config p' = pp_config p" for r' req i k p'
    using that by (cases "cache_get (en_dns E) (en_get E) k (Some req) (pp_cache p')"; cases "snd (cache_get (en_dns E) (en_get E) k (Some req) (pp_cache p'))")
      (simp_all add: cached_query_def fin forward)
  have touch: "touch_client ?E = touch_client E" by (intro ext) (simp add: touch_client_def split: option.split)
  have ver: "verdict ?E = verdict E" by (intro ext) (simp add: verdict_def split: option.split)
  have answer: "answer_query ?E r' req q i p' = answer_query E r' req q i p'"
    if "pp_config p' = pp_config p" for r' req q i p'
    using that by (simp add: answer_query_def touch ver fin cached touch_client_frame Let_def cong: option.case_cong)
  show ?thesis
  proof (cases r)
    case (Some r')
    obtain l ok where "allow_opt (rq_src r') (en_limit E) (pp_limiter p) = (l, ok)" by force
    with Some show ?thesis
      by (cases "rq_msg r'"; cases ok; cases "m_question (the (rq_msg r'))")
        (simp_all add: handle_def fin answer Let_def)
  qed (simp add: handle_def)
qed

definition with_ecs :: msg where
  "with_ecs = (ask ''a.org.'' type_a)\<lparr>m_extra := [\<lparr>rr_name = ''.'', rr_type = type_opt, rr_class = 1232, rr_ttl = 0,
     rr_data = ROPT [\<lparr>eo_code = edns0_subnet, eo_data = ''10.0.0.0/24''\<rparr>]\<rparr>]\<rparr>"

definition ecs_dns :: dnslib where
  "ecs_dns = plain_dns\<lparr>dl_pack := (\<lambda>m. Some (if has_ecs m then ''subnet'' else ''plain''))\<rparr>"

theorem client_subnet_never_sent_witness:
  "has_ecs with_ecs \<and>
   handle (bare_env\<lparr>en_dns := ecs_dns, en_net := \<lambda>_ _ _ w. if w = ''subnet'' then Exchange_Failed ''leak'' else Exchange 500 [] ([], None)\<rparr>)
     (Some ((from_lan ''a.org.'')\<lparr>rq_msg := Some with_ecs\<rparr>)) bare_pipeline
   = handle (bare_env\<lparr>en_dns := ecs_dns, en_net := \<lambda>_ _ _ w. Exchange 500 [] ([], None)\<rparr>)
     (Some ((from_lan ''a.org.'')\<lparr>rq_msg := Some with_ecs\<rparr>)) bare_pipeline"
proof -
  have "pipe_strip_ecs (pp_config bare_pipeline)" by (simp add: bare_pipeline_def pipe_strip_ecs_def)
  from client_subnet_never_sent [OF this, where E = "bare_env\<lparr>en_dns := ecs_dns, en_net := \<lambda>_ _ _ w. Exchange 500 [] ([], None)\<rparr>"
      and net' = "\<lambda>_ _ _ w. if w = ''subnet'' then Exchange_Failed ''leak'' else Exchange 500 [] ([], None)"]
  have "handle (bare_env\<lparr>en_dns := ecs_dns, en_net := \<lambda>_ _ _ w. if w = ''subnet'' then Exchange_Failed ''leak'' else Exchange 500 [] ([], None)\<rparr>)
     r bare_pipeline
   = handle (bare_env\<lparr>en_dns := ecs_dns, en_net := \<lambda>_ _ _ w. Exchange 500 [] ([], None)\<rparr>) r bare_pipeline" for r
    by (simp add: ecs_dns_def split: if_splits)
  moreover have "has_ecs with_ecs" by (simp add: with_ecs_def has_ecs_def)
  ultimately show ?thesis by simp
qed

text \<open>C5: From a new pipeline, whatever its policy, upstreams, log, clients and limiter, every sequence
  of requests and reconfigurations is served to its end, and the counters then say exactly how
  many queries were let in, limited, blocked, answered from the cache and sent upstream, modulo
  the width of the counters.\<close>

theorem pipeline_history_accounted:
  "let p = new_pipeline c None pe up ql None ci rl s; outs = pipe_outcomes steps p in
   \<exists>p'. opt_fold pipe_step steps p = Some p' \<and> cache_ok (pp_cache p')
     \<and> cn_queries (pp_stats p') = how_many (\<lambda>x. x \<noteq> Limited) outs
     \<and> cn_rate_limited (pp_stats p') = how_many (\<lambda>x. x = Limited) outs
     \<and> cn_blocked (pp_stats p') = how_many (\<lambda>x. \<exists>m. x = Blocked m) outs
     \<and> cn_cache_hit (pp_stats p') = how_many (\<lambda>x. \<exists>m. x = Cached m) outs
     \<and> cn_cache_miss (pp_stats p') = how_many forwards outs"
proof -
  let ?p = "new_pipeline c None pe up ql None ci rl s"
  have "cache_ok (pp_cache ?p)" "tallies (pp_stats ?p) = (0, 0, 0, 0, 0)"
    by (simp_all add: new_pipeline_def new_cache_ok tallies_def new_counters_def)
  with pipe_run_ok [of ?p steps] show ?thesis by (auto simp: Let_def fold_tally tallies_def)
qed

end
