(* ===== verification/Dns_Workers.thy ===== *)
theory Dns_Workers
  imports Prelude
begin

text \<open>
  \<open>internal/dns/workers.go\<close>: the worker pool that runs UDP queries.

  The channel of jobs is a bounded queue, each goroutine a worker that is idle, runs a job or has
  returned.  A \<open>select\<close> with several ready cases takes any of them, so the behaviour is a step
  relation whose labels record what happened.  The check of \<open>done\<close> at the start of \<open>Submit\<close> and
  its \<open>select\<close> are not one step in the code: a pool may be closed in between, and the send may
  still win.  So a send needs only room in the queue, a refusal needs a closed pool or, for a
  submission that does not block, a full queue.
\<close>

datatype 'j worker = Idle | Running 'j | Returned

record 'j worker_pool =
  wp_queue :: "'j list"
  wp_capacity :: nat
  wp_workers :: "'j worker list"
  wp_done :: bool
  wp_cancelled :: bool

definition new_worker_pool :: "int \<Rightarrow> int \<Rightarrow> 'j worker_pool" where
  "new_worker_pool n queue =
     (let n = (if n \<le> 0 then 1 else n);
          queue = (if queue \<le> 0 then n * 4 else queue)
      in \<lparr>wp_queue = [], wp_capacity = nat queue, wp_workers = replicate (nat n) Idle, wp_done = False,
          wp_cancelled = False\<rparr>)"

datatype 'j pool_label =
    Submitted 'j bool bool          \<comment> \<open>the job, whether the call blocks, its result\<close>
  | Taken nat 'j
  | Finished nat 'j
  | Stopped nat
  | Closing
  | Cancelling

inductive pool_step :: "'j worker_pool \<Rightarrow> 'j pool_label \<Rightarrow> 'j worker_pool \<Rightarrow> bool" where
  send: "length (wp_queue p) < wp_capacity p \<Longrightarrow>
    pool_step p (Submitted j block True) (p\<lparr>wp_queue := wp_queue p @ [j]\<rparr>)"
| refuse: "wp_done p \<or> \<not> block \<and> length (wp_queue p) = wp_capacity p \<Longrightarrow> pool_step p (Submitted j block False) p"
| take_job: "i < length (wp_workers p) \<Longrightarrow> wp_workers p ! i = Idle \<Longrightarrow> wp_queue p = j # js \<Longrightarrow>
    pool_step p (Taken i j) (p\<lparr>wp_queue := js, wp_workers := (wp_workers p)[i := Running j]\<rparr>)"
| finish_job: "i < length (wp_workers p) \<Longrightarrow> wp_workers p ! i = Running j \<Longrightarrow>
    pool_step p (Finished i j) (p\<lparr>wp_workers := (wp_workers p)[i := Idle]\<rparr>)"
| stop: "i < length (wp_workers p) \<Longrightarrow> wp_workers p ! i = Idle \<Longrightarrow> wp_done p \<or> wp_cancelled p \<Longrightarrow>
    pool_step p (Stopped i) (p\<lparr>wp_workers := (wp_workers p)[i := Returned]\<rparr>)"
| closing: "pool_step p Closing (p\<lparr>wp_done := True\<rparr>)"
| cancelling: "pool_step p Cancelling (p\<lparr>wp_cancelled := True\<rparr>)"

inductive_cases submittedE: "pool_step p (Submitted j block r) p'"
inductive_cases takenE: "pool_step p (Taken i j) p'"
inductive_simps pool_step_finished: "pool_step p (Finished i j) p'"

text \<open>\<open>Close\<close> returns once every worker has returned.\<close>

definition close_returned :: "'j worker_pool \<Rightarrow> bool" where
  "close_returned p \<longleftrightarrow> wp_done p \<and> list_all (\<lambda>w. w = Returned) (wp_workers p)"

inductive pool_trace :: "'j worker_pool \<Rightarrow> 'j pool_label list \<Rightarrow> 'j worker_pool \<Rightarrow> bool" for p where
  start: "pool_trace p [] p"
| step: "pool_trace p ls q \<Longrightarrow> pool_step q l r \<Longrightarrow> pool_trace p (ls @ [l]) r"

definition accepted_jobs :: "'j pool_label list \<Rightarrow> 'j list" where
  "accepted_jobs ls = concat (map (\<lambda>l. case l of Submitted j _ True \<Rightarrow> [j] | _ \<Rightarrow> []) ls)"

definition taken_jobs :: "'j pool_label list \<Rightarrow> 'j list" where
  "taken_jobs ls = concat (map (\<lambda>l. case l of Taken _ j \<Rightarrow> [j] | _ \<Rightarrow> []) ls)"

definition finished_jobs :: "'j pool_label list \<Rightarrow> 'j list" where
  "finished_jobs ls = concat (map (\<lambda>l. case l of Finished _ j \<Rightarrow> [j] | _ \<Rightarrow> []) ls)"

fun running_job :: "'j worker \<Rightarrow> 'j list" where
  "running_job (Running j) = [j]"
| "running_job w = []"

definition running_jobs :: "'j worker_pool \<Rightarrow> 'j list" where
  "running_jobs p = concat (map running_job (wp_workers p))"

lemmas job_lists = accepted_jobs_def taken_jobs_def finished_jobs_def

section \<open>Invariant\<close>

definition pool_inv :: "'j worker_pool \<Rightarrow> 'j pool_label list \<Rightarrow> 'j worker_pool \<Rightarrow> bool" where
  "pool_inv p0 ls p \<longleftrightarrow> accepted_jobs ls = taken_jobs ls @ wp_queue p
     \<and> length (wp_queue p) \<le> wp_capacity p \<and> wp_capacity p = wp_capacity p0
     \<and> length (wp_workers p) = length (wp_workers p0)
     \<and> (\<forall>j. count_list (taken_jobs ls) j = count_list (finished_jobs ls) j + count_list (running_jobs p) j)"

lemma job_lists_snoc [simp]:
  "accepted_jobs (ls @ [l]) = accepted_jobs ls @ (case l of Submitted j _ True \<Rightarrow> [j] | _ \<Rightarrow> [])"
  "taken_jobs (ls @ [l]) = taken_jobs ls @ (case l of Taken _ j \<Rightarrow> [j] | _ \<Rightarrow> [])"
  "finished_jobs (ls @ [l]) = finished_jobs ls @ (case l of Finished _ j \<Rightarrow> [j] | _ \<Rightarrow> [])"
  by (simp_all add: job_lists)

lemma count_running: "count_list (running_jobs p) j = length (filter (\<lambda>w. w = Running j) (wp_workers p))"
proof -
  have "count_list (running_job w) j = (if w = Running j then 1 else 0)" for w by (cases w) auto
  then have "count_list (concat (map running_job ws)) j = length (filter (\<lambda>w. w = Running j) ws)" for ws
    by (induction ws) (simp_all add: count_list_append)
  then show ?thesis by (simp add: running_jobs_def)
qed

lemma filter_update:
  assumes "i < length ws"
  shows "length (filter P (ws[i := w])) + (if P (ws ! i) then 1 else 0) = length (filter P ws) + (if P w then 1 else 0)"
  using assms
proof (induction ws arbitrary: i)
  case (Cons v ws)
  show ?case
  proof (cases i)
    case (Suc k)
    with Cons.IH [of k] Cons.prems show ?thesis by simp
  qed simp
qed simp

lemma running_length: "length (running_jobs p) \<le> length (wp_workers p)"
proof -
  have "length (concat (map running_job ws)) \<le> length ws" for ws :: "'a worker list"
  proof (induction ws)
    case (Cons w ws)
    then show ?case by (cases w) simp_all
  qed simp
  then show ?thesis by (simp add: running_jobs_def)
qed

lemma inv_take:
  assumes "pool_inv p0 ls p" "i < length (wp_workers p)" "wp_workers p ! i = Idle" "wp_queue p = j # js"
  shows "pool_inv p0 (ls @ [Taken i j]) (p\<lparr>wp_queue := js, wp_workers := (wp_workers p)[i := Running j]\<rparr>)"
proof -
  let ?q = "p\<lparr>wp_queue := js, wp_workers := (wp_workers p)[i := Running j]\<rparr>"
  have "count_list (running_jobs ?q) k = count_list (running_jobs p) k + (if j = k then 1 else 0)" for k
    using filter_update [of i "wp_workers p" "\<lambda>w. w = Running k" "Running j"] assms(2,3) by (simp add: count_running)
  with assms show ?thesis by (simp add: pool_inv_def)
qed

lemma inv_finish:
  assumes "pool_inv p0 ls p" "i < length (wp_workers p)" "wp_workers p ! i = Running j"
  shows "pool_inv p0 (ls @ [Finished i j]) (p\<lparr>wp_workers := (wp_workers p)[i := Idle]\<rparr>)"
proof -
  let ?q = "p\<lparr>wp_workers := (wp_workers p)[i := Idle]\<rparr>"
  have "count_list (running_jobs ?q) k + (if j = k then 1 else 0) = count_list (running_jobs p) k" for k
    using filter_update [of i "wp_workers p" "\<lambda>w. w = Running k" Idle] assms(2,3) by (simp add: count_running)
  from this [symmetric] assms(1) show ?thesis by (simp add: pool_inv_def)
qed

lemma inv_stop:
  assumes "pool_inv p0 ls p" "i < length (wp_workers p)" "wp_workers p ! i = Idle"
  shows "pool_inv p0 (ls @ [Stopped i]) (p\<lparr>wp_workers := (wp_workers p)[i := Returned]\<rparr>)"
proof -
  let ?q = "p\<lparr>wp_workers := (wp_workers p)[i := Returned]\<rparr>"
  have "count_list (running_jobs ?q) k = count_list (running_jobs p) k" for k
    using filter_update [of i "wp_workers p" "\<lambda>w. w = Running k" Returned] assms(2,3) by (simp add: count_running)
  with assms show ?thesis by (simp add: pool_inv_def)
qed

lemma inv_others:
  "pool_inv p0 ls p \<Longrightarrow> length (wp_queue p) < wp_capacity p \<Longrightarrow>
     pool_inv p0 (ls @ [Submitted j block True]) (p\<lparr>wp_queue := wp_queue p @ [j]\<rparr>)"
  "pool_inv p0 ls p \<Longrightarrow> pool_inv p0 (ls @ [Submitted j block False]) p"
  "pool_inv p0 ls p \<Longrightarrow> pool_inv p0 (ls @ [Closing]) (p\<lparr>wp_done := True\<rparr>)"
  "pool_inv p0 ls p \<Longrightarrow> pool_inv p0 (ls @ [Cancelling]) (p\<lparr>wp_cancelled := True\<rparr>)"
  by (simp_all add: pool_inv_def running_jobs_def)

lemma pool_inv_step: "pool_inv p0 ls p \<Longrightarrow> pool_step p l p' \<Longrightarrow> pool_inv p0 (ls @ [l]) p'"
  by (erule pool_step.cases) (simp_all only: inv_take inv_finish inv_stop inv_others)

lemma pool_inv_trace:
  assumes "pool_trace p0 ls p" "wp_queue p0 = []" "\<forall>w \<in> set (wp_workers p0). w = Idle"
  shows "pool_inv p0 ls p"
  using assms(1)
proof (induction rule: pool_trace.induct)
  case start
  have "filter (\<lambda>w. w = Running j) (wp_workers p0) = []" for j using assms(3) by (auto simp: filter_empty_conv)
  with assms(2) show ?case by (simp add: pool_inv_def job_lists count_running)
next
  case (step ls q l r)
  then show ?case by (intro pool_inv_step)
qed

section \<open>Properties\<close>

text \<open>C37: Whatever the scheduling, the pool takes the accepted jobs in the order they were accepted and
  each once; what is accepted and not taken waits in the queue, which never holds more than its
  capacity; what is taken is running or finished; and never more jobs run at once than there
  are workers.\<close>

theorem worker_pool_fifo:
  assumes "pool_trace (new_worker_pool n queue) ls p"
  shows "accepted_jobs ls = taken_jobs ls @ wp_queue p \<and> length (wp_queue p) \<le> wp_capacity p
    \<and> length (running_jobs p) \<le> nat (max 1 n)
    \<and> (\<forall>j. count_list (taken_jobs ls) j = count_list (finished_jobs ls) j + count_list (running_jobs p) j)"
proof -
  have "pool_inv (new_worker_pool n queue) ls p"
    by (rule pool_inv_trace [OF assms]) (simp_all add: new_worker_pool_def Let_def)
  moreover have "length (wp_workers (new_worker_pool n queue :: 'a worker_pool)) = nat (max 1 n)"
    by (auto simp: new_worker_pool_def Let_def)
  ultimately show ?thesis using running_length [of p] by (auto simp: pool_inv_def)
qed

theorem worker_pool_fifo_witness:
  "\<exists>p. pool_trace (new_worker_pool 1 2) [Submitted ''a'' False True, Submitted ''b'' False True, Taken 0 ''a''] p
     \<and> wp_queue p = [''b''] \<and> running_jobs p = [''a'']"
proof -
  let ?p0 = "new_worker_pool 1 2 :: string worker_pool"
  let ?p1 = "?p0\<lparr>wp_queue := [''a'']\<rparr>" and ?p2 = "?p0\<lparr>wp_queue := [''a'', ''b'']\<rparr>"
  let ?p3 = "?p0\<lparr>wp_queue := [''b''], wp_workers := [Running ''a'']\<rparr>"
  have "pool_step ?p0 (Submitted ''a'' False True) ?p1"
    using send [of ?p0 "''a''" False] by (simp add: new_worker_pool_def)
  moreover have "pool_step ?p1 (Submitted ''b'' False True) ?p2"
    using send [of ?p1 "''b''" False] by (simp add: new_worker_pool_def)
  moreover have "pool_step ?p2 (Taken 0 ''a'') ?p3"
    using take_job [of 0 ?p2 "''a''" "[''b'']"] by (simp add: new_worker_pool_def)
  ultimately have t: "pool_trace ?p0 [Submitted ''a'' False True, Submitted ''b'' False True, Taken 0 ''a''] ?p3"
    using pool_trace.step [OF pool_trace.step [OF pool_trace.step [OF pool_trace.start]]] by fastforce
  from worker_pool_fifo [OF t] have "[''a'', ''b''] = [''a''] @ wp_queue ?p3"
    by (simp add: accepted_jobs_def taken_jobs_def)
  with t show ?thesis by (auto simp: running_jobs_def intro!: exI [of _ ?p3])
qed

text \<open>Once a pool is closed and its workers have returned, what was still queued is never run.\<close>

lemma closed_pool_runs_nothing:
  assumes "close_returned p" "pool_trace p ls q"
  shows "close_returned q \<and> taken_jobs ls = []"
  using assms(2,1)
proof (induction rule: pool_trace.induct)
  case start
  then show ?case by (simp add: taken_jobs_def)
next
  case (step ls q l r)
  then have c: "close_returned q" "taken_jobs ls = []" by simp_all
  then have "wp_workers q ! i = Returned" if "i < length (wp_workers q)" for i
    using that by (simp add: close_returned_def list_all_length)
  with step(2) c show ?case
    by (cases rule: pool_step.cases) (auto simp: close_returned_def taken_jobs_def)
qed

end
