(* ===== verification/Dns_Server.thy ===== *)
theory Dns_Server
  imports Pipeline Dns_Workers
begin

text \<open>
  \<open>internal/dns/server.go\<close>: the UDP and TCP listeners.

  A UDP packet is one job of the worker pool; handling it is a function of the packet and the
  pipeline.  A TCP connection is the sequence of bytes that arrive on it before the peer closes it
  or its deadline passes; \<open>E i\<close> is the environment of its \<open>i\<close>-th query and \<open>wr k\<close> the outcome of
  the \<open>k\<close>-th write: \<open>None\<close> when all bytes were written, otherwise how many were before the error.
  Starting and stopping work on the listeners' sockets; the world keeps the sockets that are open.
  The buffers of the UDP pool are not modelled: a packet is a value.
\<close>

section \<open>Queries over UDP\<close>

definition dns_request :: "'s pipe_env \<Rightarrow> string \<Rightarrow> ip \<Rightarrow> msg \<Rightarrow> request" where
  "dns_request E proto src m = \<lparr>rq_msg = Some m, rq_src = src, rq_proto = proto, rq_started = en_start E, rq_id = []\<rparr>"

definition count_malformed :: "'s pipeline \<Rightarrow> 's pipeline" where
  "count_malformed p = p\<lparr>pp_stats := inc_malformed (pp_stats p)\<rparr>"

definition handle_udp ::
  "'s pipe_env \<Rightarrow> config \<Rightarrow> ip \<Rightarrow> string \<Rightarrow> 's pipeline \<Rightarrow> ('s pipeline \<times> string option) option" where
  "handle_udp E c src packet p =
     (case dl_unpack (en_dns E) packet of
        None \<Rightarrow> Some (count_malformed p, None)
      | Some m \<Rightarrow>
          (case handle E (Some (dns_request E ''udp'' src m)) p of
             None \<Rightarrow> None
           | Some (p, resp) \<Rightarrow>
               (case rs_msg resp of
                  None \<Rightarrow> Some (p, None)
                | Some r \<Rightarrow> Some (p, pack_udp_response (en_dns E) r (udp_packet_size (ds_udp_size (sv_dns (c_server c))))))))"

section \<open>Queries over TCP\<close>

definition be16 :: "nat \<Rightarrow> string" where
  "be16 n = [char_of (n div 256 mod 256), char_of (n mod 256)]"

definition written :: "nat option \<Rightarrow> string \<Rightarrow> string" where
  "written w bytes = (case w of None \<Rightarrow> bytes | Some k \<Rightarrow> take k bytes)"

text \<open>\<open>uint16(len(wire))\<close> is the length modulo 65536.\<close>

function handle_tcp_conn ::
  "(nat \<Rightarrow> 's pipe_env) \<Rightarrow> ip \<Rightarrow> (nat \<Rightarrow> nat option) \<Rightarrow> nat \<Rightarrow> string \<Rightarrow> 's pipeline \<Rightarrow> string \<Rightarrow> ('s pipeline \<times> string) option"
where
  "handle_tcp_conn E src wr i s p out =
     (case s of
        a # b # rest \<Rightarrow>
          let n = 256 * byte a + byte b in
          if length rest < n then Some (p, out)
          else
            (case dl_unpack (en_dns (E i)) (take n rest) of
               None \<Rightarrow> Some (count_malformed p, out)
             | Some m \<Rightarrow>
                 (case handle (E i) (Some (dns_request (E i) ''tcp'' src m)) p of
                    None \<Rightarrow> None
                  | Some (p, resp) \<Rightarrow>
                      (case rs_msg resp of
                         None \<Rightarrow> Some (p, out)
                       | Some r \<Rightarrow>
                           (case dl_pack (en_dns (E i)) r of
                              None \<Rightarrow> Some (p, out)
                            | Some wire \<Rightarrow>
                                let out = out @ written (wr (2 * i)) (be16 (length wire mod 65536)) in
                                if wr (2 * i) \<noteq> None then Some (p, out)
                                else
                                  let out = out @ written (wr (2 * i + 1)) wire in
                                  if wr (2 * i + 1) \<noteq> None then Some (p, out)
                                  else handle_tcp_conn E src wr (Suc i) (drop n rest) p out))))
      | _ \<Rightarrow> Some (p, out))"
  by pat_completeness auto
termination by (relation "measure (\<lambda>(E, src, wr, i, s, p, out). length s)") auto

declare handle_tcp_conn.simps [simp del]

section \<open>Slots for TCP connections\<close>

record tcp_slots =
  ts_capacity :: nat
  ts_used :: nat

definition acquire_slot :: "tcp_slots option \<Rightarrow> tcp_slots option \<times> bool" where
  "acquire_slot t =
     (case t of
        None \<Rightarrow> (None, True)
      | Some t \<Rightarrow> if ts_used t < ts_capacity t then (Some (t\<lparr>ts_used := ts_used t + 1\<rparr>), True) else (Some t, False))"

definition release_slot :: "tcp_slots option \<Rightarrow> tcp_slots option" where
  "release_slot t =
     (case t of
        None \<Rightarrow> None
      | Some t \<Rightarrow> Some (if 0 < ts_used t then t\<lparr>ts_used := ts_used t - 1\<rparr> else t))"

section \<open>Starting and stopping\<close>

datatype socket = Udp_Socket string | Tcp_Socket string

record start_env =
  st_cpus :: int
  st_resolve_udp :: "string \<Rightarrow> string option"
  st_listen_udp :: "string \<Rightarrow> string option"
  st_resolve_tcp :: "string \<Rightarrow> string option"
  st_listen_tcp :: "string \<Rightarrow> string option"

record listeners =
  ln_config :: "config option"
  ln_has_pipeline :: bool
  ln_deadline :: duration
  ln_workers :: "(ip \<times> string) worker_pool option"
  ln_slots :: "tcp_slots option"
  ln_udp :: "string list"
  ln_tcp :: "string list"
  ln_ready :: bool
  ln_shutdown :: bool

type_synonym sockets = "socket list"

definition new_dns_server :: "config option \<Rightarrow> bool \<Rightarrow> listeners" where
  "new_dns_server c has_pipeline =
     \<lparr>ln_config = c, ln_has_pipeline = has_pipeline,
      ln_deadline = (case c of
         None \<Rightarrow> 30 * second
       | Some c \<Rightarrow> let d = ds_tcp_read_deadline (sv_dns (c_server c)) in if d \<le> 0 then 30 * second else d),
      ln_workers = None, ln_slots = None, ln_udp = [], ln_tcp = [], ln_ready = False, ln_shutdown = False\<rparr>"

definition close_sockets :: "listeners \<Rightarrow> sockets \<Rightarrow> sockets" where
  "close_sockets s open_socks =
     filter (\<lambda>x. x \<notin> set (map Udp_Socket (ln_udp s) @ map Tcp_Socket (ln_tcp s))) open_socks"

definition cleanup_started :: "listeners \<times> sockets \<Rightarrow> listeners \<times> sockets" where
  "cleanup_started so =
     (case so of (s, socks) \<Rightarrow>
        (s\<lparr>ln_ready := False, ln_workers := None, ln_udp := [], ln_tcp := [], ln_slots := None\<rparr>, close_sockets s socks))"

fun bind_all :: "start_env \<Rightarrow> string list \<Rightarrow> listeners \<times> sockets \<Rightarrow> (listeners \<times> sockets) \<times> string option" where
  "bind_all N [] so = (so, None)"
| "bind_all N (addr # addrs) (s, socks) =
     (case st_resolve_udp N addr of Some e \<Rightarrow> ((s, socks), Some e) | None \<Rightarrow>
      case st_listen_udp N addr of Some e \<Rightarrow> ((s, socks), Some e) | None \<Rightarrow>
      let s = s\<lparr>ln_udp := ln_udp s @ [addr]\<rparr>; socks = Udp_Socket addr # socks in
      case st_resolve_tcp N addr of Some e \<Rightarrow> ((s, socks), Some e) | None \<Rightarrow>
      case st_listen_tcp N addr of Some e \<Rightarrow> ((s, socks), Some e) | None \<Rightarrow>
      bind_all N addrs (s\<lparr>ln_tcp := ln_tcp s @ [addr]\<rparr>, Tcp_Socket addr # socks))"

definition start_dns :: "start_env \<Rightarrow> listeners \<times> sockets \<Rightarrow> (listeners \<times> sockets) \<times> string option" where
  "start_dns N so =
     (case so of (s, socks) \<Rightarrow>
        let s = s\<lparr>ln_shutdown := False\<rparr> in
        case ln_config s of
          None \<Rightarrow> (cleanup_started (s, socks), Some ''dns server config is required'')
        | Some c \<Rightarrow>
            if \<not> ln_has_pipeline s then (cleanup_started (s, socks), Some ''dns server pipeline is required'')
            else
              let d = sv_dns (c_server c);
                  workers = (if ds_udp_workers d \<le> 0 then st_cpus N * 4 else ds_udp_workers d);
                  tcp_workers = (if ds_tcp_workers d \<le> 0 then st_cpus N * 4 else ds_tcp_workers d);
                  s = s\<lparr>ln_workers := Some (new_worker_pool workers (workers * 8)),
                        ln_slots := Some \<lparr>ts_capacity = nat tcp_workers, ts_used = 0\<rparr>\<rparr>
              in (case bind_all N (ds_listen d) (s, socks) of
                    (so, Some e) \<Rightarrow> (cleanup_started so, Some e)
                  | ((s, socks), None) \<Rightarrow> ((s\<lparr>ln_ready := ln_udp s \<noteq> [] \<and> ln_tcp s \<noteq> []\<rparr>, socks), None)))"

text \<open>\<open>Shutdown\<close>: first the listeners are closed; the rest follows when the goroutines have returned.
  A second call does nothing but wait.\<close>

definition shutdown_begin :: "listeners \<times> sockets \<Rightarrow> listeners \<times> sockets" where
  "shutdown_begin so =
     (case so of (s, socks) \<Rightarrow>
        if ln_shutdown s then (s, socks) else (s\<lparr>ln_shutdown := True, ln_ready := False\<rparr>, close_sockets s socks))"

definition shutdown_end :: "listeners \<Rightarrow> listeners" where
  "shutdown_end s = s\<lparr>ln_workers := None, ln_udp := [], ln_tcp := [], ln_slots := None\<rparr>"

definition dns_ready :: "listeners option \<Rightarrow> bool" where
  "dns_ready s = (case s of None \<Rightarrow> False | Some s \<Rightarrow> ln_ready s)"

section \<open>Facts\<close>

text \<open>The frames of a TCP stream: each a two-byte length and as many bytes; a cut frame is left out.\<close>

function tcp_frames :: "string \<Rightarrow> string list" where
  "tcp_frames s =
     (case s of
        a # b # rest \<Rightarrow>
          let n = 256 * byte a + byte b in
          if length rest < n then [] else take n rest # tcp_frames (drop n rest)
      | _ \<Rightarrow> [])"
  by pat_completeness auto
termination by (relation "measure length") auto

declare tcp_frames.simps [simp del]

lemma be16_frame:
  assumes "length wire < 65536"
  shows "tcp_frames (be16 (length wire mod 65536) @ wire @ rest) = wire # tcp_frames rest"
proof -
  let ?n = "length wire"
  obtain a b where ab: "be16 (?n mod 65536) = [a, b]" "byte a = ?n div 256" "byte b = ?n mod 256"
    using assms by (simp add: be16_def byte_def)
  have "256 * byte a + byte b = ?n" by (simp add: ab)
  then show ?thesis
    by (simp add: ab(1) tcp_frames.simps [of "a # b # wire @ rest"] Let_def)
qed

lemma handle_keeps_cache:
  assumes "cache_ok (pp_cache p)" "set_reply_ok (en_dns E)"
  shows "\<exists>p' resp. handle E (Some (dns_request E proto src m)) p = Some (p', resp) \<and> cache_ok (pp_cache p')
    \<and> (\<forall>r. rs_msg resp = Some r \<longrightarrow> m_id r = m_id m)"
proof -
  let ?r = "dns_request E proto src m"
  have q: "rq_msg ?r = Some m" by (simp add: dns_request_def)
  obtain p' resp where h: "handle E (Some ?r) p = Some (p', resp)" "cache_ok (pp_cache p')"
      "rs_msg resp = outcome_msg (en_dns E) ?r m (outcome_of E ?r m p)"
    using handle_realizes [OF assms(1) q, of E] unfolding realizes_def by blast
  have "m_id r = m_id m" if "rs_msg resp = Some r" for r
    using outcome_msg_id [OF assms(2)] h(3) that by metis
  with h(1,2) show ?thesis by blast
qed

text \<open>One round of the connection: either it ends with the output it has, or the query was answered
  and the rest of the stream follows.\<close>

lemma tcp_round:
  assumes "cache_ok (pp_cache p)" "set_reply_ok (en_dns (E i))" "\<And>k. wr k = None"
  shows "(\<exists>p'. handle_tcp_conn E src wr i s p out = Some (p', out) \<and> cache_ok (pp_cache p'))
    \<or> (\<exists>query rest q r wire p'. tcp_frames s = query # tcp_frames rest \<and> length rest < length s
        \<and> dl_unpack (en_dns (E i)) query = Some q \<and> m_id r = m_id q \<and> dl_pack (en_dns (E i)) r = Some wire
        \<and> cache_ok (pp_cache p')
        \<and> handle_tcp_conn E src wr i s p out =
            handle_tcp_conn E src wr (Suc i) rest p' (out @ be16 (length wire mod 65536) @ wire))"
    (is "?ends \<or> ?answers")
proof (cases "\<exists>a b t. s = a # b # t \<and> 256 * byte a + byte b \<le> length t")
  case False
  then have "handle_tcp_conn E src wr i s p out = Some (p, out)"
    by (subst handle_tcp_conn.simps) (auto simp: Let_def split: list.split)
  with assms(1) show ?thesis by blast
next
  case True
  then obtain a b t where s: "s = a # b # t" "256 * byte a + byte b \<le> length t" by blast
  let ?n = "256 * byte a + byte b" and ?D = "en_dns (E i)"
  show ?thesis
  proof (cases "dl_unpack ?D (take ?n t)")
    case None
    then have "handle_tcp_conn E src wr i s p out = Some (count_malformed p, out)"
      using s by (subst handle_tcp_conn.simps) (simp add: Let_def)
    moreover have "cache_ok (pp_cache (count_malformed p))" using assms(1) by (simp add: count_malformed_def)
    ultimately show ?thesis by blast
  next
    case (Some q)
    obtain p' resp where h: "handle (E i) (Some (dns_request (E i) ''tcp'' src q)) p = Some (p', resp)"
      "cache_ok (pp_cache p')" "\<forall>r. rs_msg resp = Some r \<longrightarrow> m_id r = m_id q"
      using handle_keeps_cache [OF assms(1,2)] by blast
    show ?thesis
    proof (cases "\<exists>r wire. rs_msg resp = Some r \<and> dl_pack ?D r = Some wire")
      case False
      then have "handle_tcp_conn E src wr i s p out = Some (p', out)"
        using s Some h(1) by (subst handle_tcp_conn.simps) (auto simp: Let_def split: option.split)
      with h(2) show ?thesis by blast
    next
      case True
      then obtain r wire where r: "rs_msg resp = Some r" "dl_pack ?D r = Some wire" by blast
      have "handle_tcp_conn E src wr i s p out =
          handle_tcp_conn E src wr (Suc i) (drop ?n t) p' (out @ be16 (length wire mod 65536) @ wire)"
        using s Some h(1) r assms(3) by (subst handle_tcp_conn.simps) (simp add: Let_def written_def)
      moreover have "tcp_frames s = take ?n t # tcp_frames (drop ?n t)"
        using s by (subst tcp_frames.simps) (simp add: Let_def)
      moreover have "length (drop ?n t) < length s" using s by simp
      ultimately have ?answers using Some h(2,3) r by blast
      then show ?thesis ..
    qed
  qed
qed

definition answers_query :: "dnslib \<Rightarrow> string \<Rightarrow> string \<Rightarrow> bool" where
  "answers_query D query wire \<longleftrightarrow> (\<exists>q r. dl_unpack D query = Some q \<and> dl_pack D r = Some wire \<and> m_id r = m_id q)"

lemma tcp_conn_answers:
  assumes "cache_ok (pp_cache p)" "\<And>i. en_dns (E i) = D" "set_reply_ok D" "\<And>k. wr k = None"
    and "\<And>r w. dl_pack D r = Some w \<Longrightarrow> length w < 65536"
  shows "\<exists>p' new. handle_tcp_conn E src wr i s p out = Some (p', out @ new) \<and> cache_ok (pp_cache p')
    \<and> (\<exists>k. list_all2 (answers_query D) (take k (tcp_frames s)) (tcp_frames new))"
  using assms(1)
proof (induction "length s" arbitrary: s i p out rule: less_induct)
  case less
  note D = assms(2) [of i]
  have "set_reply_ok (en_dns (E i))" using assms(3) D by simp
  from tcp_round [where p = p and E = E and i = i and wr = wr and src = src and s = s and out = out, OF less.prems this assms(4)]
  show ?case
  proof (elim disjE exE conjE)
    fix p'
    assume "handle_tcp_conn E src wr i s p out = Some (p', out)" "cache_ok (pp_cache p')"
    moreover have "tcp_frames [] = []" by (simp add: tcp_frames.simps)
    ultimately show ?thesis by (intro exI [of _ p'] exI [of _ "[]"]) (auto intro!: exI [of _ 0])
  next
    fix query rest q r wire p'
    assume a: "tcp_frames s = query # tcp_frames rest" "length rest < length s" "dl_unpack (en_dns (E i)) query = Some q"
      "m_id r = m_id q" "dl_pack (en_dns (E i)) r = Some wire" "cache_ok (pp_cache p')"
      "handle_tcp_conn E src wr i s p out = handle_tcp_conn E src wr (Suc i) rest p' (out @ be16 (length wire mod 65536) @ wire)"
    let ?new = "be16 (length wire mod 65536) @ wire"
    from less.hyps [OF a(2,6), of "Suc i" "out @ ?new"] obtain p'' new k where
      ih: "handle_tcp_conn E src wr (Suc i) rest p' (out @ ?new) = Some (p'', (out @ ?new) @ new)"
        "cache_ok (pp_cache p'')" "list_all2 (answers_query D) (take k (tcp_frames rest)) (tcp_frames new)" by blast
    have len: "length wire < 65536" using a(5) assms(5) by (simp add: D)
    have "answers_query D query wire" using a(3-5) unfolding answers_query_def D by blast
    with ih(3) be16_frame [OF len, of new]
    have "list_all2 (answers_query D) (take (Suc k) (tcp_frames s)) (tcp_frames (?new @ new))"
      unfolding append_assoc a(1) by simp
    with ih(1,2) a(7) show ?thesis
      by (intro exI [of _ p''] exI [of _ "?new @ new"]) auto
  qed
qed

text \<open>What binding the listeners leaves behind.\<close>

lemma bind_all_spec:
  assumes "bind_all N addrs (s, socks) = ((s', socks'), r)"
  shows "\<exists>us ts. s' = s\<lparr>ln_udp := ln_udp s @ us, ln_tcp := ln_tcp s @ ts\<rparr>
    \<and> set socks' = set socks \<union> Udp_Socket ` set us \<union> Tcp_Socket ` set ts
    \<and> prefix us addrs \<and> prefix ts addrs \<and> (r = None \<longrightarrow> us = addrs \<and> ts = addrs)"
  using assms
proof (induction addrs arbitrary: s socks)
  case Nil
  then show ?case by (intro exI [of _ "[]"]) auto
next
  case (Cons addr addrs)
  let ?s1 = "s\<lparr>ln_udp := ln_udp s @ [addr]\<rparr>"
  consider (none) "st_resolve_udp N addr \<noteq> None \<or> st_listen_udp N addr \<noteq> None"
    | (udp) "st_resolve_udp N addr = None" "st_listen_udp N addr = None"
        "st_resolve_tcp N addr \<noteq> None \<or> st_listen_tcp N addr \<noteq> None"
    | (both) "st_resolve_udp N addr = None" "st_listen_udp N addr = None"
        "st_resolve_tcp N addr = None" "st_listen_tcp N addr = None" by blast
  then show ?case
  proof cases
    case none
    with Cons.prems have "s' = s" "socks' = socks" "r \<noteq> None"
      by (cases "st_resolve_udp N addr"; cases "st_listen_udp N addr"; auto)+
    then show ?thesis by (intro exI [of _ "[]"]) auto
  next
    case udp
    with Cons.prems have "s' = ?s1" "socks' = Udp_Socket addr # socks" "r \<noteq> None"
      by (cases "st_resolve_tcp N addr"; cases "st_listen_tcp N addr"; auto simp: Let_def)+
    then show ?thesis by (intro exI [of _ "[addr]"] exI [of _ "[]"]) auto
  next
    case both
    with Cons.prems have "bind_all N addrs (?s1\<lparr>ln_tcp := ln_tcp s @ [addr]\<rparr>, Tcp_Socket addr # Udp_Socket addr # socks)
        = ((s', socks'), r)" by (simp add: Let_def)
    from Cons.IH [OF this] obtain us ts where
      "s' = s\<lparr>ln_udp := ln_udp s @ addr # us, ln_tcp := ln_tcp s @ addr # ts\<rparr>"
      "set socks' = set (Tcp_Socket addr # Udp_Socket addr # socks) \<union> Udp_Socket ` set us \<union> Tcp_Socket ` set ts"
      "prefix us addrs" "prefix ts addrs" "r = None \<longrightarrow> us = addrs \<and> ts = addrs" by auto
    then show ?thesis by (intro exI [of _ "addr # us"] exI [of _ "addr # ts"]) auto
  qed
qed

lemma set_close_sockets:
  "set (close_sockets s socks) = set socks - (Udp_Socket ` set (ln_udp s) \<union> Tcp_Socket ` set (ln_tcp s))"
  by (auto simp: close_sockets_def)

definition sockets_of :: "string list \<Rightarrow> socket set" where
  "sockets_of addrs = Udp_Socket ` set addrs \<union> Tcp_Socket ` set addrs"

section \<open>Properties\<close>

text \<open>On a TCP connection every query is served to its end, and the bytes written are whole frames:
  the k-th of them answers the k-th query and carries its id, for as long as queries can be read,
  a response fits the two-byte length and the peer takes the bytes.\<close>

theorem tcp_answers_in_order:
  assumes "cache_ok (pp_cache p)" "\<And>i. en_dns (E i) = D" "set_reply_ok D" "\<And>k. wr k = None"
    and "\<And>r w. dl_pack D r = Some w \<Longrightarrow> length w < 65536"
  shows "\<exists>p' out. handle_tcp_conn E src wr 0 s p [] = Some (p', out) \<and> cache_ok (pp_cache p')
    \<and> length (tcp_frames out) \<le> length (tcp_frames s)
    \<and> (\<forall>k < length (tcp_frames out). answers_query D (tcp_frames s ! k) (tcp_frames out ! k))"
proof -
  obtain p' new k where new: "handle_tcp_conn E src wr 0 s p [] = Some (p', new)" "cache_ok (pp_cache p')"
    "list_all2 (answers_query D) (take k (tcp_frames s)) (tcp_frames new)"
    using tcp_conn_answers [OF assms, where out = "[]"] by fastforce
  then have "length (tcp_frames new) \<le> length (tcp_frames s)" by (auto dest: list_all2_lengthD)
  moreover have "answers_query D (tcp_frames s ! j) (tcp_frames new ! j)" if "j < length (tcp_frames new)" for j
  proof -
    have "length (take k (tcp_frames s)) = length (tcp_frames new)" using new(3) by (rule list_all2_lengthD)
    with that have "j < k" "j < length (tcp_frames s)" by (simp_all add: min_def split: if_splits)
    with list_all2_nthD2 [OF new(3) that] show ?thesis by simp
  qed
  ultimately show ?thesis using new(1,2) by blast
qed

definition framed_dns :: dnslib where
  "framed_dns = plain_dns\<lparr>dl_pack := \<lambda>m. Some (be16 (unat (m_id m)))\<rparr>"

theorem tcp_answers_in_order_witness:
  "\<exists>p' out. handle_tcp_conn (\<lambda>_. bare_env\<lparr>en_dns := framed_dns\<rparr>) [10, 0, 0, 9] (\<lambda>_. None) 0
       (be16 6 @ ''a.org.'') bare_pipeline [] = Some (p', out) \<and> length (tcp_frames out) \<le> 1"
proof -
  have "length (tcp_frames (be16 6 @ ''a.org.'')) = 1" by code_simp
  moreover have "set_reply_ok framed_dns"
    using plain_dns_ok by (simp add: framed_dns_def set_reply_ok_def)
  ultimately show ?thesis
    using tcp_answers_in_order [OF bare_cache_ok, where E = "\<lambda>_. bare_env\<lparr>en_dns := framed_dns\<rparr>" and D = framed_dns
        and wr = "\<lambda>_. None" and src = "[10, 0, 0, 9]" and s = "be16 6 @ ''a.org.''"]
    by (simp add: framed_dns_def be16_def) fastforce
qed

text \<open>Without the bound on the length, the two-byte length of a response is wrong.\<close>

lemma long_response_breaks_frame:
  assumes "length wire = 65536 + n" "n < 65536"
  shows "\<exists>frame rest. tcp_frames (be16 (length wire mod 65536) @ wire) = frame # rest \<and> length frame = n"
proof -
  have m: "length wire mod 65536 = n" using assms by simp
  obtain a b where ab: "be16 n = [a, b]" "256 * byte a + byte b = n"
    using assms(2) by (simp add: be16_def byte_def mod_less)
  then show ?thesis
    using assms(1) unfolding m by (simp add: tcp_frames.simps [of "a # b # wire"] Let_def)
qed

text \<open>C38: Starting the listeners is all or nothing: when any address cannot be resolved or bound, every
  socket opened so far is closed again and the server is not ready and has no workers; otherwise a
  UDP and a TCP socket are open on every configured address, the server is ready exactly when
  there is an address, and a later shutdown closes exactly those sockets.\<close>

theorem start_all_or_nothing:
  assumes "set socks \<inter> sockets_of (ds_listen (sv_dns (c_server c))) = {}"
  shows "let addrs = ds_listen (sv_dns (c_server c)) in
    case start_dns N (new_dns_server (Some c) True, socks) of
      ((s', socks'), Some e) \<Rightarrow> set socks' = set socks \<and> \<not> ln_ready s' \<and> ln_workers s' = None \<and> ln_udp s' = [] \<and> ln_tcp s' = []
    | ((s', socks'), None) \<Rightarrow> set socks' = set socks \<union> sockets_of addrs \<and> ln_workers s' \<noteq> None
        \<and> (dns_ready (Some s') \<longleftrightarrow> addrs \<noteq> [])
        \<and> (case shutdown_begin (s', socks') of (s'', socks'') \<Rightarrow>
             set socks'' = set socks \<and> \<not> dns_ready (Some s'') \<and> shutdown_begin (s'', socks'') = (s'', socks''))"
proof -
  define addrs where "addrs = ds_listen (sv_dns (c_server c))"
  define s0 where "s0 = (let d = sv_dns (c_server c);
      workers = (if ds_udp_workers d \<le> 0 then st_cpus N * 4 else ds_udp_workers d);
      tcp_workers = (if ds_tcp_workers d \<le> 0 then st_cpus N * 4 else ds_tcp_workers d) in
    (new_dns_server (Some c) True)\<lparr>ln_workers := Some (new_worker_pool workers (workers * 8)),
      ln_slots := Some \<lparr>ts_capacity = nat tcp_workers, ts_used = 0\<rparr>\<rparr>)"
  have s0: "ln_udp s0 = []" "ln_tcp s0 = []" "ln_workers s0 \<noteq> None" "\<not> ln_shutdown s0"
    by (simp_all add: s0_def new_dns_server_def Let_def)
  obtain s' socks' r where b: "bind_all N addrs (s0, socks) = ((s', socks'), r)" by (metis prod.collapse)
  have start: "start_dns N (new_dns_server (Some c) True, socks) =
      (case r of Some e \<Rightarrow> (cleanup_started (s', socks'), Some e)
       | None \<Rightarrow> ((s'\<lparr>ln_ready := ln_udp s' \<noteq> [] \<and> ln_tcp s' \<noteq> []\<rparr>, socks'), None))"
  proof -
    have "(new_dns_server (Some c) True)\<lparr>ln_shutdown := False\<rparr> = new_dns_server (Some c) True"
      by (simp add: new_dns_server_def)
    with b show ?thesis
      by (simp add: start_dns_def Let_def s0_def addrs_def new_dns_server_def split: option.split)
  qed
  from bind_all_spec [OF b] s0 obtain us ts where spec: "s' = s0\<lparr>ln_udp := us, ln_tcp := ts\<rparr>"
    "set socks' = set socks \<union> Udp_Socket ` set us \<union> Tcp_Socket ` set ts" "prefix us addrs" "prefix ts addrs"
    "r = None \<longrightarrow> us = addrs \<and> ts = addrs" by auto
  have disj: "set socks \<inter> (Udp_Socket ` set us \<union> Tcp_Socket ` set ts) = {}"
    using assms set_mono_prefix [OF spec(3)] set_mono_prefix [OF spec(4)]
    unfolding sockets_of_def addrs_def by blast
  show ?thesis
  proof (cases r)
    case (Some e)
    with spec(1,2) disj show ?thesis
      unfolding start Let_def by (auto simp: cleanup_started_def set_close_sockets)
  next
    case None
    with spec s0 disj show ?thesis
      unfolding start Let_def addrs_def [symmetric]
      by (auto simp: shutdown_begin_def set_close_sockets sockets_of_def dns_ready_def)
  qed
qed

definition bind_env :: "string \<Rightarrow> start_env" where
  "bind_env busy = \<lparr>st_cpus = 4, st_resolve_udp = (\<lambda>_. None), st_listen_udp = (\<lambda>_. None), st_resolve_tcp = (\<lambda>_. None),
     st_listen_tcp = (\<lambda>a. if a = busy then Some ''address in use'' else None)\<rparr>"

definition two_addresses :: config where
  "two_addresses = zero_config\<lparr>c_server := (c_server zero_config)\<lparr>sv_dns := zero_dns_server\<lparr>ds_listen := [''a:53'', ''b:53'']\<rparr>\<rparr>\<rparr>"

theorem start_all_or_nothing_witness:
  "(case start_dns (bind_env ''b:53'') (new_dns_server (Some two_addresses) True, [Tcp_Socket ''b:80'']) of
      ((s', socks'), e) \<Rightarrow> e = Some ''address in use'' \<and> set socks' = {Tcp_Socket ''b:80''})"
proof -
  have "snd (start_dns (bind_env ''b:53'') (new_dns_server (Some two_addresses) True, [Tcp_Socket ''b:80''])) = Some ''address in use''"
    by code_simp
  moreover have "set [Tcp_Socket ''b:80''] \<inter> sockets_of (ds_listen (sv_dns (c_server two_addresses))) = {}"
    by (auto simp: sockets_of_def two_addresses_def zero_config_def zero_dns_server_def)
  ultimately show ?thesis
    using start_all_or_nothing [where c = two_addresses and socks = "[Tcp_Socket ''b:80'']" and N = "bind_env ''b:53''"]
    by (auto simp: Let_def split: prod.splits)
qed

end
