(* ===== verification/Config_Validate.thy ===== *)
theory Config_Validate
  imports Policy_Engine Go_Net
begin

text \<open>
  \<open>internal/config/validate.go\<close>: the checks of a configuration.  \<open>Validate\<close> collects problems and
  joins them; here it returns the list, empty for the nil error.  A problem is what \<open>errf\<close> is
  given: the path, the format and its arguments.

  The URL parser, the address resolver and the file system answer through \<open>val_env\<close>.
\<close>

type_synonym problem = "string \<times> string \<times> string list"

record val_env =
  ve_go :: golib
  ve_url :: "string \<Rightarrow> (string \<times> string) option"   \<comment> \<open>scheme and host of \<open>url.Parse\<close>\<close>
  ve_udp_addr :: "string \<Rightarrow> bool"                  \<comment> \<open>\<open>net.ResolveUDPAddr\<close> succeeds\<close>
  ve_tcp_addr :: "string \<Rightarrow> bool"
  ve_mkdir :: "string \<Rightarrow> string option"            \<comment> \<open>the error of creating the data directory\<close>
  ve_mkdir_logs :: "string \<Rightarrow> string option"       \<comment> \<open>the error of creating its logs directory\<close>

section \<open>Names, clocks, domains\<close>

definition one_of :: "string \<Rightarrow> string list \<Rightarrow> bool" where
  "one_of v opts = list_ex (\<lambda>opt. v = opt) opts"

definition valid_clock :: "string \<Rightarrow> bool" where
  "valid_clock v \<longleftrightarrow> parse_clock v \<noteq> None"

definition valid_domain_pattern :: "golib \<Rightarrow> string \<Rightarrow> bool" where
  "valid_domain_pattern G v =
     (let v = trim_suffix ''.'' (trim_space v);
          v = (if prefix ''*.'' v then drop 2 v else v) in
      if \<not> valid_utf8 v \<or> v = [] \<or> suffix ''.'' v \<or> contains_space v then False
      else
        (case g_idna G v of
           None \<Rightarrow> False
         | Some a \<Rightarrow>
             let ascii = to_lower G (trim_suffix ''.'' a) in
             if ascii = [] \<or> 253 < length ascii \<or> contains_space ascii then False
             else
               (case g_idna G ascii of
                  None \<Rightarrow> False
                | Some again \<Rightarrow>
                    if to_lower G (trim_suffix ''.'' again) \<noteq> ascii then False
                    else list_all valid_label (split_on (CHR ''.'') ascii))))"

definition valid_cookie_name :: "string \<Rightarrow> bool" where
  "valid_cookie_name v =
     (v \<noteq> [] \<and> list_all (\<lambda>c. 0x21 \<le> byte c \<and> byte c \<le> 0x7e
        \<and> c \<notin> set ''()<>@,;:/[]?={}'' \<and> byte c \<notin> {92, 34}) v)"

section \<open>The loops\<close>

definition index_path :: "string \<Rightarrow> nat \<Rightarrow> string" where
  "index_path p i = p @ ''['' @ show_nat i @ '']''"

definition id_problems :: "string \<Rightarrow> string list \<Rightarrow> string \<Rightarrow> problem list" where
  "id_problems path seen v =
     (if v = [] then [(path, ''required'', [])]
      else if v \<in> set seen then [(path, ''duplicate %q'', [v])] else [])"

definition note_id :: "string list \<Rightarrow> string \<Rightarrow> string list" where
  "note_id seen v = (if v = [] \<or> v \<in> set seen then seen else v # seen)"

text \<open>A loop over the entries of a section: the problems of each, and the names seen so far.\<close>

fun each ::
  "(nat \<Rightarrow> string list \<Rightarrow> 'a \<Rightarrow> problem list) \<Rightarrow> (string list \<Rightarrow> 'a \<Rightarrow> string list) \<Rightarrow> nat \<Rightarrow> string list
   \<Rightarrow> 'a list \<Rightarrow> problem list \<times> string list" where
  "each check note i seen [] = ([], seen)"
| "each check note i seen (x # xs) =
     (let (ps, seen') = each check note (Suc i) (note seen x) xs in (check i seen x @ ps, seen'))"

definition each_problem :: "(nat \<Rightarrow> 'a \<Rightarrow> problem list) \<Rightarrow> 'a list \<Rightarrow> problem list" where
  "each_problem check xs = fst (each (\<lambda>i _. check i) (\<lambda>seen _. seen) 0 [] xs)"

definition when_bad :: "bool \<Rightarrow> string \<Rightarrow> string \<Rightarrow> string list \<Rightarrow> problem list" where
  "when_bad bad path format args = (if bad then [(path, format, args)] else [])"

section \<open>The sections of the configuration\<close>

definition validate_blocklist :: "val_env \<Rightarrow> nat \<Rightarrow> string list \<Rightarrow> blocklist \<Rightarrow> problem list" where
  "validate_blocklist E i seen b =
     (let path = index_path ''blocklists'' i in
      id_problems (path @ ''.id'') seen (bl_id b)
      @ when_bad (bl_enabled b \<and> bl_url b = []) (path @ ''.url'') ''required when enabled is true'' []
      @ (if bl_url b \<noteq> [] then
           (case ve_url E (bl_url b) of
              None \<Rightarrow> [(path @ ''.url'', ''must be a valid URL'', [])]
            | Some (scheme, host) \<Rightarrow>
                if scheme = [] then [(path @ ''.url'', ''must be a valid URL'', [])]
                else when_bad (\<not> one_of scheme [''http'', ''https'', ''file'']) (path @ ''.url'')
                       ''must use http, https, or file scheme'' [])
         else [])
      @ when_bad (bl_refresh_interval b < 0) (path @ ''.refresh_interval'') ''must be >= 0'' [])"

definition day_tokens :: "string list" where
  "day_tokens = [''mon'', ''tue'', ''wed'', ''thu'', ''fri'', ''sat'', ''sun'', ''all'', ''weekday'', ''weekend'']"

definition validate_schedule :: "golib \<Rightarrow> string list \<Rightarrow> string \<Rightarrow> nat \<Rightarrow> schedule \<Rightarrow> problem list" where
  "validate_schedule G ids group_path j s =
     (let path = index_path (group_path @ ''.schedules'') j in
      when_bad (sc_name s = []) (path @ ''.name'') ''required'' []
      @ when_bad (\<not> valid_clock (sc_from s)) (path @ ''.from'') ''must be HH:MM'' []
      @ when_bad (\<not> valid_clock (sc_to s)) (path @ ''.to'') ''must be HH:MM'' []
      @ when_bad (sc_days s = []) (path @ ''.days'') ''required'' []
      @ each_problem (\<lambda>k day. when_bad (\<not> one_of (to_lower G day) day_tokens)
            (index_path (path @ ''.days'') k) ''unknown day token %q'' [day]) (sc_days s)
      @ each_problem (\<lambda>k i. when_bad (i \<notin> set ids)
            (index_path (path @ ''.block'') k) ''unknown blocklist %q'' [i]) (sc_block s))"

definition validate_group :: "golib \<Rightarrow> string list \<Rightarrow> nat \<Rightarrow> string list \<Rightarrow> group_config \<Rightarrow> problem list" where
  "validate_group G ids i seen g =
     (let path = index_path ''groups'' i in
      when_bad (gc_name g = []) (path @ ''.name'') ''required'' []
      @ when_bad (gc_name g \<noteq> [] \<and> gc_name g \<in> set seen) (path @ ''.name'') ''duplicate %q'' [gc_name g]
      @ each_problem (\<lambda>j x. when_bad (x \<notin> set ids)
            (index_path (path @ ''.blocklists'') j) ''unknown blocklist %q'' [x]) (gc_blocklists g)
      @ each_problem (\<lambda>j d. when_bad (\<not> valid_domain_pattern G d)
            (index_path (path @ ''.allowlist'') j) ''invalid domain pattern %q'' [d]) (gc_allowlist g)
      @ each_problem (validate_schedule G ids path) (gc_schedules g))"

definition validate_client :: "string list \<Rightarrow> nat \<Rightarrow> string list \<Rightarrow> client_config \<Rightarrow> problem list" where
  "validate_client group_names i seen c =
     (let path = index_path ''clients'' i in
      id_problems (path @ ''.key'') seen (kc_key c)
      @ when_bad (kc_group c \<noteq> [] \<and> kc_group c \<notin> set group_names) (path @ ''.group'')
          ''unknown group %q'' [kc_group c]
      @ when_bad (kc_type c \<noteq> [] \<and> \<not> one_of (kc_type c) [''ip'', ''mac'']) (path @ ''.type'') ''must be ip or mac'' []
      @ when_bad (kc_key c \<noteq> [] \<and> kc_type c = ''ip'' \<and> parse_ip (kc_key c) = None) (path @ ''.key'')
          ''must be an IP address when type is ip'' []
      @ when_bad (kc_key c \<noteq> [] \<and> kc_type c = ''mac'' \<and> parse_mac (kc_key c) = None) (path @ ''.key'')
          ''must be a MAC address when type is mac'' [])"

definition validate_upstream :: "val_env \<Rightarrow> nat \<Rightarrow> string list \<Rightarrow> upstream \<Rightarrow> problem list" where
  "validate_upstream E i seen u =
     (let path = index_path ''upstreams'' i in
      id_problems (path @ ''.id'') seen (up_id u)
      @ (if up_url u = [] then [(path @ ''.url'', ''required'', [])]
         else (case ve_url E (up_url u) of
                 None \<Rightarrow> [(path @ ''.url'', ''must be an https URL'', [])]
               | Some (scheme, host) \<Rightarrow>
                   when_bad (scheme \<noteq> ''https'' \<or> host = []) (path @ ''.url'') ''must be an https URL'' []))
      @ when_bad (up_bootstrap u = []) (path @ ''.bootstrap'') ''at least one bootstrap IP is required'' []
      @ each_problem (\<lambda>j ip. when_bad (parse_ip ip = None) (index_path (path @ ''.bootstrap'') j)
            ''invalid IP %q'' [ip]) (up_bootstrap u)
      @ when_bad (up_timeout u < 0) (path @ ''.timeout'') ''must be >= 0'' [])"

definition validate_user :: "nat \<Rightarrow> string list \<Rightarrow> user \<Rightarrow> problem list" where
  "validate_user i seen u =
     (let path = index_path ''auth.users'' i in
      id_problems (path @ ''.username'') seen (us_username u)
      @ when_bad (us_password_hash u = []) (path @ ''.password_hash'') ''required'' [])"

definition validate_listeners :: "val_env \<Rightarrow> server \<Rightarrow> problem list" where
  "validate_listeners E s =
     (let h = sv_http s in
      (if hs_tls h then
         when_bad (hs_cert_file h = []) ''server.http.cert_file'' ''required when tls is true'' []
         @ when_bad (hs_key_file h = []) ''server.http.key_file'' ''required when tls is true'' []
       else [])
      @ each_problem (\<lambda>i addr. when_bad (\<not> ve_udp_addr E addr) (index_path ''server.dns.listen'' i)
            ''invalid address %q'' [addr]) (ds_listen (sv_dns s))
      @ when_bad (hs_listen h \<noteq> [] \<and> \<not> ve_tcp_addr E (hs_listen h)) ''server.http.listen''
          ''invalid address %q'' [hs_listen h]
      @ when_bad (sv_store_backend s \<noteq> [] \<and> \<not> one_of (sv_store_backend s) [''json'', ''sqlite'']) ''server.store_backend''
          ''unsupported %q; supported values: json, sqlite'' [sv_store_backend s])"

definition validate_limits :: "server \<Rightarrow> problem list" where
  "validate_limits s =
     (let d = sv_dns s in
      when_bad (ds_rate_limit_qps d < 0) ''server.dns.rate_limit_qps'' ''must be >= 0'' []
      @ when_bad (ds_rate_limit_burst d < 0) ''server.dns.rate_limit_burst'' ''must be >= 0'' []
      @ when_bad (0 < ds_rate_limit_qps d \<and> ds_rate_limit_burst d < ds_rate_limit_qps d)
          ''server.dns.rate_limit_burst'' ''must be >= rate_limit_qps'' []
      @ when_bad (hs_rate_limit_per_minute (sv_http s) < 0) ''server.http.rate_limit_per_minute'' ''must be >= 0'' []
      @ when_bad (ds_udp_workers d < 0) ''server.dns.udp_workers'' ''must be >= 0'' []
      @ when_bad (ds_tcp_workers d < 0) ''server.dns.tcp_workers'' ''must be >= 0'' []
      @ (if ds_udp_size d < 0 then [(''server.dns.udp_size'', ''must be >= 0'', [])]
         else when_bad (65535 < ds_udp_size d) ''server.dns.udp_size'' ''must be <= 65535'' []))"

definition validate_cache :: "cache_config \<Rightarrow> problem list" where
  "validate_cache c =
     when_bad (cc_max_ttl c < cc_min_ttl c) ''cache.min_ttl'' ''must be <= cache.max_ttl'' []
     @ when_bad (cc_max_entries c < 0) ''cache.max_entries'' ''must be >= 0'' []
     @ when_bad (cc_min_ttl c < 0) ''cache.min_ttl'' ''must be >= 0'' []
     @ when_bad (cc_max_ttl c < 0) ''cache.max_ttl'' ''must be >= 0'' []
     @ when_bad (cc_negative_ttl c < 0) ''cache.negative_ttl'' ''must be >= 0'' []
     @ when_bad (0 < cc_min_ttl c \<and> 0 < cc_max_ttl c \<and> cc_max_ttl c < cc_negative_ttl c) ''cache.negative_ttl''
         ''must be <= cache.max_ttl'' []
     @ when_bad (0 < cc_negative_ttl c \<and> 0 < cc_min_ttl c \<and> cc_negative_ttl c < cc_min_ttl c) ''cache.negative_ttl''
         ''must be >= cache.min_ttl'' []"

definition validate_misc :: "val_env \<Rightarrow> config \<Rightarrow> problem list" where
  "validate_misc E c =
     when_bad (bc_response_ttl (c_block c) < 0) ''block.response_ttl'' ''must be >= 0'' []
     @ when_bad (lg_rotate_size_mb (c_logging c) < 0) ''logging.rotate_size_mb'' ''must be >= 0'' []
     @ when_bad (lg_retention_days (c_logging c) < 0) ''logging.retention_days'' ''must be >= 0'' []
     @ when_bad (au_session_ttl (c_auth c) < 0) ''auth.session_ttl'' ''must be >= 0'' []
     @ when_bad (au_cookie_name (c_auth c) \<noteq> [] \<and> \<not> valid_cookie_name (au_cookie_name (c_auth c))) ''auth.cookie_name''
         ''must be a valid HTTP cookie name'' []
     @ (if bc_response_a (c_block c) \<noteq> [] then
          (case parse_ip (bc_response_a (c_block c)) of
             None \<Rightarrow> [(''block.response_a'', ''must be an IPv4 address'', [])]
           | Some ip \<Rightarrow> when_bad (to4 ip = []) ''block.response_a'' ''must be an IPv4 address'' [])
        else [])
     @ (if bc_response_aaaa (c_block c) \<noteq> [] then
          (case parse_ip (bc_response_aaaa (c_block c)) of
             None \<Rightarrow> [(''block.response_aaaa'', ''must be an IPv6 address'', [])]
           | Some ip \<Rightarrow> when_bad (to4 ip \<noteq> []) ''block.response_aaaa'' ''must be an IPv6 address'' [])
        else [])
     @ when_bad (sv_tz (c_server c) \<noteq> [] \<and> sv_tz (c_server c) \<noteq> ''Local''
          \<and> g_load_location (ve_go E) (sv_tz (c_server c)) = None) ''server.tz''
         ''invalid IANA timezone %q'' [sv_tz (c_server c)]
     @ when_bad (pv_log_mode (c_privacy c) \<noteq> [] \<and> \<not> one_of (pv_log_mode (c_privacy c)) [''full'', ''hashed'', ''anonymous''])
         ''privacy.log_mode'' ''must be full, hashed, or anonymous'' []"

definition validate_data_dir :: "val_env \<Rightarrow> config \<Rightarrow> problem list" where
  "validate_data_dir E c =
     (let dir = sv_data_dir (c_server c) in
      if dir = [] then [(''server.data_dir'', ''required'', [])]
      else
        (case ve_mkdir E dir of
           Some e \<Rightarrow> [(''server.data_dir'', ''must exist or be creatable: %v'', [e])]
         | None \<Rightarrow>
             if lg_query_log (c_logging c) \<or> lg_audit_log (c_logging c) then
               (case ve_mkdir_logs E dir of
                  Some e \<Rightarrow> [(''server.data_dir'', ''logs directory must be creatable: %v'', [e])]
                | None \<Rightarrow> [])
             else []))"

definition validate :: "val_env \<Rightarrow> config option \<Rightarrow> problem list" where
  "validate E c =
     (case c of
        None \<Rightarrow> [(''config'', ''nil'', [])]
      | Some c \<Rightarrow>
          let G = ve_go E;
              (blocklist_problems, blocklist_ids) =
                each (validate_blocklist E) (\<lambda>seen b. note_id seen (bl_id b)) 0 [] (c_blocklists c);
              (group_problems, group_names) =
                each (validate_group G blocklist_ids) (\<lambda>seen g. gc_name g # seen) 0 [] (c_groups c);
              default_count = length (filter (\<lambda>g. gc_name g = ''default'') (c_groups c));
              (client_problems, _) =
                each (validate_client group_names) (\<lambda>seen k. note_id seen (kc_key k)) 0 [] (c_clients c);
              (upstream_problems, _) =
                each (validate_upstream E) (\<lambda>seen u. note_id seen (up_id u)) 0 [] (c_upstreams c);
              (user_problems, _) =
                each validate_user (\<lambda>seen u. note_id seen (us_username u)) 0 [] (au_users (c_auth c))
          in blocklist_problems @ group_problems
             @ when_bad (default_count \<noteq> 1) ''groups'' ''default group must exist exactly once'' []
             @ client_problems
             @ validate_listeners E (c_server c)
             @ each_problem (\<lambda>i d. when_bad (\<not> valid_domain_pattern G d) (index_path ''allowlist.domains'' i)
                   ''invalid domain pattern %q'' [d]) (al_domains (c_allowlist c))
             @ when_bad (c_upstreams c = []) ''upstreams'' ''at least one upstream is required'' []
             @ upstream_problems
             @ when_bad (au_users (c_auth c) = [] \<and> \<not> au_first_run (c_auth c)) ''auth.users''
                 ''non-empty unless auth.first_run is true'' []
             @ validate_limits (c_server c)
             @ user_problems
             @ validate_cache (c_cache c)
             @ validate_misc E c
             @ validate_data_dir E c)"

section \<open>Facts about the loops\<close>

lemma each_nil:
  "fst (each check note i seen xs) = [] \<longleftrightarrow>
     (\<forall>k < length xs. check (i + k) (fold (\<lambda>x seen. note seen x) (take k xs) seen) (xs ! k) = [])"
proof (induction xs arbitrary: i seen)
  case (Cons x xs)
  have "(\<forall>k < length (x # xs). check (i + k) (fold (\<lambda>x seen. note seen x) (take k (x # xs)) seen) ((x # xs) ! k) = [])
    \<longleftrightarrow> check i seen x = [] \<and>
      (\<forall>k < length xs. check (Suc i + k) (fold (\<lambda>x seen. note seen x) (take k xs) (note seen x)) (xs ! k) = [])"
    by (simp add: All_less_Suc2)
  also have "\<dots> \<longleftrightarrow> check i seen x = [] \<and> fst (each check note (Suc i) (note seen x) xs) = []"
    by (simp only: Cons.IH)
  finally show ?case by (auto simp: case_prod_beta Let_def)
qed simp

lemma each_seen: "snd (each check note i seen xs) = fold (\<lambda>x seen. note seen x) xs seen"
  by (induction xs arbitrary: i seen) (simp_all add: case_prod_beta Let_def)

lemma each_problem_nil:
  assumes "\<And>i x. check i x = [] \<longleftrightarrow> ok x"
  shows "each_problem check xs = [] \<longleftrightarrow> (\<forall>x \<in> set xs. ok x)"
  by (simp add: each_problem_def each_nil assms all_set_conv_all_nth)

lemma when_bad_nil [simp]: "when_bad bad path f args = [] \<longleftrightarrow> \<not> bad"
  by (simp add: when_bad_def)

lemma id_problems_nil [simp]: "id_problems path seen v = [] \<longleftrightarrow> v \<noteq> [] \<and> v \<notin> set seen"
  by (simp add: id_problems_def)

lemma set_note_id: "set (note_id seen v) = set seen \<union> ({v} - {[]})"
  by (auto simp: note_id_def)

lemma set_fold_note_id: "set (fold (\<lambda>x seen. note_id seen (f x)) xs seen) = set seen \<union> (f ` set xs - {[]})"
  by (induction xs arbitrary: seen) (auto simp: set_note_id)

lemma set_fold_cons: "set (fold (\<lambda>x seen. f x # seen) xs seen) = set seen \<union> f ` set xs"
  by (induction xs arbitrary: seen) auto

text \<open>A loop that asks for names which are present and new accepts exactly distinct present names.\<close>

lemma distinct_prefixes:
  "(\<forall>k < length xs. f (xs ! k) \<notin> f ` set (take k xs)) \<longleftrightarrow> distinct (map f xs)"
proof (induction xs rule: rev_induct)
  case (snoc x xs)
  have "(\<forall>k < length (xs @ [x]). f ((xs @ [x]) ! k) \<notin> f ` set (take k (xs @ [x])))
     \<longleftrightarrow> (\<forall>k < length xs. f (xs ! k) \<notin> f ` set (take k xs)) \<and> f x \<notin> f ` set xs"
    by (auto simp: less_Suc_eq nth_append)
  with snoc.IH show ?case by auto
qed simp

lemma each_ids_nil:
  assumes "\<And>i seen x. check i seen x = [] \<longleftrightarrow> name x \<noteq> [] \<and> name x \<notin> set seen \<and> ok x"
  shows "fst (each check (\<lambda>seen x. note_id seen (name x)) 0 [] xs) = [] \<longleftrightarrow>
    (\<forall>x \<in> set xs. name x \<noteq> [] \<and> ok x) \<and> distinct (map name xs)"
proof -
  have "fst (each check (\<lambda>seen x. note_id seen (name x)) 0 [] xs) = [] \<longleftrightarrow>
    (\<forall>k < length xs. name (xs ! k) \<noteq> [] \<and> name (xs ! k) \<notin> name ` set (take k xs) \<and> ok (xs ! k))"
    by (auto simp: each_nil assms set_fold_note_id)
  then show ?thesis
    unfolding distinct_prefixes [symmetric] all_set_conv_all_nth by auto
qed

lemma each_names_nil:
  assumes "\<And>i seen x. check i seen x = [] \<longleftrightarrow> name x \<noteq> [] \<and> name x \<notin> set seen \<and> ok x"
  shows "fst (each check (\<lambda>seen x. name x # seen) 0 [] xs) = [] \<longleftrightarrow>
    (\<forall>x \<in> set xs. name x \<noteq> [] \<and> ok x) \<and> distinct (map name xs)"
  by (auto simp: each_nil assms set_fold_cons distinct_prefixes [symmetric] all_set_conv_all_nth)

section \<open>Domain patterns\<close>

lemma contains_space_drop: "contains_space (drop n s) \<Longrightarrow> contains_space s"
proof (induction s arbitrary: n)
  case (Cons c s)
  then show ?case by (cases n) auto
qed simp

lemma space_len_contains: "0 < space_len s \<Longrightarrow> contains_space s"
  by (cases s) auto

lemma no_space_trim:
  assumes "\<not> contains_space s"
  shows "trim_space s = s"
proof -
  have "space_len (drop n s) = 0" for n
    using assms contains_space_drop [of n s] space_len_contains [of "drop n s"] by blast
  then have "space_len s = 0" "space_len_end s = 0"
    by (simp_all add: space_len_end_def take_last_def) (metis drop_0)
  then show ?thesis
    by (simp add: trim_space_def trim_left.simps [of s] trim_right.simps [of s])
qed

text \<open>The checks of the configuration and of the policy engine accept the same patterns.\<close>

lemma valid_domain_pattern_iff: "valid_domain_pattern G v \<longleftrightarrow> labels_for G v \<noteq> None"
proof -
  have "valid_domain_pattern G v \<longleftrightarrow> normalize_domain_pattern G v \<noteq> None"
  proof -
    define w where "w = (if prefix ''*.'' (trim_suffix ''.'' (trim_space v))
      then drop 2 (trim_suffix ''.'' (trim_space v)) else trim_suffix ''.'' (trim_space v))"
    let ?bad = "\<not> valid_utf8 w \<or> w = [] \<or> suffix ''.'' w \<or> contains_space w"
    let ?bad' = "\<not> valid_utf8 w \<or> trim_space w \<noteq> w \<or> suffix ''.'' w \<or> w = [] \<or> contains_space w"
    have bad: "?bad' \<longleftrightarrow> ?bad" using no_space_trim [of w] by blast
    show ?thesis
      unfolding valid_domain_pattern_def normalize_domain_pattern_def Let_def w_def [symmetric] bad
      by (cases ?bad; cases "g_idna (G) w"; cases "g_idna G (to_lower G (trim_suffix ''.'' (the (g_idna G w))))") simp_all
  qed
  then show ?thesis by (simp add: labels_for_def split: option.split)
qed

section \<open>What an accepted configuration is\<close>

definition blocklist_valid :: "val_env \<Rightarrow> blocklist \<Rightarrow> bool" where
  "blocklist_valid E b \<longleftrightarrow> (bl_enabled b \<longrightarrow> bl_url b \<noteq> [])
     \<and> (bl_url b \<noteq> [] \<longrightarrow> (\<exists>host. ve_url E (bl_url b) \<in> {Some (''http'', host), Some (''https'', host), Some (''file'', host)}))
     \<and> 0 \<le> bl_refresh_interval b"

definition schedule_valid :: "golib \<Rightarrow> string set \<Rightarrow> schedule \<Rightarrow> bool" where
  "schedule_valid G ids s \<longleftrightarrow> sc_name s \<noteq> [] \<and> (\<exists>cs. compile_schedule G s = Inr cs) \<and> set (sc_block s) \<subseteq> ids"

definition group_valid :: "golib \<Rightarrow> string set \<Rightarrow> group_config \<Rightarrow> bool" where
  "group_valid G ids g \<longleftrightarrow> set (gc_blocklists g) \<subseteq> ids \<and> (\<forall>d \<in> set (gc_allowlist g). labels_for G d \<noteq> None)
     \<and> (\<forall>s \<in> set (gc_schedules g). schedule_valid G ids s)"

definition client_valid :: "string set \<Rightarrow> client_config \<Rightarrow> bool" where
  "client_valid names k \<longleftrightarrow> (kc_group k = [] \<or> kc_group k \<in> names) \<and> kc_type k \<in> {[], ''ip'', ''mac''}
     \<and> (kc_type k = ''ip'' \<longrightarrow> parse_ip (kc_key k) \<noteq> None) \<and> (kc_type k = ''mac'' \<longrightarrow> parse_mac (kc_key k) \<noteq> None)"

definition upstream_valid :: "val_env \<Rightarrow> upstream \<Rightarrow> bool" where
  "upstream_valid E u \<longleftrightarrow> up_url u \<noteq> [] \<and> (\<exists>host. ve_url E (up_url u) = Some (''https'', host) \<and> host \<noteq> [])
     \<and> up_bootstrap u \<noteq> [] \<and> (\<forall>ip \<in> set (up_bootstrap u). parse_ip ip \<noteq> None) \<and> 0 \<le> up_timeout u"

definition limits_valid :: "server \<Rightarrow> bool" where
  "limits_valid s \<longleftrightarrow>
     (let d = sv_dns s in
      0 \<le> ds_rate_limit_qps d \<and> 0 \<le> ds_rate_limit_burst d \<and> ds_rate_limit_qps d \<le> ds_rate_limit_burst d
      \<and> 0 \<le> hs_rate_limit_per_minute (sv_http s) \<and> 0 \<le> ds_udp_workers d \<and> 0 \<le> ds_tcp_workers d
      \<and> 0 \<le> ds_udp_size d \<and> ds_udp_size d \<le> 65535)"

definition cache_valid :: "cache_config \<Rightarrow> bool" where
  "cache_valid c \<longleftrightarrow> 0 \<le> cc_max_entries c \<and> 0 \<le> cc_min_ttl c \<and> cc_min_ttl c \<le> cc_max_ttl c \<and> 0 \<le> cc_negative_ttl c
     \<and> (0 < cc_min_ttl c \<longrightarrow> cc_negative_ttl c = 0 \<or> cc_min_ttl c \<le> cc_negative_ttl c \<and> cc_negative_ttl c \<le> cc_max_ttl c)"

definition config_valid :: "val_env \<Rightarrow> config \<Rightarrow> bool" where
  "config_valid E c \<longleftrightarrow>
     (let ids = bl_id ` set (c_blocklists c); names = gc_name ` set (c_groups c) in
      distinct (map bl_id (c_blocklists c)) \<and> [] \<notin> ids \<and> (\<forall>b \<in> set (c_blocklists c). blocklist_valid E b)
      \<and> distinct (map gc_name (c_groups c)) \<and> [] \<notin> names \<and> ''default'' \<in> names
      \<and> (\<forall>g \<in> set (c_groups c). group_valid (ve_go E) ids g)
      \<and> distinct (map kc_key (c_clients c)) \<and> [] \<notin> kc_key ` set (c_clients c)
      \<and> (\<forall>k \<in> set (c_clients c). client_valid names k)
      \<and> (\<forall>d \<in> set (al_domains (c_allowlist c)). labels_for (ve_go E) d \<noteq> None)
      \<and> c_upstreams c \<noteq> [] \<and> distinct (map up_id (c_upstreams c)) \<and> [] \<notin> up_id ` set (c_upstreams c)
      \<and> (\<forall>u \<in> set (c_upstreams c). upstream_valid E u)
      \<and> (au_users (c_auth c) = [] \<longrightarrow> au_first_run (c_auth c))
      \<and> distinct (map us_username (au_users (c_auth c)))
      \<and> (\<forall>u \<in> set (au_users (c_auth c)). us_username u \<noteq> [] \<and> us_password_hash u \<noteq> [])
      \<and> limits_valid (c_server c) \<and> cache_valid (c_cache c)
      \<and> validate_listeners E (c_server c) = [] \<and> validate_misc E c = [] \<and> validate_data_dir E c = [])"

lemma one_of_iff [simp]: "one_of v opts \<longleftrightarrow> v \<in> set opts"
  by (auto simp: one_of_def list_ex_iff)

lemma validate_blocklist_nil:
  "validate_blocklist E i seen b = [] \<longleftrightarrow> bl_id b \<noteq> [] \<and> bl_id b \<notin> set seen \<and> blocklist_valid E b"
  by (auto simp: validate_blocklist_def blocklist_valid_def Let_def not_less split: option.splits prod.splits)

lemma day_tokens_iff: "t \<in> set day_tokens \<longleftrightarrow> day_token t \<noteq> None"
  by (auto simp: day_tokens_def day_token_def)

lemma day_token_nonzero: "day_token t = Some b \<Longrightarrow> b \<noteq> 0"
  by (auto simp: day_token_def day_bits split: if_split_asm)

lemma parse_days_from_ok:
  "(\<exists>b. parse_days_from G out days = Inr b) \<longleftrightarrow>
     (\<forall>day \<in> set days. day_token (to_lower G day) \<noteq> None) \<and> (out \<noteq> 0 \<or> days \<noteq> [])"
proof (induction days arbitrary: out)
  case (Cons day days)
  show ?case
  proof (cases "day_token (to_lower G day)")
    case (Some b)
    then have "out OR b \<noteq> 0" using day_token_nonzero by (simp add: or_eq_0_iff)
    with Some Cons show ?thesis by simp
  qed simp
qed auto

lemma compile_schedule_succeeds:
  "(\<exists>cs. compile_schedule G s = Inr cs) \<longleftrightarrow>
     (\<forall>day \<in> set (sc_days s). to_lower G day \<in> set day_tokens) \<and> sc_days s \<noteq> []
     \<and> valid_clock (sc_from s) \<and> valid_clock (sc_to s)"
proof -
  have "(\<exists>cs. compile_schedule G s = Inr cs) \<longleftrightarrow>
      (\<exists>b. parse_days_from G 0 (sc_days s) = Inr b) \<and> valid_clock (sc_from s) \<and> valid_clock (sc_to s)"
    by (auto simp: compile_schedule_def parse_days_def valid_clock_def split: sum.split option.split)
  then show ?thesis by (auto simp: parse_days_from_ok day_tokens_iff)
qed

lemma validate_schedule_nil:
  "validate_schedule G ids path j s = [] \<longleftrightarrow> schedule_valid G (set ids) s"
proof -
  have "each_problem (\<lambda>k day. when_bad (\<not> one_of (to_lower G day) day_tokens) (p k) f [day]) ds = []
      \<longleftrightarrow> (\<forall>day \<in> set ds. to_lower G day \<in> set day_tokens)" for p f ds
    by (rule each_problem_nil) simp
  moreover have "each_problem (\<lambda>k i. when_bad (i \<notin> set ids) (p k) f [i]) xs = [] \<longleftrightarrow> (\<forall>i \<in> set xs. i \<in> set ids)" for p f xs
    by (rule each_problem_nil) simp
  ultimately show ?thesis
    by (auto simp: validate_schedule_def schedule_valid_def compile_schedule_succeeds Let_def)
qed

lemma validate_group_nil:
  "validate_group G ids i seen g = [] \<longleftrightarrow> gc_name g \<noteq> [] \<and> gc_name g \<notin> set seen \<and> group_valid G (set ids) g"
proof -
  have "each_problem (\<lambda>j d. when_bad (\<not> valid_domain_pattern G d) (p j) f [d]) ds = []
      \<longleftrightarrow> (\<forall>d \<in> set ds. labels_for G d \<noteq> None)" for p f ds
    by (rule each_problem_nil) (simp add: valid_domain_pattern_iff)
  moreover have "each_problem (\<lambda>k i. when_bad (i \<notin> set ids) (p k) f [i]) xs = [] \<longleftrightarrow> (\<forall>i \<in> set xs. i \<in> set ids)" for p f xs
    by (rule each_problem_nil) simp
  moreover have "each_problem (validate_schedule G ids p) ss = [] \<longleftrightarrow> (\<forall>s \<in> set ss. schedule_valid G (set ids) s)" for p ss
    by (rule each_problem_nil) (rule validate_schedule_nil)
  ultimately show ?thesis by (auto simp: validate_group_def group_valid_def Let_def)
qed

lemma validate_client_nil:
  "validate_client names i seen k = [] \<longleftrightarrow> kc_key k \<noteq> [] \<and> kc_key k \<notin> set seen \<and> client_valid (set names) k"
  by (auto simp: validate_client_def client_valid_def Let_def)

lemma validate_upstream_nil:
  "validate_upstream E i seen u = [] \<longleftrightarrow> up_id u \<noteq> [] \<and> up_id u \<notin> set seen \<and> upstream_valid E u"
proof -
  have "each_problem (\<lambda>j ip. when_bad (parse_ip ip = None) (p j) f [ip]) ips = [] \<longleftrightarrow> (\<forall>ip \<in> set ips. parse_ip ip \<noteq> None)" for p f ips
    by (rule each_problem_nil) simp
  then show ?thesis
    by (auto simp: validate_upstream_def upstream_valid_def Let_def not_less split: option.split)
qed

lemma validate_user_nil:
  "validate_user i seen u = [] \<longleftrightarrow> us_username u \<noteq> [] \<and> us_username u \<notin> set seen \<and> us_password_hash u \<noteq> []"
  by (auto simp: validate_user_def Let_def)

lemma validate_limits_nil: "validate_limits s = [] \<longleftrightarrow> limits_valid s"
  by (auto simp: validate_limits_def limits_valid_def Let_def)

lemma validate_cache_nil: "validate_cache c = [] \<longleftrightarrow> cache_valid c"
  by (auto simp: validate_cache_def cache_valid_def)

lemma one_default:
  assumes "distinct (map gc_name gs)"
  shows "length (filter (\<lambda>g. gc_name g = n) gs) = 1 \<longleftrightarrow> n \<in> gc_name ` set gs"
  using assms
proof (induction gs)
  case (Cons g gs)
  then show ?case by (cases "gc_name g = n") (auto simp: filter_empty_conv image_iff)
qed simp

lemma each_problem_domains:
  "each_problem (\<lambda>i d. when_bad (\<not> valid_domain_pattern G d) (p i) f [d]) ds = [] \<longleftrightarrow> (\<forall>d \<in> set ds. labels_for G d \<noteq> None)"
  by (rule each_problem_nil) (simp add: valid_domain_pattern_iff)

section \<open>Compiling an accepted configuration\<close>

text \<open>Adding patterns one by one succeeds exactly when all are patterns and no two denote the same labels.\<close>

lemma adds_succeed:
  assumes "\<And>x t. f x t = (if snd (domains_add G x t) then Inr (fst (domains_add G x t)) else Inl (err x))"
  shows "(\<exists>t'. fold_result f xs t = Inr t') \<longleftrightarrow>
    (\<forall>x \<in> set xs. \<exists>p. labels_for G x = Some p \<and> p \<notin> stored t) \<and> distinct (map (labels_for G) xs)"
proof (induction xs arbitrary: t)
  case (Cons x xs)
  show ?case
  proof (cases "\<exists>p. labels_for G x = Some p \<and> p \<notin> stored t")
    case True
    then obtain p where p: "labels_for G x = Some p" "p \<notin> stored t" by blast
    then have "f x t = Inr (fst (domains_add G x t))" by (simp add: assms domains_added_iff)
    then have "(\<exists>t'. fold_result f (x # xs) t = Inr t') \<longleftrightarrow>
        (\<forall>y \<in> set xs. \<exists>q. labels_for G y = Some q \<and> q \<notin> insert p (stored t)) \<and> distinct (map (labels_for G) xs)"
      by (simp add: Cons.IH stored_add p(1))
    also have "\<dots> \<longleftrightarrow> (\<forall>y \<in> set (x # xs). \<exists>q. labels_for G y = Some q \<and> q \<notin> stored t)
        \<and> distinct (map (labels_for G) (x # xs))"
      using p by (auto simp: image_iff) metis
    finally show ?thesis .
  next
    case False
    then have "f x t = Inl (err x)" by (auto simp: assms domains_added_iff)
    with False show ?thesis by auto
  qed
qed simp

lemma group_allow_succeeds:
  "(\<exists>t. fold_result (add_group_allow G name) xs empty_domains = Inr t) \<longleftrightarrow>
     (\<forall>x \<in> set xs. labels_for G x \<noteq> None) \<and> distinct (map (labels_for G) xs)"
  by (subst adds_succeed [where G = G and err = "Bad_Group_Allow name"])
    (auto simp: add_group_allow_def case_prod_beta Let_def)

lemma engine_allow_succeeds:
  "(\<exists>t. fold_result (add_allow G) xs empty_domains = Inr t) \<longleftrightarrow>
     (\<forall>x \<in> set xs. labels_for G x \<noteq> None) \<and> distinct (map (labels_for G) xs)"
  by (subst adds_succeed [where G = G and err = "Invalid_Domain ''allowlist.domains''"])
    (auto simp: add_allow_def case_prod_beta Let_def)

lemma schedules_succeed:
  "(\<exists>out. fold_result (compile_group_schedule G name) ss acc = Inr out) \<longleftrightarrow>
     (\<forall>s \<in> set ss. \<exists>cs. compile_schedule G s = Inr cs)"
proof (induction ss arbitrary: acc)
  case (Cons s ss)
  then show ?case by (cases "compile_schedule G s") (simp_all add: compile_group_schedule_def [of _ _ s])
qed simp

definition allowlists_distinct :: "golib \<Rightarrow> config \<Rightarrow> bool" where
  "allowlists_distinct G c \<longleftrightarrow> distinct (map (labels_for G) (al_domains (c_allowlist c)))
     \<and> (\<forall>g \<in> set (c_groups c). distinct (map (labels_for G) (gc_allowlist g)))"

lemma compile_group_succeeds:
  assumes "group_valid G ids g" "gc_name g \<noteq> []"
  shows "(\<exists>out'. compile_group G g out = Inr out') \<longleftrightarrow> distinct (map (labels_for G) (gc_allowlist g))"
proof -
  have "\<forall>x \<in> set (gc_allowlist g). labels_for G x \<noteq> None"
    and s: "\<forall>s \<in> set (gc_schedules g). \<exists>cs. compile_schedule G s = Inr cs"
    using assms(1) by (auto simp: group_valid_def schedule_valid_def)
  with group_allow_succeeds [of G "gc_name g" "gc_allowlist g"]
  have a: "(\<exists>t. fold_result (add_group_allow G (gc_name g)) (gc_allowlist g) empty_domains = Inr t)
      \<longleftrightarrow> distinct (map (labels_for G) (gc_allowlist g))" by blast
  obtain ss where ss: "fold_result (compile_group_schedule G (gc_name g)) (gc_schedules g) [] = Inr ss"
    using schedules_succeed [of G "gc_name g" "gc_schedules g" "[]"] s by blast
  show ?thesis
    unfolding a [symmetric] compile_group_def ss using assms(2)
    by (cases "fold_result (add_group_allow G (gc_name g)) (gc_allowlist g) empty_domains") simp_all
qed

lemma compile_fold_succeeds:
  assumes "\<forall>g \<in> set gs. group_valid G ids g \<and> gc_name g \<noteq> []"
  shows "(\<exists>out'. fold_result (compile_group G) gs out = Inr out') \<longleftrightarrow>
    (\<forall>g \<in> set gs. distinct (map (labels_for G) (gc_allowlist g)))"
  using assms
proof (induction gs arbitrary: out)
  case (Cons g gs)
  from Cons.prems have g: "group_valid G ids g" "gc_name g \<noteq> []" by simp_all
  show ?case
  proof (cases "compile_group G g out")
    case (Inl e)
    with compile_group_succeeds [OF g, of out] show ?thesis by simp
  next
    case (Inr out')
    with compile_group_succeeds [OF g, of out] Cons.IH [of out'] Cons.prems show ?thesis by simp
  qed
qed simp

lemma compile_groups_succeeds:
  assumes "\<forall>g \<in> set gs. group_valid G ids g \<and> gc_name g \<noteq> []" "''default'' \<in> gc_name ` set gs"
  shows "(\<exists>out. compile_groups G gs = Inr out) \<longleftrightarrow>
    (\<forall>g \<in> set gs. distinct (map (labels_for G) (gc_allowlist g)))"
proof (cases "fold_result (compile_group G) gs []")
  case (Inl e)
  with compile_fold_succeeds [OF assms(1), of "[]"] show ?thesis by (simp add: compile_groups_def)
next
  case (Inr out)
  have "groups_ok []" by (simp add: groups_ok_def)
  from fold_compile_group(2) [OF Inr this] assms(2) have "''default'' \<in> keys out" by auto
  then have "map_of out ''default'' \<noteq> None" by (simp add: keys_iff_map_of)
  with Inr compile_fold_succeeds [OF assms(1), of "[]"] show ?thesis by (simp add: compile_groups_def)
qed

lemma all_present:
  "(\<forall>x \<in> set xs. f x \<noteq> [] \<and> ok x) \<longleftrightarrow> [] \<notin> f ` set xs \<and> (\<forall>x \<in> set xs. ok x)"
  by force

lemma validate_nil_iff: "validate E (Some c) = [] \<longleftrightarrow> config_valid E c"
proof -
  let ?G = "ve_go E"
  let ?ids = "snd (each (validate_blocklist E) (\<lambda>seen b. note_id seen (bl_id b)) 0 [] (c_blocklists c))"
  let ?names = "snd (each (validate_group ?G ?ids) (\<lambda>seen g. gc_name g # seen) 0 [] (c_groups c))"
  note blocklists = each_ids_nil [where name = bl_id and ok = "blocklist_valid E" and check = "validate_blocklist E",
      OF validate_blocklist_nil]
  note groups = each_names_nil [where name = gc_name and ok = "group_valid ?G (set ?ids)" and check = "validate_group ?G ?ids",
      OF validate_group_nil]
  note clients = each_ids_nil [where name = kc_key and ok = "client_valid (set ?names)" and check = "validate_client ?names",
      OF validate_client_nil]
  note upstreams = each_ids_nil [where name = up_id and ok = "upstream_valid E" and check = "validate_upstream E",
      OF validate_upstream_nil]
  note users = each_ids_nil [where name = us_username and ok = "\<lambda>u. us_password_hash u \<noteq> []" and check = validate_user,
      OF validate_user_nil]
  have ids: "set ?ids = bl_id ` set (c_blocklists c) - {[]}"
    by (simp add: each_seen set_fold_note_id)
  have names: "set ?names = gc_name ` set (c_groups c)"
    by (simp add: each_seen set_fold_cons)
  have split: "validate E (Some c) = [] \<longleftrightarrow>
      (\<forall>b \<in> set (c_blocklists c). bl_id b \<noteq> [] \<and> blocklist_valid E b) \<and> distinct (map bl_id (c_blocklists c))
      \<and> (\<forall>g \<in> set (c_groups c). gc_name g \<noteq> [] \<and> group_valid ?G (set ?ids) g) \<and> distinct (map gc_name (c_groups c))
      \<and> length (filter (\<lambda>g. gc_name g = ''default'') (c_groups c)) = 1
      \<and> (\<forall>k \<in> set (c_clients c). kc_key k \<noteq> [] \<and> client_valid (set ?names) k) \<and> distinct (map kc_key (c_clients c))
      \<and> validate_listeners E (c_server c) = []
      \<and> (\<forall>d \<in> set (al_domains (c_allowlist c)). labels_for ?G d \<noteq> None)
      \<and> c_upstreams c \<noteq> []
      \<and> (\<forall>u \<in> set (c_upstreams c). up_id u \<noteq> [] \<and> upstream_valid E u) \<and> distinct (map up_id (c_upstreams c))
      \<and> (au_users (c_auth c) = [] \<longrightarrow> au_first_run (c_auth c))
      \<and> limits_valid (c_server c)
      \<and> (\<forall>u \<in> set (au_users (c_auth c)). us_username u \<noteq> [] \<and> us_password_hash u \<noteq> [])
      \<and> distinct (map us_username (au_users (c_auth c)))
      \<and> cache_valid (c_cache c) \<and> validate_misc E c = [] \<and> validate_data_dir E c = []"
    by (simp add: validate_def Let_def case_prod_beta blocklists groups clients upstreams users
        each_problem_domains validate_limits_nil validate_cache_nil)
  show ?thesis
  proof (cases "[] \<in> bl_id ` set (c_blocklists c)")
    case True
    then show ?thesis unfolding split config_valid_def Let_def all_present by simp
  next
    case False
    then have ids': "set ?ids = bl_id ` set (c_blocklists c)" using ids by simp
    show ?thesis
      unfolding split config_valid_def Let_def all_present ids' names
      using one_default [of "c_groups c" "''default''"] False by argo
  qed
qed

section \<open>Properties\<close>


text \<open>C31: An accepted configuration gives a policy engine exactly when no allowlist in it names a domain
  twice, in whatever spelling: the checks and the compiler agree on everything else.\<close>

theorem accepted_config_compiles:
  assumes "validate E (Some c) = []"
  shows "(\<exists>e. new_engine (ve_go E) (Some c) = Inr e) \<longleftrightarrow> allowlists_distinct (ve_go E) c"
proof -
  let ?G = "ve_go E"
  have v: "config_valid E c" using assms by (simp add: validate_nil_iff)
  then have gs: "\<forall>g \<in> set (c_groups c). group_valid ?G (bl_id ` set (c_blocklists c)) g \<and> gc_name g \<noteq> []"
    "''default'' \<in> gc_name ` set (c_groups c)" "\<forall>d \<in> set (al_domains (c_allowlist c)). labels_for ?G d \<noteq> None"
    "validate_misc E c = []"
    by (auto simp: config_valid_def Let_def image_iff)
  have tz: "\<exists>loc. config_location ?G (sv_tz (c_server c)) = Inr loc"
    using gs(4) by (auto simp: validate_misc_def config_location_def)
  note groups = compile_groups_succeeds [OF gs(1,2)]
  note allow = engine_allow_succeeds [of ?G "al_domains (c_allowlist c)"]
  show ?thesis
    using tz groups allow gs(3)
    by (cases "compile_groups ?G (c_groups c)";
        cases "fold_result (add_allow ?G) (al_domains (c_allowlist c)) empty_domains")
      (auto simp: new_engine_def allowlists_distinct_def)
qed

definition plain_env :: val_env where
  "plain_env = \<lparr>ve_go = ascii_lib, ve_url = (\<lambda>u. if prefix ''https://'' u then Some (''https'', drop 8 u) else None),
     ve_udp_addr = (\<lambda>_. True), ve_tcp_addr = (\<lambda>_. True), ve_mkdir = (\<lambda>_. None), ve_mkdir_logs = (\<lambda>_. None)\<rparr>"

definition home_config :: "string list \<Rightarrow> config" where
  "home_config allow = zero_config
     \<lparr>c_server := (c_server zero_config)\<lparr>sv_data_dir := ''data''\<rparr>,
      c_upstreams := [\<lparr>up_id = ''quad9'', up_name = [], up_url = ''https://dns.quad9.net/dns-query'',
        up_bootstrap = [''9.9.9.9''], up_timeout = 0, up_circuit_breaker_threshold = 0, up_health_probe_timeout = 0,
        up_health_probe_interval = 0\<rparr>],
      c_allowlist := \<lparr>al_domains = allow\<rparr>,
      c_groups := [\<lparr>gc_name = ''default'', gc_blocklists = [], gc_allowlist = [], gc_schedules = []\<rparr>],
      c_auth := (c_auth zero_config)\<lparr>au_first_run := True\<rparr>\<rparr>"

theorem accepted_config_compiles_witness:
  "\<exists>e. new_engine (ve_go plain_env) (Some (home_config [''a.org''])) = Inr e"
proof -
  have "validate plain_env (Some (home_config [''a.org''])) = []" by code_simp
  moreover have "allowlists_distinct (ve_go plain_env) (home_config [''a.org''])" by code_simp
  ultimately show ?thesis using accepted_config_compiles by blast
qed

text \<open>The checks let a repeated pattern through, here once as a domain and once as its wildcard; the
  engine then refuses the configuration as if the pattern were malformed.\<close>

lemma repeated_allow_accepted:
  "validate plain_env (Some (home_config [''a.org'', ''*.A.org.''])) = []
   \<and> new_engine ascii_lib (Some (home_config [''a.org'', ''*.A.org.'']))
       = Inl (Invalid_Domain ''allowlist.domains'' ''*.A.org.'')"
proof
  have "case new_engine ascii_lib (Some (home_config [''a.org'', ''*.A.org.''])) of
      Inl e \<Rightarrow> e = Invalid_Domain ''allowlist.domains'' ''*.A.org.'' | Inr _ \<Rightarrow> False" by code_simp
  then show "new_engine ascii_lib (Some (home_config [''a.org'', ''*.A.org.'']))
      = Inl (Invalid_Domain ''allowlist.domains'' ''*.A.org.'')" by (simp split: sum.splits)
  show "validate plain_env (Some (home_config [''a.org'', ''*.A.org.''])) = []" by code_simp
qed

end
