(* ===== verification/Api_Http.thy ===== *)
theory Api_Http
  imports Go_Json Config_Validate
begin

text \<open>
  \<open>internal/api/middleware.go\<close> and the helpers of \<open>internal/api/server.go\<close>: requests, response
  writers and the middlewares that know nothing of the server's state.

  A response writer keeps the header map, the status once it is written, the headers as they were
  then, and the body.  The writer of a connection takes the first status only; the buffer of
  \<open>apiErrorEnvelope\<close> takes the last.  Header names are in canonical form.  A handler maps a
  request and the pair of writer and state to the pair after it and whether it panicked.  JSON
  values are printed by \<open>render\<close>, the encoder of the standard library; \<open>parse\<close> is its scanner: the
  first value of a text and the text behind it.
\<close>

section \<open>Requests and response writers\<close>

record http_request =
  hr_method :: string
  hr_path :: string
  hr_header :: "string \<Rightarrow> string"
  hr_host :: string
  hr_cookies :: "(string \<times> string) list"
  hr_remote :: string
  hr_tls :: bool
  hr_body :: "string \<times> string option"      \<comment> \<open>the bytes, then the end or an error\<close>
  hr_id :: string                             \<comment> \<open>the request id of the context\<close>

definition hr_cookie :: "string \<Rightarrow> http_request \<Rightarrow> string option" where
  "hr_cookie name r = (if name = [] then None else map_of (hr_cookies r) name)"

record cookie =
  ck_name :: string
  ck_value :: string
  ck_expires :: gotime
  ck_max_age :: int
  ck_secure :: bool

datatype header_value = Plain string | Cookie_Value cookie

type_synonym headers = "(string, header_value list) alist"

record writer =
  w_buffered :: bool
  w_headers :: headers
  w_status :: "int option"
  w_sent :: headers
  w_body :: string

type_synonym 's handler = "http_request \<Rightarrow> writer \<times> 's \<Rightarrow> (writer \<times> 's) \<times> bool"

definition fresh_writer :: writer where
  "fresh_writer = \<lparr>w_buffered = False, w_headers = [], w_status = None, w_sent = [], w_body = []\<rparr>"

fun header_text :: "header_value \<Rightarrow> string" where
  "header_text (Plain s) = s"
| "header_text (Cookie_Value c) = ck_name c @ ''='' @ ck_value c"

definition get_header :: "string \<Rightarrow> headers \<Rightarrow> string" where
  "get_header key hs = (case map_of hs key of Some (v # _) \<Rightarrow> header_text v | _ \<Rightarrow> [])"

definition set_header :: "string \<Rightarrow> string \<Rightarrow> writer \<Rightarrow> writer" where
  "set_header key v w = w\<lparr>w_headers := AList.update key [Plain v] (w_headers w)\<rparr>"

definition add_header :: "string \<Rightarrow> header_value \<Rightarrow> writer \<Rightarrow> writer" where
  "add_header key v w = w\<lparr>w_headers := AList.update key
     ((case map_of (w_headers w) key of None \<Rightarrow> [] | Some vs \<Rightarrow> vs) @ [v]) (w_headers w)\<rparr>"

definition del_header :: "string \<Rightarrow> writer \<Rightarrow> writer" where
  "del_header key w = w\<lparr>w_headers := AList.delete key (w_headers w)\<rparr>"

definition write_header :: "int \<Rightarrow> writer \<Rightarrow> writer" where
  "write_header status w =
     (if w_buffered w then w\<lparr>w_status := Some status\<rparr>
      else if w_status w = None then w\<lparr>w_status := Some status, w_sent := w_headers w\<rparr>
      else w)"

definition write_body :: "string \<Rightarrow> writer \<Rightarrow> writer" where
  "write_body text w =
     (let w = (if w_buffered w then w else write_header 200 w) in w\<lparr>w_body := w_body w @ text\<rparr>)"

text \<open>\<open>http.SetCookie\<close> drops a cookie without a valid name.\<close>

definition set_cookie :: "cookie \<Rightarrow> writer \<Rightarrow> writer" where
  "set_cookie c w = (if valid_cookie_name (ck_name c) then add_header ''Set-Cookie'' (Cookie_Value c) w else w)"

text \<open>\<open>http.Error\<close>\<close>

definition http_error :: "string \<Rightarrow> int \<Rightarrow> writer \<Rightarrow> writer" where
  "http_error msg code w =
     write_body (msg @ [CHR 0x0A])
       (write_header code
         (set_header ''X-Content-Type-Options'' ''nosniff''
           (set_header ''Content-Type'' ''text/plain; charset=utf-8'' (del_header ''Content-Length'' w))))"

definition write_json_status :: "(json \<Rightarrow> string) \<Rightarrow> int \<Rightarrow> json \<Rightarrow> writer \<Rightarrow> writer" where
  "write_json_status render status v w =
     write_body (render v @ [CHR 0x0A]) (write_header status (set_header ''Content-Type'' ''application/json'' w))"

definition write_json :: "(json \<Rightarrow> string) \<Rightarrow> json \<Rightarrow> writer \<Rightarrow> writer" where
  "write_json render v w = write_json_status render 200 v w"

section \<open>JSON bodies\<close>

definition max_json_body :: nat where
  "max_json_body = 2 ^ 20"

text \<open>\<open>io.ReadAll(io.LimitReader(body, max + 1))\<close>: an error behind the limit is not seen.\<close>

definition read_body :: "string \<times> string option \<Rightarrow> string + string" where
  "read_body b =
     (case b of (raw, err) \<Rightarrow>
        if max_json_body + 1 \<le> length raw then Inr (take (max_json_body + 1) raw)
        else (case err of Some e \<Rightarrow> Inl e | None \<Rightarrow> Inr raw))"

definition json_space :: "char \<Rightarrow> bool" where
  "json_space c \<longleftrightarrow> byte c \<in> {0x20, 0x09, 0x0A, 0x0D}"

definition decode_json ::
  "(string \<Rightarrow> string + json \<times> string) \<Rightarrow> (json \<Rightarrow> string + 'a) \<Rightarrow> http_request \<Rightarrow> string + 'a" where
  "decode_json parse target r =
     (case read_body (hr_body r) of
        Inl e \<Rightarrow> Inl e
      | Inr raw \<Rightarrow>
          if max_json_body < length raw then Inl ''JSON body must be <= 1048576 bytes''
          else
            (case parse raw of
               Inl e \<Rightarrow> Inl e
             | Inr (v, rest) \<Rightarrow>
                 (case target v of
                    Inl e \<Rightarrow> Inl e
                  | Inr x \<Rightarrow>
                      if list_all json_space rest then Inr x
                      else Inl ''body must contain a single JSON value'')))"

text \<open>Decoding into a struct of strings with \<open>DisallowUnknownFields\<close>: \<open>null\<close> leaves the zero value.\<close>

definition string_field :: "(string \<times> json) list \<Rightarrow> string \<Rightarrow> string" where
  "string_field fs name =
     fold (\<lambda>(k, v) acc. if map lower_char k = name then (case v of JStr s \<Rightarrow> s | _ \<Rightarrow> acc) else acc) fs []"

fun strings_of_json :: "string list \<Rightarrow> json \<Rightarrow> string + (string \<Rightarrow> string)" where
  "strings_of_json names JNull = Inr (\<lambda>_. [])"
| "strings_of_json names (JObj fs) =
     (if list_ex (\<lambda>(k, v). map lower_char k \<notin> set names) fs then Inl ''json: unknown field''
      else if list_all (\<lambda>(k, v). json_to_string v \<noteq> None) fs then Inr (string_field fs)
      else Inl ''json: cannot unmarshal into string'')"
| "strings_of_json names _ = Inl ''json: cannot unmarshal into struct''"

section \<open>Middlewares\<close>

text \<open>\<open>id\<close> is what \<open>newRequestID\<close> yields.\<close>

definition request_id :: "string \<Rightarrow> 's handler \<Rightarrow> 's handler" where
  "request_id fresh next_handler r ws =
     (case ws of (w, s) \<Rightarrow>
        let i = hr_header r ''X-Request-Id'';
            i = (if i = [] then fresh else i)
        in next_handler (r\<lparr>hr_id := i\<rparr>) (set_header ''X-Request-Id'' i w, s))"

definition recover_middleware :: "'s handler \<Rightarrow> 's handler" where
  "recover_middleware next_handler r ws =
     (case next_handler r ws of
        ((w, s), panicked) \<Rightarrow>
          if panicked then ((http_error ''Internal Server Error'' 500 w, s), False) else ((w, s), False))"

definition is_plain_text :: "string \<Rightarrow> bool" where
  "is_plain_text content_type \<longleftrightarrow> content_type = [] \<or> prefix ''text/plain'' content_type"

definition copy_field :: "string \<times> header_value list \<Rightarrow> writer \<Rightarrow> writer" where
  "copy_field kvs w =
     (case kvs of (key, vs) \<Rightarrow>
        if map lower_char key = ''content-length'' then w else fold (add_header key) vs w)"

definition copy_header :: "headers \<Rightarrow> writer \<Rightarrow> writer" where
  "copy_header src w = fold copy_field src w"

definition under_api :: "http_request \<Rightarrow> bool" where
  "under_api r \<longleftrightarrow> prefix ''/api/v1/'' (hr_path r)"

text \<open>\<open>status_text\<close> is \<open>http.StatusText\<close>.\<close>

definition api_error_envelope :: "(json \<Rightarrow> string) \<Rightarrow> (int \<Rightarrow> string) \<Rightarrow> 's handler \<Rightarrow> 's handler" where
  "api_error_envelope render status_text next_handler r ws =
     (case ws of (w, s) \<Rightarrow>
        if \<not> under_api r \<or> hr_path r = ''/api/v1/logs/query/stream'' then next_handler r (w, s)
        else
          (case next_handler r (\<lparr>w_buffered = True, w_headers = [], w_status = Some 200, w_sent = [], w_body = []\<rparr>, s) of
             ((rec, s), panicked) \<Rightarrow>
               if panicked then ((w, s), True)
               else
                 let status = the (w_status rec) in
                 if status < 400 \<or> \<not> is_plain_text (get_header ''Content-Type'' (w_headers rec))
                 then ((write_body (w_body rec) (write_header status (copy_header (w_headers rec) w)), s), False)
                 else
                   let w = copy_header (w_headers rec) w;
                       w = set_header ''Content-Type'' ''application/json'' w;
                       w = write_header status (del_header ''Content-Length'' w);
                       msg = trim_space (w_body rec);
                       msg = (if msg = [] then status_text status else msg)
                   in ((write_body (render (JObj [(''error'', JStr msg), (''request_id'', JStr (hr_id r))]) @ [CHR 0x0A]) w,
                        s), False)))"

section \<open>Origins\<close>

definition requires_origin_check :: "http_request \<Rightarrow> bool" where
  "requires_origin_check r \<longleftrightarrow> under_api r \<and> hr_method r \<notin> {''GET'', ''HEAD'', ''OPTIONS''}"

text \<open>\<open>url_host\<close> is the host of \<open>url.Parse\<close>.  \<open>strings.EqualFold\<close> on ASCII host names.\<close>

definition header_matches_host :: "(string \<Rightarrow> string option) \<Rightarrow> string \<Rightarrow> string \<Rightarrow> bool" where
  "header_matches_host url_host raw host =
     (case url_host raw of
        None \<Rightarrow> False
      | Some h \<Rightarrow> if h = [] \<or> host = [] then False else map lower_char h = map lower_char host)"

definition request_from_same_origin :: "(string \<Rightarrow> string option) \<Rightarrow> http_request \<Rightarrow> bool" where
  "request_from_same_origin url_host r =
     (if hr_header r ''Origin'' \<noteq> [] then header_matches_host url_host (hr_header r ''Origin'') (hr_host r)
      else if hr_header r ''Referer'' \<noteq> [] then header_matches_host url_host (hr_header r ''Referer'') (hr_host r)
      else True)"

section \<open>Paths\<close>

definition hex_digit :: "char \<Rightarrow> nat option" where
  "hex_digit c =
     (let b = byte c in
      if 48 \<le> b \<and> b \<le> 57 then Some (b - 48)
      else if 97 \<le> b \<and> b \<le> 102 then Some (b - 87)
      else if 65 \<le> b \<and> b \<le> 70 then Some (b - 55) else None)"

text \<open>\<open>url.PathUnescape\<close>\<close>

fun path_unescape :: "string \<Rightarrow> string option" where
  "path_unescape [] = Some []"
| "path_unescape (c # s) =
     (if c = CHR ''%'' then
        (case s of
           a # b # t \<Rightarrow>
             (case (hex_digit a, hex_digit b) of
                (Some x, Some y) \<Rightarrow> map_option ((#) (char_of (16 * x + y))) (path_unescape t)
              | _ \<Rightarrow> None)
         | _ \<Rightarrow> None)
      else map_option ((#) c) (path_unescape s))"

text \<open>\<open>http.NotFound\<close>\<close>

definition not_found :: "writer \<Rightarrow> writer" where
  "not_found w = http_error ''404 page not found'' 404 w"

section \<open>Query parameters\<close>

text \<open>\<open>raw\<close> is the first value of the parameter in the query of the URL.\<close>

definition int_query :: "string \<Rightarrow> string \<Rightarrow> int \<Rightarrow> int \<Rightarrow> string + int" where
  "int_query raw name fallback max_value =
     (if raw = [] then Inr fallback
      else
        (case atoi raw of
           None \<Rightarrow> Inl (''invalid '' @ name)
         | Some v \<Rightarrow>
             if v < 1 then Inl (''invalid '' @ name)
             else Inr (if 0 < max_value \<and> max_value < v then max_value else v)))"

section \<open>Facts\<close>

lemma header_ops_keep [simp]:
  "w_status (set_header k v w) = w_status w" "w_buffered (set_header k v w) = w_buffered w" "w_body (set_header k v w) = w_body w"
  "w_status (add_header k hv w) = w_status w" "w_buffered (add_header k hv w) = w_buffered w" "w_body (add_header k hv w) = w_body w"
  "w_status (del_header k w) = w_status w" "w_buffered (del_header k w) = w_buffered w" "w_body (del_header k w) = w_body w"
  by (simp_all add: set_header_def add_header_def del_header_def)

lemma add_headers_keep [simp]:
  "w_status (fold (add_header k) vs w) = w_status w \<and> w_buffered (fold (add_header k) vs w) = w_buffered w
   \<and> w_body (fold (add_header k) vs w) = w_body w"
  by (induction vs arbitrary: w) simp_all

lemma copy_field_keep:
  "w_status (copy_field f w) = w_status w \<and> w_buffered (copy_field f w) = w_buffered w \<and> w_body (copy_field f w) = w_body w"
  by (simp add: copy_field_def split: prod.split)

lemma copy_header_keep [simp]:
  "w_status (copy_header hs w) = w_status w" "w_buffered (copy_header hs w) = w_buffered w"
  "w_body (copy_header hs w) = w_body w"
  unfolding copy_header_def by (induction hs arbitrary: w) (simp_all add: copy_field_keep)

lemma set_cookie_keep [simp]:
  "w_status (set_cookie c w) = w_status w" "w_buffered (set_cookie c w) = w_buffered w" "w_body (set_cookie c w) = w_body w"
  by (simp_all add: set_cookie_def)

lemma header_set [simp]: "get_header k (w_headers (set_header k v w)) = v"
  by (simp add: get_header_def set_header_def update_conv)

lemma header_set_other: "k \<noteq> k' \<Longrightarrow> get_header k (w_headers (set_header k' v w)) = get_header k (w_headers w)"
  by (simp add: get_header_def set_header_def update_conv)

lemma header_del_other: "k \<noteq> k' \<Longrightarrow> get_header k (w_headers (del_header k' w)) = get_header k (w_headers w)"
  by (simp add: get_header_def del_header_def delete_conv)

lemma write_keeps_headers [simp]:
  "w_headers (write_header code w) = w_headers w" "w_headers (write_body text w) = w_headers w"
  "w_body (write_header code w) = w_body w"
  by (simp_all add: write_header_def write_body_def Let_def)

lemma status_write_body: "w_status w \<noteq> None \<Longrightarrow> w_status (write_body t w) = w_status w"
  by (auto simp: write_body_def write_header_def Let_def)

lemma http_error_status:
  "w_buffered w \<or> w_status w = None \<Longrightarrow> w_status (http_error msg code w) = Some code"
  by (auto simp: http_error_def write_body_def write_header_def Let_def)

lemma http_error_plain: "is_plain_text (get_header ''Content-Type'' (w_headers (http_error msg code w)))"
  by (simp add: http_error_def header_set_other is_plain_text_def)

text \<open>An error of a handler reaches the client with its status.\<close>

lemma envelope_error:
  assumes "\<And>w. h r (w, s) = ((http_error msg code w, s'), False)" "400 \<le> code" "w_status w = None" "\<not> w_buffered w"
  shows "\<exists>w'. api_error_envelope render status_text h r (w, s) = ((w', s'), False) \<and> w_status w' = Some code"
proof (cases "\<not> under_api r \<or> hr_path r = ''/api/v1/logs/query/stream''")
  case True
  with assms(1,3) show ?thesis by (auto simp: api_error_envelope_def http_error_status)
next
  case False
  with assms show ?thesis
    by (auto simp: api_error_envelope_def Let_def http_error_status http_error_plain status_write_body write_header_def)
qed

text \<open>What the envelope does with any handler under \<open>/api/v1/\<close>: a panic leaves no trace of the
  response so far, an error in plain text becomes JSON, everything else is passed on.\<close>

lemma envelope_panic:
  assumes "under_api r" "hr_path r \<noteq> ''/api/v1/logs/query/stream''"
    "h r (\<lparr>w_buffered = True, w_headers = [], w_status = Some 200, w_sent = [], w_body = []\<rparr>, s) = ((rec, s'), True)"
  shows "api_error_envelope render status_text h r (w, s) = ((w, s'), True)"
  using assms by (simp add: api_error_envelope_def)

lemma envelope_cong:
  "(\<And>w. h r (w, s) = h' r (w, s))
   \<Longrightarrow> api_error_envelope render status_text h r (w, s) = api_error_envelope render status_text h' r (w, s)"
  by (simp add: api_error_envelope_def)

end
