(* ===== verification/Api_Limiter.thy ===== *)
theory Api_Limiter
  imports Go_Time "HOL-Library.AList"
begin

text \<open>
  \<open>internal/api/ratelimit.go\<close>: the fixed-window limiter of the management API and of logins.

  \<open>split_host\<close> is the host of \<open>net.SplitHostPort\<close>.  The lock makes each call one step.
\<close>

record rate_entry =
  re_count :: int
  re_reset :: gotime

record window_limiter =
  wl_entries :: "(string, rate_entry) alist"
  wl_limit :: int
  wl_window :: duration
  wl_next_prune :: gotime

definition new_window_limiter :: "int \<Rightarrow> duration \<Rightarrow> window_limiter" where
  "new_window_limiter limit window = \<lparr>wl_entries = [], wl_limit = limit, wl_window = window, wl_next_prune = 0\<rparr>"

definition prune_entries :: "gotime \<Rightarrow> window_limiter \<Rightarrow> window_limiter" where
  "prune_entries now l = l\<lparr>wl_entries := filter (\<lambda>(h, e). \<not> re_reset e < now) (wl_entries l)\<rparr>"

definition limited_host :: "(string \<Rightarrow> string option) \<Rightarrow> string \<Rightarrow> string" where
  "limited_host split_host remote = (case split_host remote of None \<Rightarrow> remote | Some host \<Rightarrow> host)"

definition allow_with ::
  "(string \<Rightarrow> string option) \<Rightarrow> string \<Rightarrow> int \<Rightarrow> duration \<Rightarrow> gotime \<Rightarrow> window_limiter option
   \<Rightarrow> window_limiter option \<times> bool" where
  "allow_with split_host remote limit window now l =
     (case l of
        None \<Rightarrow> (None, True)
      | Some l \<Rightarrow>
          if limit \<le> 0 \<or> window \<le> 0 then (Some l, True)
          else
            let host = limited_host split_host remote;
                l = (if time_is_zero (wl_next_prune l) \<or> wl_next_prune l < now
                     then (prune_entries now l)\<lparr>wl_next_prune := now + window\<rparr> else l);
                entry = (case map_of (wl_entries l) host of None \<Rightarrow> \<lparr>re_count = 0, re_reset = 0\<rparr> | Some e \<Rightarrow> e);
                entry = (if time_is_zero (re_reset entry) \<or> re_reset entry < now
                         then \<lparr>re_count = 0, re_reset = now + window\<rparr> else entry);
                entry = entry\<lparr>re_count := re_count entry + 1\<rparr>
            in (Some (l\<lparr>wl_entries := AList.update host entry (wl_entries l)\<rparr>), re_count entry \<le> limit))"

definition allow_request ::
  "(string \<Rightarrow> string option) \<Rightarrow> string \<Rightarrow> gotime \<Rightarrow> window_limiter option \<Rightarrow> window_limiter option \<times> bool" where
  "allow_request split_host remote now l =
     (case l of
        None \<Rightarrow> (None, True)
      | Some w \<Rightarrow> allow_with split_host remote (wl_limit w) (wl_window w) now (Some w))"

section \<open>One host's windows\<close>

text \<open>The window a host's requests are counted in, from their times alone: its end and the count.\<close>

fun window_step :: "duration \<Rightarrow> (gotime \<times> int) option \<Rightarrow> gotime \<Rightarrow> gotime \<times> int" where
  "window_step w None now = (now + w, 1)"
| "window_step w (Some (reset, count)) now = (if reset < now then (now + w, 1) else (reset, count + 1))"

text \<open>The limiter agrees with a host's window: it has the entry, or the entry is missing because the
  window is over.\<close>

definition tracks :: "gotime \<Rightarrow> string \<Rightarrow> window_limiter \<Rightarrow> (gotime \<times> int) option \<Rightarrow> bool" where
  "tracks last_time h l win \<longleftrightarrow>
     (case map_of (wl_entries l) h of
        Some e \<Rightarrow> win = Some (re_reset e, re_count e) \<and> 0 < re_reset e
      | None \<Rightarrow> (case win of None \<Rightarrow> True | Some (reset, _) \<Rightarrow> reset < last_time))"

lemma map_of_pruned:
  "distinct (map fst es) \<Longrightarrow> map_of (filter (\<lambda>(h, e). \<not> re_reset e < now) es) h =
     (case map_of es h of None \<Rightarrow> None | Some e \<Rightarrow> if re_reset e < now then None else Some e)"
proof (induction es)
  case (Cons he es)
  obtain k e where "he = (k, e)" by (cases he)
  moreover have "map_of es k = None" if "k \<notin> fst ` set es" for k using that by (simp add: map_of_eq_None_iff)
  ultimately show ?case using Cons by (auto split: option.split)
qed simp

lemma allow_with_tracks:
  assumes "0 < limit" "0 < window" "distinct (map fst (wl_entries l))" "tracks last_time h l win" "last_time \<le> now" "0 < now"
    and "allow_with split_host remote limit window now (Some l) = (l', ok)"
    and "host = limited_host split_host remote"
  shows "\<exists>m. l' = Some m \<and> distinct (map fst (wl_entries m)) \<and> wl_limit m = wl_limit l \<and> wl_window m = wl_window l
    \<and> (if host = h then tracks now h m (Some (window_step window win now)) \<and> (ok \<longleftrightarrow> snd (window_step window win now) \<le> limit)
       else tracks now h m win)"
proof -
  let ?p = "if time_is_zero (wl_next_prune l) \<or> wl_next_prune l < now
    then (prune_entries now l)\<lparr>wl_next_prune := now + window\<rparr> else l"
  have d: "distinct (map fst (wl_entries ?p))"
    using assms(3) by (auto simp: prune_entries_def distinct_map_filter)
  have t: "tracks now k ?p w" if "tracks last_time k l w" for k w
    using that assms(5) unfolding tracks_def
    by (cases "map_of (wl_entries l) k") (auto simp: prune_entries_def map_of_pruned [OF assms(3)] split: option.splits)
  define entry where "entry = (case map_of (wl_entries ?p) host of None \<Rightarrow> \<lparr>re_count = 0, re_reset = 0\<rparr> | Some e \<Rightarrow> e)"
  define fresh where "fresh = (if time_is_zero (re_reset entry) \<or> re_reset entry < now
      then \<lparr>re_count = 0, re_reset = now + window\<rparr> else entry)"
  let ?e = "fresh\<lparr>re_count := re_count fresh + 1\<rparr>"
  let ?m = "?p\<lparr>wl_entries := AList.update host ?e (wl_entries ?p)\<rparr>"
  have res: "l' = Some ?m" "ok \<longleftrightarrow> re_count ?e \<le> limit"
    using assms(1,2,7) unfolding allow_with_def Let_def option.case assms(8) [symmetric] entry_def fresh_def
    by (auto simp: not_le)
  have dm: "distinct (map fst (wl_entries ?m)) \<and> wl_limit ?m = wl_limit l \<and> wl_window ?m = wl_window l"
    using d by (simp add: distinct_update prune_entries_def)
  show ?thesis
  proof (cases "host = h")
    case True
    with t [OF assms(4)] have w: "tracks now host ?p win" by simp
    have "window_step window win now = (re_reset ?e, re_count ?e) \<and> 0 < re_reset ?e"
    proof (cases "map_of (wl_entries ?p) host")
      case None
      then have "fresh = \<lparr>re_count = 0, re_reset = now + window\<rparr>" by (simp add: fresh_def entry_def time_is_zero_def)
      moreover have "window_step window win now = (now + window, 1)"
        using w None by (cases win) (auto simp: tracks_def split: if_splits)
      ultimately show ?thesis using assms(2,6) by simp
    next
      case (Some e)
      with w have e: "win = Some (re_reset e, re_count e)" "0 < re_reset e" by (simp_all add: tracks_def)
      have "entry = e" by (simp add: entry_def Some)
      with e assms(2,6) show ?thesis by (auto simp: fresh_def time_is_zero_def)
    qed
    then have "tracks now h ?m (Some (window_step window win now))"
      using True by (simp add: tracks_def update_conv)
    moreover have "ok \<longleftrightarrow> snd (window_step window win now) \<le> limit"
      using \<open>window_step window win now = _ \<and> _\<close> res(2) by simp
    ultimately show ?thesis using res(1) dm True by (intro exI [of _ ?m]) simp
  next
    case False
    then have "tracks now h ?m win" using t [OF assms(4)] by (simp add: tracks_def update_conv)
    with False res(1) dm show ?thesis by (intro exI [of _ ?m]) simp
  qed
qed

text \<open>How many requests of one host are let through in an interval of the length of a window: \<open>granted\<close>
  so far, with the current window's end and count.\<close>

definition bounded :: "int \<Rightarrow> duration \<Rightarrow> gotime \<Rightarrow> gotime \<Rightarrow> (gotime \<times> int) option \<Rightarrow> int \<Rightarrow> bool" where
  "bounded limit w t last_time win granted \<longleftrightarrow> 0 \<le> granted \<and> (last_time < t \<longrightarrow> granted = 0)
     \<and> (case win of
          None \<Rightarrow> granted = 0
        | Some (reset, count) \<Rightarrow> 1 \<le> count \<and>
            (granted \<le> min count limit \<and> (0 < granted \<longrightarrow> t \<le> reset)
             \<or> t < reset - w \<and> granted \<le> limit + min count limit
             \<or> t + w < last_time \<and> granted \<le> 2 * limit))"

lemma bounded_step:
  assumes "bounded limit w t last_time win granted" "last_time \<le> now" "0 < limit" "0 < w"
  shows "bounded limit w t now (Some (window_step w win now))
    (granted + (if snd (window_step w win now) \<le> limit \<and> t \<le> now \<and> now \<le> t + w then 1 else 0))"
proof (cases win)
  case None
  with assms show ?thesis by (auto simp: bounded_def)
next
  case (Some rc)
  obtain r c where win: "win = Some (r, c)" using Some by (cases rc) auto
  show ?thesis
  proof (cases "r < now")
    case True
    with assms show ?thesis unfolding win bounded_def
      by (clarsimp simp del: min.bounded_iff) (elim disjE; auto)
  next
    case False
    with assms show ?thesis unfolding win bounded_def
      by (clarsimp simp del: min.bounded_iff) (elim disjE; auto)
  qed
qed

lemma bounded_later: "bounded limit w t a win n \<Longrightarrow> a \<le> b \<Longrightarrow> n = 0 \<or> t \<le> a \<Longrightarrow> bounded limit w t b win n"
  by (auto simp: bounded_def split: option.splits)

lemma bounded_max: "bounded limit w t a win n \<Longrightarrow> 0 < limit \<Longrightarrow> n \<le> 2 * limit"
  by (auto simp: bounded_def split: option.splits)

section \<open>A history of requests\<close>

fun limiter_history ::
  "(string \<Rightarrow> string option) \<Rightarrow> window_limiter option \<Rightarrow> (string \<times> gotime) list \<Rightarrow> (string \<times> gotime \<times> bool) list" where
  "limiter_history split_host l [] = []"
| "limiter_history split_host l ((remote, now) # rs) =
     (let (l', ok) = allow_request split_host remote now l
      in (remote, now, ok) # limiter_history split_host l' rs)"

text \<open>The reference: the verdicts of one host's requests, from their times alone.\<close>

fun window_verdicts :: "int \<Rightarrow> duration \<Rightarrow> (gotime \<times> int) option \<Rightarrow> gotime list \<Rightarrow> (gotime \<times> bool) list" where
  "window_verdicts limit w win [] = []"
| "window_verdicts limit w win (now # ts) =
     (let win' = window_step w win now in (now, snd win' \<le> limit) # window_verdicts limit w (Some win') ts)"

lemma history_verdicts:
  assumes "tracks last_time h l win" "distinct (map fst (wl_entries l))" "0 < wl_limit l" "0 < wl_window l"
    and "sorted (last_time # map snd rs)" "\<forall>now\<in>snd ` set rs. 0 < now"
  shows "map snd (filter (\<lambda>r. limited_host split_host (fst r) = h) (limiter_history split_host (Some l) rs))
    = window_verdicts (wl_limit l) (wl_window l) win (map snd (filter (\<lambda>r. limited_host split_host (fst r) = h) rs))"
  using assms
proof (induction rs arbitrary: last_time l win)
  case (Cons r rs)
  obtain remote now where r: "r = (remote, now)" by (cases r)
  obtain l' ok where step: "allow_request split_host remote now (Some l) = (l', ok)" by fastforce
  then have "allow_with split_host remote (wl_limit l) (wl_window l) now (Some l) = (l', ok)"
    by (simp add: allow_request_def)
  from allow_with_tracks [OF Cons.prems(3,4,2,1) _ _ this refl] Cons.prems(5,6)
  obtain m where m: "l' = Some m" "distinct (map fst (wl_entries m))" "wl_limit m = wl_limit l" "wl_window m = wl_window l"
    "if limited_host split_host remote = h
     then tracks now h m (Some (window_step (wl_window l) win now)) \<and> (ok \<longleftrightarrow> snd (window_step (wl_window l) win now) \<le> wl_limit l)
     else tracks now h m win"
    unfolding r by auto
  have rest: "sorted (now # map snd rs)" "\<forall>now\<in>snd ` set rs. 0 < now" using Cons.prems(5,6) by (auto simp: r)
  show ?case
  proof (cases "limited_host split_host remote = h")
    case True
    with m Cons.IH [of now m, OF _ m(2) _ _ rest] Cons.prems(3,4) show ?thesis by (simp add: r step Let_def)
  next
    case False
    with m Cons.IH [of now m, OF _ m(2) _ _ rest] Cons.prems(3,4) show ?thesis by (simp add: r step)
  qed
qed simp

lemma verdicts_bounded:
  assumes "bounded limit w t last_time win granted" "sorted (last_time # ts)" "0 < limit" "0 < w"
  shows "granted + int (length (filter (\<lambda>(now, ok). ok \<and> t \<le> now \<and> now \<le> t + w) (window_verdicts limit w win ts)))
    \<le> 2 * limit"
  using assms
proof (induction ts arbitrary: last_time win granted)
  case Nil
  then show ?case using bounded_max by fastforce
next
  case (Cons now ts)
  have "last_time \<le> now" "sorted (now # ts)" using Cons.prems(2) by auto
  from Cons.IH [OF bounded_step [OF Cons.prems(1) this(1) Cons.prems(3,4)] this(2) Cons.prems(3,4)]
  show ?case by (auto simp: Let_def)
qed

lemma new_limiter_tracks: "tracks t h (new_window_limiter limit w) None"
  by (simp add: tracks_def new_window_limiter_def)

lemma nothing_granted: "bounded limit w t last_time None 0"
  by (simp add: bounded_def)

text \<open>The limiter of logins and of the API counts every client host on its own: whatever the other hosts
  send, and although expired entries are swept only once a window, the verdicts a host gets are those of
  the plain fixed-window counter run on the times of its own requests.\<close>
theorem hosts_limited_independently:
  assumes "0 < limit" "0 < w" "sorted (map snd rs)" "\<forall>now\<in>snd ` set rs. 0 < now"
  shows "map snd (filter (\<lambda>r. limited_host split_host (fst r) = h)
      (limiter_history split_host (Some (new_window_limiter limit w)) rs))
    = window_verdicts limit w None (map snd (filter (\<lambda>r. limited_host split_host (fst r) = h) rs))"
proof -
  have "sorted (0 # map snd rs)" using assms(3,4) by (auto intro: less_imp_le)
  from history_verdicts [OF new_limiter_tracks [where t = 0] _ _ _ this assms(4)] assms(1,2)
  show ?thesis by (simp add: new_window_limiter_def)
qed

text \<open>C35: No client gets more than twice the limit of requests through in any stretch of time of one window's
  length, whatever it and the others send: with the limit on logins, password guessing from one
  address is bounded.\<close>
theorem login_attempts_bounded:
  assumes "0 < limit" "0 < w" "sorted (map snd rs)" "\<forall>now\<in>snd ` set rs. 0 < now"
  shows "int (length (filter (\<lambda>(remote, now, ok). limited_host split_host remote = h \<and> ok \<and> t \<le> now \<and> now \<le> t + w)
      (limiter_history split_host (Some (new_window_limiter limit w)) rs))) \<le> 2 * limit"
proof -
  let ?hist = "limiter_history split_host (Some (new_window_limiter limit w)) rs"
  let ?mine = "map snd (filter (\<lambda>r. limited_host split_host (fst r) = h) ?hist)"
  have "sorted (0 # map snd rs)" using assms(3,4) by (auto intro: less_imp_le)
  from history_verdicts [OF new_limiter_tracks [where t = 0] _ _ _ this assms(4)] assms(1,2)
  have mine: "?mine = window_verdicts limit w None (map snd (filter (\<lambda>r. limited_host split_host (fst r) = h) rs))"
    by (simp add: new_window_limiter_def)
  have count: "length (filter (\<lambda>(remote, now, ok). limited_host split_host remote = h \<and> ok \<and> t \<le> now \<and> now \<le> t + w) xs)
    = length (filter (\<lambda>(now, ok). ok \<and> t \<le> now \<and> now \<le> t + w) (map snd (filter (\<lambda>r. limited_host split_host (fst r) = h) xs)))"
    for xs by (induction xs) auto
  have "sorted (map snd (filter (\<lambda>r. limited_host split_host (fst r) = h) rs))"
    using assms(3) by (induction rs) auto
  with assms(4) have "sorted (0 # map snd (filter (\<lambda>r. limited_host split_host (fst r) = h) rs))"
    by (fastforce intro: less_imp_le)
  from verdicts_bounded [OF nothing_granted this assms(1,2), of t] show ?thesis
    unfolding count mine by simp
qed

text \<open>Two clients, a limit of two in ten ticks: the third request of the first is refused, the second client
  is not affected, and the first gets two more after its window.\<close>

definition two_clients :: "(string \<times> gotime) list" where
  "two_clients = [(''a'', 1), (''a'', 2), (''a'', 3), (''b'', 4), (''a'', 12), (''a'', 13), (''a'', 14)]"

lemma hosts_limited_independently_witness:
  "map snd (filter (\<lambda>r. limited_host Some (fst r) = ''a'')
      (limiter_history Some (Some (new_window_limiter 2 10)) two_clients))
    = [(1, True), (2, True), (3, False), (12, True), (13, True), (14, False)]"
  using hosts_limited_independently [of 2 10 two_clients Some "''a''"]
  by (simp add: two_clients_def limited_host_def)

lemma login_attempts_bounded_witness:
  "int (length (filter (\<lambda>(remote, now, ok). limited_host Some remote = ''a'' \<and> ok \<and> 2 \<le> now \<and> now \<le> 2 + 10)
      (limiter_history Some (Some (new_window_limiter 2 10)) two_clients))) \<le> 4"
  using login_attempts_bounded [of 2 10 two_clients Some "''a''" 2] by (simp add: two_clients_def)

end
