(* ===== verification/Go_Base64.thy ===== *)
theory Go_Base64
  imports Go_Strings
begin

text \<open>
  The unpadded standard and URL alphabets of \<open>encoding/base64\<close> (\<open>RawStdEncoding\<close>,
  \<open>RawURLEncoding\<close>).  The decoder skips carriage returns and newlines and ignores the bits of the
  last character that do not make up a byte, as Go's does.
\<close>

definition std_alphabet :: string where
  "std_alphabet = ''ABCDEFGHIJKLMNOPQRSTUVWXYZabcdefghijklmnopqrstuvwxyz0123456789+/''"

definition url_alphabet :: string where
  "url_alphabet = ''ABCDEFGHIJKLMNOPQRSTUVWXYZabcdefghijklmnopqrstuvwxyz0123456789-_''"

fun sextets :: "nat list \<Rightarrow> nat list" where
  "sextets (a # b # c # bs) =
     [a div 4, (a mod 4) * 16 + b div 16, (b mod 16) * 4 + c div 64, c mod 64] @ sextets bs"
| "sextets [a, b] = [a div 4, (a mod 4) * 16 + b div 16, (b mod 16) * 4]"
| "sextets [a] = [a div 4, (a mod 4) * 16]"
| "sextets [] = []"

fun octets :: "nat list \<Rightarrow> nat list option" where
  "octets (p # q # r # s # vs) =
     map_option (\<lambda>bs. [p * 4 + q div 16, (q mod 16) * 16 + r div 4, (r mod 4) * 64 + s] @ bs) (octets vs)"
| "octets [p, q, r] = Some [p * 4 + q div 16, (q mod 16) * 16 + r div 4]"
| "octets [p, q] = Some [p * 4 + q div 16]"
| "octets [p] = None"
| "octets [] = Some []"

definition b64_encode :: "string \<Rightarrow> string \<Rightarrow> string" where
  "b64_encode alphabet s = map (\<lambda>v. alphabet ! v) (sextets (map byte s))"

fun index_from :: "nat \<Rightarrow> char \<Rightarrow> string \<Rightarrow> nat option" where
  "index_from i c [] = None"
| "index_from i c (x # xs) = (if x = c then Some i else index_from (Suc i) c xs)"

fun values_of :: "string \<Rightarrow> string \<Rightarrow> nat list option" where
  "values_of alphabet [] = Some []"
| "values_of alphabet (c # cs) =
     (if byte c = 10 \<or> byte c = 13 then values_of alphabet cs
      else (case index_from 0 c alphabet of
              None \<Rightarrow> None
            | Some v \<Rightarrow> map_option ((#) v) (values_of alphabet cs)))"

definition b64_decode :: "string \<Rightarrow> string \<Rightarrow> string option" where
  "b64_decode alphabet s =
     (case values_of alphabet s of
        None \<Rightarrow> None
      | Some vs \<Rightarrow> map_option (map char_of) (octets vs))"

section \<open>Decoding what was encoded\<close>

lemma sextets_small: "\<forall>b \<in> set bs. b < 256 \<Longrightarrow> \<forall>v \<in> set (sextets bs). v < 64"
proof (induction bs rule: sextets.induct)
  case (1 a b c bs)
  then have "a < 256" "b < 256" "c < 256" by auto
  moreover have "(a mod 4) * 16 + b div 16 < 64" if "b < 256" for a b :: nat
  proof -
    have "a mod 4 \<le> 3" "b div 16 \<le> 15" using that by simp_all
    then show ?thesis by linarith
  qed
  moreover have "(b mod 16) * 4 + c div 64 < 64" if "c < 256" for b c :: nat
  proof -
    have "b mod 16 \<le> 15" "c div 64 \<le> 3" using that by simp_all
    then show ?thesis by linarith
  qed
  ultimately show ?case using 1 by auto
next
  case (2 a b)
  then have "a < 256" "b < 256" by auto
  moreover have "a mod 4 \<le> 3" "b mod 16 \<le> 15" by simp_all
  moreover have "b div 16 \<le> 15" using \<open>b < 256\<close> by simp
  ultimately show ?case by auto
next
  case (3 a)
  then have "a < 256" "a mod 4 \<le> 3" by simp_all
  then show ?case by auto
qed simp

lemma octets_sextets: "\<forall>b \<in> set bs. b < 256 \<Longrightarrow> octets (sextets bs) = Some bs"
proof (induction bs rule: sextets.induct)
  case (1 a b c bs)
  then have "b < 256" "c < 256" by auto
  then have "b div 16 < 16" "c div 64 < 4" by simp_all
  with 1 show ?case by (simp add: div_mult2_eq [symmetric] mod_mult2_eq [symmetric])
next
  case (2 a b)
  then have "b < 256" by simp
  then have "b div 16 < 16" by simp
  then show ?case by simp
qed simp_all

definition alphabet_ok :: "string \<Rightarrow> bool" where
  "alphabet_ok al \<longleftrightarrow> length al = 64 \<and> distinct al \<and> (\<forall>c \<in> set al. byte c \<noteq> 10 \<and> byte c \<noteq> 13)"

lemma index_from_nth: "distinct al \<Longrightarrow> v < length al \<Longrightarrow> index_from i (al ! v) al = Some (i + v)"
proof (induction al arbitrary: i v)
  case (Cons x al)
  then show ?case by (cases v) auto
qed simp

lemma values_of_encoded:
  assumes "alphabet_ok al" "\<forall>v \<in> set vs. v < 64"
  shows "values_of al (map ((!) al) vs) = Some vs"
  using assms(2)
proof (induction vs)
  case (Cons v vs)
  with assms(1) have "v < length al" "al ! v \<in> set al" by (simp_all add: alphabet_ok_def)
  with Cons assms(1) index_from_nth [of al v 0] show ?case by (simp add: alphabet_ok_def)
qed simp

lemma byte_less [simp]: "byte c < 256"
  by (simp add: byte_def of_char_def)

lemma b64_roundtrip:
  assumes "alphabet_ok al"
  shows "b64_decode al (b64_encode al s) = Some s"
proof -
  have bytes: "\<forall>b \<in> set (map byte s). b < 256" by auto
  have "char_of (byte c) = c" for c by (simp add: byte_def)
  then have "map char_of (map byte s) = s" by (simp add: map_idI)
  with bytes show ?thesis
    by (simp add: b64_decode_def b64_encode_def values_of_encoded [OF assms sextets_small [OF bytes]] octets_sextets)
qed

lemma std_alphabet_ok: "alphabet_ok std_alphabet"
  by code_simp

lemma url_alphabet_ok: "alphabet_ok url_alphabet"
  by code_simp

lemma encoded_chars:
  assumes "alphabet_ok al"
  shows "set (b64_encode al s) \<subseteq> set al"
proof -
  have "\<forall>v \<in> set (sextets (map byte s)). v < length al"
    using sextets_small [of "map byte s"] assms by (auto simp: alphabet_ok_def)
  then show ?thesis by (auto simp: b64_encode_def)
qed

end
