(* ===== verification/Api_Password.thy ===== *)
theory Api_Password
  imports Go_Base64
begin

unbundle bit_operations_syntax

text \<open>
  \<open>internal/api/password.go\<close>: salted PBKDF2 hashes of passwords.  \<open>hmac key text\<close> stands for
  HMAC-SHA256; what is relied on is that it yields 32 bytes.
\<close>

type_synonym hmac_fn = "string \<Rightarrow> string \<Rightarrow> string"

definition password_iterations :: int where
  "password_iterations = 210000"

definition hash_size :: nat where
  "hash_size = 32"

definition xor_bytes :: "string \<Rightarrow> string \<Rightarrow> string" where
  "xor_bytes t u = map2 (\<lambda>a b. char_of (byte a XOR byte b)) t u"

fun pbkdf2_rounds :: "hmac_fn \<Rightarrow> string \<Rightarrow> nat \<Rightarrow> string \<Rightarrow> string \<Rightarrow> string" where
  "pbkdf2_rounds hmac password 0 u t = t"
| "pbkdf2_rounds hmac password (Suc i) u t =
     (let u = hmac password u in pbkdf2_rounds hmac password i u (xor_bytes t u))"

definition block_index :: "nat \<Rightarrow> string" where
  "block_index b = [char_of (b div 2 ^ 24), char_of (b div 2 ^ 16), char_of (b div 2 ^ 8), char_of b]"

definition pbkdf2_block :: "hmac_fn \<Rightarrow> string \<Rightarrow> string \<Rightarrow> int \<Rightarrow> nat \<Rightarrow> string" where
  "pbkdf2_block hmac password salt iter block =
     (let u = hmac password (salt @ block_index block) in pbkdf2_rounds hmac password (nat (iter - 1)) u u)"

definition pbkdf2 :: "hmac_fn \<Rightarrow> string \<Rightarrow> string \<Rightarrow> int \<Rightarrow> nat \<Rightarrow> string" where
  "pbkdf2 hmac password salt iter key_len =
     (let num_blocks = (key_len + hash_size - 1) div hash_size in
      take key_len (concat (map (pbkdf2_block hmac password salt iter) [1..<num_blocks + 1])))"

text \<open>\<open>rnd\<close> is the salt the random source yields, or its failure.\<close>

definition hash_password :: "hmac_fn \<Rightarrow> string + string \<Rightarrow> string \<Rightarrow> string + string" where
  "hash_password hmac rnd password =
     (case rnd of
        Inl e \<Rightarrow> Inl e
      | Inr salt \<Rightarrow>
          let digest = pbkdf2 hmac password salt password_iterations 32 in
          Inr (''pbkdf2-sha256$'' @ show_int password_iterations @ ''$'' @ b64_encode std_alphabet salt
               @ ''$'' @ b64_encode std_alphabet digest))"

definition verify_password :: "hmac_fn \<Rightarrow> string \<Rightarrow> string \<Rightarrow> bool" where
  "verify_password hmac encoded password =
     (case split_on (CHR ''$'') encoded of
        [alg, iters, salt, digest] \<Rightarrow>
          if alg \<noteq> ''pbkdf2-sha256'' then False
          else
            (case atoi iters of
               None \<Rightarrow> False
             | Some iters \<Rightarrow>
                 if iters \<le> 0 then False
                 else
                   (case b64_decode std_alphabet salt of
                      None \<Rightarrow> False
                    | Some salt \<Rightarrow>
                        (case b64_decode std_alphabet digest of
                           None \<Rightarrow> False
                         | Some want \<Rightarrow> pbkdf2 hmac password salt iters (length want) = want)))
      | _ \<Rightarrow> False)"

section \<open>Lengths\<close>

lemma length_xor_bytes [simp]: "length (xor_bytes t u) = min (length t) (length u)"
  by (simp add: xor_bytes_def)

lemma length_pbkdf2_rounds:
  assumes "\<And>k x. length (hmac k x) = hash_size"
  shows "length t = hash_size \<Longrightarrow> length (pbkdf2_rounds hmac password i u t) = hash_size"
  by (induction i arbitrary: u t) (simp_all add: assms Let_def)

lemma length_pbkdf2:
  assumes "\<And>k x. length (hmac k x) = hash_size"
  shows "length (pbkdf2 hmac password salt iter key_len) = key_len"
proof -
  let ?n = "(key_len + hash_size - 1) div hash_size"
  have b: "length (pbkdf2_block hmac password salt iter b) = hash_size" for b
    unfolding pbkdf2_block_def Let_def by (rule length_pbkdf2_rounds [OF assms]) (rule assms)
  have "length (concat (map (pbkdf2_block hmac password salt iter) bs)) = hash_size * length bs" for bs
    by (induction bs) (simp_all add: b)
  then have "length (pbkdf2 hmac password salt iter key_len) = min key_len (hash_size * ?n)"
    by (simp add: pbkdf2_def Let_def min.commute del: upt_Suc)
  moreover have "key_len \<le> hash_size * ?n" by (simp add: hash_size_def)
  ultimately show ?thesis by simp
qed

lemma no_dollar: "CHR ''$'' \<notin> set (b64_encode std_alphabet s)"
  using encoded_chars [OF std_alphabet_ok, of s] by (auto simp: std_alphabet_def)

lemma split_hash:
  "split_on (CHR ''$'') (''pbkdf2-sha256$'' @ show_int password_iterations @ ''$'' @ b64_encode std_alphabet a
       @ ''$'' @ b64_encode std_alphabet b)
   = [''pbkdf2-sha256'', show_int password_iterations, b64_encode std_alphabet a, b64_encode std_alphabet b]"
proof -
  have i: "CHR ''$'' \<notin> set (show_int password_iterations)" by code_simp
  show ?thesis
    using split_on_append_sep [of "CHR ''$''" "''pbkdf2-sha256''"] split_on_append_sep [OF i]
      split_on_append_sep [OF no_dollar [of a]] split_on_no_occurrence [OF no_dollar [of b]]
    by simp
qed

section \<open>Properties\<close>

text \<open>A password is accepted against a hash made for a password exactly when both derive the same
  32 bytes with the salt of that hash; so the password the hash was made for is always accepted,
  whatever bytes it, the salt and the digest consist of.\<close>

theorem hashed_password_verifies:
  assumes "\<And>k x. length (hmac k x) = hash_size" "hash_password hmac (Inr salt) password = Inr encoded"
  shows "(verify_password hmac encoded attempt \<longleftrightarrow>
      pbkdf2 hmac attempt salt password_iterations 32 = pbkdf2 hmac password salt password_iterations 32)
    \<and> verify_password hmac encoded password"
proof -
  have "atoi (show_int password_iterations) = Some password_iterations"
    by (rule atoi_show_int) (simp_all add: password_iterations_def min_int64_def max_int64_def)
  moreover have "0 < password_iterations" by (simp add: password_iterations_def)
  ultimately have v: "verify_password hmac encoded x \<longleftrightarrow>
      pbkdf2 hmac x salt password_iterations 32 = pbkdf2 hmac password salt password_iterations 32" for x
  proof -
    have "split_on (CHR ''$'') encoded = [''pbkdf2-sha256'', show_int password_iterations, b64_encode std_alphabet salt,
        b64_encode std_alphabet (pbkdf2 hmac password salt password_iterations 32)]"
      using assms(2) unfolding hash_password_def Let_def sum.case sum.inject by (rule subst) (rule split_hash)
    with \<open>0 < password_iterations\<close> \<open>atoi (show_int password_iterations) = Some password_iterations\<close> show ?thesis
      by (simp add: verify_password_def b64_roundtrip [OF std_alphabet_ok] length_pbkdf2 [OF assms(1)])
  qed
  show ?thesis by (simp add: v)
qed

definition toy_hmac :: hmac_fn where
  "toy_hmac k x = take 32 (k @ x @ replicate 32 (CHR ''.''))"

theorem hashed_password_verifies_witness:
  "\<exists>encoded. hash_password toy_hmac (Inr ''salt'') ''correct horse'' = Inr encoded
     \<and> verify_password toy_hmac encoded ''correct horse''"
proof -
  obtain encoded where e: "hash_password toy_hmac (Inr ''salt'') ''correct horse'' = Inr encoded"
    by (simp add: hash_password_def Let_def)
  have "length (toy_hmac k x) = hash_size" for k x by (simp add: toy_hmac_def hash_size_def)
  from hashed_password_verifies [OF this e] e show ?thesis by blast
qed

text \<open>A stored hash with an empty digest accepts every password: the comparison is of no bytes.\<close>

lemma empty_digest_accepts_everything: "verify_password hmac ''pbkdf2-sha256$1$c2FsdA$'' password"
proof -
  have "split_on (CHR ''$'') ''pbkdf2-sha256$1$c2FsdA$'' = [''pbkdf2-sha256'', ''1'', ''c2FsdA'', []]" by code_simp
  moreover have "atoi ''1'' = Some 1" "b64_decode std_alphabet ''c2FsdA'' = Some ''salt''" "b64_decode std_alphabet [] = Some []"
    by code_simp+
  ultimately show ?thesis by (simp add: verify_password_def pbkdf2_def hash_size_def)
qed

end
