(* ===== verification/Config_Load.thy ===== *)
theory Config_Load
  imports Config_Validate
begin

text \<open>
  \<open>internal/config/load.go\<close>, \<open>holder.go\<close> and \<open>reload.go\<close>: reading a configuration file, the
  defaults, the environment, saving, and the reload that swaps the active configuration.

  The YAML codec is a third-party package and a parameter (\<open>lp_unmarshal\<close>, \<open>lp_marshal\<close>), so is
  \<open>time.ParseDuration\<close>.  The directory of the file is a map from paths to contents.  The state the
  callbacks of a reload change is a type variable.
\<close>

record load_env =
  lp_val :: val_env
  lp_getenv :: "string \<Rightarrow> string"
  lp_duration :: "string \<Rightarrow> duration option"
  lp_unmarshal :: "string \<Rightarrow> config option"
  lp_marshal :: "config \<Rightarrow> string option"

datatype load_error = File_Error string | Yaml_Error | Invalid "problem list"

section \<open>Defaults\<close>

definition or_string :: "string \<Rightarrow> string \<Rightarrow> string" where
  "or_string x d = (if x = [] then d else x)"

definition or_int :: "int \<Rightarrow> int \<Rightarrow> int" where
  "or_int x d = (if x = 0 then d else x)"

definition default_server :: "server \<Rightarrow> server" where
  "default_server s =
     (let d = sv_dns s; h = sv_http s in
      s\<lparr>sv_dns := d\<lparr>ds_listen := (if ds_listen d = [] then [''0.0.0.0:53'', ''[::]:53''] else ds_listen d),
          ds_udp_size := or_int (ds_udp_size d) 1232,
          ds_rate_limit_qps := or_int (ds_rate_limit_qps d) 200,
          ds_rate_limit_burst := or_int (ds_rate_limit_burst d) 400\<rparr>,
        sv_http := h\<lparr>hs_listen := or_string (hs_listen h) ''127.0.0.1:8080'',
          hs_rate_limit_per_minute := or_int (hs_rate_limit_per_minute h) 600\<rparr>,
        sv_data_dir := or_string (sv_data_dir s) ''./data'',
        sv_store_backend := or_string (sv_store_backend s) ''json'',
        sv_tz := or_string (sv_tz s) ''Local''\<rparr>)"

definition default_cache :: "cache_config \<Rightarrow> cache_config" where
  "default_cache c = c\<lparr>cc_max_entries := or_int (cc_max_entries c) 100000, cc_min_ttl := or_int (cc_min_ttl c) minute,
     cc_max_ttl := or_int (cc_max_ttl c) (24 * hour), cc_negative_ttl := or_int (cc_negative_ttl c) hour\<rparr>"

definition apply_defaults :: "config \<Rightarrow> config" where
  "apply_defaults c =
     (let p = c_privacy c; l = c_logging c; b = c_block c; a = c_auth c in
      c\<lparr>c_server := default_server (c_server c),
        c_cache := default_cache (c_cache c),
        c_privacy := p\<lparr>pv_log_mode := or_string (pv_log_mode p) ''full''\<rparr>,
        c_logging := l\<lparr>lg_rotate_size_mb := or_int (lg_rotate_size_mb l) 100,
          lg_retention_days := or_int (lg_retention_days l) 7\<rparr>,
        c_block := b\<lparr>bc_response_a := or_string (bc_response_a b) ''0.0.0.0'',
          bc_response_aaaa := or_string (bc_response_aaaa b) ''::'',
          bc_response_ttl := or_int (bc_response_ttl b) minute\<rparr>,
        c_auth := a\<lparr>au_session_ttl := or_int (au_session_ttl a) (24 * hour),
          au_cookie_name := or_string (au_cookie_name a) ''sis_session''\<rparr>\<rparr>)"

section \<open>The environment\<close>

definition set_string :: "string \<Rightarrow> string \<Rightarrow> string" where
  "set_string v target = (if v \<noteq> [] then v else target)"

definition set_int :: "string \<Rightarrow> int \<Rightarrow> int" where
  "set_int v target = (if v = [] then target else (case atoi v of None \<Rightarrow> target | Some n \<Rightarrow> n))"

definition set_bool :: "string \<Rightarrow> bool \<Rightarrow> bool" where
  "set_bool v target = (if v = [] then target else (case parse_bool v of None \<Rightarrow> target | Some b \<Rightarrow> b))"

definition set_duration :: "(string \<Rightarrow> duration option) \<Rightarrow> string \<Rightarrow> duration \<Rightarrow> duration" where
  "set_duration parse v target = (if v = [] then target else (case parse v of None \<Rightarrow> target | Some d \<Rightarrow> d))"

definition split_csv :: "string \<Rightarrow> string list" where
  "split_csv v = filter (\<lambda>p. p \<noteq> []) (map trim_space (split_on (CHR '','') v))"

definition override_server :: "(string \<Rightarrow> string) \<Rightarrow> server \<Rightarrow> server" where
  "override_server env s =
     (let d = sv_dns s; h = sv_http s in
      s\<lparr>sv_data_dir := set_string (env ''SIS_SERVER_DATA_DIR'') (set_string (env ''SIS_DATA_DIR'') (sv_data_dir s)),
        sv_store_backend := set_string (env ''SIS_SERVER_STORE_BACKEND'')
          (set_string (env ''SIS_STORE_BACKEND'') (sv_store_backend s)),
        sv_tz := set_string (env ''SIS_TZ'') (sv_tz s),
        sv_http := h\<lparr>hs_listen := set_string (env ''SIS_SERVER_HTTP_LISTEN'') (set_string (env ''SIS_HTTP_LISTEN'') (hs_listen h)),
          hs_cert_file := set_string (env ''SIS_HTTP_CERT_FILE'') (hs_cert_file h),
          hs_key_file := set_string (env ''SIS_HTTP_KEY_FILE'') (hs_key_file h),
          hs_rate_limit_per_minute := set_int (env ''SIS_SERVER_HTTP_RATE_LIMIT_PER_MINUTE'')
            (set_int (env ''SIS_HTTP_RATE_LIMIT_PER_MINUTE'') (hs_rate_limit_per_minute h)),
          hs_tls := set_bool (env ''SIS_HTTP_TLS'') (hs_tls h)\<rparr>,
        sv_dns := d\<lparr>ds_listen := (if env ''SIS_DNS_LISTEN'' \<noteq> [] then split_csv (env ''SIS_DNS_LISTEN'') else ds_listen d),
          ds_udp_workers := set_int (env ''SIS_DNS_UDP_WORKERS'') (ds_udp_workers d),
          ds_tcp_workers := set_int (env ''SIS_DNS_TCP_WORKERS'') (ds_tcp_workers d),
          ds_udp_size := set_int (env ''SIS_DNS_UDP_SIZE'') (ds_udp_size d),
          ds_rate_limit_qps := set_int (env ''SIS_DNS_RATE_LIMIT_QPS'') (ds_rate_limit_qps d),
          ds_rate_limit_burst := set_int (env ''SIS_DNS_RATE_LIMIT_BURST'') (ds_rate_limit_burst d)\<rparr>\<rparr>)"

definition apply_env_overrides :: "load_env \<Rightarrow> config \<Rightarrow> config" where
  "apply_env_overrides L c =
     (let env = lp_getenv L; dur = lp_duration L;
          k = c_cache c; p = c_privacy c; l = c_logging c; b = c_block c; a = c_auth c in
      c\<lparr>c_server := override_server env (c_server c),
        c_cache := k\<lparr>cc_max_entries := set_int (env ''SIS_CACHE_MAX_ENTRIES'') (cc_max_entries k),
          cc_min_ttl := set_duration dur (env ''SIS_CACHE_MIN_TTL'') (cc_min_ttl k),
          cc_max_ttl := set_duration dur (env ''SIS_CACHE_MAX_TTL'') (cc_max_ttl k),
          cc_negative_ttl := set_duration dur (env ''SIS_CACHE_NEGATIVE_TTL'') (cc_negative_ttl k)\<rparr>,
        c_privacy := p\<lparr>pv_log_mode := set_string (env ''SIS_PRIVACY_LOG_MODE'') (pv_log_mode p),
          pv_log_salt := set_string (env ''SIS_PRIVACY_LOG_SALT'') (pv_log_salt p),
          pv_strip_ecs := set_bool (env ''SIS_PRIVACY_STRIP_ECS'') (pv_strip_ecs p),
          pv_block_local_ptr := set_bool (env ''SIS_PRIVACY_BLOCK_LOCAL_PTR'') (pv_block_local_ptr p)\<rparr>,
        c_logging := l\<lparr>lg_query_log := set_bool (env ''SIS_LOGGING_QUERY_LOG'') (lg_query_log l),
          lg_audit_log := set_bool (env ''SIS_LOGGING_AUDIT_LOG'') (lg_audit_log l),
          lg_rotate_size_mb := set_int (env ''SIS_LOGGING_ROTATE_SIZE_MB'') (lg_rotate_size_mb l),
          lg_retention_days := set_int (env ''SIS_LOGGING_RETENTION_DAYS'') (lg_retention_days l),
          lg_gzip := set_bool (env ''SIS_LOGGING_GZIP'') (lg_gzip l)\<rparr>,
        c_block := b\<lparr>bc_response_a := set_string (env ''SIS_BLOCK_RESPONSE_A'') (bc_response_a b),
          bc_response_aaaa := set_string (env ''SIS_BLOCK_RESPONSE_AAAA'') (bc_response_aaaa b),
          bc_response_ttl := set_duration dur (env ''SIS_BLOCK_RESPONSE_TTL'') (bc_response_ttl b),
          bc_use_nxdomain := set_bool (env ''SIS_BLOCK_USE_NXDOMAIN'') (bc_use_nxdomain b)\<rparr>,
        c_auth := a\<lparr>au_cookie_name := set_string (env ''SIS_AUTH_COOKIE_NAME'') (au_cookie_name a),
          au_secure_cookie := set_bool (env ''SIS_AUTH_SECURE_COOKIE'') (au_secure_cookie a),
          au_first_run := set_bool (env ''SIS_AUTH_FIRST_RUN'') (au_first_run a),
          au_session_ttl := set_duration dur (env ''SIS_AUTH_SESSION_TTL'') (au_session_ttl a)\<rparr>\<rparr>)"

section \<open>The loader\<close>

type_synonym files = "(string, string) alist"

definition load :: "load_env \<Rightarrow> string \<Rightarrow> files \<Rightarrow> load_error + config" where
  "load L path fs =
     (case map_of fs path of
        None \<Rightarrow> Inl (File_Error path)
      | Some raw \<Rightarrow>
          (case lp_unmarshal L raw of
             None \<Rightarrow> Inl Yaml_Error
           | Some c \<Rightarrow>
               let c = apply_env_overrides L (apply_defaults c);
                   problems = validate (lp_val L) (Some c)
               in if problems \<noteq> [] then Inl (Invalid problems) else Inr c))"

text \<open>The system calls of \<open>Save\<close> and their errors; \<open>si_temp\<close> is the name of the temporary file.\<close>

record save_io =
  si_mkdir :: "string option"
  si_temp :: "string + string"
  si_write :: "string option"
  si_chmod :: "string option"
  si_sync :: "string option"
  si_close :: "string option"
  si_rename :: "string option"
  si_sync_dir :: "string option"

text \<open>\<open>removed\<close> is the deferred \<open>os.Remove\<close> of the temporary file.\<close>

definition save :: "load_env \<Rightarrow> save_io \<Rightarrow> string \<Rightarrow> config \<Rightarrow> files \<Rightarrow> files \<times> load_error option" where
  "save L io path c fs =
     (case lp_marshal L c of
        None \<Rightarrow> (fs, Some Yaml_Error)
      | Some raw \<Rightarrow>
          (case si_mkdir io of
             Some e \<Rightarrow> (fs, Some (File_Error e))
           | None \<Rightarrow>
               (case si_temp io of
                  Inl e \<Rightarrow> (fs, Some (File_Error e))
                | Inr tmp \<Rightarrow>
                    let removed = (\<lambda>fs. AList.delete tmp fs);
                        fs = AList.update tmp [] fs in
                    case si_write io of Some e \<Rightarrow> (removed fs, Some (File_Error e)) | None \<Rightarrow>
                    let fs = AList.update tmp raw fs in
                    case si_chmod io of Some e \<Rightarrow> (removed fs, Some (File_Error e)) | None \<Rightarrow>
                    case si_sync io of Some e \<Rightarrow> (removed fs, Some (File_Error e)) | None \<Rightarrow>
                    case si_close io of Some e \<Rightarrow> (removed fs, Some (File_Error e)) | None \<Rightarrow>
                    case si_rename io of Some e \<Rightarrow> (removed fs, Some (File_Error e)) | None \<Rightarrow>
                    let fs = AList.update path raw (AList.delete tmp fs) in
                    case si_sync_dir io of Some e \<Rightarrow> (removed fs, Some (File_Error e)) | None \<Rightarrow>
                    (removed fs, None))))"

section \<open>The active configuration\<close>

type_synonym holder = "config option"

definition holder_get :: "holder option \<Rightarrow> config option" where
  "holder_get h = (case h of None \<Rightarrow> None | Some cur \<Rightarrow> cur)"

definition holder_replace :: "config option \<Rightarrow> holder option \<Rightarrow> holder option" where
  "holder_replace c h = (case h of None \<Rightarrow> None | Some _ \<Rightarrow> Some c)"

definition new_holder :: "config option \<Rightarrow> holder" where
  "new_holder c = c"

type_synonym 's reload_callback = "config option \<Rightarrow> config \<Rightarrow> 's \<Rightarrow> 's \<times> string option"

record 's reloader =
  rl_path :: "string option"
  rl_holder :: "holder option"
  rl_callbacks :: "'s reload_callback list"

datatype reload_error = Not_Configured | Load_Failed load_error | Callback_Failed string

definition new_reloader :: "string option \<Rightarrow> holder option \<Rightarrow> 's reloader" where
  "new_reloader path h = \<lparr>rl_path = path, rl_holder = h, rl_callbacks = []\<rparr>"

definition register :: "'s reload_callback \<Rightarrow> 's reloader \<Rightarrow> 's reloader" where
  "register cb r = r\<lparr>rl_callbacks := rl_callbacks r @ [cb]\<rparr>"

fun run_callbacks :: "config option \<Rightarrow> config \<Rightarrow> 's reload_callback list \<Rightarrow> 's \<Rightarrow> 's \<times> string option" where
  "run_callbacks old c [] s = (s, None)"
| "run_callbacks old c (cb # cbs) s =
     (case cb old c s of
        (s, Some e) \<Rightarrow> (s, Some e)
      | (s, None) \<Rightarrow> run_callbacks old c cbs s)"

definition reload ::
  "load_env \<Rightarrow> files \<Rightarrow> 's reloader option \<Rightarrow> 's \<Rightarrow> ('s reloader option \<times> 's) \<times> reload_error option" where
  "reload L fs r s =
     (case r of
        None \<Rightarrow> ((r, s), Some Not_Configured)
      | Some rl \<Rightarrow>
          (case (rl_path rl, rl_holder rl) of
             (Some path, Some h) \<Rightarrow>
               (case load L path fs of
                  Inl e \<Rightarrow> ((r, s), Some (Load_Failed e))
                | Inr c \<Rightarrow>
                    (case run_callbacks (holder_get (Some h)) c (rl_callbacks rl) s of
                       (s, Some e) \<Rightarrow> ((r, s), Some (Callback_Failed e))
                     | (s, None) \<Rightarrow> ((Some (rl\<lparr>rl_holder := holder_replace (Some c) (Some h)\<rparr>), s), None)))
           | _ \<Rightarrow> ((r, s), Some Not_Configured)))"

section \<open>Facts\<close>

text \<open>A setting read again through its default and its overrides stays what it is.\<close>

lemma set_string_again [simp]:
  "set_string v (set_string v x) = set_string v x"
  "set_string v (or_string (set_string v (or_string x d)) d) = set_string v (or_string x d)"
  "set_string w (set_string v (or_string (set_string w (set_string v (or_string x d))) d)) = set_string w (set_string v (or_string x d))"
  by (simp_all add: set_string_def or_string_def)

lemma set_int_again [simp]:
  "set_int v (set_int v n) = set_int v n"
  "set_int v (or_int (set_int v (or_int n d)) d) = set_int v (or_int n d)"
  "set_int w (set_int v (or_int (set_int w (set_int v (or_int n d))) d)) = set_int w (set_int v (or_int n d))"
  by (simp_all add: set_int_def or_int_def split: option.split)

lemma set_bool_again [simp]: "set_bool v (set_bool v b) = set_bool v b"
  by (simp add: set_bool_def split: option.split)

lemma set_duration_again [simp]:
  "set_duration parse v (or_int (set_duration parse v (or_int n d)) d) = set_duration parse v (or_int n d)"
  by (simp add: set_duration_def or_int_def split: option.split)

lemma or_again [simp]: "or_string (or_string x d) d = or_string x d" "or_int (or_int n k) k = or_int n k"
  by (simp_all add: or_string_def or_int_def)

lemma server_settled:
  "override_server env (default_server (override_server env (default_server s))) = override_server env (default_server s)"
  by (simp add: override_server_def default_server_def Let_def)

lemma settings_settled:
  "apply_env_overrides L (apply_defaults (apply_env_overrides L (apply_defaults c))) = apply_env_overrides L (apply_defaults c)"
  by (simp add: apply_env_overrides_def apply_defaults_def server_settled default_cache_def Let_def)

lemma load_Inr:
  "load L path fs = Inr c \<longleftrightarrow>
     (\<exists>raw c0. map_of fs path = Some raw \<and> lp_unmarshal L raw = Some c0
        \<and> c = apply_env_overrides L (apply_defaults c0) \<and> config_valid (lp_val L) c)"
  by (auto simp: load_def validate_nil_iff Let_def split: option.splits)

text \<open>What \<open>Save\<close> does to the files, whichever call fails.\<close>

lemma save_cases:
  assumes "save L io path c fs = (fs', r)" "tmp \<noteq> path" "tmp \<notin> keys fs" "si_temp io = Inr tmp"
  shows "(r \<noteq> None \<and> map_of fs' = map_of fs)
    \<or> (\<exists>raw. lp_marshal L c = Some raw \<and> map_of fs' = (map_of fs)(path \<mapsto> raw))"
proof -
  have tmp: "map_of fs tmp = None" using assms(3) by (simp add: keys_iff_map_of)
  have "map_of (AList.delete tmp (AList.update tmp x fs)) = map_of fs" for x
    using tmp by (auto simp: delete_conv update_conv fun_eq_iff)
  moreover have "map_of (AList.delete tmp (AList.update tmp x (AList.update tmp y fs))) = map_of fs" for x y
    using tmp by (auto simp: delete_conv update_conv fun_eq_iff)
  moreover have "map_of (AList.delete tmp (AList.update path x (AList.delete tmp (AList.update tmp y (AList.update tmp z fs)))))
      = (map_of fs)(path \<mapsto> x)" for x y z
    using tmp assms(2) by (auto simp: delete_conv update_conv fun_eq_iff)
  ultimately show ?thesis
    using assms(1,4) by (simp add: save_def Let_def split: option.splits) auto
qed

definition effects :: "config option \<Rightarrow> config \<Rightarrow> 's reload_callback list \<Rightarrow> 's \<Rightarrow> 's" where
  "effects old c cbs s = fold (\<lambda>cb s. fst (cb old c s)) cbs s"

definition accepts :: "config option \<Rightarrow> config \<Rightarrow> 's reload_callback list \<Rightarrow> 's \<Rightarrow> nat \<Rightarrow> bool" where
  "accepts old c cbs s j \<longleftrightarrow> snd ((cbs ! j) old c (effects old c (take j cbs) s)) = None"

lemma run_callbacks_spec:
  "run_callbacks old c cbs s = (s', None) \<longleftrightarrow> s' = effects old c cbs s \<and> (\<forall>j < length cbs. accepts old c cbs s j)"
proof (induction cbs arbitrary: s)
  case (Cons cb cbs)
  obtain t r where cb: "cb old c s = (t, r)" by force
  show ?case
  proof (cases r)
    case (Some e)
    with cb have "\<not> accepts old c (cb # cbs) s 0" by (simp add: accepts_def effects_def)
    with cb Some show ?thesis by auto
  next
    case None
    with cb Cons.IH [of t] show ?thesis by (simp add: effects_def accepts_def All_less_Suc2)
  qed
qed (auto simp: effects_def)

lemma run_callbacks_fails:
  "run_callbacks old c cbs s = (s', Some e) \<Longrightarrow>
     \<exists>k < length cbs. s' = effects old c (take (Suc k) cbs) s \<and> \<not> accepts old c cbs s k \<and> (\<forall>j < k. accepts old c cbs s j)"
proof (induction cbs arbitrary: s)
  case (Cons cb cbs)
  obtain t r where cb: "cb old c s = (t, r)" by force
  show ?case
  proof (cases r)
    case (Some x)
    with cb Cons.prems show ?thesis by (intro exI [of _ 0]) (simp add: accepts_def effects_def)
  next
    case None
    with cb Cons.prems Cons.IH [of t] obtain k where "k < length cbs" "s' = effects old c (take (Suc k) cbs) t"
      "\<not> accepts old c cbs t k" "\<forall>j < k. accepts old c cbs t j" by auto
    with cb None show ?thesis
      by (intro exI [of _ "Suc k"]) (simp add: accepts_def effects_def All_less_Suc2)
  qed
qed simp

section \<open>Properties\<close>

text \<open>A reload swaps the active configuration exactly when the file loads and every callback accepts
  it; what becomes active then passes every check.  Otherwise the active configuration stays, and
  the components have taken the new one exactly as far as the callbacks before the failure, and
  the failing one itself, took it: there is no way back for them.\<close>

theorem reload_swaps_last:
  assumes "rl_path rl = Some path" "rl_holder rl = Some old"
  shows "case reload L fs (Some rl) s of
     ((r', s'), None) \<Rightarrow>
        (\<exists>c. load L path fs = Inr c \<and> config_valid (lp_val L) c \<and> r' = Some (rl\<lparr>rl_holder := Some (Some c)\<rparr>)
          \<and> s' = effects old c (rl_callbacks rl) s \<and> (\<forall>j < length (rl_callbacks rl). accepts old c (rl_callbacks rl) s j))
   | ((r', s'), Some e) \<Rightarrow> r' = Some rl
        \<and> ((\<exists>x. load L path fs = Inl x \<and> s' = s \<and> e = Load_Failed x)
           \<or> (\<exists>c k. load L path fs = Inr c \<and> k < length (rl_callbacks rl) \<and> s' = effects old c (take (Suc k) (rl_callbacks rl)) s
                \<and> \<not> accepts old c (rl_callbacks rl) s k \<and> (\<forall>j < k. accepts old c (rl_callbacks rl) s j)))"
proof (cases "load L path fs")
  case (Inl e)
  with assms show ?thesis by (simp add: reload_def)
next
  case (Inr c)
  obtain t e where run: "run_callbacks old c (rl_callbacks rl) s = (t, e)" by force
  have valid: "config_valid (lp_val L) c" using Inr by (auto simp: load_Inr)
  show ?thesis
  proof (cases e)
    case None
    then have "reload L fs (Some rl) s = ((Some (rl\<lparr>rl_holder := Some (Some c)\<rparr>), t), None)"
      using Inr run assms by (simp add: reload_def holder_get_def holder_replace_def)
    with Inr valid run None run_callbacks_spec [of old c "rl_callbacks rl" s t] show ?thesis by simp
  next
    case (Some x)
    then have "reload L fs (Some rl) s = ((Some rl, t), Some (Callback_Failed x))"
      using Inr run assms by (simp add: reload_def holder_get_def)
    with Inr run Some run_callbacks_fails [of old c "rl_callbacks rl" s t x] show ?thesis by auto
  qed
qed

definition plain_load :: load_env where
  "plain_load = \<lparr>lp_val = plain_env, lp_getenv = (\<lambda>_. []), lp_duration = (\<lambda>_. None),
     lp_unmarshal = (\<lambda>raw. if raw = ''home'' then Some (home_config []) else None), lp_marshal = (\<lambda>_. Some ''home'')\<rparr>"

theorem reload_swaps_last_witness:
  "(case reload plain_load [(''sis.yaml'', ''home'')]
      (Some \<lparr>rl_path = Some ''sis.yaml'', rl_holder = Some None,
         rl_callbacks = [\<lambda>_ _ s. (s + 1, None), \<lambda>_ _ s. (s + 10, Some ''refused'')]\<rparr>) (0 :: nat) of
     ((r', s'), e) \<Rightarrow> s' = 11 \<and> e \<noteq> None \<and> (case r' of Some rl \<Rightarrow> rl_holder rl = Some None | None \<Rightarrow> False))"
proof -
  let ?cbs = "[\<lambda>_ _ s. (s + 1, None), \<lambda>_ _ s. (s + 10, Some ''refused'')] :: nat reload_callback list"
  let ?rl = "\<lparr>rl_path = Some ''sis.yaml'', rl_holder = Some None, rl_callbacks = ?cbs\<rparr>"
  have "case load plain_load ''sis.yaml'' [(''sis.yaml'', ''home'')] of Inr _ \<Rightarrow> True | Inl _ \<Rightarrow> False" by code_simp
  then obtain c where c: "load plain_load ''sis.yaml'' [(''sis.yaml'', ''home'')] = Inr c" by (auto split: sum.splits)
  have acc: "accepts old c ?cbs 0 0" "\<not> accepts old c ?cbs 0 (Suc 0)" for old by (simp_all add: accepts_def effects_def)
  have k: "k = Suc 0" if "k < Suc (Suc 0)" "\<not> accepts old c ?cbs 0 k" for k old using that acc(1) by (cases k) auto
  have eff: "effects old c (take (Suc (Suc 0)) ?cbs) 0 = 11" for old by (simp add: effects_def)
  obtain r' s' e where res: "reload plain_load [(''sis.yaml'', ''home'')] (Some ?rl) 0 = ((r', s'), e)" by (metis prod.collapse)
  note result = reload_swaps_last [of ?rl "''sis.yaml''" None plain_load "[(''sis.yaml'', ''home'')]" 0, unfolded res c]
  have "e \<noteq> None"
  proof
    assume "e = None"
    with result have "\<forall>j < length ?cbs. accepts None c ?cbs 0 j" by simp
    with acc(2) [of None] show False by (auto dest: spec [of _ "Suc 0"])
  qed
  with result obtain k where "r' = Some ?rl" "k < Suc (Suc 0)" "s' = effects None c (take (Suc k) ?cbs) 0" "\<not> accepts None c ?cbs 0 k"
    by auto
  with k [of k None] eff [of None] \<open>e \<noteq> None\<close> show ?thesis unfolding res by auto
qed

text \<open>Saving a configuration under a temporary name that is not in use leaves every other file as
  it was and the configuration file either as it was or with the whole new text, never part of
  it; when saving reports success it is the new text.\<close>

theorem save_atomic:
  assumes "save L io path c fs = (fs', r)" "si_temp io = Inr tmp" "tmp \<noteq> path" "tmp \<notin> keys fs"
  shows "(map_of fs' path = map_of fs path \<or> map_of fs' path = lp_marshal L c)
    \<and> (r = None \<longrightarrow> lp_marshal L c \<noteq> None \<and> map_of fs' path = lp_marshal L c)
    \<and> (\<forall>q. q \<noteq> path \<longrightarrow> map_of fs' q = map_of fs q)"
  using save_cases [OF assms(1,3,4,2)] by auto

theorem save_atomic_witness:
  "let io = \<lparr>si_mkdir = None, si_temp = Inr ''.tmp'', si_write = None, si_chmod = None, si_sync = None, si_close = None,
       si_rename = Some ''busy'', si_sync_dir = None\<rparr> in
   map_of (fst (save plain_load io ''sis.yaml'' (home_config []) [(''sis.yaml'', ''old'')])) ''sis.yaml'' = Some ''old''"
proof -
  let ?io = "\<lparr>si_mkdir = None, si_temp = Inr ''.tmp'', si_write = None, si_chmod = None, si_sync = None, si_close = None,
     si_rename = Some ''busy'', si_sync_dir = None\<rparr>"
  have "map_of (fst (save plain_load ?io ''sis.yaml'' (home_config []) [(''sis.yaml'', ''old'')])) ''sis.yaml'' \<noteq> Some ''home''"
    by (simp add: save_def plain_load_def)
  moreover have "lp_marshal plain_load c = Some ''home''" for c by (simp add: plain_load_def)
  ultimately show ?thesis
    using save_atomic [where io = ?io and path = "''sis.yaml''" and tmp = "''.tmp''" and L = plain_load
        and c = "home_config []" and fs = "[(''sis.yaml'', ''old'')]", OF prod.collapse [symmetric]]
    by (auto simp: Let_def)
qed

text \<open>What was loaded and then saved loads again to the same configuration, in the same environment:
  neither the defaults nor the overrides change a configuration that has them already.\<close>

theorem saved_config_reloads:
  assumes "load L path fs = Inr c" "lp_marshal L c = Some raw" "lp_unmarshal L raw = Some c"
    and "save L io path c fs = (fs', None)" "si_temp io = Inr tmp" "tmp \<noteq> path" "tmp \<notin> keys fs"
  shows "load L path fs' = Inr c"
proof -
  obtain c0 where c: "c = apply_env_overrides L (apply_defaults c0)" "config_valid (lp_val L) c"
    using assms(1) by (auto simp: load_Inr)
  have "map_of fs' path = Some raw" using save_cases [OF assms(4,6,7,5)] assms(2) by auto
  with assms(3) c(2) settings_settled [of L c0] c(1) show ?thesis by (auto simp: load_Inr)
qed

definition settled_home :: config where
  "settled_home = apply_defaults (home_config [])"

definition settled_load :: load_env where
  "settled_load = plain_load\<lparr>lp_unmarshal := \<lambda>raw. if raw = ''home'' then Some settled_home else None\<rparr>"

theorem saved_config_reloads_witness:
  "\<exists>fs'. load settled_load ''sis.yaml'' fs' = Inr settled_home \<and> map_of fs' ''sis.yaml'' = Some ''home''"
proof -
  let ?io = "\<lparr>si_mkdir = None, si_temp = Inr ''.tmp'', si_write = None, si_chmod = None, si_sync = None, si_close = None,
     si_rename = None, si_sync_dir = None\<rparr>"
  let ?fs = "[(''sis.yaml'', ''home'')]"
  have env: "apply_env_overrides settled_load c = c" for c
    by (simp add: apply_env_overrides_def override_server_def settled_load_def plain_load_def set_string_def set_int_def
        set_bool_def set_duration_def Let_def)
  have "validate plain_env (Some settled_home) = []" by code_simp
  then have valid: "config_valid (lp_val settled_load) settled_home"
    by (simp add: validate_nil_iff settled_load_def plain_load_def)
  have "apply_defaults settled_home = settled_home"
    using settings_settled [of settled_load "home_config []"] by (simp add: env settled_home_def)
  with valid have l: "load settled_load ''sis.yaml'' ?fs = Inr settled_home"
    by (simp add: load_Inr env) (simp add: settled_load_def)
  obtain fs' where s: "save settled_load ?io ''sis.yaml'' settled_home ?fs = (fs', None)" "map_of fs' ''sis.yaml'' = Some ''home''"
    by (simp add: save_def settled_load_def plain_load_def)
  have "load settled_load ''sis.yaml'' fs' = Inr settled_home"
    by (rule saved_config_reloads [OF l _ _ s(1), where raw = "''home''" and tmp = "''.tmp''"])
      (simp_all add: settled_load_def plain_load_def)
  with s(2) show ?thesis by blast
qed

end
