(* ===== verification/Audit_Log.thy ===== *)
theory Audit_Log
  imports Query_Log
begin

text \<open>
  \<open>internal/log/audit.go\<close> and \<open>internal/config/secrets.go\<close>: the audit log, the redaction of what is
  written to it, and the copy of the configuration without its secrets.

  A payload is nil, a configuration, a value with the JSON tree it marshals to, or a value that
  does not marshal.
\<close>

section \<open>Secrets of the configuration\<close>

text \<open>\<open>rnd\<close> is the base64 text of the random bytes, \<open>None\<close> when the source fails.\<close>

definition ensure_log_salt :: "string option \<Rightarrow> config option \<Rightarrow> config option \<times> (string + bool)" where
  "ensure_log_salt rnd c =
     (case c of
        None \<Rightarrow> (c, Inr False)
      | Some cfg \<Rightarrow>
          if pv_log_mode (c_privacy cfg) \<noteq> ''hashed'' \<or> pv_log_salt (c_privacy cfg) \<noteq> [] then (c, Inr False)
          else (case rnd of
                  None \<Rightarrow> (c, Inl ''random source failed'')
                | Some salt \<Rightarrow> (Some (cfg\<lparr>c_privacy := (c_privacy cfg)\<lparr>pv_log_salt := salt\<rparr>\<rparr>), Inr True)))"

definition redact_user :: "user \<Rightarrow> user" where
  "redact_user u = (if us_password_hash u \<noteq> [] then u\<lparr>us_password_hash := ''redacted''\<rparr> else u)"

definition redacted_copy :: "config option \<Rightarrow> config option" where
  "redacted_copy c = map_option (\<lambda>c.
     let c = c\<lparr>c_auth := (c_auth c)\<lparr>au_users := map redact_user (au_users (c_auth c))\<rparr>\<rparr>
     in if pv_log_salt (c_privacy c) \<noteq> [] then c\<lparr>c_privacy := (c_privacy c)\<lparr>pv_log_salt := ''redacted''\<rparr>\<rparr> else c) c"

section \<open>Redaction of payloads\<close>

definition sensitive_audit_key :: "golib \<Rightarrow> string \<Rightarrow> bool" where
  "sensitive_audit_key G key =
     (let n = to_lower G key in
      contains_str n ''password'' \<or> contains_str n ''secret'' \<or> contains_str n ''token''
      \<or> contains_str n ''cookie'' \<or> contains_str n ''salt'')"

primrec redact_json :: "golib \<Rightarrow> json \<Rightarrow> json" where
  "redact_json G JNull = JNull"
| "redact_json G (JBool b) = JBool b"
| "redact_json G (JNum n) = JNum n"
| "redact_json G (JStr s) = JStr s"
| "redact_json G (JArr js) = JArr (map (redact_json G) js)"
| "redact_json G (JObj fs) =
     JObj (map (\<lambda>(k, v). (k, if sensitive_audit_key G k then JStr ''redacted'' else v))
             (map (map_prod id (redact_json G)) fs))"

datatype audit_payload = No_Payload | Config_Payload "config option" | Json_Payload json | Opaque_Payload

definition redact_audit_payload :: "golib \<Rightarrow> audit_payload \<Rightarrow> audit_payload" where
  "redact_audit_payload G v =
     (case v of
        No_Payload \<Rightarrow> No_Payload
      | Config_Payload c \<Rightarrow> Config_Payload (redacted_copy c)
      | Json_Payload j \<Rightarrow> Json_Payload (redact_json G j)
      | Opaque_Payload \<Rightarrow> Opaque_Payload)"

section \<open>The audit log\<close>

record audit_entry =
  ae_ts :: gotime
  ae_actor :: string
  ae_actor_ip :: string
  ae_action :: string
  ae_target :: string
  ae_before :: audit_payload
  ae_after :: audit_payload

record audit_log =
  al_rotator :: "rotator option"
  al_enabled :: bool

definition audit_reconfigure ::
  "log_io \<Rightarrow> config option \<Rightarrow> audit_log \<times> log_dir \<Rightarrow> (audit_log \<times> log_dir) \<times> string option" where
  "audit_reconfigure io c s =
     (case (c, s) of
        (None, _) \<Rightarrow> (s, None)
      | (Some c, a, d) \<Rightarrow>
          let opened = (if lg_audit_log (c_logging c)
                then map_prod id (map_sum id Some)
                  (new_rotator io (log_path c ''sis-audit.log'')
                     (wrap64 (lg_rotate_size_mb (c_logging c) * (1024 * 1024)))
                     (lg_retention_days (c_logging c)) (lg_gzip (c_logging c)) d)
                else (d, Inr None)) in
          (case opened of
             (d, Inl e) \<Rightarrow> ((a, d), Some e)
           | (d, Inr r) \<Rightarrow> ((a\<lparr>al_enabled := lg_audit_log (c_logging c), al_rotator := r\<rparr>, d), None)))"

definition open_audit :: "log_io \<Rightarrow> config option \<Rightarrow> log_dir \<Rightarrow> log_dir \<times> (string + audit_log)" where
  "open_audit io c d =
     (case audit_reconfigure io c (\<lparr>al_rotator = None, al_enabled = False\<rparr>, d) of
        ((a, d), Some e) \<Rightarrow> (d, Inl e)
      | ((a, d), None) \<Rightarrow> (d, Inr a))"

text \<open>\<open>render\<close> yields the line of an entry, \<open>None\<close> when it does not marshal.\<close>

definition audit_write ::
  "(audit_entry \<Rightarrow> string option) \<Rightarrow> log_io \<Rightarrow> audit_entry option
   \<Rightarrow> audit_log \<times> log_dir \<Rightarrow> (audit_log \<times> log_dir) \<times> string option" where
  "audit_write render io e s =
     (case (e, s) of
        (None, _) \<Rightarrow> (s, None)
      | (Some e, a, d) \<Rightarrow>
          let entry = (if time_is_zero (ae_ts e) then e\<lparr>ae_ts := li_now io\<rparr> else e) in
          (case al_rotator a of
             None \<Rightarrow> (s, None)
           | Some r \<Rightarrow>
               if \<not> al_enabled a then (s, None)
               else (case render entry of
                       None \<Rightarrow> (s, Some ''json: unsupported value'')
                     | Some line \<Rightarrow>
                         (case rotator_write io line r d of
                            (r, d, err) \<Rightarrow> ((a\<lparr>al_rotator := Some r\<rparr>, d), err)))))"

definition audit_entry_of :: "golib \<Rightarrow> string \<Rightarrow> string \<Rightarrow> audit_payload \<Rightarrow> audit_payload \<Rightarrow> audit_entry" where
  "audit_entry_of G action target before after =
     \<lparr>ae_ts = 0, ae_actor = ''system'', ae_actor_ip = [], ae_action = action, ae_target = target,
      ae_before = redact_audit_payload G before, ae_after = redact_audit_payload G after\<rparr>"

definition auditf ::
  "(audit_entry \<Rightarrow> string option) \<Rightarrow> golib \<Rightarrow> log_io \<Rightarrow> string \<Rightarrow> string \<Rightarrow> audit_payload \<Rightarrow> audit_payload
   \<Rightarrow> audit_log \<times> log_dir \<Rightarrow> (audit_log \<times> log_dir) \<times> string option" where
  "auditf render G io action target before after s =
     audit_write render io (Some (audit_entry_of G action target before after)) s"

definition audit_rotate :: "log_io \<Rightarrow> audit_log \<times> log_dir \<Rightarrow> (audit_log \<times> log_dir) \<times> string option" where
  "audit_rotate io s =
     (case s of (a, d) \<Rightarrow>
        (case al_rotator a of
           None \<Rightarrow> (s, None)
         | Some r \<Rightarrow> (case rotate_log io r d of (r, d, err) \<Rightarrow> ((a\<lparr>al_rotator := Some r\<rparr>, d), err))))"

definition audit_close :: "log_io \<Rightarrow> audit_log \<Rightarrow> audit_log \<times> string option" where
  "audit_close io a =
     (case al_rotator a of
        None \<Rightarrow> (a, None)
      | Some r \<Rightarrow> (\<lparr>al_rotator = None, al_enabled = False\<rparr>, snd (rotator_close io r)))"

section \<open>Properties\<close>

text \<open>\<open>exposes G j v\<close>: somewhere in \<open>j\<close> a sensitive key has the value \<open>v\<close>.\<close>

inductive exposes :: "golib \<Rightarrow> json \<Rightarrow> json \<Rightarrow> bool" for G where
  here: "(k, v) \<in> set fs \<Longrightarrow> sensitive_audit_key G k \<Longrightarrow> exposes G (JObj fs) v"
| field: "(k, w) \<in> set fs \<Longrightarrow> exposes G w v \<Longrightarrow> exposes G (JObj fs) v"
| element: "w \<in> set js \<Longrightarrow> exposes G w v \<Longrightarrow> exposes G (JArr js) v"

inductive_cases exposes_str: "exposes G (JStr s) v"
inductive_simps exposes_obj: "exposes G (JObj fs) v"
inductive_simps exposes_arr: "exposes G (JArr js) v"
inductive_simps exposes_leaf: "exposes G JNull v" "exposes G (JBool b) v" "exposes G (JNum n) v" "exposes G (JStr s) v"

lemma redact_json_exposes: "exposes G (redact_json G j) v \<Longrightarrow> v = JStr ''redacted''"
proof (induction j arbitrary: v)
  case (JObj fs)
  then show ?case
    by (auto simp: exposes_obj exposes_leaf snds.simps split: if_split_asm) 
next
  case (JArr js)
  then show ?case by (auto simp: exposes_arr)
qed (simp_all add: exposes_leaf)

lemma redact_json_id:
  "(\<And>v. exposes G j v \<Longrightarrow> v = JStr ''redacted'') \<Longrightarrow> redact_json G j = j"
proof (induction j)
  case (JObj fs)
  have "(\<lambda>(k, v). (k, if sensitive_audit_key G k then JStr ''redacted'' else v)) (map_prod id (redact_json G) f) = f"
    if "f \<in> set fs" for f
  proof (cases "sensitive_audit_key G (fst f)")
    case True
    obtain k v where f: "f = (k, v)" by (cases f)
    with that True have "exposes G (JObj fs) v" by (auto simp: exposes_obj)
    from JObj.prems [OF this] True f show ?thesis by simp
  next
    case False
    have "redact_json G (snd f) = snd f"
      using that JObj.prems by (intro JObj.IH [of f]) (cases f; auto simp: snds.simps exposes_obj)+
    with False show ?thesis by (cases f) simp
  qed
  then show ?case by (simp add: map_idI)
next
  case (JArr js)
  then show ?case by (auto simp: exposes_arr intro!: map_idI)
qed simp_all

text \<open>What is written to the audit log shows no secret: in a redacted payload every value under a key
  that names a password, secret, token, cookie or salt, at any depth, is the word redacted; a
  payload without secrets is written as it is; and a configuration loses its password hashes and
  its salt and nothing else.\<close>

theorem audit_payload_redacted:
  "(exposes G (redact_json G j) v \<longrightarrow> v = JStr ''redacted'')
   \<and> (redact_json G j = j \<longleftrightarrow> (\<forall>v. exposes G j v \<longrightarrow> v = JStr ''redacted''))
   \<and> redact_audit_payload G (Json_Payload j) = Json_Payload (redact_json G j)
   \<and> redact_audit_payload G (Config_Payload (Some c)) = Config_Payload (Some
       (c\<lparr>c_auth := (c_auth c)\<lparr>au_users := map (\<lambda>u. if us_password_hash u = [] then u
                else u\<lparr>us_password_hash := ''redacted''\<rparr>) (au_users (c_auth c))\<rparr>,
          c_privacy := (if pv_log_salt (c_privacy c) = [] then c_privacy c
                        else (c_privacy c)\<lparr>pv_log_salt := ''redacted''\<rparr>)\<rparr>))"
proof -
  have "map redact_user us = map (\<lambda>u. if us_password_hash u = [] then u
      else u\<lparr>us_password_hash := ''redacted''\<rparr>) us" for us
    by (simp add: redact_user_def)
  moreover have "redact_json G j = j \<longleftrightarrow> (\<forall>v. exposes G j v \<longrightarrow> v = JStr ''redacted'')"
    using redact_json_id [of G j] redact_json_exposes [of G j] by metis
  ultimately show ?thesis
    using redact_json_exposes [of G j v] by (simp add: redact_audit_payload_def redacted_copy_def Let_def)
qed

theorem audit_payload_redacted_witness:
  "exposes ascii_lib (JObj [(''user'', JObj [(''Password_Hash'', JStr ''x'')])]) (JStr ''x'')
   \<and> exposes ascii_lib (redact_json ascii_lib (JObj [(''user'', JObj [(''Password_Hash'', JStr ''x'')])])) (JStr ''redacted'')"
proof -
  let ?j = "JObj [(''user'', JObj [(''Password_Hash'', JStr ''x'')])]"
  have k: "sensitive_audit_key ascii_lib ''Password_Hash''" "\<not> sensitive_audit_key ascii_lib ''user''" by code_simp+
  then have e: "exposes ascii_lib ?j (JStr ''x'')" by (simp add: exposes_obj)
  with audit_payload_redacted [of ascii_lib ?j] k have "redact_json ascii_lib ?j \<noteq> ?j" by auto
  with e k show ?thesis by (simp add: exposes_obj)
qed

end
