(* ===== verification/Api_Types.thy ===== *)
theory Api_Types
  imports Api_Http Api_Limiter Api_Password Config_Load Pipeline Audit_Log
begin

text \<open>
  The state of the management API (\<open>internal/api/server.go\<close>), the environment of a request, and the
  bodies of its requests.

  The server shares its configuration holder, store, cache, policy engine, upstream pool, query log
  and counters with the query pipeline, so its state is that pipeline and what the API keeps of its
  own.  \<open>ap_has_cfg\<close>, \<open>ap_has_store\<close>, \<open>ap_has_cache\<close>, \<open>ap_has_stats\<close> and \<open>ap_has_pipeline\<close> say
  which pointers the server was given.  The clock, the random source, the disk and the encoders
  answer through the environment of a request; a field \<open>an_...\<close> is one reading each.  The process
  log (\<open>slog\<close>) and the access log are not modelled.  The encoding of structs by their tags is
  \<open>an_value\<close>, their decoding the fields \<open>an_blocklist\<close> to \<open>an_client_patch\<close>.
\<close>

section \<open>Bodies\<close>

record blocklist_patch_body =
  bp_id :: "string option"
  bp_name :: "string option"
  bp_url :: "string option"
  bp_enabled :: "bool option"
  bp_refresh_interval :: "duration option"

record upstream_patch_body =
  xp_id :: "string option"
  xp_name :: "string option"
  xp_url :: "string option"
  xp_bootstrap :: "string list option"
  xp_timeout :: "duration option"

record group_patch_body =
  gp_name :: "string option"
  gp_blocklists :: "string list option"
  gp_allowlist :: "string list option"
  gp_schedules :: "schedule list option"

record client_patch_body =
  kp_name :: "string option"
  kp_group :: "string option"
  kp_hidden :: "bool option"

record settings_view =
  sv_cache :: cache_config
  sv_privacy :: privacy
  sv_logging :: logging
  sv_block :: block_config

record settings_patch_body =
  sp_cache :: "cache_config option"
  sp_privacy :: "privacy option"
  sp_logging :: "logging option"
  sp_block :: "block_config option"

datatype api_value =
    Blocklist_Value blocklist
  | Upstream_Value upstream
  | Group_Value group_config
  | Groups_Value "group_config list"
  | Client_Value client
  | Clients_Value "client list"
  | Settings_Value settings_view

section \<open>State\<close>

record 's api =
  ap_has_cfg :: bool
  ap_has_store :: bool
  ap_has_cache :: bool
  ap_has_stats :: bool
  ap_has_pipeline :: bool
  ap_pipe :: "'s pipeline"
  ap_audit :: "(audit_log \<times> log_dir) option"
  ap_config_path :: string
  ap_files :: files
  ap_login_limiter :: "window_limiter option"
  ap_api_limiter :: "window_limiter option"

record 's api_env =
  an_go :: golib
  an_kv :: "'s kvops"
  an_load :: load_env
  an_save :: save_io
  an_hmac :: hmac_fn
  an_salt :: "string + string"
  an_token :: "string + string"
  an_log_salt :: "string option"
  an_request_id :: string
  an_split_host :: "string \<Rightarrow> string option"
  an_url_host :: "string \<Rightarrow> string option"
  an_parse :: "string \<Rightarrow> string + json \<times> string"
  an_render :: "json \<Rightarrow> string"
  an_status_text :: "int \<Rightarrow> string"
  an_audit_render :: "audit_entry \<Rightarrow> string option"
  an_audit_io :: log_io
  an_query_io :: log_io
  an_query_close_io :: log_io
  an_login_now :: gotime
  an_limit_now :: gotime
  an_session_now :: gotime
  an_renew_now :: gotime
  an_me_now :: gotime
  an_me_renew_now :: gotime
  an_created_now :: gotime
  an_history_now :: gotime
  an_yaml :: "config \<Rightarrow> string option"
  an_problem_text :: "problem list \<Rightarrow> string"
  an_policy_text :: "policy_error \<Rightarrow> string"
  an_value :: "api_value \<Rightarrow> json"
  an_blocklist :: "json \<Rightarrow> string + blocklist"
  an_blocklist_patch :: "json \<Rightarrow> string + blocklist_patch_body"
  an_upstream :: "json \<Rightarrow> string + upstream"
  an_upstream_patch :: "json \<Rightarrow> string + upstream_patch_body"
  an_group :: "json \<Rightarrow> string + group_config"
  an_group_patch :: "json \<Rightarrow> string + group_patch_body"
  an_client_patch :: "json \<Rightarrow> string + client_patch_body"
  an_settings_patch :: "json \<Rightarrow> string + settings_patch_body"

definition api_config :: "'s api \<Rightarrow> config option" where
  "api_config s = (if ap_has_cfg s then pp_config (ap_pipe s) else None)"

definition replace_config :: "config \<Rightarrow> 's api \<Rightarrow> 's api" where
  "replace_config c s = (if ap_has_cfg s then s\<lparr>ap_pipe := (ap_pipe s)\<lparr>pp_config := Some c\<rparr>\<rparr> else s)"

definition api_store :: "'s api \<Rightarrow> 's" where
  "api_store s = pp_store (ap_pipe s)"

definition set_store :: "'s \<Rightarrow> 's api \<Rightarrow> 's api" where
  "set_store st s = s\<lparr>ap_pipe := (ap_pipe s)\<lparr>pp_store := st\<rparr>\<rparr>"

text \<open>\<open>s.audit.Auditf\<close>: nothing without an audit log, and its error is dropped.\<close>

definition api_audit :: "'s api_env \<Rightarrow> string \<Rightarrow> string \<Rightarrow> audit_payload \<Rightarrow> audit_payload \<Rightarrow> 's api \<Rightarrow> 's api" where
  "api_audit N action target before after s =
     (case ap_audit s of
        None \<Rightarrow> s
      | Some a \<Rightarrow> s\<lparr>ap_audit := Some (fst (auditf (an_audit_render N) (an_go N) (an_audit_io N) action target before after a))\<rparr>)"

text \<open>\<open>internalError\<close>; its log line is not modelled.\<close>

definition internal_error :: "string \<Rightarrow> writer \<Rightarrow> writer" where
  "internal_error msg w = http_error msg 500 w"

end
