(* ===== verification/Api_Auth.thy ===== *)
theory Api_Auth
  imports Api_Types
begin

text \<open>
  \<open>internal/api/auth.go\<close> and the guards of \<open>internal/api/server.go\<close>: sessions, set-up, login,
  logout, and the chain of middlewares around every handler.
\<close>

section \<open>Sessions\<close>

definition session_ttl :: "'s api \<Rightarrow> duration" where
  "session_ttl s =
     (case api_config s of
        Some c \<Rightarrow> if 0 < au_session_ttl (c_auth c) then au_session_ttl (c_auth c) else 24 * hour
      | None \<Rightarrow> 24 * hour)"

definition cookie_name :: "'s api \<Rightarrow> string" where
  "cookie_name s =
     (case api_config s of
        Some c \<Rightarrow> if au_cookie_name (c_auth c) \<noteq> [] then au_cookie_name (c_auth c) else ''sis_session''
      | None \<Rightarrow> ''sis_session'')"

definition secure_cookie :: "http_request \<Rightarrow> 's api \<Rightarrow> bool" where
  "secure_cookie r s =
     ((case api_config s of
         Some c \<Rightarrow> au_secure_cookie (c_auth c) \<or> hs_tls (sv_http (c_server c))
       | None \<Rightarrow> False) \<or> hr_tls r)"

definition find_user :: "string \<Rightarrow> 's api \<Rightarrow> user option" where
  "find_user name s =
     (case api_config s of
        None \<Rightarrow> None
      | Some c \<Rightarrow> find (\<lambda>u. us_username u = name) (au_users (c_auth c)))"

definition new_token :: "'s api_env \<Rightarrow> string + string" where
  "new_token N = map_sum id (b64_encode url_alphabet) (an_token N)"

definition set_session_cookie :: "http_request \<Rightarrow> session \<Rightarrow> 's api \<Rightarrow> writer \<Rightarrow> writer" where
  "set_session_cookie r v s w =
     set_cookie \<lparr>ck_name = cookie_name s, ck_value = se_token v, ck_expires = se_expires_at v, ck_max_age = 0,
       ck_secure = secure_cookie r s\<rparr> w"

definition create_session ::
  "'s api_env \<Rightarrow> http_request \<Rightarrow> string \<Rightarrow> writer \<times> 's api \<Rightarrow> (writer \<times> 's api) \<times> string option" where
  "create_session N r username ws =
     (case ws of (w, s) \<Rightarrow>
        (case new_token N of
           Inl e \<Rightarrow> ((w, s), Some e)
         | Inr token \<Rightarrow>
             let v = \<lparr>se_token = token, se_username = username, se_expires_at = an_created_now N + session_ttl s\<rparr> in
             if ap_has_store s then
               (case session_upsert (an_kv N) (an_go N) (Some v) (api_store s) of
                  (st, Some e) \<Rightarrow> ((w, set_store st s), Some ''store'')
                | (st, None) \<Rightarrow> ((set_session_cookie r v (set_store st s) w, set_store st s), None))
             else ((set_session_cookie r v s w, s), None)))"

definition session_from_request ::
  "'s api_env \<Rightarrow> gotime \<Rightarrow> gotime \<Rightarrow> http_request \<Rightarrow> 's api \<Rightarrow> 's api \<times> session option" where
  "session_from_request N now renew_now r s =
     (if \<not> ap_has_store s then (s, None)
      else
        (case hr_cookie (cookie_name s) r of
           None \<Rightarrow> (s, None)
         | Some token \<Rightarrow>
             if token = [] then (s, None)
             else
               (case session_get (an_kv N) (an_go N) token (api_store s) of
                  Inl _ \<Rightarrow> (s, None)
                | Inr v \<Rightarrow>
                    if se_expires_at v < now
                    then (set_store (fst (session_delete (an_kv N) token (api_store s))) s, None)
                    else
                      let v = v\<lparr>se_expires_at := renew_now + session_ttl s\<rparr> in
                      (case session_upsert (an_kv N) (an_go N) (Some v) (api_store s) of
                         (st, Some _) \<Rightarrow> (set_store st s, None)
                       | (st, None) \<Rightarrow> (set_store st s, Some v)))))"

section \<open>Handlers\<close>

definition auth_setup :: "'s api_env \<Rightarrow> http_request \<Rightarrow> writer \<times> 's api \<Rightarrow> writer \<times> 's api" where
  "auth_setup N r ws =
     (case ws of (w, s) \<Rightarrow>
        (case api_config s of
           None \<Rightarrow> (http_error ''auth unavailable'' 503 w, s)
         | Some cfg \<Rightarrow>
             if \<not> ap_has_store s then (http_error ''auth unavailable'' 503 w, s)
             else if \<not> au_first_run (c_auth cfg) \<or> au_users (c_auth cfg) \<noteq> []
             then (http_error ''setup already complete'' 409 w, s)
             else
               (case decode_json (an_parse N) (strings_of_json [''username'', ''password'']) r of
                  Inl e \<Rightarrow> (http_error e 400 w, s)
                | Inr req \<Rightarrow>
                    let username = trim_space (req ''username'') in
                    if username = [] \<or> length (req ''password'') < 8
                    then (http_error ''username and password with at least 8 chars are required'' 400 w, s)
                    else
                      (case hash_password (an_hmac N) (an_salt N) (req ''password'') of
                         Inl e \<Rightarrow> (internal_error ''setup failed'' w, s)
                       | Inr digest \<Rightarrow>
                           let c = cfg\<lparr>c_auth := (c_auth cfg)\<lparr>au_first_run := False,
                                 au_users := [\<lparr>us_username = username, us_password_hash = digest\<rparr>]\<rparr>\<rparr>;
                               (files, saved) = (if ap_config_path s \<noteq> []
                                 then save (an_load N) (an_save N) (ap_config_path s) c (ap_files s)
                                 else (ap_files s, None));
                               s = s\<lparr>ap_files := files\<rparr> in
                           if saved \<noteq> None then (internal_error ''setup failed'' w, s)
                           else
                             let s = api_audit N ''auth.setup'' username No_Payload
                                   (Json_Payload (JObj [(''username'', JStr username)])) (replace_config c s) in
                             (case create_session N r username (w, s) of
                                ((w, s), Some e) \<Rightarrow> (internal_error ''setup failed'' w, s)
                              | ((w, s), None) \<Rightarrow>
                                  (write_json (an_render N) (JObj [(''username'', JStr username)]) w, s))))))"

definition login :: "'s api_env \<Rightarrow> http_request \<Rightarrow> writer \<times> 's api \<Rightarrow> writer \<times> 's api" where
  "login N r ws =
     (case ws of (w, s) \<Rightarrow>
        (case allow_request (an_split_host N) (hr_remote r) (an_login_now N) (ap_login_limiter s) of
           (l, ok) \<Rightarrow>
             let s = s\<lparr>ap_login_limiter := l\<rparr> in
             if \<not> ok then (http_error ''rate limited'' 429 w, s)
             else if \<not> ap_has_store s \<or> api_config s = None then (http_error ''auth unavailable'' 503 w, s)
             else
               (case decode_json (an_parse N) (strings_of_json [''username'', ''password'']) r of
                  Inl e \<Rightarrow> (http_error e 400 w, s)
                | Inr req \<Rightarrow>
                    (case find_user (trim_space (req ''username'')) s of
                       None \<Rightarrow> (http_error ''invalid username or password'' 401 w, s)
                     | Some u \<Rightarrow>
                         if \<not> verify_password (an_hmac N) (us_password_hash u) (req ''password'')
                         then (http_error ''invalid username or password'' 401 w, s)
                         else
                           (case create_session N r (us_username u) (w, s) of
                              ((w, s), Some e) \<Rightarrow> (internal_error ''login failed'' w, s)
                            | ((w, s), None) \<Rightarrow>
                                (write_json (an_render N) (JObj [(''username'', JStr (us_username u))]) w, s))))))"

definition logout :: "'s api_env \<Rightarrow> http_request \<Rightarrow> writer \<times> 's api \<Rightarrow> writer \<times> 's api" where
  "logout N r ws =
     (case ws of (w, s) \<Rightarrow>
        let s = (case hr_cookie (cookie_name s) r of
                   Some token \<Rightarrow>
                     if ap_has_store s then set_store (fst (session_delete (an_kv N) token (api_store s))) s else s
                 | None \<Rightarrow> s);
            w = set_cookie \<lparr>ck_name = cookie_name s, ck_value = [], ck_expires = 0, ck_max_age = - 1,
                  ck_secure = secure_cookie r s\<rparr> w
        in (write_header 204 w, s))"

definition me :: "'s api_env \<Rightarrow> http_request \<Rightarrow> writer \<times> 's api \<Rightarrow> writer \<times> 's api" where
  "me N r ws =
     (case ws of (w, s) \<Rightarrow>
        (case session_from_request N (an_me_now N) (an_me_renew_now N) r s of
           (s, None) \<Rightarrow> (http_error ''unauthorized'' 401 w, s)
         | (s, Some v) \<Rightarrow>
             (write_json (an_render N)
                (JObj [(''expires_at'', json_of_time (an_go N) (se_expires_at v)), (''username'', JStr (se_username v))]) w, s)))"

section \<open>Guards\<close>

definition hsts_enabled :: "http_request \<Rightarrow> 's api \<Rightarrow> bool" where
  "hsts_enabled r s =
     (hr_tls r \<or> (case api_config s of None \<Rightarrow> False | Some c \<Rightarrow> hs_tls (sv_http (c_server c))))"

definition security_headers :: "'s api handler \<Rightarrow> 's api handler" where
  "security_headers next_handler r ws =
     (case ws of (w, s) \<Rightarrow>
        let w = set_header ''X-Content-Type-Options'' ''nosniff'' w;
            w = set_header ''X-Frame-Options'' ''DENY'' w;
            w = set_header ''Referrer-Policy'' ''no-referrer'' w;
            w = set_header ''Content-Security-Policy''
                  ''default-src 'self'; connect-src 'self'; style-src 'self' 'unsafe-inline'; script-src 'self'; img-src 'self' data:'' w;
            w = (if hsts_enabled r s
                 then set_header ''Strict-Transport-Security'' ''max-age=31536000; includeSubDomains'' w else w);
            w = (if under_api r \<or> hr_path r \<in> {''/healthz'', ''/readyz'', ''/metrics''}
                 then set_header ''Cache-Control'' ''no-store'' w else w)
        in next_handler r (w, s))"

definition csrf_guard :: "'s api_env \<Rightarrow> 's api handler \<Rightarrow> 's api handler" where
  "csrf_guard N next_handler r ws =
     (case ws of (w, s) \<Rightarrow>
        if \<not> requires_origin_check r then next_handler r (w, s)
        else if hr_cookie (cookie_name s) r = None then next_handler r (w, s)
        else if \<not> request_from_same_origin (an_url_host N) r
        then ((http_error ''cross-site request rejected'' 403 w, s), False)
        else next_handler r (w, s))"

definition auth_exempt :: "http_request \<Rightarrow> bool" where
  "auth_exempt r =
     (\<not> under_api r
      \<or> hr_path r \<in> {''/healthz'', ''/readyz'', ''/api/v1/auth/setup'', ''/api/v1/auth/login''})"

definition auth_required :: "'s api_env \<Rightarrow> 's api handler \<Rightarrow> 's api handler" where
  "auth_required N next_handler r ws =
     (case ws of (w, s) \<Rightarrow>
        if auth_exempt r then next_handler r (w, s)
        else if (case api_config s of None \<Rightarrow> False | Some c \<Rightarrow> au_first_run (c_auth c))
        then ((http_error ''setup required'' 428 w, s), False)
        else
          (case session_from_request N (an_session_now N) (an_renew_now N) r s of
             (s, None) \<Rightarrow> ((http_error ''unauthorized'' 401 w, s), False)
           | (s, Some v) \<Rightarrow>
               let w = (if hr_path r \<noteq> ''/api/v1/auth/logout'' then set_session_cookie r v s w else w)
               in next_handler r (w, s)))"

definition api_rate_per_minute :: "'s api \<Rightarrow> int" where
  "api_rate_per_minute s =
     (case api_config s of Some c \<Rightarrow> hs_rate_limit_per_minute (sv_http (c_server c)) | None \<Rightarrow> 600)"

definition api_rate_limit :: "'s api_env \<Rightarrow> 's api handler \<Rightarrow> 's api handler" where
  "api_rate_limit N next_handler r ws =
     (case ws of (w, s) \<Rightarrow>
        if \<not> under_api r then next_handler r (w, s)
        else
          (case allow_with (an_split_host N) (hr_remote r) (api_rate_per_minute s) minute (an_limit_now N) (ap_api_limiter s) of
             (l, ok) \<Rightarrow>
               let s = s\<lparr>ap_api_limiter := l\<rparr> in
               if ok then next_handler r (w, s)
               else
                 let p = ap_pipe s;
                     s = (if ap_has_stats s then s\<lparr>ap_pipe := p\<lparr>pp_stats := inc_rate_limited (pp_stats p)\<rparr>\<rparr> else s)
                 in ((http_error ''rate limited'' 429 w, s), False)))"

text \<open>The chain of \<open>Server.middleware\<close>, without the access log.\<close>

definition middleware :: "'s api_env \<Rightarrow> 's api handler \<Rightarrow> 's api handler" where
  "middleware N next_handler =
     recover_middleware
       (security_headers
         (request_id (an_request_id N)
           (api_error_envelope (an_render N) (an_status_text N)
             (csrf_guard N (auth_required N (api_rate_limit N next_handler))))))"

text \<open>The routes of this theory; \<open>rest\<close> serves the others.\<close>

definition auth_routes :: "'s api_env \<Rightarrow> 's api handler \<Rightarrow> 's api handler" where
  "auth_routes N rest r ws =
     (if hr_method r = ''POST'' \<and> hr_path r = ''/api/v1/auth/setup'' then (auth_setup N r ws, False)
      else if hr_method r = ''POST'' \<and> hr_path r = ''/api/v1/auth/login'' then (login N r ws, False)
      else if hr_method r = ''POST'' \<and> hr_path r = ''/api/v1/auth/logout'' then (logout N r ws, False)
      else if hr_method r \<in> {''GET'', ''HEAD''} \<and> hr_path r = ''/api/v1/auth/me'' then (me N r ws, False)
      else rest r ws)"

section \<open>Facts about sessions\<close>

text \<open>The request carries the token of a stored session that has not expired.\<close>

definition live_session :: "'s api_env \<Rightarrow> gotime \<Rightarrow> http_request \<Rightarrow> 's api \<Rightarrow> bool" where
  "live_session N now r s \<longleftrightarrow> ap_has_store s
     \<and> (\<exists>token v. hr_cookie (cookie_name s) r = Some token \<and> token \<noteq> []
          \<and> session_get (an_kv N) (an_go N) token (api_store s) = Inr v \<and> now \<le> se_expires_at v)"

lemma set_store_simps [simp]:
  "api_store (set_store st s) = st" "api_config (set_store st s) = api_config s" "ap_has_store (set_store st s) = ap_has_store s"
  "cookie_name (set_store st s) = cookie_name s" "session_ttl (set_store st s) = session_ttl s"
  by (simp_all add: set_store_def api_store_def api_config_def cookie_name_def session_ttl_def)

lemma login_limiter_simps [simp]:
  "api_store (s\<lparr>ap_login_limiter := l\<rparr>) = api_store s" "api_config (s\<lparr>ap_login_limiter := l\<rparr>) = api_config s"
  "cookie_name (s\<lparr>ap_login_limiter := l\<rparr>) = cookie_name s" "session_ttl (s\<lparr>ap_login_limiter := l\<rparr>) = session_ttl s"
  "find_user u (s\<lparr>ap_login_limiter := l\<rparr>) = find_user u s"
  by (simp_all add: api_store_def api_config_def cookie_name_def session_ttl_def find_user_def)

lemma no_live_session:
  assumes "\<not> live_session N now r s"
  shows "snd (session_from_request N now renew r s) = None"
  using assms by (auto simp: session_from_request_def live_session_def Let_def split: option.splits sum.splits prod.splits)

lemma session_lookup_store:
  "\<exists>st. fst (session_from_request N now renew r s) = set_store st s"
proof -
  have "set_store (api_store s) s = s" by (simp add: set_store_def api_store_def)
  then have same: "\<exists>st. s = set_store st s" by metis
  have "\<exists>st'. set_store st s = set_store st' s" for st by blast
  with same show ?thesis
    by (auto simp: session_from_request_def Let_def split: option.splits sum.splits prod.splits)
qed

context kv_store
begin

lemma session_upsert_done:
  assumes "ok s" "session_fits G v" "session_upsert K G (Some v) s = (s', None)"
  shows "ok s'" "session_get K G (se_token v) s' = Inr v"
    "t \<noteq> se_token v \<Longrightarrow> session_get K G t s' = session_get K G t s"
proof -
  have put: "kv_put K (''session:'' @ se_token v) (session_to_json G v) s = (s', None)"
    using assms(3) by (auto simp: session_upsert_def split: if_split_asm)
  show ok': "ok s'" using put_ok [OF assms(1), of "''session:'' @ se_token v" "session_to_json G v"] put by simp
  note view = put_done [OF assms(1) put]
  show "session_get K G (se_token v) s' = Inr v"
    using session_roundtrip [OF assms(2)] by (simp add: session_get_def get_law [OF ok'] view decode_def)
  show "t \<noteq> se_token v \<Longrightarrow> session_get K G t s' = session_get K G t s"
    using get_view [OF ok' assms(1)] view by (simp add: session_get_def)
qed

lemma session_delete_done:
  assumes "ok s" "session_delete K t s = (s', None)"
  shows "ok s'" "session_get K G t s' = Inl Not_Found"
    "u \<noteq> t \<Longrightarrow> session_get K G u s' = session_get K G u s"
proof -
  have del: "kv_delete K (''session:'' @ t) s = (s', None)" using assms(2) by (simp add: session_delete_def)
  show ok': "ok s'" using del_ok [OF assms(1), of "''session:'' @ t"] del by simp
  note view = del_done [OF assms(1) del]
  show "session_get K G t s' = Inl Not_Found"
    by (simp add: session_get_def get_law [OF ok'] view decode_def)
  show "u \<noteq> t \<Longrightarrow> session_get K G u s' = session_get K G u s"
    using get_view [OF ok' assms(1)] view by (simp add: session_get_def)
qed

end

section \<open>Facts about the guards\<close>

definition cross_site :: "'s api_env \<Rightarrow> http_request \<Rightarrow> 's api \<Rightarrow> bool" where
  "cross_site N r s \<longleftrightarrow> requires_origin_check r \<and> hr_cookie (cookie_name s) r \<noteq> None
     \<and> \<not> request_from_same_origin (an_url_host N) r"

definition needs_setup :: "'s api \<Rightarrow> bool" where
  "needs_setup s \<longleftrightarrow> (case api_config s of None \<Rightarrow> False | Some c \<Rightarrow> au_first_run (c_auth c))"

lemma request_id_irrelevant [simp]:
  "under_api (r\<lparr>hr_id := i\<rparr>) = under_api r" "auth_exempt (r\<lparr>hr_id := i\<rparr>) = auth_exempt r"
  "requires_origin_check (r\<lparr>hr_id := i\<rparr>) = requires_origin_check r"
  "hr_cookie n (r\<lparr>hr_id := i\<rparr>) = hr_cookie n r"
  "request_from_same_origin f (r\<lparr>hr_id := i\<rparr>) = request_from_same_origin f r"
  "session_from_request N now renew (r\<lparr>hr_id := i\<rparr>) s = session_from_request N now renew r s"
  by (simp_all add: under_api_def auth_exempt_def requires_origin_check_def hr_cookie_def
      request_from_same_origin_def session_from_request_def)

text \<open>What the guards answer by themselves, and the state they leave.\<close>

definition refusal :: "'s api_env \<Rightarrow> http_request \<Rightarrow> 's api \<Rightarrow> (string \<times> int \<times> 's api) option" where
  "refusal N r s =
     (if cross_site N r s then Some (''cross-site request rejected'', 403, s)
      else if auth_exempt r then None
      else if needs_setup s then Some (''setup required'', 428, s)
      else (case session_from_request N (an_session_now N) (an_renew_now N) r s of
              (s, None) \<Rightarrow> Some (''unauthorized'', 401, s)
            | (s, Some v) \<Rightarrow> None))"

lemma guards_refuse:
  assumes "refusal N r s = Some (msg, code, s')"
  shows "csrf_guard N (auth_required N h) r (w, s) = ((http_error msg code w, s'), False)"
proof (cases "session_from_request N (an_session_now N) (an_renew_now N) r s")
  case (Pair s2 v)
  with assms show ?thesis
    by (cases v) (auto simp: refusal_def csrf_guard_def auth_required_def cross_site_def needs_setup_def
        split: if_splits)
qed

text \<open>The request and the writer the envelope gets.\<close>

definition identified :: "'s api_env \<Rightarrow> http_request \<Rightarrow> http_request" where
  "identified N r = r\<lparr>hr_id := (if hr_header r ''X-Request-Id'' = [] then an_request_id N else hr_header r ''X-Request-Id'')\<rparr>"

definition headed :: "'s api_env \<Rightarrow> http_request \<Rightarrow> 's api \<Rightarrow> writer \<Rightarrow> writer" where
  "headed N r s w = set_header ''X-Request-Id'' (hr_id (identified N r))
     (fst (fst (security_headers (\<lambda>r ws. (ws, False)) r (w, s))))"

lemma headed_keep [simp]:
  "w_status (headed N r s w) = w_status w" "w_buffered (headed N r s w) = w_buffered w"
  by (simp_all add: headed_def security_headers_def Let_def)

lemma middleware_unfold:
  "middleware N h r (w, s) =
     recover_middleware (\<lambda>r. api_error_envelope (an_render N) (an_status_text N)
        (csrf_guard N (auth_required N (api_rate_limit N h))) r) (identified N r) (headed N r s w, s)"
  by (simp add: middleware_def recover_middleware_def security_headers_def request_id_def headed_def identified_def Let_def)

lemma refusal_identified: "refusal N (identified N r) s = refusal N r s"
  unfolding identified_def by (auto simp: refusal_def cross_site_def)

lemma refusal_code: "refusal N r s = Some (msg, code, s') \<Longrightarrow> 400 \<le> code"
  by (auto simp: refusal_def split: if_splits option.splits prod.splits)

lemma middleware_refuses:
  assumes "refusal N r s = Some (msg, code, s')"
  shows "\<exists>w'. (\<forall>h. middleware N h r (fresh_writer, s) = ((w', s'), False)) \<and> w_status w' = Some code"
proof -
  let ?env = "\<lambda>g. api_error_envelope (an_render N) (an_status_text N) g (identified N r) (headed N r s fresh_writer, s)"
  let ?g = "\<lambda>h. csrf_guard N (auth_required N (api_rate_limit N h))"
  have "refusal N (identified N r) s = Some (msg, code, s')" using assms by (simp add: refusal_identified)
  note g = guards_refuse [OF this]
  have env: "?env (?g h) = ?env (?g h')" for h h'
    by (rule envelope_cong) (simp only: g)
  have "w_status (headed N r s fresh_writer) = None" "\<not> w_buffered (headed N r s fresh_writer)"
    by (simp_all add: fresh_writer_def)
  from envelope_error [where h = "?g undefined", OF g refusal_code [OF assms] this]
  obtain w' where w': "?env (?g undefined) = ((w', s'), False)" "w_status w' = Some code" by blast
  have "?env (?g h) = ((w', s'), False)" for h using env [of h undefined] w'(1) by (rule trans)
  then have "middleware N h r (fresh_writer, s) = ((w', s'), False)" for h
    by (simp add: middleware_unfold recover_middleware_def)
  with w'(2) show ?thesis by blast
qed

text \<open>C6: No handler of the management API other than set-up and login is reached, and no other state is
  touched than an expired session deleted, while the server awaits its set-up, without the token of
  a stored session that has not expired, or, on a request that changes state and carries the cookie,
  from a foreign origin: whatever the handler, the client gets the same 401, 403 or 428.\<close>
theorem no_handler_without_session:
  assumes "under_api r" "hr_path r \<notin> {''/api/v1/auth/setup'', ''/api/v1/auth/login''}"
    and "needs_setup s \<or> cross_site N r s \<or> \<not> live_session N (an_session_now N) r s"
  shows "\<exists>w' st. (\<forall>h. middleware N h r (fresh_writer, s) = ((w', set_store st s), False))
    \<and> w_status w' \<in> {Some 401, Some 403, Some 428}"
proof -
  have "\<not> auth_exempt r" using assms(1,2) by (auto simp: auth_exempt_def under_api_def)
  moreover have "\<exists>st. s = set_store st s" by (rule exI [of _ "api_store s"]) (simp add: set_store_def api_store_def)
  moreover obtain st v where sess:
      "session_from_request N (an_session_now N) (an_renew_now N) r s = (set_store st s, v)"
    using session_lookup_store [of N "an_session_now N" "an_renew_now N" r s] by (metis prod.collapse)
  moreover have "v = None" if "\<not> live_session N (an_session_now N) r s"
    using no_live_session [OF that, of "an_renew_now N"] sess by simp
  ultimately have "\<exists>msg code st. refusal N r s = Some (msg, code, set_store st s) \<and> code \<in> {401, 403, 428}"
    using assms(3) by (cases "cross_site N r s"; cases "needs_setup s") (auto simp: refusal_def)
  then obtain msg code st where "refusal N r s = Some (msg, code, set_store st s)" "code \<in> {401, 403, 428}" by blast
  from middleware_refuses [OF this(1)] this(2) show ?thesis by blast
qed

section \<open>Login\<close>

definition credentials :: "'s api_env \<Rightarrow> http_request \<Rightarrow> string + (string \<Rightarrow> string)" where
  "credentials N r = decode_json (an_parse N) (strings_of_json [''username'', ''password'']) r"

text \<open>The user whose name and password the request carries.\<close>

definition authenticates :: "'s api_env \<Rightarrow> http_request \<Rightarrow> 's api \<Rightarrow> user \<Rightarrow> bool" where
  "authenticates N r s u \<longleftrightarrow> (\<exists>req. credentials N r = Inr req \<and> find_user (trim_space (req ''username'')) s = Some u
     \<and> verify_password (an_hmac N) (us_password_hash u) (req ''password''))"

definition session_for :: "'s api_env \<Rightarrow> string \<Rightarrow> user \<Rightarrow> 's api \<Rightarrow> session" where
  "session_for N token u s =
     \<lparr>se_token = token, se_username = us_username u, se_expires_at = an_created_now N + session_ttl s\<rparr>"

text \<open>Login either leaves the store alone and answers an error, or the password is right and the
  session was to be stored.\<close>

lemma login_cases:
  obtains (refused) l msg code where "login N r (w, s) = (http_error msg code w, s\<lparr>ap_login_limiter := l\<rparr>)"
      "code \<in> {400, 401, 429, 500, 503}"
  | (stored) l u token st err w' where "authenticates N r s u" "new_token N = Inr token" "ap_has_store s"
      "session_upsert (an_kv N) (an_go N) (Some (session_for N token u s)) (api_store s) = (st, err)"
      "login N r (w, s) = (w', set_store st (s\<lparr>ap_login_limiter := l\<rparr>))"
      "err \<noteq> None \<Longrightarrow> w' = http_error ''login failed'' 500 w"
      "err = None \<Longrightarrow> w' = write_json (an_render N) (JObj [(''username'', JStr (us_username u))])
         (set_session_cookie r (session_for N token u s) (set_store st (s\<lparr>ap_login_limiter := l\<rparr>)) w)"
proof -
  obtain l ok where lim: "allow_request (an_split_host N) (hr_remote r) (an_login_now N) (ap_login_limiter s) = (l, ok)"
    by fastforce
  show thesis
  proof (cases "\<not> ok \<or> \<not> ap_has_store s \<or> api_config s = None")
    case True
    show ?thesis
      by (rule refused [of "if ok then ''auth unavailable'' else ''rate limited''" "if ok then 503 else 429" l])
        (use True in \<open>auto simp: login_def lim Let_def\<close>)
  next
    case False
    show ?thesis
    proof (cases "\<exists>u. authenticates N r s u")
      case bad: False
      show ?thesis
      proof (cases "credentials N r")
        case (Inl e)
        with False show ?thesis by (intro refused [of e 400 l]) (auto simp: login_def lim Let_def credentials_def)
      next
        case (Inr req)
        with False bad show ?thesis
          by (intro refused [of "''invalid username or password''" 401 l])
            (auto simp: login_def lim Let_def credentials_def authenticates_def split: option.split)
      qed
    next
      case True
      then obtain u req where u: "authenticates N r s u" "credentials N r = Inr req"
          "find_user (trim_space (req ''username'')) s = Some u"
          "verify_password (an_hmac N) (us_password_hash u) (req ''password'')"
        by (auto simp: authenticates_def)
      let ?s = "s\<lparr>ap_login_limiter := l\<rparr>"
      have run: "login N r (w, s) =
          (case create_session N r (us_username u) (w, ?s) of
             ((w, s), Some e) \<Rightarrow> (internal_error ''login failed'' w, s)
           | ((w, s), None) \<Rightarrow> (write_json (an_render N) (JObj [(''username'', JStr (us_username u))]) w, s))"
        using u False by (auto simp: login_def lim Let_def credentials_def)
      show ?thesis
      proof (cases "new_token N")
        case (Inl e)
        then show ?thesis by (intro refused [of "''login failed''" 500 l]) (auto simp: run create_session_def internal_error_def)
      next
        case (Inr token)
        obtain st err where up: "session_upsert (an_kv N) (an_go N) (Some (session_for N token u s)) (api_store s) = (st, err)"
          by fastforce
        have "create_session N r (us_username u) (w, ?s) =
            (case err of Some e \<Rightarrow> ((w, set_store st ?s), Some ''store'')
             | None \<Rightarrow> ((set_session_cookie r (session_for N token u s) (set_store st ?s) w, set_store st ?s), None))"
          using Inr False up by (simp add: create_session_def session_for_def split: option.split)
        with stored [OF u(1) Inr _ up] False show ?thesis
          by (cases err) (auto simp: run internal_error_def)
      qed
    qed
  qed
qed

text \<open>A login changes no session unless the request carries the name and the password of a configured
  user, and it never changes the configuration.\<close>
theorem login_needs_password:
  "(api_store (snd (login N r (w, s))) = api_store s \<or> (\<exists>u. authenticates N r s u))
   \<and> api_config (snd (login N r (w, s))) = api_config s"
  by (cases rule: login_cases [of N r w s]) auto

lemma find_user_mem: "find_user name s = Some u \<Longrightarrow> \<exists>c. api_config s = Some c \<and> u \<in> set (au_users (c_auth c))"
  by (auto simp: find_user_def find_Some_iff split: option.splits)

text \<open>C23: A login answered with 200 came with the password of a configured user, and from then on, until
  the lifetime of a session is over, a request with the token it was given is served as that user's,
  as long as the store can be written; the session is renewed for another lifetime.\<close>
theorem login_grants_session:
  assumes "file_ok (api_store s)" "an_kv N = file_ops io" "new_token N = Inr token"
    and "\<And>u. authenticates N r s u \<Longrightarrow> session_fits (an_go N) (session_for N token u s)"
    and "login N r (fresh_writer, s) = (w', s')" "w_status w' = Some 200"
    and "an_kv M = file_ops (\<lambda>_. Saved)" "an_go M = an_go N"
    and "hr_cookie (cookie_name s) q = Some token" "now \<le> an_created_now N + session_ttl s"
  shows "\<exists>u. authenticates N r s u \<and> snd (session_from_request M now renew_now q s') =
    Some \<lparr>se_token = token, se_username = us_username u, se_expires_at = renew_now + session_ttl s\<rparr>"
proof (cases rule: login_cases [of N r fresh_writer s])
  case (refused l msg code)
  then show ?thesis using assms(5,6) by (auto simp: http_error_status fresh_writer_def)
next
  case (stored l u tok st err w2)
  have tok: "tok = token" using stored(2) assms(3) by simp
  have err: "err = None"
    using stored(5,6) assms(5,6) by (cases err) (auto simp: http_error_status fresh_writer_def)
  have up: "session_upsert (file_ops io) (an_go N) (Some (session_for N token u s)) (api_store s) = (st, None)"
    using stored(4) assms(2) by (simp add: tok err)
  from fkv.session_upsert_done(1,2) [OF assms(1) assms(4) [OF stored(1)] up]
  have st: "file_ok st" "session_get (file_ops (\<lambda>_. Saved)) (an_go N) token st = Inr (session_for N token u s)"
    by (simp_all add: session_for_def session_get_def file_ops_def)
  have nonempty: "token \<noteq> []" "\<not> fs_closed st"
    using up file_put_synced by (auto simp: session_upsert_def session_for_def file_ops_def split: if_splits)
  then have renew: "session_upsert (file_ops (\<lambda>_. Saved)) (an_go N) (Some v) st = (fst (session_upsert (file_ops (\<lambda>_. Saved)) (an_go N) (Some v) st), None)"
    if "se_token v = token" for v
    using that by (simp add: session_upsert_def file_ops_def file_put_def save_locked_def Let_def)
  have s': "s' = set_store st (s\<lparr>ap_login_limiter := l\<rparr>)" using stored(5) assms(5) by simp
  let ?v = "(session_for N token u s)\<lparr>se_expires_at := renew_now + session_ttl s\<rparr>"
  obtain st2 where renewed: "session_upsert (file_ops (\<lambda>_. Saved)) (an_go N) (Some ?v) st = (st2, None)"
    using renew [of ?v] by (auto simp: session_for_def)
  have "snd (session_from_request M now renew_now q s') = Some ?v"
    using renewed st(2) assms(7-10) nonempty(1) stored(3)
    by (simp add: session_from_request_def s' Let_def session_for_def)
  with stored(1) show ?thesis by (auto simp: session_for_def)
qed

section \<open>A small server\<close>

definition quiet_io :: log_io where
  "quiet_io = \<lparr>li_now = 1, li_stamp = [], li_mkdir = None, li_open = None, li_stat = None, li_close = None, li_rename = None,
     li_write = (None, None)\<rparr>"

definition good_disk :: save_io where
  "good_disk = \<lparr>si_mkdir = None, si_temp = Inr ''.tmp'', si_write = None, si_chmod = None, si_sync = None, si_close = None,
     si_rename = None, si_sync_dir = None\<rparr>"

text \<open>The parser of this environment reads every body as the credentials of \<open>root\<close>.\<close>

definition home_env :: "file_store api_env" where
  "home_env = \<lparr>an_go = ascii_lib, an_kv = file_ops (\<lambda>_. Saved), an_load = plain_load, an_save = good_disk,
     an_hmac = toy_hmac, an_salt = Inr ''salt'', an_token = Inr ''tok'', an_log_salt = Some ''salt'', an_request_id = ''id'',
     an_split_host = Some, an_url_host = Some,
     an_parse = (\<lambda>_. Inr (JObj [(''username'', JStr ''root''), (''password'', JStr ''password'')], [])),
     an_render = (\<lambda>_. ''json''), an_status_text = (\<lambda>_. ''error''), an_audit_render = (\<lambda>_. None), an_audit_io = quiet_io,
     an_query_io = quiet_io, an_query_close_io = quiet_io, an_login_now = 5, an_limit_now = 5, an_session_now = 5,
     an_renew_now = 5, an_me_now = 5, an_me_renew_now = 5, an_created_now = 5, an_history_now = 5,
     an_yaml = (\<lambda>_. Some []), an_problem_text = (\<lambda>_. ''invalid''), an_policy_text = (\<lambda>_. ''policy''), an_value = (\<lambda>_. JNull), an_blocklist = (\<lambda>_. Inl ''bad''),
     an_blocklist_patch = (\<lambda>_. Inl ''bad''), an_upstream = (\<lambda>_. Inl ''bad''), an_upstream_patch = (\<lambda>_. Inl ''bad''),
     an_group = (\<lambda>_. Inl ''bad''), an_group_patch = (\<lambda>_. Inl ''bad''), an_client_patch = (\<lambda>_. Inl ''bad''),
     an_settings_patch = (\<lambda>_. Inl ''bad'')\<rparr>"

definition root_user :: user where
  "root_user = \<lparr>us_username = ''root'', us_password_hash = ''pbkdf2-sha256$1$c2FsdA$cGFzc3dvcmQ''\<rparr>"

definition guarded_home :: config where
  "guarded_home = (home_config [])\<lparr>c_auth := (c_auth (home_config []))\<lparr>au_first_run := False, au_users := [root_user]\<rparr>\<rparr>"

definition home_api :: "file_store api" where
  "home_api = \<lparr>ap_has_cfg = True, ap_has_store = True, ap_has_cache = True, ap_has_stats = True, ap_has_pipeline = True,
     ap_pipe = bare_pipeline\<lparr>pp_config := Some guarded_home\<rparr>, ap_audit = None, ap_config_path = [], ap_files = [],
     ap_login_limiter = Some (new_window_limiter 5 minute), ap_api_limiter = Some (new_window_limiter 0 minute)\<rparr>"

definition api_request :: "string \<Rightarrow> string \<Rightarrow> (string \<times> string) list \<Rightarrow> http_request" where
  "api_request verb path cookies = \<lparr>hr_method = verb, hr_path = path, hr_header = (\<lambda>_. []), hr_host = ''home'', hr_cookies = cookies,
     hr_remote = ''10.0.0.9'', hr_tls = False, hr_body = ([], None), hr_id = []\<rparr>"

lemma no_handler_without_session_witness:
  "\<exists>w' st. (\<forall>h. middleware home_env h (api_request ''GET'' ''/api/v1/clients'' []) (fresh_writer, home_api)
      = ((w', set_store st home_api), False)) \<and> w_status w' \<in> {Some 401, Some 403, Some 428}"
  by (rule no_handler_without_session)
    (simp_all add: api_request_def under_api_def live_session_def hr_cookie_def)

lemma root_authenticates:
  "authenticates home_env (api_request ''POST'' ''/api/v1/auth/login'' []) home_api u \<longleftrightarrow> u = root_user"
proof -
  have v: "verify_password toy_hmac (us_password_hash root_user) ''password''" by code_simp
  have names: "map lower_char ''username'' = ''username''" "map lower_char ''password'' = ''password''" by code_simp+
  have "credentials home_env (api_request ''POST'' ''/api/v1/auth/login'' [])
      = Inr (string_field [(''username'', JStr ''root''), (''password'', JStr ''password'')])"
    using names by (simp add: credentials_def decode_json_def read_body_def api_request_def home_env_def del: list.map)
  moreover have "string_field [(''username'', JStr ''root''), (''password'', JStr ''password'')] ''username'' = ''root''"
      "string_field [(''username'', JStr ''root''), (''password'', JStr ''password'')] ''password'' = ''password''"
      "trim_space ''root'' = ''root''"
    by code_simp+
  moreover have "find_user ''root'' home_api = Some root_user"
    by (simp add: find_user_def api_config_def home_api_def guarded_home_def root_user_def)
  ultimately show ?thesis using v by (auto simp: authenticates_def home_env_def)
qed

lemma root_logs_in:
  "\<exists>w' s'. login home_env (api_request ''POST'' ''/api/v1/auth/login'' []) (fresh_writer, home_api) = (w', s')
     \<and> w_status w' = Some 200"
proof -
  let ?r = "api_request ''POST'' ''/api/v1/auth/login'' []"
  obtain req where req: "credentials home_env ?r = Inr req" "find_user (trim_space (req ''username'')) home_api = Some root_user"
      "verify_password toy_hmac (us_password_hash root_user) (req ''password'')"
    using root_authenticates [of root_user] by (auto simp: authenticates_def home_env_def)
  have lim: "\<exists>l. allow_request Some ''10.0.0.9'' 5 (Some (new_window_limiter 5 minute)) = (l, True)"
    by (simp add: allow_request_def allow_with_def new_window_limiter_def minute_def prune_entries_def time_is_zero_def Let_def)
  obtain st where up: "session_upsert (file_ops (\<lambda>_. Saved)) ascii_lib
      (Some \<lparr>se_token = ''dG9r'', se_username = us_username root_user, se_expires_at = 5 + session_ttl home_api\<rparr>) empty_store = (st, None)"
    by (simp add: session_upsert_def file_ops_def file_put_def save_locked_def empty_store_def Let_def)
  have tok: "new_token home_env = Inr ''dG9r''" by (simp add: new_token_def home_env_def) code_simp
  have "api_config home_api = Some guarded_home" "ap_has_store home_api" "api_store home_api = empty_store"
    "ap_login_limiter home_api = Some (new_window_limiter 5 minute)"
    by (simp_all add: api_config_def home_api_def api_store_def bare_pipeline_def)
  with lim req tok up show ?thesis
    by (auto simp: login_def Let_def credentials_def create_session_def home_env_def api_request_def
        write_json_def write_json_status_def status_write_body write_header_def set_session_cookie_def fresh_writer_def)
qed

lemma login_grants_session_witness:
  "\<exists>s'. snd (session_from_request home_env 6 7 (api_request ''GET'' ''/api/v1/clients'' [(''sis_session'', ''dG9r'')]) s') =
     Some \<lparr>se_token = ''dG9r'', se_username = ''root'', se_expires_at = 7 + session_ttl home_api\<rparr>"
proof -
  let ?r = "api_request ''POST'' ''/api/v1/auth/login'' []" and ?q = "api_request ''GET'' ''/api/v1/clients'' [(''sis_session'', ''dG9r'')]"
  obtain w' s' where l: "login home_env ?r (fresh_writer, home_api) = (w', s')" "w_status w' = Some 200"
    using root_logs_in by blast
  have "new_token home_env = Inr ''dG9r''" by (simp add: new_token_def home_env_def) code_simp
  moreover have "session_ttl home_api = 24 * hour" "cookie_name home_api = ''sis_session''"
    by (simp_all add: session_ttl_def cookie_name_def api_config_def home_api_def guarded_home_def home_config_def zero_config_def)
  moreover have "session_fits ascii_lib (session_for home_env ''dG9r'' u home_api)"
    if "authenticates home_env ?r home_api u" for u
  proof -
    have "valid_utf8 ''dG9r''" "valid_utf8 ''root''" by code_simp+
    moreover have "u = root_user" using that root_authenticates by blast
    moreover have "an_created_now home_env = 5" by (simp add: home_env_def)
    ultimately show ?thesis
      using \<open>session_ttl home_api = 24 * hour\<close>
      by (simp add: session_fits_def session_for_def root_user_def ascii_lib_times min_int64_def max_int64_def
          hour_def minute_def second_def del: valid_utf8.simps)
  qed
  moreover have "file_ok (api_store home_api)"
    by (simp add: file_ok_def api_store_def home_api_def bare_pipeline_def empty_store_def)
  moreover have "hr_cookie ''sis_session'' ?q = Some ''dG9r''" by (simp add: hr_cookie_def api_request_def)
  ultimately have "\<exists>u. authenticates home_env ?r home_api u \<and> snd (session_from_request home_env 6 7 ?q s') =
      Some \<lparr>se_token = ''dG9r'', se_username = us_username u, se_expires_at = 7 + session_ttl home_api\<rparr>"
    by (intro login_grants_session [OF _ _ _ _ l, where io = "\<lambda>_. Saved"])
      (simp_all add: home_env_def hour_def minute_def second_def)
  then show ?thesis by (auto simp: root_authenticates root_user_def)
qed

end
