(* ===== verification/Api_Config.thy ===== *)
theory Api_Config
  imports Api_Auth
begin

text \<open>
  \<open>internal/api/config_mutation.go\<close>, \<open>settings.go\<close>, \<open>upstream_crud.go\<close>, \<open>blocklist_crud.go\<close>,
  \<open>groups.go\<close>, \<open>clients.go\<close> and the reload of \<open>system_config.go\<close>: changes of the running
  configuration.

  \<open>cloneConfig\<close> copies a configuration before it is changed; configurations are values here, so the
  copy is the value itself.  The eviction of a smaller cache ends on every cache that satisfies its
  invariant; the default of \<open>the_default\<close> is never taken there.  Handlers of a named object get the
  path value as an argument.
\<close>

section \<open>Applying a configuration\<close>

definition the_default :: "'a \<Rightarrow> 'a option \<Rightarrow> 'a" where
  "the_default d x = (case x of None \<Rightarrow> d | Some y \<Rightarrow> y)"

definition append_config_history :: "'s api_env \<Rightarrow> config \<Rightarrow> 's \<Rightarrow> 's \<times> string option" where
  "append_config_history N c st =
     (case redacted_copy (Some c) of
        None \<Rightarrow> (st, None)
      | Some r \<Rightarrow>
          (case an_yaml N r of
             None \<Rightarrow> (st, Some ''yaml'')
           | Some text \<Rightarrow>
               (case history_append (an_kv N) (an_go N) (an_history_now N)
                       (Some \<lparr>sn_ts = an_history_now N, sn_yaml = text\<rparr>) st of
                  (st, e) \<Rightarrow> (st, map_option (\<lambda>_. ''store'') e))))"

definition api_cache_options :: "config \<Rightarrow> cache_options" where
  "api_cache_options c =
     \<lparr>co_max_entries = cc_max_entries (c_cache c), co_min_ttl = cc_min_ttl (c_cache c), co_max_ttl = cc_max_ttl (c_cache c),
      co_negative_ttl = cc_negative_ttl (c_cache c)\<rparr>"

text \<open>The steps that can fail, in their order; an error is the message and the status.\<close>

definition persist_config :: "'s api_env \<Rightarrow> config \<Rightarrow> 's api \<Rightarrow> 's api \<times> (string \<times> int) option" where
  "persist_config N c s =
     (let (files, saved) = (if ap_config_path s \<noteq> [] then save (an_load N) (an_save N) (ap_config_path s) c (ap_files s)
                            else (ap_files s, None));
          s = s\<lparr>ap_files := files\<rparr> in
      if saved \<noteq> None then (s, Some (''config update failed'', 500))
      else if \<not> ap_has_store s then (s, None)
      else
        (case append_config_history N c (api_store s) of
           (st, e) \<Rightarrow> (set_store st s, map_option (\<lambda>_. (''config update failed'', 500)) e)))"

definition reload_policy :: "'s api_env \<Rightarrow> config \<Rightarrow> 's api \<Rightarrow> 's api \<times> (string \<times> int) option" where
  "reload_policy N c s =
     (case pp_policy (ap_pipe s) of
        None \<Rightarrow> (s, None)
      | Some e \<Rightarrow>
          (case reload_config (an_go N) (Some c) e of
             (e, err) \<Rightarrow>
               (s\<lparr>ap_pipe := (ap_pipe s)\<lparr>pp_policy := Some e\<rparr>\<rparr>, map_option (\<lambda>err. (an_policy_text N err, 400)) err)))"

definition reopen_logs :: "'s api_env \<Rightarrow> config \<Rightarrow> 's api \<Rightarrow> 's api \<times> (string \<times> int) option" where
  "reopen_logs N c s =
     (let (q, e) = (case pp_log (ap_pipe s) of
            None \<Rightarrow> (None, None)
          | Some q \<Rightarrow> map_prod Some id (query_reconfigure (an_query_io N) (an_query_close_io N) (an_log_salt N) (Some c) q));
          s = s\<lparr>ap_pipe := (ap_pipe s)\<lparr>pp_log := q\<rparr>\<rparr> in
      if e \<noteq> None then (s, Some (''config update failed'', 500))
      else
        (let (a, e) = (case ap_audit s of
               None \<Rightarrow> (None, None)
             | Some a \<Rightarrow> map_prod Some id (audit_reconfigure (an_audit_io N) (Some c) a))
         in (s\<lparr>ap_audit := a\<rparr>, map_option (\<lambda>_. (''config update failed'', 500)) e)))"

text \<open>The steps that cannot fail.\<close>

definition switch_config :: "config \<Rightarrow> 's api \<Rightarrow> 's api" where
  "switch_config c s =
     (let p = ap_pipe s;
          p = p\<lparr>pp_upstream := map_option (pool_replace (c_upstreams c)) (pp_upstream p)\<rparr>;
          p = (if ap_has_cache s
               then p\<lparr>pp_cache := the_default (pp_cache p) (cache_reconfigure (api_cache_options c) (pp_cache p))\<rparr> else p);
          p = (if ap_has_pipeline s then pipeline_reconfigure (Some c) p else p)
      in replace_config c (s\<lparr>ap_pipe := p\<rparr>))"

definition and_then :: "'s \<times> 'e option \<Rightarrow> ('s \<Rightarrow> 's \<times> 'e option) \<Rightarrow> 's \<times> 'e option" where
  "and_then r f = (case r of (s, None) \<Rightarrow> f s | (s, Some e) \<Rightarrow> (s, Some e))"

definition apply_config ::
  "'s api_env \<Rightarrow> config option \<Rightarrow> string \<Rightarrow> string \<Rightarrow> audit_payload \<Rightarrow> audit_payload \<Rightarrow> writer \<times> 's api
   \<Rightarrow> (writer \<times> 's api) \<times> config option" where
  "apply_config N c action target before after ws =
     (case ws of (w, s) \<Rightarrow>
        (case ensure_log_salt (an_log_salt N) c of
           (None, _) \<Rightarrow> ((http_error ''config is required'' 400 w, s), None)
         | (Some c, Inl e) \<Rightarrow> ((internal_error ''config update failed'' w, s), None)
         | (Some c, Inr _) \<Rightarrow>
             let problems = validate (lp_val (an_load N)) (Some c) in
             if problems \<noteq> [] then ((http_error (an_problem_text N problems) 400 w, s), None)
             else
               (case and_then (and_then (persist_config N c s) (reload_policy N c)) (reopen_logs N c) of
                  (s, Some (msg, code)) \<Rightarrow> ((http_error msg code w, s), None)
                | (s, None) \<Rightarrow> ((w, api_audit N action target before after (switch_config c s)), Some c))))"

text \<open>A handler that changes the configuration: it needs one, and answers with \<open>done\<close> when the change
  was applied.  \<open>Inl\<close> is an answer of its own.\<close>

type_synonym 's change = "config \<Rightarrow> (writer \<Rightarrow> writer) + config \<times> string \<times> audit_payload \<times> audit_payload \<times> (writer \<Rightarrow> 's api \<Rightarrow> writer \<times> 's api)"

definition change_config ::
  "'s api_env \<Rightarrow> string \<Rightarrow> 's change \<Rightarrow> writer \<times> 's api \<Rightarrow> writer \<times> 's api" where
  "change_config N action f ws =
     (case ws of (w, s) \<Rightarrow>
        (case api_config s of
           None \<Rightarrow> (http_error ''config unavailable'' 503 w, s)
         | Some cfg \<Rightarrow>
             (case f cfg of
                Inl answer \<Rightarrow> (answer w, s)
              | Inr (c, target, before, after, answer) \<Rightarrow>
                  (case apply_config N (Some c) action target before after (w, s) of
                     ((w, s), None) \<Rightarrow> (w, s)
                   | ((w, s), Some _) \<Rightarrow> answer w s))))"

definition bad_request :: "string \<Rightarrow> (writer \<Rightarrow> writer) + 'b" where
  "bad_request e = Inl (http_error e 400)"

definition audited :: "'s api_env \<Rightarrow> api_value \<Rightarrow> audit_payload" where
  "audited N v = Json_Payload (an_value N v)"

definition answer_value :: "'s api_env \<Rightarrow> int \<Rightarrow> api_value \<Rightarrow> writer \<Rightarrow> 's api \<Rightarrow> writer \<times> 's api" where
  "answer_value N status v w s = (write_json_status (an_render N) status (an_value N v) w, s)"

definition no_content :: "writer \<Rightarrow> 's api \<Rightarrow> writer \<times> 's api" where
  "no_content w s = (write_header 204 w, s)"

fun first_index :: "('a \<Rightarrow> bool) \<Rightarrow> 'a list \<Rightarrow> nat option" where
  "first_index P [] = None"
| "first_index P (x # xs) = (if P x then Some 0 else map_option Suc (first_index P xs))"

definition without_index :: "nat \<Rightarrow> 'a list \<Rightarrow> 'a list" where
  "without_index i xs = take i xs @ drop (Suc i) xs"

definition or_else :: "'a option \<Rightarrow> 'a \<Rightarrow> 'a" where
  "or_else x d = (case x of None \<Rightarrow> d | Some v \<Rightarrow> v)"

section \<open>Settings\<close>

definition settings_of :: "config \<Rightarrow> settings_view" where
  "settings_of c = \<lparr>sv_cache = c_cache c, sv_privacy = c_privacy c, sv_logging = c_logging c, sv_block = c_block c\<rparr>"

definition settings_get :: "'s api_env \<Rightarrow> http_request \<Rightarrow> writer \<times> 's api \<Rightarrow> writer \<times> 's api" where
  "settings_get N r ws =
     (case ws of (w, s) \<Rightarrow>
        (case api_config s of
           None \<Rightarrow> (http_error ''config unavailable'' 503 w, s)
         | Some c \<Rightarrow> (write_json (an_render N) (an_value N (Settings_Value (settings_of c))) w, s)))"

definition patched_settings :: "settings_patch_body \<Rightarrow> config \<Rightarrow> config" where
  "patched_settings b c =
     c\<lparr>c_cache := or_else (sp_cache b) (c_cache c), c_privacy := or_else (sp_privacy b) (c_privacy c),
       c_logging := or_else (sp_logging b) (c_logging c), c_block := or_else (sp_block b) (c_block c)\<rparr>"

definition settings_patch :: "'s api_env \<Rightarrow> http_request \<Rightarrow> writer \<times> 's api \<Rightarrow> writer \<times> 's api" where
  "settings_patch N r =
     change_config N ''settings.update'' (\<lambda>cfg.
       case decode_json (an_parse N) (an_settings_patch N) r of
         Inl e \<Rightarrow> bad_request e
       | Inr b \<Rightarrow>
           let c = patched_settings b cfg in
           Inr (c, ''settings'', audited N (Settings_Value (settings_of cfg)), audited N (Settings_Value (settings_of c)),
                answer_value N 200 (Settings_Value (settings_of c))))"

section \<open>Upstreams\<close>

definition upstream_index :: "string \<Rightarrow> upstream list \<Rightarrow> nat option" where
  "upstream_index i us = first_index (\<lambda>u. up_id u = i) us"

definition upstream_create :: "'s api_env \<Rightarrow> http_request \<Rightarrow> writer \<times> 's api \<Rightarrow> writer \<times> 's api" where
  "upstream_create N r =
     change_config N ''upstream.create'' (\<lambda>cfg.
       case decode_json (an_parse N) (an_upstream N) r of
         Inl e \<Rightarrow> bad_request e
       | Inr u \<Rightarrow>
           let u = u\<lparr>up_id := trim_space (up_id u)\<rparr> in
           if up_id u = [] then bad_request ''id is required''
           else if upstream_index (up_id u) (c_upstreams cfg) \<noteq> None then Inl (http_error ''upstream already exists'' 409)
           else Inr (cfg\<lparr>c_upstreams := c_upstreams cfg @ [u]\<rparr>, up_id u, No_Payload, audited N (Upstream_Value u),
                     answer_value N 201 (Upstream_Value u)))"

definition patched_upstream :: "string \<Rightarrow> upstream_patch_body \<Rightarrow> upstream \<Rightarrow> upstream" where
  "patched_upstream i b u =
     (let id = (case xp_id b of None \<Rightarrow> up_id u | Some v \<Rightarrow> trim_space v) in
      u\<lparr>up_id := (if id = [] then i else id), up_name := or_else (xp_name b) (up_name u), up_url := or_else (xp_url b) (up_url u),
        up_bootstrap := or_else (xp_bootstrap b) (up_bootstrap u), up_timeout := or_else (xp_timeout b) (up_timeout u)\<rparr>)"

definition upstream_patch :: "'s api_env \<Rightarrow> string \<Rightarrow> http_request \<Rightarrow> writer \<times> 's api \<Rightarrow> writer \<times> 's api" where
  "upstream_patch N i r =
     change_config N ''upstream.update'' (\<lambda>cfg.
       case upstream_index i (c_upstreams cfg) of
         None \<Rightarrow> Inl not_found
       | Some idx \<Rightarrow>
           let before = c_upstreams cfg ! idx in
           (case decode_json (an_parse N) (an_upstream_patch N) r of
              Inl e \<Rightarrow> bad_request e
            | Inr b \<Rightarrow>
                let u = patched_upstream i b before in
                if up_id u \<noteq> i \<and> upstream_index (up_id u) (c_upstreams cfg) \<noteq> None
                then Inl (http_error ''upstream already exists'' 409)
                else Inr (cfg\<lparr>c_upstreams := (c_upstreams cfg)[idx := u]\<rparr>, i, audited N (Upstream_Value before),
                          audited N (Upstream_Value u), answer_value N 200 (Upstream_Value u))))"

definition upstream_delete :: "'s api_env \<Rightarrow> string \<Rightarrow> http_request \<Rightarrow> writer \<times> 's api \<Rightarrow> writer \<times> 's api" where
  "upstream_delete N i r =
     change_config N ''upstream.delete'' (\<lambda>cfg.
       case upstream_index i (c_upstreams cfg) of
         None \<Rightarrow> Inl not_found
       | Some idx \<Rightarrow>
           Inr (cfg\<lparr>c_upstreams := without_index idx (c_upstreams cfg)\<rparr>, i, audited N (Upstream_Value (c_upstreams cfg ! idx)),
                No_Payload, no_content))"

section \<open>Blocklists\<close>

definition blocklist_index :: "string \<Rightarrow> blocklist list \<Rightarrow> nat option" where
  "blocklist_index i bs = first_index (\<lambda>b. bl_id b = i) bs"

definition blocklist_create :: "'s api_env \<Rightarrow> http_request \<Rightarrow> writer \<times> 's api \<Rightarrow> writer \<times> 's api" where
  "blocklist_create N r =
     change_config N ''blocklist.create'' (\<lambda>cfg.
       case decode_json (an_parse N) (an_blocklist N) r of
         Inl e \<Rightarrow> bad_request e
       | Inr b \<Rightarrow>
           let b = b\<lparr>bl_id := trim_space (bl_id b)\<rparr> in
           if bl_id b = [] then bad_request ''id is required''
           else if blocklist_index (bl_id b) (c_blocklists cfg) \<noteq> None then Inl (http_error ''blocklist already exists'' 409)
           else Inr (cfg\<lparr>c_blocklists := c_blocklists cfg @ [b]\<rparr>, bl_id b, No_Payload, audited N (Blocklist_Value b),
                     answer_value N 201 (Blocklist_Value b)))"

definition patched_blocklist :: "string \<Rightarrow> blocklist_patch_body \<Rightarrow> blocklist \<Rightarrow> blocklist" where
  "patched_blocklist i p b =
     (let id = (case bp_id p of None \<Rightarrow> bl_id b | Some v \<Rightarrow> trim_space v) in
      b\<lparr>bl_id := (if id = [] then i else id), bl_name := or_else (bp_name p) (bl_name b), bl_url := or_else (bp_url p) (bl_url b),
        bl_enabled := or_else (bp_enabled p) (bl_enabled b),
        bl_refresh_interval := or_else (bp_refresh_interval p) (bl_refresh_interval b)\<rparr>)"

definition blocklist_patch :: "'s api_env \<Rightarrow> string \<Rightarrow> http_request \<Rightarrow> writer \<times> 's api \<Rightarrow> writer \<times> 's api" where
  "blocklist_patch N i r =
     change_config N ''blocklist.update'' (\<lambda>cfg.
       case blocklist_index i (c_blocklists cfg) of
         None \<Rightarrow> Inl not_found
       | Some idx \<Rightarrow>
           let before = c_blocklists cfg ! idx in
           (case decode_json (an_parse N) (an_blocklist_patch N) r of
              Inl e \<Rightarrow> bad_request e
            | Inr p \<Rightarrow>
                let b = patched_blocklist i p before in
                if bl_id b \<noteq> i \<and> blocklist_index (bl_id b) (c_blocklists cfg) \<noteq> None
                then Inl (http_error ''blocklist already exists'' 409)
                else Inr (cfg\<lparr>c_blocklists := (c_blocklists cfg)[idx := b]\<rparr>, i, audited N (Blocklist_Value before),
                          audited N (Blocklist_Value b), answer_value N 200 (Blocklist_Value b))))"

definition blocklist_delete :: "'s api_env \<Rightarrow> string \<Rightarrow> http_request \<Rightarrow> writer \<times> 's api \<Rightarrow> writer \<times> 's api" where
  "blocklist_delete N i r =
     change_config N ''blocklist.delete'' (\<lambda>cfg.
       case blocklist_index i (c_blocklists cfg) of
         None \<Rightarrow> Inl not_found
       | Some idx \<Rightarrow>
           Inr (cfg\<lparr>c_blocklists := without_index idx (c_blocklists cfg)\<rparr>, i, audited N (Blocklist_Value (c_blocklists cfg ! idx)),
                No_Payload,
                (\<lambda>w s. no_content w
                  (s\<lparr>ap_pipe := (ap_pipe s)\<lparr>pp_policy := map_option (replace_list i None) (pp_policy (ap_pipe s))\<rparr>\<rparr>))))"

section \<open>Groups\<close>

definition group_index :: "string \<Rightarrow> group_config list \<Rightarrow> nat option" where
  "group_index name gs = first_index (\<lambda>g. gc_name g = name) gs"

definition find_group :: "string \<Rightarrow> 's api \<Rightarrow> group_config option" where
  "find_group name s =
     (case api_config s of None \<Rightarrow> None | Some c \<Rightarrow> find (\<lambda>g. gc_name g = name) (c_groups c))"

definition groups_list :: "'s api_env \<Rightarrow> http_request \<Rightarrow> writer \<times> 's api \<Rightarrow> writer \<times> 's api" where
  "groups_list N r ws =
     (case ws of (w, s) \<Rightarrow>
        (case api_config s of
           None \<Rightarrow> (http_error ''config unavailable'' 503 w, s)
         | Some c \<Rightarrow> (write_json (an_render N) (an_value N (Groups_Value (c_groups c))) w, s)))"

definition group_get :: "'s api_env \<Rightarrow> string \<Rightarrow> http_request \<Rightarrow> writer \<times> 's api \<Rightarrow> writer \<times> 's api" where
  "group_get N name r ws =
     (case ws of (w, s) \<Rightarrow>
        (case find_group name s of
           None \<Rightarrow> (not_found w, s)
         | Some g \<Rightarrow> (write_json (an_render N) (an_value N (Group_Value g)) w, s)))"

definition group_create :: "'s api_env \<Rightarrow> http_request \<Rightarrow> writer \<times> 's api \<Rightarrow> writer \<times> 's api" where
  "group_create N r =
     change_config N ''group.create'' (\<lambda>cfg.
       case decode_json (an_parse N) (an_group N) r of
         Inl e \<Rightarrow> bad_request e
       | Inr g \<Rightarrow>
           let g = g\<lparr>gc_name := trim_space (gc_name g)\<rparr> in
           if gc_name g = [] then bad_request ''name is required''
           else if find (\<lambda>x. gc_name x = gc_name g) (c_groups cfg) \<noteq> None then Inl (http_error ''group already exists'' 409)
           else Inr (cfg\<lparr>c_groups := c_groups cfg @ [g]\<rparr>, gc_name g, No_Payload, audited N (Group_Value g),
                     answer_value N 201 (Group_Value g)))"

definition patched_group :: "string \<Rightarrow> group_patch_body \<Rightarrow> group_config \<Rightarrow> group_config" where
  "patched_group name p g =
     (let n = (case gp_name p of None \<Rightarrow> gc_name g | Some v \<Rightarrow> trim_space v) in
      g\<lparr>gc_name := (if n = [] then name else n), gc_blocklists := or_else (gp_blocklists p) (gc_blocklists g),
        gc_allowlist := or_else (gp_allowlist p) (gc_allowlist g), gc_schedules := or_else (gp_schedules p) (gc_schedules g)\<rparr>)"

definition group_patch :: "'s api_env \<Rightarrow> string \<Rightarrow> http_request \<Rightarrow> writer \<times> 's api \<Rightarrow> writer \<times> 's api" where
  "group_patch N name r =
     change_config N ''group.update'' (\<lambda>cfg.
       case group_index name (c_groups cfg) of
         None \<Rightarrow> Inl not_found
       | Some idx \<Rightarrow>
           let before = c_groups cfg ! idx in
           (case decode_json (an_parse N) (an_group_patch N) r of
              Inl e \<Rightarrow> bad_request e
            | Inr p \<Rightarrow>
                let g = patched_group name p before in
                if name = ''default'' \<and> gc_name g \<noteq> ''default'' then bad_request ''default group cannot be renamed''
                else if gc_name g \<noteq> name \<and> group_index (gc_name g) (c_groups cfg) \<noteq> None
                then Inl (http_error ''group already exists'' 409)
                else Inr (cfg\<lparr>c_groups := (c_groups cfg)[idx := g]\<rparr>, name, audited N (Group_Value before),
                          audited N (Group_Value g), answer_value N 200 (Group_Value g))))"

definition group_delete :: "'s api_env \<Rightarrow> string \<Rightarrow> http_request \<Rightarrow> writer \<times> 's api \<Rightarrow> writer \<times> 's api" where
  "group_delete N name r =
     change_config N ''group.delete'' (\<lambda>cfg.
       if name = ''default'' then bad_request ''default group cannot be deleted''
       else
         (case group_index name (c_groups cfg) of
            None \<Rightarrow> Inl not_found
          | Some idx \<Rightarrow>
              Inr (cfg\<lparr>c_groups := without_index idx (c_groups cfg)\<rparr>, name, audited N (Group_Value (c_groups cfg ! idx)),
                   No_Payload, no_content)))"

section \<open>Reloading the file\<close>

definition config_reload :: "'s api_env \<Rightarrow> http_request \<Rightarrow> writer \<times> 's api \<Rightarrow> writer \<times> 's api" where
  "config_reload N r ws =
     (case ws of (w, s) \<Rightarrow>
        if ap_config_path s = [] \<or> \<not> ap_has_cfg s then (http_error ''config reload unavailable'' 503 w, s)
        else
          (case load (an_load N) (ap_config_path s) (ap_files s) of
             Inl e \<Rightarrow> (http_error (case e of File_Error m \<Rightarrow> m | Yaml_Error \<Rightarrow> ''yaml'' | Invalid ps \<Rightarrow> an_problem_text N ps) 400 w, s)
           | Inr c \<Rightarrow>
               (case apply_config N (Some c) ''config.reload'' (ap_config_path s) No_Payload No_Payload (w, s) of
                  ((w, s), None) \<Rightarrow> (w, s)
                | ((w, s), Some _) \<Rightarrow> (write_json (an_render N) (JObj [(''reloaded'', JBool True)]) w, s))))"

section \<open>What a change touches\<close>

lemma and_then_None: "and_then r f = (s', None) \<longleftrightarrow> (\<exists>s. r = (s, None) \<and> f s = (s', None))"
  by (auto simp: and_then_def split: prod.split option.split)

lemma and_then_inv:
  assumes "P (fst r)" "\<And>s. P s \<Longrightarrow> P (fst (f s))"
  shows "P (fst (and_then r f))"
  using assms by (auto simp: and_then_def split: prod.split option.split)

text \<open>The configuration, the upstreams, the cache and the rate limiter: what only \<open>switch_config\<close> changes.\<close>

definition running :: "'s api \<Rightarrow> config option \<times> pool option \<times> cache \<times> rate_limiter option \<times> bool \<times> bool" where
  "running s = (api_config s, pp_upstream (ap_pipe s), pp_cache (ap_pipe s), pp_limiter (ap_pipe s), ap_has_cfg s, ap_has_cache s)"

definition fallible_steps :: "'s api_env \<Rightarrow> config \<Rightarrow> 's api \<Rightarrow> 's api \<times> (string \<times> int) option" where
  "fallible_steps N c s = and_then (and_then (persist_config N c s) (reload_policy N c)) (reopen_logs N c)"

lemma step_running [simp]:
  "running (fst (persist_config N c s)) = running s" "running (fst (reload_policy N c s)) = running s"
  "running (fst (reopen_logs N c s)) = running s"
  by (simp_all add: running_def persist_config_def reload_policy_def reopen_logs_def set_store_def api_config_def Let_def
      split: prod.split option.split)

lemma steps_keep_running: "running (fst (fallible_steps N c s)) = running s"
  unfolding fallible_steps_def by (intro and_then_inv [where P = "\<lambda>t. running t = running s"]) simp_all

lemma step_files [simp]:
  "ap_files (fst (reload_policy N c s)) = ap_files s" "ap_files (fst (reopen_logs N c s)) = ap_files s"
  "pp_policy (ap_pipe (fst (persist_config N c s))) = pp_policy (ap_pipe s)"
  "pp_policy (ap_pipe (fst (reopen_logs N c s))) = pp_policy (ap_pipe s)"
  by (simp_all add: persist_config_def reload_policy_def reopen_logs_def set_store_def Let_def split: prod.split option.split)

lemma step_errors: "snd (fallible_steps N c s) = Some (msg, code) \<Longrightarrow> code = 400 \<or> code = 500"
  by (auto simp: fallible_steps_def and_then_def persist_config_def reload_policy_def reopen_logs_def Let_def
      split: prod.splits option.splits if_splits)

text \<open>How \<open>apply_config\<close> ends.\<close>

lemma apply_config_cases:
  obtains (invalid) msg code where "apply_config N (Some c) action target before after (w, s) = ((http_error msg code w, s), None)"
      "code \<in> {400, 500}"
  | (failed) c' t msg code where "apply_config N (Some c) action target before after (w, s) = ((http_error msg code w, t), None)"
      "code \<in> {400, 500}" "running t = running s" "config_valid (lp_val (an_load N)) c'" "fallible_steps N c' s = (t, Some (msg, code))"
  | (applied) c' t where "apply_config N (Some c) action target before after (w, s) =
        ((w, api_audit N action target before after (switch_config c' t)), Some c')"
      "running t = running s" "config_valid (lp_val (an_load N)) c'" "fallible_steps N c' s = (t, None)"
      "\<exists>ok. ensure_log_salt (an_log_salt N) (Some c) = (Some c', Inr ok)"
proof -
  obtain c2 r where salt: "ensure_log_salt (an_log_salt N) (Some c) = (Some c2, r)"
    by (cases "an_log_salt N"; cases "pv_log_mode (c_privacy c) \<noteq> ''hashed'' \<or> pv_log_salt (c_privacy c) \<noteq> []")
      (auto simp: ensure_log_salt_def)
  show thesis
  proof (cases r)
    case (Inl e)
    show ?thesis by (rule invalid [of "''config update failed''" 500]) (simp_all add: apply_config_def salt Inl internal_error_def)
  next
    case (Inr ok)
    show ?thesis
    proof (cases "validate (lp_val (an_load N)) (Some c2) = []")
      case False
      then show ?thesis
        by (intro invalid [of "an_problem_text N (validate (lp_val (an_load N)) (Some c2))" 400])
          (simp_all add: apply_config_def salt Inr)
    next
      case True
      then have valid: "config_valid (lp_val (an_load N)) c2" by (simp add: validate_nil_iff)
      obtain t err where f: "fallible_steps N c2 s = (t, err)" by fastforce
      with steps_keep_running [of N c2 s] have t: "running t = running s" by simp
      show ?thesis
      proof (cases err)
        case None
        show ?thesis
          by (rule applied [of c2 t]) (use f t valid True None in \<open>auto simp: apply_config_def salt Inr fallible_steps_def [symmetric]\<close>)
      next
        case (Some e)
        obtain msg code where "err = Some (msg, code)" using Some by (cases e) auto
        with f t valid True step_errors [of N c2 s msg code] show ?thesis
          by (intro failed [of msg code t c2]) (auto simp: apply_config_def salt Inr fallible_steps_def [symmetric])
      qed
    qed
  qed
qed

lemma api_audit_keeps [simp]:
  "ap_pipe (api_audit N a t b f s) = ap_pipe s" "ap_files (api_audit N a t b f s) = ap_files s"
  "running (api_audit N a t b f s) = running s" "api_config (api_audit N a t b f s) = api_config s"
  by (simp_all add: api_audit_def running_def api_config_def split: option.split)

lemma switch_config_pipe:
  "ap_files (switch_config c s) = ap_files s" "pp_policy (ap_pipe (switch_config c s)) = pp_policy (ap_pipe s)"
  "pp_upstream (ap_pipe (switch_config c s)) = map_option (pool_replace (c_upstreams c)) (pp_upstream (ap_pipe s))"
  "api_config (switch_config c s) = (if ap_has_cfg s then Some c else None)"
  "pp_cache (ap_pipe (switch_config c s)) = (if ap_has_cache s
     then the_default (pp_cache (ap_pipe s)) (cache_reconfigure (api_cache_options c) (pp_cache (ap_pipe s))) else pp_cache (ap_pipe s))"
  "ap_has_cfg (switch_config c s) = ap_has_cfg s"
  by (simp_all add: switch_config_def replace_config_def pipeline_reconfigure_def api_config_def Let_def)

text \<open>The steps succeed only when the file was written and the engine took the configuration.\<close>

lemma steps_done:
  assumes "fallible_steps N c s = (t, None)"
  shows "ap_config_path s \<noteq> [] \<Longrightarrow> save (an_load N) (an_save N) (ap_config_path s) c (ap_files s) = (ap_files t, None)"
    and "pp_policy (ap_pipe t) = map_option (\<lambda>e. fst (reload_config (an_go N) (Some c) e)) (pp_policy (ap_pipe s))"
    and "pp_policy (ap_pipe s) = Some e \<Longrightarrow> snd (reload_config (an_go N) (Some c) e) = None"
proof -
  obtain u v where u: "persist_config N c s = (u, None)" and v: "reload_policy N c u = (v, None)" "reopen_logs N c v = (t, None)"
    using assms by (auto simp: fallible_steps_def and_then_None)
  have files: "ap_files t = ap_files u"
    using step_files(1) [of N c u] step_files(2) [of N c v] v by simp
  show "save (an_load N) (an_save N) (ap_config_path s) c (ap_files s) = (ap_files t, None)" if "ap_config_path s \<noteq> []"
    using u that unfolding files by (auto simp: persist_config_def set_store_def Let_def split: prod.splits if_splits)
  have pol: "pp_policy (ap_pipe t) = pp_policy (ap_pipe v)" "pp_policy (ap_pipe u) = pp_policy (ap_pipe s)"
    using step_files(3) [of N c s] step_files(4) [of N c v] u v by simp_all
  show "pp_policy (ap_pipe t) = map_option (\<lambda>e. fst (reload_config (an_go N) (Some c) e)) (pp_policy (ap_pipe s))"
    using v(1) pol by (auto simp: reload_policy_def split: option.splits prod.splits)
  show "snd (reload_config (an_go N) (Some c) e) = None" if "pp_policy (ap_pipe s) = Some e"
    using v(1) pol that by (auto simp: reload_policy_def split: prod.splits)
qed



section \<open>Findings\<close>

text \<open>A change the policy engine rejects after it passed the validation is answered 400, and yet it is in
  the file and in the history: the next start reads it.\<close>

lemma rejected_change_stays_on_disk:
  assumes "fallible_steps N c s = (t, Some (msg, 400))" "persist_config N c s = (u, None)" "ap_config_path s \<noteq> []"
    and "si_temp (an_save N) = Inr tmp" "tmp \<noteq> ap_config_path s" "tmp \<notin> keys (ap_files s)"
  shows "map_of (ap_files t) (ap_config_path s) = lp_marshal (an_load N) c \<and> running t = running s"
proof -
  have "save (an_load N) (an_save N) (ap_config_path s) c (ap_files s) = (ap_files u, None)"
    using assms(2,3) by (auto simp: persist_config_def set_store_def Let_def split: prod.splits if_splits)
  from save_cases [OF this assms(5,6,4)] have "map_of (ap_files u) (ap_config_path s) = lp_marshal (an_load N) c" by auto
  moreover have "ap_files (fst (fallible_steps N c s)) = ap_files (fst (persist_config N c s))"
    unfolding fallible_steps_def assms(2)
    by (rule and_then_inv [where P = "\<lambda>t. ap_files t = ap_files (fst (u, None))"], rule and_then_inv) simp_all
  then have "ap_files t = ap_files u" using assms(1,2) by simp
  ultimately show ?thesis using steps_keep_running [of N c s] assms(1) by simp
qed

text \<open>When a log cannot be reopened the policy engine has already been reloaded: it runs the groups of a
  configuration that was refused.\<close>

lemma refused_change_reloads_policy:
  assumes "persist_config N c s = (u, None)" "reload_policy N c u = (v, None)" "reopen_logs N c v = (t, Some (msg, code))"
  shows "fallible_steps N c s = (t, Some (msg, code)) \<and> api_config t = api_config s
    \<and> pp_policy (ap_pipe t) = map_option (\<lambda>e. fst (reload_config (an_go N) (Some c) e)) (pp_policy (ap_pipe s))"
proof -
  have f: "fallible_steps N c s = (t, Some (msg, code))"
    using assms by (simp add: fallible_steps_def and_then_def)
  have "pp_policy (ap_pipe t) = pp_policy (ap_pipe v)" "pp_policy (ap_pipe u) = pp_policy (ap_pipe s)"
    using step_files(3) [of N c s] step_files(4) [of N c v] assms by simp_all
  with f steps_keep_running [of N c s] assms(2) show ?thesis
    by (auto simp: running_def reload_policy_def split: option.splits prod.splits)
qed

section \<open>Histories of changes\<close>

datatype change_op =
    Patch_Settings | Create_Upstream | Patch_Upstream string | Delete_Upstream string
  | Create_Blocklist | Patch_Blocklist string | Delete_Blocklist string
  | Create_Group | Patch_Group string | Delete_Group string | Reload_File

fun run_change :: "'s api_env \<Rightarrow> change_op \<Rightarrow> http_request \<Rightarrow> writer \<times> 's api \<Rightarrow> writer \<times> 's api" where
  "run_change N Patch_Settings = settings_patch N"
| "run_change N Create_Upstream = upstream_create N"
| "run_change N (Patch_Upstream i) = upstream_patch N i"
| "run_change N (Delete_Upstream i) = upstream_delete N i"
| "run_change N Create_Blocklist = blocklist_create N"
| "run_change N (Patch_Blocklist i) = blocklist_patch N i"
| "run_change N (Delete_Blocklist i) = blocklist_delete N i"
| "run_change N Create_Group = group_create N"
| "run_change N (Patch_Group n) = group_patch N n"
| "run_change N (Delete_Group n) = group_delete N n"
| "run_change N Reload_File = config_reload N"

definition run_changes :: "('s api_env \<times> change_op \<times> http_request) list \<Rightarrow> 's api \<Rightarrow> 's api" where
  "run_changes hist s = fold (\<lambda>(N, op, r) s. snd (run_change N op r (fresh_writer, s))) hist s"

definition api_inv :: "val_env \<Rightarrow> 's api \<Rightarrow> bool" where
  "api_inv E s \<longleftrightarrow> (\<forall>c. api_config s = Some c \<longrightarrow> config_valid E c) \<and> cache_ok (pp_cache (ap_pipe s))
     \<and> (\<forall>e. pp_policy (ap_pipe s) = Some e \<longrightarrow> engine_ok e)"

lemma steps_engine_ok:
  assumes "\<forall>e. pp_policy (ap_pipe s) = Some e \<longrightarrow> engine_ok e"
  shows "\<forall>e. pp_policy (ap_pipe (fst (fallible_steps N c s))) = Some e \<longrightarrow> engine_ok e"
  unfolding fallible_steps_def
proof (intro and_then_inv [where P = "\<lambda>s. \<forall>e. pp_policy (ap_pipe s) = Some e \<longrightarrow> engine_ok e"])
  fix s :: "'a api"
  assume ok: "\<forall>e. pp_policy (ap_pipe s) = Some e \<longrightarrow> engine_ok e"
  have "engine_ok e'" if "pp_policy (ap_pipe s) = Some e" "reload_config (an_go N) (Some c) e = (e', r)" for e e' r
    using reload_config_ok [of e "an_go N" "Some c"] ok that by simp
  then show "\<forall>e. pp_policy (ap_pipe (fst (reload_policy N c s))) = Some e \<longrightarrow> engine_ok e"
    by (auto simp: reload_policy_def split: option.splits prod.splits)
qed (use assms in simp_all)

lemma running_inv:
  assumes "running t = running s" "api_inv E s" "\<forall>e. pp_policy (ap_pipe t) = Some e \<longrightarrow> engine_ok e"
  shows "api_inv E t" and "cache_ok (pp_cache (ap_pipe t))"
proof -
  have "api_config t = api_config s" "pp_cache (ap_pipe t) = pp_cache (ap_pipe s)"
    using assms(1) unfolding running_def prod.inject by blast+
  with assms(2,3) show "api_inv E t" "cache_ok (pp_cache (ap_pipe t))" unfolding api_inv_def by simp_all
qed

lemma switch_inv:
  assumes "config_valid E c" "cache_ok (pp_cache (ap_pipe t))" "\<forall>e. pp_policy (ap_pipe t) = Some e \<longrightarrow> engine_ok e"
  shows "api_inv E (api_audit N action target before after (switch_config c t))"
proof -
  have "cache_ok (pp_cache (ap_pipe (switch_config c t)))"
    using cache_reconfigure_refines [of "pp_cache (ap_pipe t)" "api_cache_options c"] assms(2)
    by (auto simp: switch_config_pipe the_default_def cache_ok_def)
  with assms show ?thesis by (simp add: api_inv_def switch_config_pipe)
qed

lemma apply_config_inv:
  assumes "api_inv E s" "lp_val (an_load N) = E"
  shows "api_inv E (snd (fst (apply_config N (Some c) action target before after (w, s))))"
proof -
  have "\<forall>e. pp_policy (ap_pipe s) = Some e \<longrightarrow> engine_ok e" using assms(1) unfolding api_inv_def by blast
  note steps = steps_engine_ok [OF this]
  show ?thesis
  proof (cases rule: apply_config_cases [of N c action target before after w s])
    case (invalid msg code)
    show ?thesis unfolding invalid(1) using assms(1) by simp
  next
    case (failed c' t msg code)
    have "\<forall>e. pp_policy (ap_pipe t) = Some e \<longrightarrow> engine_ok e"
      using steps [of N c'] unfolding failed(5) fst_conv .
    from running_inv(1) [OF failed(3) assms(1) this] show ?thesis unfolding failed(1) by simp
  next
    case (applied c' t)
    have e: "\<forall>e. pp_policy (ap_pipe t) = Some e \<longrightarrow> engine_ok e"
      using steps [of N c'] unfolding applied(4) fst_conv .
    have "config_valid E c'" using applied(3) assms(2) by simp
    from switch_inv [OF this running_inv(2) [OF applied(2) assms(1) e] e] show ?thesis unfolding applied(1) by simp
  qed
qed

lemma change_config_inv:
  assumes "api_inv E s" "lp_val (an_load N) = E"
    and "\<And>cfg c target before after answer w s. f cfg = Inr (c, target, before, after, answer) \<Longrightarrow> api_inv E s
      \<Longrightarrow> api_inv E (snd (answer w s))"
  shows "api_inv E (snd (change_config N action f (w, s)))"
proof (cases "api_config s")
  case None
  with assms(1) show ?thesis by (simp add: change_config_def)
next
  case (Some cfg)
  show ?thesis
  proof (cases "f cfg")
    case (Inl a)
    with Some assms(1) show ?thesis by (simp add: change_config_def)
  next
    case (Inr v)
    obtain c target before after answer where v: "f cfg = Inr (c, target, before, after, answer)"
      using Inr by (cases v) auto
    show ?thesis
      using apply_config_inv [OF assms(1,2), of c action target before after w] assms(3) [OF v] Some v
      by (auto simp: change_config_def split: prod.splits option.splits)
  qed
qed

lemma answers_keep [simp]: "snd (answer_value N code v w s) = s" "snd (no_content w s) = s"
  by (simp_all add: answer_value_def no_content_def)

lemma run_change_inv:
  assumes "api_inv E s" "lp_val (an_load N) = E"
  shows "api_inv E (snd (run_change N op r (fresh_writer, s)))"
proof (cases op)
  case Patch_Settings
  show ?thesis unfolding Patch_Settings run_change.simps settings_patch_def
    by (rule change_config_inv [OF assms]) (auto simp: bad_request_def Let_def split: sum.splits)
next
  case Create_Upstream
  show ?thesis unfolding Create_Upstream run_change.simps upstream_create_def
    by (rule change_config_inv [OF assms]) (auto simp: bad_request_def Let_def split: sum.splits if_splits)
next
  case (Patch_Upstream i)
  show ?thesis unfolding Patch_Upstream run_change.simps upstream_patch_def
    by (rule change_config_inv [OF assms]) (auto simp: bad_request_def Let_def split: sum.splits if_splits option.splits)
next
  case (Delete_Upstream i)
  show ?thesis unfolding Delete_Upstream run_change.simps upstream_delete_def
    by (rule change_config_inv [OF assms]) (auto split: option.splits)
next
  case Create_Blocklist
  show ?thesis unfolding Create_Blocklist run_change.simps blocklist_create_def
    by (rule change_config_inv [OF assms]) (auto simp: bad_request_def Let_def split: sum.splits if_splits)
next
  case (Patch_Blocklist i)
  show ?thesis unfolding Patch_Blocklist run_change.simps blocklist_patch_def
    by (rule change_config_inv [OF assms]) (auto simp: bad_request_def Let_def split: sum.splits if_splits option.splits)
next
  case (Delete_Blocklist i)
  have "api_inv E (s\<lparr>ap_pipe := (ap_pipe s)\<lparr>pp_policy := map_option (replace_list i None) (pp_policy (ap_pipe s))\<rparr>\<rparr>)"
    if "api_inv E s" for s :: "'a api"
    using that by (auto simp: api_inv_def api_config_def intro: replace_list_ok)
  then show ?thesis unfolding Delete_Blocklist run_change.simps blocklist_delete_def
    by (intro change_config_inv [OF assms]) (auto split: option.splits)
next
  case Create_Group
  show ?thesis unfolding Create_Group run_change.simps group_create_def
    by (rule change_config_inv [OF assms]) (auto simp: bad_request_def Let_def split: sum.splits if_splits)
next
  case (Patch_Group n)
  show ?thesis unfolding Patch_Group run_change.simps group_patch_def
    by (rule change_config_inv [OF assms]) (auto simp: bad_request_def Let_def split: sum.splits if_splits option.splits)
next
  case (Delete_Group n)
  show ?thesis unfolding Delete_Group run_change.simps group_delete_def
    by (rule change_config_inv [OF assms]) (auto simp: bad_request_def split: option.splits if_splits)
next
  case Reload_File
  have "api_inv E (snd (fst (apply_config N (Some c) a t b f (w, s))))" for c a t b f w
    by (rule apply_config_inv [OF assms])
  then show ?thesis unfolding Reload_File run_change.simps
    using assms(1) by (auto simp: config_reload_def split: sum.splits prod.splits option.splits) (metis fst_conv snd_conv)+
qed

text \<open>However the settings, upstreams, blocklists and groups are changed through the API and the file
  reloaded, in any order and whatever fails on the way, the running configuration stays valid, so it
  always has its default group and no reference to a missing list or group, and the cache and the
  policy engine keep their invariants.\<close>
theorem config_history_valid:
  assumes "api_inv E s" "\<forall>(N, op, r) \<in> set hist. lp_val (an_load N) = E"
  shows "api_inv E (run_changes hist s)"
  using assms
proof (induction hist arbitrary: s)
  case (Cons h hist)
  obtain N op r where "h = (N, op, r)" by (cases h)
  with Cons run_change_inv [of E s N op r] show ?case by (simp add: run_changes_def)
qed (simp add: run_changes_def)

lemma config_history_valid_witness:
  "api_inv plain_env (run_changes [(home_env, Delete_Group ''kids'', api_request ''DELETE'' ''/api/v1/groups/kids'' []),
     (home_env, Create_Upstream, api_request ''POST'' ''/api/v1/upstreams'' [])] home_api)"
proof (rule config_history_valid)
  have "validate plain_env (Some guarded_home) = []" by code_simp
  then show "api_inv plain_env home_api"
    using bare_cache_ok by (simp add: api_inv_def api_config_def home_api_def validate_nil_iff bare_pipeline_def)
qed (simp add: home_env_def plain_load_def)

end
