(* ===== verification/Api_Lists.thy ===== *)
theory Api_Lists
  imports Api_Auth
begin

text \<open>
  \<open>internal/api/custom_blocklist.go\<close>, \<open>allowlist.go\<close> and \<open>domains.go\<close>: the runtime block and allow
  lists.  A change goes to the store and then to the policy engine the pipeline asks.
  The handlers of a single domain get the path value as an argument.
\<close>

section \<open>Helpers\<close>

definition normalize_domain_input :: "golib \<Rightarrow> string \<Rightarrow> string option" where
  "normalize_domain_input G domain = normalize_domain_pattern G domain"

definition set_policy :: "policy_engine \<Rightarrow> 's api \<Rightarrow> 's api" where
  "set_policy e s = s\<lparr>ap_pipe := (ap_pipe s)\<lparr>pp_policy := Some e\<rparr>\<rparr>"

definition on_policy :: "(policy_engine \<Rightarrow> policy_engine) \<Rightarrow> 's api \<Rightarrow> 's api" where
  "on_policy f s = (case pp_policy (ap_pipe s) of None \<Rightarrow> s | Some e \<Rightarrow> set_policy (f e) s)"

definition domain_json :: "string \<Rightarrow> json" where
  "domain_json domain = JObj [(''domain'', JStr domain)]"

definition domains_json :: "string list \<Rightarrow> json" where
  "domains_json domains = JObj [(''domains'', JArr (map JStr domains))]"

section \<open>The runtime blocklist\<close>

definition custom_blocklist_get :: "'s api_env \<Rightarrow> http_request \<Rightarrow> writer \<times> 's api \<Rightarrow> writer \<times> 's api" where
  "custom_blocklist_get N r ws =
     (case ws of (w, s) \<Rightarrow>
        if \<not> ap_has_store s then (http_error ''store unavailable'' 503 w, s)
        else (write_json (an_render N) (domains_json (custom_list (an_kv N) ''custom'' (api_store s))) w, s))"

definition custom_blocklist_add :: "'s api_env \<Rightarrow> http_request \<Rightarrow> writer \<times> 's api \<Rightarrow> writer \<times> 's api" where
  "custom_blocklist_add N r ws =
     (case ws of (w, s) \<Rightarrow>
        if \<not> ap_has_store s then (http_error ''store unavailable'' 503 w, s)
        else
          (case decode_json (an_parse N) (strings_of_json [''domain'']) r of
             Inl e \<Rightarrow> (http_error e 400 w, s)
           | Inr req \<Rightarrow>
               (case normalize_domain_input (an_go N) (req ''domain'') of
                  None \<Rightarrow> (http_error ''invalid domain'' 400 w, s)
                | Some domain \<Rightarrow>
                    (case custom_add (an_kv N) ''custom'' domain (api_store s) of
                       (st, Some e) \<Rightarrow> (internal_error ''custom blocklist update failed'' w, set_store st s)
                     | (st, None) \<Rightarrow>
                         let s = on_policy (\<lambda>e. fst (add_custom_block (an_go N) domain e)) (set_store st s);
                             s = api_audit N ''custom-blocklist.add'' domain No_Payload (Json_Payload (domain_json domain)) s
                         in (write_json_status (an_render N) 201 (domain_json domain) w, s)))))"

definition custom_blocklist_delete ::
  "'s api_env \<Rightarrow> string \<Rightarrow> http_request \<Rightarrow> writer \<times> 's api \<Rightarrow> writer \<times> 's api" where
  "custom_blocklist_delete N path_value r ws =
     (case ws of (w, s) \<Rightarrow>
        if \<not> ap_has_store s then (http_error ''store unavailable'' 503 w, s)
        else
          (case path_unescape path_value of
             None \<Rightarrow> (http_error ''invalid domain'' 400 w, s)
           | Some domain \<Rightarrow>
               if domain = [] then (http_error ''invalid domain'' 400 w, s)
               else
                 (case normalize_domain_input (an_go N) domain of
                    None \<Rightarrow> (http_error ''invalid domain'' 400 w, s)
                  | Some normalized \<Rightarrow>
                      (case custom_remove (an_kv N) ''custom'' normalized (api_store s) of
                         (st, Some e) \<Rightarrow>
                           (if e = Not_Found then not_found w else internal_error ''custom blocklist update failed'' w,
                            set_store st s)
                       | (st, None) \<Rightarrow>
                           let s = on_policy (remove_custom_block (an_go N) normalized) (set_store st s);
                               s = api_audit N ''custom-blocklist.delete'' normalized (Json_Payload (domain_json normalized))
                                     No_Payload s
                           in (write_header 204 w, s)))))"

section \<open>The runtime allowlist\<close>

definition allowlist_get :: "'s api_env \<Rightarrow> http_request \<Rightarrow> writer \<times> 's api \<Rightarrow> writer \<times> 's api" where
  "allowlist_get N r ws =
     (case ws of (w, s) \<Rightarrow>
        if \<not> ap_has_store s then (http_error ''store unavailable'' 503 w, s)
        else (write_json (an_render N) (domains_json (custom_list (an_kv N) ''custom-allow'' (api_store s))) w, s))"

definition allowlist_add :: "'s api_env \<Rightarrow> http_request \<Rightarrow> writer \<times> 's api \<Rightarrow> writer \<times> 's api" where
  "allowlist_add N r ws =
     (case ws of (w, s) \<Rightarrow>
        if \<not> ap_has_store s then (http_error ''store unavailable'' 503 w, s)
        else
          (case decode_json (an_parse N) (strings_of_json [''domain'']) r of
             Inl e \<Rightarrow> (http_error e 400 w, s)
           | Inr req \<Rightarrow>
               (case normalize_domain_input (an_go N) (req ''domain'') of
                  None \<Rightarrow> (http_error ''invalid domain'' 400 w, s)
                | Some domain \<Rightarrow>
                    (case custom_add (an_kv N) ''custom-allow'' domain (api_store s) of
                       (st, Some e) \<Rightarrow> (internal_error ''allowlist update failed'' w, set_store st s)
                     | (st, None) \<Rightarrow>
                         let s = on_policy (\<lambda>e. fst (add_custom_allow (an_go N) domain e)) (set_store st s);
                             s = api_audit N ''allowlist.add'' domain No_Payload (Json_Payload (domain_json domain)) s
                         in (write_json_status (an_render N) 201 (domain_json domain) w, s)))))"

definition allowlist_delete ::
  "'s api_env \<Rightarrow> string \<Rightarrow> http_request \<Rightarrow> writer \<times> 's api \<Rightarrow> writer \<times> 's api" where
  "allowlist_delete N path_value r ws =
     (case ws of (w, s) \<Rightarrow>
        if \<not> ap_has_store s then (http_error ''store unavailable'' 503 w, s)
        else
          (case path_unescape path_value of
             None \<Rightarrow> (http_error ''invalid domain'' 400 w, s)
           | Some domain \<Rightarrow>
               if domain = [] then (http_error ''invalid domain'' 400 w, s)
               else
                 (case normalize_domain_input (an_go N) domain of
                    None \<Rightarrow> (http_error ''invalid domain'' 400 w, s)
                  | Some normalized \<Rightarrow>
                      (case custom_remove (an_kv N) ''custom-allow'' normalized (api_store s) of
                         (st, Some e) \<Rightarrow>
                           (if e = Not_Found then not_found w else internal_error ''allowlist update failed'' w, set_store st s)
                       | (st, None) \<Rightarrow>
                           let s = on_policy (remove_custom_allow (an_go N) normalized) (set_store st s);
                               s = api_audit N ''allowlist.delete'' normalized (Json_Payload (domain_json normalized))
                                     No_Payload s
                           in (write_header 204 w, s)))))"

section \<open>Facts\<close>

lemma set_store_pipe [simp]:
  "pp_policy (ap_pipe (set_store st s)) = pp_policy (ap_pipe s)" "pp_cache (ap_pipe (set_store st s)) = pp_cache (ap_pipe s)"
  "ap_pipe (api_audit N a t b f s) = ap_pipe s"
  by (simp_all add: set_store_def api_audit_def split: option.split)

lemma on_policy_pipe [simp]:
  "pp_policy (ap_pipe (on_policy f s)) = map_option f (pp_policy (ap_pipe s))"
  "pp_cache (ap_pipe (on_policy f s)) = pp_cache (ap_pipe s)" "api_store (on_policy f s) = api_store s"
  by (simp_all add: on_policy_def set_policy_def api_store_def split: option.split)

text \<open>What a successful addition to the runtime blocklist did.\<close>

lemma custom_blocklist_added:
  assumes "custom_blocklist_add N r (fresh_writer, s) = (w', s')" "w_status w' = Some 201"
  obtains req d where "decode_json (an_parse N) (strings_of_json [''domain'']) r = Inr req"
    and "normalize_domain_pattern (an_go N) (req ''domain'') = Some d"
    and "custom_add (an_kv N) ''custom'' d (api_store s) = (api_store s', None)"
    and "pp_policy (ap_pipe s') = map_option (\<lambda>e. fst (add_custom_block (an_go N) d e)) (pp_policy (ap_pipe s))"
    and "pp_cache (ap_pipe s') = pp_cache (ap_pipe s)"
proof -
  have err: "w_status (http_error msg code fresh_writer) = Some code" for msg code
    by (simp add: http_error_status fresh_writer_def)
  obtain req where req: "ap_has_store s" "decode_json (an_parse N) (strings_of_json [''domain'']) r = Inr req"
    using assms err by (auto simp: custom_blocklist_add_def split: if_splits sum.splits)
  obtain d where d: "normalize_domain_pattern (an_go N) (req ''domain'') = Some d"
    using assms err req by (auto simp: custom_blocklist_add_def normalize_domain_input_def split: option.splits)
  obtain st e where add: "custom_add (an_kv N) ''custom'' d (api_store s) = (st, e)" by fastforce
  have "e = None"
    using assms err req d add by (cases e) (auto simp: custom_blocklist_add_def normalize_domain_input_def internal_error_def)
  have "s' = api_audit N ''custom-blocklist.add'' d No_Payload (Json_Payload (domain_json d))
      (on_policy (\<lambda>e. fst (add_custom_block (an_go N) d e)) (set_store st s))"
    using assms(1) req d add \<open>e = None\<close> by (simp add: custom_blocklist_add_def normalize_domain_input_def Let_def)
  then have "api_store s' = st" "pp_cache (ap_pipe s') = pp_cache (ap_pipe s)"
    "pp_policy (ap_pipe s') = map_option (\<lambda>e. fst (add_custom_block (an_go N) d e)) (pp_policy (ap_pipe s))"
    by (simp_all add: api_store_def [of "api_audit _ _ _ _ _ _"] api_store_def [symmetric])
  with that [OF req(2) d] add \<open>e = None\<close> show thesis by simp
qed

text \<open>Two spellings of one domain are two entries of the store and one of the engine: deleting the one
  unblocks the other, which stays in the list and is blocked again after a restart.\<close>

lemma wildcard_twin_unblocked:
  "normalize_domain_input ascii_lib ''ads.org'' = Some ''ads.org'' \<and> normalize_domain_input ascii_lib ''*.ads.org'' = Some ''*.ads.org''
   \<and> (let e = fst (add_custom_block ascii_lib ''*.ads.org'' (fst (add_custom_block ascii_lib ''ads.org'' sample_engine)));
          e' = remove_custom_block ascii_lib ''*.ads.org'' e in
      domains_match ascii_lib ''ads.org'' (pe_custom e) \<and> \<not> domains_match ascii_lib ''ads.org'' (pe_custom e'))"
  by code_simp

end
