(* ===== verification/Sqlite_Db.thy ===== *)
theory Sqlite_Db
  imports Kv_Store
begin

text \<open>
  The database of \<open>internal/store/sqlite.go\<close>: the tables its \<open>CREATE TABLE\<close> statements declare,
  the SQL statements the file contains with their meaning on those tables, and the three ways it
  runs them: \<open>db.Exec\<close>, \<open>db.Query\<close> and a transaction.

  The driver answers the n-th call through \<open>io n\<close>: answered, failed without effect, failed after
  the change had reached the database, or (a query) failed after some of its rows.  A table that was never created is \<open>None\<close>, and a
  statement on it is an error, as is one that names the column \<open>collection\<close> of a \<open>kv\<close> table
  without it.
\<close>

section \<open>Tables\<close>

record client_row =
  cr_key :: string
  cr_type :: string
  cr_name :: string
  cr_group :: string
  cr_first_seen :: string
  cr_last_seen :: string
  cr_last_ip :: string
  cr_hidden :: int

record session_row =
  sw_token :: string
  sw_username :: string
  sw_expires_at :: string

record sql_db =
  db_kv :: "(string, string \<times> json) alist option"
  db_collection :: bool
  db_clients :: "(string, client_row) alist option"
  db_sessions :: "(string, session_row) alist option"
  db_lists :: "(string \<times> string, unit) alist option"
  db_stats :: "(string \<times> string, json) alist option"
  db_history :: "(string, string) alist option"

definition empty_db :: sql_db where
  "empty_db = \<lparr>db_kv = None, db_collection = False, db_clients = None, db_sessions = None,
     db_lists = None, db_stats = None, db_history = None\<rparr>"

abbreviation rows_of :: "('k, 'v) alist option \<Rightarrow> ('k, 'v) alist" where
  "rows_of t \<equiv> (case t of None \<Rightarrow> [] | Some rows \<Rightarrow> rows)"

section \<open>Statements\<close>

datatype sql_stmt =
    Pragma string
  | Create_Index string
  | Create_Kv
  | Add_Collection
  | Create_Clients
  | Create_Sessions
  | Create_Lists
  | Create_Stats
  | Create_History
  | Vacuum
  | Put_Kv string string json
  | Set_Collection string string
  | Delete_Kv string
  | Put_Client client_row
  | Delete_Client string
  | Put_Session session_row
  | Delete_Session string
  | Put_List string string
  | Delete_List string string
  | Put_Stats string string json
  | Put_History string string

text \<open>\<open>CREATE TABLE IF NOT EXISTS\<close>, \<open>INSERT ... ON CONFLICT\<close> and \<open>DELETE ... WHERE\<close> the key.\<close>

abbreviation create_table :: "('k, 'v) alist option \<Rightarrow> ('k, 'v) alist option" where
  "create_table t \<equiv> Some (rows_of t)"

abbreviation row_count :: "('k, 'v) alist \<Rightarrow> 'k \<Rightarrow> nat" where
  "row_count rows k \<equiv> (if map_of rows k = None then 0 else 1)"

fun exec_stmt :: "sql_stmt \<Rightarrow> sql_db \<Rightarrow> (sql_db \<times> nat) option" where
  "exec_stmt (Pragma p) db = Some (db, 0)"
| "exec_stmt (Create_Index i) db = Some (db, 0)"
| "exec_stmt Vacuum db = Some (db, 0)"
| "exec_stmt Create_Kv db =
     (case db_kv db of
        None \<Rightarrow> Some (db\<lparr>db_kv := Some [], db_collection := True\<rparr>, 0)
      | Some rows \<Rightarrow> Some (db, 0))"
| "exec_stmt Add_Collection db =
     (case db_kv db of
        None \<Rightarrow> None
      | Some rows \<Rightarrow>
          if db_collection db then None
          else Some (db\<lparr>db_kv := Some (map (\<lambda>(k, c, v). (k, ''unknown'', v)) rows),
                       db_collection := True\<rparr>, 0))"
| "exec_stmt Create_Clients db = Some (db\<lparr>db_clients := create_table (db_clients db)\<rparr>, 0)"
| "exec_stmt Create_Sessions db = Some (db\<lparr>db_sessions := create_table (db_sessions db)\<rparr>, 0)"
| "exec_stmt Create_Lists db = Some (db\<lparr>db_lists := create_table (db_lists db)\<rparr>, 0)"
| "exec_stmt Create_Stats db = Some (db\<lparr>db_stats := create_table (db_stats db)\<rparr>, 0)"
| "exec_stmt Create_History db = Some (db\<lparr>db_history := create_table (db_history db)\<rparr>, 0)"
| "exec_stmt (Put_Kv key coll v) db =
     (case db_kv db of
        None \<Rightarrow> None
      | Some rows \<Rightarrow>
          if db_collection db then Some (db\<lparr>db_kv := Some (AList.update key (coll, v) rows)\<rparr>, 1) else None)"
| "exec_stmt (Set_Collection coll key) db =
     (case db_kv db of
        None \<Rightarrow> None
      | Some rows \<Rightarrow>
          if db_collection db
          then Some (db\<lparr>db_kv := Some (map (\<lambda>(k, c, v). (k, if k = key then coll else c, v)) rows)\<rparr>,
                     row_count rows key)
          else None)"
| "exec_stmt (Delete_Kv key) db =
     (case db_kv db of
        None \<Rightarrow> None
      | Some rows \<Rightarrow> Some (db\<lparr>db_kv := Some (AList.delete key rows)\<rparr>, row_count rows key))"
| "exec_stmt (Put_Client r) db =
     (case db_clients db of
        None \<Rightarrow> None
      | Some rows \<Rightarrow> Some (db\<lparr>db_clients := Some (AList.update (cr_key r) r rows)\<rparr>, 1))"
| "exec_stmt (Delete_Client key) db =
     (case db_clients db of
        None \<Rightarrow> None
      | Some rows \<Rightarrow> Some (db\<lparr>db_clients := Some (AList.delete key rows)\<rparr>, row_count rows key))"
| "exec_stmt (Put_Session r) db =
     (case db_sessions db of
        None \<Rightarrow> None
      | Some rows \<Rightarrow> Some (db\<lparr>db_sessions := Some (AList.update (sw_token r) r rows)\<rparr>, 1))"
| "exec_stmt (Delete_Session token) db =
     (case db_sessions db of
        None \<Rightarrow> None
      | Some rows \<Rightarrow> Some (db\<lparr>db_sessions := Some (AList.delete token rows)\<rparr>, row_count rows token))"
| "exec_stmt (Put_List l d) db =
     (case db_lists db of
        None \<Rightarrow> None
      | Some rows \<Rightarrow> Some (db\<lparr>db_lists := Some (AList.update (l, d) () rows)\<rparr>, 1 - row_count rows (l, d)))"
| "exec_stmt (Delete_List l d) db =
     (case db_lists db of
        None \<Rightarrow> None
      | Some rows \<Rightarrow> Some (db\<lparr>db_lists := Some (AList.delete (l, d) rows)\<rparr>, row_count rows (l, d)))"
| "exec_stmt (Put_Stats g b counters) db =
     (case db_stats db of
        None \<Rightarrow> None
      | Some rows \<Rightarrow> Some (db\<lparr>db_stats := Some (AList.update (g, b) counters rows)\<rparr>, 1))"
| "exec_stmt (Put_History ts yaml) db =
     (case db_history db of
        None \<Rightarrow> None
      | Some rows \<Rightarrow> Some (db\<lparr>db_history := Some (AList.update ts yaml rows)\<rparr>, 1))"

text \<open>Several statements, none of which fails.\<close>

fun exec_stmts :: "sql_stmt list \<Rightarrow> sql_db \<Rightarrow> (sql_db \<times> nat list) option" where
  "exec_stmts [] db = Some (db, [])"
| "exec_stmts (st # sts) db =
     (case exec_stmt st db of
        None \<Rightarrow> None
      | Some (db', n) \<Rightarrow>
          (case exec_stmts sts db' of None \<Rightarrow> None | Some (db'', ns) \<Rightarrow> Some (db'', n # ns)))"

section \<open>The store and its driver\<close>

datatype sql_answer = Answered | Failed string | Late string | Cut_Short nat string

type_synonym sql_io = "nat \<Rightarrow> sql_answer"

record sqlite_store =
  sq_db :: sql_db
  sq_closed :: bool
  sq_calls :: nat

definition tick :: "sqlite_store \<Rightarrow> sqlite_store" where
  "tick s = s\<lparr>sq_calls := Suc (sq_calls s)\<rparr>"

fun failure :: "sql_answer \<Rightarrow> string option" where
  "failure Answered = None"
| "failure (Failed e) = Some e"
| "failure (Late e) = Some e"
| "failure (Cut_Short n e) = Some e"

definition sql_error :: string where "sql_error = ''SQL logic error''"

definition sql_commit :: "sql_io \<Rightarrow> sql_db \<Rightarrow> sqlite_store \<Rightarrow> sqlite_store \<times> store_error option" where
  "sql_commit io db s =
     (case io (sq_calls s) of
        Answered \<Rightarrow> (tick s\<lparr>sq_db := db\<rparr>, None)
      | Failed e \<Rightarrow> (tick s, Some (Io_Error e))
      | Late e \<Rightarrow> (tick s\<lparr>sq_db := db\<rparr>, Some (Io_Error e))
      | Cut_Short n e \<Rightarrow> (tick s, Some (Io_Error e)))"

definition sql_exec :: "sql_io \<Rightarrow> sql_stmt \<Rightarrow> sqlite_store \<Rightarrow> sqlite_store \<times> store_error option" where
  "sql_exec io st s =
     (case exec_stmt st (sq_db s) of
        None \<Rightarrow> (tick s, Some (Io_Error sql_error))
      | Some (db, n) \<Rightarrow> sql_commit io db s)"

fun sql_execs :: "sql_io \<Rightarrow> sql_stmt list \<Rightarrow> sqlite_store \<Rightarrow> sqlite_store \<times> store_error option" where
  "sql_execs io [] s = (s, None)"
| "sql_execs io (st # sts) s =
     (case sql_exec io st s of
        (s, Some e) \<Rightarrow> (s, Some e)
      | (s, None) \<Rightarrow> sql_execs io sts s)"

text \<open>
  A query: \<open>None\<close> for a table or column that does not exist.  One answer stands for the query
  and the reading of its rows, each of which hands its error on in the same way.
\<close>

definition sql_query :: "sql_io \<Rightarrow> 'a option \<Rightarrow> sqlite_store \<Rightarrow> sqlite_store \<times> (store_error + 'a)" where
  "sql_query io q s =
     (tick s, case failure (io (sq_calls s)) of
        Some e \<Rightarrow> Inl (Io_Error e)
      | None \<Rightarrow> (case q of None \<Rightarrow> Inl (Io_Error sql_error) | Some x \<Rightarrow> Inr x))"

text \<open>
  A transaction: \<open>Begin\<close>, the statements, and on the first error \<open>Rollback\<close>, which leaves the
  tables as they were.
\<close>

fun tx_stmts :: "sql_io \<Rightarrow> sql_stmt list \<Rightarrow> nat \<Rightarrow> sql_db \<Rightarrow> nat \<times> (string + sql_db \<times> nat list)" where
  "tx_stmts io [] n db = (n, Inr (db, []))"
| "tx_stmts io (st # sts) n db =
     (case failure (io n) of
        Some e \<Rightarrow> (Suc n, Inl e)
      | None \<Rightarrow>
          (case exec_stmt st db of
             None \<Rightarrow> (Suc n, Inl sql_error)
           | Some (db', k) \<Rightarrow>
               (case tx_stmts io sts (Suc n) db' of
                  (m, Inl e) \<Rightarrow> (m, Inl e)
                | (m, Inr (db'', ks)) \<Rightarrow> (m, Inr (db'', k # ks)))))"

definition tx_run ::
  "sql_io \<Rightarrow> sql_stmt list \<Rightarrow> sqlite_store \<Rightarrow> sqlite_store \<times> (store_error + sql_db \<times> nat list)" where
  "tx_run io sts s =
     (case failure (io (sq_calls s)) of
        Some e \<Rightarrow> (tick s, Inl (Io_Error e))
      | None \<Rightarrow>
          (case tx_stmts io sts (Suc (sq_calls s)) (sq_db s) of
             (n, Inl e) \<Rightarrow> (s\<lparr>sq_calls := n\<rparr>, Inl (Io_Error e))
           | (n, Inr r) \<Rightarrow> (s\<lparr>sq_calls := n\<rparr>, Inr r)))"

definition sql_tx :: "sql_io \<Rightarrow> sql_stmt list \<Rightarrow> sqlite_store \<Rightarrow> sqlite_store \<times> store_error option" where
  "sql_tx io sts s =
     (case tx_run io sts s of
        (s, Inl e) \<Rightarrow> (s, Some e)
      | (s, Inr (db, ns)) \<Rightarrow> sql_commit io db s)"

text \<open>
  The transaction of a delete: the affected rows of every statement are read before the commit,
  and when all counts are zero it is rolled back.
\<close>

fun rows_affected :: "sql_io \<Rightarrow> nat \<Rightarrow> nat list \<Rightarrow> nat \<times> (string + nat)" where
  "rows_affected io n [] = (n, Inr 0)"
| "rows_affected io n (k # ks) =
     (case failure (io n) of
        Some e \<Rightarrow> (Suc n, Inl e)
      | None \<Rightarrow> (case rows_affected io (Suc n) ks of
                   (m, Inl e) \<Rightarrow> (m, Inl e) | (m, Inr hits) \<Rightarrow> (m, Inr (k + hits))))"

definition sql_delete_tx :: "sql_io \<Rightarrow> sql_stmt list \<Rightarrow> sqlite_store \<Rightarrow> sqlite_store \<times> store_error option" where
  "sql_delete_tx io sts s =
     (case tx_run io sts s of
        (s, Inl e) \<Rightarrow> (s, Some e)
      | (s, Inr (db, ks)) \<Rightarrow>
          (case rows_affected io (sq_calls s) ks of
             (n, Inl e) \<Rightarrow> (s\<lparr>sq_calls := n\<rparr>, Some (Io_Error e))
           | (n, Inr hits) \<Rightarrow>
               if hits = 0 then (s\<lparr>sq_calls := n\<rparr>, Some Not_Found)
               else sql_commit io db (s\<lparr>sq_calls := n\<rparr>)))"

section \<open>What the three ways to run statements do\<close>

lemma tick_simps [simp]: "sq_db (tick s) = sq_db s" "sq_closed (tick s) = sq_closed s"
  by (simp_all add: tick_def)

lemma sql_query_frame [simp]: "sq_db (fst (sql_query io q s)) = sq_db s" "sq_closed (fst (sql_query io q s)) = sq_closed s"
  by (simp_all add: sql_query_def)

lemma sql_query_answered [simp]:
  "sql_query (\<lambda>_. Answered) q s = (tick s, case q of None \<Rightarrow> Inl (Io_Error sql_error) | Some x \<Rightarrow> Inr x)"
  by (simp add: sql_query_def)

lemma sql_query_Inr: "sql_query io q s = (t, Inr x) \<Longrightarrow> t = tick s \<and> q = Some x"
  by (auto simp: sql_query_def split: option.splits)

text \<open>\<open>transaction sts db db'\<close>: the statements, run together, lead from \<open>db\<close> to \<open>db'\<close>.\<close>

definition transaction :: "sql_stmt list \<Rightarrow> sql_db \<Rightarrow> sql_db \<Rightarrow> bool" where
  "transaction sts db db' \<longleftrightarrow> (\<exists>ns. exec_stmts sts db = Some (db', ns))"

lemma sql_commit_outcome:
  "sql_commit io db s = (t, r) \<Longrightarrow>
     sq_closed t = sq_closed s \<and> (sq_db t = db \<or> sq_db t = sq_db s \<and> r \<noteq> None)
     \<and> r \<noteq> Some Not_Found \<and> r \<noteq> Some Store_Closed"
  by (auto simp: sql_commit_def split: sql_answer.splits)

lemma tx_stmts_Inr: "tx_stmts io sts n db = (m, Inr (db', ks)) \<Longrightarrow> exec_stmts sts db = Some (db', ks)"
  by (induction sts arbitrary: n db m db' ks) (auto split: option.splits sum.splits prod.splits)

lemma tx_run_Inr:
  "tx_run io sts s = (t, Inr (db, ks)) \<Longrightarrow>
     exec_stmts sts (sq_db s) = Some (db, ks) \<and> sq_db t = sq_db s \<and> sq_closed t = sq_closed s"
  by (auto simp: tx_run_def split: option.splits sum.splits prod.splits dest: tx_stmts_Inr)

lemma tx_run_Inl:
  "tx_run io sts s = (t, Inl e) \<Longrightarrow>
     sq_db t = sq_db s \<and> sq_closed t = sq_closed s \<and> (\<exists>m. e = Io_Error m)"
  by (auto simp: tx_run_def split: option.splits sum.splits prod.splits)

lemma rows_affected_Inr: "rows_affected io n ks = (m, Inr k) \<Longrightarrow> k = sum_list ks"
  by (induction ks arbitrary: n m k) (auto split: option.splits sum.splits prod.splits)

text \<open>A transaction is applied as a whole or not at all, and it is applied when no error is reported.\<close>

lemma sql_tx_outcome:
  assumes "sql_tx io sts s = (t, r)"
  shows "sq_closed t = sq_closed s \<and> (transaction sts (sq_db s) (sq_db t) \<or> sq_db t = sq_db s \<and> r \<noteq> None)
    \<and> r \<noteq> Some Not_Found \<and> r \<noteq> Some Store_Closed"
  using assms
  by (auto simp: sql_tx_def transaction_def split: prod.splits sum.splits dest!: tx_run_Inl tx_run_Inr sql_commit_outcome)

lemma sql_delete_tx_outcome:
  assumes "sql_delete_tx io sts s = (t, r)"
  shows "sq_closed t = sq_closed s \<and> r \<noteq> Some Store_Closed"
    and "sq_db t = sq_db s \<and> r \<noteq> None
      \<or> (\<exists>ks. exec_stmts sts (sq_db s) = Some (sq_db t, ks) \<and> sum_list ks \<noteq> 0)"
    and "r = Some Not_Found \<Longrightarrow>
      sq_db t = sq_db s \<and> (\<exists>db ks. exec_stmts sts (sq_db s) = Some (db, ks) \<and> sum_list ks = 0)"
proof -
  show "sq_closed t = sq_closed s \<and> r \<noteq> Some Store_Closed"
    "sq_db t = sq_db s \<and> r \<noteq> None \<or> (\<exists>ks. exec_stmts sts (sq_db s) = Some (sq_db t, ks) \<and> sum_list ks \<noteq> 0)"
    using assms
    by (auto simp: sql_delete_tx_def simp del: sum_list_eq_0_iff split: prod.splits sum.splits if_splits
        dest!: tx_run_Inl tx_run_Inr rows_affected_Inr sql_commit_outcome)
  show "sq_db t = sq_db s \<and> (\<exists>db ks. exec_stmts sts (sq_db s) = Some (db, ks) \<and> sum_list ks = 0)"
    if "r = Some Not_Found"
    using assms that
    by (auto simp: sql_delete_tx_def simp del: sum_list_eq_0_iff split: prod.splits sum.splits if_splits
        dest!: tx_run_Inl tx_run_Inr rows_affected_Inr sql_commit_outcome)
qed

text \<open>A driver that never fails.\<close>

lemma tx_stmts_answered:
  "exec_stmts sts db = Some (db', ks) \<Longrightarrow> tx_stmts (\<lambda>_. Answered) sts n db = (n + length sts, Inr (db', ks))"
  by (induction sts arbitrary: n db db' ks) (auto split: option.splits)

lemma rows_affected_answered: "rows_affected (\<lambda>_. Answered) n ks = (n + length ks, Inr (sum_list ks))"
  by (induction ks arbitrary: n) auto

lemma tx_run_answered:
  "exec_stmts sts (sq_db s) = Some (db, ks) \<Longrightarrow>
     tx_run (\<lambda>_. Answered) sts s = (s\<lparr>sq_calls := sq_calls s + Suc (length sts)\<rparr>, Inr (db, ks))"
  by (simp add: tx_run_def tx_stmts_answered)

lemma sql_tx_answered:
  "exec_stmts sts (sq_db s) = Some (db, ks) \<Longrightarrow>
     sql_tx (\<lambda>_. Answered) sts s = (s\<lparr>sq_db := db, sq_calls := sq_calls s + length sts + 2\<rparr>, None)"
  by (simp add: sql_tx_def tx_run_answered sql_commit_def tick_def)

lemma sql_delete_tx_answered:
  assumes "exec_stmts sts (sq_db s) = Some (db, ks)"
  shows "snd (sql_delete_tx (\<lambda>_. Answered) sts s) = (if sum_list ks = 0 then Some Not_Found else None)"
  using assms by (simp add: sql_delete_tx_def tx_run_answered rows_affected_answered sql_commit_def)

lemma sql_exec_outcome:
  assumes "sql_exec io st s = (t, r)"
  shows "sq_closed t = sq_closed s
    \<and> ((\<exists>n. exec_stmt st (sq_db s) = Some (sq_db t, n)) \<or> sq_db t = sq_db s \<and> r \<noteq> None)"
  using assms by (auto simp: sql_exec_def split: option.splits dest!: sql_commit_outcome)

lemma sql_exec_answered:
  "exec_stmt st (sq_db s) = Some (db, n) \<Longrightarrow> sql_exec (\<lambda>_. Answered) st s = (tick s\<lparr>sq_db := db\<rparr>, None)"
  by (simp add: sql_exec_def sql_commit_def)

end
