(* ===== verification/Sqlite_Store.thy ===== *)
theory Sqlite_Store
  imports Sqlite_Db
begin

text \<open>
  \<open>internal/store/sqlite.go\<close>: the store on a SQLite database.  Every record is kept twice, as a raw
  JSON row of the table \<open>kv\<close> and as a row of the typed table of its collection; the typed stores
  read the typed tables, the export reads \<open>kv\<close>.  \<open>OpenSQLite\<close> brings the tables of an older database
  up to date.
\<close>

section \<open>Keys and columns\<close>

definition collection_name :: "string \<Rightarrow> string" where
  "collection_name key =
     (let (c, rest, found) = cut (CHR '':'') key in if found \<and> c \<noteq> [] then c else ''unknown'')"

definition split_key :: "string \<Rightarrow> string \<Rightarrow> (string \<times> string) option" where
  "split_key p key =
     (if prefix p key
      then (case cut (CHR '':'') (drop (length p) key) of
              (a, b, found) \<Rightarrow> if \<not> found \<or> a = [] \<or> b = [] then None else Some (a, b))
      else None)"

definition split_custom_list_key :: "string \<Rightarrow> (string \<times> string) option" where
  "split_custom_list_key = split_key ''customlist:''"

definition split_stats_key :: "string \<Rightarrow> (string \<times> string) option" where
  "split_stats_key = split_key ''stats:''"

definition bad_time :: store_error where "bad_time = Io_Error ''parsing time''"

definition parse_config_history_key :: "golib \<Rightarrow> string \<Rightarrow> store_error + gotime option" where
  "parse_config_history_key G key =
     (if prefix ''confhist:'' key \<and> key \<noteq> ''confhist:''
      then (case g_parse_time G (drop (length ''confhist:'') key) of
              None \<Rightarrow> Inl bad_time | Some ts \<Rightarrow> Inr (Some ts))
      else Inr None)"

definition sqlite_time :: "golib \<Rightarrow> gotime \<Rightarrow> string" where
  "sqlite_time G t = (if time_is_zero t then [] else g_fmt_time G t)"

definition parse_sqlite_time :: "golib \<Rightarrow> string \<Rightarrow> store_error + gotime" where
  "parse_sqlite_time G raw =
     (if raw = [] then Inr 0
      else (case g_parse_time G raw of None \<Rightarrow> Inl bad_time | Some t \<Rightarrow> Inr t))"

definition bool_int :: "bool \<Rightarrow> int" where "bool_int b = (if b then 1 else 0)"

definition client_row_of :: "golib \<Rightarrow> client \<Rightarrow> client_row" where
  "client_row_of G c = \<lparr>cr_key = cl_key c, cr_type = cl_type c, cr_name = cl_name c, cr_group = cl_group c,
     cr_first_seen = sqlite_time G (cl_first_seen c), cr_last_seen = sqlite_time G (cl_last_seen c),
     cr_last_ip = cl_last_ip c, cr_hidden = bool_int (cl_hidden c)\<rparr>"

definition scan_client :: "golib \<Rightarrow> client_row \<Rightarrow> store_error + client" where
  "scan_client G r =
     (case parse_sqlite_time G (cr_first_seen r) of
        Inl e \<Rightarrow> Inl e
      | Inr first \<Rightarrow>
          (case parse_sqlite_time G (cr_last_seen r) of
             Inl e \<Rightarrow> Inl e
           | Inr seen \<Rightarrow>
               Inr \<lparr>cl_key = cr_key r, cl_type = cr_type r, cl_name = cr_name r, cl_group = cr_group r,
                    cl_first_seen = first, cl_last_seen = seen, cl_last_ip = cr_last_ip r,
                    cl_hidden = cr_hidden r \<noteq> 0\<rparr>))"

definition session_row_of :: "golib \<Rightarrow> session \<Rightarrow> session_row" where
  "session_row_of G v = \<lparr>sw_token = se_token v, sw_username = se_username v,
     sw_expires_at = sqlite_time G (se_expires_at v)\<rparr>"

definition scan_session :: "golib \<Rightarrow> session_row \<Rightarrow> store_error + session" where
  "scan_session G r =
     (case parse_sqlite_time G (sw_expires_at r) of
        Inl e \<Rightarrow> Inl e
      | Inr t \<Rightarrow> Inr \<lparr>se_token = sw_token r, se_username = sw_username r, se_expires_at = t\<rparr>)"

definition counters_to_json :: "(string, u64) alist \<Rightarrow> json" where
  "counters_to_json m = JObj (map (\<lambda>(k, v). (json_string k, JNum (uint v))) (sort_key fst m))"

definition scan_stats_row :: "string \<Rightarrow> json \<Rightarrow> store_error + stats_row" where
  "scan_stats_row bucket counters =
     (case json_to_counters counters of
        None \<Rightarrow> Inl Bad_Json
      | Some m \<Rightarrow> Inr \<lparr>sr_bucket = bucket, sr_counters = m\<rparr>)"

definition scan_config_snapshot :: "golib \<Rightarrow> string \<times> string \<Rightarrow> store_error + config_snapshot" where
  "scan_config_snapshot G row =
     (case parse_sqlite_time G (fst row) of
        Inl e \<Rightarrow> Inl e | Inr t \<Rightarrow> Inr \<lparr>sn_ts = t, sn_yaml = snd row\<rparr>)"

text \<open>\<open>key >= p AND key < p + "\xff"\<close> in the byte order of the column.\<close>

definition key_range :: "string \<Rightarrow> string \<Rightarrow> bool" where
  "key_range p k \<longleftrightarrow> p \<le> k \<and> k < p @ [CHR 0xFF]"

section \<open>Raw rows\<close>

definition sql_get_json :: "sql_io \<Rightarrow> string \<Rightarrow> sqlite_store \<Rightarrow> sqlite_store \<times> (store_error + json)" where
  "sql_get_json io key s =
     (if sq_closed s then (s, Inl Store_Closed)
      else (case sql_query io (map_option (\<lambda>rows. map_of rows key) (db_kv (sq_db s))) s of
              (s, Inl e) \<Rightarrow> (s, Inl e)
            | (s, Inr None) \<Rightarrow> (s, Inl Not_Found)
            | (s, Inr (Some (coll, raw))) \<Rightarrow> (s, Inr raw)))"

definition put_client_locked ::
  "sql_io \<Rightarrow> golib \<Rightarrow> string \<Rightarrow> client \<Rightarrow> json \<Rightarrow> sqlite_store \<Rightarrow> sqlite_store \<times> store_error option" where
  "put_client_locked io G key c raw s =
     sql_tx io [Put_Client (client_row_of G c), Put_Kv key (collection_name key) raw] s"

definition put_session_locked ::
  "sql_io \<Rightarrow> golib \<Rightarrow> string \<Rightarrow> session \<Rightarrow> json \<Rightarrow> sqlite_store \<Rightarrow> sqlite_store \<times> store_error option" where
  "put_session_locked io G key v raw s =
     sql_tx io [Put_Session (session_row_of G v), Put_Kv key (collection_name key) raw] s"

definition put_custom_list_locked ::
  "sql_io \<Rightarrow> string \<Rightarrow> string \<Rightarrow> string \<Rightarrow> json \<Rightarrow> sqlite_store \<Rightarrow> sqlite_store \<times> store_error option" where
  "put_custom_list_locked io key list_id domain raw s =
     sql_tx io [Put_List list_id domain, Put_Kv key (collection_name key) raw] s"

definition put_stats_locked ::
  "sql_io \<Rightarrow> string \<Rightarrow> string \<Rightarrow> string \<Rightarrow> stats_row \<Rightarrow> json \<Rightarrow> sqlite_store \<Rightarrow> sqlite_store \<times> store_error option"
where
  "put_stats_locked io key granularity bucket row raw s =
     sql_tx io [Put_Stats granularity bucket (counters_to_json (sr_counters row)),
       Put_Kv key (collection_name key) raw] s"

definition put_config_history_locked ::
  "sql_io \<Rightarrow> golib \<Rightarrow> string \<Rightarrow> config_snapshot \<Rightarrow> json \<Rightarrow> sqlite_store \<Rightarrow> sqlite_store \<times> store_error option"
where
  "put_config_history_locked io G key v raw s =
     sql_tx io [Put_History (sqlite_time G (sn_ts v)) (sn_yaml v), Put_Kv key (collection_name key) raw] s"

definition or_key :: "string \<Rightarrow> string \<Rightarrow> string \<Rightarrow> string" where
  "or_key field p key = (if field = [] then trim_prefix p key else field)"

definition snapshot_time :: "golib \<Rightarrow> string \<Rightarrow> config_snapshot \<Rightarrow> store_error + config_snapshot" where
  "snapshot_time G key v =
     (if time_is_zero (sn_ts v)
      then (case parse_config_history_key G key of
              Inl e \<Rightarrow> Inl e
            | Inr None \<Rightarrow> Inr v
            | Inr (Some ts) \<Rightarrow> Inr (v\<lparr>sn_ts := ts\<rparr>))
      else Inr v)"

definition put_raw_json ::
  "sql_io \<Rightarrow> golib \<Rightarrow> string \<Rightarrow> json \<Rightarrow> sqlite_store \<Rightarrow> sqlite_store \<times> store_error option" where
  "put_raw_json io G key raw s =
     (if sq_closed s then (s, Some Store_Closed)
      else if collection_name key = ''clients'' then
        (case client_of_json G raw of
           None \<Rightarrow> (s, Some Bad_Json)
         | Some c \<Rightarrow> put_client_locked io G key (c\<lparr>cl_key := or_key (cl_key c) ''clients:'' key\<rparr>) raw s)
      else if collection_name key = ''session'' then
        (case session_of_json G raw of
           None \<Rightarrow> (s, Some Bad_Json)
         | Some v \<Rightarrow> put_session_locked io G key (v\<lparr>se_token := or_key (se_token v) ''session:'' key\<rparr>) raw s)
      else if collection_name key = ''customlist'' then
        (case split_custom_list_key key of
           None \<Rightarrow> (s, Some (Io_Error ''customlist: invalid key''))
         | Some (list_id, domain) \<Rightarrow> put_custom_list_locked io key list_id domain raw s)
      else if collection_name key = ''stats'' then
        (case split_stats_key key of
           None \<Rightarrow> (s, Some (Io_Error ''stats: invalid key''))
         | Some (granularity, bucket) \<Rightarrow>
             (case stats_row_of_json raw of
                None \<Rightarrow> (s, Some Bad_Json)
              | Some row \<Rightarrow> put_stats_locked io key granularity bucket (row\<lparr>sr_bucket := bucket\<rparr>) raw s))
      else if collection_name key = ''confhist'' then
        (case snapshot_of_json G raw of
           None \<Rightarrow> (s, Some Bad_Json)
         | Some v \<Rightarrow>
             (case snapshot_time G key v of
                Inl e \<Rightarrow> (s, Some e)
              | Inr v \<Rightarrow> put_config_history_locked io G key v raw s))
      else sql_exec io (Put_Kv key (collection_name key) raw) s)"

definition sql_put_json ::
  "sql_io \<Rightarrow> golib \<Rightarrow> string \<Rightarrow> json \<Rightarrow> sqlite_store \<Rightarrow> sqlite_store \<times> store_error option" where
  "sql_put_json io G key value s = put_raw_json io G key value s"

text \<open>The last branch runs one statement outside a transaction; its count is read afterwards.\<close>

definition delete_kv :: "sql_io \<Rightarrow> string \<Rightarrow> sqlite_store \<Rightarrow> sqlite_store \<times> store_error option" where
  "delete_kv io key s =
     (let hits = row_count (rows_of (db_kv (sq_db s))) key in
      case sql_exec io (Delete_Kv key) s of
        (s, Some e) \<Rightarrow> (s, Some e)
      | (s, None) \<Rightarrow>
          (case rows_affected io (sq_calls s) [hits] of
             (n, Inl e) \<Rightarrow> (s\<lparr>sq_calls := n\<rparr>, Some (Io_Error e))
           | (n, Inr affected) \<Rightarrow> (s\<lparr>sq_calls := n\<rparr>, if affected = 0 then Some Not_Found else None)))"

definition sql_delete :: "sql_io \<Rightarrow> string \<Rightarrow> sqlite_store \<Rightarrow> sqlite_store \<times> store_error option" where
  "sql_delete io key s =
     (if sq_closed s then (s, Some Store_Closed)
      else if prefix ''clients:'' key then
        sql_delete_tx io [Delete_Client (trim_prefix ''clients:'' key), Delete_Kv key] s
      else if prefix ''session:'' key then
        sql_delete_tx io [Delete_Session (trim_prefix ''session:'' key), Delete_Kv key] s
      else if prefix ''customlist:'' key then
        (case split_custom_list_key key of
           None \<Rightarrow>
             (tick s, Some (Io_Error (case failure (io (sq_calls s)) of
                                        Some e \<Rightarrow> e | None \<Rightarrow> ''customlist: invalid key'')))
         | Some (list_id, domain) \<Rightarrow> sql_delete_tx io [Delete_List list_id domain, Delete_Kv key] s)
      else delete_kv io key s)"

text \<open>
  \<open>scan\<close> reports no error: a query that fails gives no rows, one that breaks off gives the rows
  read so far.
\<close>

definition sql_scan :: "sql_io \<Rightarrow> string \<Rightarrow> sqlite_store \<Rightarrow> sqlite_store \<times> (string, json) alist" where
  "sql_scan io p s =
     (if sq_closed s then (s, [])
      else
        let out = map (\<lambda>(k, c, v). (k, v)) (filter (\<lambda>(k, r). key_range p k) (rows_of (db_kv (sq_db s)))) in
        (tick s, case io (sq_calls s) of
           Answered \<Rightarrow> out | Cut_Short n e \<Rightarrow> take n out | Failed e \<Rightarrow> [] | Late e \<Rightarrow> []))"

definition sql_close :: "sql_io \<Rightarrow> sqlite_store \<Rightarrow> sqlite_store \<times> store_error option" where
  "sql_close io s =
     (if sq_closed s then (s, None)
      else (tick s\<lparr>sq_closed := True\<rparr>, map_option Io_Error (failure (io (sq_calls s)))))"

definition sql_compact :: "sql_io \<Rightarrow> sqlite_store \<Rightarrow> sqlite_store \<times> store_error option" where
  "sql_compact io s =
     (if sq_closed s then (s, Some Store_Closed)
      else sql_execs io [Pragma ''wal_checkpoint(TRUNCATE)'', Vacuum] s)"

section \<open>The typed stores\<close>

text \<open>The shape of every read: the lock, the closed flag, one query.\<close>

definition sql_read ::
  "sql_io \<Rightarrow> (sql_db \<Rightarrow> (store_error + 'a) option) \<Rightarrow> sqlite_store \<Rightarrow> sqlite_store \<times> (store_error + 'a)" where
  "sql_read io q s =
     (if sq_closed s then (s, Inl Store_Closed)
      else (case sql_query io (q (sq_db s)) s of
              (s, Inl e) \<Rightarrow> (s, Inl e)
            | (s, Inr r) \<Rightarrow> (s, r)))"

text \<open>\<open>QueryRow\<close> of one key, and a query whose rows are scanned one by one.\<close>

definition find_row :: "('r \<Rightarrow> store_error + 'a) \<Rightarrow> 'k \<Rightarrow> ('k, 'r) alist option \<Rightarrow> (store_error + 'a) option" where
  "find_row scan k t =
     map_option (\<lambda>rows. case map_of rows k of None \<Rightarrow> Inl Not_Found | Some r \<Rightarrow> scan r) t"

definition sql_client_get :: "sql_io \<Rightarrow> golib \<Rightarrow> string \<Rightarrow> sqlite_store \<Rightarrow> sqlite_store \<times> (store_error + client)" where
  "sql_client_get io G key s = sql_read io (\<lambda>db. find_row (scan_client G) key (db_clients db)) s"

definition sql_client_list :: "sql_io \<Rightarrow> golib \<Rightarrow> sqlite_store \<Rightarrow> sqlite_store \<times> (store_error + client list)" where
  "sql_client_list io G s =
     sql_read io (\<lambda>db. map_option (\<lambda>rows. map_result (scan_client G) (map snd (sort_key fst rows))) (db_clients db)) s"

definition sql_client_upsert ::
  "sql_io \<Rightarrow> golib \<Rightarrow> client option \<Rightarrow> sqlite_store \<Rightarrow> sqlite_store \<times> store_error option" where
  "sql_client_upsert io G c s =
     (case c of
        None \<Rightarrow> (s, Some (Missing_Field ''clients.key''))
      | Some c \<Rightarrow>
          if cl_key c = [] then (s, Some (Missing_Field ''clients.key''))
          else if sq_closed s then (s, Some Store_Closed)
          else put_client_locked io G (''clients:'' @ cl_key c) c (client_to_json G c) s)"

definition sql_client_delete :: "sql_io \<Rightarrow> string \<Rightarrow> sqlite_store \<Rightarrow> sqlite_store \<times> store_error option" where
  "sql_client_delete io key s = sql_delete io (''clients:'' @ key) s"

definition sql_session_get :: "sql_io \<Rightarrow> golib \<Rightarrow> string \<Rightarrow> sqlite_store \<Rightarrow> sqlite_store \<times> (store_error + session)" where
  "sql_session_get io G token s = sql_read io (\<lambda>db. find_row (scan_session G) token (db_sessions db)) s"

definition sql_session_upsert ::
  "sql_io \<Rightarrow> golib \<Rightarrow> session option \<Rightarrow> sqlite_store \<Rightarrow> sqlite_store \<times> store_error option" where
  "sql_session_upsert io G v s =
     (case v of
        None \<Rightarrow> (s, Some (Missing_Field ''session.token''))
      | Some v \<Rightarrow>
          if se_token v = [] then (s, Some (Missing_Field ''session.token''))
          else if sq_closed s then (s, Some Store_Closed)
          else put_session_locked io G (''session:'' @ se_token v) v (session_to_json G v) s)"

definition sql_session_delete :: "sql_io \<Rightarrow> string \<Rightarrow> sqlite_store \<Rightarrow> sqlite_store \<times> store_error option" where
  "sql_session_delete io token s = sql_delete io (''session:'' @ token) s"

definition expired_tokens :: "golib \<Rightarrow> gotime \<Rightarrow> (string, session_row) alist \<Rightarrow> store_error + string list" where
  "expired_tokens G now rows =
     (case map_result (\<lambda>(token, r). case parse_sqlite_time G (sw_expires_at r) of
                          Inl e \<Rightarrow> Inl e
                        | Inr t \<Rightarrow> Inr (token, \<not> time_is_zero t \<and> t < now))
                      (filter (\<lambda>(token, r). sw_expires_at r \<noteq> []) rows) of
        Inl e \<Rightarrow> Inl e
      | Inr found \<Rightarrow> Inr (map fst (filter snd found)))"

definition sql_delete_expired ::
  "sql_io \<Rightarrow> golib \<Rightarrow> gotime \<Rightarrow> sqlite_store \<Rightarrow> sqlite_store \<times> store_error option" where
  "sql_delete_expired io G now s =
     (case sql_read io (\<lambda>db. map_option (expired_tokens G now) (db_sessions db)) s of
        (s, Inl e) \<Rightarrow> (s, Some e)
      | (s, Inr tokens) \<Rightarrow>
          sql_tx io (concat (map (\<lambda>t. [Delete_Session t, Delete_Kv (''session:'' @ t)]) tokens)) s)"

definition sql_custom_add ::
  "sql_io \<Rightarrow> string \<Rightarrow> string \<Rightarrow> sqlite_store \<Rightarrow> sqlite_store \<times> store_error option" where
  "sql_custom_add io list_id domain s =
     (if list_id = [] \<or> domain = [] then (s, Some (Missing_Field ''customlist''))
      else if sq_closed s then (s, Some Store_Closed)
      else put_custom_list_locked io (''customlist:'' @ list_id @ '':'' @ domain) list_id domain (JBool True) s)"

definition sql_custom_remove ::
  "sql_io \<Rightarrow> string \<Rightarrow> string \<Rightarrow> sqlite_store \<Rightarrow> sqlite_store \<times> store_error option" where
  "sql_custom_remove io list_id domain s = sql_delete io (''customlist:'' @ list_id @ '':'' @ domain) s"

definition sql_custom_list :: "sql_io \<Rightarrow> string \<Rightarrow> sqlite_store \<Rightarrow> sqlite_store \<times> (store_error + string list)" where
  "sql_custom_list io list_id s =
     sql_read io (\<lambda>db. map_option (\<lambda>rows. Inr (sort (map (snd \<circ> fst) (filter (\<lambda>r. fst (fst r) = list_id) rows))))
                    (db_lists db)) s"

definition sql_stats_put ::
  "sql_io \<Rightarrow> string \<Rightarrow> string \<Rightarrow> stats_row option \<Rightarrow> sqlite_store \<Rightarrow> sqlite_store \<times> store_error option" where
  "sql_stats_put io granularity bucket row s =
     (case row of
        None \<Rightarrow> (s, Some (Missing_Field ''stats''))
      | Some r \<Rightarrow>
          if granularity = [] \<or> bucket = [] then (s, Some (Missing_Field ''stats''))
          else if sq_closed s then (s, Some Store_Closed)
          else let stored = r\<lparr>sr_bucket := bucket\<rparr> in
            put_stats_locked io (''stats:'' @ granularity @ '':'' @ bucket) granularity bucket stored
              (stats_row_to_json stored) s)"

definition sql_stats_get ::
  "sql_io \<Rightarrow> string \<Rightarrow> string \<Rightarrow> sqlite_store \<Rightarrow> sqlite_store \<times> (store_error + stats_row)" where
  "sql_stats_get io granularity bucket s =
     sql_read io (\<lambda>db. find_row (scan_stats_row bucket) (granularity, bucket) (db_stats db)) s"

definition sort_stats_rows :: "stats_row list \<Rightarrow> stats_row list" where
  "sort_stats_rows rows = fold insert_row rows []"

definition sql_stats_list ::
  "sql_io \<Rightarrow> string \<Rightarrow> sqlite_store \<Rightarrow> sqlite_store \<times> (store_error + stats_row list)" where
  "sql_stats_list io granularity s =
     sql_read io (\<lambda>db. map_option (\<lambda>rows.
         case map_result (\<lambda>((g, b), counters). scan_stats_row b counters)
                (filter (\<lambda>r. fst (fst r) = granularity) rows) of
           Inl e \<Rightarrow> Inl e | Inr rs \<Rightarrow> Inr (sort_stats_rows rs)) (db_stats db)) s"

definition sql_history_append ::
  "sql_io \<Rightarrow> golib \<Rightarrow> gotime \<Rightarrow> config_snapshot option \<Rightarrow> sqlite_store \<Rightarrow> sqlite_store \<times> store_error option" where
  "sql_history_append io G now snapshot s =
     (case snapshot of
        None \<Rightarrow> (s, Some (Missing_Field ''confhist''))
      | Some v \<Rightarrow>
          let stored = (if time_is_zero (sn_ts v) then v\<lparr>sn_ts := now\<rparr> else v) in
          if sq_closed s then (s, Some Store_Closed)
          else put_config_history_locked io G (''confhist:'' @ g_fmt_time G (sn_ts stored)) stored
                 (snapshot_to_json G stored) s)"

text \<open>\<open>ORDER BY ts DESC\<close> orders the column's text.\<close>

definition sql_history_list ::
  "sql_io \<Rightarrow> golib \<Rightarrow> int \<Rightarrow> sqlite_store \<Rightarrow> sqlite_store \<times> (store_error + config_snapshot list)" where
  "sql_history_list io G limit s =
     sql_read io (\<lambda>db. map_option (\<lambda>rows.
         let sorted_rows = rev (sort_key fst rows) in
         map_result (scan_config_snapshot G) (if 0 < limit then take (nat limit) sorted_rows else sorted_rows))
       (db_history db)) s"

section \<open>Opening a database\<close>

definition ensure_collection_column :: "sql_io \<Rightarrow> sqlite_store \<Rightarrow> sqlite_store \<times> store_error option" where
  "ensure_collection_column io s =
     (if sq_closed s then (s, Some Store_Closed)
      else
        (case sql_query io (map_option (\<lambda>_. db_collection (sq_db s)) (db_kv (sq_db s))) s of
           (s, Inl e) \<Rightarrow> (s, Some e)
         | (s, Inr has) \<Rightarrow>
             (case sql_execs io (if has then [] else [Add_Collection]) s of
                (s, Some e) \<Rightarrow> (s, Some e)
              | (s, None) \<Rightarrow>
                  (case sql_query io (map_option (filter (\<lambda>(k, c, v). c = ''unknown'' \<or> c = [])) (db_kv (sq_db s))) s of
                     (s, Inl e) \<Rightarrow> (s, Some e)
                   | (s, Inr rows) \<Rightarrow>
                       sql_tx io (map (\<lambda>(k, r). Set_Collection (collection_name k) k) rows
                         @ [Create_Index ''idx_kv_collection'']) s))))"

text \<open>
  The shape of the five \<open>ensure...Table\<close> functions: the table is created, the rows of its collection
  are read from \<open>kv\<close> and written to it in one transaction.
\<close>

definition ensure_table ::
  "sql_io \<Rightarrow> sql_stmt list \<Rightarrow> string \<Rightarrow> (string \<Rightarrow> json \<Rightarrow> store_error + sql_stmt list) \<Rightarrow> sqlite_store
     \<Rightarrow> sqlite_store \<times> store_error option" where
  "ensure_table io create coll pending s =
     (if sq_closed s then (s, Some Store_Closed)
      else
        (case sql_execs io create s of
           (s, Some e) \<Rightarrow> (s, Some e)
         | (s, None) \<Rightarrow>
             (case sql_read io (\<lambda>db. if \<not> db_collection db then None
                  else map_option (\<lambda>rows. map_result (\<lambda>(k, c, v). pending k v)
                    (filter (\<lambda>(k, c, v). c = coll \<or> key_range (coll @ '':'') k) rows)) (db_kv db)) s of
                (s, Inl e) \<Rightarrow> (s, Some e)
              | (s, Inr stmts) \<Rightarrow> sql_tx io (concat stmts) s)))"

definition pending_client :: "golib \<Rightarrow> string \<Rightarrow> json \<Rightarrow> store_error + sql_stmt list" where
  "pending_client G key raw =
     (case client_of_json G raw of
        None \<Rightarrow> Inl Bad_Json
      | Some c \<Rightarrow> Inr [Put_Client (client_row_of G (c\<lparr>cl_key := or_key (cl_key c) ''clients:'' key\<rparr>))])"

definition ensure_client_table :: "sql_io \<Rightarrow> golib \<Rightarrow> sqlite_store \<Rightarrow> sqlite_store \<times> store_error option" where
  "ensure_client_table io G s =
     ensure_table io [Create_Clients, Create_Index ''idx_clients_group'', Create_Index ''idx_clients_last_seen'']
       ''clients'' (pending_client G) s"

definition pending_session :: "golib \<Rightarrow> string \<Rightarrow> json \<Rightarrow> store_error + sql_stmt list" where
  "pending_session G key raw =
     (case session_of_json G raw of
        None \<Rightarrow> Inl Bad_Json
      | Some v \<Rightarrow> Inr [Put_Session (session_row_of G (v\<lparr>se_token := or_key (se_token v) ''session:'' key\<rparr>))])"

definition ensure_session_table :: "sql_io \<Rightarrow> golib \<Rightarrow> sqlite_store \<Rightarrow> sqlite_store \<times> store_error option" where
  "ensure_session_table io G s =
     ensure_table io [Create_Sessions, Create_Index ''idx_sessions_expires_at'', Create_Index ''idx_sessions_username'']
       ''session'' (pending_session G) s"

definition pending_entry :: "string \<Rightarrow> json \<Rightarrow> store_error + sql_stmt list" where
  "pending_entry key raw =
     (case split_custom_list_key key of
        None \<Rightarrow> Inr [] | Some (list_id, domain) \<Rightarrow> Inr [Put_List list_id domain])"

definition ensure_custom_list_table :: "sql_io \<Rightarrow> sqlite_store \<Rightarrow> sqlite_store \<times> store_error option" where
  "ensure_custom_list_table io s =
     ensure_table io [Create_Lists, Create_Index ''idx_custom_lists_domain''] ''customlist'' pending_entry s"

definition pending_stats_row :: "string \<Rightarrow> json \<Rightarrow> store_error + sql_stmt list" where
  "pending_stats_row key raw =
     (case split_stats_key key of
        None \<Rightarrow> Inr []
      | Some (granularity, bucket) \<Rightarrow>
          (case stats_row_of_json raw of
             None \<Rightarrow> Inl Bad_Json
           | Some row \<Rightarrow> Inr [Put_Stats granularity bucket (counters_to_json (sr_counters row))]))"

definition ensure_stats_table :: "sql_io \<Rightarrow> sqlite_store \<Rightarrow> sqlite_store \<times> store_error option" where
  "ensure_stats_table io s =
     ensure_table io [Create_Stats, Create_Index ''idx_stats_granularity''] ''stats'' pending_stats_row s"

definition pending_snapshot :: "golib \<Rightarrow> string \<Rightarrow> json \<Rightarrow> store_error + sql_stmt list" where
  "pending_snapshot G key raw =
     (case snapshot_of_json G raw of
        None \<Rightarrow> Inl Bad_Json
      | Some v \<Rightarrow>
          (case snapshot_time G key v of
             Inl e \<Rightarrow> Inl e
           | Inr v \<Rightarrow> Inr [Put_History (sqlite_time G (sn_ts v)) (sn_yaml v)]))"

definition ensure_config_history_table :: "sql_io \<Rightarrow> golib \<Rightarrow> sqlite_store \<Rightarrow> sqlite_store \<times> store_error option" where
  "ensure_config_history_table io G s =
     ensure_table io [Create_History, Create_Index ''idx_config_history_ts''] ''confhist'' (pending_snapshot G) s"

text \<open>Steps that stop at the first error.\<close>

fun steps ::
  "('s \<Rightarrow> 's \<times> store_error option) list \<Rightarrow> 's \<Rightarrow> 's \<times> store_error option" where
  "steps [] s = (s, None)"
| "steps (f # fs) s = (case f s of (s, Some e) \<Rightarrow> (s, Some e) | (s, None) \<Rightarrow> steps fs s)"

definition ensure_sqlite_schema :: "sql_io \<Rightarrow> golib \<Rightarrow> sqlite_store \<Rightarrow> sqlite_store \<times> store_error option" where
  "ensure_sqlite_schema io G =
     steps [ensure_collection_column io, ensure_client_table io G, ensure_session_table io G,
       ensure_custom_list_table io, ensure_stats_table io, ensure_config_history_table io G]"

text \<open>\<open>migrations\<close>: the first changes nothing, the second adds the column, the others the tables.\<close>

definition apply_migration :: "sql_io \<Rightarrow> golib \<Rightarrow> int \<Rightarrow> sqlite_store \<Rightarrow> sqlite_store \<times> store_error option" where
  "apply_migration io G version s =
     (if version = 1 then (s, None)
      else if version = 2 then ensure_collection_column io s
      else ensure_sqlite_schema io G s)"

fun sql_migrations ::
  "sql_io \<Rightarrow> golib \<Rightarrow> int \<Rightarrow> int list \<Rightarrow> sqlite_store \<Rightarrow> sqlite_store \<times> store_error option" where
  "sql_migrations io G current [] s = (s, None)"
| "sql_migrations io G current (v # vs) s =
     (if v \<le> current then sql_migrations io G current vs s
      else (case apply_migration io G v s of
              (s, Some e) \<Rightarrow> (s, Some e)
            | (s, None) \<Rightarrow>
                (case sql_put_json io G ''store_meta:schema_version'' (JNum v) s of
                   (s, Some e) \<Rightarrow> (s, Some e)
                 | (s, None) \<Rightarrow> sql_migrations io G current vs s)))"

definition sql_run_migrations :: "sql_io \<Rightarrow> golib \<Rightarrow> sqlite_store \<Rightarrow> sqlite_store \<times> store_error option" where
  "sql_run_migrations io G s =
     (case sql_get_json io ''store_meta:schema_version'' s of
        (s, r) \<Rightarrow>
          let current = (case r of Inl e \<Rightarrow> 0
                         | Inr raw \<Rightarrow> (case json_to_int raw of None \<Rightarrow> 0 | Some n \<Rightarrow> n)) in
          if schema_version \<le> current then ensure_sqlite_schema io G s
          else sql_migrations io G current [1, 2, 3, 4, 5, 6, 7] s)"

definition sql_init :: "sql_io \<Rightarrow> sqlite_store \<Rightarrow> sqlite_store \<times> store_error option" where
  "sql_init io s =
     sql_execs io [Pragma ''busy_timeout = 5000'', Pragma ''journal_mode = WAL'',
       Pragma ''synchronous = NORMAL'', Create_Kv] s"

text \<open>
  \<open>OpenSQLite\<close>: \<open>prepare\<close> is the error of creating the directory or of \<open>sql.Open\<close>, \<open>file\<close> the database
  in the file.  The state is returned also on error: what was committed stays in the file.
\<close>

definition open_sqlite ::
  "sql_io \<Rightarrow> golib \<Rightarrow> string option \<Rightarrow> sql_db option \<Rightarrow> sqlite_store \<times> store_error option" where
  "open_sqlite io G prepare file =
     (let s = \<lparr>sq_db = (case file of None \<Rightarrow> empty_db | Some db \<Rightarrow> db), sq_closed = False, sq_calls = 0\<rparr> in
      case prepare of
        Some e \<Rightarrow> (s, Some (Io_Error e))
      | None \<Rightarrow> steps [sql_init io, sql_run_migrations io G] s)"

end
