(* ===== verification/Sqlite_Mirror.thy ===== *)
theory Sqlite_Mirror
  imports Sqlite_Store
begin

text \<open>
  The invariant of the SQLite store: every typed table mirrors the rows of its collection in \<open>kv\<close>.
  The locale \<open>mirrored\<close> states what one table needs for that, a key per row under the prefix of the
  collection and a function from the raw JSON to the row; it is interpreted on the five tables.
\<close>

section \<open>One table and its collection\<close>

definition mirrors ::
  "string \<Rightarrow> ('k \<Rightarrow> string) \<Rightarrow> ('k \<Rightarrow> bool) \<Rightarrow> ('k \<Rightarrow> json \<Rightarrow> 'r option)
     \<Rightarrow> (string, string \<times> json) alist \<Rightarrow> ('k, 'r) alist \<Rightarrow> bool" where
  "mirrors p kk good row kv T \<longleftrightarrow>
     alist_ok T
     \<and> (\<forall>k. map_of T k =
          (if good k then (case map_of kv (kk k) of None \<Rightarrow> None | Some (c, raw) \<Rightarrow> row k raw) else None))
     \<and> (\<forall>key c raw. map_of kv key = Some (c, raw) \<longrightarrow> prefix p key \<longrightarrow>
          (\<exists>k. good k \<and> key = kk k \<and> row k raw \<noteq> None))"

locale mirrored =
  fixes p :: string and kk :: "'k \<Rightarrow> string" and good :: "'k \<Rightarrow> bool" and row :: "'k \<Rightarrow> json \<Rightarrow> 'r option"
  assumes kk_prefix: "good k \<Longrightarrow> prefix p (kk k)"
    and kk_inj: "good k \<Longrightarrow> good k' \<Longrightarrow> kk k = kk k' \<Longrightarrow> k = k'"
begin

abbreviation in_step :: "(string, string \<times> json) alist \<Rightarrow> ('k, 'r) alist \<Rightarrow> bool" where
  "in_step \<equiv> mirrors p kk good row"

lemma kk_eq: "good k \<Longrightarrow> good k' \<Longrightarrow> kk k = kk k' \<longleftrightarrow> k = k'"
  using kk_inj by blast

lemma put_row:
  assumes "in_step kv T" "good k" "row k raw = Some r"
  shows "in_step (AList.update (kk k) (c, raw) kv) (AList.update k r T)"
  using assms by (auto simp: mirrors_def kk_eq)

lemma delete_row:
  assumes "in_step kv T" "good k"
  shows "in_step (AList.delete (kk k) kv) (AList.delete k T)"
  using assms by (auto simp: mirrors_def kk_eq)

lemma put_elsewhere: "in_step kv T \<Longrightarrow> \<not> prefix p key \<Longrightarrow> in_step (AList.update key v kv) T"
  using kk_prefix by (auto simp: mirrors_def)

lemma delete_elsewhere: "in_step kv T \<Longrightarrow> \<not> prefix p key \<Longrightarrow> in_step (AList.delete key kv) T"
  using kk_prefix by (auto simp: mirrors_def)

lemma relabel: "in_step (map (\<lambda>(k, c, v). (k, f k c, v)) kv) T \<longleftrightarrow> in_step kv T"
proof -
  have "map_of (map (\<lambda>(k, c, v). (k, f k c, v)) kv) k = map_option (\<lambda>(c, v). (f k c, v)) (map_of kv k)" for k
    by (induction kv) auto
  then show ?thesis by (auto simp: mirrors_def split: option.splits)
qed

lemma find:
  assumes "in_step kv T" "good k"
  shows "map_of T k = (case map_of kv (kk k) of None \<Rightarrow> None | Some (c, raw) \<Rightarrow> row k raw)"
  using assms by (auto simp: mirrors_def)

lemma missing:
  assumes "in_step kv T" "good k"
  shows "map_of T k = None \<longleftrightarrow> map_of kv (kk k) = None"
proof -
  have "row k raw \<noteq> None" if "map_of kv (kk k) = Some (c, raw)" for c raw
    using assms that kk_prefix [of k] unfolding mirrors_def by (metis kk_inj)
  then show ?thesis using find [OF assms] by (auto split: option.splits)
qed

lemma rows:
  assumes "in_step kv T"
  shows "(k, r) \<in> set T \<longleftrightarrow> good k \<and> (\<exists>c raw. map_of kv (kk k) = Some (c, raw) \<and> row k raw = Some r)"
  using assms map_of_ok_iff [of T k r] by (auto simp: mirrors_def split: if_split_asm option.split_asm)

lemma row_of_raw:
  assumes "in_step kv T" "map_of kv key = Some (c, raw)" "prefix p key"
  obtains k r where "good k" "key = kk k" "row k raw = Some r" "(k, r) \<in> set T"
  using assms rows [OF assms(1)] unfolding mirrors_def by blast

text \<open>What a scan of \<open>kv\<close> finds: one row for each row of the table that the prefix selects.\<close>

lemma scan_keys:
  assumes step: "in_step kv T"
    and J: "alist_ok J" "\<And>key raw. (key, raw) \<in> set J \<longleftrightarrow> prefix p' key \<and> (\<exists>c. map_of kv key = Some (c, raw))"
    and p': "prefix p p'" "\<And>k. good k \<Longrightarrow> prefix p' (kk k) \<longleftrightarrow> Q k"
  obtains ks where "J = map (\<lambda>k. (kk k, snd (the (map_of kv (kk k))))) ks" "distinct ks"
    "set ks = {k \<in> keys T. Q k}" "\<forall>k \<in> set ks. good k"
proof -
  let ?f = "inv_into {k. good k} kk"
  let ?ks = "map (?f \<circ> fst) J"
  have inj: "inj_on kk {k. good k}" using kk_inj by (auto intro: inj_onI)
  have key: "\<exists>k. good k \<and> key = kk k" if "(key, raw) \<in> set J" for key raw
  proof -
    from that J(2) obtain c where "map_of kv key = Some (c, raw)" "prefix p' key" by blast
    with p'(1) show ?thesis using step unfolding mirrors_def by (meson prefix_order.trans)
  qed
  have f: "good (?f key) \<and> kk (?f key) = key" if "(key, raw) \<in> set J" for key raw
    using key [OF that] inv_into_f_f [OF inj] by auto
  have "map ((\<lambda>k. (kk k, snd (the (map_of kv (kk k))))) \<circ> (?f \<circ> fst)) J = J"
  proof (rule map_idI)
    fix x assume x: "x \<in> set J"
    obtain key raw where key_raw: "x = (key, raw)" by (cases x)
    with J(2) [of key raw] x obtain c where "map_of kv key = Some (c, raw)" by blast
    then show "((\<lambda>k. (kk k, snd (the (map_of kv (kk k))))) \<circ> (?f \<circ> fst)) x = x"
      using f [of key raw] x by (simp add: key_raw)
  qed
  then have 1: "J = map (\<lambda>k. (kk k, snd (the (map_of kv (kk k))))) ?ks" by simp
  have "map kk ?ks = map fst J" using f by (auto simp: comp_def)
  then have 2: "distinct ?ks" using J(1) by (metis distinct_map)
  have 3: "\<forall>k \<in> set ?ks. good k" using f by auto
  have "k \<in> set ?ks \<longleftrightarrow> k \<in> keys T \<and> Q k" for k
  proof -
    have "k \<in> set ?ks \<longleftrightarrow> good k \<and> (\<exists>raw. (kk k, raw) \<in> set J)"
      using f inv_into_f_f [OF inj] by (force simp: image_iff)
    also have "\<dots> \<longleftrightarrow> good k \<and> Q k \<and> map_of kv (kk k) \<noteq> None"
      using J(2) p'(2) by auto
    also have "\<dots> \<longleftrightarrow> good k \<and> Q k \<and> k \<in> keys T"
      unfolding keys_iff_map_of using missing [OF step, of k] by metis
    also have "\<dots> \<longleftrightarrow> k \<in> keys T \<and> Q k"
      using rows [OF step] by auto
    finally show ?thesis .
  qed
  with 1 2 3 show thesis using that [of ?ks] by blast
qed

lemma table_ok: "in_step kv T \<Longrightarrow> alist_ok T"
  by (simp add: mirrors_def)

end

section \<open>The five tables\<close>

definition client_cell :: "golib \<Rightarrow> string \<Rightarrow> json \<Rightarrow> client_row option" where
  "client_cell G k raw =
     (case client_of_json G raw of
        None \<Rightarrow> None
      | Some c \<Rightarrow> if cl_key c = k \<and> scan_client G (client_row_of G c) = Inr c then Some (client_row_of G c) else None)"

definition session_cell :: "golib \<Rightarrow> string \<Rightarrow> json \<Rightarrow> session_row option" where
  "session_cell G k raw =
     (case session_of_json G raw of
        None \<Rightarrow> None
      | Some v \<Rightarrow> if se_token v = k \<and> scan_session G (session_row_of G v) = Inr v
                   then Some (session_row_of G v) else None)"

definition stats_cell :: "string \<times> string \<Rightarrow> json \<Rightarrow> json option" where
  "stats_cell k raw =
     (case stats_row_of_json raw of
        None \<Rightarrow> None
      | Some r \<Rightarrow>
          if sr_bucket r = snd k \<and> scan_stats_row (snd k) (counters_to_json (sr_counters r)) = Inr r
          then Some (counters_to_json (sr_counters r)) else None)"

definition history_cell :: "golib \<Rightarrow> string \<Rightarrow> json \<Rightarrow> string option" where
  "history_cell G k raw =
     (case snapshot_of_json G raw of
        None \<Rightarrow> None
      | Some v \<Rightarrow> if sqlite_time G (sn_ts v) = k \<and> scan_config_snapshot G (k, sn_yaml v) = Inr v
                   then Some (sn_yaml v) else None)"

definition flat_key :: "string \<Rightarrow> string \<Rightarrow> string" where
  "flat_key p k = p @ k"

definition pair_key :: "string \<Rightarrow> string \<times> string \<Rightarrow> string" where
  "pair_key p k = p @ fst k @ '':'' @ snd k"

definition pair_good :: "string \<times> string \<Rightarrow> bool" where
  "pair_good k \<longleftrightarrow> fst k \<noteq> [] \<and> snd k \<noteq> [] \<and> CHR '':'' \<notin> set (fst k)"

text \<open>The aggregator's buckets are decimal numbers in the form \<open>FormatInt\<close> writes.\<close>

definition numbered :: "string \<Rightarrow> bool" where
  "numbered b \<longleftrightarrow> (case atoi b of None \<Rightarrow> False | Some n \<Rightarrow> show_int n = b)"

definition stats_good :: "string \<times> string \<Rightarrow> bool" where
  "stats_good k \<longleftrightarrow> pair_good k \<and> numbered (snd k)"

lemma pair_key_inj: "CHR '':'' \<notin> set a \<Longrightarrow> CHR '':'' \<notin> set c \<Longrightarrow> a @ CHR '':'' # b = c @ CHR '':'' # d \<longleftrightarrow> a = c \<and> b = d"
  by (metis cut_append prod.inject)

interpretation cl: mirrored "''clients:''" "flat_key ''clients:''" "\<lambda>_. True" "client_cell G" for G
  by unfold_locales (auto simp: flat_key_def)

interpretation se: mirrored "''session:''" "flat_key ''session:''" "\<lambda>_. True" "session_cell G" for G
  by unfold_locales (auto simp: flat_key_def)

interpretation li: mirrored "''customlist:''" "pair_key ''customlist:''" pair_good "\<lambda>_ _. Some ()"
  by unfold_locales (auto simp: pair_key_def pair_good_def pair_key_inj prod_eq_iff)

interpretation st: mirrored "''stats:''" "pair_key ''stats:''" stats_good stats_cell
  by unfold_locales (auto simp: pair_key_def stats_good_def pair_good_def pair_key_inj prod_eq_iff)

interpretation hi: mirrored "''confhist:''" "flat_key ''confhist:''" "\<lambda>k. k \<noteq> []" "history_cell G" for G
  by unfold_locales (auto simp: flat_key_def)

definition labelled :: "(string, string \<times> json) alist \<Rightarrow> bool" where
  "labelled kv \<longleftrightarrow> (\<forall>(key, c, raw) \<in> set kv. c = collection_name key)"

definition tables_match :: "golib \<Rightarrow> sql_db \<Rightarrow> bool" where
  "tables_match G db \<longleftrightarrow>
     db_collection db \<and> db_kv db \<noteq> None \<and> db_clients db \<noteq> None \<and> db_sessions db \<noteq> None
     \<and> db_lists db \<noteq> None \<and> db_stats db \<noteq> None \<and> db_history db \<noteq> None
     \<and> (let kv = rows_of (db_kv db) in
          alist_ok kv \<and> labelled kv
          \<and> cl.in_step G kv (rows_of (db_clients db))
          \<and> se.in_step G kv (rows_of (db_sessions db))
          \<and> li.in_step kv (rows_of (db_lists db))
          \<and> st.in_step kv (rows_of (db_stats db))
          \<and> hi.in_step G kv (rows_of (db_history db)))"

lemma labelled_update: "labelled kv \<Longrightarrow> labelled (AList.update key (collection_name key, raw) kv)"
  by (auto simp: labelled_def dest!: in_set_update)

lemma labelled_delete: "labelled kv \<Longrightarrow> labelled (AList.delete key kv)"
  by (auto simp: labelled_def AList.delete_eq)

lemmas in_step_put = cl.put_row se.put_row li.put_row st.put_row hi.put_row
lemmas in_step_delete = cl.delete_row se.delete_row li.delete_row st.delete_row hi.delete_row
lemmas in_step_elsewhere = cl.put_elsewhere se.put_elsewhere li.put_elsewhere st.put_elsewhere hi.put_elsewhere
  cl.delete_elsewhere se.delete_elsewhere li.delete_elsewhere st.delete_elsewhere hi.delete_elsewhere

section \<open>The statements the store runs keep the tables in step\<close>

lemma collection_of_key: "CHR '':'' \<notin> set c \<Longrightarrow> c \<noteq> [] \<Longrightarrow> collection_name (c @ CHR '':'' # k) = c"
  by (simp add: collection_name_def cut_append)

lemma collection_names [simp]:
  "collection_name (''clients:'' @ k) = ''clients''"
  "collection_name (''session:'' @ k) = ''session''"
  "collection_name (''customlist:'' @ k) = ''customlist''"
  "collection_name (''stats:'' @ k) = ''stats''"
  "collection_name (''confhist:'' @ k) = ''confhist''"
  using collection_of_key [of "''clients''" k] collection_of_key [of "''session''" k]
    collection_of_key [of "''customlist''" k] collection_of_key [of "''stats''" k]
    collection_of_key [of "''confhist''" k] by simp_all

lemma collection_keys [simp]:
  "collection_name (flat_key ''clients:'' k) = ''clients''"
  "collection_name (flat_key ''session:'' k) = ''session''"
  "collection_name (flat_key ''confhist:'' k) = ''confhist''"
  "collection_name (pair_key ''customlist:'' q) = ''customlist''"
  "collection_name (pair_key ''stats:'' q) = ''stats''"
  unfolding flat_key_def pair_key_def by (rule collection_names)+

lemma other_collection:
  "collection_name key \<noteq> ''clients'' \<Longrightarrow> \<not> prefix ''clients:'' key"
  "collection_name key \<noteq> ''session'' \<Longrightarrow> \<not> prefix ''session:'' key"
  "collection_name key \<noteq> ''customlist'' \<Longrightarrow> \<not> prefix ''customlist:'' key"
  "collection_name key \<noteq> ''stats'' \<Longrightarrow> \<not> prefix ''stats:'' key"
  "collection_name key \<noteq> ''confhist'' \<Longrightarrow> \<not> prefix ''confhist:'' key"
  using collection_names by (auto simp: prefix_def simp del: collection_names append.simps)

lemmas match_simps = tables_match_def transaction_def Let_def
  labelled_delete in_step_put in_step_delete in_step_elsewhere
  other_collection

lemma labelled_keys:
  "labelled kv \<Longrightarrow> labelled (AList.update (flat_key ''clients:'' k) (''clients'', raw) kv)"
  "labelled kv \<Longrightarrow> labelled (AList.update (flat_key ''session:'' k) (''session'', raw) kv)"
  "labelled kv \<Longrightarrow> labelled (AList.update (flat_key ''confhist:'' k) (''confhist'', raw) kv)"
  "labelled kv \<Longrightarrow> labelled (AList.update (pair_key ''customlist:'' q) (''customlist'', raw) kv)"
  "labelled kv \<Longrightarrow> labelled (AList.update (pair_key ''stats:'' q) (''stats'', raw) kv)"
  using labelled_update [of kv "flat_key ''clients:'' k"] labelled_update [of kv "flat_key ''session:'' k"]
    labelled_update [of kv "flat_key ''confhist:'' k"] labelled_update [of kv "pair_key ''customlist:'' q"]
    labelled_update [of kv "pair_key ''stats:'' q"] by simp_all

lemma put_client_match:
  assumes "tables_match G db" "client_cell G (cr_key r) raw = Some r"
    "transaction [Put_Client r, Put_Kv (flat_key ''clients:'' (cr_key r)) ''clients'' raw] db db'"
  shows "tables_match G db'"
  using assms by (auto simp: match_simps labelled_keys)

lemma put_session_match:
  assumes "tables_match G db" "session_cell G (sw_token r) raw = Some r"
    "transaction [Put_Session r, Put_Kv (flat_key ''session:'' (sw_token r)) ''session'' raw] db db'"
  shows "tables_match G db'"
  using assms by (auto simp: match_simps labelled_keys)

lemma put_list_match:
  assumes "tables_match G db" "pair_good (l, d)"
    "transaction [Put_List l d, Put_Kv (pair_key ''customlist:'' (l, d)) ''customlist'' raw] db db'"
  shows "tables_match G db'"
  using assms by (auto simp: match_simps labelled_keys)

lemma put_stats_match:
  assumes "tables_match G db" "stats_good (g, b)" "stats_cell (g, b) raw = Some counters"
    "transaction [Put_Stats g b counters, Put_Kv (pair_key ''stats:'' (g, b)) ''stats'' raw] db db'"
  shows "tables_match G db'"
  using assms by (auto simp: match_simps labelled_keys)

lemma put_history_match:
  assumes "tables_match G db" "ts \<noteq> []" "history_cell G ts raw = Some yaml"
    "transaction [Put_History ts yaml, Put_Kv (flat_key ''confhist:'' ts) ''confhist'' raw] db db'"
  shows "tables_match G db'"
  using assms by (auto simp: match_simps labelled_keys)

lemma put_plain_match:
  assumes "tables_match G db" "transaction [Put_Kv key (collection_name key) raw] db db'"
    "collection_name key \<notin> {''clients'', ''session'', ''customlist'', ''stats'', ''confhist''}"
  shows "tables_match G db'"
  using assms by (auto simp: match_simps labelled_update)

lemma delete_client_match:
  "tables_match G db \<Longrightarrow> transaction [Delete_Client k, Delete_Kv (flat_key ''clients:'' k)] db db' \<Longrightarrow> tables_match G db'"
  by (auto simp: match_simps)

lemma delete_session_match:
  "tables_match G db \<Longrightarrow> transaction [Delete_Session k, Delete_Kv (flat_key ''session:'' k)] db db' \<Longrightarrow> tables_match G db'"
  by (auto simp: match_simps)

lemma delete_list_match:
  "tables_match G db \<Longrightarrow> pair_good (l, d) \<Longrightarrow>
     transaction [Delete_List l d, Delete_Kv (pair_key ''customlist:'' (l, d))] db db' \<Longrightarrow> tables_match G db'"
  by (auto simp: match_simps)

lemma transaction_append:
  "transaction (sts @ sts') db db'' \<longleftrightarrow> (\<exists>db'. transaction sts db db' \<and> transaction sts' db' db'')"
proof -
  have "exec_stmts (sts @ sts') db =
      (case exec_stmts sts db of None \<Rightarrow> None
       | Some (db', ns) \<Rightarrow> map_option (\<lambda>(d, ms). (d, ns @ ms)) (exec_stmts sts' db'))" for db
    by (induction sts arbitrary: db) (auto simp: option.map_id split: option.splits)
  then show ?thesis by (fastforce simp: transaction_def split: option.splits)
qed

lemma purge_match:
  "tables_match G db \<Longrightarrow>
     transaction (concat (map (\<lambda>t. [Delete_Session t, Delete_Kv (flat_key ''session:'' t)]) tokens)) db db' \<Longrightarrow>
     tables_match G db'"
proof (induction tokens arbitrary: db)
  case Nil
  then show ?case by (simp add: transaction_def)
next
  case (Cons t tokens)
  let ?rest = "concat (map (\<lambda>t. [Delete_Session t, Delete_Kv (flat_key ''session:'' t)]) tokens)"
  have "transaction ([Delete_Session t, Delete_Kv (flat_key ''session:'' t)] @ ?rest) db db'"
    using Cons.prems(2) by (simp only: list.map concat.simps)
  then obtain d where d: "transaction [Delete_Session t, Delete_Kv (flat_key ''session:'' t)] db d"
    "transaction ?rest d db'"
    unfolding transaction_append by blast
  show ?case using Cons.IH [OF delete_session_match [OF Cons.prems(1) d(1)] d(2)] .
qed

section \<open>Records that read back as they were written\<close>

definition stats_fits :: "string \<Rightarrow> stats_row \<Rightarrow> bool" where
  "stats_fits bucket r \<longleftrightarrow> valid_utf8 bucket \<and> alist_ok (sr_counters r) \<and> (\<forall>(k, v) \<in> set (sr_counters r). valid_utf8 k)"

definition snapshot_fits :: "golib \<Rightarrow> config_snapshot \<Rightarrow> bool" where
  "snapshot_fits G v \<longleftrightarrow> sn_ts v \<noteq> 0 \<and> time_fits G (sn_ts v) \<and> valid_utf8 (sn_yaml v)"

lemma sqlite_time_roundtrip:
  "g_parse_time G [] = None \<Longrightarrow> time_fits G t \<Longrightarrow> parse_sqlite_time G (sqlite_time G t) = Inr t"
  by (auto simp: parse_sqlite_time_def sqlite_time_def time_fits_def time_is_zero_def)

lemma client_cell_fits:
  "g_parse_time G [] = None \<Longrightarrow> client_fits G c \<Longrightarrow>
     client_cell G (cl_key c) (client_to_json G c) = Some (client_row_of G c)"
  by (simp add: client_cell_def client_roundtrip scan_client_def client_row_of_def sqlite_time_roundtrip
      client_fits_def bool_int_def)

lemma session_cell_fits:
  "g_parse_time G [] = None \<Longrightarrow> session_fits G v \<Longrightarrow>
     session_cell G (se_token v) (session_to_json G v) = Some (session_row_of G v)"
  by (simp add: session_cell_def session_roundtrip scan_session_def session_row_of_def sqlite_time_roundtrip
      session_fits_def)

lemma snapshot_roundtrip:
  "snapshot_fits G v \<Longrightarrow> snapshot_of_json G (snapshot_to_json G v) = Some v"
  by (simp add: snapshot_to_json_def json_field_def lower_char_def snapshot_fits_def json_string_valid
      json_to_of_time char_class_defs)

lemma history_cell_fits:
  "g_parse_time G [] = None \<Longrightarrow> snapshot_fits G v \<Longrightarrow>
     history_cell G (sqlite_time G (sn_ts v)) (snapshot_to_json G v) = Some (sn_yaml v)"
  by (simp add: history_cell_def snapshot_roundtrip scan_config_snapshot_def sqlite_time_roundtrip
      snapshot_fits_def [THEN iffD1])

lemma counters_fold:
  "alist_ok (acc @ m) \<Longrightarrow>
     fold (\<lambda>(k, j) acc. case (acc, json_to_u64 j) of
             (Some m, Some v) \<Rightarrow> Some (AList.update k v m) | _ \<Rightarrow> None)
       (map (\<lambda>(k, v). (k, JNum (uint (v :: u64)))) m) (Some acc) = Some (acc @ m)"
proof (induction m arbitrary: acc)
  case (Cons kv m)
  obtain k v where kv: "kv = (k, v)" by (cases kv)
  have "uint v < 2 ^ 64" using uint_bounded [of v] by simp
  then show ?case
    using Cons.prems Cons.IH [of "acc @ [(k, v)]"] by (simp add: kv update_new)
qed simp

lemma sql_counters_roundtrip:
  assumes "alist_ok m" "\<forall>(k, v) \<in> set m. valid_utf8 k"
  shows "json_to_counters (counters_to_json m) = Some (sort_key fst m)"
proof -
  have raw: "map (\<lambda>(k, v). (json_string k, JNum (uint v))) (sort_key fst m)
      = map (\<lambda>(k, v). (k, JNum (uint v))) (sort_key fst m)"
    using assms(2) by (intro map_cong refl) (auto simp: json_string_valid)
  have "alist_ok (sort_key fst m)"
    using assms(1) by (simp add: distinct_map)
  then show ?thesis using counters_fold [of "[]" "sort_key fst m"]
    by (simp only: counters_to_json_def raw json_to_counters.simps append.simps)
qed

lemma stats_cell_fits:
  assumes "stats_fits b r"
  shows "stats_cell (g, b) (stats_row_to_json (r\<lparr>sr_bucket := b\<rparr>)) = Some (counters_to_json (sr_counters r))"
proof -
  have idem: "counters_to_json (sort_key fst (sr_counters r)) = counters_to_json (sr_counters r)"
    by (simp add: counters_to_json_def sort_key_id_if_sorted)
  have raw: "stats_row_to_json (r\<lparr>sr_bucket := b\<rparr>)
      = JObj [(''bucket'', JStr b), (''counters'', counters_to_json (sr_counters r))]"
    using assms by (simp add: stats_row_to_json_def counters_to_json_def stats_fits_def json_string_valid)
  have "stats_row_of_json (stats_row_to_json (r\<lparr>sr_bucket := b\<rparr>))
      = Some \<lparr>sr_bucket = b, sr_counters = sort_key fst (sr_counters r)\<rparr>"
    using assms sql_counters_roundtrip [of "sr_counters r"]
    by (simp add: raw json_field_def lower_char_def char_class_defs stats_fits_def)
  then show ?thesis
    using assms sql_counters_roundtrip [of "sr_counters r"]
    by (simp add: stats_cell_def idem scan_stats_row_def stats_fits_def)
qed

end
