(* ===== verification/Store_Backends.thy ===== *)
theory Store_Backends
  imports Sqlite_Mirror
begin

text \<open>
  The two backends of \<open>internal/store/store.go\<close> behind one interface.  \<open>store_op\<close> lists the operations of
  the five repositories, \<open>file_step\<close> and \<open>sql_step\<close> run one on the JSON file and on SQLite.  On SQLite
  the tables stay in step with the raw rows whatever the driver answers; with drivers that do not
  fail, both backends give the same replies to the same history.
\<close>

section \<open>Operations and replies\<close>

datatype store_op =
    Client_Get string
  | Client_List
  | Client_Upsert "client option"
  | Client_Delete string
  | List_Add string string
  | List_Remove string string
  | List_List string
  | Session_Get string
  | Session_Upsert "session option"
  | Session_Delete string
  | Session_Purge gotime
  | Stats_Put string string "stats_row option"
  | Stats_Get string string
  | Stats_List string
  | History_Append gotime "config_snapshot option"
  | History_List int

text \<open>The reply to \<open>History_List\<close> is compared as a set, its order is not part of the contract.\<close>

datatype store_reply =
    R_Error "store_error option"
  | R_Client "store_error + client"
  | R_Clients "store_error + client list"
  | R_Names "store_error + string list"
  | R_Session "store_error + session"
  | R_Row "store_error + stats_row"
  | R_Rows "store_error + stats_row list"
  | R_History "store_error + config_snapshot set"

definition as_set :: "store_error + 'a list \<Rightarrow> store_error + 'a set" where
  "as_set r = map_sum id set r"

fun file_step :: "(nat \<Rightarrow> save_result) \<Rightarrow> golib \<Rightarrow> store_op \<Rightarrow> file_store \<Rightarrow> file_store \<times> store_reply" where
  "file_step io G (Client_Get k) s = (s, R_Client (client_get (file_ops io) G k s))"
| "file_step io G Client_List s = (s, R_Clients (client_list (file_ops io) G s))"
| "file_step io G (Client_Upsert c) s = map_prod id R_Error (client_upsert (file_ops io) G c s)"
| "file_step io G (Client_Delete k) s = map_prod id R_Error (client_delete (file_ops io) k s)"
| "file_step io G (List_Add l d) s = map_prod id R_Error (custom_add (file_ops io) l d s)"
| "file_step io G (List_Remove l d) s = map_prod id R_Error (custom_remove (file_ops io) l d s)"
| "file_step io G (List_List l) s = (s, R_Names (Inr (custom_list (file_ops io) l s)))"
| "file_step io G (Session_Get t) s = (s, R_Session (session_get (file_ops io) G t s))"
| "file_step io G (Session_Upsert v) s = map_prod id R_Error (session_upsert (file_ops io) G v s)"
| "file_step io G (Session_Delete t) s = map_prod id R_Error (session_delete (file_ops io) t s)"
| "file_step io G (Session_Purge now) s = map_prod id R_Error (delete_expired (file_ops io) G now s)"
| "file_step io G (Stats_Put g b r) s = map_prod id R_Error (stats_put (file_ops io) g b r s)"
| "file_step io G (Stats_Get g b) s = (s, R_Row (stats_get (file_ops io) g b s))"
| "file_step io G (Stats_List g) s = (s, R_Rows (stats_list (file_ops io) g s))"
| "file_step io G (History_Append now v) s = map_prod id R_Error (history_append (file_ops io) G now v s)"
| "file_step io G (History_List n) s = (s, R_History (as_set (history_list (file_ops io) G n s)))"

fun sql_step :: "sql_io \<Rightarrow> golib \<Rightarrow> store_op \<Rightarrow> sqlite_store \<Rightarrow> sqlite_store \<times> store_reply" where
  "sql_step io G (Client_Get k) s = map_prod id R_Client (sql_client_get io G k s)"
| "sql_step io G Client_List s = map_prod id R_Clients (sql_client_list io G s)"
| "sql_step io G (Client_Upsert c) s = map_prod id R_Error (sql_client_upsert io G c s)"
| "sql_step io G (Client_Delete k) s = map_prod id R_Error (sql_client_delete io k s)"
| "sql_step io G (List_Add l d) s = map_prod id R_Error (sql_custom_add io l d s)"
| "sql_step io G (List_Remove l d) s = map_prod id R_Error (sql_custom_remove io l d s)"
| "sql_step io G (List_List l) s = map_prod id R_Names (sql_custom_list io l s)"
| "sql_step io G (Session_Get t) s = map_prod id R_Session (sql_session_get io G t s)"
| "sql_step io G (Session_Upsert v) s = map_prod id R_Error (sql_session_upsert io G v s)"
| "sql_step io G (Session_Delete t) s = map_prod id R_Error (sql_session_delete io t s)"
| "sql_step io G (Session_Purge now) s = map_prod id R_Error (sql_delete_expired io G now s)"
| "sql_step io G (Stats_Put g b r) s = map_prod id R_Error (sql_stats_put io g b r s)"
| "sql_step io G (Stats_Get g b) s = map_prod id R_Row (sql_stats_get io g b s)"
| "sql_step io G (Stats_List g) s = map_prod id R_Rows (sql_stats_list io g s)"
| "sql_step io G (History_Append now v) s = map_prod id R_Error (sql_history_append io G now v s)"
| "sql_step io G (History_List n) s = map_prod id (\<lambda>r. R_History (as_set r)) (sql_history_list io G n s)"

fun run_ops :: "('o \<Rightarrow> 's \<Rightarrow> 's \<times> 'r) \<Rightarrow> 'o list \<Rightarrow> 's \<Rightarrow> 's \<times> 'r list" where
  "run_ops step [] s = (s, [])"
| "run_ops step (op # ops) s =
     (case step op s of (s, r) \<Rightarrow> (case run_ops step ops s of (s, rs) \<Rightarrow> (s, r # rs)))"

text \<open>
  The arguments the program passes: records that JSON and the time format carry, list names and
  granularities without a colon, buckets that are numbers.  The history is compared whole.
\<close>

fun op_fits :: "golib \<Rightarrow> store_op \<Rightarrow> bool" where
  "op_fits G (Client_Upsert (Some c)) \<longleftrightarrow> client_fits G c"
| "op_fits G (Session_Upsert (Some v)) \<longleftrightarrow> session_fits G v"
| "op_fits G (List_Add l d) \<longleftrightarrow> CHR '':'' \<notin> set l"
| "op_fits G (List_Remove l d) \<longleftrightarrow> l \<noteq> [] \<and> d \<noteq> [] \<and> CHR '':'' \<notin> set l"
| "op_fits G (List_List l) \<longleftrightarrow> CHR '':'' \<notin> set l"
| "op_fits G (Stats_Put g b (Some r)) \<longleftrightarrow> CHR '':'' \<notin> set g \<and> numbered b \<and> stats_fits b r"
| "op_fits G (Stats_Get g b) \<longleftrightarrow> CHR '':'' \<notin> set g"
| "op_fits G (Stats_List g) \<longleftrightarrow> CHR '':'' \<notin> set g"
| "op_fits G (History_Append now (Some v)) \<longleftrightarrow>
     snapshot_fits G (if time_is_zero (sn_ts v) then v\<lparr>sn_ts := now\<rparr> else v)"
| "op_fits G (History_List n) \<longleftrightarrow> n \<le> 0"
| "op_fits G op \<longleftrightarrow> True"

section \<open>The tables stay in step, whatever the driver answers\<close>

lemma sql_tx_keeps:
  assumes "\<And>db'. transaction sts (sq_db s) db' \<Longrightarrow> tables_match G db'" "tables_match G (sq_db s)"
  shows "tables_match G (sq_db (fst (sql_tx io sts s)))"
  using assms sql_tx_outcome [of io sts s] by (cases "sql_tx io sts s") auto

lemma sql_delete_tx_keeps:
  assumes "\<And>db'. transaction sts (sq_db s) db' \<Longrightarrow> tables_match G db'" "tables_match G (sq_db s)"
  shows "tables_match G (sq_db (fst (sql_delete_tx io sts s)))"
  using assms sql_delete_tx_outcome(2) [of io sts s] unfolding transaction_def
  by (cases "sql_delete_tx io sts s") auto

lemma sql_read_keeps [simp]:
  "sq_db (fst (sql_read io q s)) = sq_db s" "sq_closed (fst (sql_read io q s)) = sq_closed s"
  by (auto simp: sql_read_def sql_query_def split: sum.split)

lemma split_pair:
  assumes "CHR '':'' \<notin> set a" "a \<noteq> []" "b \<noteq> []"
  shows "split_key p (p @ a @ CHR '':'' # b) = Some (a, b)"
  using assms by (simp add: split_key_def cut_append)

lemma client_upsert_keeps:
  assumes "g_parse_time G [] = None" "tables_match G (sq_db s)" "client_fits G c"
  shows "tables_match G (sq_db (fst (sql_client_upsert io G (Some c) s)))"
proof -
  have "client_cell G (cr_key (client_row_of G c)) (client_to_json G c) = Some (client_row_of G c)"
    using client_cell_fits [OF assms(1,3)] by (simp add: client_row_of_def)
  note put = put_client_match [OF assms(2) this, unfolded client_row_of_def [of G c] client_row.simps,
      folded client_row_of_def [of G c]]
  have "tables_match G (sq_db (fst (put_client_locked io G (flat_key ''clients:'' (cl_key c)) c (client_to_json G c) s)))"
    unfolding put_client_locked_def using put assms(2) by (intro sql_tx_keeps) simp_all
  then show ?thesis using assms(2) by (simp add: sql_client_upsert_def flat_key_def)
qed

lemma session_upsert_keeps:
  assumes "g_parse_time G [] = None" "tables_match G (sq_db s)" "session_fits G v"
  shows "tables_match G (sq_db (fst (sql_session_upsert io G (Some v) s)))"
proof -
  have "session_cell G (sw_token (session_row_of G v)) (session_to_json G v) = Some (session_row_of G v)"
    using session_cell_fits [OF assms(1,3)] by (simp add: session_row_of_def)
  note put = put_session_match [OF assms(2) this, unfolded session_row_of_def [of G v] session_row.simps,
      folded session_row_of_def [of G v]]
  have "tables_match G (sq_db (fst (put_session_locked io G (flat_key ''session:'' (se_token v)) v (session_to_json G v) s)))"
    unfolding put_session_locked_def using put assms(2) by (intro sql_tx_keeps) simp_all
  then show ?thesis using assms(2) by (simp add: sql_session_upsert_def flat_key_def)
qed

lemma custom_add_keeps:
  assumes "tables_match G (sq_db s)" "CHR '':'' \<notin> set l"
  shows "tables_match G (sq_db (fst (sql_custom_add io l d s)))"
proof (cases "l = [] \<or> d = []")
  case False
  with assms(2) have good: "pair_good (l, d)" by (simp add: pair_good_def)
  have "tables_match G (sq_db (fst (put_custom_list_locked io (pair_key ''customlist:'' (l, d)) l d (JBool True) s)))"
    unfolding put_custom_list_locked_def using put_list_match [OF assms(1) good] assms(1)
    by (intro sql_tx_keeps) simp_all
  with False assms(1) show ?thesis by (simp add: sql_custom_add_def pair_key_def)
qed (use assms in \<open>auto simp: sql_custom_add_def\<close>)

lemma stats_put_keeps:
  assumes "tables_match G (sq_db s)" "CHR '':'' \<notin> set g" "numbered b" "stats_fits b r"
  shows "tables_match G (sq_db (fst (sql_stats_put io g b (Some r) s)))"
proof (cases "g = [] \<or> b = []")
  case False
  with assms(2,3) have good: "stats_good (g, b)" by (simp add: stats_good_def pair_good_def)
  have "tables_match G (sq_db (fst (put_stats_locked io (pair_key ''stats:'' (g, b)) g b (r\<lparr>sr_bucket := b\<rparr>)
      (stats_row_to_json (r\<lparr>sr_bucket := b\<rparr>)) s)))"
    unfolding put_stats_locked_def using put_stats_match [OF assms(1) good stats_cell_fits [OF assms(4)]] assms(1)
    by (intro sql_tx_keeps) simp_all
  with False assms(1) show ?thesis by (simp add: sql_stats_put_def pair_key_def Let_def)
qed (use assms in \<open>auto simp: sql_stats_put_def\<close>)

lemma snapshot_key:
  assumes "g_parse_time G [] = None" "snapshot_fits G v"
  shows "sqlite_time G (sn_ts v) = g_fmt_time G (sn_ts v)" "sqlite_time G (sn_ts v) \<noteq> []"
  using assms by (auto simp: snapshot_fits_def sqlite_time_def time_is_zero_def time_fits_def)

lemma history_append_keeps:
  assumes "g_parse_time G [] = None" "tables_match G (sq_db s)"
    and "snapshot_fits G (if time_is_zero (sn_ts v) then v\<lparr>sn_ts := now\<rparr> else v)"
  shows "tables_match G (sq_db (fst (sql_history_append io G now (Some v) s)))"
proof -
  define w where "w = (if time_is_zero (sn_ts v) then v\<lparr>sn_ts := now\<rparr> else v)"
  have w: "snapshot_fits G w" using assms(3) by (simp add: w_def)
  note key = snapshot_key [OF assms(1) w]
  have "tables_match G (sq_db (fst (put_config_history_locked io G
      (flat_key ''confhist:'' (sqlite_time G (sn_ts w))) w (snapshot_to_json G w) s)))"
    unfolding put_config_history_locked_def
    using put_history_match [OF assms(2) key(2) history_cell_fits [OF assms(1) w]] assms(2)
    by (intro sql_tx_keeps) simp_all
  with assms(2) show ?thesis
    unfolding sql_history_append_def option.case Let_def w_def [symmetric] by (simp add: flat_key_def key(1))
qed

lemma client_delete_keeps:
  "tables_match G (sq_db s) \<Longrightarrow> tables_match G (sq_db (fst (sql_client_delete io k s)))"
  using delete_client_match [of G "sq_db s" k]
  by (auto simp: sql_client_delete_def sql_delete_def trim_prefix_def flat_key_def intro!: sql_delete_tx_keeps)

lemma session_delete_keeps:
  "tables_match G (sq_db s) \<Longrightarrow> tables_match G (sq_db (fst (sql_session_delete io t s)))"
  using delete_session_match [of G "sq_db s" t]
  by (auto simp: sql_session_delete_def sql_delete_def trim_prefix_def flat_key_def intro!: sql_delete_tx_keeps)

lemma custom_remove_keeps:
  assumes "tables_match G (sq_db s)" "l \<noteq> []" "d \<noteq> []" "CHR '':'' \<notin> set l"
  shows "tables_match G (sq_db (fst (sql_custom_remove io l d s)))"
proof -
  have "split_custom_list_key (''customlist:'' @ l @ CHR '':'' # d) = Some (l, d)"
    unfolding split_custom_list_key_def by (rule split_pair [OF assms(4,2,3)])
  moreover have "tables_match G (sq_db (fst (sql_delete_tx io
      [Delete_List l d, Delete_Kv (pair_key ''customlist:'' (l, d))] s)))"
    using delete_list_match [OF assms(1), of l d] assms by (intro sql_delete_tx_keeps) (auto simp: pair_good_def)
  ultimately show ?thesis using assms(1) by (simp add: sql_custom_remove_def sql_delete_def pair_key_def)
qed

lemma purge_keeps:
  assumes "tables_match G (sq_db s)"
  shows "tables_match G (sq_db (fst (sql_delete_expired io G now s)))"
proof -
  obtain t r where t: "sql_read io (\<lambda>db. map_option (expired_tokens G now) (db_sessions db)) s = (t, r)"
    by (cases "sql_read io (\<lambda>db. map_option (expired_tokens G now) (db_sessions db)) s")
  have "sq_db t = sq_db s"
    using sql_read_keeps(1) [of io "\<lambda>db. map_option (expired_tokens G now) (db_sessions db)" s] by (simp add: t)
  then have "tables_match G (sq_db (fst (sql_tx io
      (concat (map (\<lambda>x. [Delete_Session x, Delete_Kv (flat_key ''session:'' x)]) tokens)) t)))" for tokens
    using assms purge_match [of G "sq_db t"] by (intro sql_tx_keeps) auto
  with assms t show ?thesis
    using \<open>sq_db t = sq_db s\<close> by (cases r) (simp_all add: sql_delete_expired_def flat_key_def)
qed

lemma sql_step_match:
  assumes G: "g_parse_time G [] = None" and m: "tables_match G (sq_db s)" and fits: "op_fits G op"
  shows "tables_match G (sq_db (fst (sql_step io G op s)))"
proof (cases op)
  case (Client_Upsert v)
  with fits m client_upsert_keeps [OF G m] show ?thesis by (cases v) (simp_all add: sql_client_upsert_def)
next
  case (Session_Upsert v)
  with fits m session_upsert_keeps [OF G m] show ?thesis by (cases v) (simp_all add: sql_session_upsert_def)
next
  case (Stats_Put g b r)
  with fits m stats_put_keeps [OF m] show ?thesis by (cases r) (simp_all add: sql_stats_put_def)
next
  case (History_Append now v)
  with fits m history_append_keeps [OF G m] show ?thesis by (cases v) (simp_all add: sql_history_append_def)
qed (use m fits custom_add_keeps [OF m] client_delete_keeps [OF m] session_delete_keeps [OF m]
       custom_remove_keeps [OF m] purge_keeps [OF m] in
     \<open>simp_all add: sql_client_get_def sql_client_list_def sql_custom_list_def sql_session_get_def
       sql_stats_get_def sql_stats_list_def sql_history_list_def\<close>)

section \<open>Both backends hold the same rows\<close>

abbreviation kv_rows :: "sqlite_store \<Rightarrow> (string, string \<times> json) alist" where
  "kv_rows q \<equiv> rows_of (db_kv (sq_db q))"

abbreviation no_failure :: sql_io where "no_failure \<equiv> \<lambda>_. Answered"

abbreviation good_saves :: "nat \<Rightarrow> save_result" where "good_saves \<equiv> \<lambda>_. Saved"

definition same_rows :: "file_store \<Rightarrow> sqlite_store \<Rightarrow> bool" where
  "same_rows f q \<longleftrightarrow>
     file_ok f \<and> \<not> fs_closed f \<and> \<not> sq_closed q
     \<and> (\<forall>key. map_of (fs_data f) key = map_option snd (map_of (kv_rows q) key))"

definition same_store :: "golib \<Rightarrow> file_store \<Rightarrow> sqlite_store \<Rightarrow> bool" where
  "same_store G f q \<longleftrightarrow> same_rows f q \<and> tables_match G (sq_db q)"

lemma same_rowsD:
  assumes "same_rows f q"
  shows "map_of (fs_data f) key = map_option snd (map_of (kv_rows q) key)" "\<not> fs_closed f" "\<not> sq_closed q" "file_ok f"
  using assms by (simp_all add: same_rows_def)

lemma match_tables:
  assumes "tables_match G db"
  obtains kv C S L T H where "db_kv db = Some kv" "db_collection db" "db_clients db = Some C" "db_sessions db = Some S"
    "db_lists db = Some L" "db_stats db = Some T" "db_history db = Some H"
    "alist_ok kv" "cl.in_step G kv C" "se.in_step G kv S" "li.in_step kv L" "st.in_step kv T" "hi.in_step G kv H"
proof -
  from assms obtain kv C S L T H where t: "db_kv db = Some kv" "db_clients db = Some C" "db_sessions db = Some S"
    "db_lists db = Some L" "db_stats db = Some T" "db_history db = Some H"
    unfolding tables_match_def by blast
  then have "db_collection db" "alist_ok kv" "cl.in_step G kv C" "se.in_step G kv S" "li.in_step kv L"
    "st.in_step kv T" "hi.in_step G kv H"
    using assms by (simp_all only: tables_match_def Let_def option.case)
  with t show thesis using that by blast
qed

lemma file_put_good:
  assumes "same_rows f q"
  shows "\<exists>f'. file_put good_saves key raw f = (f', None) \<and> file_ok f' \<and> \<not> fs_closed f'
    \<and> (\<forall>k. map_of (fs_data f') k = (if k = key then Some raw else map_of (fs_data f) k))"
  using assms by (auto simp: same_rows_def file_put_def save_locked_def Let_def file_ok_def)

lemma file_delete_good:
  assumes "same_rows f q"
  shows "\<exists>f'. file_delete good_saves key f = (f', if map_of (fs_data f) key = None then Some Not_Found else None)
    \<and> file_ok f' \<and> \<not> fs_closed f'
    \<and> (\<forall>k. map_of (fs_data f') k = (if k = key then None else map_of (fs_data f) k))"
  using assms
  by (auto simp: same_rows_def file_delete_def save_locked_def Let_def file_ok_def simp del: map_of_eq_None_iff)

lemma sql_put_good:
  assumes "tables_match G (sq_db q)"
    and "exec_stmt st (sq_db q) = Some (db, n)" "db_kv db = db_kv (sq_db q)" "db_collection db"
  shows "\<exists>q'. sql_tx no_failure [st, Put_Kv key coll raw] q = (q', None) \<and> sq_closed q' = sq_closed q
    \<and> (\<forall>k. map_of (kv_rows q') k = (if k = key then Some (coll, raw) else map_of (kv_rows q) k))"
proof -
  obtain kv where kv: "db_kv (sq_db q) = Some kv" by (rule match_tables [OF assms(1)])
  have "exec_stmts [st, Put_Kv key coll raw] (sq_db q)
      = Some (db\<lparr>db_kv := Some (AList.update key (coll, raw) kv)\<rparr>, [n, 1])"
    using assms(2-4) kv by simp
  from sql_tx_answered [OF this] show ?thesis by (simp add: kv)
qed

lemma sql_delete_good:
  assumes "tables_match G (sq_db q)"
    and "exec_stmt st (sq_db q) = Some (db, row_count (kv_rows q) key)" "db_kv db = db_kv (sq_db q)"
  shows "\<exists>q'. sql_delete_tx no_failure [st, Delete_Kv key] q
      = (q', if map_of (kv_rows q) key = None then Some Not_Found else None)
    \<and> sq_closed q' = sq_closed q
    \<and> (\<forall>k. map_of (kv_rows q') k = (if k = key then None else map_of (kv_rows q) k))"
proof -
  obtain kv where kv: "db_kv (sq_db q) = Some kv" by (rule match_tables [OF assms(1)])
  have ex: "exec_stmts [st, Delete_Kv key] (sq_db q)
      = Some (db\<lparr>db_kv := Some (AList.delete key kv)\<rparr>, [row_count kv key, row_count kv key])"
    using assms(2,3) kv by simp
  obtain q' r where q': "sql_delete_tx no_failure [st, Delete_Kv key] q = (q', r)"
    by (cases "sql_delete_tx no_failure [st, Delete_Kv key] q")
  have r: "r = (if map_of kv key = None then Some Not_Found else None)"
    using sql_delete_tx_answered [OF ex] q' by (simp del: map_of_eq_None_iff)
  have out: "sq_db q' = sq_db q \<and> r \<noteq> None \<or> sq_db q' = db\<lparr>db_kv := Some (AList.delete key kv)\<rparr>"
    using sql_delete_tx_outcome(2) [OF q'] ex by auto
  have "sq_closed q' = sq_closed q" using sql_delete_tx_outcome(1) [OF q'] by simp
  moreover have "\<forall>k. map_of (kv_rows q') k = (if k = key then None else map_of kv k)"
    using out r kv by (auto split: if_split_asm simp del: map_of_eq_None_iff)
  ultimately show ?thesis using q' r by (simp add: kv)
qed

text \<open>A write on both sides: equal replies, and the rows stay the same.\<close>

lemma put_both:
  assumes same: "same_rows f q" and "tables_match G (sq_db q)"
    and "exec_stmt st (sq_db q) = Some (db, n)" "db_kv db = db_kv (sq_db q)" "db_collection db"
    and f: "F = file_put good_saves key raw f" and q: "Q = sql_tx no_failure [st, Put_Kv key coll raw] q"
  shows "snd F = snd Q \<and> same_rows (fst F) (fst Q)"
  using file_put_good [OF same, of key raw] sql_put_good [OF assms(2-5), of key coll raw] same
  unfolding f q by (auto simp: same_rows_def)

lemma delete_both:
  assumes same: "same_rows f q" and m: "tables_match G (sq_db q)"
    and ex: "exec_stmt st (sq_db q) = Some (db, row_count (kv_rows q) key)" "db_kv db = db_kv (sq_db q)"
    and f: "F = file_delete good_saves key f" and q: "Q = sql_delete_tx no_failure [st, Delete_Kv key] q"
  shows "snd F = snd Q \<and> same_rows (fst F) (fst Q)"
proof -
  have "map_of (fs_data f) key = None \<longleftrightarrow> map_of (kv_rows q) key = None"
    using same_rowsD(1) [OF same, of key] by simp
  then show ?thesis
    using file_delete_good [OF same, of key] sql_delete_good [OF m ex] same
    unfolding f q by (auto simp: same_rows_def simp del: map_of_eq_None_iff)
qed

section \<open>The same replies, operation by operation\<close>

text \<open>\<open>agree F Q\<close>: the runs on the two sides gave equal replies and hold equal rows.\<close>

definition agree :: "file_store \<times> 'r \<Rightarrow> sqlite_store \<times> 'r \<Rightarrow> bool" where
  "agree F Q \<longleftrightarrow> snd F = snd Q \<and> same_rows (fst F) (fst Q)"

lemma same_storeD: "same_store G f q \<Longrightarrow> same_rows f q" "same_store G f q \<Longrightarrow> tables_match G (sq_db q)"
  by (simp_all add: same_store_def)

lemma agree_reply: "agree F Q \<Longrightarrow> agree (map_prod id h F) (map_prod id h Q)"
  by (simp add: agree_def)

lemma client_upsert_agree:
  assumes "same_store G f q"
  shows "agree (client_upsert (file_ops good_saves) G c f) (sql_client_upsert no_failure G c q)"
proof -
  obtain kv C where "db_kv (sq_db q) = Some kv" "db_clients (sq_db q) = Some C" "db_collection (sq_db q)"
    by (rule match_tables [OF same_storeD(2) [OF assms]])
  then show ?thesis
    using put_both [OF same_storeD [OF assms], of "Put_Client (client_row_of G (the c))" _ _
        "client_upsert (file_ops good_saves) G c f" "''clients:'' @ cl_key (the c)" "client_to_json G (the c)"
        "sql_client_upsert no_failure G c q" "collection_name (''clients:'' @ cl_key (the c))"] same_rowsD [OF same_storeD(1) [OF assms]] same_storeD(1) [OF assms]
    by (auto simp: agree_def client_upsert_def sql_client_upsert_def put_client_locked_def file_ops_def
        split: option.split)
qed

lemma session_upsert_agree:
  assumes "same_store G f q"
  shows "agree (session_upsert (file_ops good_saves) G v f) (sql_session_upsert no_failure G v q)"
proof -
  obtain kv C where "db_kv (sq_db q) = Some kv" "db_sessions (sq_db q) = Some C" "db_collection (sq_db q)"
    by (rule match_tables [OF same_storeD(2) [OF assms]])
  then show ?thesis
    using put_both [OF same_storeD [OF assms], of "Put_Session (session_row_of G (the v))" _ _
        "session_upsert (file_ops good_saves) G v f" "''session:'' @ se_token (the v)" "session_to_json G (the v)"
        "sql_session_upsert no_failure G v q" "collection_name (''session:'' @ se_token (the v))"] same_rowsD [OF same_storeD(1) [OF assms]] same_storeD(1) [OF assms]
    by (auto simp: agree_def session_upsert_def sql_session_upsert_def put_session_locked_def file_ops_def
        split: option.split)
qed

lemma custom_add_agree:
  assumes "same_store G f q"
  shows "agree (custom_add (file_ops good_saves) l d f) (sql_custom_add no_failure l d q)"
proof -
  obtain kv C where "db_kv (sq_db q) = Some kv" "db_lists (sq_db q) = Some C" "db_collection (sq_db q)"
    by (rule match_tables [OF same_storeD(2) [OF assms]])
  then show ?thesis
    using put_both [OF same_storeD [OF assms], of "Put_List l d" _ _
        "custom_add (file_ops good_saves) l d f" "''customlist:'' @ l @ '':'' @ d" "JBool True"
        "sql_custom_add no_failure l d q" "collection_name (''customlist:'' @ l @ '':'' @ d)"] same_rowsD [OF same_storeD(1) [OF assms]] same_storeD(1) [OF assms]
    by (auto simp: agree_def custom_add_def sql_custom_add_def put_custom_list_locked_def file_ops_def)
qed

lemma stats_put_agree:
  assumes "same_store G f q"
  shows "agree (stats_put (file_ops good_saves) g b r f) (sql_stats_put no_failure g b r q)"
proof -
  let ?r = "(the r)\<lparr>sr_bucket := b\<rparr>"
  obtain kv C where "db_kv (sq_db q) = Some kv" "db_stats (sq_db q) = Some C" "db_collection (sq_db q)"
    by (rule match_tables [OF same_storeD(2) [OF assms]])
  then show ?thesis
    using put_both [OF same_storeD [OF assms], of "Put_Stats g b (counters_to_json (sr_counters ?r))" _ _
        "stats_put (file_ops good_saves) g b r f" "''stats:'' @ g @ '':'' @ b" "stats_row_to_json ?r"
        "sql_stats_put no_failure g b r q" "collection_name (''stats:'' @ g @ '':'' @ b)"] same_rowsD [OF same_storeD(1) [OF assms]] same_storeD(1) [OF assms]
    by (auto simp: agree_def stats_put_def sql_stats_put_def put_stats_locked_def file_ops_def Let_def
        split: option.split)
qed

lemma history_append_agree:
  assumes "same_store G f q"
  shows "agree (history_append (file_ops good_saves) G now v f) (sql_history_append no_failure G now v q)"
proof (cases v)
  case (Some w)
  define u where "u = (if time_is_zero (sn_ts w) then w\<lparr>sn_ts := now\<rparr> else w)"
  obtain kv C where "db_kv (sq_db q) = Some kv" "db_history (sq_db q) = Some C" "db_collection (sq_db q)"
    by (rule match_tables [OF same_storeD(2) [OF assms]])
  then show ?thesis
    using put_both [OF same_storeD [OF assms], of "Put_History (sqlite_time G (sn_ts u)) (sn_yaml u)" _ _
        "history_append (file_ops good_saves) G now v f" "''confhist:'' @ g_fmt_time G (sn_ts u)" "snapshot_to_json G u"
        "sql_history_append no_failure G now v q" "collection_name (''confhist:'' @ g_fmt_time G (sn_ts u))"] same_rowsD(3) [OF same_storeD(1) [OF assms]]
    unfolding Some history_append_def sql_history_append_def option.case Let_def u_def [symmetric]
    by (simp add: agree_def put_config_history_locked_def file_ops_def)
qed (use same_storeD(1) [OF assms] in \<open>simp add: agree_def history_append_def sql_history_append_def\<close>)

lemma client_delete_agree:
  assumes "same_store G f q"
  shows "agree (client_delete (file_ops good_saves) k f) (sql_client_delete no_failure k q)"
proof -
  obtain kv C where t: "db_kv (sq_db q) = Some kv" "db_clients (sq_db q) = Some C" "cl.in_step G kv C"
    by (rule match_tables [OF same_storeD(2) [OF assms]])
  have "map_of C k = None \<longleftrightarrow> map_of kv (''clients:'' @ k) = None"
    using cl.missing [OF t(3), of k] by (simp add: flat_key_def del: map_of_eq_None_iff)
  with t show ?thesis
    using delete_both [OF same_storeD [OF assms], of "Delete_Client k" _ "''clients:'' @ k"
        "client_delete (file_ops good_saves) k f" "sql_client_delete no_failure k q"]
      same_rowsD(3) [OF same_storeD(1) [OF assms]]
    by (simp add: agree_def client_delete_def sql_client_delete_def sql_delete_def trim_prefix_def file_ops_def
        del: map_of_eq_None_iff)
qed

lemma session_delete_agree:
  assumes "same_store G f q"
  shows "agree (session_delete (file_ops good_saves) k f) (sql_session_delete no_failure k q)"
proof -
  obtain kv C where t: "db_kv (sq_db q) = Some kv" "db_sessions (sq_db q) = Some C" "se.in_step G kv C"
    by (rule match_tables [OF same_storeD(2) [OF assms]])
  have "map_of C k = None \<longleftrightarrow> map_of kv (''session:'' @ k) = None"
    using se.missing [OF t(3), of k] by (simp add: flat_key_def del: map_of_eq_None_iff)
  with t show ?thesis
    using delete_both [OF same_storeD [OF assms], of "Delete_Session k" _ "''session:'' @ k"
        "session_delete (file_ops good_saves) k f" "sql_session_delete no_failure k q"]
      same_rowsD(3) [OF same_storeD(1) [OF assms]]
    by (simp add: agree_def session_delete_def sql_session_delete_def sql_delete_def trim_prefix_def file_ops_def
        del: map_of_eq_None_iff)
qed

lemma custom_remove_agree:
  assumes "same_store G f q" "l \<noteq> []" "d \<noteq> []" "CHR '':'' \<notin> set l"
  shows "agree (custom_remove (file_ops good_saves) l d f) (sql_custom_remove no_failure l d q)"
proof -
  obtain kv L where t: "db_kv (sq_db q) = Some kv" "db_lists (sq_db q) = Some L" "li.in_step kv L"
    by (rule match_tables [OF same_storeD(2) [OF assms(1)]])
  have "map_of L (l, d) = None \<longleftrightarrow> map_of kv (''customlist:'' @ l @ '':'' @ d) = None"
    using li.missing [OF t(3), of "(l, d)"] assms by (simp add: pair_key_def pair_good_def del: map_of_eq_None_iff)
  moreover have "split_custom_list_key (''customlist:'' @ l @ CHR '':'' # d) = Some (l, d)"
    unfolding split_custom_list_key_def by (rule split_pair [OF assms(4,2,3)])
  ultimately show ?thesis
    using delete_both [OF same_storeD [OF assms(1)], of "Delete_List l d" _ "''customlist:'' @ l @ '':'' @ d"
        "custom_remove (file_ops good_saves) l d f" "sql_custom_remove no_failure l d q"] t
      same_rowsD(3) [OF same_storeD(1) [OF assms(1)]]
    by (simp add: agree_def custom_remove_def sql_custom_remove_def sql_delete_def file_ops_def
        del: map_of_eq_None_iff)
qed

section \<open>The same answers to reads\<close>

lemma same_rows_tick [simp]: "same_rows f (tick q) \<longleftrightarrow> same_rows f q"
  by (simp add: same_rows_def)

lemma sql_read_answered:
  "\<not> sq_closed q \<Longrightarrow> g (sq_db q) = Some r \<Longrightarrow> sql_read no_failure g q = (tick q, r)"
  by (simp add: sql_read_def)

lemma client_cellD:
  "client_cell G k raw = Some r \<Longrightarrow> \<exists>c. client_of_json G raw = Some c \<and> cl_key c = k \<and> scan_client G r = Inr c \<and> cr_key r = k"
  by (auto simp: client_cell_def client_row_of_def split: option.splits if_split_asm)

lemma session_cellD:
  "session_cell G k raw = Some r \<Longrightarrow>
     \<exists>v. session_of_json G raw = Some v \<and> se_token v = k \<and> scan_session G r = Inr v \<and> sw_token r = k"
  by (auto simp: session_cell_def session_row_of_def split: option.splits if_split_asm)

lemma stats_cellD:
  "stats_cell k raw = Some c \<Longrightarrow>
     \<exists>r. stats_row_of_json raw = Some r \<and> sr_bucket r = snd k \<and> scan_stats_row (snd k) c = Inr r"
  by (auto simp: stats_cell_def split: option.splits if_split_asm)

lemma history_cellD:
  "history_cell G k raw = Some y \<Longrightarrow>
     \<exists>v. snapshot_of_json G raw = Some v \<and> scan_config_snapshot G (k, y) = Inr v \<and> sqlite_time G (sn_ts v) = k"
  by (auto simp: history_cell_def split: option.splits if_split_asm)

lemma client_get_agree:
  assumes "same_store G f q"
  shows "agree (f, client_get (file_ops io) G k f) (sql_client_get no_failure G k q)"
proof -
  obtain kv C where t: "db_kv (sq_db q) = Some kv" "db_clients (sq_db q) = Some C" "cl.in_step G kv C"
    by (rule match_tables [OF same_storeD(2) [OF assms]])
  note s = same_rowsD [OF same_storeD(1) [OF assms]]
  have "client_get (file_ops io) G k f = (case map_of C k of None \<Rightarrow> Inl Not_Found | Some r \<Rightarrow> scan_client G r)"
  proof (cases "map_of C k")
    case None
    then have "map_of kv (''clients:'' @ k) = None"
      using cl.missing [OF t(3), of k] by (simp add: flat_key_def del: map_of_eq_None_iff)
    with None s(1) t(1) show ?thesis by (simp add: client_get_def file_ops_def file_get_def decode_def del: map_of_eq_None_iff)
  next
    case (Some r)
    with cl.find [OF t(3), of k] obtain c raw where "map_of kv (''clients:'' @ k) = Some (c, raw)"
      "client_cell G k raw = Some r" by (auto simp: flat_key_def split: option.splits)
    with client_cellD [of G k raw r] Some s(1) t(1) show ?thesis
      by (auto simp: client_get_def file_ops_def file_get_def decode_def)
  qed
  then show ?thesis
    using s(3) t same_storeD(1) [OF assms]
    by (simp add: agree_def sql_read_answered sql_client_get_def find_row_def)
qed

lemma session_get_agree:
  assumes "same_store G f q"
  shows "agree (f, session_get (file_ops io) G k f) (sql_session_get no_failure G k q)"
proof -
  obtain kv C where t: "db_kv (sq_db q) = Some kv" "db_sessions (sq_db q) = Some C" "se.in_step G kv C"
    by (rule match_tables [OF same_storeD(2) [OF assms]])
  note s = same_rowsD [OF same_storeD(1) [OF assms]]
  have "session_get (file_ops io) G k f = (case map_of C k of None \<Rightarrow> Inl Not_Found | Some r \<Rightarrow> scan_session G r)"
  proof (cases "map_of C k")
    case None
    then have "map_of kv (''session:'' @ k) = None"
      using se.missing [OF t(3), of k] by (simp add: flat_key_def del: map_of_eq_None_iff)
    with None s(1) t(1) show ?thesis by (simp add: session_get_def file_ops_def file_get_def decode_def del: map_of_eq_None_iff)
  next
    case (Some r)
    with se.find [OF t(3), of k] obtain c raw where "map_of kv (''session:'' @ k) = Some (c, raw)"
      "session_cell G k raw = Some r" by (auto simp: flat_key_def split: option.splits)
    with session_cellD [of G k raw r] Some s(1) t(1) show ?thesis
      by (auto simp: session_get_def file_ops_def file_get_def decode_def)
  qed
  then show ?thesis
    using s(3) t same_storeD(1) [OF assms]
    by (simp add: agree_def sql_read_answered sql_session_get_def find_row_def)
qed

lemma stats_get_agree:
  assumes "same_store G f q" "CHR '':'' \<notin> set g"
  shows "agree (f, stats_get (file_ops io) g b f) (sql_stats_get no_failure g b q)"
proof -
  obtain kv T where t: "db_kv (sq_db q) = Some kv" "db_stats (sq_db q) = Some T" "st.in_step kv T"
    by (rule match_tables [OF same_storeD(2) [OF assms(1)]])
  note s = same_rowsD [OF same_storeD(1) [OF assms(1)]]
  have key: "''stats:'' @ g @ '':'' @ b = pair_key ''stats:'' (g, b)" by (simp add: pair_key_def)
  have "stats_get (file_ops io) g b f = (case map_of T (g, b) of None \<Rightarrow> Inl Not_Found | Some r \<Rightarrow> scan_stats_row b r)"
  proof (cases "map_of kv (pair_key ''stats:'' (g, b))")
    case None
    then have "map_of T (g, b) = None"
      using st.rows [OF t(3), of "(g, b)"] map_of_SomeD [of T "(g, b)"] by (cases "map_of T (g, b)") auto
    with None s(1) t(1) show ?thesis
      unfolding stats_get_def key by (simp add: file_ops_def file_get_def decode_def del: map_of_eq_None_iff)
  next
    case (Some cr)
    obtain c raw where cr: "cr = (c, raw)" by (cases cr)
    from st.row_of_raw [OF t(3) Some [unfolded cr]] obtain gb r where
      gb: "stats_good gb" "pair_key ''stats:'' (g, b) = pair_key ''stats:'' gb" "stats_cell gb raw = Some r" "(gb, r) \<in> set T"
      by (metis pair_key_def same_prefix_prefix Nil_prefix append_Nil2)
    then have eq: "gb = (g, b)"
      using assms(2) by (cases gb) (auto simp: pair_key_def stats_good_def pair_good_def pair_key_inj)
    have "map_of T (g, b) = Some r" using gb(4) st.table_ok [OF t(3)] by (simp add: eq)
    with stats_cellD [OF gb(3)] Some s(1) t(1) show ?thesis
      unfolding stats_get_def key by (auto simp: file_ops_def file_get_def decode_def eq cr)
  qed
  then show ?thesis
    using s(3) t same_storeD(1) [OF assms(1)]
    by (simp add: agree_def sql_read_answered sql_stats_get_def find_row_def)
qed

section \<open>The same lists\<close>

lemma map_result_Inr_map: "(\<And>x. x \<in> set xs \<Longrightarrow> f x = Inr (g x)) \<Longrightarrow> map_result f xs = Inr (map g xs)"
  by (induction xs) auto

lemma decode_rows_map:
  "(\<And>k. k \<in> set ks \<Longrightarrow> h (r k) = Some (v k)) \<Longrightarrow> decode_rows h (map (\<lambda>k. (kk k, r k)) ks) = Inr (map v ks)"
  by (induction ks) (auto simp: decode_rows_def decode_def)

lemma scanned:
  assumes "same_rows f q"
  shows "alist_ok (file_scan p f)"
    and "(key, raw) \<in> set (file_scan p f) \<longleftrightarrow> prefix p key \<and> (\<exists>c. map_of (kv_rows q) key = Some (c, raw))"
proof -
  have "map_of (fs_data f) key = map_option snd (map_of (kv_rows q) key)" "alist_ok (fs_data f)"
    using same_rowsD [OF assms] by (simp_all add: file_ok_def)
  then show "alist_ok (file_scan p f)"
    and "(key, raw) \<in> set (file_scan p f) \<longleftrightarrow> prefix p key \<and> (\<exists>c. map_of (kv_rows q) key = Some (c, raw))"
    using map_of_ok_iff [of "fs_data f" key raw] by (auto simp: file_scan_def)
qed

lemma sorted_by_key:
  assumes v: "\<And>k. k \<in> keys T \<Longrightarrow> h (v k) = k"
    and ks: "distinct ks" "set ks = keys T" and T: "alist_ok T"
  shows "sort_key h (map v ks) = map v (map fst (sort_key fst T))"
proof (rule map_sorted_distinct_set_unique [of h])
  have hk: "map h (map v xs) = xs" if "set xs \<subseteq> keys T" for xs
    using that v by (induction xs) auto
  have 1: "map h (map v ks) = ks" using hk [of ks] ks(2) by simp
  have 2: "map h (map v (map fst (sort_key fst T))) = map fst (sort_key fst T)"
    by (rule hk) auto
  show "set (sort_key h (map v ks)) = set (map v (map fst (sort_key fst T)))"
    using ks(2) by auto
  then show "inj_on h (set (sort_key h (map v ks)) \<union> set (map v (map fst (sort_key fst T))))"
    using v ks(2) by (auto intro!: inj_onI) (metis image_eqI fst_conv)
  show "sorted (map h (sort_key h (map v ks)))" by simp
  show "sorted (map h (map v (map fst (sort_key fst T))))" unfolding 2 by simp
  show "distinct (map h (map v (map fst (sort_key fst T))))" unfolding 2 using T by (simp add: distinct_map)
  have "distinct (map h (map v ks))" unfolding 1 by (rule ks(1))
  then show "distinct (map h (sort_key h (map v ks)))"
    by (auto simp: distinct_map intro: inj_on_imageI inj_on_imageI2)
qed

lemma client_list_agree:
  assumes "same_store G f q"
  shows "agree (f, client_list (file_ops io) G f) (sql_client_list no_failure G q)"
proof -
  obtain kv C where t: "db_kv (sq_db q) = Some kv" "db_clients (sq_db q) = Some C" "cl.in_step G kv C"
    by (rule match_tables [OF same_storeD(2) [OF assms]])
  note s = same_rowsD [OF same_storeD(1) [OF assms]]
  let ?raw = "\<lambda>k. snd (the (map_of kv (flat_key ''clients:'' k)))"
  let ?v = "\<lambda>k. the (client_of_json G (?raw k))"
  obtain ks where ks: "file_scan ''clients:'' f = map (\<lambda>k. (flat_key ''clients:'' k, ?raw k)) ks" "distinct ks"
    "set ks = {k \<in> keys C. True}"
    using cl.scan_keys [OF t(3) scanned(1) [OF same_storeD(1) [OF assms]], of "''clients:''" "''clients:''" "\<lambda>_. True"]
      scanned(2) [OF same_storeD(1) [OF assms], of _ _ "''clients:''"] t(1) by (auto simp: flat_key_def)
  have cell: "client_of_json G (?raw k) = Some (?v k) \<and> cl_key (?v k) = k \<and> scan_client G r = Inr (?v k)"
    if "(k, r) \<in> set C" for k r
    using that cl.rows [OF t(3), of k r] client_cellD [of G k _ r] by fastforce
  have dec: "client_of_json G (?raw k) = Some (?v k) \<and> cl_key (?v k) = k" if "k \<in> keys C" for k
    using cell that by force
  have "client_list (file_ops io) G f = Inr (sort_key cl_key (map ?v ks))"
    using decode_rows_map [of ks "client_of_json G" ?raw ?v "flat_key ''clients:''"] dec ks(3)
    unfolding client_list_def file_ops_def by (simp add: ks(1))
  moreover have "map_result (scan_client G) (map snd (sort_key fst C)) = Inr (map ?v (map fst (sort_key fst C)))"
  proof -
    have "list_all2 (\<lambda>r k. scan_client G r = Inr (?v k)) (map snd xs) (map fst xs)" if "set xs \<subseteq> set C" for xs
      using that cell by (induction xs) auto
    from this [of "sort_key fst C"] show ?thesis
      by (induction rule: list_all2_induct) auto
  qed
  moreover have "sort_key cl_key (map ?v ks) = map ?v (map fst (sort_key fst C))"
    using dec ks(2,3) cl.table_ok [OF t(3)] by (intro sorted_by_key) auto
  ultimately show ?thesis
    using s(3) t same_storeD(1) [OF assms] by (simp add: agree_def sql_read_answered sql_client_list_def)
qed

lemma custom_list_agree:
  assumes "same_store G f q" "CHR '':'' \<notin> set l"
  shows "agree (f, Inr (custom_list (file_ops io) l f)) (sql_custom_list no_failure l q)"
proof -
  obtain kv L where t: "db_kv (sq_db q) = Some kv" "db_lists (sq_db q) = Some L" "li.in_step kv L"
    by (rule match_tables [OF same_storeD(2) [OF assms(1)]])
  note s = same_rowsD [OF same_storeD(1) [OF assms(1)]]
  define p where "p = ''customlist:'' @ l @ '':''"
  have sel: "prefix p (pair_key ''customlist:'' k) \<longleftrightarrow> fst k = l" if "pair_good k" for k
    using that assms(2) pair_key_inj [of "fst k" l]
    by (auto simp: p_def pair_key_def pair_good_def prefix_def)
  have J: "(key, raw) \<in> set (file_scan p f) \<longleftrightarrow> prefix p key \<and> (\<exists>c. map_of kv key = Some (c, raw))" for key raw
    using scanned(2) [OF same_storeD(1) [OF assms(1)], of key raw p] t(1) by simp
  obtain ks where ks: "file_scan p f
      = map (\<lambda>k. (pair_key ''customlist:'' k, snd (the (map_of kv (pair_key ''customlist:'' k))))) ks" "distinct ks"
    "set ks = {k \<in> keys L. fst k = l}"
    by (rule li.scan_keys [OF t(3) scanned(1) [OF same_storeD(1) [OF assms(1)]] J _ sel]) (simp add: p_def)
  have trim: "map (\<lambda>k. trim_prefix p (pair_key ''customlist:'' k)) ks = map snd ks"
    using ks(3) by (intro map_cong refl) (auto simp: p_def trim_prefix_def pair_key_def)
  have "custom_list (file_ops io) l f = sort (map (\<lambda>k. trim_prefix p (pair_key ''customlist:'' k)) ks)"
    using ks(1) unfolding custom_list_def p_def [symmetric] by (simp add: file_ops_def Let_def comp_def)
  then have js: "custom_list (file_ops io) l f = sort (map snd ks)" by (simp only: trim)
  have "sort (map snd ks) = sort (map (snd \<circ> fst) (filter (\<lambda>r. fst (fst r) = l) L))"
  proof (rule sorted_distinct_set_unique)
    have "distinct (map fst (filter (\<lambda>r. fst (fst r) = l) L))"
      using li.table_ok [OF t(3)] by (simp add: distinct_map_filter)
    then have "distinct (map snd (map fst (filter (\<lambda>r. fst (fst r) = l) L)))"
      by (subst distinct_map) (auto intro!: inj_onI)
    then show "distinct (sort (map (snd \<circ> fst) (filter (\<lambda>r. fst (fst r) = l) L)))" by simp
    show "distinct (sort (map snd ks))"
      using ks(2,3) by (auto simp: distinct_map prod_eq_iff intro!: inj_onI)
    show "set (sort (map snd ks)) = set (sort (map (snd \<circ> fst) (filter (\<lambda>r. fst (fst r) = l) L)))"
      using ks(3) by (force simp: image_iff)
  qed simp_all
  with js show ?thesis
    using s(3) t same_storeD(1) [OF assms(1)] by (simp add: agree_def sql_read_answered sql_custom_list_def)
qed

definition bucket_number :: "stats_row \<Rightarrow> int" where
  "bucket_number r = the (atoi (sr_bucket r))"

lemma insert_row_sorted:
  assumes "atoi (sr_bucket r) \<noteq> None" "\<forall>x \<in> set xs. atoi (sr_bucket x) \<noteq> None"
  shows "set (insert_row r xs) = insert r (set xs)"
    and "sorted (map bucket_number xs) \<Longrightarrow> sorted (map bucket_number (insert_row r xs))"
    and "distinct (map bucket_number (r # xs)) \<Longrightarrow> distinct (map bucket_number (insert_row r xs))"
proof -
  show set: "set (insert_row r xs) = insert r (set xs)" for xs by (induction xs) auto
  show "sorted (map bucket_number xs) \<Longrightarrow> sorted (map bucket_number (insert_row r xs))"
    using assms by (induction xs) (auto simp: set bucket_less_def bucket_number_def)
  show "distinct (map bucket_number (r # xs)) \<Longrightarrow> distinct (map bucket_number (insert_row r xs))"
    by (induction xs) (auto simp: set)
qed

lemma insert_rows_sorted:
  assumes "\<forall>x \<in> set (rs @ xs). atoi (sr_bucket x) \<noteq> None"
    and "sorted (map bucket_number xs)" "distinct (map bucket_number (rs @ xs))"
  shows "set (fold insert_row rs xs) = set rs \<union> set xs \<and> sorted (map bucket_number (fold insert_row rs xs))
    \<and> distinct (map bucket_number (fold insert_row rs xs))"
  using assms
proof (induction rs arbitrary: xs)
  case (Cons r rs)
  have r: "atoi (sr_bucket r) \<noteq> None" "\<forall>x \<in> set xs. atoi (sr_bucket x) \<noteq> None"
    "distinct (map bucket_number (r # xs))" using Cons.prems by auto
  note ins = insert_row_sorted [OF r(1,2)]
  have "distinct (map bucket_number (rs @ insert_row r xs))"
    using Cons.prems(3) ins(1) ins(3) [OF r(3)] by auto
  then show ?case using Cons.IH [of "insert_row r xs"] Cons.prems(1) ins(1) ins(2) [OF Cons.prems(2)] by auto
qed simp

lemma sort_stats_rows_unique:
  assumes "\<And>k. k \<in> K \<Longrightarrow> numbered (n k) \<and> sr_bucket (v k) = n k" "inj_on n K"
    and "distinct ks" "set ks = K" "distinct ks'" "set ks' = K"
  shows "sort_stats_rows (map v ks) = sort_stats_rows (map v ks')"
proof -
  have num: "atoi (sr_bucket (v k)) \<noteq> None" "show_int (bucket_number (v k)) = n k" if "k \<in> K" for k
    using assms(1) [OF that] by (auto simp: numbered_def bucket_number_def split: option.splits)
  have inj: "inj_on (\<lambda>k. bucket_number (v k)) K"
  proof (rule inj_onI)
    fix k k' assume "k \<in> K" "k' \<in> K" "bucket_number (v k) = bucket_number (v k')"
    then show "k = k'" using num(2) [of k] num(2) [of k'] inj_onD [OF assms(2)] by simp
  qed
  have spec: "set (sort_stats_rows (map v xs)) = v ` K \<and> sorted (map bucket_number (sort_stats_rows (map v xs)))
      \<and> distinct (map bucket_number (sort_stats_rows (map v xs)))" if "distinct xs" "set xs = K" for xs
    using insert_rows_sorted [of "map v xs" "[]"] num inj that
    by (auto simp: sort_stats_rows_def distinct_map comp_def inj_on_imageI2 intro: inj_on_imageI)
  show ?thesis
  proof (rule map_sorted_distinct_set_unique [of bucket_number])
    show "inj_on bucket_number (set (sort_stats_rows (map v ks)) \<union> set (sort_stats_rows (map v ks')))"
      using spec [OF assms(3,4)] spec [OF assms(5,6)] inj by (auto intro!: inj_onI dest: inj_onD)
  qed (use spec [OF assms(3,4)] spec [OF assms(5,6)] in auto)
qed

lemma stats_list_agree:
  assumes "same_store G f q" "CHR '':'' \<notin> set g"
  shows "agree (f, stats_list (file_ops io) g f) (sql_stats_list no_failure g q)"
proof -
  obtain kv T where t: "db_kv (sq_db q) = Some kv" "db_stats (sq_db q) = Some T" "st.in_step kv T"
    by (rule match_tables [OF same_storeD(2) [OF assms(1)]])
  note s = same_rowsD [OF same_storeD(1) [OF assms(1)]]
  define p where "p = ''stats:'' @ g @ '':''"
  have sel: "prefix p (pair_key ''stats:'' k) \<longleftrightarrow> fst k = g" if "stats_good k" for k
    using that assms(2) pair_key_inj [of "fst k" g]
    by (auto simp: p_def pair_key_def stats_good_def pair_good_def prefix_def)
  have J: "(key, raw) \<in> set (file_scan p f) \<longleftrightarrow> prefix p key \<and> (\<exists>c. map_of kv key = Some (c, raw))" for key raw
    using scanned(2) [OF same_storeD(1) [OF assms(1)], of key raw p] t(1) by simp
  let ?raw = "\<lambda>k. snd (the (map_of kv (pair_key ''stats:'' k)))"
  let ?v = "\<lambda>k. the (stats_row_of_json (?raw k))"
  obtain ks where ks: "file_scan p f = map (\<lambda>k. (pair_key ''stats:'' k, ?raw k)) ks" "distinct ks"
    "set ks = {k \<in> keys T. fst k = g}" "\<forall>k \<in> set ks. stats_good k"
    by (rule st.scan_keys [OF t(3) scanned(1) [OF same_storeD(1) [OF assms(1)]] J _ sel]) (simp_all add: p_def)
  have cell: "stats_good k \<and> stats_row_of_json (?raw k) = Some (?v k) \<and> sr_bucket (?v k) = snd k
      \<and> scan_stats_row (snd k) c = Inr (?v k)" if "(k, c) \<in> set T" for k c
    using that st.rows [OF t(3), of k c] stats_cellD [of k _ c] by fastforce
  have dec: "stats_good k \<and> stats_row_of_json (?raw k) = Some (?v k) \<and> sr_bucket (?v k) = snd k" if "k \<in> keys T" for k
    using cell that by force
  let ?ks' = "map fst (filter (\<lambda>r. fst (fst r) = g) T)"
  have "stats_list (file_ops io) g f = Inr (sort_stats_rows (map ?v ks))"
    using decode_rows_map [of ks stats_row_of_json ?raw ?v "pair_key ''stats:''"] dec ks(3)
    unfolding stats_list_def p_def [symmetric] file_ops_def sort_stats_rows_def by (simp add: ks(1))
  moreover have "map_result (\<lambda>((g, b), counters). scan_stats_row b counters) (filter (\<lambda>r. fst (fst r) = g) T)
      = Inr (map ?v ?ks')"
    using map_result_Inr_map [of "filter (\<lambda>r. fst (fst r) = g) T" "\<lambda>((g, b), counters). scan_stats_row b counters"
        "?v \<circ> fst"] cell by (force simp: comp_def)
  moreover have "sort_stats_rows (map ?v ks) = sort_stats_rows (map ?v ?ks')"
  proof (rule sort_stats_rows_unique [of "{k \<in> keys T. fst k = g}" snd])
    show "numbered (snd k) \<and> sr_bucket (?v k) = snd k" if "k \<in> {k \<in> keys T. fst k = g}" for k
      using dec [of k] that by (simp add: stats_good_def)
    show "inj_on snd {k \<in> keys T. fst k = g}" by (auto intro!: inj_onI)
    show "distinct ?ks'" using st.table_ok [OF t(3)] by (simp add: distinct_map_filter)
    show "set ?ks' = {k \<in> keys T. fst k = g}" by auto
  qed (use ks in auto)
  ultimately show ?thesis
    using s(3) t same_storeD(1) [OF assms(1)] by (simp add: agree_def sql_read_answered sql_stats_list_def)
qed

lemma history_list_agree:
  assumes "same_store G f q" "n \<le> 0"
  shows "agree (f, as_set (history_list (file_ops io) G n f)) (map_prod id as_set (sql_history_list no_failure G n q))"
proof -
  obtain kv H where t: "db_kv (sq_db q) = Some kv" "db_history (sq_db q) = Some H" "hi.in_step G kv H"
    by (rule match_tables [OF same_storeD(2) [OF assms(1)]])
  note s = same_rowsD [OF same_storeD(1) [OF assms(1)]]
  let ?raw = "\<lambda>k. snd (the (map_of kv (flat_key ''confhist:'' k)))"
  let ?v = "\<lambda>k. the (snapshot_of_json G (?raw k))"
  have J: "(key, raw) \<in> set (file_scan ''confhist:'' f) \<longleftrightarrow>
      prefix ''confhist:'' key \<and> (\<exists>c. map_of kv key = Some (c, raw))" for key raw
    using scanned(2) [OF same_storeD(1) [OF assms(1)], of key raw "''confhist:''"] t(1) by simp
  obtain ks where ks: "file_scan ''confhist:'' f = map (\<lambda>k. (flat_key ''confhist:'' k, ?raw k)) ks" "distinct ks"
    "set ks = {k \<in> keys H. True}"
    by (rule hi.scan_keys [OF t(3) scanned(1) [OF same_storeD(1) [OF assms(1)]] J, of "\<lambda>_. True"])
      (simp_all add: flat_key_def)
  have cell: "snapshot_of_json G (?raw k) = Some (?v k) \<and> scan_config_snapshot G (k, y) = Inr (?v k)"
    if "(k, y) \<in> set H" for k y
    using that hi.rows [OF t(3), of k y] history_cellD [of G k _ y] by fastforce
  have dec: "snapshot_of_json G (?raw k) = Some (?v k)" if "k \<in> keys H" for k
    using cell that by force
  have "history_list (file_ops io) G n f = Inr (sort_key (\<lambda>v. - sn_ts v) (map ?v ks))"
    using decode_rows_map [of ks "snapshot_of_json G" ?raw ?v "flat_key ''confhist:''"] dec ks(3) assms(2)
    unfolding history_list_def file_ops_def by (simp add: ks(1))
  moreover have "map_result (scan_config_snapshot G) (rev (sort_key fst H)) = Inr (map (?v \<circ> fst) (rev (sort_key fst H)))"
    using cell by (intro map_result_Inr_map) auto
  ultimately show ?thesis
    using s(3) t same_storeD(1) [OF assms(1)] assms(2) ks(3)
    by (auto simp: agree_def sql_read_answered sql_history_list_def as_set_def Let_def image_image)
qed

section \<open>The same purge\<close>

lemma file_purge_returns:
  assumes "\<forall>(k, raw) \<in> set rows. session_of_json G raw \<noteq> None" "\<not> fs_closed f"
  shows "\<exists>f'. delete_expired_rows (file_ops good_saves) G now rows f = (f', None) \<and> \<not> fs_closed f'"
  using assms
proof (induction rows arbitrary: f)
  case (Cons row rows)
  obtain key raw where row: "row = (key, raw)" by (cases row)
  obtain v where v: "session_of_json G raw = Some v" using Cons.prems(1) by (auto simp: row)
  have del: "\<exists>f'. file_delete good_saves key f = (f', if map_of (fs_data f) key = None then Some Not_Found else None)
      \<and> \<not> fs_closed f'"
    using Cons.prems(2) by (simp add: file_delete_def save_locked_def Let_def del: map_of_eq_None_iff)
  have rest: "\<exists>f'. delete_expired_rows (file_ops good_saves) G now rows g = (f', None) \<and> \<not> fs_closed f'"
    if "\<not> fs_closed g" for g
    using Cons.IH [OF _ that] Cons.prems(1) by simp
  show ?case
    using del rest [OF Cons.prems(2)] rest v
    by (cases "map_of (fs_data f) key = None")
      (auto simp: row file_ops_def simp del: map_of_eq_None_iff split: prod.split option.split)
qed simp

lemma purge_kv:
  assumes "tables_match G db"
  shows "\<exists>db' ns. exec_stmts (concat (map (\<lambda>t. [Delete_Session t, Delete_Kv (flat_key ''session:'' t)]) tokens)) db = Some (db', ns)
    \<and> (\<forall>key. map_of (rows_of (db_kv db')) key =
         (if key \<in> flat_key ''session:'' ` set tokens then None else map_of (rows_of (db_kv db)) key))"
  using assms
proof (induction tokens arbitrary: db)
  case (Cons t tokens)
  obtain kv S where kv: "db_kv db = Some kv" "db_sessions db = Some S" by (rule match_tables [OF Cons.prems])
  let ?db = "db\<lparr>db_sessions := Some (AList.delete t S), db_kv := Some (AList.delete (flat_key ''session:'' t) kv)\<rparr>"
  have "transaction [Delete_Session t, Delete_Kv (flat_key ''session:'' t)] db ?db"
    using kv by (simp add: transaction_def)
  from Cons.IH [OF delete_session_match [OF Cons.prems this]] obtain db' ns where
    "exec_stmts (concat (map (\<lambda>t. [Delete_Session t, Delete_Kv (flat_key ''session:'' t)]) tokens)) ?db = Some (db', ns)"
    "\<forall>key. map_of (rows_of (db_kv db')) key =
       (if key \<in> flat_key ''session:'' ` set tokens then None else map_of (rows_of (db_kv ?db)) key)" by blast
  then show ?case using kv by simp
qed simp

lemma expired_tokens_spec:
  assumes "\<And>t r. (t, r) \<in> set S \<Longrightarrow> sw_token r = t \<and> (\<exists>v. scan_session G r = Inr v)"
  shows "\<exists>tokens. expired_tokens G now S = Inr tokens \<and>
    set tokens = {t. \<exists>r v. (t, r) \<in> set S \<and> scan_session G r = Inr v \<and> se_expires_at v \<noteq> 0 \<and> se_expires_at v < now}"
proof -
  let ?time = "\<lambda>r. case parse_sqlite_time G (sw_expires_at r) of Inr t \<Rightarrow> t | Inl e \<Rightarrow> 0"
  have time: "parse_sqlite_time G (sw_expires_at r) = Inr (?time r) \<and> (scan_session G r = Inr v \<longrightarrow> se_expires_at v = ?time r)"
    if "(t, r) \<in> set S" for t r v
    using assms [OF that] by (auto simp: scan_session_def split: sum.splits)
  have zero: "?time r = 0" if "sw_expires_at r = []" for r using that by (simp add: parse_sqlite_time_def)
  have "map_result (\<lambda>(token, r). case parse_sqlite_time G (sw_expires_at r) of
            Inl e \<Rightarrow> Inl e | Inr t \<Rightarrow> Inr (token, \<not> time_is_zero t \<and> t < now))
          (filter (\<lambda>(token, r). sw_expires_at r \<noteq> []) S)
      = Inr (map (\<lambda>(token, r). (token, \<not> time_is_zero (?time r) \<and> ?time r < now))
               (filter (\<lambda>(token, r). sw_expires_at r \<noteq> []) S))"
  proof (rule map_result_Inr_map)
    fix x assume "x \<in> set (filter (\<lambda>(token, r). sw_expires_at r \<noteq> []) S)"
    then have "x \<in> set S" by simp
    then obtain t r where x: "x = (t, r)" "(t, r) \<in> set S" by (metis surj_pair)
    with time [of t r] obtain u where "parse_sqlite_time G (sw_expires_at r) = Inr u" by blast
    then show "(case x of (token, r) \<Rightarrow> case parse_sqlite_time G (sw_expires_at r) of
          Inl e \<Rightarrow> Inl e | Inr t \<Rightarrow> Inr (token, \<not> time_is_zero t \<and> t < now))
        = Inr (case x of (token, r) \<Rightarrow> (token, \<not> time_is_zero (?time r) \<and> ?time r < now))"
      by (simp add: x(1))
  qed
  then have "expired_tokens G now S = Inr (map fst (filter snd
      (map (\<lambda>(token, r). (token, \<not> time_is_zero (?time r) \<and> ?time r < now))
        (filter (\<lambda>(token, r). sw_expires_at r \<noteq> []) S))))" (is "_ = Inr ?tokens")
    by (simp add: expired_tokens_def)
  moreover have "t \<in> set ?tokens \<longleftrightarrow>
      (\<exists>r v. (t, r) \<in> set S \<and> scan_session G r = Inr v \<and> se_expires_at v \<noteq> 0 \<and> se_expires_at v < now)" for t
  proof -
    have "t \<in> set ?tokens \<longleftrightarrow> (\<exists>r. (t, r) \<in> set S \<and> ?time r \<noteq> 0 \<and> ?time r < now)"
      using zero by (force simp: time_is_zero_def)
    also have "\<dots> \<longleftrightarrow> (\<exists>r v. (t, r) \<in> set S \<and> scan_session G r = Inr v \<and> se_expires_at v \<noteq> 0 \<and> se_expires_at v < now)"
      using time assms by metis
    finally show ?thesis .
  qed
  ultimately show ?thesis by blast
qed

lemma sql_delete_expired_flat:
  "sql_delete_expired io G now s =
     (case sql_read io (\<lambda>db. map_option (expired_tokens G now) (db_sessions db)) s of
        (s, Inl e) \<Rightarrow> (s, Some e)
      | (s, Inr tokens) \<Rightarrow>
          sql_tx io (concat (map (\<lambda>t. [Delete_Session t, Delete_Kv (flat_key ''session:'' t)]) tokens)) s)"
  unfolding sql_delete_expired_def flat_key_def by (rule refl)

lemma purge_agree:
  assumes "same_store G f q"
  shows "agree (delete_expired (file_ops good_saves) G now f) (sql_delete_expired no_failure G now q)"
proof -
  obtain kv S where t: "db_kv (sq_db q) = Some kv" "db_sessions (sq_db q) = Some S" "se.in_step G kv S"
    by (rule match_tables [OF same_storeD(2) [OF assms]])
  note same = same_storeD(1) [OF assms]
  note s = same_rowsD [OF same]
  note J = scanned(2) [OF same, of _ _ "''session:''"]
  have row: "\<exists>k r v. key = flat_key ''session:'' k \<and> (k, r) \<in> set S \<and> session_of_json G raw = Some v \<and> scan_session G r = Inr v"
    if "(key, raw) \<in> set (file_scan ''session:'' f)" for key raw
  proof -
    from that J t(1) obtain c where c: "map_of kv key = Some (c, raw)" "prefix ''session:'' key" by auto
    obtain k r where "key = flat_key ''session:'' k" "session_cell G k raw = Some r" "(k, r) \<in> set S"
      by (rule se.row_of_raw [OF t(3) c])
    with session_cellD [of G k raw r] show ?thesis by blast
  qed
  then have dec: "\<forall>(k, raw) \<in> set (file_scan ''session:'' f). session_of_json G raw \<noteq> None" by fast
  obtain f' where f': "delete_expired_rows (file_ops good_saves) G now (file_scan ''session:'' f) f = (f', None)"
    "\<not> fs_closed f'" using file_purge_returns [OF dec s(2)] by blast
  note fv = fkv.delete_expired_rows_done [OF f'(1) s(4)]
  have sq: "sw_token r = k \<and> (\<exists>v. scan_session G r = Inr v)" if "(k, r) \<in> set S" for k r
    using that se.rows [OF t(3), of k r] session_cellD by blast
  obtain tokens where tokens: "expired_tokens G now S = Inr tokens"
    "set tokens = {t. \<exists>r v. (t, r) \<in> set S \<and> scan_session G r = Inr v \<and> se_expires_at v \<noteq> 0 \<and> se_expires_at v < now}"
    using expired_tokens_spec [of S G now] sq by blast
  obtain db' ns where db': "exec_stmts (concat (map (\<lambda>t. [Delete_Session t, Delete_Kv (flat_key ''session:'' t)]) tokens)) (sq_db q)
      = Some (db', ns)"
    "\<forall>key. map_of (rows_of (db_kv db')) key = (if key \<in> flat_key ''session:'' ` set tokens then None else map_of kv key)"
    using purge_kv [OF same_storeD(2) [OF assms], of tokens] t(1) by auto
  have gone: "(\<exists>raw. (key, raw) \<in> set (file_scan ''session:'' f) \<and> expired_row G now raw) \<longleftrightarrow> key \<in> flat_key ''session:'' ` set tokens"
    for key
  proof
    assume "\<exists>raw. (key, raw) \<in> set (file_scan ''session:'' f) \<and> expired_row G now raw"
    with row show "key \<in> flat_key ''session:'' ` set tokens"
      unfolding tokens(2) by (fastforce simp: expired_row_def time_is_zero_def)
  next
    assume "key \<in> flat_key ''session:'' ` set tokens"
    then obtain k r v where k: "key = flat_key ''session:'' k" "(k, r) \<in> set S" "scan_session G r = Inr v"
      "se_expires_at v \<noteq> 0" "se_expires_at v < now" unfolding tokens(2) by blast
    from k(2) se.rows [OF t(3), of k r] obtain c raw where
      "map_of kv (flat_key ''session:'' k) = Some (c, raw)" "session_cell G k raw = Some r" by auto
    with session_cellD [of G k raw r] k J [of key raw] t(1)
    show "\<exists>raw. (key, raw) \<in> set (file_scan ''session:'' f) \<and> expired_row G now raw"
      by (auto simp: expired_row_def time_is_zero_def flat_key_def)
  qed
  have "map_of (fs_data f') key = map_option snd (map_of (rows_of (db_kv db')) key)" for key
    using s(1) [of key] t(1)
    unfolding fv [THEN conjunct2, THEN conjunct2, rule_format] gone db'(2) [rule_format] by simp
  moreover have "file_ok f'" using fv by blast
  ultimately have "same_rows f' (q\<lparr>sq_db := db', sq_calls := n\<rparr>)" for n
    using f'(2) s(3) by (simp add: same_rows_def)
  moreover have "sql_read no_failure (\<lambda>db. map_option (expired_tokens G now) (db_sessions db)) q = (tick q, Inr tokens)"
    using s(3) t(2) tokens(1) by (simp add: sql_read_answered)
  moreover have "exec_stmts (concat (map (\<lambda>t. [Delete_Session t, Delete_Kv (flat_key ''session:'' t)]) tokens))
      (sq_db (tick q)) = Some (db', ns)" using db'(1) by simp
  note sql_tx_answered [OF this]
  ultimately show ?thesis
    using f'(1) unfolding sql_delete_expired_flat delete_expired_def
    by (simp add: agree_def file_ops_def tick_def)
qed

section \<open>Histories\<close>

lemma step_agree:
  assumes G: "g_parse_time G [] = None" and same: "same_store G f q" and fits: "op_fits G op"
  shows "snd (file_step good_saves G op f) = snd (sql_step no_failure G op q)"
    and "same_store G (fst (file_step good_saves G op f)) (fst (sql_step no_failure G op q))"
proof -
  have "agree (file_step good_saves G op f) (sql_step no_failure G op q)"
  proof (cases op)
    case (Client_Get k)
    then show ?thesis using agree_reply [OF client_get_agree [OF same, of good_saves k], of R_Client] by simp
  next
    case Client_List
    then show ?thesis using agree_reply [OF client_list_agree [OF same, of good_saves], of R_Clients] by simp
  next
    case (List_List l)
    then show ?thesis
      using agree_reply [OF custom_list_agree [OF same, of l good_saves], of R_Names] fits by simp
  next
    case (Session_Get t)
    then show ?thesis using agree_reply [OF session_get_agree [OF same, of good_saves t], of R_Session] by simp
  next
    case (Stats_Get g b)
    then show ?thesis using agree_reply [OF stats_get_agree [OF same, of g good_saves b], of R_Row] fits by simp
  next
    case (Stats_List g)
    then show ?thesis using agree_reply [OF stats_list_agree [OF same, of g good_saves], of R_Rows] fits by simp
  next
    case (History_List n)
    then show ?thesis
      using agree_reply [OF history_list_agree [OF same, of n good_saves], of R_History] fits
      by (simp add: prod.map_comp comp_def id_def)
  next
    case (List_Remove l d)
    then show ?thesis using agree_reply [OF custom_remove_agree [OF same, of l d], of R_Error] fits by simp
  next
    case (Client_Upsert c)
    then show ?thesis using agree_reply [OF client_upsert_agree [OF same, of c], of R_Error] by simp
  next
    case (Client_Delete k)
    then show ?thesis using agree_reply [OF client_delete_agree [OF same, of k], of R_Error] by simp
  next
    case (List_Add l d)
    then show ?thesis using agree_reply [OF custom_add_agree [OF same, of l d], of R_Error] by simp
  next
    case (Session_Upsert v)
    then show ?thesis using agree_reply [OF session_upsert_agree [OF same, of v], of R_Error] by simp
  next
    case (Session_Delete t)
    then show ?thesis using agree_reply [OF session_delete_agree [OF same, of t], of R_Error] by simp
  next
    case (Session_Purge now)
    then show ?thesis using agree_reply [OF purge_agree [OF same, of now], of R_Error] by simp
  next
    case (Stats_Put g b r)
    then show ?thesis using agree_reply [OF stats_put_agree [OF same, of g b r], of R_Error] by simp
  next
    case (History_Append now v)
    then show ?thesis using agree_reply [OF history_append_agree [OF same, of now v], of R_Error] by simp
  qed
  then show "snd (file_step good_saves G op f) = snd (sql_step no_failure G op q)"
    and "same_store G (fst (file_step good_saves G op f)) (fst (sql_step no_failure G op q))"
    using sql_step_match [OF G same_storeD(2) [OF same] fits] by (simp_all add: agree_def same_store_def)
qed

lemma run_ops_Cons:
  "run_ops step (op # ops) s =
     (fst (run_ops step ops (fst (step op s))), snd (step op s) # snd (run_ops step ops (fst (step op s))))"
  by (simp split: prod.split)

lemma run_match:
  assumes "g_parse_time G [] = None" "tables_match G (sq_db s)" "\<forall>op \<in> set ops. op_fits G op"
  shows "tables_match G (sq_db (fst (run_ops (sql_step io G) ops s)))"
  using assms(2,3)
proof (induction ops arbitrary: s)
  case (Cons op ops)
  have "tables_match G (sq_db (fst (sql_step io G op s)))"
    using sql_step_match [OF assms(1) Cons.prems(1)] Cons.prems(2) by simp
  from Cons.IH [OF this] Cons.prems(2) show ?case unfolding run_ops_Cons by simp
qed simp

lemma run_agree:
  assumes "g_parse_time G [] = None" "same_store G f q" "\<forall>op \<in> set ops. op_fits G op"
  shows "snd (run_ops (file_step good_saves G) ops f) = snd (run_ops (sql_step no_failure G) ops q)
    \<and> same_store G (fst (run_ops (file_step good_saves G) ops f)) (fst (run_ops (sql_step no_failure G) ops q))"
  using assms(2,3)
proof (induction ops arbitrary: f q)
  case (Cons op ops)
  have fits: "op_fits G op" "\<forall>op \<in> set ops. op_fits G op" using Cons.prems(2) by simp_all
  from Cons.IH [OF step_agree(2) [OF assms(1) Cons.prems(1) fits(1)] fits(2)]
    step_agree(1) [OF assms(1) Cons.prems(1) fits(1)]
  show ?case unfolding run_ops_Cons by simp
qed simp

text \<open>A newly created database: what \<open>OpenSQLite\<close> leaves in a file that did not exist.\<close>

definition new_db :: sql_db where
  "new_db = \<lparr>db_kv = Some [(''store_meta:schema_version'', ''store_meta'', JNum 7)], db_collection = True,
     db_clients = Some [], db_sessions = Some [], db_lists = Some [], db_stats = Some [], db_history = Some []\<rparr>"

lemma open_new: "snd (open_sqlite no_failure G None None) = None \<and> sq_db (fst (open_sqlite no_failure G None None)) = new_db"
  by code_simp

lemma new_db_match: "tables_match G new_db"
proof -
  have c: "collection_name ''store_meta:schema_version'' = ''store_meta''" by code_simp
  have "labelled [(''store_meta:schema_version'', ''store_meta'', JNum 7)]" unfolding labelled_def using c by simp
  then show ?thesis
    unfolding tables_match_def new_db_def
    by (auto simp: mirrors_def Let_def flat_key_def pair_key_def)
qed

definition new_file_store :: file_store where
  "new_file_store = \<lparr>fs_data = [(''store_meta:schema_version'', JNum 7)], fs_closed = False,
     fs_disk = Some [(''store_meta:schema_version'', JNum 7)], fs_saves = 7\<rparr>"

lemma open_new_file: "open_file_store good_saves None = Inr new_file_store"
  by code_simp

lemma new_same:
  assumes "open_file_store good_saves None = Inr f" "open_sqlite no_failure G None None = (q, None)"
  shows "same_store G f q"
proof -
  have "f = new_file_store" using assms(1) open_new_file by simp
  moreover have "sq_db q = new_db" using open_new [of G] assms(2) by simp
  moreover have "\<not> sq_closed q"
  proof -
    have "\<not> sq_closed (fst (open_sqlite no_failure G None None))" by code_simp
    with assms(2) show ?thesis by simp
  qed
  ultimately show ?thesis
    using new_db_match [of G] by (simp add: same_store_def same_rows_def new_file_store_def file_ok_def new_db_def)
qed

section \<open>Properties\<close>


definition sample_ops :: "store_op list" where
  "sample_ops = [Client_Upsert (Some laptop), List_Add ''custom'' ''ads.example'', Client_Delete ''other'',
     Client_Get ''aa:bb:cc:dd:ee:ff'', List_List ''custom'', Client_List]"


text \<open>C13: Whatever the SQLite driver answers, failures before, during and after a transaction included,
  every typed table keeps holding exactly the rows of its collection in the key-value table, each
  decoding to the record stored there, so that an export of the key-value table loses nothing and
  a read of the typed table shows nothing else.\<close>

theorem sqlite_tables_match:
  assumes "g_parse_time G [] = None" "open_sqlite (\<lambda>_. Answered) G None None = (q, None)"
    and "\<forall>op \<in> set ops. op_fits G op"
  shows "tables_match G (sq_db (fst (run_ops (sql_step io G) ops q)))"
proof -
  have "sq_db q = new_db" using open_new [of G] assms(2) by simp
  then show ?thesis using run_match [OF assms(1) _ assms(3)] new_db_match by simp
qed

theorem sqlite_tables_match_witness:
  "\<exists>q. open_sqlite (\<lambda>_. Answered) ascii_lib None None = (q, None)
     \<and> tables_match ascii_lib (sq_db (fst (run_ops (sql_step (\<lambda>_. Late ''disk'') ascii_lib) sample_ops q)))"
proof -
  obtain q where q: "open_sqlite (\<lambda>_. Answered) ascii_lib None None = (q, None)"
    using open_new [of ascii_lib] by (metis prod.collapse)
  have "g_parse_time ascii_lib [] = None" by code_simp
  moreover have "\<forall>op \<in> set sample_ops. op_fits ascii_lib op"
    using laptop_fits by (simp add: sample_ops_def)
  ultimately show ?thesis using sqlite_tables_match [OF _ q] q by blast
qed

end
