(* ===== verification/Sqlite_Open.thy ===== *)
theory Sqlite_Open
  imports Store_Backends
begin

text \<open>
  Opening an existing database (\<open>OpenSQLite\<close>, \<open>runMigrations\<close>, the \<open>ensure\<close> functions of \<open>sqlite.go\<close>):
  whatever schema version it has, afterwards every typed table holds the records of its
  collection.  The locale \<open>backfilled\<close> extends \<open>mirrored\<close> by the statements of one \<open>ensure\<close> function
  and is interpreted on the five of them.
\<close>

section \<open>Keys of a collection\<close>

lemma key_range_prefix: "key_range p k \<Longrightarrow> prefix p k"
proof (induction p arbitrary: k)
  case (Cons c p)
  then obtain d k' where k: "k = d # k'" by (cases k) (auto simp: key_range_def)
  with Cons.prems have "c = d" "key_range p k'" by (auto simp: key_range_def)
  with Cons.IH k show ?case by simp
qed (simp add: key_range_def)

lemma prefix_collection: "CHR '':'' \<notin> set c \<Longrightarrow> c \<noteq> [] \<Longrightarrow> prefix (c @ '':'') key \<Longrightarrow> collection_name key = c"
  by (auto simp: prefix_def collection_of_key)

lemma collection_prefix: "collection_name key = c \<Longrightarrow> c \<noteq> ''unknown'' \<Longrightarrow> prefix (c @ '':'') key"
proof -
  assume c: "collection_name key = c" "c \<noteq> ''unknown''"
  then have "CHR '':'' \<in> set key" by (auto simp: collection_name_def cut_def Let_def split: if_split_asm)
  then obtain ys zs where key: "key = ys @ CHR '':'' # zs" "CHR '':'' \<notin> set ys" using split_list_first by metis
  with c have "c = ys" by (auto simp: collection_name_def cut_append split: if_split_asm)
  then show ?thesis by (simp add: key(1))
qed

lemma split_keyD: "split_key p key = Some k \<Longrightarrow> key = pair_key p k \<and> pair_good k"
proof -
  assume s: "split_key p key = Some k"
  obtain rest where key: "key = p @ rest" using s by (auto simp: split_key_def prefix_def split: if_split_asm)
  with s have "CHR '':'' \<in> set rest" and k: "k = (takeWhile (\<lambda>x. x \<noteq> CHR '':'') rest, tl (dropWhile (\<lambda>x. x \<noteq> CHR '':'') rest))"
    and ne: "fst k \<noteq> []" "snd k \<noteq> []"
    by (auto simp: split_key_def cut_def split: if_split_asm)
  have "rest = takeWhile (\<lambda>x. x \<noteq> CHR '':'') rest @ dropWhile (\<lambda>x. x \<noteq> CHR '':'') rest" by simp
  also have "dropWhile (\<lambda>x. x \<noteq> CHR '':'') rest = CHR '':'' # tl (dropWhile (\<lambda>x. x \<noteq> CHR '':'') rest)"
    using \<open>CHR '':'' \<in> set rest\<close> hd_dropWhile [of "\<lambda>x. x \<noteq> CHR '':''" rest]
    by (cases "dropWhile (\<lambda>x. x \<noteq> CHR '':'') rest") (auto simp: dropWhile_eq_Nil_conv)
  finally have "rest = fst k @ CHR '':'' # snd k" by (simp add: k)
  moreover have "CHR '':'' \<notin> set (fst k)" by (auto simp: k dest: set_takeWhileD)
  ultimately show ?thesis using ne key by (simp add: pair_key_def pair_good_def)
qed

lemma split_pair_key: "pair_good k \<Longrightarrow> split_key p (pair_key p k) = Some k"
  using split_pair [of "fst k" "snd k" p] by (simp add: pair_key_def pair_good_def)

lemma list_all2_leftD: "list_all2 P xs ys \<Longrightarrow> x \<in> set xs \<Longrightarrow> \<exists>y \<in> set ys. P x y"
  by (induction rule: list_all2_induct) auto

section \<open>One \<open>ensure\<close> function\<close>

lemma sql_execs_answered:
  "exec_stmts sts (sq_db s) = Some (db, ns) \<Longrightarrow>
     sql_execs no_failure sts s = (s\<lparr>sq_db := db, sq_calls := sq_calls s + length sts\<rparr>, None)"
proof (induction sts arbitrary: s ns)
  case (Cons st sts)
  then show ?case by (auto simp: sql_exec_answered tick_def split: option.splits)
qed simp

definition sub_rows ::
  "('k \<Rightarrow> string) \<Rightarrow> ('k \<Rightarrow> bool) \<Rightarrow> ('k \<Rightarrow> json \<Rightarrow> 'r option)
     \<Rightarrow> (string, string \<times> json) alist \<Rightarrow> ('k, 'r) alist \<Rightarrow> bool" where
  "sub_rows kk good row kv T \<longleftrightarrow>
     alist_ok T \<and> (\<forall>(k, r) \<in> set T. good k \<and> (\<exists>c raw. map_of kv (kk k) = Some (c, raw) \<and> row k raw = Some r))"

locale backfilled = mirrored p kk good row
  for p :: string and kk :: "'k \<Rightarrow> string" and good :: "'k \<Rightarrow> bool" and row :: "'k \<Rightarrow> json \<Rightarrow> 'r option" +
  fixes coll :: string
    and rows_in :: "sql_db \<Rightarrow> ('k, 'r) alist option"
    and set_rows :: "('k, 'r) alist \<Rightarrow> sql_db \<Rightarrow> sql_db"
    and put :: "'k \<Rightarrow> 'r \<Rightarrow> sql_stmt"
    and create :: "sql_stmt list"
    and pending :: "string \<Rightarrow> json \<Rightarrow> store_error + sql_stmt list"
  assumes p: "p = coll @ '':''" "CHR '':'' \<notin> set coll" "coll \<noteq> []" "coll \<noteq> ''unknown''"
    and exec_create: "\<exists>ns. exec_stmts create db = Some (set_rows (rows_of (rows_in db)) db, ns)"
    and exec_put: "good k \<Longrightarrow> row k raw = Some r \<Longrightarrow>
      \<exists>n. exec_stmt (put k r) (set_rows T db) = Some (set_rows (AList.update k r T) db, n)"
    and set_kv: "db_kv (set_rows T db) = db_kv db" "db_collection (set_rows T db) = db_collection db"
    and pending_put: "good k \<Longrightarrow> row k raw = Some r \<Longrightarrow> pending (kk k) raw = Inr [put k r]"
begin

definition fits :: "(string, string \<times> json) alist \<Rightarrow> bool" where
  "fits kv \<longleftrightarrow> (\<forall>key c raw. map_of kv key = Some (c, raw) \<longrightarrow> prefix p key \<longrightarrow>
     (\<exists>k r. good k \<and> key = kk k \<and> row k raw = Some r))"

lemma step_fits: "in_step kv T \<Longrightarrow> fits kv"
  unfolding fits_def by (blast elim: row_of_raw)

lemma step_sub: "in_step kv T \<Longrightarrow> sub_rows kk good row kv T"
  unfolding sub_rows_def using rows table_ok by blast

lemma exec_puts:
  assumes "\<forall>(k, r) \<in> set krs. good k \<and> (\<exists>raw. row k raw = Some r)"
  shows "\<exists>ns. exec_stmts (map (\<lambda>(k, r). put k r) krs) (set_rows T db)
    = Some (set_rows (fold (\<lambda>(k, r). AList.update k r) krs T) db, ns)"
  using assms
proof (induction krs arbitrary: T)
  case (Cons kr krs)
  obtain k r where kr: "kr = (k, r)" by (cases kr)
  from Cons.prems obtain raw where "good k" "row k raw = Some r" by (auto simp: kr)
  then obtain n where n: "exec_stmt (put k r) (set_rows T db) = Some (set_rows (AList.update k r T) db, n)"
    using exec_put by blast
  show ?case using n Cons.IH [of "AList.update k r T"] Cons.prems by (auto simp: kr)
qed simp

lemma puts_sub:
  assumes "sub_rows kk good row kv T"
    and "\<forall>(k, r) \<in> set krs. good k \<and> (\<exists>c raw. map_of kv (kk k) = Some (c, raw) \<and> row k raw = Some r)"
  shows "sub_rows kk good row kv (fold (\<lambda>(k, r). AList.update k r) krs T)
    \<and> keys T \<union> fst ` set krs \<subseteq> keys (fold (\<lambda>(k, r). AList.update k r) krs T)"
  using assms
proof (induction krs arbitrary: T)
  case (Cons kr krs)
  obtain k r where kr: "kr = (k, r)" by (cases kr)
  have "sub_rows kk good row kv (AList.update k r T)"
    using Cons.prems unfolding sub_rows_def kr by (auto dest!: in_set_update)
  then show ?case using Cons.IH [of "AList.update k r T"] Cons.prems(2) by (auto simp: kr)
qed simp

lemma sub_complete:
  assumes "sub_rows kk good row kv T" "fits kv" "\<And>key c raw k. map_of kv key = Some (c, raw) \<Longrightarrow> good k \<Longrightarrow> key = kk k \<Longrightarrow> k \<in> keys T"
  shows "in_step kv T"
  unfolding mirrors_def
proof (intro conjI allI impI)
  show "alist_ok T" using assms(1) by (simp add: sub_rows_def)
  show "map_of T k = (if good k then case map_of kv (kk k) of None \<Rightarrow> None | Some (c, raw) \<Rightarrow> row k raw else None)" for k
  proof (cases "map_of T k")
    case None
    then show ?thesis using assms(3) [of "kk k" _ _ k] by (auto simp: map_of_eq_None_iff split: option.splits)
  next
    case (Some r)
    then have "(k, r) \<in> set T" by (rule map_of_SomeD)
    with assms(1) Some show ?thesis unfolding sub_rows_def by (force split: option.splits)
  qed
  show "\<exists>k. good k \<and> key = kk k \<and> row k raw \<noteq> None" if "map_of kv key = Some (c, raw)" "prefix p key" for key c raw
    using assms(2) that unfolding fits_def by blast
qed

abbreviation selected :: "(string, string \<times> json) alist \<Rightarrow> (string, string \<times> json) alist" where
  "selected \<equiv> filter (\<lambda>(k, c, v). c = coll \<or> key_range (coll @ '':'') k)"

lemma in_selected:
  assumes "alist_ok kv" "labelled kv"
  shows "(key, c, raw) \<in> set (selected kv) \<longleftrightarrow> map_of kv key = Some (c, raw) \<and> prefix p key"
proof -
  have "c = coll \<or> key_range p key \<longleftrightarrow> prefix p key" if "(key, c, raw) \<in> set kv"
  proof -
    have "c = collection_name key" using that assms(2) by (auto simp: labelled_def)
    then show ?thesis
      using key_range_prefix [of p key] prefix_collection [of coll key] collection_prefix [of key coll] p by auto
  qed
  then show ?thesis using assms(1) p(1) by auto
qed

lemma pending_rows:
  assumes "\<forall>(key, c, raw) \<in> set xs. \<exists>k r. good k \<and> key = kk k \<and> row k raw = Some r"
  shows "\<exists>krs. map_result (\<lambda>(k, c, v). pending k v) xs = Inr (map (\<lambda>(k, r). [put k r]) krs)
    \<and> list_all2 (\<lambda>(key, c, raw) (k, r). good k \<and> key = kk k \<and> row k raw = Some r) xs krs"
  using assms
proof (induction xs)
  case (Cons x xs)
  obtain key c raw where x: "x = (key, c, raw)" by (cases x)
  with Cons.prems obtain k r where k: "good k" "key = kk k" "row k raw = Some r" by auto
  from Cons obtain krs where krs: "map_result (\<lambda>(k, c, v). pending k v) xs = Inr (map (\<lambda>(k, r). [put k r]) krs)"
    "list_all2 (\<lambda>(key, c, raw) (k, r). good k \<and> key = kk k \<and> row k raw = Some r) xs krs" by auto
  show ?case
    by (rule exI [of _ "(k, r) # krs"]) (use k krs pending_put [OF k(1,3)] x in simp)
qed simp

text \<open>On a labelled key-value table whose records decode, the function completes its table.\<close>

lemma ensure:
  assumes db: "db_kv (sq_db s) = Some kv" "db_collection (sq_db s)" "\<not> sq_closed s" "alist_ok kv" "labelled kv"
    and fits: "fits kv" and sub: "sub_rows kk good row kv (rows_of (rows_in (sq_db s)))"
  shows "\<exists>T n. ensure_table no_failure create coll pending s = (s\<lparr>sq_db := set_rows T (sq_db s), sq_calls := n\<rparr>, None)
    \<and> in_step kv T"
proof -
  let ?T = "rows_of (rows_in (sq_db s))"
  note sel = in_selected [OF db(4,5)]
  have "\<forall>(key, c, raw) \<in> set (selected kv). \<exists>k r. good k \<and> key = kk k \<and> row k raw = Some r"
    using fits sel unfolding fits_def by blast
  from pending_rows [OF this] obtain krs where
    pend: "map_result (\<lambda>(k, c, v). pending k v) (selected kv) = Inr (map (\<lambda>(k, r). [put k r]) krs)"
    and all2: "list_all2 (\<lambda>(key, c, raw) (k, r). good k \<and> key = kk k \<and> row k raw = Some r) (selected kv) krs" by blast
  have krs: "good k \<and> (\<exists>c raw. map_of kv (kk k) = Some (c, raw) \<and> row k raw = Some r)" if "(k, r) \<in> set krs" for k r
    using list_all2_rightD [OF all2 that] sel by fast
  have stmts: "concat (map (\<lambda>(k, r). [put k r]) krs) = map (\<lambda>(k, r). put k r) krs"
    by (induction krs) auto
  obtain ns where create: "exec_stmts create (sq_db s) = Some (set_rows ?T (sq_db s), ns)" using exec_create by blast
  define T' where "T' = fold (\<lambda>(k, r). AList.update k r) krs ?T"
  have "\<forall>(k, r) \<in> set krs. good k \<and> (\<exists>raw. row k raw = Some r)" using krs by blast
  from exec_puts [OF this, of ?T "sq_db s"] obtain ms where
    puts: "exec_stmts (map (\<lambda>(k, r). put k r) krs) (set_rows ?T (sq_db s)) = Some (set_rows T' (sq_db s), ms)"
    unfolding T'_def by blast
  have "\<forall>(k, r) \<in> set krs. good k \<and> (\<exists>c raw. map_of kv (kk k) = Some (c, raw) \<and> row k raw = Some r)"
    using krs by blast
  from puts_sub [OF sub this] have sub': "sub_rows kk good row kv T'" "fst ` set krs \<subseteq> keys T'"
    by (simp_all add: T'_def)
  have step: "in_step kv T'"
  proof (rule sub_complete [OF sub'(1) fits])
    fix key c raw k assume k: "map_of kv key = Some (c, raw)" "good k" "key = kk k"
    have "prefix p key" using kk_prefix [OF k(2)] k(3) by simp
    then have "(key, c, raw) \<in> set (selected kv)" using sel k(1) by simp
    from list_all2_leftD [OF all2 this] obtain x where "x \<in> set krs"
      and x: "case x of (k', r) \<Rightarrow> good k' \<and> key = kk k' \<and> row k' raw = Some r" by auto
    moreover have "fst x = k" using x k kk_inj [of "fst x" k] by (simp add: split_beta)
    ultimately have "k \<in> fst ` set krs" by blast
    with sub'(2) show "k \<in> keys T'" by blast
  qed
  define s1 where "s1 = s\<lparr>sq_db := set_rows ?T (sq_db s), sq_calls := sq_calls s + length create\<rparr>"
  have 1: "sql_execs no_failure create s = (s1, None)"
    unfolding s1_def by (rule sql_execs_answered [OF create])
  have 2: "sql_read no_failure (\<lambda>db. if \<not> db_collection db then None
       else map_option (\<lambda>rows. map_result (\<lambda>(k, c, v). pending k v) (selected rows)) (db_kv db)) s1
     = (tick s1, Inr (map (\<lambda>(k, r). [put k r]) krs))"
    by (rule sql_read_answered) (use db(1-3) pend in \<open>simp_all add: s1_def set_kv\<close>)
  have 3: "exec_stmts (map (\<lambda>(k, r). put k r) krs) (sq_db (tick s1)) = Some (set_rows T' (sq_db s), ms)"
    using puts by (simp add: s1_def)
  have "\<exists>n. ensure_table no_failure create coll pending s = (s\<lparr>sq_db := set_rows T' (sq_db s), sq_calls := n\<rparr>, None)"
    unfolding ensure_table_def 1 prod.case option.case 2 sum.case stmts sql_tx_answered [OF 3]
    using db(3) by (simp add: s1_def tick_def) blast
  with step show ?thesis by blast
qed

end

section \<open>The five tables\<close>

lemma or_key_flat: "or_key k p (p @ k) = k"
  by (simp add: or_key_def trim_prefix_def)

interpretation bcl: backfilled "''clients:''" "flat_key ''clients:''" "\<lambda>_. True" "client_cell G" "''clients''"
  db_clients "\<lambda>T db. db\<lparr>db_clients := Some T\<rparr>" "\<lambda>k r. Put_Client r"
  "[Create_Clients, Create_Index ''idx_clients_group'', Create_Index ''idx_clients_last_seen'']" "pending_client G" for G
proof unfold_locales
  fix k raw r assume "client_cell G k raw = Some r"
  then obtain c where c: "client_of_json G raw = Some c" "cl_key c = k" "r = client_row_of G c"
    by (auto simp: client_cell_def split: option.splits if_split_asm)
  moreover have "c\<lparr>cl_key := k\<rparr> = c" using c(2) by auto
  ultimately show "pending_client G (flat_key ''clients:'' k) raw = Inr [Put_Client r]"
    using or_key_flat [of k "''clients:''"] by (simp add: pending_client_def flat_key_def client_row_of_def)
  fix T and db :: sql_db
  show "\<exists>n. exec_stmt (Put_Client r) (db\<lparr>db_clients := Some T\<rparr>) = Some (db\<lparr>db_clients := Some (AList.update k r T)\<rparr>, n)"
    using c by (simp add: client_row_of_def)
qed simp_all

interpretation bse: backfilled "''session:''" "flat_key ''session:''" "\<lambda>_. True" "session_cell G" "''session''"
  db_sessions "\<lambda>T db. db\<lparr>db_sessions := Some T\<rparr>" "\<lambda>k r. Put_Session r"
  "[Create_Sessions, Create_Index ''idx_sessions_expires_at'', Create_Index ''idx_sessions_username'']"
  "pending_session G" for G
proof unfold_locales
  fix k raw r assume "session_cell G k raw = Some r"
  then obtain c where c: "session_of_json G raw = Some c" "se_token c = k" "r = session_row_of G c"
    by (auto simp: session_cell_def split: option.splits if_split_asm)
  moreover have "c\<lparr>se_token := k\<rparr> = c" using c(2) by auto
  ultimately show "pending_session G (flat_key ''session:'' k) raw = Inr [Put_Session r]"
    using or_key_flat [of k "''session:''"] by (simp add: pending_session_def flat_key_def session_row_of_def)
  fix T and db :: sql_db
  show "\<exists>n. exec_stmt (Put_Session r) (db\<lparr>db_sessions := Some T\<rparr>) = Some (db\<lparr>db_sessions := Some (AList.update k r T)\<rparr>, n)"
    using c by (simp add: session_row_of_def)
qed simp_all

interpretation bli: backfilled "''customlist:''" "pair_key ''customlist:''" pair_good "\<lambda>_ _. Some ()" "''customlist''"
  db_lists "\<lambda>T db. db\<lparr>db_lists := Some T\<rparr>" "\<lambda>k r. Put_List (fst k) (snd k)"
  "[Create_Lists, Create_Index ''idx_custom_lists_domain'']" pending_entry
  by unfold_locales (auto simp: pending_entry_def split_custom_list_key_def split_pair_key split: prod.split)

interpretation bst: backfilled "''stats:''" "pair_key ''stats:''" stats_good stats_cell "''stats''"
  db_stats "\<lambda>T db. db\<lparr>db_stats := Some T\<rparr>" "\<lambda>k r. Put_Stats (fst k) (snd k) r"
  "[Create_Stats, Create_Index ''idx_stats_granularity'']" pending_stats_row
proof unfold_locales
  fix k raw r assume k: "stats_good k" and "stats_cell k raw = Some r"
  then obtain c where "stats_row_of_json raw = Some c" "r = counters_to_json (sr_counters c)"
    by (auto simp: stats_cell_def split: option.splits if_split_asm)
  then show "pending_stats_row (pair_key ''stats:'' k) raw = Inr [Put_Stats (fst k) (snd k) r]"
    using k split_pair_key [of k "''stats:''"]
    by (auto simp: pending_stats_row_def split_stats_key_def stats_good_def split: prod.split)
qed auto

interpretation bhi: backfilled "''confhist:''" "flat_key ''confhist:''" "\<lambda>k. k \<noteq> []" "history_cell G" "''confhist''"
  db_history "\<lambda>T db. db\<lparr>db_history := Some T\<rparr>" "\<lambda>k r. Put_History k r"
  "[Create_History, Create_Index ''idx_config_history_ts'']" "pending_snapshot G" for G
proof unfold_locales
  fix k raw r assume k: "k \<noteq> []" and "history_cell G k raw = Some r"
  then obtain v where v: "snapshot_of_json G raw = Some v" "sqlite_time G (sn_ts v) = k" "r = sn_yaml v"
    by (auto simp: history_cell_def split: option.splits if_split_asm)
  with k have "\<not> time_is_zero (sn_ts v)" by (auto simp: sqlite_time_def)
  with v show "pending_snapshot G (flat_key ''confhist:'' k) raw = Inr [Put_History k r]"
    by (simp add: pending_snapshot_def snapshot_time_def)
qed auto

section \<open>Databases of earlier versions\<close>

definition version_key :: string where "version_key = ''store_meta:schema_version''"

definition raw_view :: "sql_db \<Rightarrow> string \<Rightarrow> json option" where
  "raw_view db key = map_option snd (map_of (rows_of (db_kv db)) key)"

definition sql_version :: "sql_db \<Rightarrow> int" where
  "sql_version db =
     (case raw_view db version_key of
        None \<Rightarrow> 0 | Some raw \<Rightarrow> (case json_to_int raw of None \<Rightarrow> 0 | Some n \<Rightarrow> n))"

text \<open>The records of every collection decode under their key.\<close>

definition records_fit :: "golib \<Rightarrow> (string, string \<times> json) alist \<Rightarrow> bool" where
  "records_fit G kv \<longleftrightarrow> bcl.fits G kv \<and> bse.fits G kv \<and> bli.fits kv \<and> bst.fits kv \<and> bhi.fits G kv"

text \<open>
  A database of any version: the key-value table with its records, labelled or not, and typed tables
  that are missing or hold some of the records.
\<close>

definition older_db :: "golib \<Rightarrow> sql_db \<Rightarrow> bool" where
  "older_db G db \<longleftrightarrow>
     db_kv db \<noteq> None \<and>
     (let kv = rows_of (db_kv db) in
        alist_ok kv \<and> records_fit G kv
        \<and> (db_collection db \<longrightarrow> (\<forall>(key, c, raw) \<in> set kv. c = collection_name key \<or> c = ''unknown'' \<or> c = []))
        \<and> sub_rows (flat_key ''clients:'') (\<lambda>_. True) (client_cell G) kv (rows_of (db_clients db))
        \<and> sub_rows (flat_key ''session:'') (\<lambda>_. True) (session_cell G) kv (rows_of (db_sessions db))
        \<and> sub_rows (pair_key ''customlist:'') pair_good (\<lambda>_ _. Some ()) kv (rows_of (db_lists db))
        \<and> sub_rows (pair_key ''stats:'') stats_good stats_cell kv (rows_of (db_stats db))
        \<and> sub_rows (flat_key ''confhist:'') (\<lambda>k. k \<noteq> []) (history_cell G) kv (rows_of (db_history db)))"

text \<open>Opened without failure: the store is open, its column is there, its rows are labelled.\<close>

definition ready_db :: "golib \<Rightarrow> sql_db \<Rightarrow> bool" where
  "ready_db G db \<longleftrightarrow> older_db G db \<and> db_collection db \<and> labelled (rows_of (db_kv db))"

lemma older_dbE:
  assumes "older_db G db"
  obtains kv where "db_kv db = Some kv" "alist_ok kv" "records_fit G kv"
    "sub_rows (flat_key ''clients:'') (\<lambda>_. True) (client_cell G) kv (rows_of (db_clients db))"
    "sub_rows (flat_key ''session:'') (\<lambda>_. True) (session_cell G) kv (rows_of (db_sessions db))"
    "sub_rows (pair_key ''customlist:'') pair_good (\<lambda>_ _. Some ()) kv (rows_of (db_lists db))"
    "sub_rows (pair_key ''stats:'') stats_good stats_cell kv (rows_of (db_stats db))"
    "sub_rows (flat_key ''confhist:'') (\<lambda>k. k \<noteq> []) (history_cell G) kv (rows_of (db_history db))"
    "db_collection db \<longrightarrow> (\<forall>(key, c, raw) \<in> set kv. c = collection_name key \<or> c = ''unknown'' \<or> c = [])"
proof -
  from assms obtain kv where "db_kv db = Some kv" by (auto simp: older_db_def)
  with assms that [of kv] show thesis unfolding older_db_def Let_def by simp
qed

lemma match_ready:
  assumes "tables_match G db"
  shows "ready_db G db"
proof -
  obtain kv C S L T H where t: "db_kv db = Some kv" "db_collection db" "db_clients db = Some C" "db_sessions db = Some S"
    "db_lists db = Some L" "db_stats db = Some T" "db_history db = Some H"
    "alist_ok kv" "cl.in_step G kv C" "se.in_step G kv S" "li.in_step kv L" "st.in_step kv T" "hi.in_step G kv H"
    by (rule match_tables [OF assms])
  note fits = bcl.step_fits [OF t(9)] bse.step_fits [OF t(10)] bli.step_fits [OF t(11)] bst.step_fits [OF t(12)]
    bhi.step_fits [OF t(13)]
  note subs = bcl.step_sub [OF t(9)] bse.step_sub [OF t(10)] bli.step_sub [OF t(11)] bst.step_sub [OF t(12)]
    bhi.step_sub [OF t(13)]
  have "labelled kv" using assms t(1) by (simp add: tables_match_def)
  moreover from this have "\<forall>(key, c, raw) \<in> set kv. c = collection_name key \<or> c = ''unknown'' \<or> c = []"
    unfolding labelled_def by blast
  ultimately show ?thesis
    unfolding ready_db_def older_db_def Let_def records_fit_def using t(1-8) fits subs by simp
qed

lemma ready_match:
  assumes "ready_db G db" "db_kv db = Some kv" "db_clients db = Some C" "db_sessions db = Some S"
    "db_lists db = Some L" "db_stats db = Some T" "db_history db = Some H"
    "cl.in_step G kv C" "se.in_step G kv S" "li.in_step kv L" "st.in_step kv T" "hi.in_step G kv H"
  shows "tables_match G db"
  using assms by (simp add: ready_db_def older_db_def tables_match_def Let_def)

text \<open>The predicates only look at the raw values under each key.\<close>

lemma relabel_raw: "map_option snd (map_of (map (\<lambda>(k, c, v). (k, f k c, v)) kv) key) = map_option snd (map_of kv key)"
  by (induction kv) auto

lemma fits_cong:
  assumes "\<And>key. map_option snd (map_of kv key) = map_option snd (map_of kv' key)"
  shows "records_fit G kv \<longleftrightarrow> records_fit G kv'"
    and "sub_rows kk good row kv T \<longleftrightarrow> sub_rows kk good row kv' T"
proof -
  have eq: "(\<exists>c. map_of kv key = Some (c, raw)) \<longleftrightarrow> (\<exists>c. map_of kv' key = Some (c, raw))" for key raw
    using assms [of key] by (cases "map_of kv key"; cases "map_of kv' key") auto
  have all: "(\<forall>key c raw. map_of kv key = Some (c, raw) \<longrightarrow> P key raw) \<longleftrightarrow>
      (\<forall>key c raw. map_of kv' key = Some (c, raw) \<longrightarrow> P key raw)" for P
    using eq by blast
  show "records_fit G kv \<longleftrightarrow> records_fit G kv'"
    unfolding records_fit_def bcl.fits_def bse.fits_def bli.fits_def bst.fits_def bhi.fits_def all ..
  show "sub_rows kk good row kv T \<longleftrightarrow> sub_rows kk good row kv' T"
    unfolding sub_rows_def using eq by blast
qed

section \<open>Each step of opening\<close>

lemma set_collections:
  "db_collection db \<Longrightarrow> db_kv db = Some kv \<Longrightarrow>
     \<exists>ns. exec_stmts (map (\<lambda>(k, r). Set_Collection (collection_name k) k) rows @ [Create_Index i]) db
       = Some (db\<lparr>db_kv := Some (map (\<lambda>(k, c, v). (k, if k \<in> fst ` set rows then collection_name k else c, v)) kv)\<rparr>, ns)"
proof (induction rows arbitrary: db kv)
  case Nil
  have "map (\<lambda>(k, c, v). (k, c, v)) kv = kv" by (intro map_idI) auto
  then have "db\<lparr>db_kv := Some (map (\<lambda>(k, c, v). (k, c, v)) kv)\<rparr> = db" using Nil by simp
  then show ?case by simp
next
  case (Cons row rows)
  obtain key r where row: "row = (key, r)" by (cases row)
  let ?kv = "map (\<lambda>(k, c, v). (k, if k = key then collection_name key else c, v)) kv"
  obtain ns where "exec_stmts (map (\<lambda>(k, r). Set_Collection (collection_name k) k) rows @ [Create_Index i]) (db\<lparr>db_kv := Some ?kv\<rparr>)
      = Some (db\<lparr>db_kv := Some (map (\<lambda>(k, c, v). (k, if k \<in> fst ` set rows then collection_name k else c, v)) ?kv)\<rparr>, ns)"
    using Cons.IH [of "db\<lparr>db_kv := Some ?kv\<rparr>" ?kv] Cons.prems by auto
  moreover have "map (\<lambda>(k, c, v). (k, if k \<in> fst ` set rows then collection_name k else c, v)) ?kv
      = map (\<lambda>(k, c, v). (k, if k \<in> fst ` set (row # rows) then collection_name k else c, v)) kv"
    by (auto simp: row)
  ultimately show ?case using Cons.prems by (simp add: row)
qed

lemma ready_change:
  assumes "older_db G db" "db_kv db = Some kv" "alist_ok kv'" "labelled kv'"
    and raw: "\<And>key. map_option snd (map_of kv' key) = map_option snd (map_of kv key)"
    and db': "db_kv db' = Some kv'" "db_collection db'" "db_clients db' = db_clients db" "db_sessions db' = db_sessions db"
      "db_lists db' = db_lists db" "db_stats db' = db_stats db" "db_history db' = db_history db"
  shows "ready_db G db'"
proof -
  have label: "\<forall>(key, c, raw) \<in> set kv'. c = collection_name key \<or> c = ''unknown'' \<or> c = []"
    using assms(4) unfolding labelled_def by blast
  obtain kv0 where old: "db_kv db = Some kv0" "records_fit G kv0"
    "sub_rows (flat_key ''clients:'') (\<lambda>_. True) (client_cell G) kv0 (rows_of (db_clients db))"
    "sub_rows (flat_key ''session:'') (\<lambda>_. True) (session_cell G) kv0 (rows_of (db_sessions db))"
    "sub_rows (pair_key ''customlist:'') pair_good (\<lambda>_ _. Some ()) kv0 (rows_of (db_lists db))"
    "sub_rows (pair_key ''stats:'') stats_good stats_cell kv0 (rows_of (db_stats db))"
    "sub_rows (flat_key ''confhist:'') (\<lambda>k. k \<noteq> []) (history_cell G) kv0 (rows_of (db_history db))"
    by (rule older_dbE [OF assms(1)])
  have kv0: "kv0 = kv" using old(1) assms(2) by simp
  note new = old(2) [unfolded kv0 fits_cong(1) [OF raw, symmetric]]
    old(3-7) [unfolded kv0 fits_cong(2) [OF raw, symmetric]]
  show ?thesis
    unfolding ready_db_def older_db_def Let_def db' option.case
    by (intro conjI impI) (rule option.distinct assms new label TrueI | simp add: db'(2))+
qed

lemma labelled_relabel:
  assumes "\<And>k c v. (k, c, v) \<in> set kv \<Longrightarrow> k \<notin> A \<Longrightarrow> c = collection_name k"
  shows "labelled (map (\<lambda>(k, c, v). (k, if k \<in> A then collection_name k else c, v)) kv)"
  using assms unfolding labelled_def by auto

lemma labelled_missing:
  assumes "\<forall>(k, c, v) \<in> set kv. c = collection_name k \<or> c = ''unknown'' \<or> c = []"
  shows "labelled (map (\<lambda>(k, c, v). (k, if k \<in> fst ` set (filter (\<lambda>(k, c, v). c = ''unknown'' \<or> c = []) kv)
    then collection_name k else c, v)) kv)"
proof (rule labelled_relabel)
  fix k c v
  assume in_kv: "(k, c, v) \<in> set kv" and out: "k \<notin> fst ` set (filter (\<lambda>(k, c, v). c = ''unknown'' \<or> c = []) kv)"
  have "(k, c, v) \<notin> set (filter (\<lambda>(k, c, v). c = ''unknown'' \<or> c = []) kv)"
    using out imageI [of "(k, c, v)" _ fst] unfolding fst_conv by blast
  then have "c \<noteq> ''unknown'' \<and> c \<noteq> []" using in_kv by simp
  with bspec [OF assms in_kv] show "c = collection_name k" by simp
qed

lemma collection_column:
  assumes "older_db G (sq_db s)" "\<not> sq_closed s"
  shows "\<exists>s'. ensure_collection_column no_failure s = (s', None) \<and> \<not> sq_closed s' \<and> ready_db G (sq_db s')
    \<and> raw_view (sq_db s') = raw_view (sq_db s)"
proof -
  obtain kv where kv: "db_kv (sq_db s) = Some kv" "alist_ok kv" and fit: "records_fit G kv"
    and subs: "sub_rows (flat_key ''clients:'') (\<lambda>_. True) (client_cell G) kv (rows_of (db_clients (sq_db s)))"
    "sub_rows (flat_key ''session:'') (\<lambda>_. True) (session_cell G) kv (rows_of (db_sessions (sq_db s)))"
    "sub_rows (pair_key ''customlist:'') pair_good (\<lambda>_ _. Some ()) kv (rows_of (db_lists (sq_db s)))"
    "sub_rows (pair_key ''stats:'') stats_good stats_cell kv (rows_of (db_stats (sq_db s)))"
    "sub_rows (flat_key ''confhist:'') (\<lambda>k. k \<noteq> []) (history_cell G) kv (rows_of (db_history (sq_db s)))"
    and labels: "db_collection (sq_db s) \<longrightarrow> (\<forall>(key, c, raw) \<in> set kv. c = collection_name key \<or> c = ''unknown'' \<or> c = [])"
    by (rule older_dbE [OF assms(1)])
  let ?kv1 = "if db_collection (sq_db s) then kv else map (\<lambda>(k, c, v). (k, ''unknown'', v)) kv"
  let ?db1 = "(sq_db s)\<lparr>db_kv := Some ?kv1, db_collection := True\<rparr>"
  have add: "exec_stmts (if db_collection (sq_db s) then [] else [Add_Collection]) (sq_db s)
      = Some (?db1, if db_collection (sq_db s) then [] else [0])"
    using kv(1) by simp
  let ?s1 = "(tick s)\<lparr>sq_db := ?db1, sq_calls := sq_calls (tick s) + length (if db_collection (sq_db s) then [] else [Add_Collection])\<rparr>"
  have ex: "sql_execs no_failure (if db_collection (sq_db s) then [] else [Add_Collection]) (tick s) = (?s1, None)"
    using sql_execs_answered [of _ "tick s", OF add [folded tick_simps(1) [of s]]] by simp
  let ?rows = "filter (\<lambda>(k, c, v). c = ''unknown'' \<or> c = []) ?kv1"
  let ?kv2 = "map (\<lambda>(k, c, v). (k, if k \<in> fst ` set ?rows then collection_name k else c, v)) ?kv1"
  obtain ns where tx: "exec_stmts (map (\<lambda>(k, r). Set_Collection (collection_name k) k) ?rows @ [Create_Index ''idx_kv_collection'']) (sq_db (tick ?s1))
      = Some (?db1\<lparr>db_kv := Some ?kv2\<rparr>, ns)"
    using set_collections [of ?db1 ?kv1 ?rows "''idx_kv_collection''"] by auto
  have raw1: "map_option snd (map_of ?kv1 key) = map_option snd (map_of kv key)" for key
    using relabel_raw [of "\<lambda>k c. ''unknown''" kv key] by simp
  have raw: "map_option snd (map_of ?kv2 key) = map_option snd (map_of kv key)" for key
    using relabel_raw [of "\<lambda>k c. if k \<in> fst ` set ?rows then collection_name k else c" ?kv1 key] raw1 by simp
  have "\<forall>(k, c, v) \<in> set ?kv1. c = collection_name k \<or> c = ''unknown'' \<or> c = []" using labels by auto
  then have label: "labelled ?kv2" by (rule labelled_missing)
  have ok: "alist_ok ?kv2" using kv(2) by (simp add: comp_def split_beta)
  have ready: "ready_db G (?db1\<lparr>db_kv := Some ?kv2\<rparr>)"
    by (rule ready_change [OF assms(1) kv(1) ok label raw]) simp_all
  have "ensure_collection_column no_failure s = ((tick ?s1)\<lparr>sq_db := ?db1\<lparr>db_kv := Some ?kv2\<rparr>,
      sq_calls := sq_calls (tick ?s1) + length (map (\<lambda>(k, r). Set_Collection (collection_name k) k) ?rows @ [Create_Index ''idx_kv_collection'']) + 2\<rparr>, None)"
    using assms(2) kv(1) ex sql_tx_answered [OF tx] by (simp add: ensure_collection_column_def)
  then show ?thesis using ready raw kv(1) assms(2) by (auto simp: raw_view_def)
qed

lemma ready_set:
  assumes "ready_db G db" "db_kv db = Some kv"
  shows "cl.in_step G kv C \<Longrightarrow> ready_db G (db\<lparr>db_clients := Some C\<rparr>)"
    and "se.in_step G kv S \<Longrightarrow> ready_db G (db\<lparr>db_sessions := Some S\<rparr>)"
    and "li.in_step kv L \<Longrightarrow> ready_db G (db\<lparr>db_lists := Some L\<rparr>)"
    and "st.in_step kv T \<Longrightarrow> ready_db G (db\<lparr>db_stats := Some T\<rparr>)"
    and "hi.in_step G kv H \<Longrightarrow> ready_db G (db\<lparr>db_history := Some H\<rparr>)"
  using assms bcl.step_sub [of G kv C] bse.step_sub [of G kv S] bli.step_sub [of kv L] bst.step_sub [of kv T]
    bhi.step_sub [of G kv H]
  by (simp_all add: ready_db_def older_db_def Let_def)

lemma ready_facts:
  assumes "ready_db G db" "db_kv db = Some kv"
  shows "db_collection db" "alist_ok kv" "labelled kv" "bcl.fits G kv" "bse.fits G kv" "bli.fits kv" "bst.fits kv"
    "bhi.fits G kv"
    "sub_rows (flat_key ''clients:'') (\<lambda>_. True) (client_cell G) kv (rows_of (db_clients db))"
    "sub_rows (flat_key ''session:'') (\<lambda>_. True) (session_cell G) kv (rows_of (db_sessions db))"
    "sub_rows (pair_key ''customlist:'') pair_good (\<lambda>_ _. Some ()) kv (rows_of (db_lists db))"
    "sub_rows (pair_key ''stats:'') stats_good stats_cell kv (rows_of (db_stats db))"
    "sub_rows (flat_key ''confhist:'') (\<lambda>k. k \<noteq> []) (history_cell G) kv (rows_of (db_history db))"
  using assms by (simp_all add: ready_db_def older_db_def Let_def records_fit_def)

lemma schema_completes:
  assumes old: "older_db G (sq_db s)" and open': "\<not> sq_closed s"
  shows "\<exists>s'. ensure_sqlite_schema no_failure G s = (s', None) \<and> \<not> sq_closed s' \<and> tables_match G (sq_db s')
    \<and> raw_view (sq_db s') = raw_view (sq_db s)"
proof -
  obtain s0 where s0: "ensure_collection_column no_failure s = (s0, None)" "\<not> sq_closed s0" "ready_db G (sq_db s0)"
    "raw_view (sq_db s0) = raw_view (sq_db s)"
    using collection_column [OF old open'] by blast
  then obtain kv where kv0: "db_kv (sq_db s0) = Some kv" by (auto simp: ready_db_def older_db_def)
  note f0 = ready_facts [OF s0(3) kv0]
  obtain C n1 where c: "ensure_client_table no_failure G s0 = (s0\<lparr>sq_db := (sq_db s0)\<lparr>db_clients := Some C\<rparr>, sq_calls := n1\<rparr>, None)"
    "cl.in_step G kv C"
    using bcl.ensure [OF kv0 f0(1) s0(2) f0(2,3,4,9)] unfolding ensure_client_table_def by blast
  define s1 where "s1 = s0\<lparr>sq_db := (sq_db s0)\<lparr>db_clients := Some C\<rparr>, sq_calls := n1\<rparr>"
  have s1: "\<not> sq_closed s1" "ready_db G (sq_db s1)" "db_kv (sq_db s1) = Some kv" "db_clients (sq_db s1) = Some C"
    using s0 kv0 ready_set(1) [OF s0(3) kv0 c(2)] by (simp_all add: s1_def)
  note f1 = ready_facts [OF s1(2,3)]
  obtain S n2 where e: "ensure_session_table no_failure G s1 = (s1\<lparr>sq_db := (sq_db s1)\<lparr>db_sessions := Some S\<rparr>, sq_calls := n2\<rparr>, None)"
    "se.in_step G kv S"
    using bse.ensure [OF s1(3) f1(1) s1(1) f1(2,3,5,10)] unfolding ensure_session_table_def by blast
  define s2 where "s2 = s1\<lparr>sq_db := (sq_db s1)\<lparr>db_sessions := Some S\<rparr>, sq_calls := n2\<rparr>"
  have s2: "\<not> sq_closed s2" "ready_db G (sq_db s2)" "db_kv (sq_db s2) = Some kv" "db_clients (sq_db s2) = Some C"
    "db_sessions (sq_db s2) = Some S"
    using s1 ready_set(2) [OF s1(2,3) e(2)] by (simp_all add: s2_def)
  note f2 = ready_facts [OF s2(2,3)]
  obtain L n3 where l: "ensure_custom_list_table no_failure s2 = (s2\<lparr>sq_db := (sq_db s2)\<lparr>db_lists := Some L\<rparr>, sq_calls := n3\<rparr>, None)"
    "li.in_step kv L"
    using bli.ensure [OF s2(3) f2(1) s2(1) f2(2,3,6,11)] unfolding ensure_custom_list_table_def by blast
  define s3 where "s3 = s2\<lparr>sq_db := (sq_db s2)\<lparr>db_lists := Some L\<rparr>, sq_calls := n3\<rparr>"
  have s3: "\<not> sq_closed s3" "ready_db G (sq_db s3)" "db_kv (sq_db s3) = Some kv" "db_clients (sq_db s3) = Some C"
    "db_sessions (sq_db s3) = Some S" "db_lists (sq_db s3) = Some L"
    using s2 ready_set(3) [OF s2(2,3) l(2)] by (simp_all add: s3_def)
  note f3 = ready_facts [OF s3(2,3)]
  obtain T n4 where t: "ensure_stats_table no_failure s3 = (s3\<lparr>sq_db := (sq_db s3)\<lparr>db_stats := Some T\<rparr>, sq_calls := n4\<rparr>, None)"
    "st.in_step kv T"
    using bst.ensure [OF s3(3) f3(1) s3(1) f3(2,3,7,12)] unfolding ensure_stats_table_def by blast
  define s4 where "s4 = s3\<lparr>sq_db := (sq_db s3)\<lparr>db_stats := Some T\<rparr>, sq_calls := n4\<rparr>"
  have s4: "\<not> sq_closed s4" "ready_db G (sq_db s4)" "db_kv (sq_db s4) = Some kv" "db_clients (sq_db s4) = Some C"
    "db_sessions (sq_db s4) = Some S" "db_lists (sq_db s4) = Some L" "db_stats (sq_db s4) = Some T"
    using s3 ready_set(4) [OF s3(2,3) t(2)] by (simp_all add: s4_def)
  note f4 = ready_facts [OF s4(2,3)]
  obtain H n5 where h: "ensure_config_history_table no_failure G s4 = (s4\<lparr>sq_db := (sq_db s4)\<lparr>db_history := Some H\<rparr>, sq_calls := n5\<rparr>, None)"
    "hi.in_step G kv H"
    using bhi.ensure [OF s4(3) f4(1) s4(1) f4(2,3,8,13)] unfolding ensure_config_history_table_def by blast
  define s5 where "s5 = s4\<lparr>sq_db := (sq_db s4)\<lparr>db_history := Some H\<rparr>, sq_calls := n5\<rparr>"
  have s5: "\<not> sq_closed s5" "ready_db G (sq_db s5)" "db_kv (sq_db s5) = Some kv" "db_clients (sq_db s5) = Some C"
    "db_sessions (sq_db s5) = Some S" "db_lists (sq_db s5) = Some L" "db_stats (sq_db s5) = Some T"
    "db_history (sq_db s5) = Some H"
    using s4 ready_set(5) [OF s4(2,3) h(2)] by (simp_all add: s5_def)
  have "tables_match G (sq_db s5)"
    by (rule ready_match [OF s5(2-8) c(2) e(2) l(2) t(2) h(2)])
  moreover have "ensure_sqlite_schema no_failure G s = (s5, None)"
    using s0(1) c(1) e(1) l(1) t(1) h(1) unfolding ensure_sqlite_schema_def
    by (simp add: s1_def [symmetric] s2_def [symmetric] s3_def [symmetric] s4_def [symmetric] s5_def [symmetric])
  moreover have "raw_view (sq_db s5) = raw_view (sq_db s0)"
    using kv0 s5(3) by (simp add: raw_view_def fun_eq_iff)
  then have "raw_view (sq_db s5) = raw_view (sq_db s)" using s0(4) by simp
  ultimately show ?thesis using s5(1) by blast
qed

text \<open>Recording the version touches no collection that has a table.\<close>

lemma version_plain: "collection_name version_key = ''store_meta''"
  by (code_simp)

lemma sub_rows_elsewhere:
  "sub_rows kk good row kv T \<Longrightarrow> (\<And>k. good k \<Longrightarrow> kk k \<noteq> key) \<Longrightarrow> sub_rows kk good row (AList.update key x kv) T"
  unfolding sub_rows_def by fastforce

lemma put_version:
  assumes "older_db G (sq_db s)" "db_collection (sq_db s)" "\<not> sq_closed s"
  shows "\<exists>s'. sql_put_json no_failure G version_key (JNum v) s = (s', None) \<and> \<not> sq_closed s'
    \<and> older_db G (sq_db s') \<and> db_collection (sq_db s')
    \<and> raw_view (sq_db s') = (raw_view (sq_db s))(version_key \<mapsto> JNum v)
    \<and> (tables_match G (sq_db s) \<longrightarrow> tables_match G (sq_db s'))"
proof -
  obtain kv where kv: "db_kv (sq_db s) = Some kv" using assms(1) by (auto simp: older_db_def)
  let ?db = "(sq_db s)\<lparr>db_kv := Some (AList.update version_key (''store_meta'', JNum v) kv)\<rparr>"
  have ex: "exec_stmt (Put_Kv version_key ''store_meta'' (JNum v)) (sq_db s) = Some (?db, 1)" using kv assms(2) by simp
  have put: "sql_put_json no_failure G version_key (JNum v) s = (tick s\<lparr>sq_db := ?db\<rparr>, None)"
    using assms(3) sql_exec_answered [OF ex] by (simp add: sql_put_json_def put_raw_json_def version_plain)
  have np: "\<not> prefix ''clients:'' version_key" "\<not> prefix ''session:'' version_key" "\<not> prefix ''customlist:'' version_key"
    "\<not> prefix ''stats:'' version_key" "\<not> prefix ''confhist:'' version_key"
    by (simp_all add: version_key_def)
  have fits: "records_fit G (AList.update version_key x kv)" if "records_fit G kv" for x
    using that np unfolding records_fit_def bcl.fits_def bse.fits_def bli.fits_def bst.fits_def bhi.fits_def by auto
  note old = older_dbE [OF assms(1), unfolded kv option.inject]
  have keys: "flat_key ''clients:'' k \<noteq> version_key" "flat_key ''session:'' k \<noteq> version_key"
    "pair_key ''customlist:'' q \<noteq> version_key" "pair_key ''stats:'' q \<noteq> version_key"
    "flat_key ''confhist:'' k \<noteq> version_key" for k q
    by (simp_all add: flat_key_def pair_key_def version_key_def)
  have label: "\<forall>(key, c, raw) \<in> set (AList.update version_key (''store_meta'', JNum v) kv).
      c = collection_name key \<or> c = ''unknown'' \<or> c = []"
    if "\<forall>(key, c, raw) \<in> set kv. c = collection_name key \<or> c = ''unknown'' \<or> c = []"
    using that version_plain by (auto dest!: in_set_update)
  have "older_db G ?db"
    using assms(1) kv
    by (simp add: older_db_def Let_def fits label sub_rows_elsewhere keys)
  moreover have "tables_match G ?db" if "tables_match G (sq_db s)"
  proof (rule put_plain_match [OF that])
    show "transaction [Put_Kv version_key (collection_name version_key) (JNum v)] (sq_db s) ?db"
      using ex by (simp add: transaction_def version_plain)
  qed (simp add: version_plain)
  ultimately show ?thesis using put kv assms(2,3) by (auto simp: raw_view_def fun_eq_iff)
qed

section \<open>The whole run\<close>

definition same_records :: "sql_db \<Rightarrow> sql_db \<Rightarrow> bool" where
  "same_records db db' \<longleftrightarrow> (\<forall>key. key \<noteq> version_key \<longrightarrow> raw_view db' key = raw_view db key)"

lemma migration_step:
  assumes old: "older_db G (sq_db s)" "\<not> sq_closed s" "v = 1 \<longrightarrow> db_collection (sq_db s)"
  shows "\<exists>s' s''. apply_migration no_failure G v s = (s', None)
    \<and> sql_put_json no_failure G version_key (JNum v) s' = (s'', None)
    \<and> \<not> sq_closed s'' \<and> older_db G (sq_db s'') \<and> db_collection (sq_db s'')
    \<and> same_records (sq_db s) (sq_db s'')
    \<and> (v \<noteq> 1 \<and> v \<noteq> 2 \<longrightarrow> tables_match G (sq_db s''))"
proof -
  obtain s' where s': "apply_migration no_failure G v s = (s', None)" "\<not> sq_closed s'" "older_db G (sq_db s')"
    "db_collection (sq_db s')" "raw_view (sq_db s') = raw_view (sq_db s)"
    "v \<noteq> 1 \<and> v \<noteq> 2 \<longrightarrow> tables_match G (sq_db s')"
  proof -
    consider "v = 1" | "v = 2" | "v \<noteq> 1" "v \<noteq> 2" by blast
    then show thesis
    proof cases
      case 1
      then show ?thesis using that [of s] old by (simp add: apply_migration_def)
    next
      case 2
      from collection_column [OF old(1,2)] obtain s' where "ensure_collection_column no_failure s = (s', None)"
        "\<not> sq_closed s'" "ready_db G (sq_db s')" "raw_view (sq_db s') = raw_view (sq_db s)" by blast
      with 2 show ?thesis using that [of s'] by (simp add: apply_migration_def ready_db_def)
    next
      case 3
      from schema_completes [OF old(1,2)] obtain s' where "ensure_sqlite_schema no_failure G s = (s', None)"
        "\<not> sq_closed s'" "tables_match G (sq_db s')" "raw_view (sq_db s') = raw_view (sq_db s)" by blast
      with 3 match_ready show ?thesis using that [of s'] by (simp add: apply_migration_def ready_db_def)
    qed
  qed
  from put_version [OF s'(3,4,2), of v] obtain s'' where s'': "sql_put_json no_failure G version_key (JNum v) s' = (s'', None)"
    "\<not> sq_closed s''" "older_db G (sq_db s'')" "db_collection (sq_db s'')"
    "raw_view (sq_db s'') = (raw_view (sq_db s'))(version_key \<mapsto> JNum v)"
    "tables_match G (sq_db s') \<longrightarrow> tables_match G (sq_db s'')" by blast
  with s' show ?thesis by (auto simp: same_records_def)
qed

lemma migrations_complete:
  assumes "older_db G (sq_db s)" "\<not> sq_closed s" "current < 1 \<longrightarrow> db_collection (sq_db s)"
  shows "\<exists>s'. sql_migrations no_failure G current vs s = (s', None) \<and> \<not> sq_closed s' \<and> older_db G (sq_db s')
    \<and> same_records (sq_db s) (sq_db s')
    \<and> (vs \<noteq> [] \<and> last vs > current \<and> last vs > 2 \<longrightarrow> tables_match G (sq_db s'))"
  using assms
proof (induction vs arbitrary: s)
  case Nil
  then show ?case by (simp add: same_records_def)
next
  case (Cons v vs)
  show ?case
  proof (cases "v \<le> current")
    case True
    from Cons.IH [OF Cons.prems] obtain s' where "sql_migrations no_failure G current vs s = (s', None)"
      "\<not> sq_closed s'" "older_db G (sq_db s')" "same_records (sq_db s) (sq_db s')"
      "vs \<noteq> [] \<and> last vs > current \<and> last vs > 2 \<longrightarrow> tables_match G (sq_db s')" by blast
    with True show ?thesis by auto
  next
    case False
    then have "v = 1 \<longrightarrow> db_collection (sq_db s)" using Cons.prems(3) by simp
    from migration_step [OF Cons.prems(1,2) this] obtain s1 s2 where s12:
      "apply_migration no_failure G v s = (s1, None)" "sql_put_json no_failure G version_key (JNum v) s1 = (s2, None)"
      "\<not> sq_closed s2" "older_db G (sq_db s2)" "db_collection (sq_db s2)" "same_records (sq_db s) (sq_db s2)"
      "v \<noteq> 1 \<and> v \<noteq> 2 \<longrightarrow> tables_match G (sq_db s2)" by blast
    from Cons.IH [OF s12(4,3)] s12(5) obtain s' where s': "sql_migrations no_failure G current vs s2 = (s', None)"
      "\<not> sq_closed s'" "older_db G (sq_db s')" "same_records (sq_db s2) (sq_db s')"
      "vs \<noteq> [] \<and> last vs > current \<and> last vs > 2 \<longrightarrow> tables_match G (sq_db s')" by blast
    have "sql_migrations no_failure G current (v # vs) s = (s', None)"
      using False s12(1,2) s'(1) by (simp add: version_key_def)
    moreover have "tables_match G (sq_db s')" if "vs = []" "v > 2" using s12(7) s'(1) that by simp
    ultimately show ?thesis using s' s12(6) by (auto simp: same_records_def)
  qed
qed

definition version_of :: "store_error + json \<Rightarrow> int" where
  "version_of r = (case r of Inl e \<Rightarrow> 0 | Inr raw \<Rightarrow> (case json_to_int raw of None \<Rightarrow> 0 | Some n \<Rightarrow> n))"

lemma open_completes:
  assumes old: "older_db G db" and column: "db_collection db \<or> 1 \<le> sql_version db"
  shows "\<exists>q. open_sqlite no_failure G None (Some db) = (q, None) \<and> \<not> sq_closed q \<and> tables_match G (sq_db q)
    \<and> same_records db (sq_db q) \<and> (schema_version \<le> sql_version db \<longrightarrow> raw_view (sq_db q) = raw_view db)"
proof -
  obtain kv where kv: "db_kv db = Some kv" using old by (auto simp: older_db_def)
  define s0 where "s0 = \<lparr>sq_db = db, sq_closed = False, sq_calls = 0\<rparr>"
  define s1 where "s1 = s0\<lparr>sq_calls := 4\<rparr>"
  have init: "sql_init no_failure s0 = (s1, None)"
    using sql_execs_answered [of "[Pragma ''busy_timeout = 5000'', Pragma ''journal_mode = WAL'',
        Pragma ''synchronous = NORMAL'', Create_Kv]" s0 db "[0, 0, 0, 0]"] kv
    by (simp add: sql_init_def s0_def s1_def)
  have s1: "sq_db (tick s1) = db" "\<not> sq_closed (tick s1)" by (simp_all add: s1_def s0_def)
  have get: "sql_get_json no_failure version_key s1
      = (tick s1, case raw_view db version_key of None \<Rightarrow> Inl Not_Found | Some raw \<Rightarrow> Inr raw)"
    using kv by (auto simp: sql_get_json_def s1_def s0_def raw_view_def split: option.split)
  have version: "version_of (case raw_view db version_key of None \<Rightarrow> Inl Not_Found | Some raw \<Rightarrow> Inr raw) = sql_version db"
    by (simp add: version_of_def sql_version_def split: option.split)
  have run: "sql_run_migrations no_failure G s1 =
      (if schema_version \<le> sql_version db then ensure_sqlite_schema no_failure G (tick s1)
       else sql_migrations no_failure G (sql_version db) [1, 2, 3, 4, 5, 6, 7] (tick s1))"
    unfolding sql_run_migrations_def version_key_def [symmetric] get prod.case Let_def
    unfolding version_of_def [symmetric] version ..
  have "\<exists>q. sql_run_migrations no_failure G s1 = (q, None) \<and> \<not> sq_closed q \<and> tables_match G (sq_db q)
      \<and> same_records db (sq_db q) \<and> (schema_version \<le> sql_version db \<longrightarrow> raw_view (sq_db q) = raw_view db)"
  proof (cases "schema_version \<le> sql_version db")
    case True
    with schema_completes [of G "tick s1"] old s1 run show ?thesis by (auto simp: same_records_def)
  next
    case False
    then have "sql_version db < 7" by (simp add: schema_version_def)
    with migrations_complete [of G "tick s1" "sql_version db" "[1, 2, 3, 4, 5, 6, 7]"] old s1 run False column
    show ?thesis by auto
  qed
  then obtain q where "sql_run_migrations no_failure G s1 = (q, None)" "\<not> sq_closed q" "tables_match G (sq_db q)"
    "same_records db (sq_db q)" "schema_version \<le> sql_version db \<longrightarrow> raw_view (sq_db q) = raw_view db" by blast
  then show ?thesis using init by (auto simp: open_sqlite_def s0_def [symmetric] Let_def)
qed

section \<open>Properties\<close>

text \<open>C15: Opening a database an earlier version of the program wrote, typed tables missing or filled in
  part, the collection column missing or unlabelled, succeeds when every record decodes under its
  key and the driver does not fail; afterwards every typed table holds exactly the records of its
  collection and no record but the schema version has changed.\<close>

theorem open_backfills:
  assumes "older_db G db" "db_collection db \<or> 1 \<le> sql_version db"
  shows "\<exists>q. open_sqlite (\<lambda>_. Answered) G None (Some db) = (q, None) \<and> tables_match G (sq_db q)
    \<and> (\<forall>key. key \<noteq> version_key \<longrightarrow> raw_view (sq_db q) key = raw_view db key)"
  using open_completes [OF assms] by (auto simp: same_records_def)

text \<open>A database of schema version 1: raw rows only.\<close>

definition legacy_db :: sql_db where
  "legacy_db = empty_db\<lparr>db_kv := Some
     [(version_key, [], JNum 1), (''clients:aa:bb:cc:dd:ee:ff'', [], client_to_json ascii_lib laptop),
      (''customlist:custom:ads.example'', [], JBool True)]\<rparr>"

lemma legacy_older: "older_db ascii_lib legacy_db"
proof -
  have cell: "client_cell ascii_lib (cl_key laptop) (client_to_json ascii_lib laptop) = Some (client_row_of ascii_lib laptop)"
    by (rule client_cell_fits [OF _ laptop_fits]) code_simp
  have p1: "pair_good (''custom'', ''ads.example'')" by (simp add: pair_good_def)
  let ?kv = "[(version_key, [], JNum 1), (''clients:aa:bb:cc:dd:ee:ff'', [], client_to_json ascii_lib laptop),
      (''customlist:custom:ads.example'', [], JBool True)]"
  have "bcl.fits ascii_lib ?kv"
    using cell by (auto simp: bcl.fits_def version_key_def flat_key_def laptop_def split: if_split_asm)
  moreover have "bli.fits ?kv"
    unfolding bli.fits_def
  proof (intro allI impI)
    fix key c raw assume "map_of ?kv key = Some (c, raw)" "prefix ''customlist:'' key"
    then have "key = ''customlist:custom:ads.example''" by (auto simp: version_key_def split: if_split_asm)
    with p1 show "\<exists>k r. pair_good k \<and> key = pair_key ''customlist:'' k \<and> Some () = Some r"
      by (intro exI [of _ "(''custom'', ''ads.example'')"] exI [of _ "()"]) (simp add: pair_key_def)
  qed
  moreover have "bse.fits ascii_lib ?kv" "bst.fits ?kv" "bhi.fits ascii_lib ?kv"
    by (auto simp: bse.fits_def bst.fits_def bhi.fits_def version_key_def split: if_split_asm)
  ultimately show ?thesis
    by (simp add: older_db_def legacy_db_def empty_db_def records_fit_def Let_def sub_rows_def)
      (simp add: version_key_def)
qed

theorem open_backfills_witness:
  "\<exists>q. open_sqlite (\<lambda>_. Answered) ascii_lib None (Some legacy_db) = (q, None) \<and> tables_match ascii_lib (sq_db q)
     \<and> raw_view (sq_db q) ''customlist:custom:ads.example'' = Some (JBool True)"
proof -
  have "sql_version legacy_db = 1" by code_simp
  then have "db_collection legacy_db \<or> 1 \<le> sql_version legacy_db" by simp
  from open_backfills [OF legacy_older this] obtain q where
    "open_sqlite (\<lambda>_. Answered) ascii_lib None (Some legacy_db) = (q, None)" "tables_match ascii_lib (sq_db q)"
    "\<forall>key. key \<noteq> version_key \<longrightarrow> raw_view (sq_db q) key = raw_view legacy_db key" by blast
  moreover have "''customlist:custom:ads.example'' \<noteq> version_key" by (simp add: version_key_def)
  moreover have "raw_view legacy_db ''customlist:custom:ads.example'' = Some (JBool True)"
    by (simp add: raw_view_def legacy_db_def version_key_def)
  ultimately show ?thesis by auto
qed

end
