(* ===== verification/Store_Admin.thy ===== *)
theory Store_Admin
  imports Sqlite_Open
begin

text \<open>
  The maintenance of the stores: \<open>internal/store/verify.go\<close> (verification and counts),
  \<open>transfer.go\<close> (import of a JSON store into SQLite, export back) and \<open>maintenance.go\<close> (compaction),
  with \<open>OpenBackend\<close> of \<open>store.go\<close>.

  A JSON store file is what its reader finds in it (\<open>json_text\<close>), a SQLite file the database it
  holds with its write-ahead log.  Paths are the data directory with the file name appended.
\<close>

section \<open>Verification\<close>

datatype json_text =
    Missing_File
  | Unreadable string
  | Empty_File
  | Blank_File
  | Garbage
  | Rows "(string, json) alist"

record verify_result =
  vr_backend :: string
  vr_path :: string
  vr_records :: nat
  vr_schema_version :: int
  vr_counts :: "(string, nat) alist"

text \<open>\<open>json.Unmarshal\<close> into a map: of two rows with one key the last stays.\<close>

definition row_map :: "(string, json) alist \<Rightarrow> (string, json) alist" where
  "row_map kvs = fold (\<lambda>(k, v). AList.update k v) kvs []"

definition count_up :: "string \<Rightarrow> (string, nat) alist \<Rightarrow> (string, nat) alist" where
  "count_up c m = AList.update c (Suc (case map_of m c of None \<Rightarrow> 0 | Some n \<Rightarrow> n)) m"

definition collection_counts :: "(string, 'a) alist \<Rightarrow> (string, nat) alist" where
  "collection_counts rows = fold (\<lambda>(k, v). count_up (collection_name k)) rows []"

definition int_or_zero :: "json option \<Rightarrow> int" where
  "int_or_zero raw = (case raw of None \<Rightarrow> 0 | Some j \<Rightarrow> (case json_to_int j of None \<Rightarrow> 0 | Some n \<Rightarrow> n))"

definition verify_json :: "string \<Rightarrow> json_text \<Rightarrow> store_error + verify_result" where
  "verify_json path text =
     (let nothing = \<lparr>vr_backend = ''json'', vr_path = path, vr_records = 0, vr_schema_version = 0, vr_counts = []\<rparr> in
      case text of
        Missing_File \<Rightarrow> Inr nothing
      | Unreadable e \<Rightarrow> Inl (Io_Error e)
      | Empty_File \<Rightarrow> Inr nothing
      | Blank_File \<Rightarrow> Inr nothing
      | Garbage \<Rightarrow> Inl Bad_Json
      | Rows kvs \<Rightarrow>
          let rows = row_map kvs in
          Inr \<lparr>vr_backend = ''json'', vr_path = path, vr_records = length rows,
               vr_schema_version = int_or_zero (map_of rows ''store_meta:schema_version''),
               vr_counts = collection_counts rows\<rparr>)"

text \<open>
  \<open>GROUP BY collection\<close> gives each label with its count; the entry of the empty label is written
  under \<open>unknown\<close>, over the entry of that label if it came before.
\<close>

definition label_counts :: "(string, string \<times> json) alist \<Rightarrow> (string, nat) alist" where
  "label_counts rows =
     fold (\<lambda>c. AList.update (if c = [] then ''unknown'' else c) (length (filter (\<lambda>r. fst (snd r) = c) rows)))
       (remdups (map (\<lambda>r. fst (snd r)) rows)) []"

definition sqlite_collection_counts ::
  "sql_io \<Rightarrow> sqlite_store \<Rightarrow> sqlite_store \<times> (store_error + (string, nat) alist)" where
  "sqlite_collection_counts io s =
     (case sql_query io (Some (db_kv (sq_db s) \<noteq> None \<and> db_collection (sq_db s))) s of
        (s, Inl e) \<Rightarrow> (s, Inl e)
      | (s, Inr has) \<Rightarrow>
          if has then sql_query io (map_option label_counts (db_kv (sq_db s))) s
          else sql_query io (map_option collection_counts (db_kv (sq_db s))) s)"

text \<open>\<open>check\<close> is what \<open>PRAGMA quick_check\<close> says, \<open>stat\<close> the error of \<open>os.Stat\<close>, \<open>opened\<close> that of \<open>sql.Open\<close>.\<close>

definition verify_sqlite ::
  "sql_io \<Rightarrow> string option \<Rightarrow> string option \<Rightarrow> string \<Rightarrow> string \<Rightarrow> sql_db option \<Rightarrow> store_error + verify_result" where
  "verify_sqlite io stat opened check path file =
     (case (file, stat, opened) of
        (_, Some e, _) \<Rightarrow> Inl (Io_Error e)
      | (None, None, _) \<Rightarrow> Inl (Io_Error ''no such file'')
      | (Some db, None, Some e) \<Rightarrow> Inl (Io_Error e)
      | (Some db, None, None) \<Rightarrow>
          let s = \<lparr>sq_db = db, sq_closed = False, sq_calls = 0\<rparr> in
          (case sql_query io (Some check) s of
             (s, Inl e) \<Rightarrow> Inl e
           | (s, Inr answer) \<Rightarrow>
               if answer \<noteq> ''ok'' then Inl (Io_Error (''sqlite quick_check failed: '' @ answer))
               else
                 (case sql_query io (map_option length (db_kv db)) s of
                    (s, Inl e) \<Rightarrow> Inl e
                  | (s, Inr records) \<Rightarrow>
                      (case sql_query io (map_option (\<lambda>rows. map_option snd (map_of rows ''store_meta:schema_version'')) (db_kv db)) s of
                         (s, Inl e) \<Rightarrow> Inl e
                       | (s, Inr raw) \<Rightarrow>
                           (case sqlite_collection_counts io s of
                              (s, Inl e) \<Rightarrow> Inl e
                            | (s, Inr counts) \<Rightarrow>
                                Inr \<lparr>vr_backend = ''sqlite'', vr_path = path, vr_records = records,
                                     vr_schema_version = int_or_zero raw, vr_counts = counts\<rparr>)))))"

definition collection_names :: "verify_result option \<Rightarrow> string list" where
  "collection_names r = (case r of None \<Rightarrow> [] | Some v \<Rightarrow> sort (map fst (vr_counts v)))"

section \<open>Import and export\<close>

definition decode_json_rows :: "json_text \<Rightarrow> store_error + (string, json) alist" where
  "decode_json_rows text =
     (case text of
        Empty_File \<Rightarrow> Inr []
      | Rows kvs \<Rightarrow>
          let rows = row_map kvs in
          if [] \<in> fst ` set rows then Inl (Io_Error ''empty key'') else Inr rows
      | _ \<Rightarrow> Inl Bad_Json)"

text \<open>The operating system's answers: the error of \<open>os.Stat\<close>, of \<open>os.Remove\<close> per file, of opening.\<close>

record transfer_os =
  os_stat :: "string option"
  os_remove :: "nat \<Rightarrow> string option"
  os_open :: "string option"

definition exists_error :: store_error where "exists_error = Io_Error ''already exists; pass -force to overwrite''"

definition prepare_target ::
  "transfer_os \<Rightarrow> bool \<Rightarrow> sql_db option \<Rightarrow> sql_db option \<times> store_error option" where
  "prepare_target os force file =
     (if \<not> force then
        (case os_stat os of
           Some e \<Rightarrow> (file, Some (Io_Error e))
         | None \<Rightarrow> (file, if file = None then None else Some exists_error))
      else
        (case os_remove os 0 of
           Some e \<Rightarrow> (file, Some (Io_Error e))
         | None \<Rightarrow>
             (None, case (os_remove os 1, os_remove os 2) of
                      (Some e, _) \<Rightarrow> Some (Io_Error e)
                    | (None, Some e) \<Rightarrow> Some (Io_Error e)
                    | (None, None) \<Rightarrow> None)))"

definition put_rows :: "sql_io \<Rightarrow> golib \<Rightarrow> (string, json) alist \<Rightarrow> sqlite_store \<Rightarrow> sqlite_store \<times> store_error option" where
  "put_rows io G rows = steps (map (\<lambda>(k, v). put_raw_json io G k v) rows)"

definition import_json_to_sqlite ::
  "sql_io \<Rightarrow> golib \<Rightarrow> transfer_os \<Rightarrow> bool \<Rightarrow> json_text \<Rightarrow> sql_db option \<Rightarrow> sql_db option \<times> (store_error + nat)" where
  "import_json_to_sqlite io G os force text file =
     (case decode_json_rows text of
        Inl e \<Rightarrow> (file, Inl e)
      | Inr rows \<Rightarrow>
          (case prepare_target os force file of
             (file, Some e) \<Rightarrow> (file, Inl e)
           | (file, None) \<Rightarrow>
               (case open_sqlite io G (os_open os) file of
                  (s, Some e) \<Rightarrow> (if os_open os = None then Some (sq_db s) else file, Inl e)
                | (s, None) \<Rightarrow>
                    (case put_rows io G rows s of
                       (s, Some e) \<Rightarrow> (Some (sq_db s), Inl e)
                     | (s, None) \<Rightarrow> (Some (sq_db s), Inr (length rows))))))"

definition migrate_json_to_sqlite ::
  "sql_io \<Rightarrow> golib \<Rightarrow> transfer_os \<Rightarrow> bool \<Rightarrow> json_text \<Rightarrow> sql_db option \<Rightarrow> sql_db option \<times> (store_error + nat)" where
  "migrate_json_to_sqlite io G os force text file =
     (case text of
        Missing_File \<Rightarrow> (file, Inl (Io_Error ''no such file''))
      | Unreadable e \<Rightarrow> (file, Inl (Io_Error e))
      | _ \<Rightarrow> import_json_to_sqlite io G os force text file)"

text \<open>
  \<open>writeExportFileAtomic\<close>: \<open>fails n\<close> is the error of the n-th step (stat, directory, temporary file,
  write, mode, sync, close, rename); only the last one changes the target.
\<close>

definition first_error :: "(nat \<Rightarrow> string option) \<Rightarrow> nat list \<Rightarrow> store_error option" where
  "first_error fails ns = (case filter (\<lambda>n. fails n \<noteq> None) ns of
     [] \<Rightarrow> None | n # _ \<Rightarrow> map_option Io_Error (fails n))"

definition write_export_file_atomic ::
  "(nat \<Rightarrow> string option) \<Rightarrow> bool \<Rightarrow> 'a \<Rightarrow> 'a option \<Rightarrow> 'a option \<times> store_error option" where
  "write_export_file_atomic fails force content target =
     (case (if force then None
            else if fails 0 \<noteq> None then map_option Io_Error (fails 0)
            else if target \<noteq> None then Some exists_error else None) of
        Some e \<Rightarrow> (target, Some e)
      | None \<Rightarrow>
          (case first_error fails [1, 2, 3, 4, 5, 6, 7] of
             Some e \<Rightarrow> (target, Some e)
           | None \<Rightarrow> (Some content, None)))"

definition export_sqlite_to_json ::
  "sql_io \<Rightarrow> golib \<Rightarrow> string option \<Rightarrow> (nat \<Rightarrow> string option) \<Rightarrow> bool \<Rightarrow> sql_db option
     \<Rightarrow> (string, json) alist option \<Rightarrow> (string, json) alist option \<times> (store_error + nat)" where
  "export_sqlite_to_json io G opened fails force file target =
     (case open_sqlite io G opened file of
        (s, Some e) \<Rightarrow> (target, Inl e)
      | (s, None) \<Rightarrow>
          (case sql_scan io [] s of
             (s, rows) \<Rightarrow>
               (case write_export_file_atomic fails force (map (\<lambda>(k, v). (json_string k, v)) (sort_key fst rows)) target of
                  (target, Some e) \<Rightarrow> (target, Inl e)
                | (target, None) \<Rightarrow> (target, Inr (length rows)))))"

section \<open>Compaction and the choice of a backend\<close>

definition unsupported :: "string \<Rightarrow> store_error" where
  "unsupported backend = Io_Error (''store backend is not supported: '' @ backend)"

text \<open>The JSON store is rewritten by opening and closing it.\<close>

definition compact_json ::
  "(nat \<Rightarrow> save_result) \<Rightarrow> string option \<Rightarrow> json_text \<Rightarrow> (string, json) alist option \<times> (store_error + unit)" where
  "compact_json io stat text =
     (case (stat, text) of
        (Some e, _) \<Rightarrow> (None, Inl (Io_Error e))
      | (None, Missing_File) \<Rightarrow> (None, Inl (Io_Error ''no such file''))
      | (None, Unreadable e) \<Rightarrow> (None, Inl (Io_Error e))
      | (None, text) \<Rightarrow>
          (case open_file_store io (Some (case text of Rows kvs \<Rightarrow> Some kvs | Empty_File \<Rightarrow> Some [] | _ \<Rightarrow> None)) of
             Inl e \<Rightarrow> (None, Inl e)
           | Inr s \<Rightarrow>
               (case file_close io s of
                  (s, Some e) \<Rightarrow> (fs_disk s, Inl e)
                | (s, None) \<Rightarrow> (fs_disk s, Inr ()))))"

definition compact_sqlite ::
  "sql_io \<Rightarrow> golib \<Rightarrow> string option \<Rightarrow> string option \<Rightarrow> sql_db option \<Rightarrow> sql_db option \<times> (store_error + unit)" where
  "compact_sqlite io G stat opened file =
     (case (stat, file) of
        (Some e, _) \<Rightarrow> (file, Inl (Io_Error e))
      | (None, None) \<Rightarrow> (file, Inl (Io_Error ''no such file''))
      | (None, Some db) \<Rightarrow>
          (case open_sqlite io G opened file of
             (s, Some e) \<Rightarrow> (Some (sq_db s), Inl e)
           | (s, None) \<Rightarrow>
               (case sql_compact io s of
                  (s, Some e) \<Rightarrow> (Some (sq_db s), Inl e)
                | (s, None) \<Rightarrow>
                    (case sql_close io s of
                       (s, Some e) \<Rightarrow> (Some (sq_db s), Inl e)
                     | (s, None) \<Rightarrow> (Some (sq_db s), Inr ())))))"

datatype 'c backend_choice = Use_Json 'c | Use_Sqlite 'c | Unsupported store_error

definition choose_backend :: "string \<Rightarrow> 'c \<Rightarrow> 'c \<Rightarrow> 'c backend_choice" where
  "choose_backend backend json sqlite =
     (if backend = [] \<or> backend = ''json'' then Use_Json json
      else if backend = ''sqlite'' then Use_Sqlite sqlite
      else Unsupported (unsupported backend))"

datatype opened_store = Json_Store file_store | Sqlite_Store sqlite_store

definition open_backend ::
  "(nat \<Rightarrow> save_result) \<Rightarrow> sql_io \<Rightarrow> golib \<Rightarrow> string option \<Rightarrow> string \<Rightarrow> (string, json) alist option option \<Rightarrow> sql_db option
     \<Rightarrow> store_error + opened_store" where
  "open_backend io sio G opened backend json_file sqlite_file =
     (case choose_backend backend () () of
        Use_Json _ \<Rightarrow> map_sum id Json_Store (open_file_store io json_file)
      | Use_Sqlite _ \<Rightarrow>
          (case open_sqlite sio G opened sqlite_file of
             (s, Some e) \<Rightarrow> Inl e | (s, None) \<Rightarrow> Inr (Sqlite_Store s))
      | Unsupported e \<Rightarrow> Inl e)"

definition verify_backend ::
  "sql_io \<Rightarrow> string option \<Rightarrow> string option \<Rightarrow> string \<Rightarrow> string \<Rightarrow> string \<Rightarrow> json_text \<Rightarrow> sql_db option
     \<Rightarrow> store_error + verify_result" where
  "verify_backend io stat opened check backend data_dir text file =
     (case choose_backend backend (data_dir @ ''/sis.db.json'') (data_dir @ ''/sis.db'') of
        Use_Json path \<Rightarrow> verify_json path text
      | Use_Sqlite path \<Rightarrow> verify_sqlite io stat opened check path file
      | Unsupported e \<Rightarrow> Inl e)"

definition compact_backend ::
  "(nat \<Rightarrow> save_result) \<Rightarrow> sql_io \<Rightarrow> golib \<Rightarrow> string option \<Rightarrow> string option \<Rightarrow> string \<Rightarrow> string \<Rightarrow> json_text \<Rightarrow> sql_db option
     \<Rightarrow> store_error + string" where
  "compact_backend io sio G stat opened backend data_dir text file =
     (case choose_backend backend (data_dir @ ''/sis.db.json'') (data_dir @ ''/sis.db'') of
        Use_Json path \<Rightarrow> map_sum id (\<lambda>_. path) (snd (compact_json io stat text))
      | Use_Sqlite path \<Rightarrow> map_sum id (\<lambda>_. path) (snd (compact_sqlite sio G stat opened file))
      | Unsupported e \<Rightarrow> Inl e)"

section \<open>Importing rows one by one\<close>

lemma fits_single:
  "bcl.fits G [(key, c, raw)] \<longleftrightarrow> (prefix ''clients:'' key \<longrightarrow> (\<exists>k r. key = flat_key ''clients:'' k \<and> client_cell G k raw = Some r))"
  "bse.fits G [(key, c, raw)] \<longleftrightarrow> (prefix ''session:'' key \<longrightarrow> (\<exists>k r. key = flat_key ''session:'' k \<and> session_cell G k raw = Some r))"
  "bli.fits [(key, c, raw)] \<longleftrightarrow> (prefix ''customlist:'' key \<longrightarrow> (\<exists>k. pair_good k \<and> key = pair_key ''customlist:'' k))"
  "bst.fits [(key, c, raw)] \<longleftrightarrow>
     (prefix ''stats:'' key \<longrightarrow> (\<exists>k r. stats_good k \<and> key = pair_key ''stats:'' k \<and> stats_cell k raw = Some r))"
  "bhi.fits G [(key, c, raw)] \<longleftrightarrow>
     (prefix ''confhist:'' key \<longrightarrow> (\<exists>k r. k \<noteq> [] \<and> key = flat_key ''confhist:'' k \<and> history_cell G k raw = Some r))"
  unfolding bcl.fits_def bse.fits_def bli.fits_def bst.fits_def bhi.fits_def by (auto split: if_split_asm)

lemma collection_prefixes:
  "collection_name key = ''clients'' \<Longrightarrow> prefix ''clients:'' key"
  "collection_name key = ''session'' \<Longrightarrow> prefix ''session:'' key"
  "collection_name key = ''customlist'' \<Longrightarrow> prefix ''customlist:'' key"
  "collection_name key = ''stats'' \<Longrightarrow> prefix ''stats:'' key"
  "collection_name key = ''confhist'' \<Longrightarrow> prefix ''confhist:'' key"
  using collection_prefix [of key] by force+

text \<open>\<open>stored s s' key raw\<close>: the row was written and the tables match.\<close>

definition row_stored :: "golib \<Rightarrow> sqlite_store \<Rightarrow> string \<Rightarrow> json \<Rightarrow> sqlite_store \<times> store_error option \<Rightarrow> bool" where
  "row_stored G s key raw res \<longleftrightarrow>
     (\<exists>s'. res = (s', None) \<and> \<not> sq_closed s' \<and> tables_match G (sq_db s')
       \<and> raw_view (sq_db s') = (raw_view (sq_db s))(key \<mapsto> raw))"

lemma tx_stored:
  assumes m: "tables_match G (sq_db s)" and "\<not> sq_closed s"
    and ex: "exec_stmt st (sq_db s) = Some (db, n)" "db_kv db = db_kv (sq_db s)" "db_collection db"
    and match: "\<And>db'. transaction [st, Put_Kv key c raw] (sq_db s) db' \<Longrightarrow> tables_match G db'"
  shows "row_stored G s key raw (sql_tx no_failure [st, Put_Kv key c raw] s)"
proof -
  obtain s' where s': "sql_tx no_failure [st, Put_Kv key c raw] s = (s', None)" "sq_closed s' = sq_closed s"
    "\<forall>k. map_of (kv_rows s') k = (if k = key then Some (c, raw) else map_of (kv_rows s) k)"
    using sql_put_good [OF m ex, of key c raw] by blast
  have "tables_match G (sq_db s')"
    using sql_tx_keeps [of "[st, Put_Kv key c raw]" s G no_failure] match m s'(1) by auto
  then show ?thesis using s' assms(2) by (auto simp: row_stored_def raw_view_def fun_eq_iff)
qed

lemma put_raw_stored:
  assumes m: "tables_match G (sq_db s)" and o: "\<not> sq_closed s" and fit: "records_fit G [(key, c, raw)]"
  shows "row_stored G s key raw (put_raw_json no_failure G key raw s)"
proof -
  obtain kv C S L T H where t: "db_kv (sq_db s) = Some kv" "db_collection (sq_db s)" "db_clients (sq_db s) = Some C"
    "db_sessions (sq_db s) = Some S" "db_lists (sq_db s) = Some L" "db_stats (sq_db s) = Some T"
    "db_history (sq_db s) = Some H"
    by (rule match_tables [OF m])
  note fits = fit [unfolded records_fit_def fits_single]
  consider (clients) "collection_name key = ''clients''" | (session) "collection_name key = ''session''"
    | (lists) "collection_name key = ''customlist''" | (stats) "collection_name key = ''stats''"
    | (history) "collection_name key = ''confhist''"
    | (other) "collection_name key \<notin> {''clients'', ''session'', ''customlist'', ''stats'', ''confhist''}" by blast
  then show ?thesis
  proof cases
    case clients
    with fits collection_prefixes(1) obtain k r where k: "key = flat_key ''clients:'' k" "client_cell G k raw = Some r" by blast
    then obtain v where v: "client_of_json G raw = Some v" "cl_key v = k" "r = client_row_of G v"
      by (auto simp: client_cell_def split: option.splits if_split_asm)
    have "cr_key r = k" using v by (simp add: client_row_of_def)
    with tx_stored [OF m o, of "Put_Client r" _ _ key "''clients''" raw] put_client_match [OF m, of r raw] k t
    have "row_stored G s key raw (sql_tx no_failure [Put_Client r, Put_Kv key ''clients'' raw] s)" by simp
    moreover have "or_key (cl_key v) ''clients:'' key = k" using or_key_flat [of k "''clients:''"] k(1) v(2) by (simp add: flat_key_def)
    moreover have "client_row_of G (v\<lparr>cl_key := k\<rparr>) = client_row_of G v" using v(2) by (simp add: client_row_of_def)
    ultimately show ?thesis using o clients v by (simp add: put_raw_json_def put_client_locked_def)
  next
    case session
    with fits collection_prefixes(2) obtain k r where k: "key = flat_key ''session:'' k" "session_cell G k raw = Some r" by blast
    then obtain v where v: "session_of_json G raw = Some v" "se_token v = k" "r = session_row_of G v"
      by (auto simp: session_cell_def split: option.splits if_split_asm)
    have "sw_token r = k" using v by (simp add: session_row_of_def)
    with tx_stored [OF m o, of "Put_Session r" _ _ key "''session''" raw] put_session_match [OF m, of r raw] k t
    have "row_stored G s key raw (sql_tx no_failure [Put_Session r, Put_Kv key ''session'' raw] s)" by simp
    moreover have "or_key (se_token v) ''session:'' key = k" using or_key_flat [of k "''session:''"] k(1) v(2) by (simp add: flat_key_def)
    moreover have "session_row_of G (v\<lparr>se_token := k\<rparr>) = session_row_of G v" using v(2) by (simp add: session_row_of_def)
    ultimately show ?thesis using o session v by (simp add: put_raw_json_def put_session_locked_def)
  next
    case lists
    with fits collection_prefixes(3) obtain k where k: "key = pair_key ''customlist:'' k" "pair_good k" by blast
    with tx_stored [OF m o, of "Put_List (fst k) (snd k)" _ _ key "''customlist''" raw]
      put_list_match [OF m, of "fst k" "snd k" raw] t
    have "row_stored G s key raw (sql_tx no_failure [Put_List (fst k) (snd k), Put_Kv key ''customlist'' raw] s)" by simp
    moreover have "split_custom_list_key key = Some k"
      using split_pair_key [OF k(2), of "''customlist:''"] by (simp add: split_custom_list_key_def k(1))
    ultimately show ?thesis using o lists by (cases k) (simp add: put_raw_json_def put_custom_list_locked_def)
  next
    case stats
    with fits collection_prefixes(4) obtain k r where k: "key = pair_key ''stats:'' k" "stats_good k" "stats_cell k raw = Some r" by blast
    then obtain v where v: "stats_row_of_json raw = Some v" "r = counters_to_json (sr_counters v)"
      by (auto simp: stats_cell_def split: option.splits if_split_asm)
    from k t tx_stored [OF m o, of "Put_Stats (fst k) (snd k) r" _ _ key "''stats''" raw]
      put_stats_match [OF m, of "fst k" "snd k" raw r]
    have "row_stored G s key raw (sql_tx no_failure [Put_Stats (fst k) (snd k) r, Put_Kv key ''stats'' raw] s)" by simp
    moreover have "split_stats_key key = Some k"
      using split_pair_key [of k "''stats:''"] k(2) by (simp add: split_stats_key_def k(1) stats_good_def)
    ultimately show ?thesis using o stats v by (cases k) (simp add: put_raw_json_def put_stats_locked_def)
  next
    case history
    with fits collection_prefixes(5) obtain k r where k: "key = flat_key ''confhist:'' k" "k \<noteq> []" "history_cell G k raw = Some r" by blast
    then obtain v where v: "snapshot_of_json G raw = Some v" "sqlite_time G (sn_ts v) = k" "r = sn_yaml v"
      by (auto simp: history_cell_def split: option.splits if_split_asm)
    with k(2) have nz: "\<not> time_is_zero (sn_ts v)" by (auto simp: sqlite_time_def)
    from k t tx_stored [OF m o, of "Put_History k r" _ _ key "''confhist''" raw] put_history_match [OF m k(2,3)]
    have "row_stored G s key raw (sql_tx no_failure [Put_History k r, Put_Kv key ''confhist'' raw] s)" by simp
    then show ?thesis using o history v nz
      by (simp add: put_raw_json_def put_config_history_locked_def snapshot_time_def)
  next
    case other
    let ?db = "(sq_db s)\<lparr>db_kv := Some (AList.update key (collection_name key, raw) kv)\<rparr>"
    have ex: "exec_stmt (Put_Kv key (collection_name key) raw) (sq_db s) = Some (?db, 1)" using t(1,2) by simp
    then have "transaction [Put_Kv key (collection_name key) raw] (sq_db s) ?db" by (simp add: transaction_def)
    from put_plain_match [OF m this other] have "tables_match G ?db" .
    then show ?thesis using other o sql_exec_answered [OF ex] t(1)
      by (auto simp: put_raw_json_def row_stored_def raw_view_def fun_eq_iff)
  qed
qed

lemma put_rows_stored:
  assumes "tables_match G (sq_db s)" "\<not> sq_closed s" "\<forall>(k, v) \<in> set rows. records_fit G [(k, [], v)]" "alist_ok rows"
  shows "\<exists>s'. put_rows no_failure G rows s = (s', None) \<and> \<not> sq_closed s' \<and> tables_match G (sq_db s')
    \<and> raw_view (sq_db s') = raw_view (sq_db s) ++ map_of rows"
  using assms
proof (induction rows arbitrary: s)
  case (Cons row rows)
  obtain k v where row: "row = (k, v)" by (cases row)
  with Cons.prems have "records_fit G [(k, [], v)]" by simp
  then have "records_fit G [(k, c, v)]" for c by (simp add: records_fit_def fits_single)
  from put_raw_stored [OF Cons.prems(1,2) this] obtain s1 where s1: "put_raw_json no_failure G k v s = (s1, None)"
    "\<not> sq_closed s1" "tables_match G (sq_db s1)" "raw_view (sq_db s1) = (raw_view (sq_db s))(k \<mapsto> v)"
    by (auto simp: row_stored_def)
  from Cons.IH [OF s1(3,2)] Cons.prems(3,4) obtain s' where "put_rows no_failure G rows s1 = (s', None)" "\<not> sq_closed s'"
    "tables_match G (sq_db s')" "raw_view (sq_db s') = raw_view (sq_db s1) ++ map_of rows" by auto
  moreover have "map_of rows k = None" using Cons.prems(4) row by (auto simp: map_of_eq_None_iff)
  ultimately show ?case using s1 by (auto simp: put_rows_def row map_add_def fun_eq_iff split: option.split)
qed (simp add: put_rows_def)

lemma fits_rows:
  assumes "records_fit G kv" "map_of kv key = Some (c, raw)"
  shows "records_fit G [(key, [], raw)]"
  using assms unfolding records_fit_def fits_single
  unfolding bcl.fits_def bse.fits_def bli.fits_def bst.fits_def bhi.fits_def by blast

section \<open>What the repositories leave alone in the JSON store\<close>

lemma file_put_other: "key \<noteq> k \<Longrightarrow> map_of (fs_data (fst (file_put io k v f))) key = map_of (fs_data f) key"
  by (simp add: file_put_def)

lemma file_delete_other: "key \<noteq> k \<Longrightarrow> map_of (fs_data (fst (file_delete io k f))) key = map_of (fs_data f) key"
  by (simp add: file_delete_def)

lemma purge_other:
  "\<forall>(k, raw) \<in> set rows. k \<noteq> key \<Longrightarrow>
     map_of (fs_data (fst (delete_expired_rows (file_ops io) G now rows f))) key = map_of (fs_data f) key"
proof (induction rows arbitrary: f)
  case (Cons row rows)
  obtain k raw where row: "row = (k, raw)" by (cases row)
  obtain f' r where d: "file_delete io k f = (f', r)" by (cases "file_delete io k f")
  have "map_of (fs_data f') key = map_of (fs_data f) key"
    using file_delete_other [of key k io f] Cons.prems d by (auto simp: row)
  then show ?case using Cons d by (auto simp: row file_ops_def split: option.split)
qed simp

definition outside :: "string \<Rightarrow> bool" where
  "outside key \<longleftrightarrow> (\<forall>p \<in> {''clients:'', ''session:'', ''customlist:'', ''stats:'', ''confhist:''}. \<not> prefix p key)"

lemma outside_append: "outside key \<Longrightarrow> p \<in> {''clients:'', ''session:'', ''customlist:'', ''stats:'', ''confhist:''} \<Longrightarrow> key \<noteq> p @ k"
  by (metis outside_def prefixI)

lemma put_outside:
  "outside key \<Longrightarrow> p \<in> {''clients:'', ''session:'', ''customlist:'', ''stats:'', ''confhist:''} \<Longrightarrow>
     map_of (fs_data (fst (file_put io (p @ k) v f))) key = map_of (fs_data f) key"
  using file_put_other outside_append by blast

lemma delete_outside:
  "outside key \<Longrightarrow> p \<in> {''clients:'', ''session:'', ''customlist:'', ''stats:'', ''confhist:''} \<Longrightarrow>
     map_of (fs_data (fst (file_delete io (p @ k) f))) key = map_of (fs_data f) key"
  using file_delete_other outside_append by blast

lemma file_step_outside:
  assumes "outside key"
  shows "map_of (fs_data (fst (file_step io G op f))) key = map_of (fs_data f) key"
proof (cases op)
  case (Session_Purge now)
  have "\<forall>(k, raw) \<in> set (file_scan ''session:'' f). k \<noteq> key" using assms by (auto simp: file_scan_def outside_def)
  from purge_other [OF this, of io G now f] Session_Purge show ?thesis by (simp add: delete_expired_def file_ops_def)
next
  case (Client_Upsert c)
  then show ?thesis using put_outside [OF assms, of "''clients:''" io "cl_key (the c)" "client_to_json G (the c)" f]
    by (cases c) (simp_all add: client_upsert_def file_ops_def)
next
  case (Client_Delete k)
  then show ?thesis using delete_outside [OF assms, of "''clients:''" io k f] by (simp add: client_delete_def file_ops_def)
next
  case (List_Add l d)
  then show ?thesis using put_outside [OF assms, of "''customlist:''" io "l @ '':'' @ d" "JBool True" f]
    by (simp add: custom_add_def file_ops_def)
next
  case (List_Remove l d)
  then show ?thesis using delete_outside [OF assms, of "''customlist:''" io "l @ '':'' @ d" f]
    by (simp add: custom_remove_def file_ops_def)
next
  case (Session_Upsert v)
  then show ?thesis using put_outside [OF assms, of "''session:''" io "se_token (the v)" "session_to_json G (the v)" f]
    by (cases v) (simp_all add: session_upsert_def file_ops_def)
next
  case (Session_Delete t)
  then show ?thesis using delete_outside [OF assms, of "''session:''" io t f] by (simp add: session_delete_def file_ops_def)
next
  case (Stats_Put g b r)
  then show ?thesis
    using put_outside [OF assms, of "''stats:''" io "g @ '':'' @ b" "stats_row_to_json ((the r)\<lparr>sr_bucket := b\<rparr>)" f]
    by (cases r) (simp_all add: stats_put_def file_ops_def)
next
  case (History_Append now v)
  show ?thesis
  proof (cases v)
    case (Some a)
    define u where "u = (if time_is_zero (sn_ts a) then a\<lparr>sn_ts := now\<rparr> else a)"
    show ?thesis
      using put_outside [OF assms, of "''confhist:''" io "g_fmt_time G (sn_ts u)" "snapshot_to_json G u" f]
      unfolding History_Append Some file_step.simps history_append_def option.case Let_def u_def [symmetric]
      by (simp add: file_ops_def)
  qed (simp add: History_Append history_append_def)
qed simp_all

lemma run_outside:
  "outside key \<Longrightarrow> map_of (fs_data (fst (run_ops (file_step io G) ops f))) key = map_of (fs_data f) key"
proof (induction ops arbitrary: f)
  case (Cons op ops)
  then show ?case unfolding run_ops_Cons using file_step_outside [OF Cons.prems, of io G op f] by simp
qed simp

lemma row_map_append: "alist_ok (acc @ kvs) \<Longrightarrow> fold (\<lambda>(k, v). AList.update k v) kvs acc = acc @ kvs"
proof (induction kvs arbitrary: acc)
  case (Cons kv kvs)
  obtain k v where kv: "kv = (k, v)" by (cases kv)
  with Cons.prems have "k \<notin> keys acc" by (auto simp: image_iff)
  then show ?case using Cons.IH [of "acc @ [(k, v)]"] Cons.prems by (simp add: kv update_new)
qed simp

lemma row_map_id: "alist_ok kvs \<Longrightarrow> row_map kvs = kvs"
  using row_map_append [of "[]" kvs] by (simp add: row_map_def)

section \<open>Migration\<close>

definition quiet_os :: transfer_os where
  "quiet_os = \<lparr>os_stat = None, os_remove = (\<lambda>_. None), os_open = None\<rparr>"

lemma migrated:
  assumes data: "alist_ok data" "[] \<notin> keys data" "map_of data version_key = Some (JNum 7)"
    and fits: "\<forall>(k, v) \<in> set data. records_fit G [(k, [], v)]"
  shows "\<exists>db. migrate_json_to_sqlite no_failure G quiet_os False (Rows data) None = (Some db, Inr (length data))
    \<and> tables_match G db \<and> raw_view db = map_of data"
proof -
  obtain s where s: "open_sqlite no_failure G None None = (s, None)" "sq_db s = new_db"
    using open_new [of G] by (cases "open_sqlite no_failure G None None") auto
  have "\<not> sq_closed (fst (open_sqlite no_failure G None None))" by code_simp
  then have o: "\<not> sq_closed s" using s(1) by simp
  from put_rows_stored [of G s data] new_db_match [of G] s(2) o fits data(1) obtain s' where
    s': "put_rows no_failure G data s = (s', None)" "tables_match G (sq_db s')"
    "raw_view (sq_db s') = raw_view (sq_db s) ++ map_of data" by auto
  have "raw_view (sq_db s) ++ map_of data = map_of data"
  proof
    fix key
    show "(raw_view (sq_db s) ++ map_of data) key = map_of data key"
      using data(3) by (cases "key = version_key")
        (auto simp: s(2) raw_view_def new_db_def version_key_def map_add_def split: option.split)
  qed
  moreover have "migrate_json_to_sqlite no_failure G quiet_os False (Rows data) None = (Some (sq_db s'), Inr (length data))"
    using s(1) s'(1) data(2)
    by (simp add: migrate_json_to_sqlite_def import_json_to_sqlite_def decode_json_rows_def Let_def row_map_id [OF data(1)]
        prepare_target_def quiet_os_def)
  ultimately show ?thesis using s' by auto
qed

lemma store_rows_fit:
  assumes "same_store G f q"
  shows "\<forall>(k, v) \<in> set (fs_data f). records_fit G [(k, [], v)]"
proof -
  obtain kv where kv: "db_kv (sq_db q) = Some kv" by (rule match_tables [OF same_storeD(2) [OF assms]])
  have fit: "records_fit G kv"
    using match_ready [OF same_storeD(2) [OF assms]] kv by (simp add: ready_db_def older_db_def)
  note s = same_rowsD [OF same_storeD(1) [OF assms]]
  have "records_fit G [(k, [], v)]" if "(k, v) \<in> set (fs_data f)" for k v
  proof -
    have "map_of (fs_data f) k = Some v" using that s(4) by (simp add: file_ok_def)
    with s(1) [of k] kv obtain c where "map_of kv k = Some (c, v)" by (cases "map_of kv k") auto
    with fits_rows [OF fit] show ?thesis by blast
  qed
  then show ?thesis by blast
qed

section \<open>Properties\<close>



lemma utf8_key_range: "valid_utf8 k \<Longrightarrow> key_range [] k"
proof (cases k)
  case (Cons c s)
  assume "valid_utf8 k"
  then have "byte c \<le> 0xF4" unfolding Cons by (simp split: if_split_asm)
  then have "c < CHR 0xFF" by (simp add: byte_def less_char_def)
  then show ?thesis by (simp add: key_range_def Cons)
qed (simp add: key_range_def)

lemma map_of_raws: "map_of (map (\<lambda>(k, c, v). (k, v)) kv) key = map_option snd (map_of kv key)"
  by (induction kv) auto

lemma alist_ok_sort: "alist_ok m \<Longrightarrow> alist_ok (sort_key fst m)"
  by (simp add: distinct_map)

lemma exported:
  assumes m: "tables_match G db" and v: "schema_version \<le> sql_version db"
    and utf8: "\<forall>key. raw_view db key \<noteq> None \<longrightarrow> valid_utf8 key"
  shows "\<exists>rows. export_sqlite_to_json no_failure G None (\<lambda>_. None) False (Some db) None = (Some rows, Inr (length rows))
    \<and> alist_ok rows \<and> map_of rows = raw_view db"
proof -
  obtain q where q: "open_sqlite no_failure G None (Some db) = (q, None)" "\<not> sq_closed q" "tables_match G (sq_db q)"
    "raw_view (sq_db q) = raw_view db"
    using open_completes [of G db] match_ready [OF m] v by (auto simp: ready_db_def)
  obtain kv where kv: "db_kv (sq_db q) = Some kv" "alist_ok kv" by (rule match_tables [OF q(3)])
  let ?out = "map (\<lambda>(k, c, v). (k, v)) kv"
  have "valid_utf8 k" if "k \<in> keys kv" for k
    using utf8 [rule_format, of k] q(4) [THEN fun_cong, of k, symmetric] that kv(1)
    by (auto simp: raw_view_def keys_iff_map_of simp del: map_of_eq_None_iff)
  then have "\<forall>k \<in> keys kv. key_range [] k" "\<forall>k \<in> keys kv. json_string k = k"
    using utf8_key_range json_string_valid by blast+
  then have "filter (\<lambda>(k, r). key_range [] k) kv = kv" "\<forall>k \<in> keys kv. json_string k = k"
    by (auto simp: filter_id_conv)
  moreover have "map_of ?out = raw_view db"
    using kv(1) q(4) by (auto simp: raw_view_def fun_eq_iff map_of_raws)
  moreover have ok: "alist_ok ?out" using kv(2) by (simp add: comp_def split_beta)
  moreover have "alist_ok (sort_key fst ?out)" "map_of (sort_key fst ?out) = map_of ?out"
  proof -
    show "alist_ok (sort_key fst ?out)" using ok by (rule alist_ok_sort)
    then show "map_of (sort_key fst ?out) = map_of ?out" using ok by (intro map_of_inject_set [THEN iffD2]) auto
  qed
  moreover have "map (\<lambda>(k, v). (json_string k, v)) (sort_key fst ?out) = sort_key fst ?out"
    using calculation(2) by (intro map_idI) force
  ultimately show ?thesis
    using q(1,2) kv(1)
    by (intro exI [of _ "sort_key fst ?out"])
      (simp add: export_sqlite_to_json_def sql_scan_def write_export_file_atomic_def first_error_def)
qed

lemma exported_imports:
  assumes "tables_match G db" "raw_view db version_key = Some (JNum 7)"
    and "\<forall>key. raw_view db key \<noteq> None \<longrightarrow> key \<noteq> [] \<and> valid_utf8 key"
  shows "\<exists>rows db'. export_sqlite_to_json (\<lambda>_. Answered) G None (\<lambda>_. None) False (Some db) None = (Some rows, Inr (length rows))
    \<and> migrate_json_to_sqlite (\<lambda>_. Answered) G quiet_os False (Rows rows) None = (Some db', Inr (length rows))
    \<and> tables_match G db' \<and> raw_view db' = raw_view db"
proof -
  have v: "schema_version \<le> sql_version db" by (simp add: sql_version_def assms(2) schema_version_def max_int64_def min_int64_def)
  obtain rows where rows: "export_sqlite_to_json no_failure G None (\<lambda>_. None) False (Some db) None = (Some rows, Inr (length rows))"
    "alist_ok rows" "map_of rows = raw_view db"
    using exported [OF assms(1) v] assms(3) by blast
  obtain kv where kv: "db_kv db = Some kv" by (rule match_tables [OF assms(1)])
  have fit: "records_fit G kv" using match_ready [OF assms(1)] kv by (simp add: ready_db_def older_db_def)
  have fits: "records_fit G [(k, [], v)]" if "(k, v) \<in> set rows" for k v
  proof -
    have "raw_view db k = Some v" using that rows(2,3) by (metis map_of_is_SomeI)
    with kv obtain c where "map_of kv k = Some (c, v)" by (auto simp: raw_view_def)
    with fits_rows [OF fit] show ?thesis by blast
  qed
  have "[] \<notin> keys rows" using assms(3) rows(3) by (auto simp: keys_iff_map_of simp del: map_of_eq_None_iff)
  with migrated [of rows G] rows fits assms(2) show ?thesis by auto
qed

text \<open>C27: Exporting a SQLite store to a JSON file and importing that file into a fresh database gives a
  database with the same records, tables and all.\<close>

theorem export_import_roundtrip:
  assumes "tables_match G db" "raw_view db version_key = Some (JNum 7)"
    and "\<forall>key. raw_view db key \<noteq> None \<longrightarrow> key \<noteq> [] \<and> valid_utf8 key"
  shows "\<exists>rows db'. export_sqlite_to_json (\<lambda>_. Answered) G None (\<lambda>_. None) False (Some db) None = (Some rows, Inr (length rows))
    \<and> migrate_json_to_sqlite (\<lambda>_. Answered) G quiet_os False (Rows rows) None = (Some db', Inr (length rows))
    \<and> tables_match G db' \<and> raw_view db' = raw_view db"
  by (rule exported_imports [OF assms])

theorem export_import_roundtrip_witness:
  "\<exists>rows db'. migrate_json_to_sqlite (\<lambda>_. Answered) ascii_lib quiet_os False (Rows rows) None = (Some db', Inr (length rows))
     \<and> raw_view db' = raw_view new_db"
proof -
  have "raw_view new_db version_key = Some (JNum 7)" by code_simp
  moreover have "valid_utf8 version_key" by code_simp
  then have "\<forall>key. raw_view new_db key \<noteq> None \<longrightarrow> key \<noteq> [] \<and> valid_utf8 key"
    by (auto simp: raw_view_def new_db_def version_key_def split: if_split_asm)
  ultimately show ?thesis using export_import_roundtrip [OF new_db_match, of ascii_lib] by blast
qed

section \<open>What verification reports\<close>

lemma count_up_value: "map_of (count_up c m) k = (if k = c then Some (Suc (case map_of m c of None \<Rightarrow> 0 | Some n \<Rightarrow> n)) else map_of m k)"
  by (simp add: count_up_def)

lemma collection_counts_fold:
  "map_of (fold (\<lambda>(k, v). count_up (collection_name k)) rows m) c =
     (let n = length (filter (\<lambda>(k, v). collection_name k = c) rows) in
      if n = 0 then map_of m c else Some (n + (case map_of m c of None \<Rightarrow> 0 | Some x \<Rightarrow> x)))"
  by (induction rows arbitrary: m) (auto simp: count_up_value Let_def split: option.split)

text \<open>The count of a collection is the number of keys that belong to it.\<close>

lemma collection_counts_exact:
  "map_of (collection_counts rows) c =
     (let n = length (filter (\<lambda>(k, v). collection_name k = c) rows) in if n = 0 then None else Some n)"
  unfolding collection_counts_def collection_counts_fold by (simp add: Let_def)

section \<open>Observations\<close>

text \<open>An export whose scan fails replaces the target by an empty store and reports success.\<close>

theorem export_hides_failed_scan:
  assumes "open_sqlite io G None file = (s, None)" "\<not> sq_closed s" "io (sq_calls s) = Failed e"
  shows "export_sqlite_to_json io G None (\<lambda>_. None) True file target = (Some [], Inr 0)"
  using assms by (simp add: export_sqlite_to_json_def sql_scan_def write_export_file_atomic_def first_error_def)

text \<open>A forced import that fails at a row has already removed the database it was to replace.\<close>

theorem forced_import_destroys:
  "migrate_json_to_sqlite (\<lambda>_. Answered) G quiet_os True (Rows [(''clients:x'', JStr ''y'')]) (Some db) = (Some new_db, Inl Bad_Json)"
proof -
  obtain s where s: "open_sqlite no_failure G None None = (s, None)" "sq_db s = new_db"
    using open_new [of G] by (cases "open_sqlite no_failure G None None") auto
  have "\<not> sq_closed (fst (open_sqlite no_failure G None None))" by code_simp
  then have o: "\<not> sq_closed s" using s(1) by simp
  have "collection_name ''clients:x'' = ''clients''" by code_simp
  then have "put_rows no_failure G [(''clients:x'', JStr ''y'')] s = (s, Some Bad_Json)"
    using o by (simp add: put_rows_def put_raw_json_def)
  then show ?thesis
    using s by (simp add: migrate_json_to_sqlite_def import_json_to_sqlite_def decode_json_rows_def row_map_def
        prepare_target_def quiet_os_def)
qed

text \<open>Verification accepts a store file of white space, which opening rejects.\<close>

theorem blank_store_verifies:
  "verify_json path Blank_File = Inr \<lparr>vr_backend = ''json'', vr_path = path, vr_records = 0, vr_schema_version = 0, vr_counts = []\<rparr>
     \<and> compact_json io None Blank_File = (None, Inl Bad_Json)"
  by (simp add: verify_json_def compact_json_def open_file_store_def)

text \<open>The history is ordered by the text of the time, which drops trailing zeros of the fraction: a
  snapshot of a full second comes before one taken half a second later.\<close>

theorem history_ordered_by_text:
  assumes "\<not> sq_closed s" "db_history (sq_db s) = Some [(''2024-01-01T00:00:00Z'', old), (''2024-01-01T00:00:00.5Z'', new)]"
    and "g_parse_time G ''2024-01-01T00:00:00Z'' = Some t" "g_parse_time G ''2024-01-01T00:00:00.5Z'' = Some (t + 500000000)"
  shows "snd (sql_history_list (\<lambda>_. Answered) G 1 s) = Inr [\<lparr>sn_ts = t, sn_yaml = old\<rparr>]"
proof -
  have "sort_key fst [(''2024-01-01T00:00:00Z'', old), (''2024-01-01T00:00:00.5Z'', new)]
      = [(''2024-01-01T00:00:00.5Z'', new), (''2024-01-01T00:00:00Z'', old)]"
    by (simp add: less_char_def)
  then show ?thesis
    using assms by (simp add: sql_history_list_def sql_read_answered scan_config_snapshot_def parse_sqlite_time_def)
qed

end
