(* ===== verification/Api_Clients.thy ===== *)
theory Api_Clients
  imports Api_Config
begin

text \<open>
  \<open>internal/api/clients.go\<close>: the clients the gateway has seen, their names and groups.  The key of
  the path is an argument of the handlers.
\<close>

section \<open>Handlers\<close>

definition clients_list :: "'s api_env \<Rightarrow> http_request \<Rightarrow> writer \<times> 's api \<Rightarrow> writer \<times> 's api" where
  "clients_list N r ws =
     (case ws of (w, s) \<Rightarrow>
        if \<not> ap_has_store s then (http_error ''store unavailable'' 503 w, s)
        else
          (case client_list (an_kv N) (an_go N) (api_store s) of
             Inl e \<Rightarrow> (internal_error ''clients unavailable'' w, s)
           | Inr cs \<Rightarrow> (write_json (an_render N) (an_value N (Clients_Value cs)) w, s)))"

definition get_client_or :: "'s api_env \<Rightarrow> string \<Rightarrow> 's api \<Rightarrow> (writer \<Rightarrow> writer) + client" where
  "get_client_or N key s =
     (if \<not> ap_has_store s then Inl (http_error ''store unavailable'' 503)
      else
        (case client_get (an_kv N) (an_go N) key (api_store s) of
           Inl e \<Rightarrow> Inl (if e = Not_Found then not_found else internal_error ''client unavailable'')
         | Inr c \<Rightarrow> Inr c))"

definition api_client_get :: "'s api_env \<Rightarrow> string \<Rightarrow> http_request \<Rightarrow> writer \<times> 's api \<Rightarrow> writer \<times> 's api" where
  "api_client_get N key r ws =
     (case ws of (w, s) \<Rightarrow>
        (case get_client_or N key s of
           Inl answer \<Rightarrow> (answer w, s)
         | Inr c \<Rightarrow> (write_json (an_render N) (an_value N (Client_Value c)) w, s)))"

definition client_group_exists :: "string \<Rightarrow> 's api \<Rightarrow> bool" where
  "client_group_exists name s =
     (case api_config s of None \<Rightarrow> True | Some c \<Rightarrow> list_ex (\<lambda>g. gc_name g = name) (c_groups c))"

definition patched_client :: "client_patch_body \<Rightarrow> client \<Rightarrow> client" where
  "patched_client b c =
     (let c = (case kp_name b of None \<Rightarrow> c | Some v \<Rightarrow> c\<lparr>cl_name := trim_space v\<rparr>);
          c = (case kp_group b of None \<Rightarrow> c | Some v \<Rightarrow> c\<lparr>cl_group := trim_space v\<rparr>);
          c = (case kp_hidden b of None \<Rightarrow> c | Some v \<Rightarrow> c\<lparr>cl_hidden := v\<rparr>)
      in if cl_group c = [] then c\<lparr>cl_group := ''default''\<rparr> else c)"

definition client_patch :: "'s api_env \<Rightarrow> string \<Rightarrow> http_request \<Rightarrow> writer \<times> 's api \<Rightarrow> writer \<times> 's api" where
  "client_patch N key r ws =
     (case ws of (w, s) \<Rightarrow>
        (case get_client_or N key s of
           Inl answer \<Rightarrow> (answer w, s)
         | Inr before \<Rightarrow>
             (case decode_json (an_parse N) (an_client_patch N) r of
                Inl e \<Rightarrow> (http_error e 400 w, s)
              | Inr b \<Rightarrow>
                  let c = patched_client b before in
                  if \<not> client_group_exists (cl_group c) s then (http_error ''unknown group'' 400 w, s)
                  else
                    (case client_upsert (an_kv N) (an_go N) (Some c) (api_store s) of
                       (st, Some e) \<Rightarrow> (internal_error ''client update failed'' w, set_store st s)
                     | (st, None) \<Rightarrow>
                         let s = api_audit N ''client.update'' key (audited N (Client_Value before))
                               (audited N (Client_Value c)) (set_store st s)
                         in (write_json (an_render N) (an_value N (Client_Value c)) w, s)))))"

definition api_client_delete :: "'s api_env \<Rightarrow> string \<Rightarrow> http_request \<Rightarrow> writer \<times> 's api \<Rightarrow> writer \<times> 's api" where
  "api_client_delete N key r ws =
     (case ws of (w, s) \<Rightarrow>
        (case get_client_or N key s of
           Inl answer \<Rightarrow> (answer w, s)
         | Inr c \<Rightarrow>
             (case client_delete (an_kv N) key (api_store s) of
                (st, Some e) \<Rightarrow> (internal_error ''client delete failed'' w, set_store st s)
              | (st, None) \<Rightarrow>
                  (write_header 204 w,
                   api_audit N ''client.delete'' key (audited N (Client_Value c)) No_Payload (set_store st s)))))"

section \<open>What a change of a client does\<close>

lemma patched_client_keeps [simp]:
  "cl_key (patched_client b c) = cl_key c" "cl_type (patched_client b c) = cl_type c"
  "cl_first_seen (patched_client b c) = cl_first_seen c" "cl_last_seen (patched_client b c) = cl_last_seen c"
  "cl_last_ip (patched_client b c) = cl_last_ip c" "cl_group (patched_client b c) \<noteq> []"
  by (simp_all add: patched_client_def Let_def split: option.split)

text \<open>\<open>StoreClientResolver.GroupOf\<close> over the clients of the store.\<close>

definition client_groups :: "'s kvops \<Rightarrow> golib \<Rightarrow> 's \<Rightarrow> string \<Rightarrow> string" where
  "client_groups K G st =
     store_group_of (Some (\<lambda>key. case client_get K G key st of Inl e \<Rightarrow> None | Inr c \<Rightarrow> Some (cl_group c)))"

lemma client_group_read:
  "client_get K G key st = Inr c \<Longrightarrow> key \<noteq> [] \<Longrightarrow> cl_group c \<noteq> [] \<Longrightarrow> client_groups K G st key = cl_group c"
  by (simp add: client_groups_def store_group_of_def)

context kv_store
begin

lemma client_upsert_outcome:
  assumes "ok s" "client_fits G c" "client_upsert K G (Some c) s = (s', r)"
  shows "ok s' \<and> (client_get K G (cl_key c) s' = Inr c \<or> r \<noteq> None \<and> client_get K G (cl_key c) s' = client_get K G (cl_key c) s)"
proof (cases "cl_key c = []")
  case True
  then show ?thesis using assms(1,3) by (auto simp: client_upsert_def)
next
  case False
  then have put: "kv_put K (''clients:'' @ cl_key c) (client_to_json G c) s = (s', r)"
    using assms(3) by (simp add: client_upsert_def)
  have ok': "ok s'" using put_ok [OF assms(1), of "''clients:'' @ cl_key c" "client_to_json G c"] put by simp
  have "view s' = view s \<or> view s' = (view s)(''clients:'' @ cl_key c \<mapsto> client_to_json G c)"
    "r = None \<Longrightarrow> view s' = (view s)(''clients:'' @ cl_key c \<mapsto> client_to_json G c)"
    using put_fail [OF assms(1), of "''clients:'' @ cl_key c" "client_to_json G c" s'] put_done [OF assms(1), of "''clients:'' @ cl_key c" "client_to_json G c" s'] put
    by (cases r; auto)+
  with ok' show ?thesis
    using client_roundtrip [OF assms(2)] get_view [OF ok' assms(1)]
    by (cases r) (auto simp: client_get_def get_law [OF ok'] decode_def)
qed

text \<open>Recording that a client was seen never changes its group, whatever the store answers.\<close>

lemma touch_keeps_group:
  assumes "ok s" "client_get K G (di_key ident) s = Inr c" "cl_key c = di_key ident" "cl_group c \<noteq> []"
    and "client_fits G (touched_client ident now (Some c))" "touch K G ident now (i, s) = ((i', s'), r)"
  shows "\<exists>c'. client_get K G (di_key ident) s' = Inr c' \<and> cl_group c' = cl_group c"
proof -
  obtain s2 r2 where up: "client_upsert K G (Some (touched_client ident now (Some c))) s = (s2, r2)" by fastforce
  have key: "cl_key (touched_client ident now (Some c)) = di_key ident"
    and grp: "cl_group (touched_client ident now (Some c)) = cl_group c"
    using assms(3,4) by (simp_all add: touched_client_def)
  have "s' = s \<or> s' = s2"
    using assms(2,6) up by (auto simp: touch_def Let_def split: if_split_asm)
  with client_upsert_outcome [OF assms(1,5) up] assms(2) show ?thesis by (auto simp: key grp)
qed

end

text \<open>What a successful change of a client did.\<close>

lemma client_patched:
  assumes "client_patch N key r (fresh_writer, s) = (w', s')" "w_status w' = Some 200"
  obtains c b where "client_get (an_kv N) (an_go N) key (api_store s) = Inr c"
    and "decode_json (an_parse N) (an_client_patch N) r = Inr b"
    and "client_group_exists (cl_group (patched_client b c)) s"
    and "client_upsert (an_kv N) (an_go N) (Some (patched_client b c)) (api_store s) = (api_store s', None)"
    and "pp_policy (ap_pipe s') = pp_policy (ap_pipe s)" "pp_client_id (ap_pipe s') = pp_client_id (ap_pipe s)"
proof -
  have err: "w_status (http_error msg code fresh_writer) = Some code" for msg code
    by (simp add: http_error_status fresh_writer_def)
  obtain c where c: "client_get (an_kv N) (an_go N) key (api_store s) = Inr c" "get_client_or N key s = Inr c"
    using assms err by (auto simp: client_patch_def get_client_or_def not_found_def internal_error_def split: if_splits sum.splits)
  obtain b where b: "decode_json (an_parse N) (an_client_patch N) r = Inr b"
    using assms err c by (auto simp: client_patch_def split: sum.splits)
  let ?n = "patched_client b c"
  have g: "client_group_exists (cl_group ?n) s"
    using assms err c b by (auto simp: client_patch_def Let_def split: if_splits)
  obtain st e where up: "client_upsert (an_kv N) (an_go N) (Some ?n) (api_store s) = (st, e)" by fastforce
  have "e = None"
    using assms err c b g up by (cases e) (auto simp: client_patch_def internal_error_def Let_def)
  have s': "s' = api_audit N ''client.update'' key (audited N (Client_Value c)) (audited N (Client_Value ?n)) (set_store st s)"
    using assms(1) c b g up \<open>e = None\<close> by (simp add: client_patch_def Let_def)
  have pipe: "ap_pipe s' = ap_pipe (set_store st s)"
    by (simp add: s' api_audit_def split: option.split)
  have "api_store s' = st" by (simp add: api_store_def pipe set_store_def)
  with that [OF c(1) b g] up \<open>e = None\<close> show thesis by (simp add: pipe set_store_def)
qed


text \<open>The laptop is moved to the group \<open>work\<close>.\<close>

definition to_work :: client_patch_body where
  "to_work = \<lparr>kp_name = None, kp_group = Some ''work'', kp_hidden = None\<rparr>"

definition work_env :: "file_store api_env" where
  "work_env = home_env\<lparr>an_parse := (\<lambda>_. Inr (JNull, [])), an_client_patch := (\<lambda>_. Inr to_work)\<rparr>"

definition laptop_store :: file_store where
  "laptop_store = fst (client_upsert (file_ops (\<lambda>_. Saved)) ascii_lib (Some laptop) empty_store)"

definition laptop_identity :: dns_identity where
  "laptop_identity = \<lparr>di_key = cl_key laptop, di_type = ''mac'', di_ip = [10, 0, 0, 9]\<rparr>"

lemma laptop_at_work:
  "client_get (file_ops io) ascii_lib (cl_key laptop) laptop_store = Inr laptop" "file_ok laptop_store"
  "patched_client to_work laptop = laptop\<lparr>cl_group := ''work''\<rparr>"
  "client_fits ascii_lib (laptop\<lparr>cl_group := ''work''\<rparr>)"
  "client_fits ascii_lib (touched_client laptop_identity 1 (Some (laptop\<lparr>cl_group := ''work''\<rparr>)))"
proof -
  have ok: "file_ok empty_store" by (simp add: file_ok_def empty_store_def)
  obtain s where up: "client_upsert (file_ops (\<lambda>_. Saved)) ascii_lib (Some laptop) empty_store = (s, None)"
    by (auto simp: client_upsert_def file_ops_def file_put_def save_locked_def empty_store_def Let_def laptop_def)
  then have "laptop_store = s" by (simp add: laptop_store_def)
  with fkv.client_upsert_done [OF ok laptop_fits up]
  show "client_get (file_ops io) ascii_lib (cl_key laptop) laptop_store = Inr laptop" "file_ok laptop_store"
    by (simp_all add: client_get_def file_ops_def)
  have "trim_space ''work'' = ''work''" by code_simp
  then show "patched_client to_work laptop = laptop\<lparr>cl_group := ''work''\<rparr>"
    by (simp add: patched_client_def to_work_def Let_def)
  have "valid_utf8 ''work''" "valid_utf8 (ip_string [10, 0, 0, 9])" by code_simp+
  then show "client_fits ascii_lib (laptop\<lparr>cl_group := ''work''\<rparr>)"
    "client_fits ascii_lib (touched_client laptop_identity 1 (Some (laptop\<lparr>cl_group := ''work''\<rparr>)))"
    using laptop_fits
    by (simp_all add: client_fits_def touched_client_def laptop_identity_def laptop_def ascii_lib_times
        min_int64_def max_int64_def del: valid_utf8.simps)
qed


end
