(* ===== verification/Go_Format.thy ===== *)
theory Go_Format
  imports Go_Float Go_Strings
begin

text \<open>
  \<open>strconv.AppendFloat\<close> with the verb \<open>g\<close> and a precision, which \<open>fmt\<close> uses for \<open>%.9g\<close>, on the
  floats of \<open>Go_Float\<close> that are not negative, and the replacement of single characters by
  \<open>strings.ReplaceAll\<close>.
\<close>

section \<open>Decimal digits\<close>

text \<open>The position of the decimal point in the digits of a positive number: \<open>k\<close> with
  \<open>10 ^ (k - 1) \<le> x < 10 ^ k\<close>.\<close>

definition decimal_point :: "float64 \<Rightarrow> int" where
  "decimal_point x =
     (if 1 \<le> x then int (length (show_nat (nat \<lfloor>x\<rfloor>)))
      else 1 - int (length (show_nat (nat (\<lceil>1 / x\<rceil> - 1)))))"

text \<open>The digits of \<open>x\<close> rounded to \<open>prec\<close> of them, half to even, without trailing zeros, and the
  position of the point.\<close>

definition decimal_digits :: "nat \<Rightarrow> float64 \<Rightarrow> string \<times> int" where
  "decimal_digits prec x =
     (if x \<le> 0 then ([], 0)
      else
        let k = decimal_point x;
            n = nat (round_even (x * 10 powi (int prec - k)));
            (n, k) = (if n = 10 ^ prec then (n div 10, k + 1) else (n, k))
        in (rev (dropWhile (\<lambda>c. c = CHR ''0'') (rev (show_nat n))), k))"

section \<open>Layout\<close>

definition digit_at :: "string \<Rightarrow> int \<Rightarrow> char" where
  "digit_at ds i = (if 0 \<le> i \<and> i < int (length ds) then ds ! nat i else CHR ''0'')"

text \<open>\<open>fmtF\<close>\<close>

definition format_fixed :: "string \<times> int \<Rightarrow> string" where
  "format_fixed d =
     (case d of (ds, dp) \<Rightarrow>
        (if 0 < dp then map (digit_at ds) [0 .. dp - 1] else ''0'')
        @ (let prec = int (length ds) - dp in
           if prec \<le> 0 then [] else CHR ''.'' # map (\<lambda>i. digit_at ds (dp + i)) [0 .. prec - 1]))"

text \<open>\<open>fmtE\<close>\<close>

definition format_exponent :: "string \<times> int \<Rightarrow> string" where
  "format_exponent d =
     (case d of (ds, dp) \<Rightarrow>
        let e = dp - 1; digits = show_nat (nat \<bar>e\<bar>) in
        digit_at ds 0 # (if length ds \<le> 1 then [] else CHR ''.'' # tl ds)
        @ ''e'' @ (if e < 0 then ''-'' else ''+'') @ (if length digits < 2 then CHR ''0'' # digits else digits))"

definition format_g :: "nat \<Rightarrow> float64 \<Rightarrow> string" where
  "format_g prec x =
     (let (ds, dp) = decimal_digits prec x;
          eprec = (if length ds < prec \<and> dp \<le> int (length ds) then int (length ds) else int prec);
          e = dp - 1 in
      if e < - 4 \<or> eprec \<le> e then format_exponent (ds, dp) else format_fixed (ds, dp))"

section \<open>Replacements\<close>

definition replace_char :: "char \<Rightarrow> string \<Rightarrow> string \<Rightarrow> string" where
  "replace_char c new s = concat (map (\<lambda>x. if x = c then new else [x]) s)"

lemma replace_char_simps [simp]:
  "replace_char c new [] = []"
  "replace_char c new (x # s) = (if x = c then new else [x]) @ replace_char c new s"
  "replace_char c new (s @ t) = replace_char c new s @ replace_char c new t"
  by (simp_all add: replace_char_def)

text \<open>Only digits, a point and an exponent are written.\<close>

lemma no_line_in_digits: "list_all is_digit s \<Longrightarrow> CHR 0x0A \<notin> set s"
  by (auto simp: list_all_iff is_digit_def byte_def)

lemma decimal_digits_digits: "decimal_digits p x = (ds, k) \<Longrightarrow> list_all is_digit ds"
proof -
  have "list_all is_digit (rev (dropWhile P (rev (show_nat n))))" for P n
    using show_nat_digits [of n] by (auto simp: list_all_iff dest: set_dropWhileD)
  then show "decimal_digits p x = (ds, k) \<Longrightarrow> list_all is_digit ds"
    by (auto simp: decimal_digits_def Let_def split: if_split_asm prod.splits)
qed

lemma digit_at_digit: "list_all is_digit ds \<Longrightarrow> is_digit (digit_at ds i)"
  by (auto simp: digit_at_def list_all_iff is_digit_def byte_def)

lemma format_no_newline: "CHR 0x0A \<notin> set (format_g p x)"
proof (cases "decimal_digits p x")
  case (Pair ds k)
  note ds = decimal_digits_digits [OF Pair]
  have "digit_at ds i \<noteq> CHR 0x0A" for i
    using digit_at_digit [OF ds, of i] by (auto simp: is_digit_def byte_def)
  note at = this this [symmetric]
  have "CHR 0x0A \<notin> set (format_fixed (ds, k))" using at by (auto simp: format_fixed_def Let_def)
  moreover have "CHR 0x0A \<notin> set (tl ds)" using no_line_in_digits [OF ds] by (cases ds) auto
  then have "CHR 0x0A \<notin> set (format_exponent (ds, k))"
    using at no_line_in_digits [OF show_nat_digits] by (auto simp: format_exponent_def Let_def)
  ultimately show ?thesis by (simp add: format_g_def Pair)
qed

end
