(* ===== verification/Api_Metrics.thy ===== *)
theory Api_Metrics
  imports Go_Format Api_Types
begin

text \<open>
  \<open>internal/api/metrics.go\<close>: the counters in the text format of Prometheus.  The builder is the text
  itself, each function returns what it appends.  \<open>go_runtime\<close> are the readings of the Go runtime.

  A reader of the format is defined beside it: whatever the upstreams are called, it finds exactly
  the samples of the snapshot.
\<close>

section \<open>Lines\<close>

definition newline :: string where "newline = [CHR 0x0A]"
definition quote :: string where "quote = [CHR 0x22]"
definition backslash :: string where "backslash = [CHR 0x5C]"

definition escape_prometheus_label :: "string \<Rightarrow> string" where
  "escape_prometheus_label v =
     (let v = replace_char (CHR 0x5C) (backslash @ backslash) v;
          v = replace_char (CHR 0x0A) (backslash @ ''n'') v
      in replace_char (CHR 0x22) (backslash @ quote) v)"

definition write_metric_help :: "string \<Rightarrow> string \<Rightarrow> string \<Rightarrow> string" where
  "write_metric_help name metric_type help =
     ''# HELP '' @ name @ '' '' @ help @ newline @ ''# TYPE '' @ name @ '' '' @ metric_type @ newline"

definition write_metric_counter :: "string \<Rightarrow> u64 \<Rightarrow> string" where
  "write_metric_counter name v = name @ '' '' @ show_nat (unat v) @ newline"

definition write_metric_counter_with_label :: "string \<Rightarrow> string \<Rightarrow> u64 \<Rightarrow> string" where
  "write_metric_counter_with_label name label v = name @ label @ '' '' @ show_nat (unat v) @ newline"

definition write_metric_gauge_with_label :: "string \<Rightarrow> string \<Rightarrow> u64 \<Rightarrow> string" where
  "write_metric_gauge_with_label name label v = name @ label @ '' '' @ show_nat (unat v) @ newline"

definition seconds_of :: "duration \<Rightarrow> float64" where
  "seconds_of d = f64_div (f64_of_int d) (f64_of_int second)"

definition write_latency_metric_help :: "string \<Rightarrow> string" where
  "write_latency_metric_help p =
     ''# HELP '' @ p @ ''_observations_total Total latency observations.'' @ newline
     @ ''# TYPE '' @ p @ ''_observations_total counter'' @ newline
     @ ''# HELP '' @ p @ ''_p50_seconds Approximate p50 latency in seconds.'' @ newline
     @ ''# TYPE '' @ p @ ''_p50_seconds gauge'' @ newline
     @ ''# HELP '' @ p @ ''_p95_seconds Approximate p95 latency in seconds.'' @ newline
     @ ''# TYPE '' @ p @ ''_p95_seconds gauge'' @ newline
     @ ''# HELP '' @ p @ ''_p99_seconds Approximate p99 latency in seconds.'' @ newline
     @ ''# TYPE '' @ p @ ''_p99_seconds gauge'' @ newline"

definition write_latency_metrics :: "string \<Rightarrow> string \<Rightarrow> histogram_snapshot \<Rightarrow> string" where
  "write_latency_metrics p label h =
     (if label = [] then write_latency_metric_help p else [])
     @ p @ ''_observations_total'' @ label @ '' '' @ show_nat (unat (hs_count h)) @ newline
     @ p @ ''_p50_seconds'' @ label @ '' '' @ format_g 9 (seconds_of (hs_p50 h)) @ newline
     @ p @ ''_p95_seconds'' @ label @ '' '' @ format_g 9 (seconds_of (hs_p95 h)) @ newline
     @ p @ ''_p99_seconds'' @ label @ '' '' @ format_g 9 (seconds_of (hs_p99 h)) @ newline"

record go_runtime =
  go_goroutines :: nat
  go_alloc :: u64
  go_sys :: u64
  go_num_gc :: u32

definition write_go_runtime_metrics :: "go_runtime \<Rightarrow> string" where
  "write_go_runtime_metrics R =
     ''# HELP sis_go_goroutines Current number of goroutines.'' @ newline @ ''# TYPE sis_go_goroutines gauge'' @ newline
     @ ''sis_go_goroutines '' @ show_nat (go_goroutines R) @ newline
     @ ''# HELP sis_go_mem_alloc_bytes Current allocated heap objects in bytes.'' @ newline
     @ ''# TYPE sis_go_mem_alloc_bytes gauge'' @ newline
     @ ''sis_go_mem_alloc_bytes '' @ show_nat (unat (go_alloc R)) @ newline
     @ ''# HELP sis_go_mem_sys_bytes Current reserved memory in bytes.'' @ newline
     @ ''# TYPE sis_go_mem_sys_bytes gauge'' @ newline
     @ ''sis_go_mem_sys_bytes '' @ show_nat (unat (go_sys R)) @ newline
     @ ''# HELP sis_go_gc_total Total number of GC cycles performed.'' @ newline @ ''# TYPE sis_go_gc_total counter'' @ newline
     @ ''sis_go_gc_total '' @ show_nat (unat (go_num_gc R)) @ newline"

section \<open>The page\<close>

definition upstream_label :: "string \<Rightarrow> string" where
  "upstream_label i = ''{upstream='' @ quote @ escape_prometheus_label i @ quote @ ''}''"

definition upstream_metrics :: "string \<times> upstream_snapshot \<Rightarrow> string" where
  "upstream_metrics iu =
     (case iu of (i, u) \<Rightarrow>
        let label = upstream_label i in
        write_metric_counter_with_label ''sis_upstream_requests_total'' label (us_requests u)
        @ write_metric_counter_with_label ''sis_upstream_errors_total'' label (us_errors u)
        @ write_metric_gauge_with_label ''sis_upstream_consecutive_errors'' label (us_consecutive u)
        @ write_metric_gauge_with_label ''sis_upstream_healthy'' label (if us_healthy u then 1 else 0)
        @ write_latency_metrics ''sis_upstream_latency'' label (us_latency u))"

definition prometheus_metrics :: "go_runtime \<Rightarrow> stats_snapshot \<Rightarrow> string" where
  "prometheus_metrics R s =
     write_metric_help ''sis_dns_queries_total'' ''counter'' ''Total DNS queries processed.''
     @ write_metric_counter ''sis_dns_queries_total'' (ss_queries s)
     @ write_metric_help ''sis_dns_cache_hits_total'' ''counter'' ''Total DNS cache hits.''
     @ write_metric_counter ''sis_dns_cache_hits_total'' (ss_cache_hit s)
     @ write_metric_help ''sis_dns_cache_misses_total'' ''counter'' ''Total DNS cache misses.''
     @ write_metric_counter ''sis_dns_cache_misses_total'' (ss_cache_miss s)
     @ write_metric_help ''sis_dns_blocked_queries_total'' ''counter'' ''Total DNS queries blocked by policy.''
     @ write_metric_counter ''sis_dns_blocked_queries_total'' (ss_blocked s)
     @ write_metric_help ''sis_dns_rate_limited_total'' ''counter'' ''Total DNS or API requests rejected by rate limiting.''
     @ write_metric_counter ''sis_dns_rate_limited_total'' (ss_rate_limited s)
     @ write_metric_help ''sis_dns_malformed_packets_total'' ''counter'' ''Total malformed DNS packets.''
     @ write_metric_counter ''sis_dns_malformed_packets_total'' (ss_malformed s)
     @ write_latency_metrics ''sis_dns_latency'' [] (ss_latency s)
     @ write_go_runtime_metrics R
     @ write_metric_help ''sis_upstream_requests_total'' ''counter'' ''Total upstream resolver requests.''
     @ write_metric_help ''sis_upstream_errors_total'' ''counter'' ''Total upstream resolver errors.''
     @ write_metric_help ''sis_upstream_consecutive_errors'' ''gauge'' ''Current consecutive upstream resolver errors.''
     @ write_metric_help ''sis_upstream_healthy'' ''gauge'' ''Current upstream resolver health state, 1 for healthy and 0 for unhealthy.''
     @ write_latency_metric_help ''sis_upstream_latency''
     @ concat (map upstream_metrics (sort_key fst (ss_upstreams s)))"

definition metrics_handler :: "go_runtime \<Rightarrow> writer \<times> 's api \<Rightarrow> writer \<times> 's api" where
  "metrics_handler R ws =
     (case ws of (w, s) \<Rightarrow>
        if \<not> ap_has_stats s then (http_error ''stats unavailable'' 503 w, s)
        else
          let w = set_header ''Cache-Control'' ''no-store''
                (set_header ''Content-Type'' ''text/plain; version=0.0.4; charset=utf-8'' w)
          in (write_body (prometheus_metrics R (stats_snapshot_of (pp_stats (ap_pipe s)))) w, s))"

section \<open>Reading the page\<close>

text \<open>The text format: comments and empty lines, and samples \<open>name value\<close> or
  \<open>name{label="text"} value\<close> with the escapes of label texts.\<close>

definition metric_char :: "char \<Rightarrow> bool" where
  "metric_char c \<longleftrightarrow> is_digit c \<or> is_lower_letter c \<or> is_upper_letter c \<or> c = CHR ''_'' \<or> c = CHR '':''"

fun read_quoted :: "string \<Rightarrow> (string \<times> string) option" where
  "read_quoted [] = None"
| "read_quoted (c # s) =
     (if c = CHR 0x22 then Some ([], s)
      else if c = CHR 0x5C then
        (case s of
           [] \<Rightarrow> None
         | e # t \<Rightarrow>
             if e = CHR ''n'' then map_option (apfst ((#) (CHR 0x0A))) (read_quoted t)
             else if e = CHR 0x22 \<or> e = CHR 0x5C then map_option (apfst ((#) e)) (read_quoted t)
             else None)
      else map_option (apfst ((#) c)) (read_quoted s))"

type_synonym metric_sample = "string \<times> (string \<times> string) option \<times> string"

definition read_sample :: "string \<Rightarrow> metric_sample option" where
  "read_sample line =
     (let name = takeWhile metric_char line in
      case dropWhile metric_char line of
        [] \<Rightarrow> None
      | c # r \<Rightarrow>
          if name = [] then None
          else if c = CHR '' '' then Some (name, None, r)
          else if c = CHR ''{'' then
            (case dropWhile metric_char r of
               a # b # r' \<Rightarrow>
                 if a = CHR ''='' \<and> b = CHR 0x22 then
                   (case read_quoted r' of
                      Some (v, x # y # value) \<Rightarrow>
                        if x = CHR ''}'' \<and> y = CHR '' '' then Some (name, Some (takeWhile metric_char r, v), value) else None
                    | _ \<Rightarrow> None)
                 else None
             | _ \<Rightarrow> None)
          else None)"

definition sample_line :: "string \<Rightarrow> bool" where
  "sample_line l \<longleftrightarrow> l \<noteq> [] \<and> hd l \<noteq> CHR ''#''"

definition read_page :: "string \<Rightarrow> metric_sample list option" where
  "read_page text = those (map read_sample (filter sample_line (split_on (CHR 0x0A) text)))"

text \<open>The samples a page should hold.\<close>

definition latency_samples :: "string \<Rightarrow> (string \<times> string) option \<Rightarrow> histogram_snapshot \<Rightarrow> metric_sample list" where
  "latency_samples p label h =
     [(p @ ''_observations_total'', label, show_nat (unat (hs_count h))),
      (p @ ''_p50_seconds'', label, format_g 9 (seconds_of (hs_p50 h))),
      (p @ ''_p95_seconds'', label, format_g 9 (seconds_of (hs_p95 h))),
      (p @ ''_p99_seconds'', label, format_g 9 (seconds_of (hs_p99 h)))]"

definition upstream_samples :: "string \<times> upstream_snapshot \<Rightarrow> metric_sample list" where
  "upstream_samples iu =
     (case iu of (i, u) \<Rightarrow>
        let label = Some (''upstream'', i) in
        [(''sis_upstream_requests_total'', label, show_nat (unat (us_requests u))),
         (''sis_upstream_errors_total'', label, show_nat (unat (us_errors u))),
         (''sis_upstream_consecutive_errors'', label, show_nat (unat (us_consecutive u))),
         (''sis_upstream_healthy'', label, if us_healthy u then ''1'' else ''0'')]
        @ latency_samples ''sis_upstream_latency'' label (us_latency u))"

definition snapshot_samples :: "go_runtime \<Rightarrow> stats_snapshot \<Rightarrow> metric_sample list" where
  "snapshot_samples R s =
     [(''sis_dns_queries_total'', None, show_nat (unat (ss_queries s))),
      (''sis_dns_cache_hits_total'', None, show_nat (unat (ss_cache_hit s))),
      (''sis_dns_cache_misses_total'', None, show_nat (unat (ss_cache_miss s))),
      (''sis_dns_blocked_queries_total'', None, show_nat (unat (ss_blocked s))),
      (''sis_dns_rate_limited_total'', None, show_nat (unat (ss_rate_limited s))),
      (''sis_dns_malformed_packets_total'', None, show_nat (unat (ss_malformed s)))]
     @ latency_samples ''sis_dns_latency'' None (ss_latency s)
     @ [(''sis_go_goroutines'', None, show_nat (go_goroutines R)),
        (''sis_go_mem_alloc_bytes'', None, show_nat (unat (go_alloc R))),
        (''sis_go_mem_sys_bytes'', None, show_nat (unat (go_sys R))),
        (''sis_go_gc_total'', None, show_nat (unat (go_num_gc R)))]
     @ concat (map upstream_samples (sort_key fst (ss_upstreams s)))"

section \<open>Escapes\<close>

lemma escape_Nil [simp]: "escape_prometheus_label [] = []"
  by (simp add: escape_prometheus_label_def)

lemma escape_Cons:
  "escape_prometheus_label (c # v) =
     (if c = CHR 0x5C then [CHR 0x5C, CHR 0x5C] else if c = CHR 0x0A then [CHR 0x5C, CHR ''n'']
      else if c = CHR 0x22 then [CHR 0x5C, CHR 0x22] else [c]) @ escape_prometheus_label v"
  by (simp add: escape_prometheus_label_def backslash_def quote_def)

lemma escape_no_newline: "CHR 0x0A \<notin> set (escape_prometheus_label v)"
  by (induction v) (auto simp: escape_Cons)

lemma read_quoted_escape: "read_quoted (escape_prometheus_label v @ CHR 0x22 # rest) = Some (v, rest)"
  by (induction v) (simp_all add: escape_Cons)

section \<open>Lines read back\<close>

lemma page_Nil [simp]: "read_page [] = Some []"
  by (simp add: read_page_def sample_line_def)

lemma page_comment:
  "CHR 0x0A \<notin> set l \<Longrightarrow> read_page (CHR ''#'' # l @ CHR 0x0A # t) = read_page t"
  using split_on_append_sep [of "CHR 0x0A" "CHR ''#'' # l" t] by (simp add: read_page_def sample_line_def)

lemma page_sample:
  assumes "CHR 0x0A \<notin> set l" "read_sample l = Some x" "hd l \<noteq> CHR ''#''"
  shows "read_page (l @ CHR 0x0A # t) = map_option ((#) x) (read_page t)"
proof -
  have "l \<noteq> []" using assms(2) by (auto simp: read_sample_def)
  with assms split_on_append_sep [OF assms(1), of t] show ?thesis
    by (simp add: read_page_def sample_line_def)
qed

lemma metric_char_not [simp]:
  "\<not> metric_char (CHR '' '')" "\<not> metric_char (CHR ''{'')" "\<not> metric_char (CHR ''='')" "\<not> metric_char (CHR 0x0A)"
  "\<not> metric_char (CHR ''#'')"
  by (simp_all add: metric_char_def is_digit_def is_lower_letter_def is_upper_letter_def byte_def)

definition metric_name :: "string \<Rightarrow> bool" where
  "metric_name n \<longleftrightarrow> n \<noteq> [] \<and> list_all metric_char n"

lemma take_name [simp]:
  "list_all metric_char n \<Longrightarrow> \<not> metric_char c \<Longrightarrow> takeWhile metric_char (n @ c # r) = n"
  "list_all metric_char n \<Longrightarrow> \<not> metric_char c \<Longrightarrow> dropWhile metric_char (n @ c # r) = c # r"
  by (auto simp: list_all_iff takeWhile_append dropWhile_append)

lemma name_line: "metric_name n \<Longrightarrow> CHR 0x0A \<notin> set n \<and> hd (n @ s) \<noteq> CHR ''#''"
  using metric_char_not by (auto simp: metric_name_def list_all_iff hd_append) (metis hd_in_set metric_char_not(5))+

text \<open>The label of a sample and what it is read as.\<close>

definition label_text :: "string option \<Rightarrow> string" where
  "label_text l = (case l of None \<Rightarrow> [] | Some i \<Rightarrow> upstream_label i)"

definition label_read :: "string option \<Rightarrow> (string \<times> string) option" where
  "label_read l = map_option (Pair ''upstream'') l"

lemma page_line:
  assumes "metric_name n" "CHR 0x0A \<notin> set v"
  shows "read_page (n @ label_text l @ CHR '' '' # v @ CHR 0x0A # t)
    = map_option ((#) (n, label_read l, v)) (read_page t)"
proof -
  let ?line = "n @ label_text l @ CHR '' '' # v"
  have "CHR 0x0A \<notin> set ?line" "hd ?line \<noteq> CHR ''#''"
    using assms name_line [of n] escape_no_newline
    by (auto simp: label_text_def upstream_label_def quote_def split: option.split)
  moreover have "read_sample ?line = Some (n, label_read l, v)"
  proof (cases l)
    case None
    with assms(1) show ?thesis by (simp add: read_sample_def metric_name_def label_text_def label_read_def)
  next
    case (Some i)
    have "list_all metric_char ''upstream''"
      by (simp add: metric_char_def is_digit_def is_lower_letter_def byte_def)
    then show ?thesis
      using assms(1) read_quoted_escape [of i "CHR ''}'' # CHR '' '' # v"]
        take_name [of "''upstream''" "CHR ''=''"]
      by (simp add: read_sample_def metric_name_def label_text_def label_read_def upstream_label_def quote_def Some)
  qed
  ultimately show ?thesis using page_sample [of ?line] by simp
qed

lemma page_help:
  assumes "CHR 0x0A \<notin> set n" "CHR 0x0A \<notin> set k" "CHR 0x0A \<notin> set h"
  shows "read_page (write_metric_help n k h @ t) = read_page t"
  using assms page_comment [of "'' HELP '' @ n @ '' '' @ h"] page_comment [of "'' TYPE '' @ n @ '' '' @ k"]
  by (simp add: write_metric_help_def newline_def)

lemma page_counter:
  assumes "metric_name n"
  shows "read_page (write_metric_counter n v @ t) = map_option ((#) (n, None, show_nat (unat v))) (read_page t)"
  using page_line [OF assms no_line_in_digits [OF show_nat_digits], of None "unat v" t]
  by (simp add: write_metric_counter_def newline_def label_text_def label_read_def)

lemma page_labelled:
  assumes "metric_name n"
  shows "read_page (write_metric_counter_with_label n (upstream_label i) v @ t)
      = map_option ((#) (n, Some (''upstream'', i), show_nat (unat v))) (read_page t)"
    "read_page (write_metric_gauge_with_label n (upstream_label i) v @ t)
      = map_option ((#) (n, Some (''upstream'', i), show_nat (unat v))) (read_page t)"
  using page_line [OF assms no_line_in_digits [OF show_nat_digits], of "Some i" "unat v" t]
  by (simp_all add: write_metric_counter_with_label_def write_metric_gauge_with_label_def newline_def label_text_def label_read_def)

lemma page_latency_help:
  assumes "CHR 0x0A \<notin> set p"
  shows "read_page (write_latency_metric_help p @ t) = read_page t"
  using assms
    page_comment [of "'' HELP '' @ p @ ''_observations_total Total latency observations.''"]
    page_comment [of "'' TYPE '' @ p @ ''_observations_total counter''"]
    page_comment [of "'' HELP '' @ p @ ''_p50_seconds Approximate p50 latency in seconds.''"]
    page_comment [of "'' TYPE '' @ p @ ''_p50_seconds gauge''"]
    page_comment [of "'' HELP '' @ p @ ''_p95_seconds Approximate p95 latency in seconds.''"]
    page_comment [of "'' TYPE '' @ p @ ''_p95_seconds gauge''"]
    page_comment [of "'' HELP '' @ p @ ''_p99_seconds Approximate p99 latency in seconds.''"]
    page_comment [of "'' TYPE '' @ p @ ''_p99_seconds gauge''"]
  by (simp add: write_latency_metric_help_def newline_def)

lemma latency_names:
  assumes "metric_name p"
  shows "metric_name (p @ ''_observations_total'')" "metric_name (p @ ''_p50_seconds'')"
    "metric_name (p @ ''_p95_seconds'')" "metric_name (p @ ''_p99_seconds'')"
  using assms by (simp_all add: metric_name_def metric_char_def is_digit_def is_lower_letter_def byte_def)

lemma page_latency:
  assumes p: "metric_name p"
  shows "read_page (write_latency_metrics p (label_text l) h @ t)
    = map_option ((@) (latency_samples p (label_read l) h)) (read_page t)"
proof -
  define head where "head = (if label_text l = [] then write_latency_metric_help p else [])"
  have "read_page (head @ t) = read_page t" for t
    using name_line [OF p] by (simp add: page_latency_help head_def)
  moreover note page_line [OF latency_names(1) [OF p] no_line_in_digits [OF show_nat_digits], of l]
    page_line [OF latency_names(2) [OF p] format_no_newline, of l]
    page_line [OF latency_names(3) [OF p] format_no_newline, of l]
    page_line [OF latency_names(4) [OF p] format_no_newline, of l]
  ultimately show ?thesis
    by (cases "read_page t") (simp_all add: write_latency_metrics_def head_def [symmetric] newline_def latency_samples_def)
qed

lemma metric_names:
  "metric_name ''sis_dns_queries_total''" "metric_name ''sis_dns_cache_hits_total''" "metric_name ''sis_dns_cache_misses_total''"
  "metric_name ''sis_dns_blocked_queries_total''" "metric_name ''sis_dns_rate_limited_total''"
  "metric_name ''sis_dns_malformed_packets_total''" "metric_name ''sis_dns_latency''" "metric_name ''sis_go_goroutines''"
  "metric_name ''sis_go_mem_alloc_bytes''" "metric_name ''sis_go_mem_sys_bytes''" "metric_name ''sis_go_gc_total''"
  "metric_name ''sis_upstream_requests_total''" "metric_name ''sis_upstream_errors_total''"
  "metric_name ''sis_upstream_consecutive_errors''" "metric_name ''sis_upstream_healthy''" "metric_name ''sis_upstream_latency''"
  by (simp_all add: metric_name_def metric_char_def is_digit_def is_lower_letter_def byte_def)

lemma page_runtime:
  "read_page (write_go_runtime_metrics R @ t)
    = map_option ((@) [(''sis_go_goroutines'', None, show_nat (go_goroutines R)),
        (''sis_go_mem_alloc_bytes'', None, show_nat (unat (go_alloc R))),
        (''sis_go_mem_sys_bytes'', None, show_nat (unat (go_sys R))),
        (''sis_go_gc_total'', None, show_nat (unat (go_num_gc R)))]) (read_page t)"
proof -
  note line = page_line [OF _ no_line_in_digits [OF show_nat_digits], of _ None, unfolded label_text_def label_read_def, simplified]
  note comments = page_comment [of "'' HELP sis_go_goroutines Current number of goroutines.''"]
    page_comment [of "'' TYPE sis_go_goroutines gauge''"]
    page_comment [of "'' HELP sis_go_mem_alloc_bytes Current allocated heap objects in bytes.''"]
    page_comment [of "'' TYPE sis_go_mem_alloc_bytes gauge''"]
    page_comment [of "'' HELP sis_go_mem_sys_bytes Current reserved memory in bytes.''"]
    page_comment [of "'' TYPE sis_go_mem_sys_bytes gauge''"]
    page_comment [of "'' HELP sis_go_gc_total Total number of GC cycles performed.''"]
    page_comment [of "'' TYPE sis_go_gc_total counter''"]
  show ?thesis
    using comments line [OF metric_names(8)] line [OF metric_names(9)] line [OF metric_names(10)] line [OF metric_names(11)]
    by (cases "read_page t") (simp_all add: write_go_runtime_metrics_def newline_def)
qed

lemma page_upstream:
  "read_page (upstream_metrics iu @ t) = map_option ((@) (upstream_samples iu)) (read_page t)"
proof (cases iu)
  case (Pair i u)
  have one: "show_nat (unat (if us_healthy u then 1 else 0 :: u64)) = (if us_healthy u then ''1'' else ''0'')"
  proof -
    have "show_nat 1 = ''1''" "show_nat 0 = ''0''" by code_simp+
    then show ?thesis by simp
  qed
  have label: "label_text (Some i) = upstream_label i" "label_read (Some i) = Some (''upstream'', i)"
    by (simp_all add: label_text_def label_read_def)
  show ?thesis
    using page_latency [OF metric_names(16), of "Some i"]
    by (cases "read_page t") (simp_all add: Pair upstream_metrics_def upstream_samples_def Let_def page_labelled metric_names one label)
qed

lemma page_upstreams:
  "read_page (concat (map upstream_metrics us)) = Some (concat (map upstream_samples us))"
  by (induction us) (simp_all add: page_upstream)

text \<open>C17: Reading the metrics page back gives exactly the counters of the snapshot, in order, whatever
  the upstreams are called: no identifier an administrator chooses can break a line, end its
  label or make up a sample.\<close>

theorem metrics_read_back: "read_page (prometheus_metrics R s) = Some (snapshot_samples R s)"
proof -
  have "label_text None = []" "label_read None = None" by (simp_all add: label_text_def label_read_def)
  with page_latency [OF metric_names(7), of None]
  have "read_page (write_latency_metrics ''sis_dns_latency'' [] h @ t)
      = map_option ((@) (latency_samples ''sis_dns_latency'' None h)) (read_page t)" for h t by simp
  then show ?thesis
    by (simp add: prometheus_metrics_def snapshot_samples_def page_help page_counter page_latency_help page_runtime
        page_upstreams metric_names)
qed

end
