(* ===== verification/Api_Reports.thy ===== *)
theory Api_Reports
  imports Api_Clients Api_Lists Api_Metrics Blocklist_Sync Store_Admin
begin

text \<open>
  The handlers that report on the running gateway or act on a part of it: \<open>internal/api/stats.go\<close>,
  \<open>logs.go\<close>, \<open>query.go\<close>, \<open>upstreams.go\<close>, \<open>blocklists.go\<close>, \<open>system.go\<close>, \<open>system_config.go\<close>, and the health
  checks, the summary and the log stream of \<open>server.go\<close>.

  \<open>report_env\<close> holds what these handlers read beside the environment of the API: the parameters of
  the URL (\<open>rn_param\<close>, the empty text where there is none), the file the store lives in, the clock,
  the network, the syncer's fetches and the encoders of structs (\<open>rn_value\<close>).  \<open>rn_upper\<close> is
  \<open>strings.ToUpper\<close> beyond ASCII, \<open>rn_types\<close> the table \<open>StringToType\<close> of miekg/dns.
\<close>

section \<open>Environment\<close>

record upstream_view =
  uv_id :: string
  uv_name :: string
  uv_url :: string
  uv_bootstrap :: "string list"
  uv_healthy :: bool

datatype report_value =
    Summary_Value stats_snapshot
  | Rows_Value "stats_row list"
  | Upstream_Stats_Value "(string, upstream_snapshot) alist"
  | Top_Value "top_item list"
  | Entries_Value "log_entry list"
  | Upstreams_Value "upstream_view list"
  | Blocklists_Value "blocklist list"
  | Verified_Value verify_result

record 's report_env =
  rn_param :: "string \<Rightarrow> string"
  rn_value :: "report_value \<Rightarrow> json"
  rn_entry :: "log_entry \<Rightarrow> string"
  rn_store_text :: "store_error \<Rightarrow> string"
  rn_sql :: sql_io
  rn_stat :: "string option"
  rn_opened :: "string option"
  rn_check :: string
  rn_json_file :: json_text
  rn_sqlite_file :: "sql_db option"
  rn_dns_ready :: "bool option"
  rn_flusher :: bool
  rn_runtime :: go_runtime
  rn_pipe :: "'s pipe_env"
  rn_upper :: "string \<Rightarrow> string"
  rn_types :: "string \<Rightarrow> u16 option"
  rn_random_id :: u16
  rn_started :: gotime
  rn_net :: doh_net
  rn_test_latency :: duration
  rn_fetch :: "nat \<Rightarrow> fetch_io"
  rn_http_time :: "gotime \<Rightarrow> string"
  rn_read_yaml :: "string \<Rightarrow> config option"

text \<open>\<open>gatewayError\<close>; its log line is not modelled.\<close>

definition gateway_error :: "string \<Rightarrow> writer \<Rightarrow> writer" where
  "gateway_error msg w = http_error msg 502 w"

definition answer_json :: "'s api_env \<Rightarrow> json \<Rightarrow> writer \<times> 's api \<Rightarrow> writer \<times> 's api" where
  "answer_json N j ws = (case ws of (w, s) \<Rightarrow> (write_json (an_render N) j w, s))"

definition answer_error :: "string \<Rightarrow> int \<Rightarrow> writer \<times> 's api \<Rightarrow> writer \<times> 's api" where
  "answer_error msg code ws = (case ws of (w, s) \<Rightarrow> (http_error msg code w, s))"

definition answer_internal :: "string \<Rightarrow> writer \<times> 's api \<Rightarrow> writer \<times> 's api" where
  "answer_internal msg ws = (case ws of (w, s) \<Rightarrow> (internal_error msg w, s))"

section \<open>Health\<close>

definition healthz :: "writer \<times> 's api \<Rightarrow> writer \<times> 's api" where
  "healthz ws =
     (case ws of (w, s) \<Rightarrow>
        (write_body ([CHR ''{'', CHR 0x22] @ ''ok'' @ [CHR 0x22] @ '':true}'' @ newline)
           (set_header ''Content-Type'' ''application/json'' w), s))"

definition verified :: "'s report_env \<Rightarrow> config \<Rightarrow> store_error + verify_result" where
  "verified R c =
     verify_backend (rn_sql R) (rn_stat R) (rn_opened R) (rn_check R) (sv_store_backend (c_server c)) (sv_data_dir (c_server c))
       (rn_json_file R) (rn_sqlite_file R)"

text \<open>The checks: whether each passes, and its line of the report.\<close>

definition config_checks :: "'s report_env \<Rightarrow> 's api \<Rightarrow> bool \<times> (string \<times> string) list" where
  "config_checks R s =
     (case api_config s of
        None \<Rightarrow> (False, [(''config'', ''unavailable'')])
      | Some c \<Rightarrow>
          (case verified R c of
             Inl e \<Rightarrow> (False, [(''config'', ''ok''), (''store'', rn_store_text R e)])
           | Inr _ \<Rightarrow> (True, [(''config'', ''ok''), (''store'', ''ok'')])))"

definition upstream_check :: "'s api \<Rightarrow> bool \<times> string" where
  "upstream_check s =
     (case pp_upstream (ap_pipe s) of
        None \<Rightarrow> (False, ''unavailable'')
      | Some p \<Rightarrow>
          if all_ids p = [] then (False, ''none configured'')
          else if healthy_ids p = [] then (False, ''no healthy upstreams'') else (True, ''ok''))"

definition pipeline_check :: "'s api \<Rightarrow> bool \<times> string" where
  "pipeline_check s = (if ap_has_pipeline s then (True, ''ok'') else (False, ''unavailable''))"

definition dns_check :: "'s report_env \<Rightarrow> bool \<times> string" where
  "dns_check R =
     (case rn_dns_ready R of
        None \<Rightarrow> (True, ''not reported'') | Some False \<Rightarrow> (False, ''listeners not ready'') | Some True \<Rightarrow> (True, ''ok''))"

definition sorted_object :: "(string \<times> json) list \<Rightarrow> json" where
  "sorted_object fs = JObj (sort_key fst fs)"

definition readyz :: "'s api_env \<Rightarrow> 's report_env \<Rightarrow> writer \<times> 's api \<Rightarrow> writer \<times> 's api" where
  "readyz N R ws =
     (case ws of (w, s) \<Rightarrow>
        let (a, cs) = config_checks R s; (b, u) = upstream_check s; (c, p) = pipeline_check s; (d, l) = dns_check R;
            ready = (a \<and> b \<and> c \<and> d);
            checks = cs @ [(''upstreams'', u), (''pipeline'', p), (''dns'', l)]
        in (write_json_status (an_render N) (if ready then 200 else 503)
              (sorted_object [(''ready'', JBool ready), (''checks'', sorted_object (map (map_prod id JStr) checks))]) w, s))"

section \<open>Statistics\<close>

definition stats_summary :: "'s api_env \<Rightarrow> 's report_env \<Rightarrow> writer \<times> 's api \<Rightarrow> writer \<times> 's api" where
  "stats_summary N R ws =
     (if \<not> ap_has_stats (snd ws) then answer_error ''stats unavailable'' 503 ws
      else answer_json N (rn_value R (Summary_Value (stats_snapshot_of (pp_stats (ap_pipe (snd ws)))))) ws)"

definition last_rows :: "int \<Rightarrow> 'a list \<Rightarrow> 'a list" where
  "last_rows limit xs = (if limit < int (length xs) then drop (length xs - nat limit) xs else xs)"

definition stats_timeseries :: "'s api_env \<Rightarrow> 's report_env \<Rightarrow> writer \<times> 's api \<Rightarrow> writer \<times> 's api" where
  "stats_timeseries N R ws =
     (if \<not> ap_has_store (snd ws) then answer_error ''store unavailable'' 503 ws
      else
        let bucket = rn_param R ''bucket''; bucket = (if bucket = [] then ''1m'' else bucket) in
        if bucket \<noteq> ''1m'' \<and> bucket \<noteq> ''1h'' \<and> bucket \<noteq> ''1d'' then answer_error ''invalid bucket'' 400 ws
        else
          (case stats_list (an_kv N) bucket (api_store (snd ws)) of
             Inl e \<Rightarrow> answer_internal ''stats unavailable'' ws
           | Inr rows \<Rightarrow>
               (case int_query (rn_param R ''limit'') ''limit'' 60 1440 of
                  Inl e \<Rightarrow> answer_error e 400 ws
                | Inr limit \<Rightarrow>
                    answer_json N (JObj [(''bucket'', JStr bucket), (''rows'', rn_value R (Rows_Value (last_rows limit rows)))]) ws)))"

definition stats_upstreams :: "'s api_env \<Rightarrow> 's report_env \<Rightarrow> writer \<times> 's api \<Rightarrow> writer \<times> 's api" where
  "stats_upstreams N R ws =
     (if \<not> ap_has_stats (snd ws) then answer_error ''stats unavailable'' 503 ws
      else answer_json N
        (rn_value R (Upstream_Stats_Value (ss_upstreams (stats_snapshot_of (pp_stats (ap_pipe (snd ws))))))) ws)"

definition stats_top_domains :: "'s api_env \<Rightarrow> 's report_env \<Rightarrow> writer \<times> 's api \<Rightarrow> writer \<times> 's api" where
  "stats_top_domains N R ws =
     (if \<not> ap_has_stats (snd ws) then answer_error ''stats unavailable'' 503 ws
      else
        (case int_query (rn_param R ''limit'') ''limit'' 10 100 of
           Inl e \<Rightarrow> answer_error e 400 ws
         | Inr limit \<Rightarrow>
             (case (if rn_param R ''blocked'' = [] then Some False else parse_bool (rn_param R ''blocked'')) of
                None \<Rightarrow> answer_error ''invalid blocked'' 400 ws
              | Some blocked \<Rightarrow>
                  answer_json N
                    (JObj [(''domains'', rn_value R (Top_Value (top_domains limit blocked (pp_stats (ap_pipe (snd ws))))))]) ws)))"

definition stats_top_clients :: "'s api_env \<Rightarrow> 's report_env \<Rightarrow> writer \<times> 's api \<Rightarrow> writer \<times> 's api" where
  "stats_top_clients N R ws =
     (if \<not> ap_has_stats (snd ws) then answer_error ''stats unavailable'' 503 ws
      else
        (case int_query (rn_param R ''limit'') ''limit'' 10 100 of
           Inl e \<Rightarrow> answer_error e 400 ws
         | Inr limit \<Rightarrow>
             answer_json N (JObj [(''clients'', rn_value R (Top_Value (top_clients limit (pp_stats (ap_pipe (snd ws))))))]) ws))"

section \<open>The query log\<close>

definition log_query_filter :: "'s report_env \<Rightarrow> int \<Rightarrow> bool option \<Rightarrow> log_filter" where
  "log_query_filter R limit blocked =
     \<lparr>lf_client = rn_param R ''client'', lf_qname = rn_param R ''qname'', lf_blocked = blocked, lf_limit = limit\<rparr>"

definition query_log_list :: "'s api_env \<Rightarrow> 's report_env \<Rightarrow> writer \<times> 's api \<Rightarrow> writer \<times> 's api" where
  "query_log_list N R ws =
     (case pp_log (ap_pipe (snd ws)) of
        None \<Rightarrow> answer_error ''query log unavailable'' 503 ws
      | Some (q, d) \<Rightarrow>
          (case int_query (rn_param R ''limit'') ''limit'' 100 1000 of
             Inl e \<Rightarrow> answer_error e 400 ws
           | Inr limit \<Rightarrow>
               (case (if rn_param R ''blocked'' = [] then Some None else map_option Some (parse_bool (rn_param R ''blocked''))) of
                  None \<Rightarrow> answer_error ''invalid blocked'' 400 ws
                | Some blocked \<Rightarrow>
                    answer_json N (JObj [(''entries'',
                      rn_value R (Entries_Value (query_recent (an_go N) (log_query_filter R limit blocked) q)))]) ws)))"

text \<open>The stream: what the loop receives, an entry with the success of its three writes, and the end of
  the request or of the channel.  A list that ends otherwise leaves the handler waiting.\<close>

datatype stream_event = Stream_Entry log_entry bool bool bool | Stream_Over

primrec stream_loop :: "(log_entry \<Rightarrow> string) \<Rightarrow> stream_event list \<Rightarrow> writer \<Rightarrow> writer \<times> bool" where
  "stream_loop render [] w = (w, False)"
| "stream_loop render (ev # evs) w =
     (case ev of
        Stream_Over \<Rightarrow> (w, True)
      | Stream_Entry e a b c \<Rightarrow>
          if \<not> a then (w, True)
          else
            let w = write_body ''data: '' w in
            if \<not> b then (w, True)
            else
              let w = write_body (render e @ newline) w in
              if \<not> c then (w, True) else stream_loop render evs (write_body newline w))"

definition on_fanout :: "(fanout \<Rightarrow> fanout) \<Rightarrow> 's api \<Rightarrow> 's api" where
  "on_fanout f s = s\<lparr>ap_pipe := (ap_pipe s)\<lparr>pp_log :=
     map_option (map_prod (\<lambda>q. q\<lparr>ql_fanout := f (ql_fanout q)\<rparr>) id) (pp_log (ap_pipe s))\<rparr>\<rparr>"

definition query_log_stream ::
  "'s report_env \<Rightarrow> stream_event list \<Rightarrow> writer \<times> 's api \<Rightarrow> (writer \<times> 's api) \<times> bool" where
  "query_log_stream R events ws =
     (case ws of (w, s) \<Rightarrow>
        (case pp_log (ap_pipe s) of
           None \<Rightarrow> (answer_error ''query log unavailable'' 503 (w, s), True)
         | Some (q, d) \<Rightarrow>
             if \<not> rn_flusher R then (answer_error ''streaming unsupported'' 500 (w, s), True)
             else
               let w = set_header ''Connection'' ''keep-alive'' (set_header ''Cache-Control'' ''no-cache''
                     (set_header ''Content-Type'' ''text/event-stream'' w));
                   sub = snd (subscribe 64 True (ql_fanout q));
                   s = on_fanout (\<lambda>f. fst (subscribe 64 True f)) s
               in (case stream_loop (rn_entry R) events w of
                     (w, ended) \<Rightarrow> ((w, if ended then on_fanout (unsubscribe sub) s else s), ended))))"

section \<open>Test queries\<close>

text \<open>\<open>queryTest\<close> runs a query through the pipeline in the process.  The bodies hold strings only.
  The handler does not return where \<open>Handle\<close> does not.\<close>

definition test_source :: "'s api_env \<Rightarrow> http_request \<Rightarrow> string \<Rightarrow> ip" where
  "test_source N r client_ip =
     (case parse_ip client_ip of
        Some a \<Rightarrow> a
      | None \<Rightarrow>
          (case an_split_host N (hr_remote r) of
             None \<Rightarrow> [127, 0, 0, 1]
           | Some host \<Rightarrow> (case parse_ip host of Some a \<Rightarrow> a | None \<Rightarrow> [127, 0, 0, 1])))"

definition query_answers :: "dnslib \<Rightarrow> msg option \<Rightarrow> string list" where
  "query_answers D m = (case m of None \<Rightarrow> [] | Some m \<Rightarrow> map (dl_rr_string D) (m_answer m))"

definition upper_text :: "'s report_env \<Rightarrow> string \<Rightarrow> string" where
  "upper_text R v =
     (if list_all is_ascii v then map (\<lambda>c. if is_lower_letter c then char_of (byte c - 32) else c) v else rn_upper R v)"

definition or_text :: "string \<Rightarrow> string \<Rightarrow> string" where
  "or_text v d = (if v = [] then d else v)"

definition test_request :: "'s report_env \<Rightarrow> 's api_env \<Rightarrow> http_request \<Rightarrow> (string \<Rightarrow> string) \<Rightarrow> string \<Rightarrow> u16 \<Rightarrow> request" where
  "test_request R N r req domain qtype =
     \<lparr>rq_msg = Some (new_msg\<lparr>m_id := rn_random_id R, m_recursion_desired := True,
        m_question := [\<lparr>q_name = dl_fqdn (en_dns (rn_pipe R)) domain, q_type = qtype, q_class = class_inet\<rparr>]\<rparr>),
      rq_src = test_source N r (req ''client_ip''),
      rq_proto = or_text (to_lower (an_go N) (trim_space (req ''proto''))) ''api'',
      rq_started = rn_started R, rq_id = []\<rparr>"

definition query_test ::
  "'s api_env \<Rightarrow> 's report_env \<Rightarrow> http_request \<Rightarrow> writer \<times> 's api \<Rightarrow> (writer \<times> 's api) option" where
  "query_test N R r ws =
     (case ws of (w, s) \<Rightarrow>
        if \<not> ap_has_pipeline s then Some (http_error ''query pipeline unavailable'' 503 w, s)
        else
          (case decode_json (an_parse N) (strings_of_json [''domain'', ''type'', ''client_ip'', ''proto'']) r of
             Inl e \<Rightarrow> Some (http_error e 400 w, s)
           | Inr req \<Rightarrow>
               (case normalize_domain_input (an_go N) (trim_space (req ''domain'')) of
                  None \<Rightarrow> Some (http_error ''invalid domain'' 400 w, s)
                | Some domain \<Rightarrow>
                    let name = or_text (upper_text R (trim_space (req ''type''))) ''A'' in
                    (case rn_types R name of
                       None \<Rightarrow> Some (http_error ''unknown query type'' 400 w, s)
                     | Some qtype \<Rightarrow>
                         let E = (rn_pipe R)\<lparr>en_context_id := hr_id r\<rparr>; D = en_dns E in
                         (case handle E (Some (test_request R N r req domain qtype)) (ap_pipe s) of
                            None \<Rightarrow> None
                          | Some (p, resp) \<Rightarrow>
                              let s = s\<lparr>ap_pipe := p\<rparr> in
                              (case rs_msg resp of
                                 None \<Rightarrow> Some (http_error ''query failed'' 500 w, s)
                               | Some m \<Rightarrow>
                                   Some (write_json (an_render N)
                                     (JObj [(''domain'', JStr (dl_fqdn D domain)), (''type'', JStr name),
                                        (''rcode'', JStr (dl_rcode_name D (m_rcode m))), (''source'', JStr (rs_source resp)),
                                        (''latency_us'', JNum (rs_latency resp sdiv microsecond)),
                                        (''answers'', JArr (map JStr (query_answers D (rs_msg resp))))]) w, s)))))))"

section \<open>Upstreams and blocklists\<close>

definition upstream_views :: "config \<Rightarrow> pool option \<Rightarrow> upstream_view list" where
  "upstream_views c p =
     (let up = (case p of None \<Rightarrow> [] | Some p \<Rightarrow> healthy_ids p) in
      map (\<lambda>u. \<lparr>uv_id = up_id u, uv_name = up_name u, uv_url = up_url u, uv_bootstrap = up_bootstrap u,
                uv_healthy = (up_id u \<in> set up)\<rparr>) (c_upstreams c))"

definition upstreams_list :: "'s api_env \<Rightarrow> 's report_env \<Rightarrow> writer \<times> 's api \<Rightarrow> writer \<times> 's api" where
  "upstreams_list N R ws =
     (case api_config (snd ws) of
        None \<Rightarrow> answer_error ''config unavailable'' 503 ws
      | Some c \<Rightarrow> answer_json N (rn_value R (Upstreams_Value (upstream_views c (pp_upstream (ap_pipe (snd ws)))))) ws)"

definition answer_count :: "msg option \<Rightarrow> int" where
  "answer_count m = (case m of None \<Rightarrow> 0 | Some m \<Rightarrow> int (length (m_answer m)))"

definition upstream_test :: "'s api_env \<Rightarrow> 's report_env \<Rightarrow> string \<Rightarrow> writer \<times> 's api \<Rightarrow> writer \<times> 's api" where
  "upstream_test N R i ws =
     (case ws of (w, s) \<Rightarrow>
        (case pp_upstream (ap_pipe s) of
           None \<Rightarrow> (http_error ''upstream unavailable'' 503 w, s)
         | Some p \<Rightarrow>
             (case pool_test (an_go N) (en_dns (rn_pipe R)) (rn_net R) (rn_random_id R) i p of
                (p, res) \<Rightarrow>
                  let s = s\<lparr>ap_pipe := (ap_pipe s)\<lparr>pp_upstream := Some p\<rparr>\<rparr> in
                  (case res of
                     Inl e \<Rightarrow> (gateway_error ''upstream test failed'' w, s)
                   | Inr m \<Rightarrow>
                       answer_json N (JObj [(''answers'', JNum (answer_count (Some m))),
                         (''latency_us'', JNum (rn_test_latency R sdiv microsecond)), (''rcode'', JNum (m_rcode m))]) (w, s)))))"

definition blocklists_list :: "'s api_env \<Rightarrow> 's report_env \<Rightarrow> writer \<times> 's api \<Rightarrow> writer \<times> 's api" where
  "blocklists_list N R ws =
     (case api_config (snd ws) of
        None \<Rightarrow> answer_error ''config unavailable'' 503 ws
      | Some c \<Rightarrow> answer_json N (rn_value R (Blocklists_Value (c_blocklists c))) ws)"

text \<open>The syncer works on the engine of the pipeline.\<close>

definition shared_force_sync ::
  "golib \<Rightarrow> (nat \<Rightarrow> fetch_io) \<Rightarrow> string \<Rightarrow> 's api \<Rightarrow> syncer \<Rightarrow> ('s api \<times> syncer) \<times> (sync_error + fetch_result)" where
  "shared_force_sync G io i s y =
     (case pp_policy (ap_pipe s) of
        None \<Rightarrow> ((s, y), Inl Not_Configured)
      | Some e \<Rightarrow>
          (case force_sync G io (api_config s) i (y\<lparr>sy_engine := e\<rparr>) of
             (y, res) \<Rightarrow> ((s\<lparr>ap_pipe := (ap_pipe s)\<lparr>pp_policy := Some (sy_engine y)\<rparr>\<rparr>, y), res)))"

definition blocklist_sync ::
  "'s api_env \<Rightarrow> 's report_env \<Rightarrow> string \<Rightarrow> (writer \<times> 's api) \<times> syncer option \<Rightarrow> (writer \<times> 's api) \<times> syncer option" where
  "blocklist_sync N R i ws =
     (case ws of ((w, s), sy) \<Rightarrow>
        (case sy of
           None \<Rightarrow> ((http_error ''syncer unavailable'' 503 w, s), None)
         | Some y \<Rightarrow>
             (case shared_force_sync (an_go N) (rn_fetch R) i s y of
                ((s, y), Inl e) \<Rightarrow> ((gateway_error ''blocklist sync failed'' w, s), Some y)
              | ((s, y), Inr res) \<Rightarrow>
                  (answer_json N (JObj [(''accepted'', JNum (ps_accepted (fr_stats res))), (''from_cache'', JBool (fr_from_cache res)),
                     (''id'', JStr (fr_id res)), (''not_modified'', JBool (fr_not_modified res))]) (w, s), Some y))))"

definition blocklist_entries :: "'s api_env \<Rightarrow> 's report_env \<Rightarrow> string \<Rightarrow> writer \<times> 's api \<Rightarrow> writer \<times> 's api" where
  "blocklist_entries N R i ws =
     (case ws of (w, s) \<Rightarrow>
        if pp_policy (ap_pipe s) = None then (http_error ''policy unavailable'' 503 w, s)
        else
          (case int_query (rn_param R ''limit'') ''limit'' 100 1000 of
             Inl e \<Rightarrow> (http_error e 400 w, s)
           | Inr limit \<Rightarrow>
               (case list_entries (an_go N) i (rn_param R ''q'') limit (pp_policy (ap_pipe s)) of
                  None \<Rightarrow> (not_found w, s)
                | Some es \<Rightarrow>
                    answer_json N (JObj [(''count'', JNum (int (length es))), (''entries'', JArr (map JStr es))]) (w, s))))"

section \<open>The system\<close>

definition cache_flush_handler :: "'s api_env \<Rightarrow> writer \<times> 's api \<Rightarrow> writer \<times> 's api" where
  "cache_flush_handler N ws =
     (case ws of (w, s) \<Rightarrow>
        if \<not> ap_has_cache s then (http_error ''cache unavailable'' 503 w, s)
        else
          let before = cache_len (pp_cache (ap_pipe s));
              s = s\<lparr>ap_pipe := (ap_pipe s)\<lparr>pp_cache := cache_flush (pp_cache (ap_pipe s))\<rparr>\<rparr>;
              s = api_audit N ''cache.flush'' ''dns-cache'' (Json_Payload (JObj [(''entries'', JNum before)]))
                    (Json_Payload (JObj [(''entries'', JNum 0)])) s
          in answer_json N (JObj [(''entries'', JNum before), (''flushed'', JBool True)]) (w, s))"

definition system_info :: "'s api_env \<Rightarrow> writer \<times> 's api \<Rightarrow> writer \<times> 's api" where
  "system_info N ws =
     answer_json N
       (sorted_object ((''service'', JStr ''sis'') #
         (case api_config (snd ws) of
            None \<Rightarrow> []
          | Some c \<Rightarrow>
              [(''dns_listen'', JArr (map JStr (ds_listen (sv_dns (c_server c))))),
               (''http_listen'', JStr (hs_listen (sv_http (c_server c)))), (''http_tls'', JBool (hs_tls (sv_http (c_server c)))),
               (''data_dir'', JStr (sv_data_dir (c_server c))),
               (''store_backend'', JStr (or_text (sv_store_backend (c_server c)) ''json'')),
               (''first_run'', JBool (au_first_run (c_auth c)))]))) ws"

definition store_verify :: "'s api_env \<Rightarrow> 's report_env \<Rightarrow> writer \<times> 's api \<Rightarrow> writer \<times> 's api" where
  "store_verify N R ws =
     (case api_config (snd ws) of
        None \<Rightarrow> answer_error ''config unavailable'' 503 ws
      | Some c \<Rightarrow>
          (case verified R c of
             Inl e \<Rightarrow> answer_internal ''store verification failed'' ws
           | Inr v \<Rightarrow> answer_json N (JObj [(''ok'', JBool True), (''store'', rn_value R (Verified_Value v))]) ws))"

definition redact_config_snapshot :: "'s api_env \<Rightarrow> 's report_env \<Rightarrow> config_snapshot option \<Rightarrow> string" where
  "redact_config_snapshot N R v =
     (case v of
        None \<Rightarrow> []
      | Some v \<Rightarrow>
          if sn_yaml v = [] then []
          else
            (case rn_read_yaml R (sn_yaml v) of
               None \<Rightarrow> []
             | Some c \<Rightarrow>
                 let c = c\<lparr>c_auth := (c_auth c)\<lparr>au_users := map redact_user (au_users (c_auth c))\<rparr>\<rparr>;
                     c = (if pv_log_salt (c_privacy c) \<noteq> []
                          then c\<lparr>c_privacy := (c_privacy c)\<lparr>pv_log_salt := ''redacted''\<rparr>\<rparr> else c)
                 in (case an_yaml N c of None \<Rightarrow> [] | Some text \<Rightarrow> text)))"

definition config_history :: "'s api_env \<Rightarrow> 's report_env \<Rightarrow> writer \<times> 's api \<Rightarrow> writer \<times> 's api" where
  "config_history N R ws =
     (if \<not> ap_has_store (snd ws) then answer_error ''store unavailable'' 503 ws
      else
        (case int_query (rn_param R ''limit'') ''limit'' 20 100 of
           Inl e \<Rightarrow> answer_error e 400 ws
         | Inr limit \<Rightarrow>
             (case history_list (an_kv N) (an_go N) limit (api_store (snd ws)) of
                Inl e \<Rightarrow> answer_internal ''config history unavailable'' ws
              | Inr vs \<Rightarrow>
                  answer_json N (JObj [(''snapshots'', JArr (map (\<lambda>v.
                    JObj [(''ts'', JStr (rn_http_time R (sn_ts v))), (''yaml'', JStr (redact_config_snapshot N R (Some v)))]) vs))]) ws)))"

section \<open>What the reports tell\<close>

text \<open>C22: The health check answers 200 exactly when the configuration is there, its store verifies, an
  upstream is healthy, the pipeline is there, and the listeners, where they report, are ready;
  otherwise 503.  It changes nothing.\<close>

theorem readyz_spec:
  "snd (readyz N R (fresh_writer, s)) = s
   \<and> w_status (fst (readyz N R (fresh_writer, s))) =
       Some (if (\<exists>c v p. api_config s = Some c \<and> verified R c = Inr v \<and> pp_upstream (ap_pipe s) = Some p
                   \<and> (\<exists>pc \<in> set (pl_clients p). pc_healthy pc))
                \<and> ap_has_pipeline s \<and> rn_dns_ready R \<noteq> Some False
             then 200 else 503)"
proof -
  have conf: "fst (config_checks R s) \<longleftrightarrow> (\<exists>c v. api_config s = Some c \<and> verified R c = Inr v)"
    by (auto simp: config_checks_def split: option.split sum.split)
  have up: "fst (upstream_check s) \<longleftrightarrow> (\<exists>p. pp_upstream (ap_pipe s) = Some p \<and> (\<exists>pc \<in> set (pl_clients p). pc_healthy pc))"
    by (auto simp: upstream_check_def healthy_ids_def all_ids_def filter_empty_conv split: option.split)
  have dns: "fst (dns_check R) \<longleftrightarrow> rn_dns_ready R \<noteq> Some False"
    by (auto simp: dns_check_def split: option.split bool.split)
  have pipe: "fst (pipeline_check s) \<longleftrightarrow> ap_has_pipeline s" by (simp add: pipeline_check_def)
  have "w_status (write_json_status r code j fresh_writer) = Some code" for r code j
    by (simp add: write_json_status_def status_write_body write_header_def fresh_writer_def)
  then have "snd (readyz N R (fresh_writer, s)) = s \<and> w_status (fst (readyz N R (fresh_writer, s))) =
      Some (if fst (config_checks R s) \<and> fst (upstream_check s) \<and> fst (pipeline_check s) \<and> fst (dns_check R) then 200 else 503)"
    by (simp add: readyz_def Let_def split: prod.split)
  then show ?thesis unfolding conf up dns pipe by auto
qed

text \<open>The configuration history shows no secret: snapshots that differ only in password hashes and in
  the log salt are shown alike.\<close>

theorem history_shows_no_secret:
  assumes "sn_yaml v1 \<noteq> []" "sn_yaml v2 \<noteq> []"
    and "rn_read_yaml R (sn_yaml v1) = Some c1" "rn_read_yaml R (sn_yaml v2) = Some c2"
    and "redacted_copy (Some c1) = redacted_copy (Some c2)"
  shows "redact_config_snapshot N R (Some v1) = redact_config_snapshot N R (Some v2)"
proof -
  have "redact_config_snapshot N R (Some v) = (case an_yaml N (the (redacted_copy (Some c))) of None \<Rightarrow> [] | Some t \<Rightarrow> t)"
    if "sn_yaml v \<noteq> []" "rn_read_yaml R (sn_yaml v) = Some c" for v c
    using that by (simp add: redact_config_snapshot_def redacted_copy_def Let_def)
  with assms show ?thesis by simp
qed

end
