(* ===== verification/Api_Routes.thy ===== *)
theory Api_Routes
  imports Api_Reports
begin

text \<open>
  The routing table of \<open>NewWithDeps\<close> (\<open>internal/api/server.go\<close>), the multiplexer of \<open>net/http\<close> that
  serves it, and the dispatch of a request to its handler.

  A pattern is a method and a list of segments; a trailing slash is the segment \<open>Rest\<close>, which matches
  what remains.  At each segment the multiplexer tries the literal, then the wildcard, then the rest,
  and goes back when what follows does not match.  The pattern \<open>/\<close> has no method.  Paths are escaped,
  as in the request line; a segment is unescaped when it is compared.
\<close>

section \<open>Patterns\<close>

datatype segment = Lit string | Wild | Rest

datatype endpoint =
    E_Healthz | E_Readyz | E_Metrics | E_Setup | E_Login | E_Logout | E_Me
  | E_Stats_Summary | E_Stats_Timeseries | E_Stats_Upstreams | E_Stats_Top_Domains | E_Stats_Top_Clients
  | E_Query_Log_List | E_Query_Log_Stream
  | E_Clients_List | E_Client_Get | E_Client_Patch | E_Client_Delete
  | E_Allowlist_Get | E_Allowlist_Add | E_Allowlist_Delete
  | E_Custom_Blocklist_Get | E_Custom_Blocklist_Add | E_Custom_Blocklist_Delete
  | E_Blocklists_List | E_Blocklist_Create | E_Blocklist_Patch | E_Blocklist_Delete | E_Blocklist_Sync | E_Blocklist_Entries
  | E_Upstreams_List | E_Upstream_Create | E_Upstream_Patch | E_Upstream_Delete | E_Upstream_Test
  | E_Groups_List | E_Group_Create | E_Group_Get | E_Group_Patch | E_Group_Delete
  | E_Settings_Get | E_Settings_Patch | E_Query_Test
  | E_System_Info | E_Store_Verify | E_Cache_Flush | E_Config_History | E_Config_Reload
  | E_Pprof_Index | E_Pprof_Cmdline | E_Pprof_Profile | E_Pprof_Symbol | E_Pprof_Trace | E_Pprof_Named
  | E_Web_Ui

type_synonym routes = "(segment list \<times> endpoint) list"

definition api_path :: "segment list \<Rightarrow> segment list" where
  "api_path ps = Lit ''api'' # Lit ''v1'' # ps"

definition get_routes :: routes where
  "get_routes =
    [([Lit ''healthz''], E_Healthz), ([Lit ''readyz''], E_Readyz), ([Lit ''metrics''], E_Metrics),
     (api_path [Lit ''auth'', Lit ''me''], E_Me),
     (api_path [Lit ''stats'', Lit ''summary''], E_Stats_Summary),
     (api_path [Lit ''stats'', Lit ''timeseries''], E_Stats_Timeseries),
     (api_path [Lit ''stats'', Lit ''upstreams''], E_Stats_Upstreams),
     (api_path [Lit ''stats'', Lit ''top-domains''], E_Stats_Top_Domains),
     (api_path [Lit ''stats'', Lit ''top-clients''], E_Stats_Top_Clients),
     (api_path [Lit ''logs'', Lit ''query''], E_Query_Log_List),
     (api_path [Lit ''logs'', Lit ''query'', Lit ''stream''], E_Query_Log_Stream),
     (api_path [Lit ''clients''], E_Clients_List), (api_path [Lit ''clients'', Wild], E_Client_Get),
     (api_path [Lit ''allowlist''], E_Allowlist_Get),
     (api_path [Lit ''custom-blocklist''], E_Custom_Blocklist_Get),
     (api_path [Lit ''blocklists''], E_Blocklists_List),
     (api_path [Lit ''blocklists'', Wild, Lit ''entries''], E_Blocklist_Entries),
     (api_path [Lit ''upstreams''], E_Upstreams_List),
     (api_path [Lit ''groups''], E_Groups_List), (api_path [Lit ''groups'', Wild], E_Group_Get),
     (api_path [Lit ''settings''], E_Settings_Get),
     (api_path [Lit ''system'', Lit ''info''], E_System_Info),
     (api_path [Lit ''system'', Lit ''store'', Lit ''verify''], E_Store_Verify),
     (api_path [Lit ''system'', Lit ''config'', Lit ''history''], E_Config_History),
     (api_path [Lit ''system'', Lit ''pprof'', Rest], E_Pprof_Index),
     (api_path [Lit ''system'', Lit ''pprof'', Lit ''cmdline''], E_Pprof_Cmdline),
     (api_path [Lit ''system'', Lit ''pprof'', Lit ''profile''], E_Pprof_Profile),
     (api_path [Lit ''system'', Lit ''pprof'', Lit ''symbol''], E_Pprof_Symbol),
     (api_path [Lit ''system'', Lit ''pprof'', Lit ''trace''], E_Pprof_Trace),
     (api_path [Lit ''system'', Lit ''pprof'', Wild], E_Pprof_Named)]"

definition post_routes :: routes where
  "post_routes =
    [(api_path [Lit ''auth'', Lit ''setup''], E_Setup), (api_path [Lit ''auth'', Lit ''login''], E_Login),
     (api_path [Lit ''auth'', Lit ''logout''], E_Logout),
     (api_path [Lit ''allowlist''], E_Allowlist_Add), (api_path [Lit ''custom-blocklist''], E_Custom_Blocklist_Add),
     (api_path [Lit ''blocklists''], E_Blocklist_Create),
     (api_path [Lit ''blocklists'', Wild, Lit ''sync''], E_Blocklist_Sync),
     (api_path [Lit ''upstreams''], E_Upstream_Create),
     (api_path [Lit ''upstreams'', Wild, Lit ''test''], E_Upstream_Test),
     (api_path [Lit ''groups''], E_Group_Create), (api_path [Lit ''query'', Lit ''test''], E_Query_Test),
     (api_path [Lit ''system'', Lit ''cache'', Lit ''flush''], E_Cache_Flush),
     (api_path [Lit ''system'', Lit ''config'', Lit ''reload''], E_Config_Reload),
     (api_path [Lit ''system'', Lit ''pprof'', Lit ''symbol''], E_Pprof_Symbol)]"

definition patch_routes :: routes where
  "patch_routes =
    [(api_path [Lit ''clients'', Wild], E_Client_Patch), (api_path [Lit ''blocklists'', Wild], E_Blocklist_Patch),
     (api_path [Lit ''upstreams'', Wild], E_Upstream_Patch), (api_path [Lit ''groups'', Wild], E_Group_Patch),
     (api_path [Lit ''settings''], E_Settings_Patch)]"

definition delete_routes :: routes where
  "delete_routes =
    [(api_path [Lit ''clients'', Wild], E_Client_Delete), (api_path [Lit ''allowlist'', Wild], E_Allowlist_Delete),
     (api_path [Lit ''custom-blocklist'', Wild], E_Custom_Blocklist_Delete),
     (api_path [Lit ''blocklists'', Wild], E_Blocklist_Delete), (api_path [Lit ''upstreams'', Wild], E_Upstream_Delete),
     (api_path [Lit ''groups'', Wild], E_Group_Delete)]"

definition routes_of :: "string \<Rightarrow> routes" where
  "routes_of verb =
     (if verb = ''GET'' \<or> verb = ''HEAD'' then get_routes
      else if verb = ''POST'' then post_routes
      else if verb = ''PATCH'' then patch_routes
      else if verb = ''DELETE'' then delete_routes else [])"

section \<open>The multiplexer\<close>

text \<open>\<open>path.Clean\<close> on a path that begins with a slash, and \<open>cleanPath\<close>.\<close>

definition clean_step :: "string \<Rightarrow> string list \<Rightarrow> string list" where
  "clean_step seg stack =
     (if seg = [] \<or> seg = ''.'' then stack else if seg = ''..'' then tl stack else seg # stack)"

definition clean_path :: "string \<Rightarrow> string" where
  "clean_path p =
     (let p = (if p = [] \<or> hd p \<noteq> CHR ''/'' then CHR ''/'' # p else p);
          np = CHR ''/'' # join ''/'' (rev (fold clean_step (split_on (CHR ''/'') p) []))
      in if last p = CHR ''/'' \<and> np \<noteq> ''/'' then np @ ''/'' else np)"

definition segment_text :: "string \<Rightarrow> string" where
  "segment_text s = (case path_unescape s of None \<Rightarrow> s | Some t \<Rightarrow> t)"

definition first_segment :: "string \<Rightarrow> string \<times> string" where
  "first_segment path =
     (if path = ''/'' then (''/'', [])
      else (segment_text (takeWhile (\<lambda>c. c \<noteq> CHR ''/'') (tl path)), dropWhile (\<lambda>c. c \<noteq> CHR ''/'') (tl path)))"

definition literals :: "string \<Rightarrow> routes \<Rightarrow> routes" where
  "literals seg rs = List.map_filter (\<lambda>(ps, e). case ps of Lit l # qs \<Rightarrow> if l = seg then Some (qs, e) else None | _ \<Rightarrow> None) rs"

definition wildcards :: "routes \<Rightarrow> routes" where
  "wildcards rs = List.map_filter (\<lambda>(ps, e). case ps of Wild # qs \<Rightarrow> Some (qs, e) | _ \<Rightarrow> None) rs"

definition ending :: "segment list \<Rightarrow> routes \<Rightarrow> endpoint option" where
  "ending ps rs = map_option snd (find (\<lambda>(qs, e). qs = ps) rs)"

lemma first_segment_shorter: "path \<noteq> [] \<Longrightarrow> (seg, rest) = first_segment path \<Longrightarrow> length rest < length path"
  using length_dropWhile_le [of "\<lambda>c. c \<noteq> CHR ''/''" "tl path"]
  by (cases path) (auto simp: first_segment_def split: if_split_asm)

function match_path :: "routes \<Rightarrow> string \<Rightarrow> string list \<Rightarrow> (endpoint \<times> string list) option" where
  "match_path rs path args =
     (if path = [] then map_option (\<lambda>e. (e, args)) (ending [] rs)
      else
        let (seg, rest) = first_segment path in
        case match_path (literals seg rs) rest args of
          Some m \<Rightarrow> Some m
        | None \<Rightarrow>
            (case (if seg \<noteq> ''/'' then match_path (wildcards rs) rest (args @ [seg]) else None) of
               Some m \<Rightarrow> Some m
             | None \<Rightarrow> map_option (\<lambda>e. (e, args)) (ending [Rest] rs)))"
  by auto

termination
  by (relation "measure (\<lambda>(rs, path, args). length path)") (auto simp: first_segment_shorter)

declare match_path.simps [simp del]

datatype routed = To endpoint "string list" | Redirect string

text \<open>A path that is not clean is redirected to the clean one, and so is a path that lacks the slash of
  the one pattern that ends with it; everything else goes to a pattern or to \<open>/\<close>.\<close>

definition find_route :: "string \<Rightarrow> string \<Rightarrow> routed" where
  "find_route verb path =
     (if clean_path path \<noteq> path then Redirect (clean_path path)
      else
        (case match_path (routes_of verb) path [] of
           Some (e, args) \<Rightarrow> To e args
         | None \<Rightarrow>
             if path = ''/'' then To E_Web_Ui []
             else if last path \<noteq> CHR ''/'' \<and> match_path (routes_of verb) (path @ ''/'') [] = Some (E_Pprof_Index, [])
                  \<and> length (filter (\<lambda>c. c = CHR ''/'') path) = 4
             then Redirect (path @ ''/'')
             else To E_Web_Ui []))"

end
