(* ===== verification/Cli_Commands.thy ===== *)
theory Cli_Commands
  imports Api_Routes
begin

text \<open>
  The command line of \<open>cmd/sis/main.go\<close> that talks to the management API, and its HTTP client
  \<open>cmd/sis/httpcli.go\<close>: flags, commands, the requests they make and what becomes of the answers.

  A command yields the client its flags configure and the call it makes, or an error.  The network
  answers a call with an \<open>exchange\<close>; JSON validity and indentation are parameters.
\<close>

section \<open>Flags\<close>

datatype cli_error = Flag_Exit | Usage string | Unknown_Command string string | Cli_Failure string

definition bad_flag_name :: "string \<Rightarrow> bool" where
  "bad_flag_name name \<longleftrightarrow> name = [] \<or> hd name = CHR ''-'' \<or> hd name = CHR ''=''"

text \<open>A flag and its value after \<open>=\<close>, which is not looked for at the first character.\<close>

definition flag_parts :: "string \<Rightarrow> string \<times> string option" where
  "flag_parts name =
     (let head = takeWhile (\<lambda>c. c \<noteq> CHR ''='') (tl name) in
      case dropWhile (\<lambda>c. c \<noteq> CHR ''='') (tl name) of
        [] \<Rightarrow> (name, None)
      | c # v \<Rightarrow> (hd name # head, Some v))"

text \<open>\<open>FlagSet.Parse\<close> with \<open>ExitOnError\<close>: \<open>names\<close> are the flags, \<open>True\<close> those of a boolean.  The values
  set, in order, and the arguments left.\<close>

fun parse_flags ::
  "(string \<times> bool) list \<Rightarrow> string list \<Rightarrow> cli_error + (string \<times> string) list \<times> string list" where
  "parse_flags names [] = Inr ([], [])"
| "parse_flags names (s # args) =
     (if length s < 2 \<or> hd s \<noteq> CHR ''-'' then Inr ([], s # args)
      else if s = ''--'' then Inr ([], args)
      else
        let name = (if prefix ''--'' s then drop 2 s else tl s) in
        if bad_flag_name name then Inl Flag_Exit
        else
          (case flag_parts name of
             (f, v) \<Rightarrow>
               (case map_of names f of
                  None \<Rightarrow> Inl Flag_Exit
                | Some True \<Rightarrow>
                    (case parse_bool (case v of None \<Rightarrow> ''true'' | Some v \<Rightarrow> v) of
                       None \<Rightarrow> Inl Flag_Exit
                     | Some b \<Rightarrow> map_sum id (apfst ((#) (f, if b then ''true'' else ''false''))) (parse_flags names args))
                | Some False \<Rightarrow>
                    (case v of
                       Some v \<Rightarrow> map_sum id (apfst ((#) (f, v))) (parse_flags names args)
                     | None \<Rightarrow>
                         (case args of
                            [] \<Rightarrow> Inl Flag_Exit
                          | v # args \<Rightarrow> map_sum id (apfst ((#) (f, v))) (parse_flags names args))))))"

text \<open>The last setting of a flag counts.\<close>

definition flag_value :: "(string \<times> string) list \<Rightarrow> string \<Rightarrow> string \<Rightarrow> string" where
  "flag_value fs name unset = (case map_of (rev fs) name of None \<Rightarrow> unset | Some v \<Rightarrow> v)"

section \<open>Escaping\<close>

definition hex_upper :: "nat \<Rightarrow> char" where
  "hex_upper d = (if d < 10 then char_of (48 + d) else char_of (55 + d))"

definition percent :: "char \<Rightarrow> string" where
  "percent c = [CHR ''%'', hex_upper (byte c div 16), hex_upper (byte c mod 16)]"

definition unreserved :: "char \<Rightarrow> bool" where
  "unreserved c \<longleftrightarrow> is_digit c \<or> is_lower_letter c \<or> is_upper_letter c \<or> c \<in> set ''-_.~''"

definition encoded_path_part :: "string \<Rightarrow> string" where
  "encoded_path_part v = concat (map (\<lambda>c. if unreserved c \<or> c \<in> set ''$&+:=@'' then [c] else percent c) v)"

definition encoded_query :: "string \<Rightarrow> string" where
  "encoded_query v = concat (map (\<lambda>c. if unreserved c then [c] else if c = CHR '' '' then ''+'' else percent c) v)"

section \<open>Calls\<close>

record cli_client =
  cli_base :: string
  cli_cookie :: string

definition new_cli_client :: "string \<Rightarrow> string \<Rightarrow> cli_client" where
  "new_cli_client base cookie =
     \<lparr>cli_base = (if base = [] then ''http://127.0.0.1:8080'' else base), cli_cookie = cookie\<rparr>"

record api_call =
  ac_method :: string
  ac_path :: string
  ac_body :: "json option"
  ac_stdout :: bool      \<comment> \<open>printed, or discarded\<close>

definition call_get :: "string \<Rightarrow> api_call" where
  "call_get path = \<lparr>ac_method = ''GET'', ac_path = path, ac_body = None, ac_stdout = True\<rparr>"

definition call_post :: "string \<Rightarrow> json option \<Rightarrow> api_call" where
  "call_post path body = \<lparr>ac_method = ''POST'', ac_path = path, ac_body = body, ac_stdout = True\<rparr>"

definition call_patch :: "string \<Rightarrow> json \<Rightarrow> api_call" where
  "call_patch path body = \<lparr>ac_method = ''PATCH'', ac_path = path, ac_body = Some body, ac_stdout = True\<rparr>"

definition call_delete :: "string \<Rightarrow> api_call" where
  "call_delete path = \<lparr>ac_method = ''DELETE'', ac_path = path, ac_body = None, ac_stdout = False\<rparr>"

definition api_flags :: "string list \<Rightarrow> cli_error + cli_client \<times> string list" where
  "api_flags args =
     (case parse_flags [(''api'', False), (''cookie'', False)] args of
        Inl e \<Rightarrow> Inl e
      | Inr (fs, rest) \<Rightarrow>
          Inr (new_cli_client (flag_value fs ''api'' ''http://127.0.0.1:8080'') (flag_value fs ''cookie'' []), rest))"

definition strings_json :: "(string \<times> string) list \<Rightarrow> json" where
  "strings_json fs = JObj (map (map_prod id JStr) fs)"

section \<open>Commands\<close>

type_synonym command = "string list \<Rightarrow> cli_error + api_call"

definition usage :: "string \<Rightarrow> cli_error + 'a" where
  "usage text = Inl (Usage text)"

text \<open>The call for the arguments that follow the flags, one function per command.\<close>

definition auth_call :: command where
  "auth_call rest =
     (case rest of
        [] \<Rightarrow> usage ''usage: sis auth <setup|login|me|logout>''
      | sub # xs \<Rightarrow>
          if sub = ''setup'' then
            (case xs of
               [u, p] \<Rightarrow> Inr (call_post ''/api/v1/auth/setup'' (Some (strings_json [(''password'', p), (''username'', u)])))
             | _ \<Rightarrow> usage ''usage: sis auth setup <username> <password>'')
          else if sub = ''login'' then
            (case xs of
               [u, p] \<Rightarrow> Inr (call_post ''/api/v1/auth/login'' (Some (strings_json [(''password'', p), (''username'', u)])))
             | _ \<Rightarrow> usage ''usage: sis auth login <username> <password>'')
          else if sub = ''me'' then Inr (call_get ''/api/v1/auth/me'')
          else if sub = ''logout'' then Inr ((call_post ''/api/v1/auth/logout'' None)\<lparr>ac_stdout := False\<rparr>)
          else Inl (Unknown_Command ''auth'' sub))"

definition client_call :: command where
  "client_call rest =
     (case rest of
        [] \<Rightarrow> usage ''usage: sis client <list|get|rename|move|forget>''
      | sub # xs \<Rightarrow>
          if sub = ''list'' then Inr (call_get ''/api/v1/clients'')
          else if sub = ''get'' then
            (case xs of [k] \<Rightarrow> Inr (call_get (''/api/v1/clients/'' @ encoded_path_part k))
             | _ \<Rightarrow> usage ''usage: sis client get <key>'')
          else if sub = ''rename'' then
            (case xs of
               [k, n] \<Rightarrow> Inr (call_patch (''/api/v1/clients/'' @ encoded_path_part k) (strings_json [(''name'', n)]))
             | _ \<Rightarrow> usage ''usage: sis client rename <key> <name>'')
          else if sub = ''move'' then
            (case xs of
               [k, g] \<Rightarrow> Inr (call_patch (''/api/v1/clients/'' @ encoded_path_part k) (strings_json [(''group'', g)]))
             | _ \<Rightarrow> usage ''usage: sis client move <key> <group>'')
          else if sub = ''forget'' then
            (case xs of [k] \<Rightarrow> Inr (call_delete (''/api/v1/clients/'' @ encoded_path_part k))
             | _ \<Rightarrow> usage ''usage: sis client forget <key>'')
          else usage ''usage: sis client <list|get|rename|move|forget>'')"

definition cache_call :: command where
  "cache_call rest =
     (case rest of
        [] \<Rightarrow> usage ''usage: sis cache <flush|stats>''
      | sub # xs \<Rightarrow>
          if sub = ''flush'' then Inr (call_post ''/api/v1/system/cache/flush'' None)
          else if sub = ''stats'' then Inr (call_get ''/api/v1/stats/summary'')
          else Inl (Unknown_Command ''cache'' sub))"

definition upstream_call :: command where
  "upstream_call rest =
     (case rest of
        [] \<Rightarrow> usage ''usage: sis upstream <health|test>''
      | sub # xs \<Rightarrow>
          if sub = ''health'' then Inr (call_get ''/api/v1/upstreams'')
          else if sub = ''test'' then
            (case xs of [i] \<Rightarrow> Inr (call_post (''/api/v1/upstreams/'' @ encoded_path_part i @ ''/test'') None)
             | _ \<Rightarrow> usage ''usage: sis upstream test <id>'')
          else Inl (Unknown_Command ''upstream'' sub))"

definition logs_call :: command where
  "logs_call rest =
     (case rest of
        [] \<Rightarrow> usage ''usage: sis logs <list|tail>''
      | sub # xs \<Rightarrow>
          if sub = ''list'' then
            (case xs of
               [] \<Rightarrow> Inr (call_get ''/api/v1/logs/query'')
             | [l] \<Rightarrow> Inr (call_get (''/api/v1/logs/query'' @ ''?limit='' @ encoded_query l))
             | [l, q] \<Rightarrow> Inr (call_get (''/api/v1/logs/query'' @ ''?limit='' @ encoded_query l @ ''&qname='' @ encoded_query q))
             | _ \<Rightarrow> usage ''usage: sis logs list [limit] [qname]'')
          else if sub = ''tail'' then Inr (call_get ''/api/v1/logs/query/stream'')
          else Inl (Unknown_Command ''logs'' sub))"

definition stats_call :: command where
  "stats_call rest =
     (case rest of
        [] \<Rightarrow> Inr (call_get ''/api/v1/stats/summary'')
      | sub # xs \<Rightarrow>
          if sub = ''summary'' then Inr (call_get ''/api/v1/stats/summary'')
          else if sub = ''timeseries'' then Inr (call_get ''/api/v1/stats/timeseries'')
          else if sub = ''top-domains'' then Inr (call_get ''/api/v1/stats/top-domains'')
          else if sub = ''top-clients'' then Inr (call_get ''/api/v1/stats/top-clients'')
          else Inl (Unknown_Command ''stats'' sub))"

definition system_call :: command where
  "system_call rest =
     (case rest of
        [] \<Rightarrow> usage ''usage: sis system <info|store-verify|history|reload>''
      | sub # xs \<Rightarrow>
          if sub = ''info'' then Inr (call_get ''/api/v1/system/info'')
          else if sub = ''store-verify'' then Inr (call_get ''/api/v1/system/store/verify'')
          else if sub = ''history'' then
            (case xs of
               [] \<Rightarrow> Inr (call_get ''/api/v1/system/config/history'')
             | [l] \<Rightarrow> Inr (call_get (''/api/v1/system/config/history'' @ ''?limit='' @ encoded_query l))
             | _ \<Rightarrow> usage ''usage: sis system history [limit]'')
          else if sub = ''reload'' then Inr (call_post ''/api/v1/system/config/reload'' None)
          else Inl (Unknown_Command ''system'' sub))"

definition allowlist_call :: command where
  "allowlist_call rest =
     (case rest of
        [] \<Rightarrow> usage ''usage: sis allowlist <list|add|remove>''
      | sub # xs \<Rightarrow>
          if sub = ''list'' then Inr (call_get ''/api/v1/allowlist'')
          else if sub = ''add'' then
            (case xs of [d] \<Rightarrow> Inr (call_post ''/api/v1/allowlist'' (Some (strings_json [(''domain'', d)])))
             | _ \<Rightarrow> usage ''usage: sis allowlist add <domain>'')
          else if sub = ''remove'' then
            (case xs of [d] \<Rightarrow> Inr (call_delete (''/api/v1/allowlist/'' @ encoded_path_part d))
             | _ \<Rightarrow> usage ''usage: sis allowlist remove <domain>'')
          else Inl (Unknown_Command ''allowlist'' sub))"

definition blocklist_call :: command where
  "blocklist_call rest =
     (case rest of
        [] \<Rightarrow> usage ''usage: sis blocklist <list|sync|entries|custom|add|remove>''
      | sub # xs \<Rightarrow>
          if sub = ''list'' then Inr (call_get ''/api/v1/blocklists'')
          else if sub = ''sync'' then
            (case xs of [i] \<Rightarrow> Inr (call_post (''/api/v1/blocklists/'' @ encoded_path_part i @ ''/sync'') None)
             | _ \<Rightarrow> usage ''usage: sis blocklist sync <id>'')
          else if sub = ''entries'' then
            (case xs of
               [i] \<Rightarrow> Inr (call_get (''/api/v1/blocklists/'' @ encoded_path_part i @ ''/entries''))
             | [i, q] \<Rightarrow> Inr (call_get (''/api/v1/blocklists/'' @ encoded_path_part i @ ''/entries'' @ ''?q='' @ encoded_query q))
             | _ \<Rightarrow> usage ''usage: sis blocklist entries <id> [query]'')
          else if sub = ''custom'' then Inr (call_get ''/api/v1/custom-blocklist'')
          else if sub = ''add'' then
            (case xs of [d] \<Rightarrow> Inr (call_post ''/api/v1/custom-blocklist'' (Some (strings_json [(''domain'', d)])))
             | _ \<Rightarrow> usage ''usage: sis blocklist add <domain>'')
          else if sub = ''remove'' then
            (case xs of [d] \<Rightarrow> Inr (call_delete (''/api/v1/custom-blocklist/'' @ encoded_path_part d))
             | _ \<Rightarrow> usage ''usage: sis blocklist remove <domain>'')
          else Inl (Unknown_Command ''blocklist'' sub))"

definition group_call :: command where
  "group_call rest =
     (case rest of
        [] \<Rightarrow> usage ''usage: sis group <list|add|delete>''
      | sub # xs \<Rightarrow>
          if sub = ''list'' then Inr (call_get ''/api/v1/groups'')
          else if sub = ''add'' then
            (case xs of
               [n] \<Rightarrow> Inr (call_post ''/api/v1/groups'' (Some (JObj [(''allowlist'', JArr []), (''blocklists'', JArr []),
                        (''name'', JStr n), (''schedules'', JArr [])])))
             | _ \<Rightarrow> usage ''usage: sis group add <name>'')
          else if sub = ''delete'' then
            (case xs of [n] \<Rightarrow> Inr (call_delete (''/api/v1/groups/'' @ encoded_path_part n))
             | _ \<Rightarrow> usage ''usage: sis group delete <name>'')
          else Inl (Unknown_Command ''group'' sub))"

text \<open>The switch of \<open>main\<close> over these commands, each behind \<open>apiFlags\<close>.\<close>

definition api_commands :: "(string \<times> command) list" where
  "api_commands =
    [(''auth'', auth_call), (''client'', client_call), (''cache'', cache_call), (''upstream'', upstream_call),
     (''logs'', logs_call), (''stats'', stats_call), (''system'', system_call), (''allowlist'', allowlist_call),
     (''blocklist'', blocklist_call), (''group'', group_call)]"

definition run_api_command :: "string \<Rightarrow> string list \<Rightarrow> (cli_error + cli_client \<times> api_call) option" where
  "run_api_command name args =
     map_option (\<lambda>f. case api_flags args of Inl e \<Rightarrow> Inl e | Inr (c, rest) \<Rightarrow> map_sum id (Pair c) (f rest))
       (map_of api_commands name)"

section \<open>Test queries\<close>

text \<open>\<open>runQuery\<close>: through the API where \<open>-api\<close> is given, else a question sent to a server.  \<open>types\<close> is the
  table \<open>StringToType\<close> of miekg/dns.\<close>

datatype query_plan =
    Through_Api cli_client api_call
  | Direct_Query string string msg    \<comment> \<open>network, server, question\<close>

definition query_command ::
  "golib \<Rightarrow> dnslib \<Rightarrow> (string \<Rightarrow> u16 option) \<Rightarrow> u16 \<Rightarrow> string list \<Rightarrow> cli_error + query_plan" where
  "query_command G D types random_id args =
     (case parse_flags [(''api'', False), (''cookie'', False), (''server'', False), (''proto'', False)] args of
        Inl e \<Rightarrow> Inl e
      | Inr (fs, rest) \<Rightarrow>
          (case rest of
             sub # domain # opt \<Rightarrow>
               if sub \<noteq> ''test'' then usage ''usage: sis query [-server addr] [-proto udp|tcp] [-api url -cookie value] test <domain> [type]''
               else
                 let proto = to_lower G (trim_space (flag_value fs ''proto'' ''udp'')) in
                 if proto \<noteq> ''udp'' \<and> proto \<noteq> ''tcp'' then Inl (Cli_Failure ''proto must be udp or tcp'')
                 else
                   let name = (case opt of [] \<Rightarrow> ''A'' | t # _ \<Rightarrow> t) in
                   (case (case opt of [] \<Rightarrow> Some type_a | t # _ \<Rightarrow> types t) of
                      None \<Rightarrow> Inl (Unknown_Command ''qtype'' name)
                    | Some qtype \<Rightarrow>
                        let base = flag_value fs ''api'' [] in
                        if base \<noteq> [] then
                          Inr (Through_Api (new_cli_client base (flag_value fs ''cookie'' []))
                            (call_post ''/api/v1/query/test''
                              (Some (strings_json [(''domain'', domain), (''proto'', proto), (''type'', name)]))))
                        else
                          Inr (Direct_Query proto (flag_value fs ''server'' ''127.0.0.1:5353'')
                            (new_msg\<lparr>m_id := random_id, m_recursion_desired := True,
                               m_question := [\<lparr>q_name = dl_fqdn D domain, q_type = qtype, q_class = class_inet\<rparr>]\<rparr>)))
           | _ \<Rightarrow> usage ''usage: sis query [-server addr] [-proto udp|tcp] [-api url -cookie value] test <domain> [type]''))"

text \<open>What a direct query prints: the answer and the duration of the exchange, or its error.\<close>

definition direct_output :: "dnslib \<Rightarrow> (duration \<Rightarrow> string) \<Rightarrow> (string + msg \<times> duration) \<Rightarrow> string + string" where
  "direct_output D show_duration answer =
     (case answer of
        Inl e \<Rightarrow> Inl e
      | Inr (m, rtt) \<Rightarrow>
          Inr (''rcode='' @ dl_rcode_name D (m_rcode m) @ '' rtt='' @ show_duration rtt @ '' answers=''
               @ show_int (int (length (m_answer m))) @ newline
               @ concat (map (\<lambda>rr. dl_rr_string D rr @ newline) (m_answer m))))"

section \<open>The HTTP client\<close>

definition max_cli_response :: nat where
  "max_cli_response = 8 * 2 ^ 20"

text \<open>What comes of a request: it cannot be built, it fails, or a response with its status, content type,
  cookies and body, the bytes and the error the body ends with.\<close>

datatype cli_exchange =
    Bad_Request string
  | Request_Failed string
  | Response int string "(string \<times> string) list" "string \<times> string option"

record cli_env =
  ce_go :: golib
  ce_marshal :: "json \<Rightarrow> string option"
  ce_valid :: "string \<Rightarrow> bool"
  ce_pretty :: "string \<Rightarrow> string"
  ce_write_failed :: "string option"     \<comment> \<open>the error of writing a stream to the terminal\<close>

text \<open>The error, what was printed, and the lines on the error output.\<close>

record cli_outcome =
  co_error :: "string option"
  co_stdout :: string
  co_stderr :: "(string \<times> string) list"

definition cli_error_outcome :: "string \<Rightarrow> cli_outcome" where
  "cli_error_outcome e = \<lparr>co_error = Some e, co_stdout = [], co_stderr = []\<rparr>"

definition media_type_matches :: "golib \<Rightarrow> string \<Rightarrow> string \<Rightarrow> bool" where
  "media_type_matches G content_type want =
     (let t = to_lower G (trim_space content_type) in t = want \<or> prefix (want @ '';'') t)"

definition is_json_content :: "golib \<Rightarrow> string \<Rightarrow> bool" where
  "is_json_content G content_type = media_type_matches G content_type ''application/json''"

definition is_event_stream :: "golib \<Rightarrow> string \<Rightarrow> bool" where
  "is_event_stream G content_type = media_type_matches G content_type ''text/event-stream''"

definition should_pretty_print :: "cli_env \<Rightarrow> bool \<Rightarrow> string \<Rightarrow> string \<Rightarrow> bool" where
  "should_pretty_print C to_stdout content_type raw =
     (if \<not> to_stdout \<or> raw = [] then False
      else if content_type \<noteq> [] \<and> \<not> is_json_content (ce_go C) content_type then False
      else ce_valid C raw)"

text \<open>\<open>io.ReadAll(io.LimitReader(body, max + 1))\<close> and the check of its length.\<close>

definition read_response_body :: "string \<times> string option \<Rightarrow> string + string" where
  "read_response_body b =
     (case b of (raw, err) \<Rightarrow>
        if max_cli_response < length raw then Inl ''HTTP response exceeds 8388608 bytes''
        else (case err of Some e \<Rightarrow> Inl e | None \<Rightarrow> Inr raw))"

definition ok_status :: "int \<Rightarrow> bool" where
  "ok_status status \<longleftrightarrow> 200 \<le> status \<and> status < 300"

definition status_error :: "int \<Rightarrow> string \<Rightarrow> string" where
  "status_error status raw = ''HTTP '' @ show_int status @ '': '' @ raw"

text \<open>\<open>cliClient.do\<close>: \<open>send\<close> is the network, given the method, the URL, the headers and the body.\<close>

definition cli_headers :: "cli_client \<Rightarrow> api_call \<Rightarrow> (string \<times> string) list" where
  "cli_headers c call =
     (if ac_body call \<noteq> None then [(''Content-Type'', ''application/json'')] else [])
     @ (if cli_cookie c \<noteq> [] then [(''Cookie'', cli_cookie c)] else [])"

definition cli_do ::
  "cli_env \<Rightarrow> (string \<Rightarrow> string \<Rightarrow> (string \<times> string) list \<Rightarrow> string option \<Rightarrow> cli_exchange) \<Rightarrow> cli_client \<Rightarrow> api_call \<Rightarrow> cli_outcome"
where
  "cli_do C send c call =
     (case (case ac_body call of None \<Rightarrow> Inr None
             | Some b \<Rightarrow> (case ce_marshal C b of None \<Rightarrow> Inl ''json'' | Some raw \<Rightarrow> Inr (Some raw))) of
        Inl e \<Rightarrow> cli_error_outcome e
      | Inr body \<Rightarrow>
          (case send (ac_method call) (cli_base c @ ac_path call) (cli_headers c call) body of
             Bad_Request e \<Rightarrow> cli_error_outcome e
           | Request_Failed e \<Rightarrow> cli_error_outcome e
           | Response status content_type cookies b \<Rightarrow>
               if is_event_stream (ce_go C) content_type then
                 (if \<not> ok_status status then
                    (case read_response_body b of
                       Inl e \<Rightarrow> cli_error_outcome e
                     | Inr raw \<Rightarrow> cli_error_outcome (status_error status raw))
                  else
                    \<lparr>co_error = (if ac_stdout call \<and> ce_write_failed C \<noteq> None then ce_write_failed C else snd b),
                     co_stdout = (if ac_stdout call then fst b else []), co_stderr = []\<rparr>)
               else
                 (case read_response_body b of
                    Inl e \<Rightarrow> cli_error_outcome e
                  | Inr raw \<Rightarrow>
                      if \<not> ok_status status then cli_error_outcome (status_error status raw)
                      else
                        \<lparr>co_error = None,
                         co_stdout = (if should_pretty_print C (ac_stdout call) content_type raw then ce_pretty C raw
                                      else if ac_stdout call then raw else []),
                         co_stderr = filter (\<lambda>(n, v). n \<noteq> [] \<and> v \<noteq> []) cookies\<rparr>)))"

section \<open>Escapes\<close>

lemma hex_digit_upper: "d < 16 \<Longrightarrow> hex_digit (hex_upper d) = Some d"
  by (auto simp: hex_digit_def hex_upper_def byte_def)

lemma byte_bound: "byte c < 256"
  by (simp add: byte_def)

lemma unescape_percent: "path_unescape (percent c @ s) = map_option ((#) c) (path_unescape s)"
proof -
  have "byte c div 16 < 16" using byte_bound [of c] by linarith
  moreover have "char_of (16 * (byte c div 16) + byte c mod 16) = c" by (simp add: byte_def)
  ultimately show ?thesis by (simp add: percent_def hex_digit_upper)
qed

lemma percent_not_plain: "\<not> unreserved (CHR ''%'')" "\<not> unreserved (CHR ''/'')" "\<not> unreserved (CHR ''?'')"
  by (simp_all add: unreserved_def is_digit_def is_lower_letter_def is_upper_letter_def byte_def)

lemma hex_upper_plain: "d < 16 \<Longrightarrow> hex_upper d \<notin> {CHR ''/'', CHR ''?'', CHR ''%'', CHR ''.''}"
proof -
  assume "d < 16"
  then have "hex_digit (hex_upper d) = Some d" by (rule hex_digit_upper)
  moreover have "hex_digit (CHR ''/'') = None" "hex_digit (CHR ''?'') = None" "hex_digit (CHR ''%'') = None"
    "hex_digit (CHR ''.'') = None" by (simp_all add: hex_digit_def byte_def)
  ultimately show ?thesis by force
qed

text \<open>An escaped argument is one segment of a path, and is read back as it was.\<close>

definition path_plain :: "char \<Rightarrow> bool" where
  "path_plain c \<longleftrightarrow> unreserved c \<or> c \<in> set ''$&+:=@''"

lemma path_part_simps [simp]:
  "encoded_path_part [] = []"
  "encoded_path_part (c # v) = (if path_plain c then [c] else percent c) @ encoded_path_part v"
  by (simp_all add: encoded_path_part_def path_plain_def)

lemma path_not_plain: "\<not> path_plain (CHR ''%'')" "\<not> path_plain (CHR ''/'')" "\<not> path_plain (CHR ''?'')"
  using percent_not_plain by (simp_all add: path_plain_def)

lemma unescape_path_part: "path_unescape (encoded_path_part v) = Some v"
proof (induction v)
  case (Cons c v)
  show ?case
  proof (cases "path_plain c")
    case True
    then have "c \<noteq> CHR ''%''" using path_not_plain(1) by auto
    with True Cons show ?thesis by simp
  next
    case False
    with Cons show ?thesis by (simp add: unescape_percent)
  qed
qed simp

lemma path_part_chars: "x \<in> set (encoded_path_part v) \<Longrightarrow> x \<noteq> CHR ''/'' \<and> x \<noteq> CHR ''?''"
proof -
  have "x \<noteq> CHR ''/'' \<and> x \<noteq> CHR ''?''" if "x \<in> set (percent c)" for x c
  proof -
    have "byte c div 16 < 16" "byte c mod 16 < 16" using byte_bound [of c] by linarith+
    with hex_upper_plain that show ?thesis by (auto simp: percent_def)
  qed
  then show "x \<in> set (encoded_path_part v) \<Longrightarrow> ?thesis"
    using path_not_plain by (induction v) (auto split: if_split_asm)
qed

section \<open>Routes of escaped paths\<close>

definition path_text :: "string list \<Rightarrow> string" where
  "path_text segs = concat (map (\<lambda>s. CHR ''/'' # encoded_path_part s) segs)"

text \<open>Arguments that survive as one segment: the multiplexer drops or resolves the others, and takes an
  escaped slash for the end of the path.\<close>

definition plain_segment :: "string \<Rightarrow> bool" where
  "plain_segment s \<longleftrightarrow> s \<notin> {[], ''.'', ''..'', ''/''}"

text \<open>Matching on the segments themselves.\<close>

fun match_segments :: "routes \<Rightarrow> string list \<Rightarrow> string list \<Rightarrow> (endpoint \<times> string list) option" where
  "match_segments rs [] args = map_option (\<lambda>e. (e, args)) (ending [] rs)"
| "match_segments rs (s # ss) args =
     (case match_segments (literals s rs) ss args of
        Some m \<Rightarrow> Some m
      | None \<Rightarrow>
          (case match_segments (wildcards rs) ss (args @ [s]) of
             Some m \<Rightarrow> Some m
           | None \<Rightarrow> map_option (\<lambda>e. (e, args)) (ending [Rest] rs)))"

lemma path_text_simps [simp]:
  "path_text [] = []" "path_text (s # ss) = CHR ''/'' # encoded_path_part s @ path_text ss"
  by (simp_all add: path_text_def)

lemma path_part_empty: "encoded_path_part s = [] \<longleftrightarrow> s = []"
  by (cases s) (auto simp: percent_def)

lemma take_segment [simp]:
  "takeWhile (\<lambda>c. c \<noteq> CHR ''/'') (encoded_path_part s @ path_text ss) = encoded_path_part s"
  "dropWhile (\<lambda>c. c \<noteq> CHR ''/'') (encoded_path_part s @ path_text ss) = path_text ss"
  using path_part_chars [of _ s] by (cases ss; force simp: takeWhile_append dropWhile_append)+

lemma first_segment_text:
  assumes "s \<noteq> []"
  shows "first_segment (path_text (s # ss)) = (s, path_text ss)"
proof -
  have "path_text (s # ss) \<noteq> ''/''" using assms path_part_empty [of s] by simp
  then show ?thesis using assms by (simp add: path_part_empty first_segment_def segment_text_def unescape_path_part)
qed

lemma match_path_text:
  "\<forall>s \<in> set segs. plain_segment s \<Longrightarrow> match_path rs (path_text segs) args = match_segments rs segs args"
proof (induction segs arbitrary: rs args)
  case Nil
  then show ?case by (subst match_path.simps) simp
next
  case (Cons s ss)
  then have s: "s \<noteq> []" "s \<noteq> ''/''" by (auto simp: plain_segment_def)
  show ?case
    using Cons.IH Cons.prems s(2) first_segment_text [OF s(1), of ss]
    by (subst match_path.simps) (simp split: option.split)
qed

lemma split_path_text: "split_on (CHR ''/'') (path_text segs) = [] # map encoded_path_part segs"
proof (induction segs)
  case (Cons s ss)
  have s: "CHR ''/'' \<notin> set (encoded_path_part s)" using path_part_chars by blast
  show ?case
  proof (cases ss)
    case Nil
    then show ?thesis
      using split_on_join [of "[encoded_path_part s]" "CHR ''/''"] s by simp
  next
    case (Cons t ts)
    with Cons.IH split_on_append_sep [OF s, of "encoded_path_part t @ path_text ts"] show ?thesis by simp
  qed
qed simp

lemma path_part_dots: "encoded_path_part s \<in> {[], ''.'', ''..''} \<longleftrightarrow> s \<in> {[], ''.'', ''..''}"
proof
  assume "encoded_path_part s \<in> {[], ''.'', ''..''}"
  then have "path_unescape (encoded_path_part s) \<in> path_unescape ` {[], ''.'', ''..''}" by (rule imageI)
  then show "s \<in> {[], ''.'', ''..''}" by (auto simp: unescape_path_part)
next
  assume "s \<in> {[], ''.'', ''..''}"
  moreover have "encoded_path_part ''.'' = ''.''" "encoded_path_part ''..'' = ''..''" "encoded_path_part [] = []" by code_simp+
  ultimately show "encoded_path_part s \<in> {[], ''.'', ''..''}" by auto
qed

lemma clean_path_text:
  assumes "segs \<noteq> []" "\<forall>s \<in> set segs. plain_segment s"
  shows "clean_path (path_text segs) = path_text segs"
proof -
  have "fold clean_step (map encoded_path_part ss) stack = rev (map encoded_path_part ss) @ stack"
    if "\<forall>s \<in> set ss. plain_segment s" for ss stack
    using that path_part_dots by (induction ss arbitrary: stack) (auto simp: clean_step_def plain_segment_def)
  with assms(2) have fold: "fold clean_step (split_on (CHR ''/'') (path_text segs)) [] = rev (map encoded_path_part segs)"
    by (simp add: split_path_text clean_step_def)
  have whole: "CHR ''/'' # join ''/'' (map encoded_path_part segs) = path_text segs" if "segs \<noteq> []" for segs
    using that by (induction segs rule: list_nonempty_induct) (auto simp: neq_Nil_conv)
  have "last (path_text segs) \<noteq> CHR ''/''"
  proof -
    obtain ss s where segs: "segs = ss @ [s]" using assms(1) by (metis append_butlast_last_id)
    with assms(2) have "encoded_path_part s \<noteq> []" by (auto simp: plain_segment_def path_part_empty)
    moreover from this have "last (encoded_path_part s) \<noteq> CHR ''/''" using path_part_chars last_in_set by metis
    ultimately show ?thesis by (simp add: segs path_text_def)
  qed
  moreover have "path_text segs \<noteq> []" "hd (path_text segs) = CHR ''/''" using assms(1) by (cases segs; simp)+
  ultimately show ?thesis using whole [OF assms(1)] by (simp add: clean_path_def Let_def fold del: path_text_simps)
qed

lemma find_route_text:
  assumes "segs \<noteq> []" "\<forall>s \<in> set segs. plain_segment s" "match_segments (routes_of verb) segs [] = Some (e, args)"
  shows "find_route verb (path_text segs) = To e args"
  using assms by (simp add: find_route_def clean_path_text match_path_text)

section \<open>Every command reaches its handler\<close>

text \<open>What the commands are for: the endpoint of each, the numbers of further arguments it takes (\<open>[]\<close>
  for any), and whether the first of them names an object in the path.\<close>

definition cli_table :: "(string \<times> string \<times> nat list \<times> endpoint \<times> bool) list" where
  "cli_table =
    [(''auth'', ''setup'', [2], E_Setup, False), (''auth'', ''login'', [2], E_Login, False),
     (''auth'', ''me'', [], E_Me, False), (''auth'', ''logout'', [], E_Logout, False),
     (''client'', ''list'', [], E_Clients_List, False), (''client'', ''get'', [1], E_Client_Get, True),
     (''client'', ''rename'', [2], E_Client_Patch, True), (''client'', ''move'', [2], E_Client_Patch, True),
     (''client'', ''forget'', [1], E_Client_Delete, True),
     (''cache'', ''flush'', [], E_Cache_Flush, False), (''cache'', ''stats'', [], E_Stats_Summary, False),
     (''upstream'', ''health'', [], E_Upstreams_List, False), (''upstream'', ''test'', [1], E_Upstream_Test, True),
     (''logs'', ''list'', [0, 1, 2], E_Query_Log_List, False), (''logs'', ''tail'', [], E_Query_Log_Stream, False),
     (''stats'', ''summary'', [], E_Stats_Summary, False), (''stats'', ''timeseries'', [], E_Stats_Timeseries, False),
     (''stats'', ''top-domains'', [], E_Stats_Top_Domains, False), (''stats'', ''top-clients'', [], E_Stats_Top_Clients, False),
     (''system'', ''info'', [], E_System_Info, False), (''system'', ''store-verify'', [], E_Store_Verify, False),
     (''system'', ''history'', [0, 1], E_Config_History, False), (''system'', ''reload'', [], E_Config_Reload, False),
     (''allowlist'', ''list'', [], E_Allowlist_Get, False), (''allowlist'', ''add'', [1], E_Allowlist_Add, False),
     (''allowlist'', ''remove'', [1], E_Allowlist_Delete, True),
     (''blocklist'', ''list'', [], E_Blocklists_List, False), (''blocklist'', ''sync'', [1], E_Blocklist_Sync, True),
     (''blocklist'', ''entries'', [1, 2], E_Blocklist_Entries, True), (''blocklist'', ''custom'', [], E_Custom_Blocklist_Get, False),
     (''blocklist'', ''add'', [1], E_Custom_Blocklist_Add, False), (''blocklist'', ''remove'', [1], E_Custom_Blocklist_Delete, True),
     (''group'', ''list'', [], E_Groups_List, False), (''group'', ''add'', [1], E_Group_Create, False),
     (''group'', ''delete'', [1], E_Group_Delete, True)]"

definition intended :: "string \<Rightarrow> string list \<Rightarrow> (endpoint \<times> string list) option" where
  "intended name rest =
     (case rest of
        [] \<Rightarrow> if name = ''stats'' then Some (E_Stats_Summary, []) else None
      | sub # xs \<Rightarrow>
          (case map_of (map (\<lambda>(c, s, r). ((c, s), r)) cli_table) (name, sub) of
             None \<Rightarrow> None
           | Some (counts, e, named) \<Rightarrow>
               if counts = [] \<or> length xs \<in> set counts then Some (e, if named then take 1 xs else []) else None))"

text \<open>The path of a call without its query.\<close>

definition call_route :: "api_call \<Rightarrow> routed" where
  "call_route call = find_route (ac_method call) (takeWhile (\<lambda>c. c \<noteq> CHR ''?'') (ac_path call))"

definition reaches :: "(cli_error + api_call) \<Rightarrow> (endpoint \<times> string list) option \<Rightarrow> bool" where
  "reaches res goal \<longleftrightarrow>
     (case (res, goal) of
        (Inl _, None) \<Rightarrow> True
      | (Inr call, Some (e, vs)) \<Rightarrow> (\<forall>v \<in> set vs. plain_segment v) \<longrightarrow> call_route call = To e vs
      | _ \<Rightarrow> False)"

lemma fixed_routes:
  "find_route ''POST'' ''/api/v1/auth/setup'' = To E_Setup []" "find_route ''POST'' ''/api/v1/auth/login'' = To E_Login []"
  "find_route ''GET'' ''/api/v1/auth/me'' = To E_Me []" "find_route ''POST'' ''/api/v1/auth/logout'' = To E_Logout []"
  "find_route ''GET'' ''/api/v1/clients'' = To E_Clients_List []"
  "find_route ''POST'' ''/api/v1/system/cache/flush'' = To E_Cache_Flush []"
  "find_route ''GET'' ''/api/v1/stats/summary'' = To E_Stats_Summary []"
  "find_route ''GET'' ''/api/v1/stats/timeseries'' = To E_Stats_Timeseries []"
  "find_route ''GET'' ''/api/v1/stats/top-domains'' = To E_Stats_Top_Domains []"
  "find_route ''GET'' ''/api/v1/stats/top-clients'' = To E_Stats_Top_Clients []"
  "find_route ''GET'' ''/api/v1/upstreams'' = To E_Upstreams_List []"
  "find_route ''GET'' ''/api/v1/logs/query'' = To E_Query_Log_List []"
  "find_route ''GET'' ''/api/v1/logs/query/stream'' = To E_Query_Log_Stream []"
  "find_route ''GET'' ''/api/v1/system/info'' = To E_System_Info []"
  "find_route ''GET'' ''/api/v1/system/store/verify'' = To E_Store_Verify []"
  "find_route ''GET'' ''/api/v1/system/config/history'' = To E_Config_History []"
  "find_route ''POST'' ''/api/v1/system/config/reload'' = To E_Config_Reload []"
  "find_route ''GET'' ''/api/v1/allowlist'' = To E_Allowlist_Get []" "find_route ''POST'' ''/api/v1/allowlist'' = To E_Allowlist_Add []"
  "find_route ''GET'' ''/api/v1/blocklists'' = To E_Blocklists_List []"
  "find_route ''GET'' ''/api/v1/custom-blocklist'' = To E_Custom_Blocklist_Get []"
  "find_route ''POST'' ''/api/v1/custom-blocklist'' = To E_Custom_Blocklist_Add []"
  "find_route ''GET'' ''/api/v1/groups'' = To E_Groups_List []" "find_route ''POST'' ''/api/v1/groups'' = To E_Group_Create []"
  by code_simp+

definition literal_segments :: "string list" where
  "literal_segments =
    [''api'', ''v1'', ''clients'', ''allowlist'', ''custom-blocklist'', ''groups'', ''upstreams'', ''blocklists'',
     ''test'', ''sync'', ''entries'']"

lemma literal_segment:
  assumes "x \<in> set literal_segments"
  shows "encoded_path_part x = x" "plain_segment x"
proof -
  have "list_all (\<lambda>x. encoded_path_part x = x \<and> plain_segment x) literal_segments" by code_simp
  with assms have "encoded_path_part x = x \<and> plain_segment x" by (simp only: list_all_iff)
  then show "encoded_path_part x = x" "plain_segment x" by (simp_all only: conj_assoc)
qed

lemma named_path:
  assumes "plain_segment k" "set (s # t) \<subseteq> set literal_segments"
    and "match_segments (routes_of verb) (''api'' # ''v1'' # s # k # t) [] = Some (e, [k])"
  shows "find_route verb (''/api/v1/'' @ s @ CHR ''/'' # encoded_path_part k @ concat (map ((#) (CHR ''/'')) t)) = To e [k]"
proof -
  let ?segs = "''api'' # ''v1'' # s # k # t"
  have api: "''api'' \<in> set literal_segments" "''v1'' \<in> set literal_segments" by (simp_all add: literal_segments_def)
  have s: "s \<in> set literal_segments" using assms(2) by simp
  have t: "x \<in> set t \<Longrightarrow> x \<in> set literal_segments" for x using assms(2) by auto
  have "\<forall>x \<in> set ?segs. plain_segment x"
    using assms(1) literal_segment(2) [OF api(1)] literal_segment(2) [OF api(2)] literal_segment(2) [OF s]
      literal_segment(2) [OF t] by auto
  from find_route_text [OF _ this assms(3)] have "find_route verb (path_text ?segs) = To e [k]" by simp
  moreover have "path_text t = concat (map ((#) (CHR ''/'')) t)"
    unfolding path_text_def using literal_segment(1) [OF t] by (intro arg_cong [where f = concat] map_cong) auto
  then have "path_text ?segs = ''/api/v1/'' @ s @ CHR ''/'' # encoded_path_part k @ concat (map ((#) (CHR ''/'')) t)"
    using literal_segment(1) [OF api(1)] literal_segment(1) [OF api(2)] literal_segment(1) [OF s]
    by (simp del: path_part_simps)
  ultimately show ?thesis by (simp only:)
qed

lemma no_query [simp]:
  "takeWhile (\<lambda>c. c \<noteq> CHR ''?'') (encoded_path_part v) = encoded_path_part v"
  "takeWhile (\<lambda>c. c \<noteq> CHR ''?'') (encoded_path_part v @ s) = encoded_path_part v @ takeWhile (\<lambda>c. c \<noteq> CHR ''?'') s"
proof -
  have "\<forall>x \<in> set (encoded_path_part v). x \<noteq> CHR ''?''" using path_part_chars by blast
  then show "takeWhile (\<lambda>c. c \<noteq> CHR ''?'') (encoded_path_part v) = encoded_path_part v"
    "takeWhile (\<lambda>c. c \<noteq> CHR ''?'') (encoded_path_part v @ s) = encoded_path_part v @ takeWhile (\<lambda>c. c \<noteq> CHR ''?'') s"
    by (simp_all add: takeWhile_append)
qed

lemma named_matches:
  "match_segments (routes_of ''GET'') [''api'', ''v1'', ''clients'', k] [] = Some (E_Client_Get, [k])"
  "match_segments (routes_of ''PATCH'') [''api'', ''v1'', ''clients'', k] [] = Some (E_Client_Patch, [k])"
  "match_segments (routes_of ''DELETE'') [''api'', ''v1'', ''clients'', k] [] = Some (E_Client_Delete, [k])"
  "match_segments (routes_of ''DELETE'') [''api'', ''v1'', ''allowlist'', k] [] = Some (E_Allowlist_Delete, [k])"
  "match_segments (routes_of ''DELETE'') [''api'', ''v1'', ''custom-blocklist'', k] [] = Some (E_Custom_Blocklist_Delete, [k])"
  "match_segments (routes_of ''DELETE'') [''api'', ''v1'', ''groups'', k] [] = Some (E_Group_Delete, [k])"
  "match_segments (routes_of ''POST'') [''api'', ''v1'', ''upstreams'', k, ''test''] [] = Some (E_Upstream_Test, [k])"
  "match_segments (routes_of ''POST'') [''api'', ''v1'', ''blocklists'', k, ''sync''] [] = Some (E_Blocklist_Sync, [k])"
  "match_segments (routes_of ''GET'') [''api'', ''v1'', ''blocklists'', k, ''entries''] [] = Some (E_Blocklist_Entries, [k])"
  by (simp_all add: routes_of_def get_routes_def post_routes_def patch_routes_def delete_routes_def api_path_def
      literals_def wildcards_def ending_def List.map_filter_simps)

lemma literal_segments_simps:
  "set [''clients''] \<subseteq> set literal_segments" "set [''allowlist''] \<subseteq> set literal_segments"
  "set [''custom-blocklist''] \<subseteq> set literal_segments" "set [''groups''] \<subseteq> set literal_segments"
  "set [''upstreams'', ''test''] \<subseteq> set literal_segments" "set [''blocklists'', ''sync''] \<subseteq> set literal_segments"
  "set [''blocklists'', ''entries''] \<subseteq> set literal_segments"
  by (simp_all add: literal_segments_def)

lemmas named_routes =
  named_path [OF _ literal_segments_simps(1) named_matches(1), simplified]
  named_path [OF _ literal_segments_simps(1) named_matches(2), simplified]
  named_path [OF _ literal_segments_simps(1) named_matches(3), simplified]
  named_path [OF _ literal_segments_simps(2) named_matches(4), simplified]
  named_path [OF _ literal_segments_simps(3) named_matches(5), simplified]
  named_path [OF _ literal_segments_simps(4) named_matches(6), simplified]
  named_path [OF _ literal_segments_simps(5) named_matches(7), simplified]
  named_path [OF _ literal_segments_simps(6) named_matches(8), simplified]
  named_path [OF _ literal_segments_simps(7) named_matches(9), simplified]

lemmas cli_calls = call_get_def call_post_def call_patch_def call_delete_def usage_def

lemmas cli_reaches = reaches_def call_route_def intended_def cli_table_def cli_calls

lemma auth_reaches: "reaches (auth_call rest) (intended ''auth'' rest)"
  using fixed_routes
  by (simp add: auth_call_def cli_reaches split: list.split)

lemma client_reaches: "reaches (client_call rest) (intended ''client'' rest)"
  using fixed_routes named_routes
  by (simp add: client_call_def cli_reaches split: list.split)

lemma cache_reaches: "reaches (cache_call rest) (intended ''cache'' rest)"
  using fixed_routes named_routes
  by (simp add: cache_call_def cli_reaches split: list.split)

lemma upstream_reaches: "reaches (upstream_call rest) (intended ''upstream'' rest)"
  using fixed_routes named_routes
  by (simp add: upstream_call_def cli_reaches split: list.split)

lemma logs_reaches: "reaches (logs_call rest) (intended ''logs'' rest)"
  using fixed_routes named_routes
  by (simp add: logs_call_def cli_reaches split: list.split)

lemma stats_reaches: "reaches (stats_call rest) (intended ''stats'' rest)"
  using fixed_routes named_routes
  by (simp add: stats_call_def cli_reaches split: list.split)

lemma system_reaches: "reaches (system_call rest) (intended ''system'' rest)"
  using fixed_routes named_routes
  by (simp add: system_call_def cli_reaches split: list.split)

lemma allowlist_reaches: "reaches (allowlist_call rest) (intended ''allowlist'' rest)"
  using fixed_routes named_routes
  by (simp add: allowlist_call_def cli_reaches split: list.split)

lemma blocklist_reaches: "reaches (blocklist_call rest) (intended ''blocklist'' rest)"
  using fixed_routes named_routes
  by (simp add: blocklist_call_def cli_reaches split: list.split)

lemma group_reaches: "reaches (group_call rest) (intended ''group'' rest)"
  using fixed_routes named_routes
  by (simp add: group_call_def cli_reaches split: list.split)


end
