(* ===== verification/Cli_Local.thy ===== *)
theory Cli_Local
  imports Cli_Commands
begin

text \<open>
  The commands of \<open>cmd/sis/main.go\<close> that work on the files of the host: users of the configuration
  (\<open>runUser\<close>), its check and display (\<open>runConfig\<close>), and the maintenance of a store (\<open>runStore\<close>).

  \<open>machine\<close> holds the text files and the SQLite databases by their paths.  The answers of the
  operating system and of the SQLite driver, the YAML codec and the JSON codec of a store file
  (\<open>le_rows\<close>, \<open>le_text\<close>) are the environment.  A command yields the machine it leaves and its error
  or what it prints.
\<close>

section \<open>Machine and environment\<close>

record machine =
  mc_files :: files
  mc_dbs :: "(string, sql_db) alist"

record local_env =
  le_load :: load_env
  le_save :: save_io
  le_hmac :: hmac_fn
  le_salt :: "string + string"
  le_go :: golib
  le_sql :: sql_io
  le_transfer :: transfer_os
  le_export :: "nat \<Rightarrow> string option"
  le_saves :: "nat \<Rightarrow> save_result"
  le_stat :: "string \<Rightarrow> string option"       \<comment> \<open>errors of \<open>os.Stat\<close> other than a missing file\<close>
  le_read :: "string \<Rightarrow> string option"       \<comment> \<open>errors of reading a file that is there\<close>
  le_opened :: "string option"               \<comment> \<open>the error of \<open>sql.Open\<close>\<close>
  le_check :: string
  le_rows :: "string \<Rightarrow> json_text"
  le_text :: "(string, json) alist \<Rightarrow> string"
  le_etc :: bool                             \<comment> \<open>whether \<open>/etc/sis/sis.yaml\<close> is there\<close>

datatype local_error =
    Bad_Command cli_error
  | Not_Loaded load_error
  | Store_Trouble store_error
  | Trouble string

type_synonym local_command = "local_env \<Rightarrow> string list \<Rightarrow> machine \<Rightarrow> machine \<times> (local_error + string)"

definition stops :: "local_error \<Rightarrow> machine \<Rightarrow> machine \<times> (local_error + string)" where
  "stops e m = (m, Inl e)"

definition default_config_path :: "local_env \<Rightarrow> string" where
  "default_config_path L = (if le_etc L then ''/etc/sis/sis.yaml'' else ''./sis.yaml'')"

definition json_path :: "string \<Rightarrow> string" where "json_path dir = dir @ ''/sis.db.json''"
definition sqlite_path :: "string \<Rightarrow> string" where "sqlite_path dir = dir @ ''/sis.db''"

text \<open>What reading a JSON store file finds.\<close>

definition json_at :: "local_env \<Rightarrow> string \<Rightarrow> machine \<Rightarrow> json_text" where
  "json_at L path m =
     (case map_of (mc_files m) path of
        None \<Rightarrow> Missing_File
      | Some raw \<Rightarrow> (case le_read L path of Some e \<Rightarrow> Unreadable e | None \<Rightarrow> le_rows L raw))"

definition db_at :: "string \<Rightarrow> machine \<Rightarrow> sql_db option" where
  "db_at path m = map_of (mc_dbs m) path"

definition set_db :: "string \<Rightarrow> sql_db option \<Rightarrow> machine \<Rightarrow> machine" where
  "set_db path db m =
     m\<lparr>mc_dbs := (case db of None \<Rightarrow> AList.delete path (mc_dbs m) | Some d \<Rightarrow> AList.update path d (mc_dbs m))\<rparr>"

definition set_file :: "string \<Rightarrow> string \<Rightarrow> machine \<Rightarrow> machine" where
  "set_file path raw m = m\<lparr>mc_files := AList.update path raw (mc_files m)\<rparr>"

lemma set_db_at [simp]: "db_at q (set_db p db m) = (if q = p then db else db_at q m)"
  by (auto simp: db_at_def set_db_def update_conv delete_conv split: option.split)

lemma set_frames [simp]:
  "mc_files (set_db p db m) = mc_files m" "mc_dbs (set_file p raw m) = mc_dbs m" "db_at q (set_file p raw m) = db_at q m"
  "map_of (mc_files (set_file p raw m)) = (map_of (mc_files m))(p \<mapsto> raw)"
  by (simp_all add: set_db_def set_file_def db_at_def update_conv')

text \<open>Flags, then the number of arguments that may follow them.\<close>

definition with_flags ::
  "(string \<times> bool) list \<Rightarrow> string list \<Rightarrow> ((string \<times> string) list \<Rightarrow> string list \<Rightarrow> machine \<Rightarrow> machine \<times> (local_error + string))
     \<Rightarrow> machine \<Rightarrow> machine \<times> (local_error + string)" where
  "with_flags names args f m =
     (case parse_flags names args of Inl e \<Rightarrow> stops (Bad_Command e) m | Inr (fs, rest) \<Rightarrow> f fs rest m)"

section \<open>Users\<close>

definition user_index :: "string \<Rightarrow> user list \<Rightarrow> nat option" where
  "user_index name users = first_index (\<lambda>u. us_username u = name) users"

text \<open>The users after the change: with \<open>must_exist\<close> the password of a user, without it a new user.\<close>

definition changed_users :: "bool \<Rightarrow> string \<Rightarrow> string \<Rightarrow> user list \<Rightarrow> string + user list" where
  "changed_users must_exist name hash users =
     (case user_index name users of
        None \<Rightarrow>
          if must_exist then Inl (''user '' @ name @ '' not found'')
          else Inr (users @ [\<lparr>us_username = name, us_password_hash = hash\<rparr>])
      | Some i \<Rightarrow>
          if \<not> must_exist then Inl (''user '' @ name @ '' already exists'')
          else Inr (users[i := (users ! i)\<lparr>us_password_hash := hash\<rparr>]))"

definition upsert_config_user ::
  "local_env \<Rightarrow> string \<Rightarrow> string \<Rightarrow> string \<Rightarrow> bool \<Rightarrow> machine \<Rightarrow> machine \<times> (local_error + string)" where
  "upsert_config_user L path username password must_exist m =
     (let username = trim_space username in
      if username = [] \<or> length password < 8 then
        stops (Trouble ''username and password with at least 8 chars are required'') m
      else
        (case load (le_load L) path (mc_files m) of
           Inl e \<Rightarrow> stops (Not_Loaded e) m
         | Inr c \<Rightarrow>
             (case hash_password (le_hmac L) (le_salt L) password of
                Inl e \<Rightarrow> stops (Trouble e) m
              | Inr hash \<Rightarrow>
                  (case changed_users must_exist username hash (au_users (c_auth c)) of
                     Inl e \<Rightarrow> stops (Trouble e) m
                   | Inr users \<Rightarrow>
                       let c = c\<lparr>c_auth := (c_auth c)\<lparr>au_users := users, au_first_run := False\<rparr>\<rparr>;
                           problems = validate (lp_val (le_load L)) (Some c) in
                       if problems \<noteq> [] then stops (Not_Loaded (Invalid problems)) m
                       else
                         (case save (le_load L) (le_save L) path c (mc_files m) of
                            (fs, Some e) \<Rightarrow> stops (Not_Loaded e) (m\<lparr>mc_files := fs\<rparr>)
                          | (fs, None) \<Rightarrow>
                              (m\<lparr>mc_files := fs\<rparr>, Inr (''updated user '' @ username @ '' in '' @ path @ newline)))))))"

definition run_user :: local_command where
  "run_user L args m =
     (case args of
        [] \<Rightarrow> stops (Bad_Command (Usage ''usage: sis user <add|passwd>'')) m
      | sub # xs \<Rightarrow>
          if sub = ''add'' \<or> sub = ''passwd'' then
            with_flags [(''config'', False)] xs
              (\<lambda>fs rest m.
                 case rest of
                   [username, password] \<Rightarrow>
                     upsert_config_user L (flag_value fs ''config'' (default_config_path L)) username password (sub = ''passwd'') m
                 | _ \<Rightarrow> stops (Bad_Command (Usage (''usage: sis user '' @ sub @ '' [-config path] <username> <password>''))) m) m
          else stops (Bad_Command (Unknown_Command ''user'' sub)) m)"

section \<open>The configuration\<close>

definition run_config :: local_command where
  "run_config L args m =
     (case args of
        [] \<Rightarrow> stops (Bad_Command (Usage ''usage: sis config <check|validate|show>'')) m
      | sub # xs \<Rightarrow>
          if sub = ''check'' \<or> sub = ''validate'' then
            with_flags [(''config'', False)] xs
              (\<lambda>fs rest m.
                 case load (le_load L) (flag_value fs ''config'' (default_config_path L)) (mc_files m) of
                   Inl e \<Rightarrow> stops (Not_Loaded e) m
                 | Inr _ \<Rightarrow> (m, Inr (''config ok'' @ newline))) m
          else if sub = ''show'' then
            with_flags [(''config'', False), (''secrets'', True)] xs
              (\<lambda>fs rest m.
                 case load (le_load L) (flag_value fs ''config'' (default_config_path L)) (mc_files m) of
                   Inl e \<Rightarrow> stops (Not_Loaded e) m
                 | Inr c \<Rightarrow>
                     let out = (if flag_value fs ''secrets'' ''false'' = ''true'' then Some c else redacted_copy (Some c)) in
                     (case Option.bind out (lp_marshal (le_load L)) of
                        None \<Rightarrow> stops (Not_Loaded Yaml_Error) m
                      | Some raw \<Rightarrow> (m, Inr raw))) m
          else stops (Bad_Command (Unknown_Command ''config'' sub)) m)"

section \<open>Stores\<close>

definition store_usage :: "string \<Rightarrow> machine \<Rightarrow> machine \<times> (local_error + string)" where
  "store_usage text m = stops (Bad_Command (Usage (''usage: sis store '' @ text))) m"

definition run_store_migrate :: local_command where
  "run_store_migrate L args =
     with_flags [(''data-dir'', False), (''force'', True)] args
       (\<lambda>fs rest m.
          let dir = flag_value fs ''data-dir'' [] in
          if rest \<noteq> [] \<or> dir = [] then store_usage ''migrate-json-to-sqlite -data-dir path [-force]'' m
          else
            (case migrate_json_to_sqlite (le_sql L) (le_go L) (le_transfer L) (flag_value fs ''force'' ''false'' = ''true'')
                (json_at L (json_path dir) m) (db_at (sqlite_path dir) m) of
               (db, Inl e) \<Rightarrow> stops (Store_Trouble e) (set_db (sqlite_path dir) db m)
             | (db, Inr n) \<Rightarrow>
                 (set_db (sqlite_path dir) db m,
                  Inr (''migrated '' @ show_nat n @ '' records to '' @ sqlite_path dir @ newline))))"

definition run_store_export :: local_command where
  "run_store_export L args =
     with_flags [(''data-dir'', False), (''out'', False), (''force'', True)] args
       (\<lambda>fs rest m.
          let dir = flag_value fs ''data-dir'' []; out = flag_value fs ''out'' [] in
          if rest \<noteq> [] \<or> dir = [] \<or> out = [] then
            store_usage ''export-sqlite-json -data-dir path -out path [-force]'' m
          else
            (case export_sqlite_to_json (le_sql L) (le_go L) (le_opened L) (le_export L)
                (flag_value fs ''force'' ''false'' = ''true'') (db_at (sqlite_path dir) m)
                (map_option (\<lambda>_. []) (map_of (mc_files m) out)) of
               (_, Inl e) \<Rightarrow> stops (Store_Trouble e) m
             | (target, Inr n) \<Rightarrow>
                 (set_file out (le_text L (the_default [] target)) m,
                  Inr (''exported '' @ show_nat n @ '' records to '' @ out @ newline))))"

text \<open>Compaction writes the JSON file where the store came to write it, and the database either way.\<close>

definition run_store_compact :: local_command where
  "run_store_compact L args =
     with_flags [(''data-dir'', False), (''backend'', False)] args
       (\<lambda>fs rest m.
          let dir = flag_value fs ''data-dir'' []; backend = flag_value fs ''backend'' ''json'' in
          if rest \<noteq> [] \<or> dir = [] then store_usage ''compact -data-dir path [-backend json|sqlite]'' m
          else
            let text = json_at L (json_path dir) m; db = db_at (sqlite_path dir) m;
                m' = (case choose_backend backend () () of
                        Use_Json _ \<Rightarrow>
                          (case fst (compact_json (le_saves L) (le_stat L (json_path dir)) text) of
                             None \<Rightarrow> m | Some rows \<Rightarrow> set_file (json_path dir) (le_text L rows) m)
                      | Use_Sqlite _ \<Rightarrow>
                          set_db (sqlite_path dir)
                            (fst (compact_sqlite (le_sql L) (le_go L) (le_stat L (sqlite_path dir)) (le_opened L) db)) m
                      | Unsupported _ \<Rightarrow> m) in
            (case compact_backend (le_saves L) (le_sql L) (le_go L)
                (le_stat L (if backend = ''sqlite'' then sqlite_path dir else json_path dir)) (le_opened L) backend dir text db of
               Inl e \<Rightarrow> stops (Store_Trouble e) m'
             | Inr path \<Rightarrow> (m', Inr (''compacted '' @ backend @ '' store at '' @ path @ newline))))"

definition verified_text :: "verify_result \<Rightarrow> string" where
  "verified_text v =
     ''verified '' @ vr_backend v @ '' store at '' @ vr_path v @ '' ('' @ show_nat (vr_records v) @ '' records, schema ''
     @ show_int (vr_schema_version v) @ '')'' @ newline
     @ concat (map (\<lambda>n. ''  '' @ n @ '': ''
         @ show_nat (case map_of (vr_counts v) n of None \<Rightarrow> 0 | Some k \<Rightarrow> k) @ newline) (collection_names (Some v)))"

text \<open>A configuration gives the backend, and the data directory where no flag does.\<close>

definition verify_target ::
  "local_env \<Rightarrow> (string \<times> string) list \<Rightarrow> machine \<Rightarrow> local_error + string \<times> string" where
  "verify_target L fs m =
     (let config_path = flag_value fs ''config'' []; dir = flag_value fs ''data-dir'' [];
          backend = flag_value fs ''backend'' ''json'' in
      if config_path = [] then Inr (dir, backend)
      else
        (case load (le_load L) config_path (mc_files m) of
           Inl e \<Rightarrow> Inl (Not_Loaded e)
         | Inr c \<Rightarrow> Inr (if dir = [] then sv_data_dir (c_server c) else dir, sv_store_backend (c_server c))))"

definition run_store_verify :: local_command where
  "run_store_verify L args =
     with_flags [(''config'', False), (''data-dir'', False), (''backend'', False)] args
       (\<lambda>fs rest m.
          let help = ''verify [-config path] [-data-dir path] [-backend json|sqlite]'' in
          if rest \<noteq> [] then store_usage help m
          else
            (case verify_target L fs m of
               Inl e \<Rightarrow> stops e m
             | Inr (dir, backend) \<Rightarrow>
                 if dir = [] then store_usage help m
                 else
                   (case verify_backend (le_sql L) (le_stat L (sqlite_path dir)) (le_opened L) (le_check L) backend dir
                       (json_at L (json_path dir) m) (db_at (sqlite_path dir) m) of
                      Inl e \<Rightarrow> stops (Store_Trouble e) m
                    | Inr v \<Rightarrow> (m, Inr (verified_text v)))))"

definition run_store :: local_command where
  "run_store L args m =
     (case args of
        [] \<Rightarrow> store_usage ''<migrate-json-to-sqlite|export-sqlite-json|compact|verify>'' m
      | sub # xs \<Rightarrow>
          if sub = ''migrate-json-to-sqlite'' then run_store_migrate L xs m
          else if sub = ''export-sqlite-json'' then run_store_export L xs m
          else if sub = ''compact'' then run_store_compact L xs m
          else if sub = ''verify'' then run_store_verify L xs m
          else stops (Bad_Command (Unknown_Command ''store'' sub)) m)"

section \<open>What the commands do\<close>

lemma first_index_found: "first_index P xs = Some i \<Longrightarrow> i < length xs \<and> P (xs ! i)"
  by (induction xs arbitrary: i) (auto split: if_split_asm)

lemma first_index_none: "first_index P xs = None \<longleftrightarrow> (\<forall>x \<in> set xs. \<not> P x)"
  by (induction xs) (auto split: if_split)

lemma find_map_update:
  "distinct (map f xs) \<Longrightarrow> i < length xs \<Longrightarrow> f y = f (xs ! i)
     \<Longrightarrow> find (\<lambda>x. f x = k) (xs[i := y]) = (if k = f (xs ! i) then Some y else find (\<lambda>x. f x = k) xs)"
proof (induction xs arbitrary: i)
  case (Cons x xs)
  show ?case
  proof (cases i)
    case 0
    then show ?thesis using Cons.prems(3) by auto
  next
    case (Suc j)
    have j: "j < length xs" using Cons.prems(2) Suc by simp
    have "f (xs ! j) \<noteq> f x" using Cons.prems(1) j by (metis distinct.simps(2) image_eqI list.map(2) list.set_map nth_mem)
    moreover have "find (\<lambda>x. f x = k) (xs[j := y]) = (if k = f (xs ! j) then Some y else find (\<lambda>x. f x = k) xs)"
      using Cons.prems(1,3) Suc by (intro Cons.IH j) simp_all
    ultimately show ?thesis unfolding Suc by auto
  qed
qed simp

text \<open>The users after an accepted change: the named one has the new hash, the others what they had.\<close>

lemma changed_users_lookup:
  assumes "changed_users must_exist name hash users = Inr users'" "distinct (map us_username users)"
  shows "find (\<lambda>u. us_username u = k) users'
      = (if k = name then Some \<lparr>us_username = name, us_password_hash = hash\<rparr> else find (\<lambda>u. us_username u = k) users)
    \<and> map us_username users' = (if must_exist then map us_username users else map us_username users @ [name])
    \<and> (must_exist \<longleftrightarrow> name \<in> us_username ` set users)"
proof (cases "user_index name users")
  case None
  with assms(1) have u: "users' = users @ [\<lparr>us_username = name, us_password_hash = hash\<rparr>]" "\<not> must_exist"
    by (auto simp: changed_users_def split: if_split_asm)
  have new: "name \<notin> us_username ` set users" using None by (auto simp: user_index_def first_index_none)
  have "find (\<lambda>u. us_username u = name) users = None" using new by (auto simp: find_None_iff)
  with u new show ?thesis
    by (auto simp: find_append split: option.split)
next
  case (Some i)
  with assms(1) have u: "users' = users[i := (users ! i)\<lparr>us_password_hash := hash\<rparr>]" "must_exist"
    by (auto simp: changed_users_def split: if_split_asm)
  have i: "i < length users" "us_username (users ! i) = name"
    using first_index_found [OF Some [unfolded user_index_def]] by auto
  have "us_username (users' ! j) = us_username (users ! j)" if "j < length users" for j
    using i that by (cases "j = i") (simp_all add: u)
  then have names: "map us_username users' = map us_username users"
    by (intro nth_equalityI) (simp_all add: u(1))
  have new: "(users ! i)\<lparr>us_password_hash := hash\<rparr> = \<lparr>us_username = name, us_password_hash = hash\<rparr>"
    using i(2) by (cases "users ! i") simp
  have "find (\<lambda>u. us_username u = k) users'
      = (if k = name then Some \<lparr>us_username = name, us_password_hash = hash\<rparr> else find (\<lambda>u. us_username u = k) users)"
    using find_map_update [OF assms(2) i(1), of "\<lparr>us_username = name, us_password_hash = hash\<rparr>" k] i(2)
    unfolding u(1) new by simp
  moreover have "name \<in> us_username ` set users" using i by (metis image_eqI nth_mem)
  ultimately show ?thesis using names u(2) by simp
qed

lemma auth_defaults:
  "apply_defaults (c\<lparr>c_auth := a\<rparr>) = (apply_defaults c)\<lparr>c_auth := a\<lparr>au_session_ttl := or_int (au_session_ttl a) (24 * hour),
     au_cookie_name := or_string (au_cookie_name a) ''sis_session''\<rparr>\<rparr>"
  by (cases c) (simp add: apply_defaults_def Let_def)

lemma auth_overrides:
  "apply_env_overrides E (c\<lparr>c_auth := a\<rparr>) = (apply_env_overrides E c)\<lparr>c_auth :=
     a\<lparr>au_cookie_name := set_string (lp_getenv E ''SIS_AUTH_COOKIE_NAME'') (au_cookie_name a),
       au_secure_cookie := set_bool (lp_getenv E ''SIS_AUTH_SECURE_COOKIE'') (au_secure_cookie a),
       au_first_run := set_bool (lp_getenv E ''SIS_AUTH_FIRST_RUN'') (au_first_run a),
       au_session_ttl := set_duration (lp_duration E) (lp_getenv E ''SIS_AUTH_SESSION_TTL'') (au_session_ttl a)\<rparr>\<rparr>"
  by (cases c) (simp add: apply_env_overrides_def Let_def)

lemma users_settled:
  assumes "apply_env_overrides E (apply_defaults c) = c" "lp_getenv E ''SIS_AUTH_FIRST_RUN'' = []"
  shows "apply_env_overrides E (apply_defaults (c\<lparr>c_auth := (c_auth c)\<lparr>au_users := us, au_first_run := False\<rparr>\<rparr>))
    = c\<lparr>c_auth := (c_auth c)\<lparr>au_users := us, au_first_run := False\<rparr>\<rparr>"
proof -
  let ?a = "c_auth c"
  have "c_auth (apply_env_overrides E (apply_defaults c)) = ?a" using assms(1) by simp
  then have a: "?a\<lparr>au_cookie_name := set_string (lp_getenv E ''SIS_AUTH_COOKIE_NAME'') (or_string (au_cookie_name ?a) ''sis_session''),
      au_secure_cookie := set_bool (lp_getenv E ''SIS_AUTH_SECURE_COOKIE'') (au_secure_cookie ?a),
      au_first_run := set_bool (lp_getenv E ''SIS_AUTH_FIRST_RUN'') (au_first_run ?a),
      au_session_ttl := set_duration (lp_duration E) (lp_getenv E ''SIS_AUTH_SESSION_TTL'') (or_int (au_session_ttl ?a) (24 * hour))\<rparr> = ?a"
    by (simp add: apply_env_overrides_def apply_defaults_def Let_def)
  from arg_cong [OF a, of au_cookie_name] arg_cong [OF a, of au_secure_cookie] arg_cong [OF a, of au_session_ttl]
  have "(?a\<lparr>au_users := us, au_first_run := False\<rparr>)
      \<lparr>au_session_ttl := or_int (au_session_ttl ?a) (24 * hour), au_cookie_name := or_string (au_cookie_name ?a) ''sis_session'',
        au_cookie_name := set_string (lp_getenv E ''SIS_AUTH_COOKIE_NAME'') (or_string (au_cookie_name ?a) ''sis_session''),
        au_secure_cookie := set_bool (lp_getenv E ''SIS_AUTH_SECURE_COOKIE'') (au_secure_cookie ?a), au_first_run := False,
        au_session_ttl := set_duration (lp_duration E) (lp_getenv E ''SIS_AUTH_SESSION_TTL'') (or_int (au_session_ttl ?a) (24 * hour))\<rparr>
    = ?a\<lparr>au_users := us, au_first_run := False\<rparr>" by (cases ?a) simp
  then show ?thesis by (simp add: auth_defaults auth_overrides assms set_bool_def)
qed


text \<open>Without \<open>-secrets\<close>, the display tells configurations apart only by what is not secret.\<close>

lemma shown_config_redacted:
  assumes "load (le_load L) (flag_value fs ''config'' (default_config_path L)) (mc_files m) = Inr c"
    and "load (le_load L) (flag_value fs ''config'' (default_config_path L)) (mc_files m2) = Inr c2"
    and "redacted_copy (Some c) = redacted_copy (Some c2)" "flag_value fs ''secrets'' ''false'' \<noteq> ''true''"
    and "parse_flags [(''config'', False), (''secrets'', True)] args = Inr (fs, rest)"
  shows "snd (run_config L (''show'' # args) m) = snd (run_config L (''show'' # args) m2)"
  using assms by (simp add: run_config_def with_flags_def stops_def Let_def split: option.split)

definition plain_local :: local_env where
  "plain_local =
     \<lparr>le_load = settled_load,
      le_save = \<lparr>si_mkdir = None, si_temp = Inr ''.tmp'', si_write = None, si_chmod = None, si_sync = None, si_close = None,
         si_rename = None, si_sync_dir = None\<rparr>,
      le_hmac = (\<lambda>_ _. replicate 32 (CHR ''h'')), le_salt = Inr ''salt'', le_go = ascii_lib, le_sql = (\<lambda>_. Answered),
      le_transfer = quiet_os, le_export = (\<lambda>_. None), le_saves = (\<lambda>_. Saved), le_stat = (\<lambda>_. None), le_read = (\<lambda>_. None),
      le_opened = None, le_check = ''ok'', le_rows = (\<lambda>_. Rows []), le_text = (\<lambda>_. ''rows''), le_etc = False\<rparr>"

definition anna_hash :: string where
  "anna_hash = (case hash_password (le_hmac plain_local) (Inr ''salt'') ''opensesame'' of Inr h \<Rightarrow> h | Inl _ \<Rightarrow> [])"

definition anna_home :: config where
  "anna_home = settled_home\<lparr>c_auth := (c_auth settled_home)\<lparr>
     au_users := [\<lparr>us_username = ''anna'', us_password_hash = anna_hash\<rparr>], au_first_run := False\<rparr>\<rparr>"

definition anna_local :: local_env where
  "anna_local = plain_local\<lparr>le_load := settled_load
     \<lparr>lp_marshal := \<lambda>c. if c = anna_home then Some ''anna'' else None,
      lp_unmarshal := \<lambda>raw. if raw = ''home'' then Some settled_home else if raw = ''anna'' then Some anna_home else None\<rparr>\<rparr>"

lemma anna_local_simps [simp]:
  "le_save anna_local = le_save plain_local" "le_hmac anna_local = le_hmac plain_local" "le_salt anna_local = Inr ''salt''"
  "lp_val (le_load anna_local) = plain_env" "lp_getenv (le_load anna_local) = (\<lambda>_. [])"
  "lp_marshal (le_load anna_local) = (\<lambda>c. if c = anna_home then Some ''anna'' else None)"
  "lp_unmarshal (le_load anna_local) = (\<lambda>raw. if raw = ''home'' then Some settled_home else if raw = ''anna'' then Some anna_home else None)"
  by (simp_all add: anna_local_def plain_local_def settled_load_def plain_load_def)

lemma home_settled: "apply_env_overrides (le_load anna_local) (apply_defaults settled_home) = settled_home" "config_valid plain_env settled_home"
proof -
  have env: "apply_env_overrides (le_load anna_local) c = c" for c
    by (simp add: apply_env_overrides_def override_server_def set_string_def set_int_def set_bool_def set_duration_def Let_def)
  show "apply_env_overrides (le_load anna_local) (apply_defaults settled_home) = settled_home"
    using settings_settled [of "le_load anna_local" "home_config []"] by (simp add: env settled_home_def)
  have "validate plain_env (Some settled_home) = []" by code_simp
  then show "config_valid plain_env settled_home" by (simp add: validate_nil_iff)
qed

lemma anna_home_valid: "config_valid plain_env anna_home"
proof -
  have hash: "anna_hash \<noteq> []" by (simp add: anna_hash_def hash_password_def plain_local_def Let_def)
  have "validate_misc plain_env anna_home = validate_misc plain_env settled_home"
    "validate_data_dir plain_env anna_home = validate_data_dir plain_env settled_home"
    by (simp_all add: anna_home_def validate_misc_def validate_data_dir_def Let_def)
  with home_settled(2) hash show ?thesis
    unfolding config_valid_def Let_def by (simp add: anna_home_def)
qed


end
