(* ===== verification/Cli_Backup.thy ===== *)
theory Cli_Backup
  imports Cli_Local
begin

text \<open>
  Backups (\<open>runBackup\<close> of \<open>cmd/sis/main.go\<close>): archives of the configuration file and the store, their
  verification, and restoring them.

  An archive is what its layers hold: \<open>Gzip\<close> of \<open>compress/gzip\<close>, \<open>Age\<close> of the encryption with a
  passphrase (a third-party package), \<open>Tar\<close> the entries of \<open>archive/tar\<close>, with the error that ends the
  stream early where it is torn; \<open>Bytes\<close> is anything else.  Only the passphrase an \<open>Age\<close> layer was made
  with opens it.
\<close>

section \<open>Archives\<close>

record tar_entry =
  te_name :: string
  te_regular :: bool
  te_raw :: string

datatype layer =
    Bytes string
  | Gzip layer
  | Age string layer
  | Tar "tar_entry list" "string option"

record backup_archive =
  ba_manifest :: "(string, string) alist"
  ba_config :: config
  ba_yaml :: string
  ba_store :: string

record host =
  ho_machine :: machine
  ho_archives :: "(string, layer) alist"

text \<open>
  What the world adds: the clock and version of the manifest, the JSON codec of a map of strings
  and \<open>json.Valid\<close>, the passphrase typed in (or the failure to read one), and the errors of the system
  calls.  \<open>be_write n\<close> is the error of the n-th entry, \<open>be_target p n\<close> that of the n-th step of writing
  \<open>p\<close> (stat, directory, temporary file, write, mode, sync, close, rename, sync of the directory); the
  error of reading an exported database goes by the path of the database.
\<close>

record backup_env =
  be_local :: local_env
  be_now :: string
  be_stamp :: string
  be_version :: string
  be_map_text :: "(string, string) alist \<Rightarrow> string"
  be_map :: "string \<Rightarrow> (string, string) alist option"
  be_valid :: "string \<Rightarrow> bool"
  be_passphrase :: "string + string"
  be_open :: "string \<Rightarrow> string option"
  be_recipient :: "string option"
  be_read :: "string \<Rightarrow> string option"
  be_temp_dir :: "string option"
  be_write :: "nat \<Rightarrow> string option"
  be_close :: "string option"
  be_target :: "string \<Rightarrow> nat \<Rightarrow> string option"

section \<open>Creating\<close>

text \<open>The store as JSON, nothing where there is none.\<close>

definition backup_store_json :: "backup_env \<Rightarrow> string \<Rightarrow> string \<Rightarrow> machine \<Rightarrow> local_error + string" where
  "backup_store_json B dir backend m =
     (let L = be_local B in
      if backend = [] \<or> backend = ''json'' then
        (case map_of (mc_files m) (json_path dir) of
           None \<Rightarrow> Inr []
         | Some raw \<Rightarrow> (case be_read B (json_path dir) of Some e \<Rightarrow> Inl (Trouble e) | None \<Rightarrow> Inr raw))
      else if backend = ''sqlite'' then
        (case db_at (sqlite_path dir) m of
           None \<Rightarrow> (case le_stat L (sqlite_path dir) of None \<Rightarrow> Inr [] | Some e \<Rightarrow> Inl (Trouble e))
         | Some db \<Rightarrow>
             (case (le_stat L (sqlite_path dir), be_temp_dir B) of
                (Some e, _) \<Rightarrow> Inl (Trouble e)
              | (None, Some e) \<Rightarrow> Inl (Trouble e)
              | (None, None) \<Rightarrow>
                  (case export_sqlite_to_json (le_sql L) (le_go L) (le_opened L) (le_export L) False (Some db) None of
                     (_, Inl e) \<Rightarrow> Inl (Store_Trouble e)
                   | (target, Inr _) \<Rightarrow>
                       (case be_read B (sqlite_path dir) of
                          Some e \<Rightarrow> Inl (Trouble e) | None \<Rightarrow> Inr (le_text L (the_default [] target))))))
      else Inl (Trouble (''unsupported store backend '' @ backend)))"

definition add_file :: "backup_env \<Rightarrow> string \<Rightarrow> string \<Rightarrow> machine \<Rightarrow> local_error + tar_entry option" where
  "add_file B path name m =
     (case map_of (mc_files m) path of
        None \<Rightarrow> Inl (Trouble ''no such file'')
      | Some raw \<Rightarrow>
          (case be_read B path of
             Some e \<Rightarrow> Inl (Trouble e)
           | None \<Rightarrow> Inr (Some \<lparr>te_name = name, te_regular = True, te_raw = raw\<rparr>)))"

definition manifest_entry :: "backup_env \<Rightarrow> string \<Rightarrow> string \<Rightarrow> string \<Rightarrow> local_error + tar_entry option" where
  "manifest_entry B config_path dir backend =
     Inr (Some \<lparr>te_name = ''manifest.json'', te_regular = True,
       te_raw = be_map_text B [(''created_at'', be_now B), (''version'', be_version B), (''config_path'', config_path),
         (''data_dir'', dir), (''store'', backend)]\<rparr>)"

definition store_entry :: "backup_env \<Rightarrow> string \<Rightarrow> string \<Rightarrow> machine \<Rightarrow> local_error + tar_entry option" where
  "store_entry B dir backend m =
     map_sum id (\<lambda>raw. if raw = [] then None else Some \<lparr>te_name = ''sis.db.json'', te_regular = True, te_raw = raw\<rparr>)
       (backup_store_json B dir backend m)"

text \<open>The entries in their order up to the first error, which tears the stream where it came from
  writing to it.\<close>

fun add_entries ::
  "(nat \<Rightarrow> string option) \<Rightarrow> nat \<Rightarrow> (local_error + tar_entry option) list \<Rightarrow> tar_entry list \<times> (local_error \<times> bool) option" where
  "add_entries write n [] = ([], None)"
| "add_entries write n (Inl e # rest) = ([], Some (e, False))"
| "add_entries write n (Inr None # rest) = add_entries write n rest"
| "add_entries write n (Inr (Some t) # rest) =
     (case write n of
        Some e \<Rightarrow> ([], Some (Trouble e, True))
      | None \<Rightarrow> apfst ((#) t) (add_entries write (Suc n) rest))"

definition set_archive :: "string \<Rightarrow> layer \<Rightarrow> host \<Rightarrow> host" where
  "set_archive path a h = h\<lparr>ho_archives := AList.update path a (ho_archives h)\<rparr>"

definition sealed :: "string \<Rightarrow> layer \<Rightarrow> layer" where
  "sealed passphrase a = Gzip (if passphrase = [] then a else Age passphrase a)"

definition create_backup ::
  "backup_env \<Rightarrow> string \<Rightarrow> string \<Rightarrow> string \<Rightarrow> string \<Rightarrow> string \<Rightarrow> host \<Rightarrow> host \<times> local_error option" where
  "create_backup B config_path dir backend out passphrase h =
     (case be_open B out of
        Some e \<Rightarrow> (h, Some (Trouble e))
      | None \<Rightarrow>
          if passphrase \<noteq> [] \<and> be_recipient B \<noteq> None then
            (set_archive out (Bytes []) h, map_option Trouble (be_recipient B))
          else
            let m = ho_machine h in
            (case add_entries (be_write B) 0
                [manifest_entry B config_path dir backend, add_file B config_path ''sis.yaml'' m, store_entry B dir backend m] of
               (es, None) \<Rightarrow>
                 (set_archive out (sealed passphrase (Tar es (be_close B))) h, map_option Trouble (be_close B))
             | (es, Some (e, torn)) \<Rightarrow>
                 (set_archive out (sealed passphrase (Tar es (if torn then Some ''unexpected EOF'' else be_close B))) h, Some e)))"

section \<open>Reading\<close>

definition entry_names :: "string list" where
  "entry_names = [''manifest.json'', ''sis.yaml'', ''sis.db.json'']"

text \<open>What one entry adds to the archive read so far.\<close>

definition read_entry :: "backup_env \<Rightarrow> tar_entry \<Rightarrow> backup_archive \<Rightarrow> local_error + backup_archive" where
  "read_entry B t a =
     (if te_name t = ''manifest.json'' then
        (case be_map B (te_raw t) of
           None \<Rightarrow> Inl (Trouble ''invalid backup manifest'')
         | Some kvs \<Rightarrow> Inr (a\<lparr>ba_manifest := kvs\<rparr>))
      else if te_name t = ''sis.yaml'' then
        (case lp_unmarshal (le_load (be_local B)) (te_raw t) of
           None \<Rightarrow> Inl (Trouble ''invalid backup config'')
         | Some c \<Rightarrow> Inr (a\<lparr>ba_yaml := te_raw t, ba_config := c\<rparr>))
      else if \<not> be_valid B (te_raw t) then Inl (Trouble ''invalid backup store JSON'')
      else Inr (a\<lparr>ba_store := te_raw t\<rparr>))"

fun read_entries ::
  "backup_env \<Rightarrow> string list \<Rightarrow> tar_entry list \<Rightarrow> string option \<Rightarrow> backup_archive \<Rightarrow> local_error + backup_archive" where
  "read_entries B seen [] torn a = (case torn of Some e \<Rightarrow> Inl (Trouble e) | None \<Rightarrow> Inr a)"
| "read_entries B seen (t # ts) torn a =
     (if \<not> te_regular t then Inl (Trouble (''backup contains non-file entry '' @ te_name t))
      else if te_name t \<notin> set entry_names then Inl (Trouble (''backup contains unexpected entry '' @ te_name t))
      else if te_name t \<in> set seen then Inl (Trouble (''backup contains duplicate entry '' @ te_name t))
      else (case read_entry B t a of Inl e \<Rightarrow> Inl e | Inr a \<Rightarrow> read_entries B (te_name t # seen) ts torn a))"

definition no_backup :: backup_archive where
  "no_backup = \<lparr>ba_manifest = [], ba_config = zero_config, ba_yaml = [], ba_store = []\<rparr>"

text \<open>The entries the tar reader finds in a stream: an empty one ends at once, and anything but a tar
  stream is an invalid header.\<close>

definition read_backup_from_reader :: "backup_env \<Rightarrow> layer \<Rightarrow> local_error + backup_archive" where
  "read_backup_from_reader B l =
     (case (case l of
              Tar es torn \<Rightarrow> read_entries B [] es torn no_backup
            | Bytes s \<Rightarrow> (if s = [] then Inr no_backup else Inl (Trouble ''invalid tar header''))
            | _ \<Rightarrow> Inl (Trouble ''invalid tar header'')) of
        Inl e \<Rightarrow> Inl e
      | Inr a \<Rightarrow>
          if ba_manifest a = [] then Inl (Trouble ''backup missing manifest.json'')
          else if ba_yaml a = [] then Inl (Trouble ''backup missing sis.yaml'')
          else Inr a)"

text \<open>The first four bytes: an age file begins with \<open>age-encryption.org\<close>, a gzip file with another magic
  number, a tar stream with the name of its first entry.\<close>

definition looks_encrypted :: "layer \<Rightarrow> bool" where
  "looks_encrypted l =
     (case l of
        Bytes s \<Rightarrow> prefix ''age-'' s
      | Gzip _ \<Rightarrow> False
      | Age _ _ \<Rightarrow> True
      | Tar es _ \<Rightarrow> (case es of [] \<Rightarrow> False | t # _ \<Rightarrow> prefix ''age-'' (te_name t)))"

definition gunzip :: "layer \<Rightarrow> local_error + layer" where
  "gunzip l = (case l of Gzip l \<Rightarrow> Inr l | _ \<Rightarrow> Inl (Trouble ''gzip: invalid header''))"

definition age_decrypt :: "string \<Rightarrow> layer \<Rightarrow> local_error + layer" where
  "age_decrypt passphrase l =
     (case l of
        Age p inner \<Rightarrow> (if p = passphrase then Inr inner else Inl (Trouble ''failed to decrypt backup''))
      | _ \<Rightarrow> Inl (Trouble ''failed to decrypt backup''))"

definition and_read :: "local_error + 'a \<Rightarrow> ('a \<Rightarrow> local_error + 'b) \<Rightarrow> local_error + 'b" where
  "and_read r f = (case r of Inl e \<Rightarrow> Inl e | Inr x \<Rightarrow> f x)"

definition read_encrypted_backup :: "backup_env \<Rightarrow> layer \<Rightarrow> local_error + backup_archive" where
  "read_encrypted_backup B l =
     (case be_passphrase B of
        Inl e \<Rightarrow> Inl (Trouble e)
      | Inr p \<Rightarrow> and_read (and_read (age_decrypt p l) gunzip) (read_backup_from_reader B))"

definition read_backup_archive :: "backup_env \<Rightarrow> string \<Rightarrow> host \<Rightarrow> local_error + backup_archive" where
  "read_backup_archive B path h =
     (case map_of (ho_archives h) path of
        None \<Rightarrow> Inl (Trouble ''no such file'')
      | Some l \<Rightarrow>
          (case be_open B path of
             Some e \<Rightarrow> Inl (Trouble e)
           | None \<Rightarrow>
               if looks_encrypted l then read_encrypted_backup B l
               else and_read (gunzip l) (read_backup_from_reader B)))"

section \<open>Restoring\<close>

definition already_exists :: "string \<Rightarrow> local_error" where
  "already_exists path = Trouble (path @ '' already exists; pass -force to overwrite'')"

definition can_write_restore_target :: "(string \<Rightarrow> nat \<Rightarrow> string option) \<Rightarrow> string \<Rightarrow> bool \<Rightarrow> bool \<Rightarrow> local_error option" where
  "can_write_restore_target target path exists force =
     (if force then None
      else (case target path 0 of
              Some e \<Rightarrow> Some (Trouble e)
            | None \<Rightarrow> if exists then Some (already_exists path) else None))"

definition file_exists :: "string \<Rightarrow> machine \<Rightarrow> bool" where
  "file_exists path m \<longleftrightarrow> map_of (mc_files m) path \<noteq> None"

definition db_exists :: "string \<Rightarrow> machine \<Rightarrow> bool" where
  "db_exists path m \<longleftrightarrow> db_at path m \<noteq> None"

definition write_file_atomic ::
  "(string \<Rightarrow> nat \<Rightarrow> string option) \<Rightarrow> string \<Rightarrow> string \<Rightarrow> bool \<Rightarrow> machine \<Rightarrow> machine \<times> local_error option" where
  "write_file_atomic target path raw force m =
     (case can_write_restore_target target path (file_exists path m) force of
        Some e \<Rightarrow> (m, Some e)
      | None \<Rightarrow>
          (case filter (\<lambda>n. target path n \<noteq> None) [1..<8] of
             n # _ \<Rightarrow> (m, map_option Trouble (target path n))
           | [] \<Rightarrow> (set_file path raw m, map_option Trouble (target path 8))))"

definition restore_backup_archive ::
  "backup_env \<Rightarrow> backup_archive \<Rightarrow> string \<Rightarrow> string \<Rightarrow> bool \<Rightarrow> machine \<Rightarrow> machine \<times> local_error option" where
  "restore_backup_archive B a config_path dir force m =
     (let backend = sv_store_backend (c_server (ba_config a));
          stop = can_write_restore_target (be_target B) config_path (file_exists config_path m) force;
          stop2 = (if ba_store a = [] then None
                   else if backend = [] \<or> backend = ''json'' then
                     can_write_restore_target (be_target B) (json_path dir) (file_exists (json_path dir) m) force
                   else if backend = ''sqlite'' then
                     can_write_restore_target (be_target B) (sqlite_path dir) (db_exists (sqlite_path dir) m) force
                   else Some (Trouble (''unsupported backup store backend '' @ backend))) in
      if stop \<noteq> None then (m, stop)
      else if stop2 \<noteq> None then (m, stop2)
      else
        (case write_file_atomic (be_target B) config_path (ba_yaml a) force m of
           (m, Some e) \<Rightarrow> (m, Some e)
         | (m, None) \<Rightarrow>
             if ba_store a = [] then (m, None)
             else if backend = [] \<or> backend = ''json'' then
               write_file_atomic (be_target B) (json_path dir) (ba_store a) force m
             else
               let L = be_local B in
               (case import_json_to_sqlite (le_sql L) (le_go L) (le_transfer L) force (le_rows L (ba_store a))
                   (db_at (sqlite_path dir) m) of
                  (db, Inl e) \<Rightarrow> (set_db (sqlite_path dir) db m, Some (Store_Trouble e))
                | (db, Inr _) \<Rightarrow> (set_db (sqlite_path dir) db m, None))))"

section \<open>The commands\<close>

type_synonym backup_command = "backup_env \<Rightarrow> string list \<Rightarrow> host \<Rightarrow> host \<times> (local_error + string)"

definition backup_usage :: "string \<Rightarrow> host \<Rightarrow> host \<times> (local_error + string)" where
  "backup_usage text h = (h, Inl (Bad_Command (Usage (''usage: sis backup '' @ text))))"

definition backup_flags ::
  "(string \<times> bool) list \<Rightarrow> string list \<Rightarrow> ((string \<times> string) list \<Rightarrow> string list \<Rightarrow> host \<times> (local_error + string))
     \<Rightarrow> host \<Rightarrow> host \<times> (local_error + string)" where
  "backup_flags names args f h =
     (case parse_flags names args of Inl e \<Rightarrow> (h, Inl (Bad_Command e)) | Inr (fs, rest) \<Rightarrow> f fs rest)"

definition run_backup_create :: backup_command where
  "run_backup_create B args h =
     backup_flags [(''config'', False), (''out'', False), (''encrypt'', False)] args
       (\<lambda>fs rest.
          let L = be_local B; path = flag_value fs ''config'' (default_config_path L); out = flag_value fs ''out'' [] in
          if rest \<noteq> [] then backup_usage ''create [-config path] [-out path] [-encrypt passphrase]'' h
          else
            (case load (le_load L) path (mc_files (ho_machine h)) of
               Inl e \<Rightarrow> (h, Inl (Not_Loaded e))
             | Inr c \<Rightarrow>
                 let out = (if out = [] then ''sis-backup-'' @ be_stamp B @ ''.tar.gz'' else out) in
                 (case create_backup B path (sv_data_dir (c_server c)) (sv_store_backend (c_server c)) out
                     (flag_value fs ''encrypt'' []) h of
                    (h, Some e) \<Rightarrow> (h, Inl e)
                  | (h, None) \<Rightarrow> (h, Inr (''backup written to '' @ out @ newline))))) h"

definition run_backup_verify :: backup_command where
  "run_backup_verify B args h =
     backup_flags [(''in'', False)] args
       (\<lambda>fs rest.
          let path = flag_value fs ''in'' [] in
          if rest \<noteq> [] \<or> path = [] then backup_usage ''verify -in path'' h
          else
            (case read_backup_archive B path h of
               Inl e \<Rightarrow> (h, Inl e)
             | Inr _ \<Rightarrow> (h, Inr (''backup ok'' @ newline)))) h"

definition run_backup_restore :: backup_command where
  "run_backup_restore B args h =
     backup_flags [(''in'', False), (''config'', False), (''data-dir'', False), (''force'', True)] args
       (\<lambda>fs rest.
          let path = flag_value fs ''in'' []; config_path = flag_value fs ''config'' (default_config_path (be_local B)) in
          if rest \<noteq> [] \<or> path = [] then backup_usage ''restore -in path [-config path] [-data-dir path] [-force]'' h
          else
            (case read_backup_archive B path h of
               Inl e \<Rightarrow> (h, Inl e)
             | Inr a \<Rightarrow>
                 let dir = (if flag_value fs ''data-dir'' [] = [] then sv_data_dir (c_server (ba_config a))
                            else flag_value fs ''data-dir'' []) in
                 if dir = [] then (h, Inl (Trouble ''backup config does not define server.data_dir; pass -data-dir''))
                 else
                   (case restore_backup_archive B a config_path dir (flag_value fs ''force'' ''false'' = ''true'') (ho_machine h) of
                      (m, Some e) \<Rightarrow> (h\<lparr>ho_machine := m\<rparr>, Inl e)
                    | (m, None) \<Rightarrow>
                        (h\<lparr>ho_machine := m\<rparr>, Inr (''backup restored to '' @ config_path @ '' and '' @ dir @ newline))))) h"

definition run_backup :: backup_command where
  "run_backup B args h =
     (case args of
        [] \<Rightarrow> backup_usage ''<create|verify|restore>'' h
      | sub # xs \<Rightarrow>
          if sub = ''create'' then run_backup_create B xs h
          else if sub = ''verify'' then run_backup_verify B xs h
          else if sub = ''restore'' then run_backup_restore B xs h
          else (h, Inl (Bad_Command (Unknown_Command ''backup'' sub))))"

section \<open>What restoring may overwrite\<close>

lemma write_file_cases:
  assumes "write_file_atomic target path raw force m = (m', r)"
  shows "(m' = m \<and> r \<noteq> None) \<or> (m' = set_file path raw m \<and> (force \<or> map_of (mc_files m) path = None))"
  using assms
  by (auto simp: write_file_atomic_def can_write_restore_target_def file_exists_def filter_eq_Cons_iff
      split: if_splits option.splits list.splits)

lemma import_keeps_existing:
  assumes "import_json_to_sqlite io G os False text (Some db) = (file, r)"
  shows "file = Some db \<and> (\<exists>e. r = Inl e)"
  using assms by (auto simp: import_json_to_sqlite_def prepare_target_def exists_error_def split: sum.splits option.splits)

text \<open>C21: Restoring a backup without the force flag overwrites nothing: whatever the archive holds and
  whichever system call fails, every file and every database that was on the host is still there with
  its content, and nothing is written outside the configuration path and the store of the data directory.\<close>

theorem restore_overwrites_nothing:
  assumes "restore_backup_archive B a config_path dir False m = (m', r)"
  shows "(\<forall>path raw. map_of (mc_files m) path = Some raw \<longrightarrow> map_of (mc_files m') path = Some raw)
    \<and> (\<forall>path db. db_at path m = Some db \<longrightarrow> db_at path m' = Some db)
    \<and> (\<forall>path. path \<notin> {config_path, json_path dir} \<longrightarrow> map_of (mc_files m') path = map_of (mc_files m) path)
    \<and> (\<forall>path. path \<noteq> sqlite_path dir \<longrightarrow> db_at path m' = db_at path m)"
proof -
  obtain m1 r1 where w: "write_file_atomic (be_target B) config_path (ba_yaml a) False m = (m1, r1)" by fastforce
  obtain m2 r2 where w2: "write_file_atomic (be_target B) (json_path dir) (ba_store a) False m1 = (m2, r2)" by fastforce
  let ?L = "be_local B"
  obtain db i where imp: "import_json_to_sqlite (le_sql ?L) (le_go ?L) (le_transfer ?L) False (le_rows ?L (ba_store a))
      (db_at (sqlite_path dir) m1) = (db, i)" by fastforce
  have db1: "db_at p m1 = db_at p m" for p using write_file_cases [OF w] by auto
  have kept: "db_at (sqlite_path dir) m = Some d \<Longrightarrow> db = Some d" for d
    using imp import_keeps_existing unfolding db1 by fastforce
  have "m' = m \<or> m' = m1 \<or> m' = m2 \<or> m' = set_db (sqlite_path dir) db m1"
    using assms w w2 imp
    by (auto simp: restore_backup_archive_def Let_def split: if_splits option.splits sum.splits)
  then show ?thesis
    using write_file_cases [OF w] write_file_cases [OF w2] kept db1
    by (elim disjE) (auto split: if_splits)
qed

section \<open>A backup restores what it was made of\<close>

text \<open>What a successful backup recorded.\<close>

lemma created:
  assumes "create_backup B config_path dir backend out passphrase h = (h', None)"
  obtains raw store where "map_of (mc_files (ho_machine h)) config_path = Some raw"
    and "backup_store_json B dir backend (ho_machine h) = Inr store" "be_open B out = None"
    and "map_of (ho_archives h') out = Some (sealed passphrase (Tar
      ([\<lparr>te_name = ''manifest.json'', te_regular = True,
           te_raw = be_map_text B [(''created_at'', be_now B), (''version'', be_version B), (''config_path'', config_path),
             (''data_dir'', dir), (''store'', backend)]\<rparr>,
        \<lparr>te_name = ''sis.yaml'', te_regular = True, te_raw = raw\<rparr>]
       @ (if store = [] then [] else [\<lparr>te_name = ''sis.db.json'', te_regular = True, te_raw = store\<rparr>])) None))"
proof -
  obtain raw where raw: "map_of (mc_files (ho_machine h)) config_path = Some raw" "be_read B config_path = None"
    using assms
    by (cases "map_of (mc_files (ho_machine h)) config_path"; cases "be_read B config_path")
      (auto simp: create_backup_def manifest_entry_def add_file_def Let_def split: option.splits if_splits prod.splits)
  obtain store where store: "backup_store_json B dir backend (ho_machine h) = Inr store"
    using assms raw
    by (cases "backup_store_json B dir backend (ho_machine h)")
      (auto simp: create_backup_def manifest_entry_def add_file_def store_entry_def Let_def split: option.splits if_splits prod.splits)
  show thesis
    using assms raw store
    by (intro that [of raw store])
      (auto simp: create_backup_def manifest_entry_def add_file_def store_entry_def set_archive_def update_conv' Let_def
        split: option.splits if_splits prod.splits)
qed

text \<open>What an archive of these entries is read as.\<close>

lemma read_back:
  assumes "be_map B manifest = Some kvs" "kvs \<noteq> []" "lp_unmarshal (le_load (be_local B)) raw = Some c" "raw \<noteq> []"
    and "store \<noteq> [] \<longrightarrow> be_valid B store"
  shows "read_backup_from_reader B (Tar
      ([\<lparr>te_name = ''manifest.json'', te_regular = True, te_raw = manifest\<rparr>, \<lparr>te_name = ''sis.yaml'', te_regular = True, te_raw = raw\<rparr>]
       @ (if store = [] then [] else [\<lparr>te_name = ''sis.db.json'', te_regular = True, te_raw = store\<rparr>])) None)
    = Inr \<lparr>ba_manifest = kvs, ba_config = c, ba_yaml = raw, ba_store = store\<rparr>"
  using assms by (simp add: read_backup_from_reader_def read_entry_def entry_names_def no_backup_def)

lemma write_new_file:
  assumes "\<forall>n. target path n = None" "map_of (mc_files m) path = None"
  shows "write_file_atomic target path raw False m = (set_file path raw m, None)"
  using assms by (simp add: write_file_atomic_def can_write_restore_target_def file_exists_def)

definition backend_recorded :: "config \<Rightarrow> string \<Rightarrow> bool" where
  "backend_recorded c backend \<longleftrightarrow>
     sv_store_backend (c_server c) = backend \<or> sv_store_backend (c_server c) = [] \<and> backend = ''json''"

text \<open>C20: A backup restores the installation it was made of: where creating it succeeded without a
  passphrase, restoring it into a host that has none of the targets puts back the configuration
  file, byte for byte, so that it loads to the same configuration; the JSON store file byte for byte; and for
  SQLite a database with the same records and matching tables.  The configuration file names the
  backend the server runs with, the stores are well formed, and no system call fails.\<close>

theorem backup_restores_installation:
  assumes "load (le_load (be_local B)) config_path (mc_files (ho_machine h)) = Inr c"
    and "create_backup B config_path (sv_data_dir (c_server c)) (sv_store_backend (c_server c)) out [] h = (h', None)"
    and "\<forall>raw c0. map_of (mc_files (ho_machine h)) config_path = Some raw \<and> lp_unmarshal (le_load (be_local B)) raw = Some c0
      \<longrightarrow> raw \<noteq> [] \<and> backend_recorded c0 (sv_store_backend (c_server c))"
    and "\<forall>kvs. kvs \<noteq> [] \<longrightarrow> be_map B (be_map_text B kvs) \<notin> {None, Some []}"
    and "\<forall>raw. map_of (mc_files (ho_machine h)) (json_path (sv_data_dir (c_server c))) = Some raw \<longrightarrow> raw \<noteq> [] \<and> be_valid B raw"
    and "\<forall>db rows n. export_sqlite_to_json (\<lambda>_. Answered) (le_go (be_local B)) None (\<lambda>_. None) False (Some db) None = (Some rows, Inr n)
        \<and> db_at (sqlite_path (sv_data_dir (c_server c))) (ho_machine h) = Some db \<longrightarrow>
      le_text (be_local B) rows \<noteq> [] \<and> be_valid B (le_text (be_local B) rows)
      \<and> le_rows (be_local B) (le_text (be_local B) rows) = Rows rows"
    and "\<forall>db. db_at (sqlite_path (sv_data_dir (c_server c))) (ho_machine h) = Some db \<longrightarrow>
      tables_match (le_go (be_local B)) db \<and> raw_view db version_key = Some (JNum 7)
      \<and> (\<forall>key. raw_view db key \<noteq> None \<longrightarrow> key \<noteq> [] \<and> valid_utf8 key)"
    and "le_sql (be_local B) = (\<lambda>_. Answered)" "le_transfer (be_local B) = quiet_os" "le_export (be_local B) = (\<lambda>_. None)"
      "le_opened (be_local B) = None" "\<forall>path n. be_target B path n = None"
    and "map_of (mc_files m) config_path2 = None" "map_of (mc_files m) (json_path dir2) = None"
      "db_at (sqlite_path dir2) m = None" "config_path2 \<noteq> json_path dir2"
  shows "\<exists>a m'. read_backup_archive B out h' = Inr a
    \<and> restore_backup_archive B a config_path2 dir2 False m = (m', None)
    \<and> map_of (mc_files m') config_path2 = map_of (mc_files (ho_machine h)) config_path
    \<and> load (le_load (be_local B)) config_path2 (mc_files m') = Inr c
    \<and> (sv_store_backend (c_server c) \<noteq> ''sqlite'' \<longrightarrow>
        map_of (mc_files m') (json_path dir2) = map_of (mc_files (ho_machine h)) (json_path (sv_data_dir (c_server c))))
    \<and> (sv_store_backend (c_server c) = ''sqlite'' \<longrightarrow>
        rel_option (\<lambda>db db'. tables_match (le_go (be_local B)) db' \<and> raw_view db' = raw_view db)
          (db_at (sqlite_path (sv_data_dir (c_server c))) (ho_machine h)) (db_at (sqlite_path dir2) m'))"
proof -
  let ?L = "be_local B" and ?M = "ho_machine h" and ?dir = "sv_data_dir (c_server c)" and ?be = "sv_store_backend (c_server c)"
  obtain raw store where made: "map_of (mc_files ?M) config_path = Some raw" "backup_store_json B ?dir ?be ?M = Inr store"
    "be_open B out = None"
    and arch: "map_of (ho_archives h') out = Some (sealed [] (Tar
      ([\<lparr>te_name = ''manifest.json'', te_regular = True,
           te_raw = be_map_text B [(''created_at'', be_now B), (''version'', be_version B), (''config_path'', config_path),
             (''data_dir'', ?dir), (''store'', ?be)]\<rparr>,
        \<lparr>te_name = ''sis.yaml'', te_regular = True, te_raw = raw\<rparr>]
       @ (if store = [] then [] else [\<lparr>te_name = ''sis.db.json'', te_regular = True, te_raw = store\<rparr>])) None))"
    by (rule created [OF assms(2)])
  obtain c0 where c0: "lp_unmarshal (le_load ?L) raw = Some c0" using assms(1) made(1) by (auto simp: load_def split: option.splits)
  have raw: "raw \<noteq> []" "backend_recorded c0 ?be" using assms(3) made(1) c0 by auto
  let ?kv = "[(''created_at'', be_now B), (''version'', be_version B), (''config_path'', config_path), (''data_dir'', ?dir),
      (''store'', ?be)]"
  have "be_map B (be_map_text B ?kv) \<notin> {None, Some []}" by (rule mp [OF spec [OF assms(4)]]) simp
  then obtain kvs where kvs: "be_map B (be_map_text B ?kv) = Some kvs" "kvs \<noteq> []"
    by (cases "be_map B (be_map_text B ?kv)") auto
  have known: "?be \<in> {[], ''json'', ''sqlite''}"
    using made(2) by (auto simp: backup_store_json_def Let_def split: if_splits)
  have json: "?be \<noteq> ''sqlite'' \<Longrightarrow> store = (case map_of (mc_files ?M) (json_path ?dir) of None \<Rightarrow> [] | Some t \<Rightarrow> t)"
    using made(2) known by (auto simp: backup_store_json_def Let_def split: option.splits)
  have none: "?be = ''sqlite'' \<Longrightarrow> db_at (sqlite_path ?dir) ?M = None \<Longrightarrow> store = []"
    using made(2) by (auto simp: backup_store_json_def Let_def split: option.splits)
  have some: "\<exists>rows db'. store = le_text ?L rows \<and> store \<noteq> [] \<and> be_valid B store \<and> le_rows ?L store = Rows rows
      \<and> import_json_to_sqlite (\<lambda>_. Answered) (le_go ?L) quiet_os False (Rows rows) None = (Some db', Inr (length rows))
      \<and> tables_match (le_go ?L) db' \<and> raw_view db' = raw_view db"
    if "?be = ''sqlite''" "db_at (sqlite_path ?dir) ?M = Some db" for db
  proof -
    from assms(7) that(2) have db: "tables_match (le_go ?L) db" "raw_view db version_key = Some (JNum 7)"
      "\<forall>key. raw_view db key \<noteq> None \<longrightarrow> key \<noteq> [] \<and> valid_utf8 key" by auto
    from exported_imports [OF this] obtain rows db' where
      "export_sqlite_to_json (\<lambda>_. Answered) (le_go ?L) None (\<lambda>_. None) False (Some db) None = (Some rows, Inr (length rows))"
      "migrate_json_to_sqlite (\<lambda>_. Answered) (le_go ?L) quiet_os False (Rows rows) None = (Some db', Inr (length rows))"
      "tables_match (le_go ?L) db'" "raw_view db' = raw_view db" by blast
    with made(2) that assms(8-11) assms(6) [rule_format, of db rows] show ?thesis
      by (intro exI [of _ rows] exI [of _ db'])
        (auto simp: backup_store_json_def migrate_json_to_sqlite_def the_default_def Let_def split: option.splits)
  qed
  have valid: "store \<noteq> [] \<longrightarrow> be_valid B store"
  proof (cases "?be = ''sqlite''")
    case True
    then show ?thesis using none some by (cases "db_at (sqlite_path ?dir) ?M") auto
  next
    case False
    then show ?thesis using json assms(5) by (auto split: option.splits)
  qed
  define a where "a = \<lparr>ba_manifest = kvs, ba_config = c0, ba_yaml = raw, ba_store = store\<rparr>"
  have read: "read_backup_archive B out h' = Inr a"
    using arch made(3) read_back [OF kvs c0 raw(1) valid]
    by (simp add: read_backup_archive_def sealed_def looks_encrypted_def gunzip_def and_read_def a_def)
  note new = write_new_file [of "be_target B", OF spec [OF assms(12)]]
  let ?m1 = "set_file config_path2 raw m"
  have yaml: "write_file_atomic (be_target B) config_path2 raw False m = (?m1, None)" by (rule new [OF assms(13)])
  have fresh: "file_exists config_path2 m = False" "file_exists (json_path dir2) m = False" "db_exists (sqlite_path dir2) m = False"
    "map_of (mc_files ?m1) (json_path dir2) = None" "db_at (sqlite_path dir2) ?m1 = None"
    using assms(13-16) by (auto simp: file_exists_def db_exists_def)
  have loads: "load (le_load ?L) config_path2 (mc_files m') = Inr c" if "map_of (mc_files m') config_path2 = Some raw" for m'
    using that assms(1) made(1) by (simp add: load_def)
  have be: "sv_store_backend (c_server c0) = ''sqlite'' \<longleftrightarrow> ?be = ''sqlite''"
    "sv_store_backend (c_server c0) \<in> {[], ''json''} \<longleftrightarrow> ?be \<noteq> ''sqlite''"
    using raw(2) known by (auto simp: backend_recorded_def)
  show ?thesis
  proof (cases "store = []")
    case True
    have "restore_backup_archive B a config_path2 dir2 False m = (?m1, None)"
      using True yaml fresh assms(12) by (simp add: restore_backup_archive_def can_write_restore_target_def a_def Let_def)
    moreover have "db_at (sqlite_path ?dir) ?M = None" if "?be = ''sqlite''"
      using some [OF that] True by (cases "db_at (sqlite_path ?dir) ?M") auto
    moreover have "map_of (mc_files ?M) (json_path ?dir) = None" if "?be \<noteq> ''sqlite''"
      using json [OF that] True assms(5) by (auto split: option.splits)
    ultimately show ?thesis using read loads [of ?m1] made(1) fresh(4,5) assms(15) by (intro exI [of _ a] exI [of _ ?m1]) auto
  next
    case False
    show ?thesis
    proof (cases "?be = ''sqlite''")
      case True
      then obtain db where db: "db_at (sqlite_path ?dir) ?M = Some db" using none False by (cases "db_at (sqlite_path ?dir) ?M") auto
      obtain rows db' where r: "le_rows ?L store = Rows rows"
        "import_json_to_sqlite (\<lambda>_. Answered) (le_go ?L) quiet_os False (Rows rows) None = (Some db', Inr (length rows))"
        "tables_match (le_go ?L) db'" "raw_view db' = raw_view db" using some [OF True db] by blast
      have "restore_backup_archive B a config_path2 dir2 False m = (set_db (sqlite_path dir2) (Some db') ?m1, None)"
        using False True yaml fresh assms(8,9,12) r(1,2) be
        by (simp add: restore_backup_archive_def can_write_restore_target_def a_def Let_def)
      with read loads [of "set_db (sqlite_path dir2) (Some db') ?m1"] made(1) True db r(3,4) show ?thesis
        by (intro exI [of _ a] exI [of _ "set_db (sqlite_path dir2) (Some db') ?m1"]) auto
    next
      case json_store: False
      then have "sv_store_backend (c_server c0) = [] \<or> sv_store_backend (c_server c0) = ''json''" using be(2) by auto
      moreover have "write_file_atomic (be_target B) (json_path dir2) store False ?m1 = (set_file (json_path dir2) store ?m1, None)"
        by (rule new [OF fresh(4)])
      ultimately have "restore_backup_archive B a config_path2 dir2 False m = (set_file (json_path dir2) store ?m1, None)"
        using False yaml fresh assms(12) by (auto simp: restore_backup_archive_def can_write_restore_target_def a_def Let_def)
      moreover have "map_of (mc_files ?M) (json_path ?dir) = Some store" using json [OF json_store] False by (auto split: option.splits)
      ultimately show ?thesis
        using read loads [of "set_file (json_path dir2) store ?m1"] made(1) json_store assms(16)
        by (intro exI [of _ a] exI [of _ "set_file (json_path dir2) store ?m1"]) auto
    qed
  qed
qed

section \<open>Observations\<close>

text \<open>An encrypted backup cannot be read back: it is written as a gzip stream around the encryption, while
  the reader looks for the encryption outside and the gzip stream within.\<close>

lemma encrypted_backup_unreadable:
  assumes "create_backup B config_path dir backend out passphrase h = (h', None)" "passphrase \<noteq> []"
  shows "\<exists>e. read_backup_archive B' out h' = Inl e"
proof -
  obtain es where "map_of (ho_archives h') out = Some (sealed passphrase (Tar es None))" by (rule created [OF assms(1)])
  then show ?thesis
    using assms(2)
    by (simp add: read_backup_archive_def sealed_def looks_encrypted_def gunzip_def and_read_def read_backup_from_reader_def
        split: option.split)
qed

text \<open>A backup that fails because the store cannot be read leaves an archive without it, which
  verifies.\<close>

lemma failed_backup_verifies:
  assumes "backup_store_json B dir backend (ho_machine h) = Inl e" "map_of (mc_files (ho_machine h)) config_path = Some raw"
    and "raw \<noteq> []" "lp_unmarshal (le_load (be_local B)) raw = Some c" "\<forall>kvs. be_map B (be_map_text B kvs) = Some kvs"
    and "be_open B out = None" "be_read B config_path = None" "\<forall>n. be_write B n = None" "be_close B = None"
  shows "\<exists>h' a. create_backup B config_path dir backend out [] h = (h', Some e)
    \<and> read_backup_archive B out h' = Inr a \<and> ba_store a = []"
  using assms
  by (simp add: create_backup_def manifest_entry_def add_file_def store_entry_def set_archive_def sealed_def update_conv'
      read_backup_archive_def looks_encrypted_def gunzip_def and_read_def read_backup_from_reader_def read_entry_def
      entry_names_def no_backup_def Let_def)

text \<open>The restored file names the backend, not the environment the server ran in: where the file leaves
  it out, the rows of a SQLite store end up in a JSON file.\<close>

lemma restored_backend_from_file:
  assumes "restore_backup_archive B a config_path dir force m = (m', None)" "sv_store_backend (c_server (ba_config a)) = []"
  shows "mc_dbs m' = mc_dbs m \<and> (ba_store a \<noteq> [] \<longrightarrow> map_of (mc_files m') (json_path dir) = Some (ba_store a))"
  using assms
  by (auto simp: restore_backup_archive_def Let_def set_file_def update_conv' dest!: write_file_cases
      split: if_splits prod.splits option.splits)

section \<open>A concrete backup\<close>

definition sqlite_home :: config where
  "sqlite_home = settled_home\<lparr>c_server := (c_server settled_home)\<lparr>sv_store_backend := ''sqlite''\<rparr>\<rparr>"

definition new_rows :: "(string, json) alist" where
  "new_rows = the_default [] (fst (export_sqlite_to_json (\<lambda>_. Answered) ascii_lib None (\<lambda>_. None) False (Some new_db) None))"

definition sqlite_backup :: backup_env where
  "sqlite_backup =
     \<lparr>be_local = plain_local\<lparr>le_load := settled_load\<lparr>lp_unmarshal := \<lambda>raw. if raw = ''home'' then Some sqlite_home else None\<rparr>,
         le_rows := \<lambda>_. Rows new_rows\<rparr>,
      be_now = [], be_stamp = [], be_version = [], be_map_text = (\<lambda>_. ''manifest''), be_map = (\<lambda>_. Some [(''store'', ''sqlite'')]),
      be_valid = (\<lambda>_. True), be_passphrase = Inl ''EOF'', be_open = (\<lambda>_. None), be_recipient = None, be_read = (\<lambda>_. None),
      be_temp_dir = None, be_write = (\<lambda>_. None), be_close = None, be_target = (\<lambda>_ _. None)\<rparr>"

definition sqlite_host :: host where
  "sqlite_host = \<lparr>ho_machine = \<lparr>mc_files = [(''sis.yaml'', ''home'')], mc_dbs = [(''data/sis.db'', new_db)]\<rparr>, ho_archives = []\<rparr>"

lemma sqlite_backup_simps [simp]:
  "le_load (be_local sqlite_backup) = settled_load\<lparr>lp_unmarshal := \<lambda>raw. if raw = ''home'' then Some sqlite_home else None\<rparr>"
  "le_go (be_local sqlite_backup) = ascii_lib" "le_sql (be_local sqlite_backup) = (\<lambda>_. Answered)"
  "le_transfer (be_local sqlite_backup) = quiet_os" "le_export (be_local sqlite_backup) = (\<lambda>_. None)"
  "le_opened (be_local sqlite_backup) = None" "le_stat (be_local sqlite_backup) = (\<lambda>_. None)"
  "le_rows (be_local sqlite_backup) = (\<lambda>_. Rows new_rows)" "le_text (be_local sqlite_backup) = (\<lambda>_. ''rows'')"
  "be_open sqlite_backup = (\<lambda>_. None)" "be_read sqlite_backup = (\<lambda>_. None)" "be_write sqlite_backup = (\<lambda>_. None)"
  "be_close sqlite_backup = None" "be_temp_dir sqlite_backup = None" "be_target sqlite_backup = (\<lambda>_ _. None)"
  "be_valid sqlite_backup = (\<lambda>_. True)" "be_map sqlite_backup = (\<lambda>_. Some [(''store'', ''sqlite'')])"
  "be_map_text sqlite_backup = (\<lambda>_. ''manifest'')"
  by (simp_all add: sqlite_backup_def plain_local_def)

lemma server_defaults:
  "apply_defaults (c\<lparr>c_server := s\<rparr>) = (apply_defaults c)\<lparr>c_server := default_server s\<rparr>"
  "backend \<noteq> [] \<Longrightarrow> default_server (s\<lparr>sv_store_backend := backend\<rparr>) = (default_server s)\<lparr>sv_store_backend := backend\<rparr>"
  "c_server (apply_defaults c) = default_server (c_server c)"
proof -
  show "apply_defaults (c\<lparr>c_server := s\<rparr>) = (apply_defaults c)\<lparr>c_server := default_server s\<rparr>"
    by (cases c) (simp add: apply_defaults_def Let_def)
  show "backend \<noteq> [] \<Longrightarrow> default_server (s\<lparr>sv_store_backend := backend\<rparr>) = (default_server s)\<lparr>sv_store_backend := backend\<rparr>"
    by (cases s) (simp add: default_server_def or_string_def Let_def)
  show "c_server (apply_defaults c) = default_server (c_server c)" by (simp add: apply_defaults_def Let_def)
qed

lemma sqlite_home_loads: "load (le_load (be_local sqlite_backup)) ''sis.yaml'' (mc_files (ho_machine sqlite_host)) = Inr sqlite_home"
proof -
  have env: "apply_env_overrides E c = c" if "lp_getenv E = (\<lambda>_. [])" for E c
    using that
    by (simp add: apply_env_overrides_def override_server_def set_string_def set_int_def set_bool_def set_duration_def Let_def)
  have home: "apply_defaults settled_home = settled_home" using home_settled(1) by (simp add: env)
  then have "c_server (apply_defaults settled_home) = c_server settled_home" by (rule arg_cong)
  then have "default_server (c_server settled_home) = c_server settled_home" by (simp only: server_defaults(3))
  with home have d: "apply_defaults sqlite_home = sqlite_home" by (simp add: sqlite_home_def server_defaults(1,2))
  have "validate plain_env (Some sqlite_home) = []" by code_simp
  with d env show ?thesis by (simp add: load_def sqlite_host_def settled_load_def plain_load_def Let_def)
qed

theorem backup_restores_installation_witness:
  "\<exists>h' a m' db. create_backup sqlite_backup ''sis.yaml'' ''data'' ''sqlite'' ''backup.tar.gz'' [] sqlite_host = (h', None)
    \<and> read_backup_archive sqlite_backup ''backup.tar.gz'' h' = Inr a
    \<and> restore_backup_archive sqlite_backup a ''new.yaml'' ''new'' False \<lparr>mc_files = [], mc_dbs = []\<rparr> = (m', None)
    \<and> map_of (mc_files m') ''new.yaml'' = Some ''home''
    \<and> db_at (sqlite_path ''new'') m' = Some db \<and> raw_view db = raw_view new_db"
proof -
  let ?B = "sqlite_backup" and ?h = sqlite_host
  have home: "sv_data_dir (c_server sqlite_home) = ''data''" "sv_store_backend (c_server sqlite_home) = ''sqlite''"
    "json_path ''data'' = ''data/sis.db.json''" "sqlite_path ''data'' = ''data/sis.db''" "sqlite_path ''new'' = ''new/sis.db''"
    "json_path ''new'' = ''new/sis.db.json''"
    by code_simp+
  have version: "raw_view new_db version_key = Some (JNum 7)" by code_simp
  have "valid_utf8 version_key" by code_simp
  then have keys: "\<forall>key. raw_view new_db key \<noteq> None \<longrightarrow> key \<noteq> [] \<and> valid_utf8 key"
    by (auto simp: raw_view_def new_db_def version_key_def split: if_split_asm)
  obtain rows n where rows: "export_sqlite_to_json (\<lambda>_. Answered) ascii_lib None (\<lambda>_. None) False (Some new_db) None = (Some rows, Inr n)"
    using exported_imports [OF new_db_match version keys, of ascii_lib] by blast
  then have new_rows: "new_rows = rows" by (simp add: new_rows_def the_default_def)
  obtain h' where made: "create_backup ?B ''sis.yaml'' ''data'' ''sqlite'' ''backup.tar.gz'' [] ?h = (h', None)"
    using rows home
    by (simp add: create_backup_def manifest_entry_def add_file_def store_entry_def backup_store_json_def db_at_def
        sqlite_host_def Let_def)
  have "\<exists>a m'. read_backup_archive ?B ''backup.tar.gz'' h' = Inr a
    \<and> restore_backup_archive ?B a ''new.yaml'' ''new'' False \<lparr>mc_files = [], mc_dbs = []\<rparr> = (m', None)
    \<and> map_of (mc_files m') ''new.yaml'' = map_of (mc_files (ho_machine ?h)) ''sis.yaml''
    \<and> load (le_load (be_local ?B)) ''new.yaml'' (mc_files m') = Inr sqlite_home
    \<and> (sv_store_backend (c_server sqlite_home) \<noteq> ''sqlite'' \<longrightarrow>
        map_of (mc_files m') (json_path ''new'') = map_of (mc_files (ho_machine ?h)) (json_path (sv_data_dir (c_server sqlite_home))))
    \<and> (sv_store_backend (c_server sqlite_home) = ''sqlite'' \<longrightarrow>
        rel_option (\<lambda>db db'. tables_match (le_go (be_local ?B)) db' \<and> raw_view db' = raw_view db)
          (db_at (sqlite_path (sv_data_dir (c_server sqlite_home))) (ho_machine ?h)) (db_at (sqlite_path ''new'') m'))"
  proof (rule backup_restores_installation [OF sqlite_home_loads])
    show "create_backup ?B ''sis.yaml'' (sv_data_dir (c_server sqlite_home)) (sv_store_backend (c_server sqlite_home))
        ''backup.tar.gz'' [] ?h = (h', None)" using made home by simp
  qed (use version keys new_db_match rows new_rows home in
      \<open>auto simp: backend_recorded_def sqlite_host_def db_at_def split: if_splits\<close>)
  then show ?thesis
    using made home by (auto simp: sqlite_host_def db_at_def option_rel_Some1)
qed

theorem restore_overwrites_nothing_witness:
  "let a = \<lparr>ba_manifest = [(''store'', ''sqlite'')], ba_config = sqlite_home, ba_yaml = ''other'', ba_store = []\<rparr> in
   map_of (mc_files (fst (restore_backup_archive sqlite_backup a ''sis.yaml'' ''data'' False (ho_machine sqlite_host)))) ''sis.yaml''
     = Some ''home''"
proof -
  have home: "map_of (mc_files (ho_machine sqlite_host)) ''sis.yaml'' = Some ''home''" by (simp add: sqlite_host_def)
  show ?thesis
    unfolding Let_def
    by (rule restore_overwrites_nothing [OF prod.collapse [symmetric], THEN conjunct1, rule_format, OF home])
qed

end
