(* ===== verification/Serve.thy ===== *)
theory Serve
  imports Api_Routes Stats_Aggregator Dns_Server
begin

text \<open>
  Starting the gateway: \<open>runServe\<close> of \<open>cmd/sis/main.go\<close> with what it does to the store and the policy
  engine (\<open>seedConfigClients\<close>, \<open>loadCustomPolicy\<close>, \<open>appendRuntimeConfigHistory\<close>), the construction of the
  parts and their shared state, the reload on a signal, log rotation on a signal, the purge of
  sessions, and the end.

  The parts share the holder, the store, the cache, the engine, the pool, the query log and the
  counters: that is the pipeline of the API state.  The blocklist syncer works on that engine.  The
  tracer and the process log are not modelled beyond the error of setting the tracer up; the timers
  of the goroutines are the moments their operations are called.
\<close>

section \<open>Environment\<close>

record 's serve_env =
  vn_api :: "'s api_env"
  vn_seed_now :: gotime
  vn_tracer :: "string option"
  vn_open_store :: "string \<Rightarrow> string \<Rightarrow> string + 's"   \<comment> \<open>backend and directory\<close>
  vn_close_store :: "'s \<Rightarrow> 's"            \<comment> \<open>its error is dropped\<close>
  vn_store_text :: "store_error \<Rightarrow> string"
  vn_load_text :: "load_error \<Rightarrow> string"
  vn_start :: start_env
  vn_lists :: cache_dir

section \<open>The store at the start\<close>

text \<open>The record of a configured client, from the one in the store where there is one.\<close>

definition seeded_client :: "gotime \<Rightarrow> client_config \<Rightarrow> client option \<Rightarrow> client" where
  "seeded_client now k found =
     (let c = (case found of
            Some c \<Rightarrow> c
          | None \<Rightarrow> \<lparr>cl_key = kc_key k, cl_type = kc_type k, cl_name = [], cl_group = [], cl_first_seen = now,
               cl_last_seen = now, cl_last_ip = [], cl_hidden = False\<rparr>);
          c = (if kc_type k \<noteq> [] then c\<lparr>cl_type := kc_type k\<rparr> else c);
          c = (if cl_type c = [] then c\<lparr>cl_type := ''ip''\<rparr> else c);
          c = c\<lparr>cl_name := kc_name k\<rparr>;
          c = (if kc_group k \<noteq> [] then c\<lparr>cl_group := kc_group k\<rparr> else c);
          c = (if cl_group c = [] then c\<lparr>cl_group := ''default''\<rparr> else c)
      in c\<lparr>cl_hidden := kc_hidden k\<rparr>)"

fun seed_clients :: "'s kvops \<Rightarrow> golib \<Rightarrow> gotime \<Rightarrow> client_config list \<Rightarrow> 's \<Rightarrow> 's \<times> store_error option" where
  "seed_clients K G now [] st = (st, None)"
| "seed_clients K G now (k # ks) st =
     (if kc_key k = [] then seed_clients K G now ks st
      else
        (case client_get K G (kc_key k) st of
           Inl e \<Rightarrow>
             if e \<noteq> Not_Found then (st, Some e)
             else (case client_upsert K G (Some (seeded_client now k None)) st of
                     (st, Some e) \<Rightarrow> (st, Some e)
                   | (st, None) \<Rightarrow> seed_clients K G now ks st)
         | Inr c \<Rightarrow>
             (case client_upsert K G (Some (seeded_client now k (Some c))) st of
                (st, Some e) \<Rightarrow> (st, Some e)
              | (st, None) \<Rightarrow> seed_clients K G now ks st)))"

definition seed_config_clients :: "'s kvops \<Rightarrow> golib \<Rightarrow> gotime \<Rightarrow> config option \<Rightarrow> 's \<Rightarrow> 's \<times> store_error option" where
  "seed_config_clients K G now c st = (case c of None \<Rightarrow> (st, None) | Some c \<Rightarrow> seed_clients K G now (c_clients c) st)"

definition load_custom_policy :: "'s kvops \<Rightarrow> golib \<Rightarrow> 's \<Rightarrow> policy_engine \<Rightarrow> policy_engine" where
  "load_custom_policy K G st e =
     fold (\<lambda>d e. fst (add_custom_allow G d e)) (custom_list K ''custom-allow'' st)
       (fold (\<lambda>d e. fst (add_custom_block G d e)) (custom_list K ''custom'' st) e)"

section \<open>The parts\<close>

record 's gateway =
  gw_api :: "'s api"
  gw_listeners :: listeners
  gw_sockets :: sockets
  gw_syncer :: syncer

text \<open>\<open>NewWithDeps\<close> with every dependency given.\<close>

definition new_api :: "'s pipeline \<Rightarrow> (audit_log \<times> log_dir) option \<Rightarrow> string \<Rightarrow> files \<Rightarrow> 's api" where
  "new_api p audit path fs =
     \<lparr>ap_has_cfg = True, ap_has_store = True, ap_has_cache = True, ap_has_stats = True, ap_has_pipeline = True,
      ap_pipe = p, ap_audit = audit, ap_config_path = path, ap_files = fs,
      ap_login_limiter = Some (new_window_limiter 5 minute), ap_api_limiter = Some (new_window_limiter 0 minute)\<rparr>"

definition new_parts :: "golib \<Rightarrow> config \<Rightarrow> policy_engine \<Rightarrow> query_log \<times> log_dir \<Rightarrow> 's \<Rightarrow> 's pipeline" where
  "new_parts G c e q st =
     (let d = sv_dns (c_server c) in
      new_pipeline (Some c) (Some (new_cache (api_cache_options c))) (Some e) (Some (new_pool (c_upstreams c))) (Some q)
        (Some new_counters) (Some (new_client_id []))
        (new_rate_limiter_max (ds_rate_limit_qps d) (ds_rate_limit_burst d) (ds_rate_limit_max_buckets d)) st)"

text \<open>The salt is made where it is missing, and saved.\<close>

definition salted_config :: "'s serve_env \<Rightarrow> string \<Rightarrow> config \<Rightarrow> files \<Rightarrow> files \<times> (string + config)" where
  "salted_config V path c fs =
     (let N = vn_api V in
      case ensure_log_salt (an_log_salt N) (Some c) of
        (_, Inl e) \<Rightarrow> (fs, Inl e)
      | (None, Inr _) \<Rightarrow> (fs, Inr c)
      | (Some c, Inr changed) \<Rightarrow>
          if \<not> changed then (fs, Inr c)
          else (case save (an_load N) (an_save N) path c fs of
                  (fs, Some e) \<Rightarrow> (fs, Inl (vn_load_text V e))
                | (fs, None) \<Rightarrow> (fs, Inr c)))"

text \<open>The store, its clients and the logs: the store so far, and the parts opened on it or the error.\<close>

definition open_parts ::
  "'s serve_env \<Rightarrow> config \<Rightarrow> log_dir \<Rightarrow> log_dir \<Rightarrow> 's option \<times> (string + 's pipeline \<times> audit_log \<times> log_dir)" where
  "open_parts V c query_dir audit_dir =
     (let N = vn_api V; K = an_kv N; G = an_go N in
      case vn_open_store V (sv_store_backend (c_server c)) (sv_data_dir (c_server c)) of
        Inl e \<Rightarrow> (None, Inl e)
      | Inr st \<Rightarrow>
          (case seed_config_clients K G (vn_seed_now V) (Some c) st of
             (st, Some e) \<Rightarrow> (Some st, Inl (vn_store_text V e))
           | (st, None) \<Rightarrow>
               (Some st,
                case open_query (an_query_io N) (an_log_salt N) (Some c) query_dir of
                  (_, Inl e) \<Rightarrow> Inl e
                | (query_dir, Inr q) \<Rightarrow>
                    (case open_audit (an_audit_io N) (Some c) audit_dir of
                       (_, Inl e) \<Rightarrow> Inl e
                     | (audit_dir, Inr a) \<Rightarrow>
                         (case new_engine G (Some c) of
                            Inl e \<Rightarrow> Inl (an_policy_text N e)
                          | Inr e \<Rightarrow>
                              Inr (new_parts G c (load_custom_policy K G st e) (q, query_dir) st, a, audit_dir))))))"

definition blocklist_dir :: "'s serve_env \<Rightarrow> config \<Rightarrow> cache_dir" where
  "blocklist_dir V c = (vn_lists V)\<lparr>cd_dir := sv_data_dir (c_server c) @ ''/blocklists''\<rparr>"

text \<open>\<open>runServe\<close> up to the point where it serves: the files, the store, and the running gateway.  A start
  that fails closes the store it has opened.\<close>

definition serve ::
  "'s serve_env \<Rightarrow> string \<Rightarrow> files \<Rightarrow> log_dir \<Rightarrow> log_dir \<Rightarrow> sockets \<Rightarrow> (files \<times> 's option \<times> sockets) \<times> (string + 's gateway)" where
  "serve V path fs query_dir audit_dir socks =
     (case load (an_load (vn_api V)) path fs of
        Inl e \<Rightarrow> ((fs, None, socks), Inl (vn_load_text V e))
      | Inr c \<Rightarrow>
          (case salted_config V path c fs of
             (fs, Inl e) \<Rightarrow> ((fs, None, socks), Inl e)
           | (fs, Inr c) \<Rightarrow>
               if vn_tracer V \<noteq> None then ((fs, None, socks), Inl ''failed to initialize OpenTelemetry'')
               else
                 (case open_parts V c query_dir audit_dir of
                    (st, Inl e) \<Rightarrow> ((fs, map_option (vn_close_store V) st, socks), Inl e)
                  | (st, Inr (p, audit)) \<Rightarrow>
                      (case start_dns (vn_start V) (new_dns_server (Some c) True, socks) of
                         ((_, socks), Some e) \<Rightarrow> ((fs, map_option (vn_close_store V) st, socks), Inl e)
                       | ((l, socks), None) \<Rightarrow>
                           ((fs, st, socks),
                            Inr \<lparr>gw_api = new_api p (Some audit) path fs, gw_listeners = l, gw_sockets = socks,
                                 gw_syncer = new_syncer (the (pp_policy p)) (blocklist_dir V c)\<rparr>)))))"

section \<open>Signals and the end\<close>

text \<open>
  A reload by signal runs three callbacks: the salt, which changes the configuration the others see,
  the policy engine, and the rest.  The API state holds the configuration of the holder, which is
  replaced last.
\<close>

definition policy_callback :: "'s serve_env \<Rightarrow> 's api reload_callback" where
  "policy_callback V old c s = (case reload_policy (vn_api V) c s of (s, e) \<Rightarrow> (s, map_option fst e))"

definition seed_callback :: "'s serve_env \<Rightarrow> 's api reload_callback" where
  "seed_callback V old c s =
     (case seed_config_clients (an_kv (vn_api V)) (an_go (vn_api V)) (vn_seed_now V) (Some c) (api_store s) of
        (st, e) \<Rightarrow> (set_store st s, map_option (vn_store_text V) e))"

definition logs_callback :: "'s serve_env \<Rightarrow> 's api reload_callback" where
  "logs_callback V old c s = (case reopen_logs (vn_api V) c s of (s, e) \<Rightarrow> (s, map_option fst e))"

text \<open>The pool, the cache and the limits cannot fail.\<close>

definition retuned :: "config \<Rightarrow> 's api \<Rightarrow> 's api" where
  "retuned c s =
     s\<lparr>ap_pipe := pipeline_reconfigure (Some c)
       ((ap_pipe s)\<lparr>pp_upstream := map_option (pool_replace (c_upstreams c)) (pp_upstream (ap_pipe s)),
          pp_cache := the_default (pp_cache (ap_pipe s)) (cache_reconfigure (api_cache_options c) (pp_cache (ap_pipe s)))\<rparr>)\<rparr>"

definition append_runtime_config_history :: "'s serve_env \<Rightarrow> config option \<Rightarrow> 's \<Rightarrow> 's \<times> string option" where
  "append_runtime_config_history V c st =
     (case c of None \<Rightarrow> (st, None) | Some c \<Rightarrow> append_config_history (vn_api V) c st)"

definition tune_callback :: "'s serve_env \<Rightarrow> 's api reload_callback" where
  "tune_callback V old c s =
     (let s = retuned c s in
      case append_runtime_config_history V (Some c) (api_store s) of (st, e) \<Rightarrow> (set_store st s, e))"

definition reload_callbacks :: "'s serve_env \<Rightarrow> 's api reload_callback list" where
  "reload_callbacks V = [policy_callback V, seed_callback V, logs_callback V, tune_callback V]"

definition reload_running :: "'s serve_env \<Rightarrow> 's gateway \<Rightarrow> 's gateway \<times> string option" where
  "reload_running V r =
     (let s = gw_api r in
      case load (an_load (vn_api V)) (ap_config_path s) (ap_files s) of
        Inl e \<Rightarrow> (r, Some (vn_load_text V e))
      | Inr c \<Rightarrow>
          (case salted_config V (ap_config_path s) c (ap_files s) of
             (fs, Inl e) \<Rightarrow> (r\<lparr>gw_api := s\<lparr>ap_files := fs\<rparr>\<rparr>, Some e)
           | (fs, Inr c) \<Rightarrow>
               (case run_callbacks (api_config s) c (reload_callbacks V) (s\<lparr>ap_files := fs\<rparr>) of
                  (s, Some e) \<Rightarrow> (r\<lparr>gw_api := s\<rparr>, Some e)
                | (s, None) \<Rightarrow> (r\<lparr>gw_api := replace_config c s\<rparr>, None))))"

text \<open>SIGUSR1 rotates both logs, errors or not.\<close>

definition rotate_signal :: "log_io \<Rightarrow> log_io \<Rightarrow> 's gateway \<Rightarrow> 's gateway" where
  "rotate_signal qio aio r =
     (let s = gw_api r in
      r\<lparr>gw_api := s\<lparr>ap_pipe := (ap_pipe s)\<lparr>pp_log := map_option (\<lambda>q. fst (query_rotate qio q)) (pp_log (ap_pipe s))\<rparr>,
         ap_audit := map_option (\<lambda>a. fst (audit_rotate aio a)) (ap_audit s)\<rparr>\<rparr>)"

text \<open>One tick of \<open>cleanupSessions\<close>.\<close>

definition cleanup_sessions :: "'s kvops \<Rightarrow> golib \<Rightarrow> gotime \<Rightarrow> 's gateway \<Rightarrow> 's gateway" where
  "cleanup_sessions K G now r =
     (let s = gw_api r in r\<lparr>gw_api := set_store (fst (delete_expired K G now (api_store s))) s\<rparr>)"

text \<open>The listeners stop first; the logs and the store are closed on the way out.\<close>

definition stop_serving :: "'s serve_env \<Rightarrow> log_io \<Rightarrow> log_io \<Rightarrow> 's gateway \<Rightarrow> 's gateway" where
  "stop_serving V qio aio r =
     (case shutdown_begin (gw_listeners r, gw_sockets r) of
        (l, socks) \<Rightarrow>
          let s = gw_api r;
              p = (ap_pipe s)\<lparr>pp_log := map_option (\<lambda>(q, d). (fst (query_close qio q), d)) (pp_log (ap_pipe s))\<rparr>;
              s = s\<lparr>ap_pipe := p, ap_audit := map_option (\<lambda>(a, d). (fst (audit_close aio a), d)) (ap_audit s)\<rparr>
          in r\<lparr>gw_listeners := shutdown_end l, gw_sockets := socks,
               gw_api := set_store (vn_close_store V (api_store s)) s\<rparr>)"

section \<open>The runtime lists\<close>

lemma load_custom_policy_list:
  assumes "engine_reach G e"
  shows "engine_reach G (load_custom_policy K G st e)"
    "domains_match G n (pe_custom (load_custom_policy K G st e)) \<longleftrightarrow>
       domains_match G n (pe_custom e) \<or> (\<exists>d \<in> set (custom_list K ''custom'' st). covers (labels_for G) d n)"
    "domains_match G n (pe_custom_allow (load_custom_policy K G st e)) \<longleftrightarrow>
       domains_match G n (pe_custom_allow e) \<or> (\<exists>d \<in> set (custom_list K ''custom-allow'' st). covers (labels_for G) d n)"
proof -
  let ?block = "\<lambda>d e. fst (add_custom_block G d e)" and ?allow = "\<lambda>d e. fst (add_custom_allow G d e)"
  have same: "pe_custom_allow (?block d e) = pe_custom_allow e" "pe_custom (?allow d e) = pe_custom e" for d e
    by (simp_all add: add_custom_block_def add_custom_allow_def case_prod_beta Let_def)
  have block: "engine_reach G (fold ?block ds e) \<and> pe_custom_allow (fold ?block ds e) = pe_custom_allow e
      \<and> (domains_match G n (pe_custom (fold ?block ds e)) \<longleftrightarrow>
          domains_match G n (pe_custom e) \<or> (\<exists>d \<in> set ds. covers (labels_for G) d n))"
    if "engine_reach G e" for ds e
    using that
  proof (induction ds arbitrary: e)
    case (Cons d ds)
    have "engine_reach G (?block d e)" by (rule reach_step [OF Cons.prems step_block])
    from Cons.IH [OF this] custom_match(1) [OF engine_reach_ok [OF Cons.prems], of G n d] same(1) show ?case by auto
  qed simp
  have allow: "engine_reach G (fold ?allow ds e) \<and> pe_custom (fold ?allow ds e) = pe_custom e
      \<and> (domains_match G n (pe_custom_allow (fold ?allow ds e)) \<longleftrightarrow>
          domains_match G n (pe_custom_allow e) \<or> (\<exists>d \<in> set ds. covers (labels_for G) d n))"
    if "engine_reach G e" for ds e
    using that
  proof (induction ds arbitrary: e)
    case (Cons d ds)
    have "engine_reach G (?allow d e)" by (rule reach_step [OF Cons.prems step_allow])
    from Cons.IH [OF this] custom_match(2) [OF engine_reach_ok [OF Cons.prems], of G n d] same(2) show ?case by auto
  qed simp
  let ?b = "fold ?block (custom_list K ''custom'' st) e"
  note b = block [OF assms, of "custom_list K ''custom'' st"]
  then have "engine_reach G ?b" by blast
  note a = allow [OF this, of "custom_list K ''custom-allow'' st"]
  show "engine_reach G (load_custom_policy K G st e)" using a by (simp add: load_custom_policy_def)
  show "domains_match G n (pe_custom (load_custom_policy K G st e)) \<longleftrightarrow>
       domains_match G n (pe_custom e) \<or> (\<exists>d \<in> set (custom_list K ''custom'' st). covers (labels_for G) d n)"
    "domains_match G n (pe_custom_allow (load_custom_policy K G st e)) \<longleftrightarrow>
       domains_match G n (pe_custom_allow e) \<or> (\<exists>d \<in> set (custom_list K ''custom-allow'' st). covers (labels_for G) d n)"
    using a b by (simp_all add: load_custom_policy_def)
qed

lemma new_engine_lists: "new_engine G c = Inr e \<Longrightarrow> pe_custom e = empty_domains \<and> pe_custom_allow e = empty_domains"
  by (auto simp: new_engine_def Let_def split: option.splits sum.splits)

context kv_store
begin

text \<open>Seeding writes the records of clients and nothing else.\<close>

lemma seed_clients_view:
  assumes "ok s" "seed_clients K G now ks s = (s', None)"
  shows "ok s' \<and> (\<not> prefix ''clients:'' k \<longrightarrow> view s' k = view s k)"
  using assms
proof (induction ks arbitrary: s)
  case (Cons c ks)
  show ?case
  proof (cases "kc_key c = []")
    case False
    then obtain v t where t: "client_upsert K G (Some v) s = (t, None)" "seed_clients K G now ks t = (s', None)"
      using Cons.prems(2) by (auto split: sum.splits if_splits prod.splits option.splits)
    from Cons.IH [OF client_upsert_view(1) [OF Cons.prems(1) t(1)] t(2)] client_upsert_view(2) [OF Cons.prems(1) t(1), of k]
    show ?thesis by auto
  qed (use Cons in simp)
qed simp

lemma seeded_lists:
  assumes "ok s" "seed_config_clients K G now (Some c) s = (s', None)"
  shows "ok s'" and "d \<in> set (custom_list K l s') \<longleftrightarrow> view s (''customlist:'' @ l @ '':'' @ d) \<noteq> None"
proof -
  have run: "seed_clients K G now (c_clients c) s = (s', None)" using assms(2) by (simp add: seed_config_clients_def)
  let ?k = "''customlist:'' @ l @ '':'' @ d"
  have "\<not> prefix ''clients:'' ?k" by simp
  with seed_clients_view [OF assms(1) run, of ?k] show "ok s'"
    "d \<in> set (custom_list K l s') \<longleftrightarrow> view s ?k \<noteq> None"
    using custom_list_view [of s' d l] by simp_all
qed

end

section \<open>The configuration with its salt\<close>

lemma salted_valid: "config_valid E (c\<lparr>c_privacy := (c_privacy c)\<lparr>pv_log_salt := salt\<rparr>\<rparr>) \<longleftrightarrow> config_valid E c"
proof -
  let ?c = "c\<lparr>c_privacy := (c_privacy c)\<lparr>pv_log_salt := salt\<rparr>\<rparr>"
  have "validate_misc E ?c = validate_misc E c" "validate_data_dir E ?c = validate_data_dir E c"
    by (simp_all add: validate_misc_def validate_data_dir_def Let_def)
  then show ?thesis by (simp add: config_valid_def Let_def)
qed

lemma salted_config_cases:
  assumes "salted_config V path c fs = (fs', Inr c')"
  shows "c' = c \<and> fs' = fs \<or> (\<exists>salt. c' = c\<lparr>c_privacy := (c_privacy c)\<lparr>pv_log_salt := salt\<rparr>\<rparr>
    \<and> save (an_load (vn_api V)) (an_save (vn_api V)) path c' fs = (fs', None))"
  using assms
  by (auto simp: salted_config_def ensure_log_salt_def Let_def split: if_splits option.splits prod.splits)

lemma load_valid: "load L path fs = Inr c \<Longrightarrow> config_valid (lp_val L) c"
  by (auto simp: load_Inr)

section \<open>What a start establishes\<close>

text \<open>A start that succeeds took these steps.\<close>

lemma served:
  assumes "serve V path fs query_dir audit_dir socks = ((fs', st, socks'), Inr r)"
  obtains c0 c s0 s e q a l where "load (an_load (vn_api V)) path fs = Inr c0" "salted_config V path c0 fs = (fs', Inr c)"
    and "vn_open_store V (sv_store_backend (c_server c)) (sv_data_dir (c_server c)) = Inr s0"
    and "seed_config_clients (an_kv (vn_api V)) (an_go (vn_api V)) (vn_seed_now V) (Some c) s0 = (s, None)" "st = Some s"
    and "new_engine (an_go (vn_api V)) (Some c) = Inr e"
    and "start_dns (vn_start V) (new_dns_server (Some c) True, socks) = ((l, socks'), None)"
    and "r = \<lparr>gw_api = new_api (new_parts (an_go (vn_api V)) c (load_custom_policy (an_kv (vn_api V)) (an_go (vn_api V)) s e) q s)
            (Some a) path fs', gw_listeners = l, gw_sockets = socks',
          gw_syncer = new_syncer (load_custom_policy (an_kv (vn_api V)) (an_go (vn_api V)) s e) (blocklist_dir V c)\<rparr>"
proof -
  obtain c0 where c0: "load (an_load (vn_api V)) path fs = Inr c0"
    using assms by (cases "load (an_load (vn_api V)) path fs") (auto simp: serve_def)
  obtain fs1 c where c: "salted_config V path c0 fs = (fs1, Inr c)"
    using assms c0 by (auto simp: serve_def split: prod.splits sum.splits if_splits)
  obtain st1 p a where p: "open_parts V c query_dir audit_dir = (st1, Inr (p, a))"
    using assms c0 c by (auto simp: serve_def split: prod.splits sum.splits if_splits)
  obtain l where l: "start_dns (vn_start V) (new_dns_server (Some c) True, socks) = ((l, socks'), None)"
    and eqs: "fs' = fs1" "st = st1" "r = \<lparr>gw_api = new_api p (Some a) path fs1, gw_listeners = l, gw_sockets = socks',
        gw_syncer = new_syncer (the (pp_policy p)) (blocklist_dir V c)\<rparr>"
    using assms c0 c p by (auto simp: serve_def split: prod.splits option.splits if_splits)
  obtain s0 s e q where parts: "vn_open_store V (sv_store_backend (c_server c)) (sv_data_dir (c_server c)) = Inr s0"
    "seed_config_clients (an_kv (vn_api V)) (an_go (vn_api V)) (vn_seed_now V) (Some c) s0 = (s, None)" "st1 = Some s"
    "new_engine (an_go (vn_api V)) (Some c) = Inr e"
    "p = new_parts (an_go (vn_api V)) c (load_custom_policy (an_kv (vn_api V)) (an_go (vn_api V)) s e) q s"
    using p by (auto simp: open_parts_def Let_def split: prod.splits sum.splits option.splits)
  show thesis
    by (rule that [OF c0 c [folded eqs(1)] parts(1,2) parts(3) [folded eqs(2)] parts(4) l])
      (simp add: eqs parts(5) new_parts_def new_pipeline_def Let_def)
qed

end
