(* ===== verification/Gateway_Life.thy ===== *)
theory Gateway_Life
  imports Serve
begin

text \<open>
  The life of a running gateway as a sequence of events: the queries it answers, the changes through
  its API, the signals, the passes of the blocklist syncer and the purges of sessions, in any order.
  What \<open>serve\<close> establishes, every event keeps.
\<close>

section \<open>The life of a gateway\<close>

datatype list_op = Block_Add | Block_Delete string | Allow_Add | Allow_Delete string

fun run_list_op :: "'s api_env \<Rightarrow> list_op \<Rightarrow> http_request \<Rightarrow> writer \<times> 's api \<Rightarrow> writer \<times> 's api" where
  "run_list_op N Block_Add = custom_blocklist_add N"
| "run_list_op N (Block_Delete d) = custom_blocklist_delete N d"
| "run_list_op N Allow_Add = allowlist_add N"
| "run_list_op N (Allow_Delete d) = allowlist_delete N d"

text \<open>What happens to a running gateway: a query, a change of the configuration or of a runtime list
  through the API, the two signals, a pass of the blocklist syncer, and the purge of sessions.\<close>

datatype 's gateway_event =
    Queried "'s pipe_env" "request option"
  | Changed "'s api_env" change_op http_request
  | Listed "'s api_env" list_op http_request
  | Hung_Up "'s serve_env"
  | Rotated log_io log_io
  | Synced golib "nat \<Rightarrow> fetch_io" bool gotime
  | Purged "'s kvops" golib gotime

definition gateway_sync :: "golib \<Rightarrow> (nat \<Rightarrow> fetch_io) \<Rightarrow> bool \<Rightarrow> gotime \<Rightarrow> 's gateway \<Rightarrow> 's gateway" where
  "gateway_sync G io initial now r =
     (let s = gw_api r in
      case pp_policy (ap_pipe s) of
        None \<Rightarrow> r
      | Some e \<Rightarrow>
          let y = sync_due G io (api_config s) initial now ((gw_syncer r)\<lparr>sy_engine := e\<rparr>) in
          r\<lparr>gw_syncer := y, gw_api := s\<lparr>ap_pipe := (ap_pipe s)\<lparr>pp_policy := Some (sy_engine y)\<rparr>\<rparr>\<rparr>)"

fun gateway_step :: "'s gateway_event \<Rightarrow> 's gateway \<Rightarrow> 's gateway option" where
  "gateway_step (Queried E q) r =
     map_option (\<lambda>(p, resp). r\<lparr>gw_api := (gw_api r)\<lparr>ap_pipe := p\<rparr>\<rparr>) (handle E q (ap_pipe (gw_api r)))"
| "gateway_step (Changed N op q) r = Some (r\<lparr>gw_api := snd (run_change N op q (fresh_writer, gw_api r))\<rparr>)"
| "gateway_step (Listed N op q) r = Some (r\<lparr>gw_api := snd (run_list_op N op q (fresh_writer, gw_api r))\<rparr>)"
| "gateway_step (Hung_Up V) r = Some (fst (reload_running V r))"
| "gateway_step (Rotated qio aio) r = Some (rotate_signal qio aio r)"
| "gateway_step (Synced G io initial now) r = Some (gateway_sync G io initial now r)"
| "gateway_step (Purged K G now) r = Some (cleanup_sessions K G now r)"

text \<open>Every part of the gateway validates configurations in the same environment.\<close>

fun same_validation :: "val_env \<Rightarrow> 's gateway_event \<Rightarrow> bool" where
  "same_validation E (Changed N op q) \<longleftrightarrow> lp_val (an_load N) = E"
| "same_validation E (Hung_Up V) \<longleftrightarrow> lp_val (an_load (vn_api V)) = E"
| "same_validation E _ \<longleftrightarrow> True"

lemma queried_inv:
  assumes "api_inv E s"
  shows "\<exists>p resp. handle N q (ap_pipe s) = Some (p, resp) \<and> api_inv E (s\<lparr>ap_pipe := p\<rparr>)"
proof (cases "\<exists>r req. q = Some r \<and> rq_msg r = Some req")
  case True
  then obtain r req where q: "q = Some r" "rq_msg r = Some req" by blast
  have "cache_ok (pp_cache (ap_pipe s))" using assms by (simp add: api_inv_def)
  from handle_realizes [OF this q(2), of N] obtain p resp where "handle N q (ap_pipe s) = Some (p, resp)" "cache_ok (pp_cache p)"
    "pp_config p = pp_config (ap_pipe s)" "pp_policy p = pp_policy (ap_pipe s)"
    by (auto simp: realizes_def q(1))
  with assms show ?thesis by (auto simp: api_inv_def api_config_def)
next
  case False
  then have "q = None \<or> (\<exists>r. q = Some r \<and> rq_msg r = None)" by (cases q) auto
  with assms show ?thesis by (auto simp: handle_def api_inv_def api_config_def)
qed

lemma list_op_inv: "api_inv E s \<Longrightarrow> api_inv E (snd (run_list_op N op q (w, s)))"
proof -
  have on: "api_inv E (on_policy f s)" if "api_inv E s" "\<And>e. engine_ok e \<Longrightarrow> engine_ok (f e)" for f and s :: "'a api"
    using that by (auto simp: api_inv_def api_config_def on_policy_def set_policy_def split: option.splits)
  have st: "api_inv E (set_store x s) \<longleftrightarrow> api_inv E s" for x and s :: "'a api"
    by (simp add: api_inv_def api_config_def set_store_def)
  have au: "api_inv E (api_audit N a t b f s) \<longleftrightarrow> api_inv E s" for a t b f and s :: "'a api"
    by (simp add: api_inv_def api_config_def api_audit_def split: option.split)
  show "api_inv E s \<Longrightarrow> ?thesis"
    by (cases op)
      (auto simp: custom_blocklist_add_def custom_blocklist_delete_def allowlist_add_def allowlist_delete_def st au Let_def
        intro!: on custom_ok split: sum.split option.split prod.split)
qed

text \<open>What the callbacks of a reload keep.\<close>

definition reload_inv :: "config option \<Rightarrow> bool \<Rightarrow> 's api \<Rightarrow> bool" where
  "reload_inv c has s \<longleftrightarrow> api_config s = c \<and> ap_has_cfg s = has \<and> cache_ok (pp_cache (ap_pipe s))
     \<and> (\<forall>e. pp_policy (ap_pipe s) = Some e \<longrightarrow> engine_ok e)"

lemma run_callbacks_keep:
  assumes "\<And>cb s. cb \<in> set cbs \<Longrightarrow> P s \<Longrightarrow> P (fst (cb old c s))" "P s"
  shows "P (fst (run_callbacks old c cbs s))"
  using assms
proof (induction cbs arbitrary: s)
  case (Cons cb cbs)
  obtain t e where cb: "cb old c s = (t, e)" by fastforce
  have "P t" using Cons.prems(1) [of cb s] Cons.prems(2) cb by simp
  with Cons.IH [of t] Cons.prems(1) cb show ?case by (cases e) simp_all
qed simp

lemma reload_callback_keeps:
  assumes "cb \<in> set (reload_callbacks V)" "reload_inv k has s"
  shows "reload_inv k has (fst (cb old c s))"
proof -
  let ?N = "vn_api V"
  have run: "reload_inv k has t" if "running t = running s" "\<forall>e. pp_policy (ap_pipe t) = Some e \<longrightarrow> engine_ok e" for t
    using that assms(2) by (simp add: reload_inv_def running_def)
  consider "cb = policy_callback V" | "cb = seed_callback V" | "cb = logs_callback V" | "cb = tune_callback V"
    using assms(1) by (auto simp: reload_callbacks_def)
  then show ?thesis
  proof cases
    case 1
    obtain t e where t: "reload_policy ?N c s = (t, e)" by fastforce
    have "engine_ok e'" if e': "pp_policy (ap_pipe t) = Some e'" for e'
    proof -
      obtain e0 where e0: "pp_policy (ap_pipe s) = Some e0"
        using t e' by (cases "pp_policy (ap_pipe s)") (auto simp: reload_policy_def)
      with t e' have "e' = fst (reload_config (an_go ?N) (Some c) e0)" by (auto simp: reload_policy_def split: prod.splits)
      with e0 assms(2) reload_config_ok show ?thesis by (auto simp: reload_inv_def)
    qed
    moreover have "running t = running s" using step_running(2) [of ?N c s] t by simp
    ultimately show ?thesis using run [of t] t by (simp add: 1 policy_callback_def)
  next
    case 2
    then show ?thesis using assms(2)
      by (auto simp: seed_callback_def reload_inv_def api_config_def set_store_def split: prod.split)
  next
    case 3
    obtain t e where t: "reopen_logs ?N c s = (t, e)" by fastforce
    have "running t = running s" using step_running(3) [of ?N c s] t by simp
    moreover have "pp_policy (ap_pipe t) = pp_policy (ap_pipe s)"
      using t by (auto simp: reopen_logs_def Let_def split: prod.splits if_splits option.splits)
    ultimately show ?thesis using run [of t] t assms(2) by (simp add: 3 logs_callback_def reload_inv_def)
  next
    case 4
    have "linked (pp_cache (ap_pipe s))" using assms(2) by (simp add: reload_inv_def cache_ok_def)
    from cache_reconfigure_refines [OF this, of "api_cache_options c"] obtain ca where
      "cache_reconfigure (api_cache_options c) (pp_cache (ap_pipe s)) = Some ca" "cache_ok ca" by blast
    then show ?thesis using assms(2)
      by (auto simp: 4 tune_callback_def retuned_def reload_inv_def api_config_def set_store_def pipeline_reconfigure_def
          the_default_def Let_def split: prod.split)
  qed
qed

lemma reload_running_inv:
  assumes "api_inv E (gw_api r)" "lp_val (an_load (vn_api V)) = E"
  shows "api_inv E (gw_api (fst (reload_running V r)))"
proof -
  let ?s = "gw_api r"
  have files: "api_inv E (?s\<lparr>ap_files := fs\<rparr>)" for fs using assms(1) by (simp add: api_inv_def api_config_def)
  show ?thesis
  proof (cases "load (an_load (vn_api V)) (ap_config_path ?s) (ap_files ?s)")
    case (Inl e)
    then show ?thesis using assms(1) by (simp add: reload_running_def)
  next
    case (Inr c0)
    obtain fs res where salt: "salted_config V (ap_config_path ?s) c0 (ap_files ?s) = (fs, res)" by fastforce
    show ?thesis
    proof (cases res)
      case (Inl e)
      with Inr salt files show ?thesis by (simp add: reload_running_def)
    next
      case c: (Inr c)
      have "config_valid E c0" using load_valid [OF Inr] assms(2) by simp
      then have valid: "config_valid E c" using salted_config_cases [OF salt [unfolded c]] by (auto simp: salted_valid)
      let ?t = "?s\<lparr>ap_files := fs\<rparr>"
      obtain t e where t: "run_callbacks (api_config ?s) c (reload_callbacks V) ?t = (t, e)" by fastforce
      have "reload_inv (api_config ?s) (ap_has_cfg ?s) ?t" using files [of fs] by (simp add: reload_inv_def api_inv_def api_config_def)
      then have "reload_inv (api_config ?s) (ap_has_cfg ?s) (fst (run_callbacks (api_config ?s) c (reload_callbacks V) ?t))"
        by (intro run_callbacks_keep [where P = "reload_inv (api_config ?s) (ap_has_cfg ?s)"] reload_callback_keeps)
      with t have inv: "reload_inv (api_config ?s) (ap_has_cfg ?s) t" by simp
      have "api_inv E t" "api_inv E (replace_config c t)"
        using inv assms(1) valid by (auto simp: reload_inv_def api_inv_def replace_config_def api_config_def)
      with Inr salt c t show ?thesis by (cases e) (simp_all add: reload_running_def)
    qed
  qed
qed

lemma gateway_step_inv:
  assumes "api_inv E (gw_api r)" "same_validation E x"
  shows "\<exists>r'. gateway_step x r = Some r' \<and> api_inv E (gw_api r')"
proof (cases x)
  case (Queried N q)
  with queried_inv [OF assms(1), of N q] show ?thesis by auto
next
  case (Changed N op q)
  with assms run_change_inv show ?thesis by simp
next
  case (Listed N op q)
  with assms list_op_inv show ?thesis by simp
next
  case (Hung_Up V)
  with assms reload_running_inv show ?thesis by simp
next
  case (Synced G io initial now)
  have "engine_ok (sy_engine (sync_due G io c initial now y))" if "engine_ok (sy_engine y)" for c y
    using sync_due_ok [of y] that by (simp add: syncer_ok_def)
  with assms(1) Synced show ?thesis
    by (auto simp: gateway_sync_def api_inv_def api_config_def Let_def split: option.splits)
qed (use assms(1) in \<open>auto simp: rotate_signal_def cleanup_sessions_def api_inv_def api_config_def set_store_def Let_def\<close>)

lemma gateway_run_inv:
  "api_inv E (gw_api r) \<Longrightarrow> \<forall>x \<in> set xs. same_validation E x \<Longrightarrow> \<exists>r'. opt_fold gateway_step xs r = Some r' \<and> api_inv E (gw_api r')"
proof (induction xs arbitrary: r)
  case (Cons x xs)
  from gateway_step_inv [OF Cons.prems(1), of x] Cons.prems(2) obtain r1 where "gateway_step x r = Some r1" "api_inv E (gw_api r1)"
    by auto
  with Cons.IH [of r1] Cons.prems(2) show ?case by auto
qed simp

section \<open>What a start establishes\<close>

lemma new_api_inv:
  assumes "config_valid E c" "engine_ok e"
  shows "api_inv E (new_api (new_parts G c e q s) audit path fs)"
proof -
  let ?p = "new_parts G c e q s"
  have "pp_config ?p = Some c" "pp_policy ?p = Some e" "pp_cache ?p = new_cache (api_cache_options c)"
    by (simp_all add: new_parts_def new_pipeline_def Let_def)
  moreover have "ap_pipe (new_api ?p audit path fs) = ?p" "ap_has_cfg (new_api ?p audit path fs)" by (simp_all add: new_api_def)
  ultimately show ?thesis using assms new_cache_ok by (simp add: api_inv_def api_config_def)
qed

lemma serve_inv:
  assumes "serve V path fs query_dir audit_dir socks = ((fs', st, socks'), Inr r)"
  shows "api_inv (lp_val (an_load (vn_api V))) (gw_api r)"
proof (rule served [OF assms])
    fix c0 c s0 s e q a l
    let ?G = "an_go (vn_api V)" and ?K = "an_kv (vn_api V)"
    assume load: "load (an_load (vn_api V)) path fs = Inr c0" and salt: "salted_config V path c0 fs = (fs', Inr c)"
      and e: "new_engine ?G (Some c) = Inr e"
      and r: "r = \<lparr>gw_api = new_api (new_parts ?G c (load_custom_policy ?K ?G s e) q s) (Some a) path fs',
        gw_listeners = l, gw_sockets = socks', gw_syncer = new_syncer (load_custom_policy ?K ?G s e) (blocklist_dir V c)\<rparr>"
    have "config_valid (lp_val (an_load (vn_api V))) c"
      using load_valid [OF load] salted_config_cases [OF salt] by (auto simp: salted_valid)
    moreover have "engine_ok (load_custom_policy ?K ?G s e)"
      by (rule engine_reach_ok [OF load_custom_policy_list(1) [OF reach_new [OF e]]])
    ultimately show "api_inv (lp_val (an_load (vn_api V))) (gw_api r)" unfolding r gateway.select_convs by (rule new_api_inv)
qed

lemma node_match_leaf: "\<not> node_match ls (Node False [])"
  by (cases ls) simp_all

text \<open>The engine of a gateway that was started: its runtime lists are those of the store it opened.\<close>

lemma serve_lists:
  assumes "serve V path fs query_dir audit_dir socks = ((fs', st, socks'), Inr r)"
  obtains e s c where "pp_policy (ap_pipe (gw_api r)) = Some e" "st = Some s" "engine_reach (an_go (vn_api V)) e"
    "cache_ok (pp_cache (ap_pipe (gw_api r)))" "api_store (gw_api r) = s" "api_config (gw_api r) = Some c"
    "sy_engine (gw_syncer r) = e"
    "\<And>n. domains_match (an_go (vn_api V)) n (pe_custom e) \<longleftrightarrow>
        (\<exists>d \<in> set (custom_list (an_kv (vn_api V)) ''custom'' s). covers (labels_for (an_go (vn_api V))) d n)"
    "\<And>n. domains_match (an_go (vn_api V)) n (pe_custom_allow e) \<longleftrightarrow>
        (\<exists>d \<in> set (custom_list (an_kv (vn_api V)) ''custom-allow'' s). covers (labels_for (an_go (vn_api V))) d n)"
    "\<exists>s0 b dir. vn_open_store V b dir = Inr s0 \<and>
       seed_config_clients (an_kv (vn_api V)) (an_go (vn_api V)) (vn_seed_now V) (Some c) s0 = (s, None)"
proof (rule served [OF assms])
  fix c0 c s0 s e q a l
  let ?G = "an_go (vn_api V)" and ?K = "an_kv (vn_api V)"
  let ?e = "load_custom_policy ?K ?G s e"
  assume st: "st = Some s" and opened: "vn_open_store V (sv_store_backend (c_server c)) (sv_data_dir (c_server c)) = Inr s0"
    and seeded: "seed_config_clients ?K ?G (vn_seed_now V) (Some c) s0 = (s, None)"
    and e: "new_engine ?G (Some c) = Inr e"
    and r: "r = \<lparr>gw_api = new_api (new_parts ?G c ?e q s) (Some a) path fs',
      gw_listeners = l, gw_sockets = socks', gw_syncer = new_syncer ?e (blocklist_dir V c)\<rparr>"
  note lists = load_custom_policy_list [OF reach_new [OF e], where K = ?K and st = s]
  have parts: "pp_policy (ap_pipe (gw_api r)) = Some ?e" "pp_cache (ap_pipe (gw_api r)) = new_cache (api_cache_options c)"
    "pp_store (ap_pipe (gw_api r)) = s" "pp_config (ap_pipe (gw_api r)) = Some c" "ap_has_cfg (gw_api r)"
    "sy_engine (gw_syncer r) = ?e"
    by (simp_all add: r new_api_def new_parts_def new_pipeline_def new_syncer_def Let_def)
  have empty: "\<not> domains_match ?G n (pe_custom e)" "\<not> domains_match ?G n (pe_custom_allow e)" for n
    using new_engine_lists [OF e] by (simp_all add: domains_match_def empty_domains_def node_match_leaf split: option.split)
  show thesis
    using parts opened seeded
    by (intro that [OF parts(1) st lists(1) _ _ _ parts(6)])
      (auto simp: lists(2,3) empty new_cache_ok api_store_def api_config_def)
qed

text \<open>C10: A start that succeeds loads the runtime lists: the engine the queries are decided by, which is the
  engine the blocklist syncer works on, blocks by its runtime list exactly the names that some
  domain on the stored runtime blocklist covers, and lets through by its runtime allowlist exactly
  those that some domain on the stored one covers.\<close>

theorem start_loads_lists:
  assumes "serve V path fs query_dir audit_dir socks = ((fs', st, socks'), Inr r)"
  shows "\<exists>e. pp_policy (ap_pipe (gw_api r)) = Some e \<and> sy_engine (gw_syncer r) = e \<and> engine_reach (an_go (vn_api V)) e
    \<and> st = Some (api_store (gw_api r))
    \<and> (\<forall>n. domains_match (an_go (vn_api V)) n (pe_custom e) \<longleftrightarrow>
        (\<exists>d \<in> set (custom_list (an_kv (vn_api V)) ''custom'' (api_store (gw_api r))). covers (labels_for (an_go (vn_api V))) d n))
    \<and> (\<forall>n. domains_match (an_go (vn_api V)) n (pe_custom_allow e) \<longleftrightarrow>
        (\<exists>d \<in> set (custom_list (an_kv (vn_api V)) ''custom-allow'' (api_store (gw_api r))). covers (labels_for (an_go (vn_api V))) d n))"
  by (rule serve_lists [OF assms]) blast


text \<open>A gateway at home, on a disk with this store file.\<close>

definition home_serve :: "(string, json) alist option option \<Rightarrow> file_store serve_env" where
  "home_serve disk = \<lparr>vn_api = home_env, vn_seed_now = 1, vn_tracer = None,
     vn_open_store = (\<lambda>_ _. case open_file_store (\<lambda>_. Saved) disk of Inl _ \<Rightarrow> Inl ''store'' | Inr s \<Rightarrow> Inr s),
     vn_close_store = (\<lambda>s. fst (file_close (\<lambda>_. Saved) s)), vn_store_text = (\<lambda>_. ''store''), vn_load_text = (\<lambda>_. ''load''), vn_start = bind_env [], vn_lists = \<lparr>cd_dir = [], cd_files = [], cd_metas = []\<rparr>\<rparr>"

text \<open>The store file of a home with \<open>b.org\<close> on its runtime blocklist.\<close>

definition home_disk :: "(string, json) alist option option" where
  "home_disk = Some (Some [(''customlist:custom:b.org'', JBool True)])"

lemma home_started:
  "case snd (serve (home_serve home_disk) ''sis.yaml'' [(''sis.yaml'', ''home'')] [] [] []) of Inl _ \<Rightarrow> False
   | Inr r \<Rightarrow> (case pp_policy (ap_pipe (gw_api r)) of None \<Rightarrow> False
      | Some e \<Rightarrow> domains_match ascii_lib ''x.b.org.'' (pe_custom e)
          \<and> (case pe_groups e of [(i, g)] \<Rightarrow> i = ''default'' \<and> \<not> domains_match ascii_lib ''x.b.org.'' (pg_allow g) | _ \<Rightarrow> False)
          \<and> \<not> domains_match ascii_lib ''x.b.org.'' (pe_allowlist e) \<and> \<not> domains_match ascii_lib ''x.b.org.'' (pe_custom_allow e))"
  by code_simp

lemma home_serves:
  obtains fs' st socks' r e where "serve (home_serve home_disk) ''sis.yaml'' [(''sis.yaml'', ''home'')] [] [] [] = ((fs', st, socks'), Inr r)"
    and "pp_policy (ap_pipe (gw_api r)) = Some e" "domains_match ascii_lib ''x.b.org.'' (pe_custom e)"
    and "\<And>ident. \<exists>g. po_group (engine_for (\<lambda>_. ''default'') ident e) = Some g
        \<and> \<not> allowed ascii_lib (engine_for (\<lambda>_. ''default'') ident e) g ''x.b.org.''"
proof -
  obtain fs' st socks' res where run:
    "serve (home_serve home_disk) ''sis.yaml'' [(''sis.yaml'', ''home'')] [] [] [] = ((fs', st, socks'), res)"
    by (metis prod.collapse)
  then obtain r where r: "res = Inr r" using home_started by (cases res) simp_all
  then obtain e where e: "pp_policy (ap_pipe (gw_api r)) = Some e"
    using home_started run by (cases "pp_policy (ap_pipe (gw_api r))") simp_all
  have facts: "domains_match ascii_lib ''x.b.org.'' (pe_custom e)"
      "case pe_groups e of [(i, g)] \<Rightarrow> i = ''default'' \<and> \<not> domains_match ascii_lib ''x.b.org.'' (pg_allow g) | _ \<Rightarrow> False"
      "\<not> domains_match ascii_lib ''x.b.org.'' (pe_allowlist e)" "\<not> domains_match ascii_lib ''x.b.org.'' (pe_custom_allow e)"
    using home_started run r e by simp_all
  obtain g where g: "pe_groups e = [(''default'', g)]" "\<not> domains_match ascii_lib ''x.b.org.'' (pg_allow g)"
    using facts(2) by (cases "pe_groups e"; cases "tl (pe_groups e)") (auto split: list.splits prod.splits)
  have "\<exists>g. po_group (engine_for (\<lambda>_. ''default'') ident e) = Some g
      \<and> \<not> allowed ascii_lib (engine_for (\<lambda>_. ''default'') ident e) g ''x.b.org.''" for ident
    using g facts(3,4) by (auto simp: engine_for_def allowed_def Let_def)
  with that [OF run [unfolded r] e facts(1)] show thesis .
qed


lemma start_loads_lists_witness:
  "\<exists>r e. snd (serve (home_serve home_disk) ''sis.yaml'' [(''sis.yaml'', ''home'')] [] [] []) = Inr r
     \<and> pp_policy (ap_pipe (gw_api r)) = Some e \<and> sy_engine (gw_syncer r) = e
     \<and> (\<exists>d \<in> set (custom_list (file_ops (\<lambda>_. Saved)) ''custom'' (api_store (gw_api r))). covers (labels_for ascii_lib) d ''x.b.org.'')"
proof (rule home_serves)
  fix fs' st socks' r e0
  assume run: "serve (home_serve home_disk) ''sis.yaml'' [(''sis.yaml'', ''home'')] [] [] [] = ((fs', st, socks'), Inr r)"
    and e0: "pp_policy (ap_pipe (gw_api r)) = Some e0" "domains_match ascii_lib ''x.b.org.'' (pe_custom e0)"
  have env: "an_go (vn_api (home_serve home_disk)) = ascii_lib" "an_kv (vn_api (home_serve home_disk)) = file_ops (\<lambda>_. Saved)"
    by (simp_all add: home_serve_def home_env_def)
  from start_loads_lists [OF run] obtain e where e: "pp_policy (ap_pipe (gw_api r)) = Some e" "sy_engine (gw_syncer r) = e"
    "domains_match ascii_lib ''x.b.org.'' (pe_custom e) \<longleftrightarrow>
      (\<exists>d \<in> set (custom_list (file_ops (\<lambda>_. Saved)) ''custom'' (api_store (gw_api r))). covers (labels_for ascii_lib) d ''x.b.org.'')"
    unfolding env by blast
  with run e0 show ?thesis by (intro exI [of _ r] exI [of _ e]) simp
qed

end
