(* ===== verification/Go_Duration.thy ===== *)
theory Go_Duration
  imports Go_Float Go_Strings
begin

text \<open>
  Durations as text: \<open>time.Duration.String\<close> and \<open>time.ParseDuration\<close> of Go's standard library.  The
  fractions are computed with doubles, and the sum of the components with 64-bit words, as there.
\<close>

section \<open>Printing\<close>

text \<open>\<open>fmtFrac\<close>: the last \<open>n\<close> digits of \<open>v\<close> without trailing zeros, and what is left of \<open>v\<close>.\<close>

fun frac_loop :: "nat \<Rightarrow> nat \<Rightarrow> bool \<Rightarrow> string \<Rightarrow> bool \<times> string \<times> nat" where
  "frac_loop 0 v printing acc = (printing, acc, v)"
| "frac_loop (Suc n) v printing acc =
     (let digit = v mod 10; printing = (printing \<or> digit \<noteq> 0)
      in frac_loop n (v div 10) printing (if printing then digit_char digit # acc else acc))"

definition fmt_frac :: "nat \<Rightarrow> nat \<Rightarrow> string \<times> nat" where
  "fmt_frac prec v = (case frac_loop prec v False [] of (p, acc, v) \<Rightarrow> (if p then CHR ''.'' # acc else acc, v))"

definition micro_sign :: string where "micro_sign = [char_of (0xC2 :: nat), char_of (0xB5 :: nat)]"
definition greek_mu :: string where "greek_mu = [char_of (0xCE :: nat), char_of (0xBC :: nat)]"

definition small_duration :: "nat \<Rightarrow> string" where
  "small_duration u =
     (if u = 0 then ''0s''
      else
        let (prec, unit) = (if u < 1000 then (0, ''n'') else if u < 1000000 then (3, micro_sign) else (6, ''m''));
            (frac, v) = fmt_frac prec u
        in show_nat v @ frac @ unit @ ''s'')"

definition long_duration :: "nat \<Rightarrow> string" where
  "long_duration u =
     (let (frac, v) = fmt_frac 9 u; minutes = v div 60; hours = minutes div 60
      in (if 0 < hours then show_nat hours @ ''h'' else [])
         @ (if 0 < minutes then show_nat (minutes mod 60) @ ''m'' else [])
         @ show_nat (v mod 60) @ frac @ ''s'')"

definition duration_string :: "duration \<Rightarrow> string" where
  "duration_string d =
     (let u = nat \<bar>d\<bar> in
      (if d < 0 then ''-'' else []) @ (if u < 1000000000 then small_duration u else long_duration u))"

section \<open>Parsing\<close>

definition next_digit :: "nat \<Rightarrow> char \<Rightarrow> nat" where
  "next_digit x c = x * 10 + (byte c - 48)"

fun leading_int :: "nat \<Rightarrow> string \<Rightarrow> (nat \<times> string) option" where
  "leading_int x [] = Some (x, [])"
| "leading_int x (c # s) =
     (if \<not> is_digit c then Some (x, c # s)
      else if 2 ^ 63 div 10 < x then None
      else let x = next_digit x c in if 2 ^ 63 < x then None else leading_int x s)"

text \<open>\<open>leadingFraction\<close>: digits beyond what fits are skipped.\<close>

fun leading_fraction :: "nat \<Rightarrow> float64 \<Rightarrow> bool \<Rightarrow> string \<Rightarrow> nat \<times> float64 \<times> string" where
  "leading_fraction x scale full [] = (x, scale, [])"
| "leading_fraction x scale full (c # s) =
     (if \<not> is_digit c then (x, scale, c # s)
      else if full \<or> (2 ^ 63 - 1) div 10 < x then leading_fraction x scale True s
      else let y = next_digit x c in
        if 2 ^ 63 < y then leading_fraction x scale True s
        else leading_fraction y (f64_mul scale 10) False s)"

definition unit_map :: "(string, nat) alist" where
  "unit_map = [(''ns'', 1), (''us'', 1000), (micro_sign @ ''s'', 1000), (greek_mu @ ''s'', 1000), (''ms'', 1000000),
     (''s'', 1000000000), (''m'', 60 * 1000000000), (''h'', 3600 * 1000000000)]"

definition unit_char :: "char \<Rightarrow> bool" where
  "unit_char c \<longleftrightarrow> c \<noteq> CHR ''.'' \<and> \<not> is_digit c"

text \<open>The digits after a point: how many bytes they took, their value, scale and the rest.\<close>

definition optional_fraction :: "string \<Rightarrow> bool \<times> nat \<times> float64 \<times> string" where
  "optional_fraction s =
     (case s of
        c # t \<Rightarrow>
          if c = CHR ''.'' then (case leading_fraction 0 1 False t of (f, scale, r) \<Rightarrow> (length r \<noteq> length t, f, scale, r))
          else (False, 0, 1, s)
      | [] \<Rightarrow> (False, 0, 1, s))"

text \<open>One component: digits, a fraction, a unit.  A part in nanoseconds of more than \<open>2 ^ 63\<close> is an error.\<close>

definition parse_component :: "string \<Rightarrow> (nat \<times> string) option" where
  "parse_component s =
     (case s of [] \<Rightarrow> None | c # _ \<Rightarrow>
        if \<not> (c = CHR ''.'' \<or> is_digit c) then None
        else
          (case leading_int 0 s of
             None \<Rightarrow> None
           | Some (v, r) \<Rightarrow>
               (case optional_fraction r of
                  (post, f, scale, r') \<Rightarrow>
                    if length r = length s \<and> \<not> post then None
                    else
                      let u = takeWhile unit_char r' in
                      (case (if u = [] then None else map_of unit_map u) of
                         None \<Rightarrow> None
                       | Some unit \<Rightarrow>
                           if 2 ^ 63 div unit < v then None
                           else
                             let v = v * unit;
                                 v = (if 0 < f then v + nat \<lfloor>f64_mul (f64_of_int (int f)) (f64_div (f64_of_int (int unit)) scale)\<rfloor> else v)
                             in if 2 ^ 63 < v then None else Some (v, dropWhile unit_char r')))))"

lemma leading_int_shorter: "leading_int x s = Some (v, r) \<Longrightarrow> length r \<le> length s"
  by (induction x s rule: leading_int.induct) (auto simp: Let_def split: if_splits)

lemma leading_fraction_shorter: "leading_fraction x k full s = (v, k', r) \<Longrightarrow> length r \<le> length s"
  by (induction x k full s rule: leading_fraction.induct) (auto simp: Let_def split: if_splits)

lemma optional_fraction_shorter: "optional_fraction s = (post, f, k, r) \<Longrightarrow> length r \<le> length s"
  by (auto simp: optional_fraction_def dest: leading_fraction_shorter split: list.splits if_splits prod.splits)

lemma drop_unit_shorter: "takeWhile P s \<noteq> [] \<Longrightarrow> length (dropWhile P s) < length s"
  by (metis add.commute length_append length_greater_0_conv less_add_same_cancel1 takeWhile_dropWhile_id)

lemma parse_component_shorter: "parse_component s = Some (v, r) \<Longrightarrow> length r < length s"
proof -
  assume p: "parse_component s = Some (v, r)"
  then obtain x r1 where l: "leading_int 0 s = Some (x, r1)"
    by (auto simp: parse_component_def split: list.splits if_splits option.splits)
  obtain post f k r2 where o: "optional_fraction r1 = (post, f, k, r2)" by (cases "optional_fraction r1")
  have "takeWhile unit_char r2 \<noteq> [] \<and> r = dropWhile unit_char r2"
    using p l o by (auto simp: parse_component_def Let_def split: list.splits if_splits option.splits)
  with drop_unit_shorter [of unit_char r2] leading_int_shorter [OF l] optional_fraction_shorter [OF o] show ?thesis by simp
qed

text \<open>The components are added up in a 64-bit word.\<close>

function parse_components :: "nat \<Rightarrow> string \<Rightarrow> nat option" where
  "parse_components d s =
     (if s = [] then Some d
      else (case parse_component s of
              None \<Rightarrow> None
            | Some (v, r) \<Rightarrow>
                let d = (d + v) mod 2 ^ 64 in if 2 ^ 63 < d then None else parse_components d r))"
  by auto
termination by (relation "measure (\<lambda>(d, s). length s)") (auto dest: parse_component_shorter)

declare parse_components.simps [simp del]

definition parse_duration :: "string \<Rightarrow> duration option" where
  "parse_duration s =
     (let (neg, t) = (case s of c # r \<Rightarrow> if c = CHR ''-'' then (True, r) else if c = CHR ''+'' then (False, r) else (False, s)
                      | [] \<Rightarrow> (False, s)) in
      if t = ''0'' then Some 0
      else if t = [] then None
      else (case parse_components 0 t of
              None \<Rightarrow> None
            | Some d \<Rightarrow> if neg then Some (- int d) else if 2 ^ 63 - 1 < d then None else Some (int d)))"

section \<open>Digits\<close>

lemma digits_value_fold: "digits_value s = foldl next_digit 0 s"
  by (simp add: digits_value_def next_digit_def [abs_def])

lemma digits_from: "foldl next_digit x ds = x * 10 ^ length ds + digits_value ds"
proof (induction ds arbitrary: x)
  case (Cons c ds)
  let ?b = "byte c - 48"
  have x: "next_digit x c = x * 10 + ?b" and z: "next_digit 0 c = ?b" by (simp_all add: next_digit_def)
  have "foldl next_digit x (c # ds) = (x * 10 + ?b) * 10 ^ length ds + digits_value ds" using Cons [of "x * 10 + ?b"] by (simp only: foldl_Cons x)
  moreover have "digits_value (c # ds) = ?b * 10 ^ length ds + digits_value ds"
    using Cons [of ?b] unfolding digits_value_fold [of "c # ds"] by (simp only: foldl_Cons z)
  ultimately show ?case by (simp add: add_mult_distrib)
qed (simp add: digits_value_fold)

lemma digits_from_mono: "x \<le> foldl next_digit x ds"
  by (simp add: digits_from trans_le_add1)

lemma digits_value_below: "list_all is_digit ds \<Longrightarrow> digits_value ds < 10 ^ length ds"
proof (induction ds rule: rev_induct)
  case (snoc c ds)
  then have "byte c - 48 < 10" by (auto simp: is_digit_def)
  moreover have "digits_value (ds @ [c]) = digits_value ds * 10 + (byte c - 48)"
    by (simp add: digits_value_fold next_digit_def)
  ultimately show ?case using snoc by simp
qed (simp add: digits_value_fold)

lemma leading_int_digits:
  assumes "list_all is_digit ds" "foldl next_digit x ds \<le> 2 ^ 63" "rest = [] \<or> \<not> is_digit (hd rest)"
  shows "leading_int x (ds @ rest) = Some (foldl next_digit x ds, rest)"
  using assms
proof (induction ds arbitrary: x)
  case Nil
  then show ?case by (cases rest) simp_all
next
  case (Cons c ds)
  have "next_digit x c \<le> 2 ^ 63" using digits_from_mono [of "next_digit x c" ds] Cons.prems(2) by simp
  moreover from this have "x \<le> 2 ^ 63 div 10" by (simp add: next_digit_def)
  ultimately show ?case using Cons by simp
qed

lemma scale_exact: "k < 10 \<Longrightarrow> f64 (10 ^ k) = 10 ^ k"
proof -
  assume "k < 10"
  then have "(10 :: int) ^ k \<le> 10 ^ 9" by (intro power_increasing) auto
  then show ?thesis using f64_of_small_int [of "10 ^ k"] by simp
qed

lemma leading_fraction_digits:
  assumes "list_all is_digit ds" "x < 10 ^ k" "k + length ds < 10" "rest = [] \<or> \<not> is_digit (hd rest)"
  shows "leading_fraction x (10 ^ k) False (ds @ rest) = (foldl next_digit x ds, 10 ^ (k + length ds), rest)"
  using assms
proof (induction ds arbitrary: x k)
  case Nil
  then show ?case by (cases rest) simp_all
next
  case (Cons c ds)
  have d: "byte c - 48 < 10" using Cons.prems(1) by (auto simp: is_digit_def)
  have "(10 :: nat) ^ k \<le> 10 ^ 9" using Cons.prems(3) by (intro power_increasing) auto
  then have x: "x < 10 ^ 9" using Cons.prems(2) by simp
  have next_less: "next_digit x c < 10 ^ Suc k" using d Cons.prems(2) by (simp add: next_digit_def)
  have "f64_mul (10 ^ k) 10 = 10 ^ Suc k"
    using scale_exact [of "Suc k"] Cons.prems(3) by (simp add: f64_mul_def mult.commute)
  moreover have "next_digit x c \<le> 2 ^ 63" "\<not> (2 ^ 63 - 1) div 10 < x" using x d by (simp_all add: next_digit_def)
  ultimately show ?case using Cons.IH [OF _ next_less] Cons.prems by simp
qed

section \<open>What printing leaves\<close>

lemma digits_value_snoc: "digits_value (ds @ [c]) = digits_value ds * 10 + (byte c - 48)"
  by (simp add: digits_value_fold next_digit_def)

lemma digits_value_append: "digits_value (ds @ es) = digits_value ds * 10 ^ length es + digits_value es"
  using digits_from [of "digits_value ds" es] by (simp add: digits_value_fold)

lemma frac_loop_printing:
  "\<exists>ds. frac_loop n v True acc = (True, ds @ acc, v div 10 ^ n) \<and> length ds = n
     \<and> list_all is_digit ds \<and> digits_value ds = v mod 10 ^ n"
proof (induction n arbitrary: v acc)
  case 0
  show ?case by (simp add: digits_value_fold)
next
  case (Suc n)
  from Suc [of "v div 10" "digit_char (v mod 10) # acc"] obtain ds where
    ds: "frac_loop n (v div 10) True (digit_char (v mod 10) # acc) = (True, ds @ digit_char (v mod 10) # acc, v div 10 div 10 ^ n)"
      "length ds = n" "list_all is_digit ds" "digits_value ds = v div 10 mod 10 ^ n" by blast
  have "digits_value (ds @ [digit_char (v mod 10)]) = v mod 10 ^ Suc n"
    using ds(4) by (simp add: digits_value_snoc byte_digit_char mod_mult2_eq mult.commute)
  with ds show ?case by (intro exI [of _ "ds @ [digit_char (v mod 10)]"]) (simp add: div_mult2_eq)
qed

lemma frac_loop_quiet:
  "case frac_loop n v False [] of (p, acc, w) \<Rightarrow> w = v div 10 ^ n
     \<and> (if p then acc \<noteq> [] \<and> length acc \<le> n \<and> list_all is_digit acc \<and> digits_value acc * 10 ^ (n - length acc) = v mod 10 ^ n
        else acc = [] \<and> v mod 10 ^ n = 0)"
proof (induction n arbitrary: v)
  case (Suc n)
  show ?case
  proof (cases "v mod 10 = 0")
    case True
    obtain p acc w where r: "frac_loop n (v div 10) False [] = (p, acc, w)" by (cases "frac_loop n (v div 10) False []")
    have m: "v mod 10 ^ Suc n = 10 * (v div 10 mod 10 ^ n)" using True by (simp add: mod_mult2_eq)
    show ?thesis
    proof (cases p)
      case True
      with Suc.IH [of "v div 10"] r have acc: "length acc \<le> n" "digits_value acc * 10 ^ (n - length acc) = v div 10 mod 10 ^ n"
        by simp_all
      then have "digits_value acc * 10 ^ (Suc n - length acc) = 10 * (v div 10 mod 10 ^ n)"
        by (simp add: Suc_diff_le mult.left_commute)
      with True Suc.IH [of "v div 10"] r m \<open>v mod 10 = 0\<close> show ?thesis by (simp add: div_mult2_eq)
    next
      case False
      with Suc.IH [of "v div 10"] r m \<open>v mod 10 = 0\<close> show ?thesis by (simp add: div_mult2_eq)
    qed
  next
    case False
    obtain ds where ds: "frac_loop n (v div 10) True [digit_char (v mod 10)] = (True, ds @ [digit_char (v mod 10)], v div 10 div 10 ^ n)"
        "length ds = n" "list_all is_digit ds" "digits_value ds = v div 10 mod 10 ^ n"
      using frac_loop_printing [of n "v div 10" "[digit_char (v mod 10)]"] by blast
    have "digits_value (ds @ [digit_char (v mod 10)]) = v mod 10 ^ Suc n"
      using ds(4) by (simp add: digits_value_snoc byte_digit_char mod_mult2_eq mult.commute)
    with ds False show ?thesis by (simp add: div_mult2_eq)
  qed
qed simp

lemma fmt_frac_cases:
  obtains "fmt_frac n v = ([], v div 10 ^ n)" "v mod 10 ^ n = 0"
  | fs where "fmt_frac n v = (CHR ''.'' # fs, v div 10 ^ n)" "fs \<noteq> []" "length fs \<le> n" "list_all is_digit fs"
      "digits_value fs * 10 ^ (n - length fs) = v mod 10 ^ n"
proof -
  obtain p acc w where r: "frac_loop n v False [] = (p, acc, w)" by (cases "frac_loop n v False []")
  with frac_loop_quiet [where n = n and v = v] that show thesis by (cases p) (auto simp: fmt_frac_def)
qed

section \<open>A component reads back\<close>

lemma take_unit:
  assumes "list_all unit_char u" "rest = [] \<or> \<not> unit_char (hd rest)"
  shows "takeWhile unit_char (u @ rest) = u" "dropWhile unit_char (u @ rest) = rest"
proof -
  have "takeWhile unit_char rest = [] \<and> dropWhile unit_char rest = rest" using assms(2) by (cases rest) simp_all
  then show "takeWhile unit_char (u @ rest) = u" "dropWhile unit_char (u @ rest) = rest"
    using assms(1) by (simp_all add: list_all_iff)
qed

lemma unit_starts: "list_all unit_char u \<Longrightarrow> u \<noteq> [] \<Longrightarrow> \<not> is_digit (hd (u @ rest)) \<and> hd (u @ rest) \<noteq> CHR ''.''"
  by (cases u) (simp_all add: unit_char_def)

lemma whole_component:
  assumes "ds \<noteq> []" "list_all is_digit ds" "u \<noteq> []" "list_all unit_char u" "map_of unit_map u = Some unit" "0 < unit"
    and "rest = [] \<or> \<not> unit_char (hd rest)" "digits_value ds * unit \<le> 2 ^ 63"
  shows "parse_component (ds @ u @ rest) = Some (digits_value ds * unit, rest)"
proof -
  obtain c cs where c: "ds = c # cs" "is_digit c" using assms(1,2) by (cases ds) simp_all
  have "digits_value ds \<le> digits_value ds * unit" using assms(6) by simp
  then have "digits_value ds \<le> 2 ^ 63" using assms(8) by (rule order_trans)
  then have l: "leading_int 0 (ds @ u @ rest) = Some (digits_value ds, u @ rest)"
    using leading_int_digits [of ds 0 "u @ rest"] assms(2) unit_starts [OF assms(4,3), of rest] by (simp add: digits_value_fold)
  have o: "optional_fraction (u @ rest) = (False, 0, 1, u @ rest)"
    using unit_starts [OF assms(4,3), of rest] assms(3) by (cases u) (simp_all add: optional_fraction_def)
  have "digits_value ds \<le> 2 ^ 63 div unit" using assms(6,8) by (simp add: less_eq_div_iff_mult_less_eq)
  with l o take_unit [OF assms(4,7)] assms(3,5,8) c show ?thesis
    by (simp add: parse_component_def Let_def)
qed

lemma exact_fraction:
  assumes "f < 10 ^ k" "k \<le> n" "n < 10"
  shows "nat \<lfloor>f64_mul (f64_of_int (int f)) (f64_div (f64_of_int (int (10 ^ n))) (10 ^ k))\<rfloor> = f * 10 ^ (n - k)"
proof -
  have "(10 :: nat) ^ k \<le> 10 ^ 9" using assms by (intro power_increasing) auto
  then have "f < 10 ^ 9" using assms(1) by simp
  then have "f64_of_int (int f) = of_nat f" using f64_of_small_int [of "int f"] by (simp add: f64_of_int_def)
  moreover have "f64_of_int (int (10 ^ n)) = 10 ^ n" using scale_exact [OF assms(3)] by (simp add: f64_of_int_def)
  moreover have "f64_div (10 ^ n) (10 ^ k) = 10 ^ (n - k)"
    using scale_exact [of "n - k"] assms(2,3) by (simp add: f64_div_def power_diff)
  moreover have "f64_mul (of_nat f) (10 ^ (n - k)) = of_nat (f * 10 ^ (n - k))"
  proof -
    have "f * 10 ^ (n - k) < 10 ^ k * 10 ^ (n - k)" using assms(1) by simp
    also have "\<dots> = 10 ^ n" using assms(2) by (simp flip: power_add)
    also have "\<dots> \<le> (10 :: nat) ^ 9" using assms(3) by (intro power_increasing) auto
    finally have "int (f * 10 ^ (n - k)) < int (10 ^ 9)" by (simp only: of_nat_less_iff)
    also have "\<dots> < 2 ^ 53" by simp
    finally have "int (f * 10 ^ (n - k)) < 2 ^ 53" .
    from f64_of_small_int [OF _ this] show ?thesis by (simp add: f64_mul_def)
  qed
  ultimately show ?thesis by (simp del: of_nat_mult)
qed

lemma fraction_component:
  assumes "ds \<noteq> []" "list_all is_digit ds" "u \<noteq> []" "list_all unit_char u" "map_of unit_map u = Some (10 ^ n)" "n < 10"
    and "rest = [] \<or> \<not> unit_char (hd rest)" "digits_value ds * 10 ^ n + v mod 10 ^ n \<le> 2 ^ 63"
  shows "parse_component (ds @ fst (fmt_frac n v) @ u @ rest) = Some (digits_value ds * 10 ^ n + v mod 10 ^ n, rest)"
proof (cases rule: fmt_frac_cases [of n v])
  case 1
  then show ?thesis using whole_component [OF assms(1-5) _ assms(7)] assms(8) by simp
next
  case (2 fs)
  let ?r = "CHR ''.'' # fs @ u @ rest"
  obtain c cs where c: "ds = c # cs" "is_digit c" using assms(1,2) by (cases ds) simp_all
  have whole: "digits_value ds * 10 ^ n \<le> 2 ^ 63" using assms(8) by simp
  have "digits_value ds \<le> digits_value ds * 10 ^ n" by simp
  then have "digits_value ds \<le> 2 ^ 63" using whole by (rule order_trans)
  then have l: "leading_int 0 (ds @ ?r) = Some (digits_value ds, ?r)"
    using leading_int_digits [of ds 0 ?r] assms(2) by (simp add: digits_value_fold is_digit_def byte_def)
  have "leading_fraction 0 (10 ^ 0) False (fs @ u @ rest) = (digits_value fs, 10 ^ length fs, u @ rest)"
    using leading_fraction_digits [of fs 0 0 "u @ rest"] 2(3,4) assms(6) unit_starts [OF assms(4,3), of rest]
    by (simp add: digits_value_fold)
  then have o: "optional_fraction ?r = (True, digits_value fs, 10 ^ length fs, u @ rest)"
    using 2(2) by (simp add: optional_fraction_def)
  have fits: "digits_value ds \<le> 2 ^ 63 div 10 ^ n" using whole by (simp add: less_eq_div_iff_mult_less_eq)
  have exact: "nat \<lfloor>f64_mul (f64_of_int (int (digits_value fs))) (f64_div (f64_of_int (int (10 ^ n))) (10 ^ length fs))\<rfloor> = v mod 10 ^ n"
    using exact_fraction [OF digits_value_below [OF 2(4)] 2(3) assms(6)] 2(5) by simp
  have zero: "digits_value fs = 0 \<Longrightarrow> v mod 10 ^ n = 0" using 2(5) by simp
  from l o take_unit [OF assms(4,7)] assms(3,5,8) c fits exact zero show ?thesis
    by (simp add: parse_component_def Let_def 2(1))
qed

section \<open>A duration reads back\<close>

lemma parse_step:
  assumes "parse_component s = Some (v, r)" "s \<noteq> []" "d + v \<le> 2 ^ 63"
  shows "parse_components d s = parse_components (d + v) r"
  using assms by (subst parse_components.simps) simp

lemma parse_end [simp]: "parse_components d [] = Some d"
  by (simp add: parse_components.simps)

lemma units:
  "map_of unit_map ''s'' = Some (10 ^ 9)" "map_of unit_map ''m'' = Some (60 * 10 ^ 9)" "map_of unit_map ''h'' = Some (3600 * 10 ^ 9)"
  "map_of unit_map ''ns'' = Some (10 ^ 0)" "map_of unit_map (micro_sign @ ''s'') = Some (10 ^ 3)" "map_of unit_map ''ms'' = Some (10 ^ 6)"
  "list_all unit_char ''s''" "list_all unit_char ''m''" "list_all unit_char ''h''" "list_all unit_char ''ns''"
  "list_all unit_char (micro_sign @ ''s'')" "list_all unit_char ''ms''"
  by code_simp+

lemma number_head: "\<not> unit_char (hd (show_nat n @ rest))"
proof -
  obtain c cs where "show_nat n = c # cs" using show_nat_nonempty [of n] by (cases "show_nat n") blast+
  with show_nat_digits [of n] show ?thesis by (simp add: unit_char_def)
qed

lemma seconds_parse:
  assumes "d + (k * 10 ^ 9 + v mod 10 ^ 9) \<le> 2 ^ 63"
  shows "parse_components d (show_nat k @ fst (fmt_frac 9 v) @ ''s'') = Some (d + (k * 10 ^ 9 + v mod 10 ^ 9))"
proof -
  have "parse_component (show_nat k @ fst (fmt_frac 9 v) @ ''s'') = Some (k * 10 ^ 9 + v mod 10 ^ 9, [])"
    using fraction_component [OF show_nat_nonempty [of k] show_nat_digits _ units(7,1), of "[]" v] assms by simp
  from parse_step [OF this _ assms] show ?thesis by simp
qed

lemma number_parse:
  assumes "list_all unit_char u" "u \<noteq> []" "map_of unit_map u = Some unit" "0 < unit" "d + k * unit \<le> 2 ^ 63"
  shows "parse_components d (show_nat k @ u @ show_nat j @ rest) = parse_components (d + k * unit) (show_nat j @ rest)"
proof -
  have "parse_component (show_nat k @ u @ show_nat j @ rest) = Some (k * unit, show_nat j @ rest)"
    using whole_component [OF show_nat_nonempty [of k] show_nat_digits assms(2,1,3,4), of "show_nat j @ rest"] number_head assms(5) by simp
  from parse_step [OF this _ assms(5)] show ?thesis by simp
qed

lemma frac_rest: "snd (fmt_frac n v) = v div 10 ^ n"
  by (cases rule: fmt_frac_cases [of n v]) simp_all

lemma long_parse:
  assumes "u \<le> 2 ^ 63"
  shows "parse_components 0 (long_duration u) = Some u"
proof -
  define w where "w = u div 10 ^ 9"
  define m where "m = w div 60"
  define hs where "hs = m div 60"
  let ?f = "u mod 10 ^ 9"
  have u: "u = (hs * 3600 + (m mod 60) * 60 + w mod 60) * 10 ^ 9 + ?f"
  proof -
    have lin: "w = hs * 3600 + r * 60 + s" if "m = hs * 60 + r" "w = m * 60 + s" for r s using that by simp
    have "m = hs * 60 + m mod 60" "w = m * 60 + w mod 60" unfolding hs_def m_def by presburger+
    then have "w = hs * 3600 + (m mod 60) * 60 + w mod 60" by (rule lin)
    moreover have "u = w * 10 ^ 9 + ?f" unfolding w_def by (rule div_mult_mod_eq [symmetric])
    ultimately show ?thesis by metis
  qed
  have printed: "long_duration u = (if 0 < hs then show_nat hs @ ''h'' else []) @ (if 0 < m then show_nat (m mod 60) @ ''m'' else [])
      @ show_nat (w mod 60) @ fst (fmt_frac 9 u) @ ''s''"
    using frac_rest [of 9 u] by (simp add: long_duration_def Let_def w_def m_def hs_def case_prod_beta)
  have regroup: "0 + a * (3600 * 10 ^ 9) + r * (60 * 10 ^ 9) + (b * 10 ^ 9 + f) = (a * 3600 + r * 60 + b) * 10 ^ 9 + f"
    for a r b f :: nat by (simp add: algebra_simps)
  note total = regroup [of hs "m mod 60" "w mod 60" ?f, folded u]
  consider "m = 0" | "0 < m" "hs = 0" | "0 < hs" "0 < m" by (cases "m = 0"; cases "hs = 0") (auto simp: hs_def)
  then show ?thesis
  proof cases
    case 1
    then have hs: "hs = 0" by (simp add: hs_def)
    have total: "0 + ((w mod 60) * 10 ^ 9 + ?f) = u" using total unfolding 1 hs by (simp only: mult_0 add_0 mod_0)
    have t: "long_duration u = show_nat (w mod 60) @ fst (fmt_frac 9 u) @ ''s''" unfolding printed using 1 hs by simp
    show ?thesis unfolding t by (rule seconds_parse [of 0 "w mod 60" u, unfolded total, OF assms])
  next
    case 2
    let ?d = "0 + (m mod 60) * (60 * 10 ^ 9)"
    have total: "?d + ((w mod 60) * 10 ^ 9 + ?f) = u" using total unfolding 2 by (simp only: mult_0 add_0)
    have t: "long_duration u = show_nat (m mod 60) @ ''m'' @ show_nat (w mod 60) @ fst (fmt_frac 9 u) @ ''s''"
      unfolding printed using 2 by simp
    have "?d \<le> 2 ^ 63" using total assms by linarith
    from number_parse [OF units(8) _ units(2) _ this, of "w mod 60" "fst (fmt_frac 9 u) @ ''s''"]
    have "parse_components 0 (long_duration u) = parse_components ?d (show_nat (w mod 60) @ fst (fmt_frac 9 u) @ ''s'')"
      unfolding t by simp
    also have "\<dots> = Some u" by (rule seconds_parse [of ?d "w mod 60" u, unfolded total, OF assms])
    finally show ?thesis .
  next
    case 3
    let ?h = "0 + hs * (3600 * 10 ^ 9)"
    let ?d = "?h + (m mod 60) * (60 * 10 ^ 9)"
    have t: "long_duration u = show_nat hs @ ''h'' @ show_nat (m mod 60) @ ''m'' @ show_nat (w mod 60) @ fst (fmt_frac 9 u) @ ''s''"
      unfolding printed using 3 by simp
    have le: "?d \<le> 2 ^ 63" "?h \<le> 2 ^ 63" using total assms by linarith+
    from number_parse [OF units(9) _ units(3) _ le(2), of "m mod 60" "''m'' @ show_nat (w mod 60) @ fst (fmt_frac 9 u) @ ''s''"]
    have "parse_components 0 (long_duration u)
        = parse_components ?h (show_nat (m mod 60) @ ''m'' @ show_nat (w mod 60) @ fst (fmt_frac 9 u) @ ''s'')"
      unfolding t by simp
    also from number_parse [OF units(8) _ units(2) _ le(1), of "w mod 60" "fst (fmt_frac 9 u) @ ''s''"]
    have "\<dots> = parse_components ?d (show_nat (w mod 60) @ fst (fmt_frac 9 u) @ ''s'')" by simp
    also have "\<dots> = Some u" by (rule seconds_parse [of ?d "w mod 60" u, unfolded total, OF assms])
    finally show ?thesis .
  qed
qed

lemma unit_parse:
  assumes "map_of unit_map u = Some (10 ^ n)" "list_all unit_char u" "u \<noteq> []" "n < 10" "v \<le> 2 ^ 63"
  shows "parse_components 0 (show_nat (v div 10 ^ n) @ fst (fmt_frac n v) @ u) = Some v"
proof -
  have total: "v div 10 ^ n * 10 ^ n + v mod 10 ^ n = v" by (rule div_mult_mod_eq)
  have "parse_component (show_nat (v div 10 ^ n) @ fst (fmt_frac n v) @ u @ []) = Some (v, [])"
    using fraction_component [OF show_nat_nonempty [of "v div 10 ^ n"] show_nat_digits assms(3,2,1,4), of "[]" v] assms(5)
    by (simp add: total)
  from parse_step [OF this, of 0] assms(5) show ?thesis by simp
qed

lemma small_parse:
  assumes "u < 10 ^ 9"
  shows "parse_components 0 (small_duration u) = Some u"
proof -
  have le: "u \<le> 2 ^ 63" using assms by simp
  have shape: "show_nat (u div 10 ^ n) @ fst (fmt_frac n u) @ w = (let (frac, v) = fmt_frac n u in show_nat v @ frac @ w)" for n w
    using frac_rest [of n u] by (simp add: case_prod_beta)
  consider "u = 0" | "0 < u" "u < 1000" | "1000 \<le> u" "u < 1000000" | "1000000 \<le> u" by linarith
  then show ?thesis
  proof cases
    case 1
    show ?thesis unfolding 1 by code_simp
  next
    case 2
    then have "small_duration u = show_nat (u div 10 ^ 0) @ fst (fmt_frac 0 u) @ ''ns''"
      unfolding shape by (simp add: small_duration_def case_prod_beta)
    then show ?thesis using unit_parse [OF units(4,10) _ _ le] by simp
  next
    case 3
    then have "small_duration u = show_nat (u div 10 ^ 3) @ fst (fmt_frac 3 u) @ micro_sign @ ''s''"
      unfolding shape by (simp add: small_duration_def case_prod_beta)
    then show ?thesis using unit_parse [OF units(5,11) _ _ le] by simp
  next
    case 4
    then have "small_duration u = show_nat (u div 10 ^ 6) @ fst (fmt_frac 6 u) @ ''ms''"
      unfolding shape by (simp add: small_duration_def case_prod_beta)
    then show ?thesis using unit_parse [OF units(6,12) _ _ le] by simp
  qed
qed

lemma duration_head:
  obtains c r where "(if u < 1000000000 then small_duration u else long_duration u) = c # r" "is_digit c" "r \<noteq> []"
proof -
  have "\<exists>n rest. rest \<noteq> [] \<and> small_duration u = show_nat n @ rest"
  proof (cases "u = 0")
    case True
    have "small_duration 0 = show_nat 0 @ ''s''" by code_simp
    with True show ?thesis by blast
  next
    case False
    have ex: "\<exists>n' rest. rest \<noteq> [] \<and> show_nat n @ x @ y # z = show_nat n' @ rest" for n x y z
      by (intro exI [of _ n] exI [of _ "x @ y # z"]) simp
    with False show ?thesis by (simp add: small_duration_def case_prod_beta micro_sign_def)
  qed
  moreover have "\<exists>n rest. rest \<noteq> [] \<and> long_duration u = show_nat n @ rest"
    by (auto simp: long_duration_def case_prod_beta Let_def)
  ultimately obtain n rest where t: "rest \<noteq> []" "(if u < 1000000000 then small_duration u else long_duration u) = show_nat n @ rest"
    by metis
  obtain c cs where "show_nat n = c # cs" using show_nat_nonempty [of n] by (cases "show_nat n") blast+
  with t show_nat_digits [of n] that [of c "cs @ rest"] show thesis by simp
qed

text \<open>Every duration of 64 bits reads back from its text: units, fractions and signs included, and the
  doubles by which the fraction is scaled lose nothing.\<close>

theorem duration_text_roundtrip:
  assumes "- (2 ^ 63) \<le> d" "d < 2 ^ 63"
  shows "parse_duration (duration_string d) = Some d"
proof -
  let ?u = "nat \<bar>d\<bar>"
  let ?t = "if ?u < 1000000000 then small_duration ?u else long_duration ?u"
  have u: "?u \<le> 2 ^ 63" using assms by simp
  have whole: "duration_string d = (if d < 0 then ''-'' else []) @ ?t" by (simp only: duration_string_def Let_def)
  have parse: "parse_components 0 ?t = Some ?u" using small_parse [of ?u] long_parse [OF u] by simp
  obtain c r where t: "?t = c # r" "is_digit c" "r \<noteq> []" by (rule duration_head)
  have c: "c \<noteq> CHR ''-''" "c \<noteq> CHR ''+''" using t(2) by (auto simp: is_digit_def byte_def)
  show ?thesis
  proof (cases "d < 0")
    case True
    then have "duration_string d = CHR ''-'' # c # r" unfolding whole t(1) by simp
    with parse [unfolded t(1)] True t(3) assms show ?thesis by (simp add: parse_duration_def)
  next
    case False
    then have "duration_string d = c # r" unfolding whole t(1) by simp
    with parse [unfolded t(1)] False t(3) c assms show ?thesis by (simp add: parse_duration_def)
  qed
qed

end
