(* ===== verification/Config_Duration.thy ===== *)
theory Config_Duration
  imports Go_Duration Go_Json
begin

text \<open>
  The text forms of the durations of a configuration: the codecs of the type Duration in
  \<open>internal/config/types.go\<close>.  What the YAML library makes of a node as a string and as an integer is a
  parameter; \<open>None\<close> is an error, which leaves the duration as it was.
\<close>

lemma json_string_ascii: "list_all is_ascii p \<Longrightarrow> json_string (p @ s) = p @ json_string s"
  by (induction p) simp_all

definition duration_to_yaml :: "duration \<Rightarrow> string" where
  "duration_to_yaml d = duration_string d"

definition duration_to_json :: "duration \<Rightarrow> json" where
  "duration_to_json d = JStr (json_string (duration_string d))"

text \<open>The product of two 64-bit numbers wraps.\<close>

definition seconds_duration :: "int \<Rightarrow> duration" where
  "seconds_duration n = sint (word_of_int (n * second) :: 64 word)"

definition int64_seconds :: "int \<Rightarrow> duration option" where
  "int64_seconds n = (if min_int64 \<le> n \<and> n \<le> max_int64 then Some (seconds_duration n) else None)"

text \<open>A null is decoded as the empty string.\<close>

fun duration_of_json :: "json \<Rightarrow> duration option" where
  "duration_of_json (JStr s) = parse_duration s"
| "duration_of_json JNull = parse_duration []"
| "duration_of_json (JNum n) = int64_seconds n"
| "duration_of_json _ = None"

definition duration_of_yaml :: "('n \<Rightarrow> string option) \<Rightarrow> ('n \<Rightarrow> int option) \<Rightarrow> 'n option \<Rightarrow> duration \<Rightarrow> duration option" where
  "duration_of_yaml as_string as_int node d =
     (case node of
        None \<Rightarrow> Some d
      | Some n \<Rightarrow>
          (case as_string n of
             Some s \<Rightarrow> parse_duration s
           | None \<Rightarrow> (case as_int n of Some k \<Rightarrow> Some (seconds_duration k) | None \<Rightarrow> None)))"

section \<open>The text is plain\<close>

lemma digits_ascii: "list_all is_digit s \<Longrightarrow> list_all is_ascii s"
  by (auto simp: list_all_iff is_digit_def is_ascii_def)

lemma frac_ascii: "list_all is_ascii (fst (fmt_frac n v))"
  by (cases rule: fmt_frac_cases [of n v]) (auto simp: digits_ascii is_ascii_def byte_def)

lemma number_ascii: "list_all is_ascii (show_nat n)"
  by (rule digits_ascii [OF show_nat_digits])

lemma letters_ascii: "list_all is_ascii ''s''" "list_all is_ascii ''m''" "list_all is_ascii ''h''" "list_all is_ascii ''ms''"
    "list_all is_ascii ''ns''" "list_all is_ascii ''0s''" "list_all is_ascii ''-''"
  by code_simp+

lemma duration_json_string: "json_string (duration_string d) = duration_string d"
proof -
  let ?u = "nat \<bar>d\<bar>"
  have whole: "json_string s = s" if "list_all is_ascii s" for s
    using json_string_ascii [OF that, of "[]"] by simp
  have sign: "json_string ((if d < 0 then ''-'' else []) @ s) = (if d < 0 then ''-'' else []) @ json_string s" for s
    using json_string_ascii [of "''-''" s] letters_ascii(7) by simp
  have long: "list_all is_ascii (long_duration u)" for u
    using number_ascii frac_ascii letters_ascii by (simp add: long_duration_def case_prod_beta Let_def)
  have mu: "json_string (micro_sign @ ''s'') = micro_sign @ ''s''" by code_simp
  have "json_string (show_nat n @ fst (fmt_frac 3 v) @ micro_sign @ ''s'') = show_nat n @ fst (fmt_frac 3 v) @ micro_sign @ ''s''" for n v
    using json_string_ascii [of "show_nat n @ fst (fmt_frac 3 v)" "micro_sign @ ''s''"] number_ascii frac_ascii mu by simp
  moreover have "list_all is_ascii (show_nat n @ fst (fmt_frac k v) @ ''ns'')" "list_all is_ascii (show_nat n @ fst (fmt_frac k v) @ ''ms'')" for n k v
    using number_ascii frac_ascii letters_ascii by simp_all
  ultimately have "json_string (small_duration ?u) = small_duration ?u"
    using whole letters_ascii(6) by (simp add: small_duration_def case_prod_beta)
  then have "json_string (if ?u < 1000000000 then small_duration ?u else long_duration ?u)
      = (if ?u < 1000000000 then small_duration ?u else long_duration ?u)" using whole [OF long] by simp
  then show ?thesis unfolding duration_string_def Let_def sign by (rule arg_cong)
qed

section \<open>Properties\<close>

text \<open>C28: A duration of the configuration reads back from what is written for it, in JSON and in YAML,
  whatever its unit, fraction and sign: nothing is lost to the doubles the parser scales fractions with.\<close>

theorem duration_reads_back:
  assumes "- (2 ^ 63) \<le> d" "d < 2 ^ 63" "as_string n = Some (duration_to_yaml d)"
  shows "duration_of_json (duration_to_json d) = Some d \<and> duration_of_yaml as_string as_int (Some n) d0 = Some d"
  using duration_text_roundtrip [OF assms(1,2)] assms(3)
  by (simp add: duration_to_json_def duration_to_yaml_def duration_of_yaml_def duration_json_string)

lemma duration_reads_back_witness:
  "duration_of_json (duration_to_json (- 5400000000001)) = Some (- 5400000000001)
   \<and> duration_of_yaml Some (\<lambda>_. None) (Some (duration_to_yaml (- 5400000000001))) 0 = Some (- 5400000000001)"
  by (rule duration_reads_back) simp_all

text \<open>A number of seconds whose nanoseconds do not fit wraps around without an error.\<close>

lemma large_seconds_wrap: "duration_of_json (JNum 9223372037) = Some (- 9223372036709551616)"
  by code_simp

text \<open>Numbers reach the string parser where the library reads a number as its text: they lack a unit.\<close>

lemma bare_number_rejected: "parse_duration ''60'' = None" "parse_duration ''60s'' = Some (60 * second)"
  by code_simp+

end
