(* ===== verification/Spec2Isabelle.thy ===== *)
theory Spec2Isabelle
  imports Blocklist_Sync Stats_Aggregator Dns_Server Api_Config Api_Lists Store_Admin Cli_Backup Gateway_Life Config_Duration
begin

text \<open>
  Sis is a privacy DNS gateway: it answers the DNS queries of a home network over UDP and TCP, blocks
  names by downloaded and runtime lists and by the schedules of groups of clients, forwards the rest
  over HTTPS, and is managed through an HTTP API, a command line and a YAML file.  This development
  translates the Go code under src/internal and src/cmd/sis into definitions and proves what makes each part, and their
  composition, correct.

  THE PARTS AND HOW THEY WORK TOGETHER.  A query enters through a listener (\<open>Dns_Server\<close>), is queued for a
  worker (\<open>Dns_Workers\<close>) and handled by the pipeline (\<open>Pipeline\<close>): rate limit, identity of the client, local
  answers, verdict of the policy engine, cache, upstream, and at the end counters and query log.  The
  engine (\<open>Policy_Engine\<close>) holds the compiled groups of the configuration (\<open>Policy_Groups\<close>), the lists
  that the syncer (\<open>Blocklist_Sync\<close>) downloads through the fetcher (\<open>Blocklist_Fetcher\<close>) and the parser
  (\<open>Blocklist_Parser\<close>), and the runtime lists of the store, all as suffix sets (\<open>Domains\<close>).  The API
  (\<open>Api_Routes\<close>) runs every request through its guards (\<open>Api_Http\<close>, \<open>Api_Limiter\<close>, \<open>Api_Auth\<close>) to a handler, and
  a change of the configuration is validated, saved and applied to every running part (\<open>Api_Config\<close>).
  Records live in one of two stores (\<open>Kv_Store\<close>, \<open>Sqlite_Store\<close>).  The command line talks to the API
  (\<open>Cli_Commands\<close>) or works on the files (\<open>Cli_Local\<close>, \<open>Cli_Backup\<close>), and \<open>serve\<close> (\<open>Serve\<close>) puts the parts together.

  THEORIES AND SOURCES, each with its operations in the order of the code.
  The library: \<open>Prelude\<close> (association lists for Go maps, results, hints), \<open>Go_Time\<close>, \<open>Go_Float\<close> (IEEE doubles as
  the code uses them), \<open>Go_Strings\<close>, \<open>Go_Net\<close>, \<open>Go_Json\<close>, \<open>Go_Base64\<close>, \<open>Go_Format\<close>, \<open>Go_Duration\<close>: what the sources use of Go's standard library.
  internal/policy: \<open>Domains\<close> (domains.go), \<open>Blocklist_Parser\<close> (parser.go), \<open>Policy_Groups\<close> (group.go), \<open>Policy_Engine\<close>
  (engine.go, store_resolver.go), \<open>Blocklist_Fetcher\<close> (fetcher.go), \<open>Blocklist_Sync\<close> (sync.go).
  internal/config: \<open>Config_Types\<close>, \<open>Config_Duration\<close>, \<open>Config_Validate\<close>, \<open>Config_Load\<close> (types.go twice, validate.go; load.go, holder.go, reload.go).
  internal/dns: \<open>Dns_Msg\<close> (the messages of miekg/dns the code builds), \<open>Dns_Synthetic\<close> (synthetic.go, special.go,
  edns.go), \<open>Dns_Cache\<close>, \<open>Rate_Limiter\<close>, \<open>Client_Id\<close> (client_id.go, arp.go), \<open>Pipeline\<close>, \<open>Dns_Workers\<close>, \<open>Dns_Server\<close>.
  internal/upstream: \<open>Doh_Client\<close>, \<open>Upstream_Pool\<close>.  internal/stats: \<open>Stats_Counters\<close> (with histogram.go), \<open>Stats_Aggregator\<close>.
  internal/log: \<open>Log_Rotator\<close>, \<open>Query_Log\<close> (with fanout.go), \<open>Audit_Log\<close> (with config/secrets.go).
  internal/store: \<open>Kv_Store\<close> (file.go, models.go), \<open>Sqlite_Db\<close> (the statements of sqlite.go), \<open>Sqlite_Store\<close>,
  \<open>Sqlite_Mirror\<close>, \<open>Sqlite_Open\<close> (sqlite.go), \<open>Store_Backends\<close> (the two compared), \<open>Store_Admin\<close> (verify.go, transfer.go, maintenance.go).
  internal/api: \<open>Api_Types\<close>, \<open>Api_Http\<close> (middleware.go, server.go), \<open>Api_Password\<close>, \<open>Api_Limiter\<close>, \<open>Api_Auth\<close>, \<open>Api_Lists\<close>,
  \<open>Api_Config\<close>, \<open>Api_Clients\<close>, \<open>Api_Reports\<close>, \<open>Api_Metrics\<close>, \<open>Api_Routes\<close>: the file of each name, and the table of routes of server.go.
  cmd/sis: \<open>Cli_Commands\<close> (httpcli.go and the requests of main.go), \<open>Cli_Local\<close>, \<open>Cli_Backup\<close>, \<open>Serve\<close>, \<open>Gateway_Life\<close> (main.go).

  STATE AND OPERATIONS.  A struct is a record with the same fields, less mutexes; a method is a function
  from the state to the new state with its results, one step under the lock that the code takes;
  pointers that may be nil are options; shared parts are parts of one state (the store, cache, engine,
  pool, log and counters that pipeline and API share are the pipeline of the API state, and the syncer
  of a running gateway gets its engine from there).  Errors
  are sums or options, and every early return is a branch.  64-bit counters, ports and lengths whose
  wrap-around shows are words; other integers are int.  Go maps are
  association lists with distinct keys, in the order of insertion where the code does not sort.

  THE OUTSIDE WORLD is a parameter: the clock of each step, random bytes, the network, every system call that can
  fail, HMAC, IDNA and non-ASCII case tables, the YAML codec, the JSON codecs of
  whole structs, the wire codec of DNS, tar, gzip and age.  Environments are records of such answers
  (\<open>golib\<close>, \<open>dnslib\<close>, \<open>pipe_env\<close>, \<open>api_env\<close>, \<open>local_env\<close>, \<open>serve_env\<close> and others); what a theorem needs of them is a hypothesis,
  with a witness on a concrete environment.  The SQL statements have the meaning of SQL on
  tables with their keys, and the database engine may fail at any call (\<open>sql_io\<close>).

  WHAT IS SHOWN.
  Filtering: the suffix set answers Match and Len after every history of Add and Delete as the set of stored
  patterns does; the verdict on every reachable engine is that of the first covering source
  unless an allowlist covers the name; schedules are active in their windows, over midnight too;
  parsing, compiling and reloading a list or a configuration is all or nothing.
  Answering: a query passes the stages in their order and each history of queries is served to its end and counted
  exactly (the loops of the code are bounded by their data: candidates times rounds for an upstream, the
  backlog for a cache); a blocked name reaches neither upstream nor cache; no client-subnet option
  leaves; the cache refines a bounded list in order of use and returns only what is fresh; the circuit
  breakers try, skip and recover as stated; workers run accepted jobs in order, and a start binds every listener or none.
  Managing: no handler is reached without a live session; the configuration stays valid whatever the API does;
  a change that is applied is taken by every part and one that is refused leaves what runs; what a command sends is routed to its endpoint; the
  metrics page reads back to the counters; a domain blocked through the API is blocked from the next query on and
  after every restart on the same file; the text of a duration reads back to it.
  Storing: the typed tables of SQLite mirror its key-value table whatever fails; the two backends answer every
  history alike; migration, export, import and backup keep the records.
  The gateway: whatever happens after a start (\<open>gateway_step\<close>), every query is answered, the configuration stays
  valid and the invariants hold.
  Interfaces are locales: suffix sets, key-value stores, collections mirrored by a table, and others, each
  interpreted on the model of the code in the theory that provides it.

  BOUNDS.  No function runs on fuel except where the code has a bound of its own (the number of retry
  rounds, the size of a queue); recursions that are not structural have termination proofs.

  NOT MODELLED.  Goroutines are the moments their operations are called: the timers of the syncer, the
  prober, the aggregator and the neighbour table, the accept loops and the buffer pool of the
  listeners are left out, and so are races between steps that the code takes under different locks, which are
  named in the findings.  The access log and the process log only print.
  The HTTP server and client below the handlers, TLS, the OpenTelemetry exporter, net/http/pprof and
  the embedded web interface are libraries that the sources call; their routes are modelled.  The
  debug dump of SIGUSR2 writes profiles of the Go runtime, the exit status of the command is not
  observed, and the generator of the software bill of materials (internal/tools) and the version string are
  no part of the running gateway.
\<close>

section \<open>Properties that span components\<close>

text \<open>A query whose name is blocked for whoever asks reaches no upstream and no cached answer.\<close>

lemma blocked_contained:
  assumes "cache_ok (pp_cache p)" "rq_msg r = Some req" "m_opcode req = opcode_query"
    and "m_question req = q # qs" "q_class q = class_inet"
    and "\<And>ident. dc_blocked (verdict E ident (canonical_qname (en_dns E) (q_name q)) (touch_client E ident p))"
  shows "\<exists>p' resp. handle E (Some r) p = Some (p', resp) \<and> pp_upstream p' = pp_upstream p
     \<and> (rs_source resp = ''rate-limit'' \<or> rs_source resp = ''local''
        \<or> rs_source resp = ''synthetic'' \<and> rs_msg resp =
            Some ((synth_block (en_dns E) (Some req) (q_type q) (block_options_of (pp_config p)))
              \<lparr>m_recursion_available := True\<rparr>))"
proof -
  have "outcome_of E r req p \<in> {Limited} \<union> range Local
      \<union> {Blocked (synth_block (en_dns E) (Some req) (q_type q) (block_options_of (pp_config p)))}"
    using assms(6) by (auto simp: outcome_of_def query_outcome_def Let_def assms(3-5) split: option.split)
  then show ?thesis
    using handle_realizes [OF assms(1,2), of E] by (auto simp: realizes_def)
qed

lemma runtime_block_contained:
  assumes "cache_ok (pp_cache p)" "rq_msg r = Some req" "m_opcode req = opcode_query"
    and "m_question req = q # qs" "q_class q = class_inet"
    and "engine_reach (en_go E) e" "pp_policy p = Some (fst (add_custom_block (en_go E) x e))"
    and "covers (labels_for (en_go E)) x (canonical_qname (en_dns E) (q_name q))"
    and "\<And>ident s. \<exists>g. po_group (engine_for (en_group_of E s) ident e) = Some g
      \<and> \<not> allowed (en_go E) (engine_for (en_group_of E s) ident e) g (canonical_qname (en_dns E) (q_name q))"
  shows "\<exists>p' resp. handle E (Some r) p = Some (p', resp) \<and> pp_upstream p' = pp_upstream p
     \<and> (rs_source resp = ''rate-limit'' \<or> rs_source resp = ''local''
        \<or> rs_source resp = ''synthetic'' \<and> rs_msg resp =
            Some ((synth_block (en_dns E) (Some req) (q_type q) (block_options_of (pp_config p)))
              \<lparr>m_recursion_available := True\<rparr>))"
proof (rule blocked_contained [OF assms(1-5)])
  fix ident
  let ?n = "canonical_qname (en_dns E) (q_name q)" and ?p = "touch_client E ident p"
  let ?id = "\<lparr>id_key = di_key ident, id_type = di_type ident, id_ip = ip_string (di_ip ident)\<rparr>"
  obtain g where "po_group (engine_for (en_group_of E (pp_store ?p)) ?id e) = Some g"
    "\<not> allowed (en_go E) (engine_for (en_group_of E (pp_store ?p)) ?id e) g ?n"
    using assms(9) [of "pp_store ?p" ?id] by blast
  from custom_block_verdict [OF assms(6,8) this] show "dc_blocked (verdict E ident ?n ?p)"
    by (simp add: verdict_def touch_client_frame assms(7))
qed

lemma listed_name_contained:
  assumes "cache_ok (pp_cache p)" "rq_msg r = Some req" "m_opcode req = opcode_query"
    and "m_question req = q # qs" "q_class q = class_inet" "pp_policy p = Some e"
    and "domains_match (en_go E) (canonical_qname (en_dns E) (q_name q)) (pe_custom e)"
    and "\<And>ident s. \<exists>g. po_group (engine_for (en_group_of E s) ident e) = Some g
      \<and> \<not> allowed (en_go E) (engine_for (en_group_of E s) ident e) g (canonical_qname (en_dns E) (q_name q))"
  shows "\<exists>p' resp. handle E (Some r) p = Some (p', resp) \<and> pp_upstream p' = pp_upstream p
     \<and> rs_source resp \<in> {''rate-limit'', ''local'', ''synthetic''}"
proof -
  have "dc_blocked (verdict E ident (canonical_qname (en_dns E) (q_name q)) (touch_client E ident p))" for ident
  proof -
    let ?n = "canonical_qname (en_dns E) (q_name q)" and ?p = "touch_client E ident p"
    let ?id = "\<lparr>id_key = di_key ident, id_type = di_type ident, id_ip = ip_string (di_ip ident)\<rparr>"
    obtain g where "po_group (engine_for (en_group_of E (pp_store ?p)) ?id e) = Some g"
      "\<not> allowed (en_go E) (engine_for (en_group_of E (pp_store ?p)) ?id e) g ?n"
      using assms(8) [of "pp_store ?p" ?id] by blast
    from custom_hit_verdict [OF assms(7) this] show ?thesis by (simp add: verdict_def touch_client_frame assms(6))
  qed
  from blocked_contained [OF assms(1-5) this] show ?thesis by blast
qed


text \<open>A query for a name below \<open>b.org\<close>, and an engine whose allowlists are empty.\<close>

lemma sample_query:
  "m_opcode (ask ''x.b.org.'' type_a) = opcode_query" "rq_msg (from_lan ''x.b.org.'') = Some (ask ''x.b.org.'' type_a)"
  "m_question (ask ''x.b.org.'' type_a) = [\<lparr>q_name = ''x.b.org.'', q_type = type_a, q_class = class_inet\<rparr>]"
  "canonical_qname (en_dns bare_env) ''x.b.org.'' = ''x.b.org.''" "covers (labels_for ascii_lib) ''b.org'' ''x.b.org.''"
  "en_go bare_env = ascii_lib"
proof -
  have "labels_for ascii_lib ''b.org'' = Some [''org'', ''b'']"
    "labels_for ascii_lib ''x.b.org.'' = Some [''org'', ''b'', ''x'']" by code_simp+
  then show "covers (labels_for ascii_lib) ''b.org'' ''x.b.org.''" by (simp add: covers_def)
  show "canonical_qname (en_dns bare_env) ''x.b.org.'' = ''x.b.org.''" by code_simp
qed (simp_all add: ask_def new_msg_def opcode_query_def from_lan_def bare_env_def)

lemma sample_allow:
  "\<exists>g. po_group (engine_for (en_group_of bare_env s) ident sample_engine) = Some g
      \<and> \<not> allowed ascii_lib (engine_for (en_group_of bare_env s) ident sample_engine) g ''x.b.org.''"
proof -
  have "case pe_groups sample_engine of [(i, g)] \<Rightarrow> i = ''default'' \<and> \<not> domains_match ascii_lib ''x.b.org.'' (pg_allow g) | _ \<Rightarrow> False"
    by code_simp
  then obtain g where g: "pe_groups sample_engine = [(''default'', g)]" "\<not> domains_match ascii_lib ''x.b.org.'' (pg_allow g)"
    by (cases "pe_groups sample_engine"; cases "tl (pe_groups sample_engine)") (auto split: list.splits prod.splits)
  have "\<not> domains_match ascii_lib ''x.b.org.'' (pe_allowlist sample_engine)"
    "\<not> domains_match ascii_lib ''x.b.org.'' (pe_custom_allow sample_engine)" by code_simp+
  with g show ?thesis by (auto simp: engine_for_def allowed_def Let_def)
qed



text \<open>A request that puts \<open>b.org\<close> on the runtime blocklist of a home.\<close>

definition block_env :: "file_store api_env" where
  "block_env = home_env\<lparr>an_parse := \<lambda>_. Inr (JObj [(''domain'', JStr ''b.org'')], [])\<rparr>"

lemma block_body:
  "decode_json (an_parse block_env) (strings_of_json [''domain'']) (api_request v path c) = Inr (string_field [(''domain'', JStr ''b.org'')])"
  "string_field [(''domain'', JStr ''b.org'')] ''domain'' = ''b.org''" "normalize_domain_pattern ascii_lib ''b.org'' = Some ''b.org''"
proof -
  have "map lower_char ''domain'' = ''domain''" by code_simp
  then show "decode_json (an_parse block_env) (strings_of_json [''domain'']) (api_request v path c)
      = Inr (string_field [(''domain'', JStr ''b.org'')])"
    by (simp add: decode_json_def read_body_def api_request_def block_env_def del: list.map)
  show "string_field [(''domain'', JStr ''b.org'')] ''domain'' = ''b.org''" "normalize_domain_pattern ascii_lib ''b.org'' = Some ''b.org''"
    by code_simp+
qed

lemma block_request:
  assumes "ap_has_store s" "api_store s = empty_store"
  obtains w' s' where "custom_blocklist_add block_env (api_request v path c) (fresh_writer, s) = (w', s')" "w_status w' = Some 201"
    "Some (fs_disk (api_store s')) = home_disk"
proof -
  have lib: "an_go block_env = ascii_lib" "an_kv block_env = file_ops (\<lambda>_. Saved)" by (simp_all add: block_env_def home_env_def)
  have "json_string ''customlist:custom:b.org'' = ''customlist:custom:b.org''" by code_simp
  then obtain st where store: "custom_add (file_ops (\<lambda>_. Saved)) ''custom'' ''b.org'' empty_store = (st, None)" "Some (fs_disk st) = home_disk"
    by (simp add: custom_add_def file_ops_def file_put_def save_locked_def empty_store_def home_disk_def Let_def)
  obtain w' s' where add: "custom_blocklist_add block_env (api_request v path c) (fresh_writer, s) = (w', s')" "w_status w' = Some 201"
    using block_body store(1) assms
    by (auto simp: custom_blocklist_add_def normalize_domain_input_def lib
        write_json_status_def status_write_body write_header_def fresh_writer_def Let_def)
  have "api_store s' = st"
    by (rule custom_blocklist_added [OF add]) (use block_body store(1) assms(2) in \<open>auto simp: lib\<close>)
  with that [OF add] store(2) show thesis by simp
qed




end
